(* ===== verification/Prelude.thy ===== *)
theory Prelude
  imports Main "HOL-Library.Sublist" "HOL-Library.Char_ord"
begin

text \<open>
  Shared vocabulary of the development: the type of an input position, the bytes of the
  machine type \<open>char\<close>, the fact collections the component theories fill, and the generic
  lemmas on suffixes and consumed text that they all use.

  A position (\<open>std::string::const_iterator\<close>) is modelled by the characters from that
  position up to the end of the input: \<open>begin == end\<close> is \<open>it = []\<close>, \<open>*begin\<close> is \<open>hd it\<close>
  and \<open>++begin\<close> is \<open>tl it\<close>. Within one input, a position is determined by its remaining
  characters, so equality of positions is equality of these lists.
\<close>

type_synonym iter = string

named_theorems grammar_defs \<open>the definitions of the grammar rules, for evaluation\<close>
named_theorems guard_simps \<open>facts that decide whether a rule is free of left recursion\<close>

subsection \<open>C strings\<close>

text \<open>What a function that takes a C string sees of a text: it ends at the first NUL.\<close>

abbreviation NUL :: char where
  "NUL \<equiv> CHR 0x00"

definition c_str :: "string \<Rightarrow> string" where
  "c_str s = takeWhile (\<lambda>c. c \<noteq> NUL) s"

subsection \<open>Positions and the text between two of them\<close>

definition span_text :: "iter \<Rightarrow> iter \<Rightarrow> string" where
  "span_text b e = take (length b - length e) b"

lemma span_text_append [simp]: "span_text (w @ e) e = w"
  by (simp add: span_text_def)

lemma span_text_same [simp]: "span_text b b = []"
  by (simp add: span_text_def)

lemma span_text_suffix: "suffix e b \<Longrightarrow> b = span_text b e @ e"
  by (auto simp: suffix_def)

lemma span_text_cover [simp]: "suffix e b \<Longrightarrow> span_text b e @ e = b"
  by (auto simp: suffix_def)

lemma suffix_length_eq: "suffix e b \<Longrightarrow> length e = length b \<Longrightarrow> e = b"
  by (auto simp: suffix_def)

lemma suffix_neq_shorter: "suffix e b \<Longrightarrow> e \<noteq> b \<Longrightarrow> length e < length b"
  by (auto simp: suffix_def)

lemma suffix_length_le: "suffix e b \<Longrightarrow> length e \<le> length b"
  by (auto simp: suffix_def)

lemma suffix_appendI: "b = w @ e \<Longrightarrow> suffix e b"
  by (auto simp: suffix_def)

lemma append_suffix_cancel: "(x @ s = y @ s) = (x = y)"
  by simp

subsection \<open>Splitting a text at a separator\<close>

fun split_on :: "'a \<Rightarrow> 'a list \<Rightarrow> 'a list list" where
  "split_on d [] = [[]]"
| "split_on d (c # cs) =
     (if c = d then [] # split_on d cs
      else (case split_on d cs of [] \<Rightarrow> [[c]] | w # ws \<Rightarrow> (c # w) # ws))"

lemma split_on_first:
  "split_on d s = takeWhile (\<lambda>c. c \<noteq> d) s #
     (case dropWhile (\<lambda>c. c \<noteq> d) s of [] \<Rightarrow> [] | _ # rest \<Rightarrow> split_on d rest)"
  by (induction s) auto

lemma list_all_split_on:
  "list_all p (split_on d s) \<longleftrightarrow> p (takeWhile (\<lambda>c. c \<noteq> d) s) \<and>
     (case dropWhile (\<lambda>c. c \<noteq> d) s of [] \<Rightarrow> True | _ # rest \<Rightarrow> list_all p (split_on d rest))"
  by (subst split_on_first) (simp split: list.split del: dropWhile_eq_Nil_conv)

lemma length_split_on:
  "length (split_on d s) =
     (case dropWhile (\<lambda>c. c \<noteq> d) s of [] \<Rightarrow> 1 | _ # rest \<Rightarrow> Suc (length (split_on d rest)))"
  by (subst split_on_first) (simp split: list.split del: dropWhile_eq_Nil_conv)

lemma dropWhile_separator:
  obtains "dropWhile (\<lambda>c. c \<noteq> d) s = []" | rest where "dropWhile (\<lambda>c. c \<noteq> d) s = d # rest"
  using hd_dropWhile [of "\<lambda>c. c \<noteq> d" s] by (cases "dropWhile (\<lambda>c. c \<noteq> d) s") auto

text \<open>Reading characters of a class up to the separator, which is not in the class.\<close>

lemma dropWhile_class_word:
  "\<not> q d \<Longrightarrow> list_all q (takeWhile (\<lambda>c. c \<noteq> d) s) \<Longrightarrow> dropWhile q s = dropWhile (\<lambda>c. c \<noteq> d) s"
  by (induction s) (auto split: if_splits)

lemma dropWhile_class_stops:
  "\<not> q d \<Longrightarrow> \<not> list_all q (takeWhile (\<lambda>c. c \<noteq> d) s) \<Longrightarrow> dropWhile q s \<noteq> [] \<and> hd (dropWhile q s) \<noteq> d"
  by (induction s) (auto split: if_splits simp del: dropWhile_eq_Nil_conv)

lemma dropWhile_Nil_list_all: "dropWhile p s = [] \<longleftrightarrow> list_all p s"
  by (auto simp: list_all_iff)

lemma takeWhile_separator [simp]:
  "takeWhile (\<lambda>c. c \<noteq> d) (w @ d # y) = takeWhile (\<lambda>c. c \<noteq> d) w"
  by (induction w) auto

lemma dropWhile_separator_append [simp]:
  "dropWhile (\<lambda>c. c \<noteq> d) (w @ d # y) = dropWhile (\<lambda>c. c \<noteq> d) w @ d # y"
  by (induction w) auto

lemma split_on_chars: "list_all (list_all q) (split_on d s) \<Longrightarrow> q d \<Longrightarrow> list_all q s"
  by (induction s) (auto split: if_splits list.splits)

lemma split_on_not_Nil [simp]: "split_on d s \<noteq> []"
  by (subst split_on_first) simp

subsection \<open>Classes of characters\<close>

abbreviation between :: "char \<Rightarrow> char \<Rightarrow> char \<Rightarrow> bool" where
  "between a b c \<equiv> a \<le> c \<and> c \<le> b"

definition is_letter :: "char \<Rightarrow> bool" where
  "is_letter c \<longleftrightarrow> between (CHR ''a'') (CHR ''z'') c \<or> between (CHR ''A'') (CHR ''Z'') c"

definition is_digit :: "char \<Rightarrow> bool" where
  "is_digit c \<longleftrightarrow> between (CHR ''0'') (CHR ''9'') c"

lemma char_eq_code: "c = d \<longleftrightarrow> (of_char c :: nat) = of_char d"
  by simp

lemma is_digit_code: "is_digit c \<longleftrightarrow> 48 \<le> (of_char c :: nat) \<and> of_char c \<le> (57 :: nat)"
  by (simp add: is_digit_def less_eq_char_def)

text \<open>The number a text of decimal digits stands for.\<close>

definition dec_value :: "string \<Rightarrow> nat" where
  "dec_value w = foldl (\<lambda>n c. 10 * n + (of_char c - 48)) 0 w"

lemma dec_value_mono: "n \<le> foldl (\<lambda>n c. 10 * n + (of_char c - 48)) (n :: nat) w"
proof (induction w arbitrary: n)
  case (Cons c cs)
  show ?case using Cons.IH [of "10 * n + (of_char c - 48)"] by simp
qed simp

subsection \<open>The machine type \<open>char\<close>\<close>

text \<open>
  On the targets of the library \<open>char\<close> is a signed eight-bit type, and comparisons such as
  \<open>x >= first\<close> compare its signed values.
\<close>

definition char_val :: "char \<Rightarrow> int" where
  "char_val c = (let n = of_char c in if n < 128 then n else n - 256)"

lemma of_char_int_bounds: "0 \<le> (of_char c :: int) \<and> (of_char c :: int) < 256"
proof -
  have "(of_char c :: nat) < 256" by simp
  then have "int (of_char c) < 256" by linarith
  moreover have "0 \<le> int (of_char c)" by (rule of_nat_0_le_iff)
  ultimately show ?thesis unfolding of_nat_of_char by simp
qed

lemma char_val_bounds: "-128 \<le> char_val c \<and> char_val c \<le> 127"
  using of_char_int_bounds [of c] by (auto simp: char_val_def Let_def)

lemma char_val_inject [simp]: "char_val c = char_val d \<longleftrightarrow> c = d"
proof
  assume e: "char_val c = char_val d"
  have "(of_char c :: int) = of_char d"
    using e of_char_int_bounds [of c] of_char_int_bounds [of d]
    by (auto simp: char_val_def Let_def split: if_splits)
  then show "c = d" by (simp only: of_char_eq_iff)
qed simp

end
