(* ===== verification/Parse.thy ===== *)
theory Parse
  imports Prelude
begin

text \<open>
  The text parser of \<^verbatim>\<open>include/xtd/parse.hpp\<close>. A grammar rule is a C++ type built from the
  combinator templates; here it is a value of the datatype \<open>rule\<close>, one constructor per
  template. Parsing a rule instantiates a node of that type, so the type of a node, and the
  \<open>failed_rule\<close> of an error, is the rule itself.

  A \<open>parse\<close> member function becomes a function of the context (whose error list it extends)
  and the position \<open>begin\<close>; it returns the node or nothing (the null pointer), the context and
  the position \<open>begin\<close> is left at. The outer option is for the stack: C++ rule types may refer
  to one another in a cycle, which is a \<open>RuleRef\<close> here, and \<open>None\<close> means that more nested
  references were needed than the fuel allows.
\<close>

subsection \<open>Rules, errors, the context and the syntax tree\<close>

text \<open>The part of \<open>std::regex\<close> that the repository's patterns use: a sequence of
  single-character classes, each once or repeated greedily.\<close>

datatype re_quant = Re_One | Re_Star | Re_Plus | Re_Opt

datatype re_class = Re_Class (re_negated: bool) (re_ranges: "(char \<times> char) list")

type_synonym re_item = "re_class \<times> re_quant"

datatype rule =
    NotR "rule list"                 \<comment> \<open>\<open>not_<...>\<close>\<close>
  | AndR "rule list"                 \<comment> \<open>\<open>and_<...>\<close>\<close>
  | OrR "rule list"                  \<comment> \<open>\<open>or_<...>\<close>\<close>
  | OneOrMore rule                   \<comment> \<open>\<open>one_or_more_<r>\<close>\<close>
  | ZeroOrMore rule                  \<comment> \<open>\<open>zero_or_more_<r>\<close>\<close>
  | ZeroOrOne rule                   \<comment> \<open>\<open>zero_or_one_<r>\<close>\<close>
  | StringR string                   \<comment> \<open>\<open>string<char[n], lit>\<close>\<close>
  | CharacterR char                  \<comment> \<open>\<open>character<c>\<close>\<close>
  | CharactersR char char            \<comment> \<open>\<open>characters<first, last>\<close>\<close>
  | RegexR string "re_item list"     \<comment> \<open>\<open>regex<char[n], pattern>\<close> and the parsed pattern\<close>
  | RuleD string rule                \<comment> \<open>\<open>struct d : rule<d, impl>\<close>\<close>
  | RuleE string                     \<comment> \<open>\<open>struct d : rule<d>\<close>, decl and impl the same type\<close>
  | RuleRef string                   \<comment> \<open>a forward-declared struct, defined by the grammar\<close>

record parse_error =
  failed_rule :: rule
  position :: iter
  expected :: string
  found :: string

record parse_context =
  ignore_whitespace :: bool
  ignore_case :: bool
  whitespace_chars :: string
  parse_errors :: "parse_error list"

datatype ast = Node (node_type: rule) (get_text: string) (children: "ast list")

text \<open>The structs a \<open>RuleRef\<close> can name.\<close>

type_synonym grammar = "string \<Rightarrow> rule option"

type_synonym matcher = "parse_context \<Rightarrow> iter \<Rightarrow> (ast option \<times> parse_context \<times> iter) option"

subsection \<open>Character helpers and the context\<close>

definition to_lower_ch :: "char \<Rightarrow> char" where
  "to_lower_ch c =
     (if char_val (CHR ''A'') \<le> char_val c \<and> char_val c \<le> char_val (CHR ''Z'')
      then char_of (char_val c - char_val (CHR ''A'') + char_val (CHR ''a'')) else c)"

definition swap_case_ch :: "char \<Rightarrow> char" where
  "swap_case_ch c =
     (if char_val (CHR ''A'') \<le> char_val c \<and> char_val c \<le> char_val (CHR ''Z'')
      then char_of (char_val c - char_val (CHR ''A'') + char_val (CHR ''a''))
      else if char_val (CHR ''a'') \<le> char_val c \<and> char_val c \<le> char_val (CHR ''z'')
      then char_of (char_val c - char_val (CHR ''a'') + char_val (CHR ''A''))
      else c)"

definition char_match :: "char \<Rightarrow> char \<Rightarrow> bool \<Rightarrow> bool" where
  "char_match a b ic = (if ic then to_lower_ch a = to_lower_ch b else a = b)"

definition is_whitespace :: "parse_context \<Rightarrow> char \<Rightarrow> bool" where
  "is_whitespace ctx c \<longleftrightarrow> ignore_whitespace ctx \<and> c \<in> set (whitespace_chars ctx)"

fun skip_ws :: "parse_context \<Rightarrow> iter \<Rightarrow> iter" where
  "skip_ws ctx [] = []"
| "skip_ws ctx (c # cs) = (if is_whitespace ctx c then skip_ws ctx cs else c # cs)"

text \<open>\<open>begin != end ? std::string(1, *begin) : "EOF"\<close>\<close>

definition found_at :: "iter \<Rightarrow> string" where
  "found_at it = (case it of [] \<Rightarrow> ''EOF'' | c # _ \<Rightarrow> [c])"

text \<open>\<open>ctx.parse_errors.emplace_back(...)\<close>\<close>

definition report :: "rule \<Rightarrow> iter \<Rightarrow> string \<Rightarrow> string \<Rightarrow> parse_context \<Rightarrow> parse_context" where
  "report r pos e f ctx = ctx\<lparr>parse_errors := parse_errors ctx @
     [\<lparr>failed_rule = r, position = pos, expected = e, found = f\<rparr>]\<rparr>"

subsection \<open>Combinators\<close>

text \<open>
  Each combinator is written over the \<open>parse\<close> functions of its children, in the order of the
  source. \<open>r\<close> is the combinator's own type, used for the node and for the errors.
\<close>

text \<open>\<open>not_::try_seq\<close>: whether the children match one after the other.\<close>

fun try_seq :: "matcher list \<Rightarrow> parse_context \<Rightarrow> iter \<Rightarrow> (bool \<times> parse_context \<times> iter) option" where
  "try_seq [] ctx it = Some (True, ctx, it)"
| "try_seq (m # ms) ctx it =
     (case m ctx it of
        None \<Rightarrow> None
      | Some (None, ctx', it') \<Rightarrow> Some (False, ctx', it')
      | Some (Some _, ctx', it') \<Rightarrow> try_seq ms ctx' it')"

definition not_parse :: "rule \<Rightarrow> matcher list \<Rightarrow> matcher" where
  "not_parse r ms ctx it =
     (if ms = [] then
        Some (None, report r it ''Negative assertion has no child'' (found_at it) ctx, it)
      else
        (case try_seq ms ctx (skip_ws ctx it) of
           None \<Rightarrow> None
         | Some (True, ctx', _) \<Rightarrow>
             Some (None, report r it ''Negative assertion failed'' (found_at it) ctx', it)
         | Some (False, ctx', _) \<Rightarrow> Some (Some (Node r [] []), ctx', it)))"

text \<open>\<open>and_::try_all\<close>: the children in sequence, each match added to the node.\<close>

fun try_all :: "rule \<Rightarrow> matcher list \<Rightarrow> parse_context \<Rightarrow> iter \<Rightarrow> ast list \<Rightarrow>
    (ast list option \<times> parse_context \<times> iter) option" where
  "try_all r [] ctx it kids = Some (Some kids, ctx, it)"
| "try_all r (m # ms) ctx it kids =
     (case m ctx it of
        None \<Rightarrow> None
      | Some (None, ctx', it') \<Rightarrow>
          Some (None, report r it' ''Sequence element failed'' (found_at it') ctx', it')
      | Some (Some t, ctx', it') \<Rightarrow> try_all r ms ctx' it' (kids @ [t]))"

definition and_parse :: "rule \<Rightarrow> matcher list \<Rightarrow> matcher" where
  "and_parse r ms ctx it =
     (case try_all r ms ctx it [] of
        None \<Rightarrow> None
      | Some (None, ctx', _) \<Rightarrow> Some (None, ctx', it)
      | Some (Some kids, ctx', it') \<Rightarrow> Some (Some (Node r (span_text it it') kids), ctx', it'))"

text \<open>\<open>or_::try_any\<close>: the alternatives in order, each from the same position.\<close>

fun try_any :: "rule \<Rightarrow> matcher list \<Rightarrow> parse_context \<Rightarrow> iter \<Rightarrow> iter \<Rightarrow>
    (ast option \<times> parse_context \<times> iter) option" where
  "try_any r [] ctx it backup = Some (None, ctx, it)"
| "try_any r (m # ms) ctx it backup =
     (case m ctx it of
        None \<Rightarrow> None
      | Some (Some t, ctx', it') \<Rightarrow> Some (Some t, ctx', it')
      | Some (None, ctx', it') \<Rightarrow>
          (if ms = [] then
             Some (None, report r backup ''No alternative matched'' (found_at backup) ctx', backup)
           else try_any r ms ctx' backup backup))"

definition or_parse :: "rule \<Rightarrow> matcher list \<Rightarrow> matcher" where
  "or_parse r ms ctx it =
     (case try_any r ms ctx it it of
        None \<Rightarrow> None
      | Some (None, ctx', _) \<Rightarrow> Some (None, ctx', it)
      | Some (Some t, ctx', it') \<Rightarrow> Some (Some (Node r (span_text it it') [t]), ctx', it'))"

text \<open>
  The \<open>while (begin != end)\<close> loop of the repetitions, with its no-progress guard. Every
  iteration that goes on has consumed a character, so the length of the remaining input
  bounds the iterations; the first argument counts them.
\<close>

fun repeat_loop :: "nat \<Rightarrow> matcher \<Rightarrow> parse_context \<Rightarrow> iter \<Rightarrow> ast list \<Rightarrow>
    (ast list \<times> parse_context \<times> iter) option" where
  "repeat_loop 0 m ctx it kids = (if it = [] then Some (kids, ctx, it) else None)"
| "repeat_loop (Suc k) m ctx it kids =
     (if it = [] then Some (kids, ctx, it)
      else
        (case m ctx it of
           None \<Rightarrow> None
         | Some (None, ctx', _) \<Rightarrow> Some (kids, ctx', it)
         | Some (Some t, ctx', it') \<Rightarrow>
             (if it' = it then Some (kids, ctx', it')
              else repeat_loop k m ctx' it' (kids @ [t]))))"

definition zero_or_more_parse :: "rule \<Rightarrow> matcher \<Rightarrow> matcher" where
  "zero_or_more_parse r m ctx it =
     (case repeat_loop (length it) m ctx it [] of
        None \<Rightarrow> None
      | Some (kids, ctx', it') \<Rightarrow> Some (Some (Node r (span_text it it') kids), ctx', it'))"

definition one_or_more_parse :: "rule \<Rightarrow> matcher \<Rightarrow> matcher" where
  "one_or_more_parse r m ctx it =
     (case m ctx it of
        None \<Rightarrow> None
      | Some (None, ctx', it') \<Rightarrow>
          Some (None, report r it ''One_or_more requires at least one match''
                        (found_at it') ctx', it)
      | Some (Some t, ctx', it') \<Rightarrow>
          (case repeat_loop (length it') m ctx' it' [t] of
             None \<Rightarrow> None
           | Some (kids, ctx'', it'') \<Rightarrow>
               Some (Some (Node r (span_text it it'') kids), ctx'', it'')))"

definition zero_or_one_parse :: "rule \<Rightarrow> matcher \<Rightarrow> matcher" where
  "zero_or_one_parse r m ctx it =
     (case m ctx it of
        None \<Rightarrow> None
      | Some (None, ctx', _) \<Rightarrow> Some (Some (Node r [] []), ctx', it)
      | Some (Some t, ctx', it') \<Rightarrow> Some (Some (Node r (span_text it it') [t]), ctx', it'))"

text \<open>\<open>rule<decl, impl>::parse\<close>: the implementation's node becomes the single child.\<close>

definition rule_parse :: "rule \<Rightarrow> matcher \<Rightarrow> matcher" where
  "rule_parse r m ctx it =
     (case m ctx it of
        None \<Rightarrow> None
      | Some (None, ctx', _) \<Rightarrow> Some (None, ctx', it)
      | Some (Some t, ctx', it') \<Rightarrow> Some (Some (Node r (span_text it it') [t]), ctx', it'))"

text \<open>\<open>rule<decl>::parse\<close> with nothing to delegate to: an empty match.\<close>

definition rule_empty_parse :: "rule \<Rightarrow> matcher" where
  "rule_empty_parse r ctx it = Some (Some (Node r [] []), ctx, it)"

subsection \<open>Terminals\<close>

text \<open>The character loop of \<open>string::parse\<close>: whether the literal matched and where it stopped.\<close>

fun string_loop :: "bool \<Rightarrow> string \<Rightarrow> iter \<Rightarrow> bool \<times> iter" where
  "string_loop ic [] it = (True, it)"
| "string_loop ic (l # ls) [] = (False, [])"
| "string_loop ic (l # ls) (c # cs) =
     (if char_match c l ic then string_loop ic ls cs else (False, c # cs))"

text \<open>The literal goes into the error text as a C string.\<close>

definition string_parse :: "rule \<Rightarrow> string \<Rightarrow> matcher" where
  "string_parse r lit ctx it =
     (let start = skip_ws ctx it in
      case string_loop (ignore_case ctx) lit start of (ok, it') \<Rightarrow>
        (if ok then Some (Some (Node r (span_text start it') []), ctx, it')
         else Some (None, report r it (''Expected string: '' @ c_str lit)
                            (found_at it') ctx, it)))"

definition character_parse :: "rule \<Rightarrow> char \<Rightarrow> matcher" where
  "character_parse r v ctx it =
     (let start = skip_ws ctx it in
      if start = [] \<or> \<not> char_match (hd start) v (ignore_case ctx)
      then Some (None, report r it (''Expected character: '' @ [CHR 0x27] @ [v] @ [CHR 0x27])
                         (found_at start) ctx, it)
      else Some (Some (Node r [hd start] []), ctx, tl start))"

definition in_range :: "char \<Rightarrow> char \<Rightarrow> char \<Rightarrow> bool" where
  "in_range a b x =
     (if char_val a \<le> char_val b
      then char_val a \<le> char_val x \<and> char_val x \<le> char_val b
      else char_val x \<le> char_val a \<and> char_val b \<le> char_val x)"

definition characters_parse :: "rule \<Rightarrow> char \<Rightarrow> char \<Rightarrow> matcher" where
  "characters_parse r a b ctx it =
     (let start = skip_ws ctx it in
      case start of
        [] \<Rightarrow> Some (None, report r it ''Expected character in range'' ''EOF'' ctx, it)
      | c # cs \<Rightarrow>
          (if \<not> in_range a b c \<and>
              \<not> (ignore_case ctx \<and> in_range a b (swap_case_ch c))
           then Some (None, report r it
                  (''Expected character in range ['' @ [a] @ ''-'' @ [b] @ '']'')
                  [c] ctx, it)
           else Some (Some (Node r [c] []), ctx, cs)))"

definition re_class_matches :: "re_class \<Rightarrow> char \<Rightarrow> bool" where
  "re_class_matches k c \<longleftrightarrow>
     (re_negated k \<noteq> list_ex (\<lambda>(a, b). (of_char a :: nat) \<le> of_char c \<and>
                                 (of_char c :: nat) \<le> of_char b) (re_ranges k))"

text \<open>\<open>std::regex_search\<close> with \<open>match_continuous\<close>: the remaining input after the match that
  greedy backtracking finds first at the current position.\<close>

function re_match :: "re_item list \<Rightarrow> iter \<Rightarrow> iter option" where
  "re_match [] it = Some it"
| "re_match ((k, Re_One) # is) [] = None"
| "re_match ((k, Re_One) # is) (c # cs) =
     (if re_class_matches k c then re_match is cs else None)"
| "re_match ((k, Re_Opt) # is) [] = re_match is []"
| "re_match ((k, Re_Opt) # is) (c # cs) =
     (if re_class_matches k c
      then (case re_match is cs of Some e \<Rightarrow> Some e | None \<Rightarrow> re_match is (c # cs))
      else re_match is (c # cs))"
| "re_match ((k, Re_Star) # is) [] = re_match is []"
| "re_match ((k, Re_Star) # is) (c # cs) =
     (if re_class_matches k c
      then (case re_match ((k, Re_Star) # is) cs of
              Some e \<Rightarrow> Some e | None \<Rightarrow> re_match is (c # cs))
      else re_match is (c # cs))"
| "re_match ((k, Re_Plus) # is) [] = None"
| "re_match ((k, Re_Plus) # is) (c # cs) =
     (if re_class_matches k c then re_match ((k, Re_Star) # is) cs else None)"
  by pat_completeness auto
termination
  by (relation "measures [\<lambda>(is, it). length is, \<lambda>(is, it). length it]") auto

definition regex_parse :: "rule \<Rightarrow> string \<Rightarrow> re_item list \<Rightarrow> matcher" where
  "regex_parse r pat items ctx it =
     (let start = skip_ws ctx it in
      if start = [] then Some (None, report r it ''Expected regex match'' ''EOF'' ctx, it)
      else
        (case re_match items start of
           None \<Rightarrow> Some (None, report r it (''Expected regex: '' @ c_str pat)
                           (take 10 start @ ''...'') ctx, it)
         | Some it' \<Rightarrow> Some (Some (Node r (span_text start it') []), ctx, it')))"

subsection \<open>Parsing a rule\<close>

text \<open>
  The virtual \<open>parse\<close> of the node type. The fuel bounds the nesting of \<open>RuleRef\<close>s only; a
  reference to a struct the grammar does not define is an incomplete type, which does not
  compile and has no parse.
\<close>

fun parse :: "grammar \<Rightarrow> nat \<Rightarrow> rule \<Rightarrow> matcher" where
  "parse g n (NotR rs) = not_parse (NotR rs) (map (parse g n) rs)"
| "parse g n (AndR rs) = and_parse (AndR rs) (map (parse g n) rs)"
| "parse g n (OrR rs) = or_parse (OrR rs) (map (parse g n) rs)"
| "parse g n (OneOrMore r) = one_or_more_parse (OneOrMore r) (parse g n r)"
| "parse g n (ZeroOrMore r) = zero_or_more_parse (ZeroOrMore r) (parse g n r)"
| "parse g n (ZeroOrOne r) = zero_or_one_parse (ZeroOrOne r) (parse g n r)"
| "parse g n (StringR lit) = string_parse (StringR lit) lit"
| "parse g n (CharacterR c) = character_parse (CharacterR c) c"
| "parse g n (CharactersR a b) = characters_parse (CharactersR a b) a b"
| "parse g n (RegexR pat items) = regex_parse (RegexR pat items) pat items"
| "parse g n (RuleD d impl) = rule_parse (RuleD d impl) (parse g n impl)"
| "parse g n (RuleE d) = rule_empty_parse (RuleE d)"
| "parse g 0 (RuleRef d) = (\<lambda>ctx it. None)"
| "parse g (Suc n) (RuleRef d) =
     (case g d of None \<Rightarrow> (\<lambda>ctx it. None) | Some r \<Rightarrow> parse g n r)"

text \<open>\<open>rule::isa\<close>: the types a node answers to.\<close>

datatype type_id = Rule_Base | Rule_Template rule rule | Rule_Type rule

fun isa :: "ast \<Rightarrow> type_id \<Rightarrow> bool" where
  "isa (Node (RuleD d impl) _ _) t \<longleftrightarrow>
     t = Rule_Template (RuleD d impl) impl \<or> t = Rule_Type (RuleD d impl) \<or>
     t = Rule_Type impl \<or> t = Rule_Base"
| "isa (Node r _ _) t \<longleftrightarrow> t = Rule_Template r r \<or> t = Rule_Type r \<or> t = Rule_Base"

subsection \<open>The parser entry point\<close>

text \<open>\<open>context(b, e, true, _whitespace_t::chars(), _ignore_case)\<close>\<close>

definition new_context :: "string \<Rightarrow> bool \<Rightarrow> parse_context" where
  "new_context ws ic = \<lparr>ignore_whitespace = True, ignore_case = ic, whitespace_chars = ws,
     parse_errors = []\<rparr>"

definition default_whitespace :: string where
  "default_whitespace = [CHR '' '', CHR 0x09, CHR 0x0A, CHR 0x0D]"

record parse_output =
  accepted :: bool
  out_ast :: "ast option"
  out_errors :: "parse_error list"

text \<open>\<open>parser::parse(begin, end, ast, errors)\<close>, with what \<open>ast\<close> and \<open>errors\<close> held before.\<close>

definition parser_parse :: "grammar \<Rightarrow> nat \<Rightarrow> rule \<Rightarrow> bool \<Rightarrow> string \<Rightarrow> iter \<Rightarrow>
    ast option \<Rightarrow> parse_error list \<Rightarrow> parse_output option" where
  "parser_parse g n r ic ws it ast0 errs =
     (case parse g n r (new_context ws ic) it of
        None \<Rightarrow> None
      | Some (None, ctx', _) \<Rightarrow>
          Some \<lparr>accepted = False, out_ast = ast0, out_errors = parse_errors ctx'\<rparr>
      | Some (Some t, ctx', it') \<Rightarrow>
          (if it' \<noteq> [] then
             Some \<lparr>accepted = False, out_ast = ast0, out_errors = errs @
               [\<lparr>failed_rule = r, position = it', expected = ''Expected end of input'',
                 found = take 10 it' @ ''...''\<rparr>]\<rparr>
           else Some \<lparr>accepted = True, out_ast = Some t, out_errors = errs\<rparr>))"

text \<open>\<open>parser::parse(begin, end, ast)\<close>, which drops the errors.\<close>

definition parser_parse_quiet :: "grammar \<Rightarrow> nat \<Rightarrow> rule \<Rightarrow> bool \<Rightarrow> string \<Rightarrow> iter \<Rightarrow>
    ast option \<Rightarrow> (bool \<times> ast option) option" where
  "parser_parse_quiet g n r ic ws it ast0 =
     map_option (\<lambda>out. (accepted out, out_ast out)) (parser_parse g n r ic ws it ast0 [])"

end
