(* ===== verification/Parse_Laws.thy ===== *)
theory Parse_Laws
  imports Parse
begin

text \<open>
  The contract every \<open>parse\<close> member function keeps, as a locale, and the proof that each
  combinator keeps it when its children do. The contract is what the comment on \<open>rule_base\<close>
  promises (a failed match returns the null pointer and consumes no input; a match advances
  past what it consumed) together with what the combinators rely on: errors are only added,
  the settings of the context never change, and the text of the node is what was consumed
  after the leading whitespace.
\<close>

definition adds_errors :: "parse_context \<Rightarrow> parse_context \<Rightarrow> bool" where
  "adds_errors ctx ctx' \<longleftrightarrow> (\<exists>es. ctx' = ctx\<lparr>parse_errors := parse_errors ctx @ es\<rparr>)"

lemma adds_errors_refl [simp, intro]: "adds_errors ctx ctx"
  unfolding adds_errors_def by (rule exI [of _ "[]"]) simp

lemma adds_errors_trans [trans]:
  "adds_errors a b \<Longrightarrow> adds_errors b c \<Longrightarrow> adds_errors a c"
  by (auto simp: adds_errors_def)

lemma adds_errors_report [simp]: "adds_errors ctx (report r pos e f ctx)"
  by (auto simp: adds_errors_def report_def)

lemma adds_errors_report' [intro]:
  "adds_errors ctx ctx' \<Longrightarrow> adds_errors ctx (report r pos e f ctx')"
  using adds_errors_report adds_errors_trans by blast

lemma adds_errors_whitespace [simp]:
  "adds_errors ctx ctx' \<Longrightarrow> is_whitespace ctx' = is_whitespace ctx"
  by (auto simp: adds_errors_def is_whitespace_def fun_eq_iff)

lemma adds_errors_case [simp]: "adds_errors ctx ctx' \<Longrightarrow> ignore_case ctx' = ignore_case ctx"
  by (auto simp: adds_errors_def)

lemma adds_errors_prefix:
  "adds_errors ctx ctx' \<Longrightarrow> prefix (parse_errors ctx) (parse_errors ctx')"
  by (auto simp: adds_errors_def)

text \<open>What lies between two positions when only whitespace precedes the text.\<close>

definition matches_text :: "parse_context \<Rightarrow> iter \<Rightarrow> string \<Rightarrow> iter \<Rightarrow> bool" where
  "matches_text ctx it txt it' \<longleftrightarrow>
     (\<exists>w. it = w @ txt @ it' \<and> (\<forall>c \<in> set w. is_whitespace ctx c))"

lemma matches_text_exact: "it = txt @ it' \<Longrightarrow> matches_text ctx it txt it'"
  unfolding matches_text_def by (rule exI [of _ "[]"]) simp

lemma matches_text_suffix: "matches_text ctx it txt it' \<Longrightarrow> suffix it' it"
  by (auto simp: matches_text_def suffix_def)

lemma matches_text_span: "suffix it' it \<Longrightarrow> matches_text ctx it (span_text it it') it'"
  by (rule matches_text_exact) (rule span_text_suffix)

lemma skip_ws_split:
  "\<exists>w. it = w @ skip_ws ctx it \<and> (\<forall>c \<in> set w. is_whitespace ctx c)"
proof (induction it)
  case (Cons c cs)
  then obtain w where w: "cs = w @ skip_ws ctx cs" "\<forall>c \<in> set w. is_whitespace ctx c"
    by blast
  show ?case
  proof (cases "is_whitespace ctx c")
    case True
    with w show ?thesis by (intro exI [of _ "c # w"]) auto
  qed simp
qed simp

lemma skip_ws_suffix: "suffix (skip_ws ctx it) it"
  using skip_ws_split [of it ctx] by (auto simp: suffix_def)

lemma matches_text_skip:
  assumes "skip_ws ctx it = txt @ it'"
  shows "matches_text ctx it txt it'"
  using skip_ws_split [of it ctx] assms unfolding matches_text_def by auto

lemma skip_ws_id: "(\<And>c. \<not> is_whitespace ctx c) \<Longrightarrow> skip_ws ctx it = it"
  by (cases it) auto

subsection \<open>The contract\<close>

locale lawful =
  fixes m :: matcher
  assumes match_text: "m ctx it = Some (Some t, ctx', it') \<Longrightarrow>
      matches_text ctx it (get_text t) it'"
    and fail_restores: "m ctx it = Some (None, ctx', it') \<Longrightarrow> it' = it"
    and only_adds: "m ctx it = Some (res, ctx', it') \<Longrightarrow> adds_errors ctx ctx'"
begin

lemma moves_forward: "m ctx it = Some (res, ctx', it') \<Longrightarrow> suffix it' it"
  by (cases res) (auto dest: fail_restores match_text matches_text_suffix)

lemma progress_shrinks:
  "m ctx it = Some (res, ctx', it') \<Longrightarrow> it' \<noteq> it \<Longrightarrow> length it' < length it"
  by (auto dest: moves_forward suffix_neq_shorter)

lemma loop_moves:
  "repeat_loop k m ctx it kids = Some (kids', ctx', it') \<Longrightarrow>
     suffix it' it \<and> adds_errors ctx ctx'"
proof (induction k arbitrary: ctx it kids)
  case 0
  then show ?case by (auto split: if_splits)
next
  case (Suc k)
  show ?case
  proof (cases "it = []")
    case False
    with Suc.prems obtain r c2 i2 where m: "m ctx it = Some (r, c2, i2)"
      by (auto split: option.splits)
    note step = moves_forward [OF m] only_adds [OF m]
    show ?thesis
    proof (cases "r = None \<or> i2 = it")
      case True
      with Suc.prems m False step show ?thesis
        by (auto split: option.splits if_splits)
    next
      case not_done: False
      with Suc.prems m False obtain t where
        "repeat_loop k m c2 i2 (kids @ [t]) = Some (kids', ctx', it')"
        by (auto split: option.splits)
      then have "suffix it' i2 \<and> adds_errors c2 ctx'" by (rule Suc.IH)
      with step show ?thesis by (auto intro: suffix_order.trans adds_errors_trans)
    qed
  qed (use Suc.prems in auto)
qed

text \<open>The loop always ends: the bound on its iterations is never met.\<close>

lemma loop_ends:
  assumes "\<And>c i. length i \<le> length it \<Longrightarrow> m c i \<noteq> None"
  shows "length it \<le> k \<Longrightarrow> repeat_loop k m ctx it kids \<noteq> None"
  using assms
proof (induction k arbitrary: ctx it kids)
  case (Suc k)
  show ?case
  proof (cases "it = []")
    case False
    from Suc.prems(2) [of it ctx] obtain r c2 i2 where m: "m ctx it = Some (r, c2, i2)"
      by (cases "m ctx it") auto
    show ?thesis
    proof (cases "r = None \<or> i2 = it")
      case True
      with m False show ?thesis by (auto split: option.splits)
    next
      case not_done: False
      then have "length i2 < length it" using progress_shrinks [OF m] by simp
      then have "repeat_loop k m c2 i2 ks \<noteq> None" for ks
        using Suc.prems by (intro Suc.IH) auto
      with m False not_done show ?thesis by (auto split: option.splits)
    qed
  qed simp
qed simp

end

text \<open>Two ways to state that a node's text is exactly what was consumed.\<close>

lemma lawful_nodeI:
  assumes "\<And>ctx it t ctx' it'. m ctx it = Some (Some t, ctx', it') \<Longrightarrow>
      suffix it' it \<and> get_text t = span_text it it'"
    and "\<And>ctx it ctx' it'. m ctx it = Some (None, ctx', it') \<Longrightarrow> it' = it"
    and "\<And>ctx it res ctx' it'. m ctx it = Some (res, ctx', it') \<Longrightarrow> adds_errors ctx ctx'"
  shows "lawful m"
  by unfold_locales (use assms in \<open>auto intro: matches_text_span\<close>)

subsection \<open>The combinators keep the contract\<close>

lemma try_seq_adds:
  assumes "\<forall>m \<in> set ms. lawful m"
  shows "try_seq ms ctx it = Some (b, ctx', it') \<Longrightarrow> adds_errors ctx ctx'"
  using assms
proof (induction ms arbitrary: ctx it)
  case (Cons m ms)
  then have m: "lawful m" by simp
  from Cons.prems(1) obtain r1 c1 i1 where 1: "m ctx it = Some (r1, c1, i1)"
    by (auto split: option.splits)
  note step = lawful.only_adds [OF m 1]
  show ?case
  proof (cases r1)
    case None
    with Cons.prems(1) 1 step show ?thesis by auto
  next
    case (Some t)
    with Cons.prems(1) 1 have "try_seq ms c1 i1 = Some (b, ctx', it')" by simp
    then have "adds_errors c1 ctx'" using Cons.prems(2) by (intro Cons.IH) auto
    with step show ?thesis by (rule adds_errors_trans)
  qed
qed simp

lemma not_parse_lawful:
  assumes "\<forall>m \<in> set ms. lawful m"
  shows "lawful (not_parse r ms)"
proof (rule lawful_nodeI)
  fix ctx it t ctx' it' assume "not_parse r ms ctx it = Some (Some t, ctx', it')"
  then show "suffix it' it \<and> get_text t = span_text it it'"
    by (auto simp: not_parse_def split: option.splits if_splits bool.splits)
next
  fix ctx it ctx' it' assume "not_parse r ms ctx it = Some (None, ctx', it')"
  then show "it' = it"
    by (auto simp: not_parse_def split: option.splits if_splits bool.splits)
next
  fix ctx it res ctx' it' assume "not_parse r ms ctx it = Some (res, ctx', it')"
  then show "adds_errors ctx ctx'"
    by (auto simp: not_parse_def split: option.splits if_splits bool.splits
        dest!: try_seq_adds [OF assms])
qed

lemma try_all_moves:
  assumes "\<forall>m \<in> set ms. lawful m"
  shows "try_all r ms ctx it kids = Some (res, ctx', it') \<Longrightarrow>
           suffix it' it \<and> adds_errors ctx ctx'"
  using assms
proof (induction ms arbitrary: ctx it kids)
  case (Cons m ms)
  then have m: "lawful m" by simp
  from Cons.prems(1) obtain r1 c1 i1 where 1: "m ctx it = Some (r1, c1, i1)"
    by (auto split: option.splits)
  note step = lawful.moves_forward [OF m 1] lawful.only_adds [OF m 1]
  show ?case
  proof (cases r1)
    case None
    with Cons.prems(1) 1 step show ?thesis by auto
  next
    case (Some t)
    with Cons.prems(1) 1 have "try_all r ms c1 i1 (kids @ [t]) = Some (res, ctx', it')"
      by simp
    then have "suffix it' i1 \<and> adds_errors c1 ctx'"
      using Cons.prems(2) by (intro Cons.IH) auto
    with step show ?thesis by (auto intro: suffix_order.trans adds_errors_trans)
  qed
qed simp

lemma and_parse_lawful:
  assumes "\<forall>m \<in> set ms. lawful m"
  shows "lawful (and_parse r ms)"
  by (rule lawful_nodeI)
    (auto simp: and_parse_def split: option.splits dest: try_all_moves [OF assms])

lemma try_any_moves:
  assumes "\<forall>m \<in> set ms. lawful m"
  shows "try_any r ms ctx it it = Some (res, ctx', it') \<Longrightarrow>
           suffix it' it \<and> adds_errors ctx ctx'"
  using assms
proof (induction ms arbitrary: ctx)
  case (Cons m ms)
  then have m: "lawful m" by simp
  from Cons.prems(1) obtain r1 c1 i1 where 1: "m ctx it = Some (r1, c1, i1)"
    by (auto split: option.splits)
  note step = lawful.moves_forward [OF m 1] lawful.only_adds [OF m 1]
  show ?case
  proof (cases "r1 = None \<and> ms \<noteq> []")
    case True
    with Cons.prems(1) 1 have "try_any r ms c1 it it = Some (res, ctx', it')" by simp
    then have "suffix it' it \<and> adds_errors c1 ctx'"
      using Cons.prems(2) by (intro Cons.IH) auto
    with step show ?thesis by (auto intro: adds_errors_trans)
  next
    case False
    with Cons.prems(1) 1 step show ?thesis by (auto split: option.splits if_splits)
  qed
qed simp

lemma or_parse_lawful:
  assumes "\<forall>m \<in> set ms. lawful m"
  shows "lawful (or_parse r ms)"
  by (rule lawful_nodeI)
    (auto simp: or_parse_def split: option.splits dest: try_any_moves [OF assms])

lemma zero_or_more_parse_lawful: "lawful m \<Longrightarrow> lawful (zero_or_more_parse r m)"
  by (rule lawful_nodeI)
    (auto simp: zero_or_more_parse_def split: option.splits dest: lawful.loop_moves)

lemma one_or_more_parse_lawful:
  assumes m: "lawful m"
  shows "lawful (one_or_more_parse r m)"
proof (rule lawful_nodeI)
  fix ctx it t ctx' it' assume "one_or_more_parse r m ctx it = Some (Some t, ctx', it')"
  then show "suffix it' it \<and> get_text t = span_text it it'"
    by (auto simp: one_or_more_parse_def simp del: repeat_loop.simps split: option.splits
        dest!: lawful.loop_moves [OF m] lawful.moves_forward [OF m] intro: suffix_order.trans)
next
  fix ctx it ctx' it' assume "one_or_more_parse r m ctx it = Some (None, ctx', it')"
  then show "it' = it" by (auto simp: one_or_more_parse_def split: option.splits)
next
  fix ctx it res ctx' it' assume "one_or_more_parse r m ctx it = Some (res, ctx', it')"
  then show "adds_errors ctx ctx'"
    by (auto simp: one_or_more_parse_def split: option.splits
        dest!: lawful.loop_moves [OF m] lawful.only_adds [OF m] intro: adds_errors_trans)
qed

lemma single_child_lawful:
  assumes m: "lawful m"
  shows "lawful (zero_or_one_parse r m)" and "lawful (rule_parse r m)"
  by (rule lawful_nodeI; auto simp: zero_or_one_parse_def rule_parse_def split: option.splits
      dest: lawful.moves_forward [OF m] lawful.only_adds [OF m])+

lemma rule_empty_parse_lawful: "lawful (rule_empty_parse r)"
  by (rule lawful_nodeI) (auto simp: rule_empty_parse_def)

subsection \<open>The terminals keep the contract\<close>

lemma string_loop_suffix: "string_loop ic lit it = (b, it') \<Longrightarrow> suffix it' it"
  by (induction ic lit it rule: string_loop.induct)
    (auto split: if_splits intro: suffix_ConsI)

lemma re_match_suffix: "re_match items it = Some it' \<Longrightarrow> suffix it' it"
  by (induction items it arbitrary: it' rule: re_match.induct)
    (auto split: if_splits option.splits intro: suffix_ConsI)

lemma terminal_lawful:
  assumes "\<And>ctx it t ctx' it'. m ctx it = Some (Some t, ctx', it') \<Longrightarrow>
      skip_ws ctx it = get_text t @ it'"
    and "\<And>ctx it ctx' it'. m ctx it = Some (None, ctx', it') \<Longrightarrow> it' = it"
    and "\<And>ctx it res ctx' it'. m ctx it = Some (res, ctx', it') \<Longrightarrow> adds_errors ctx ctx'"
  shows "lawful m"
  by unfold_locales (use assms in \<open>auto intro: matches_text_skip\<close>)

lemma string_parse_lawful: "lawful (string_parse r lit)"
proof (rule terminal_lawful)
  fix ctx it t ctx' it' assume "string_parse r lit ctx it = Some (Some t, ctx', it')"
  then have "string_loop (ignore_case ctx) lit (skip_ws ctx it) = (True, it')"
    and t: "t = Node r (span_text (skip_ws ctx it) it') []"
    by (auto simp: string_parse_def Let_def split: prod.splits if_splits)
  then show "skip_ws ctx it = get_text t @ it'" by (simp add: string_loop_suffix)
qed (auto simp: string_parse_def Let_def split: prod.splits if_splits)

lemma character_parse_lawful: "lawful (character_parse r c)"
  by (rule terminal_lawful) (auto simp: character_parse_def Let_def split: if_splits)

lemma characters_parse_lawful: "lawful (characters_parse r a b)"
  by (rule terminal_lawful)
    (auto simp: characters_parse_def Let_def split: if_splits list.splits)

lemma regex_parse_lawful: "lawful (regex_parse r pat items)"
  by (rule terminal_lawful)
    (auto simp: regex_parse_def Let_def split: if_splits option.splits
      dest!: re_match_suffix)

lemmas terminals_lawful = string_parse_lawful character_parse_lawful characters_parse_lawful
  regex_parse_lawful rule_empty_parse_lawful

lemma parse_lawful: "lawful (parse g n r)"
proof (induction g n r rule: parse.induct)
  case (13 g d)
  show ?case by unfold_locales auto
next
  case (14 g n d)
  show ?case
  proof (cases "g d")
    case None
    then show ?thesis by (simp, unfold_locales) auto
  next
    case (Some r)
    with 14 show ?thesis by simp
  qed
qed (auto intro!: not_parse_lawful and_parse_lawful or_parse_lawful one_or_more_parse_lawful
    zero_or_more_parse_lawful single_child_lawful terminals_lawful)

interpretation parse: lawful "parse g n r" for g n r
  by (rule parse_lawful)

end
