(* ===== verification/Recognizer.thy ===== *)
theory Recognizer
  imports Parse_Laws
begin

text \<open>
  What a parse consumes, without the syntax tree and the errors: the abstract specification
  of the parser as a parsing expression grammar. It comes twice: as an executable function
  \<open>recog\<close>, which the concrete evaluations of the development use, and as the inductive
  big-step relation \<open>peg\<close>, which has no fuel. The refinement theorems say that \<open>parse\<close>
  computes the same outcome, so every fact about the language of a grammar is proved here.
\<close>

type_synonym recognizer = "parse_context \<Rightarrow> iter \<Rightarrow> iter option option"

subsection \<open>The executable specification\<close>

fun seq_recog :: "recognizer list \<Rightarrow> recognizer" where
  "seq_recog [] ctx it = Some (Some it)"
| "seq_recog (q # qs) ctx it =
     (case q ctx it of
        None \<Rightarrow> None
      | Some None \<Rightarrow> Some None
      | Some (Some it') \<Rightarrow> seq_recog qs ctx it')"

fun alt_recog :: "recognizer list \<Rightarrow> recognizer" where
  "alt_recog [] ctx it = Some None"
| "alt_recog (q # qs) ctx it =
     (case q ctx it of
        None \<Rightarrow> None
      | Some None \<Rightarrow> alt_recog qs ctx it
      | Some (Some it') \<Rightarrow> Some (Some it'))"

fun loop_recog :: "nat \<Rightarrow> recognizer \<Rightarrow> parse_context \<Rightarrow> iter \<Rightarrow> iter option" where
  "loop_recog 0 q ctx it = (if it = [] then Some it else None)"
| "loop_recog (Suc k) q ctx it =
     (if it = [] then Some it
      else
        (case q ctx it of
           None \<Rightarrow> None
         | Some None \<Rightarrow> Some it
         | Some (Some it') \<Rightarrow> (if it' = it then Some it' else loop_recog k q ctx it')))"

definition not_recog :: "recognizer list \<Rightarrow> recognizer" where
  "not_recog qs ctx it =
     (if qs = [] then Some None
      else (case seq_recog qs ctx (skip_ws ctx it) of
              None \<Rightarrow> None
            | Some None \<Rightarrow> Some (Some it)
            | Some (Some _) \<Rightarrow> Some None))"

definition star_recog :: "recognizer \<Rightarrow> recognizer" where
  "star_recog q ctx it = map_option Some (loop_recog (length it) q ctx it)"

definition plus_recog :: "recognizer \<Rightarrow> recognizer" where
  "plus_recog q ctx it =
     (case q ctx it of
        None \<Rightarrow> None
      | Some None \<Rightarrow> Some None
      | Some (Some it') \<Rightarrow> star_recog q ctx it')"

definition opt_recog :: "recognizer \<Rightarrow> recognizer" where
  "opt_recog q ctx it =
     (case q ctx it of
        None \<Rightarrow> None
      | Some None \<Rightarrow> Some (Some it)
      | Some (Some it') \<Rightarrow> Some (Some it'))"

text \<open>Terminals always return.\<close>

definition string_recog :: "string \<Rightarrow> parse_context \<Rightarrow> iter \<Rightarrow> iter option" where
  "string_recog lit ctx it =
     (case string_loop (ignore_case ctx) lit (skip_ws ctx it) of
        (ok, it') \<Rightarrow> if ok then Some it' else None)"

definition char_recog :: "(bool \<Rightarrow> char \<Rightarrow> bool) \<Rightarrow> parse_context \<Rightarrow> iter \<Rightarrow> iter option" where
  "char_recog p ctx it =
     (case skip_ws ctx it of
        [] \<Rightarrow> None
      | c # cs \<Rightarrow> if p (ignore_case ctx) c then Some cs else None)"

definition range_test :: "char \<Rightarrow> char \<Rightarrow> bool \<Rightarrow> char \<Rightarrow> bool" where
  "range_test a b ic c \<longleftrightarrow> in_range a b c \<or> ic \<and> in_range a b (swap_case_ch c)"

definition regex_recog :: "re_item list \<Rightarrow> parse_context \<Rightarrow> iter \<Rightarrow> iter option" where
  "regex_recog items ctx it =
     (let start = skip_ws ctx it in if start = [] then None else re_match items start)"

fun recog :: "grammar \<Rightarrow> nat \<Rightarrow> rule \<Rightarrow> recognizer" where
  "recog g n (NotR rs) = not_recog (map (recog g n) rs)"
| "recog g n (AndR rs) = seq_recog (map (recog g n) rs)"
| "recog g n (OrR rs) = alt_recog (map (recog g n) rs)"
| "recog g n (OneOrMore r) = plus_recog (recog g n r)"
| "recog g n (ZeroOrMore r) = star_recog (recog g n r)"
| "recog g n (ZeroOrOne r) = opt_recog (recog g n r)"
| "recog g n (StringR lit) = (\<lambda>ctx it. Some (string_recog lit ctx it))"
| "recog g n (CharacterR c) = (\<lambda>ctx it. Some (char_recog (\<lambda>ic x. char_match x c ic) ctx it))"
| "recog g n (CharactersR a b) = (\<lambda>ctx it. Some (char_recog (range_test a b) ctx it))"
| "recog g n (RegexR pat items) = (\<lambda>ctx it. Some (regex_recog items ctx it))"
| "recog g n (RuleD d impl) = recog g n impl"
| "recog g n (RuleE d) = (\<lambda>ctx it. Some (Some it))"
| "recog g 0 (RuleRef d) = (\<lambda>ctx it. None)"
| "recog g (Suc n) (RuleRef d) =
     (case g d of None \<Rightarrow> (\<lambda>ctx it. None) | Some r \<Rightarrow> recog g n r)"

subsection \<open>Refinement: parse computes what recog specifies\<close>

text \<open>The outcome of a \<open>parse\<close> call: where it ended, if it matched.\<close>

definition outcome :: "(ast option \<times> parse_context \<times> iter) \<Rightarrow> iter option" where
  "outcome = (\<lambda>(t, _, it'). map_option (\<lambda>_. it') t)"

lemma outcome_simps [simp]:
  "outcome (None, ctx, it) = None"
  "outcome (Some t, ctx, it) = Some it"
  by (simp_all add: outcome_def)

text \<open>A recognizer that only reads the settings of the context.\<close>

definition settings_only :: "recognizer \<Rightarrow> bool" where
  "settings_only q \<longleftrightarrow> (\<forall>ctx ctx'. adds_errors ctx ctx' \<longrightarrow> q ctx' = q ctx)"

definition implements :: "matcher \<Rightarrow> recognizer \<Rightarrow> bool" where
  "implements m q \<longleftrightarrow> lawful m \<and> settings_only q \<and>
     (\<forall>ctx it. q ctx it = map_option outcome (m ctx it))"

lemma implementsI:
  "lawful m \<Longrightarrow> (\<And>ctx ctx'. adds_errors ctx ctx' \<Longrightarrow> q ctx' = q ctx) \<Longrightarrow>
     (\<And>ctx it. q ctx it = map_option outcome (m ctx it)) \<Longrightarrow> implements m q"
  by (simp add: implements_def settings_only_def)

lemma implementsD: "implements m q \<Longrightarrow> q ctx it = map_option outcome (m ctx it)"
  by (simp add: implements_def)

lemma implements_lawful: "implements m q \<Longrightarrow> lawful m"
  by (simp add: implements_def)

lemma implements_settings: "implements m q \<Longrightarrow> adds_errors ctx ctx' \<Longrightarrow> q ctx' = q ctx"
  by (simp add: implements_def settings_only_def)

lemma implements_step:
  "implements m q \<Longrightarrow> m ctx it = Some (res, ctx', it') \<Longrightarrow> adds_errors ctx ctx'"
  by (blast dest: implements_lawful lawful.only_adds)

lemma implements_list:
  "list_all2 implements ms qs \<Longrightarrow> \<forall>m \<in> set ms. lawful m"
  "list_all2 implements ms qs \<Longrightarrow> adds_errors ctx ctx' \<Longrightarrow> \<forall>q \<in> set qs. q ctx' = q ctx"
  by (induction rule: list_all2_induct) (simp_all add: implements_def settings_only_def)

lemma skip_ws_settings: "adds_errors ctx ctx' \<Longrightarrow> skip_ws ctx' it = skip_ws ctx it"
  by (induction it) auto

lemma loop_recog_cong: "q ctx' = q ctx \<Longrightarrow> loop_recog k q ctx' it = loop_recog k q ctx it"
  by (induction k arbitrary: it) (auto split: option.split)

lemma seq_recog_cong:
  "\<forall>q \<in> set qs. q ctx' = q ctx \<Longrightarrow> seq_recog qs ctx' it = seq_recog qs ctx it"
  by (induction qs arbitrary: it) (auto split: option.split)

lemma alt_recog_cong:
  "\<forall>q \<in> set qs. q ctx' = q ctx \<Longrightarrow> alt_recog qs ctx' it = alt_recog qs ctx it"
  by (induction qs) (auto split: option.split)

lemma not_recog_cong:
  "\<forall>q \<in> set qs. q ctx' = q ctx \<Longrightarrow> adds_errors ctx ctx' \<Longrightarrow> not_recog qs ctx' = not_recog qs ctx"
  by (simp add: fun_eq_iff not_recog_def skip_ws_settings seq_recog_cong [of qs ctx' ctx])

lemma star_recog_cong: "q ctx' = q ctx \<Longrightarrow> star_recog q ctx' = star_recog q ctx"
  by (simp add: fun_eq_iff star_recog_def loop_recog_cong [of q ctx' ctx])

lemma plus_recog_cong: "q ctx' = q ctx \<Longrightarrow> plus_recog q ctx' = plus_recog q ctx"
  using star_recog_cong [of q ctx' ctx]
  by (intro ext) (auto simp: plus_recog_def split: option.split)

lemma try_seq_refines:
  "list_all2 implements ms qs \<Longrightarrow>
     seq_recog qs ctx it =
       map_option (\<lambda>(b, _, it'). if b then Some it' else None) (try_seq ms ctx it)"
proof (induction ms qs arbitrary: ctx it rule: list_all2_induct)
  case (Cons m ms q qs)
  show ?case
  proof (cases "m ctx it")
    case None
    then show ?thesis by (simp add: implementsD [OF Cons.hyps(1)])
  next
    case (Some res)
    then obtain t c1 i1 where m: "m ctx it = Some (t, c1, i1)" by (cases res) auto
    have "seq_recog qs ctx i1 = seq_recog qs c1 i1"
      using implements_list(2) [OF Cons.hyps(2) implements_step [OF Cons.hyps(1) m]]
      by (rule seq_recog_cong [symmetric])
    with m show ?thesis
      by (cases t) (auto simp: implementsD [OF Cons.hyps(1)] Cons.IH)
  qed
qed simp

lemma try_all_refines:
  "list_all2 implements ms qs \<Longrightarrow>
     seq_recog qs ctx it =
       map_option (\<lambda>(kids, _, it'). map_option (\<lambda>_. it') kids) (try_all r ms ctx it ks)"
proof (induction ms qs arbitrary: ctx it ks rule: list_all2_induct)
  case (Cons m ms q qs)
  show ?case
  proof (cases "m ctx it")
    case None
    then show ?thesis by (simp add: implementsD [OF Cons.hyps(1)])
  next
    case (Some res)
    then obtain t c1 i1 where m: "m ctx it = Some (t, c1, i1)" by (cases res) auto
    have "seq_recog qs ctx i1 = seq_recog qs c1 i1"
      using implements_list(2) [OF Cons.hyps(2) implements_step [OF Cons.hyps(1) m]]
      by (rule seq_recog_cong [symmetric])
    with m show ?thesis
      by (cases t) (auto simp: implementsD [OF Cons.hyps(1)] Cons.IH)
  qed
qed simp

lemma try_any_refines:
  "list_all2 implements ms qs \<Longrightarrow>
     alt_recog qs ctx it = map_option outcome (try_any r ms ctx it it)"
proof (induction ms qs arbitrary: ctx rule: list_all2_induct)
  case (Cons m ms q qs)
  show ?case
  proof (cases "m ctx it")
    case None
    then show ?thesis by (simp add: implementsD [OF Cons.hyps(1)])
  next
    case (Some res)
    then obtain t c1 i1 where m: "m ctx it = Some (t, c1, i1)" by (cases res) auto
    have "alt_recog qs ctx it = alt_recog qs c1 it"
      using implements_list(2) [OF Cons.hyps(2) implements_step [OF Cons.hyps(1) m]]
      by (rule alt_recog_cong [symmetric])
    with m Cons.hyps(2) show ?thesis
      by (cases t) (auto simp: implementsD [OF Cons.hyps(1)] Cons.IH)
  qed
qed simp

lemma loop_refines:
  assumes mq: "implements m q"
  shows "loop_recog k q ctx it = map_option (\<lambda>(_, _, it'). it') (repeat_loop k m ctx it ks)"
proof (induction k arbitrary: ctx it ks)
  case (Suc k)
  show ?case
  proof (cases "m ctx it")
    case None
    then show ?thesis by (simp add: implementsD [OF mq])
  next
    case (Some res)
    then obtain t c1 i1 where m: "m ctx it = Some (t, c1, i1)" by (cases res) auto
    have "loop_recog k q ctx i1 = loop_recog k q c1 i1"
      using implements_settings [OF mq implements_step [OF mq m]]
      by (rule loop_recog_cong [symmetric])
    moreover have "q ctx it = Some (outcome (t, c1, i1))" using m by (simp add: implementsD [OF mq])
    ultimately show ?thesis using m by (cases t) (simp_all add: Suc.IH)
  qed
qed simp

text \<open>Each combinator implements its recognizer.\<close>

lemma not_implements:
  assumes "list_all2 implements ms qs"
  shows "implements (not_parse r ms) (not_recog qs)"
proof (rule implementsI)
  have "(qs = []) = (ms = [])" using assms by (auto dest: list_all2_lengthD)
  then show "not_recog qs ctx it = map_option outcome (not_parse r ms ctx it)" for ctx it
    by (auto simp: not_recog_def not_parse_def try_seq_refines [OF assms]
        split: option.splits bool.splits)
qed (use implements_list [OF assms] in
    \<open>auto intro: not_parse_lawful not_recog_cong\<close>)

lemma and_implements:
  assumes "list_all2 implements ms qs"
  shows "implements (and_parse r ms) (seq_recog qs)"
proof (rule implementsI)
  show "seq_recog qs ctx it = map_option outcome (and_parse r ms ctx it)" for ctx it
    by (auto simp: and_parse_def try_all_refines [OF assms, of ctx it r "[]"] split: option.splits)
qed (use implements_list [OF assms] in
    \<open>auto intro: and_parse_lawful simp: fun_eq_iff seq_recog_cong\<close>)

lemma or_implements:
  assumes "list_all2 implements ms qs"
  shows "implements (or_parse r ms) (alt_recog qs)"
proof (rule implementsI)
  show "alt_recog qs ctx it = map_option outcome (or_parse r ms ctx it)" for ctx it
    by (auto simp: or_parse_def try_any_refines [OF assms, of ctx it r] split: option.splits)
qed (use implements_list [OF assms] in
    \<open>auto intro: or_parse_lawful simp: fun_eq_iff alt_recog_cong\<close>)

lemma star_implements:
  assumes mq: "implements m q"
  shows "implements (zero_or_more_parse r m) (star_recog q)"
proof (rule implementsI)
  show "star_recog q ctx it = map_option outcome (zero_or_more_parse r m ctx it)" for ctx it
    by (auto simp: star_recog_def zero_or_more_parse_def loop_refines [OF mq, of _ ctx it "[]"]
        split: option.splits)
qed (use implements_lawful [OF mq] implements_settings [OF mq] in
    \<open>auto intro: zero_or_more_parse_lawful star_recog_cong\<close>)

lemma plus_implements:
  assumes mq: "implements m q"
  shows "implements (one_or_more_parse r m) (plus_recog q)"
proof (rule implementsI)
  show "plus_recog q ctx it = map_option outcome (one_or_more_parse r m ctx it)" for ctx it
  proof (cases "m ctx it")
    case (Some res)
    then obtain t c1 i1 where m: "m ctx it = Some (t, c1, i1)" by (cases res) auto
    have "loop_recog k q ctx i1 = loop_recog k q c1 i1" for k
      using implements_settings [OF mq implements_step [OF mq m]]
      by (rule loop_recog_cong [symmetric])
    moreover have "q ctx it = Some (outcome (t, c1, i1))" using m by (simp add: implementsD [OF mq])
    ultimately show ?thesis using m
      by (cases t) (auto simp: plus_recog_def star_recog_def one_or_more_parse_def
          loop_refines [OF mq, of _ c1 i1 "[the t]"] split: option.splits)
  qed (simp add: plus_recog_def one_or_more_parse_def implementsD [OF mq])
qed (use implements_lawful [OF mq] implements_settings [OF mq] in
    \<open>auto intro: one_or_more_parse_lawful plus_recog_cong\<close>)

lemma opt_implements:
  assumes mq: "implements m q"
  shows "implements (zero_or_one_parse r m) (opt_recog q)"
proof (rule implementsI)
  show "opt_recog q ctx it = map_option outcome (zero_or_one_parse r m ctx it)" for ctx it
    by (auto simp: opt_recog_def zero_or_one_parse_def implementsD [OF mq] split: option.splits)
qed (use implements_lawful [OF mq] implements_settings [OF mq] in
    \<open>auto intro: single_child_lawful simp: fun_eq_iff opt_recog_def\<close>)

lemma rule_implements:
  assumes mq: "implements m q"
  shows "implements (rule_parse r m) q"
proof (rule implementsI)
  show "q ctx it = map_option outcome (rule_parse r m ctx it)" for ctx it
    by (auto simp: rule_parse_def implementsD [OF mq] split: option.splits)
qed (use implements_lawful [OF mq] implements_settings [OF mq] in
    \<open>auto intro: single_child_lawful\<close>)

lemma terminal_implements:
  assumes "lawful m" and "\<And>ctx it. map_option outcome (m ctx it) = Some (q ctx it)"
    and "\<And>ctx ctx' it. adds_errors ctx ctx' \<Longrightarrow> q ctx' it = q ctx it"
  shows "implements m (\<lambda>ctx it. Some (q ctx it))"
  by (rule implementsI) (use assms in \<open>simp_all add: fun_eq_iff del: map_option_eq_Some\<close>)

lemma string_implements: "implements (string_parse r lit) (\<lambda>ctx it. Some (string_recog lit ctx it))"
  by (rule terminal_implements [OF string_parse_lawful])
    (auto simp: string_parse_def string_recog_def Let_def skip_ws_settings split: prod.splits)

lemma character_implements:
  "implements (character_parse r c)
     (\<lambda>ctx it. Some (char_recog (\<lambda>ic x. char_match x c ic) ctx it))"
  by (rule terminal_implements [OF character_parse_lawful])
    (auto simp: character_parse_def char_recog_def Let_def skip_ws_settings
      split: list.splits)

lemma characters_implements:
  "implements (characters_parse r a b) (\<lambda>ctx it. Some (char_recog (range_test a b) ctx it))"
  by (rule terminal_implements [OF characters_parse_lawful])
    (auto simp: characters_parse_def char_recog_def range_test_def Let_def skip_ws_settings
      split: list.splits)

lemma regex_implements:
  "implements (regex_parse r pat items) (\<lambda>ctx it. Some (regex_recog items ctx it))"
  by (rule terminal_implements [OF regex_parse_lawful])
    (auto simp: regex_parse_def regex_recog_def Let_def skip_ws_settings split: option.splits)

lemma rule_empty_implements: "implements (rule_empty_parse r) (\<lambda>ctx it. Some (Some it))"
  by (rule terminal_implements [OF rule_empty_parse_lawful]) (auto simp: rule_empty_parse_def)

lemma no_fuel_implements: "implements (\<lambda>ctx it. None) (\<lambda>ctx it. None)"
  using parse_lawful [of "\<lambda>_. None" 0 "RuleRef []"]
  by (simp add: implements_def settings_only_def)

lemmas terminals_implement = string_implements character_implements characters_implements
  regex_implements rule_empty_implements no_fuel_implements

lemma list_all2_map_implements:
  "(\<And>r. r \<in> set rs \<Longrightarrow> implements (p r) (q r)) \<Longrightarrow> list_all2 implements (map p rs) (map q rs)"
  by (simp add: list_all2_map1 list_all2_map2 list.rel_refl_strong)

lemma parse_implements: "implements (parse g n r) (recog g n r)"
proof (induction g n r rule: parse.induct)
  case (14 g n d)
  then show ?case by (cases "g d") (auto intro: no_fuel_implements)
qed (auto intro!: not_implements and_implements or_implements plus_implements star_implements
    opt_implements rule_implements terminals_implement list_all2_map_implements)

lemma parse_recog: "recog g n r ctx it = map_option outcome (parse g n r ctx it)"
  by (rule implementsD [OF parse_implements])

lemma recog_suffix:
  assumes "recog g n r ctx it = Some (Some it')"
  shows "suffix it' it"
  using assms parse.moves_forward [of g n r ctx it] unfolding parse_recog
  by (auto simp: outcome_def split: prod.splits option.splits)

end
