(* ===== verification/Parse_Tree.thy ===== *)
theory Parse_Tree
  imports Parse_Laws Recognizer
begin

text \<open>
  The syntax tree a parse returns. \<open>conforms\<close> is the type of the tree: a node of a rule has
  the children its combinator promises (one per element of a sequence, in order; the single
  alternative that matched; one per repetition), and a leaf holds text its terminal accepts.
  \<open>fringe\<close> reads the leaves of a tree from left to right; up to the whitespace that the
  terminals skip, it is the input the parse consumed.
\<close>

inductive conforms :: "grammar \<Rightarrow> bool \<Rightarrow> rule \<Rightarrow> ast \<Rightarrow> bool" for g :: grammar and ic :: bool where
  tree_not: "conforms g ic (NotR rs) (Node (NotR rs) [] [])"
| tree_and: "list_all2 (conforms g ic) rs ts \<Longrightarrow> conforms g ic (AndR rs) (Node (AndR rs) txt ts)"
| tree_or: "r \<in> set rs \<Longrightarrow> conforms g ic r t \<Longrightarrow> conforms g ic (OrR rs) (Node (OrR rs) txt [t])"
| tree_plus: "ts \<noteq> [] \<Longrightarrow> list_all (conforms g ic r) ts \<Longrightarrow>
     conforms g ic (OneOrMore r) (Node (OneOrMore r) txt ts)"
| tree_star: "list_all (conforms g ic r) ts \<Longrightarrow>
     conforms g ic (ZeroOrMore r) (Node (ZeroOrMore r) txt ts)"
| tree_opt_none: "conforms g ic (ZeroOrOne r) (Node (ZeroOrOne r) [] [])"
| tree_opt_some: "conforms g ic r t \<Longrightarrow> conforms g ic (ZeroOrOne r) (Node (ZeroOrOne r) txt [t])"
| tree_string: "list_all2 (\<lambda>c l. char_match c l ic) txt lit \<Longrightarrow>
     conforms g ic (StringR lit) (Node (StringR lit) txt [])"
| tree_character: "char_match c v ic \<Longrightarrow> conforms g ic (CharacterR v) (Node (CharacterR v) [c] [])"
| tree_characters: "range_test a b ic c \<Longrightarrow>
     conforms g ic (CharactersR a b) (Node (CharactersR a b) [c] [])"
| tree_regex: "re_match items (txt @ rest) = Some rest \<Longrightarrow>
     conforms g ic (RegexR pat items) (Node (RegexR pat items) txt [])"
| tree_decl: "conforms g ic impl t \<Longrightarrow>
     conforms g ic (RuleD d impl) (Node (RuleD d impl) txt [t])"
| tree_empty: "conforms g ic (RuleE d) (Node (RuleE d) [] [])"
| tree_ref: "g d = Some r \<Longrightarrow> conforms g ic r t \<Longrightarrow> conforms g ic (RuleRef d) t"

inductive_cases conforms_AndE: "conforms g ic (AndR rs) t"
inductive_cases conforms_OrE: "conforms g ic (OrR rs) t"
inductive_cases conforms_DeclE: "conforms g ic (RuleD d impl) t"
inductive_cases conforms_RefE: "conforms g ic (RuleRef d) t"

fun fringe :: "ast \<Rightarrow> string" where
  "fringe (Node r txt ts) = (if ts = [] then txt else concat (map fringe ts))"

text \<open>The input between two positions is a text, up to whitespace.\<close>

definition significant :: "parse_context \<Rightarrow> string \<Rightarrow> string" where
  "significant ctx = filter (\<lambda>c. \<not> is_whitespace ctx c)"

definition yields :: "parse_context \<Rightarrow> iter \<Rightarrow> string \<Rightarrow> iter \<Rightarrow> bool" where
  "yields ctx it txt it' \<longleftrightarrow> (\<exists>w. it = w @ it' \<and> significant ctx w = significant ctx txt)"

lemma significant_simps [simp]:
  "significant ctx [] = []"
  "significant ctx (s @ t) = significant ctx s @ significant ctx t"
  by (simp_all add: significant_def)

lemma significant_settings [simp]:
  "adds_errors ctx ctx' \<Longrightarrow> significant ctx' = significant ctx"
  by (simp add: significant_def)

lemma significant_id: "(\<And>c. \<not> is_whitespace ctx c) \<Longrightarrow> significant ctx s = s"
  by (simp add: significant_def)

lemma yields_refl [simp]: "yields ctx it [] it"
  unfolding yields_def by (rule exI [of _ "[]"]) simp

lemma yields_trans: "yields ctx a s b \<Longrightarrow> yields ctx b t c \<Longrightarrow> yields ctx a (s @ t) c"
  unfolding yields_def by (elim exE) (rule_tac x = "w @ wa" in exI, simp)

lemma yields_span: "suffix it' it \<Longrightarrow> yields ctx it (span_text it it') it'"
  unfolding yields_def by (rule exI [of _ "span_text it it'"]) simp

lemma yields_settings: "adds_errors ctx ctx' \<Longrightarrow> yields ctx' it t it' = yields ctx it t it'"
  by (simp add: yields_def)

lemma yields_exact:
  "yields ctx it t it' \<Longrightarrow> (\<And>c. \<not> is_whitespace ctx c) \<Longrightarrow> it = t @ it'"
  by (auto simp: yields_def significant_id)

lemma yields_suffix: "yields ctx it t it' \<Longrightarrow> suffix it' it"
  by (auto simp: yields_def suffix_def)

lemma matches_text_yields: "matches_text ctx it t it' \<Longrightarrow> yields ctx it t it'"
  unfolding matches_text_def yields_def
  by (elim exE, rule_tac x = "w @ t" in exI) (simp add: significant_def)

text \<open>A node over its children.\<close>

lemma node_yields:
  assumes "yields ctx it (concat (map fringe ts)) it'"
  shows "yields ctx it (fringe (Node r (span_text it it') ts)) it'"
  using assms by (auto intro: yields_span yields_suffix)

subsection \<open>The contract of a matcher that builds trees of a rule\<close>

locale tree_builder = lawful +
  fixes g :: grammar and r :: rule
  assumes builds: "m ctx it = Some (Some t, ctx', it') \<Longrightarrow> conforms g (ignore_case ctx) r t"
    and covers: "m ctx it = Some (Some t, ctx', it') \<Longrightarrow> yields ctx it (fringe t) it'"
begin

lemma loop_builds:
  "repeat_loop k m ctx it kids = Some (kids', ctx', it') \<Longrightarrow>
     \<exists>ts. kids' = kids @ ts \<and> list_all (conforms g (ignore_case ctx) r) ts \<and>
          yields ctx it (concat (map fringe ts)) it'"
proof (induction k arbitrary: ctx it kids)
  case 0
  then show ?case by (auto split: if_splits intro!: exI [of _ "[]"])
next
  case (Suc k)
  show ?case
  proof (cases "it = []")
    case False
    with Suc.prems obtain o1 c1 i1 where 1: "m ctx it = Some (o1, c1, i1)"
      by (auto split: option.splits)
    show ?thesis
    proof (cases "o1 = None \<or> i1 = it")
      case True
      with Suc.prems False 1 show ?thesis
        by (auto split: option.splits intro!: exI [of _ "[]"])
    next
      case go_on: False
      then obtain t where t: "o1 = Some t" by auto
      with Suc.prems False 1 go_on
      have "repeat_loop k m c1 i1 (kids @ [t]) = Some (kids', ctx', it')" by simp
      from Suc.IH [OF this] obtain ts where ts: "kids' = (kids @ [t]) @ ts"
        "list_all (conforms g (ignore_case c1) r) ts" "yields c1 i1 (concat (map fringe ts)) it'"
        by blast
      have "adds_errors ctx c1" using only_adds 1 by blast
      with ts t 1 builds [of ctx it t c1 i1] covers [of ctx it t c1 i1] show ?thesis
        by (intro exI [of _ "t # ts"]) (auto simp: yields_settings intro: yields_trans)
    qed
  qed (use Suc.prems in \<open>auto intro!: exI [of _ "[]"]\<close>)
qed

end

lemma tree_builderI:
  assumes "lawful m"
    and "\<And>ctx it t ctx' it'. m ctx it = Some (Some t, ctx', it') \<Longrightarrow>
      conforms g (ignore_case ctx) r t \<and> yields ctx it (fringe t) it'"
  shows "tree_builder m g r"
  using assms by (simp add: tree_builder_def tree_builder_axioms_def)

lemma tree_builder_lawful: "tree_builder m g r \<Longrightarrow> lawful m"
  by (simp add: tree_builder_def)

subsection \<open>Every combinator builds trees of its rule\<close>

lemma builders_lawful:
  "list_all2 (\<lambda>m r. tree_builder m g r) ms rs \<Longrightarrow> \<forall>m \<in> set ms. lawful m"
  by (induction rule: list_all2_induct) (auto dest: tree_builder_lawful)

lemma try_all_builds:
  "list_all2 (\<lambda>m r. tree_builder m g r) ms rs \<Longrightarrow>
     try_all r0 ms ctx it kids = Some (Some kids', ctx', it') \<Longrightarrow>
     \<exists>ts. kids' = kids @ ts \<and> list_all2 (conforms g (ignore_case ctx)) rs ts \<and>
          yields ctx it (concat (map fringe ts)) it'"
proof (induction ms rs arbitrary: ctx it kids rule: list_all2_induct)
  case (Cons m ms r rs)
  from Cons.prems obtain t c1 i1 where 1: "m ctx it = Some (Some t, c1, i1)"
    and rest: "try_all r0 ms c1 i1 (kids @ [t]) = Some (Some kids', ctx', it')"
    by (auto split: option.splits)
  from Cons.IH [OF rest] obtain ts where ts: "kids' = (kids @ [t]) @ ts"
    "list_all2 (conforms g (ignore_case c1)) rs ts" "yields c1 i1 (concat (map fringe ts)) it'"
    by blast
  have "adds_errors ctx c1"
    using lawful.only_adds [OF tree_builder_lawful [OF Cons.hyps(1)] 1] .
  with ts tree_builder.builds [OF Cons.hyps(1) 1] tree_builder.covers [OF Cons.hyps(1) 1]
  show ?case by (intro exI [of _ "t # ts"]) (auto simp: yields_settings intro: yields_trans)
qed (auto intro!: exI [of _ "[]"])

lemma try_any_builds:
  "list_all2 (\<lambda>m r. tree_builder m g r) ms rs \<Longrightarrow>
     try_any r0 ms ctx it it = Some (Some t, ctx', it') \<Longrightarrow>
     (\<exists>r \<in> set rs. conforms g (ignore_case ctx) r t) \<and> yields ctx it (fringe t) it'"
proof (induction ms rs arbitrary: ctx rule: list_all2_induct)
  case (Cons m ms r rs)
  from Cons.prems obtain o1 c1 i1 where 1: "m ctx it = Some (o1, c1, i1)"
    by (auto split: option.splits)
  have adds: "adds_errors ctx c1"
    using lawful.only_adds [OF tree_builder_lawful [OF Cons.hyps(1)] 1] .
  show ?case
  proof (cases o1)
    case None
    with Cons.prems 1 have "try_any r0 ms c1 it it = Some (Some t, ctx', it')"
      by (auto split: if_splits)
    from Cons.IH [OF this] adds show ?thesis by (auto simp: yields_settings)
  next
    case (Some t1)
    with Cons.prems 1 tree_builder.builds [OF Cons.hyps(1)] tree_builder.covers [OF Cons.hyps(1)]
    show ?thesis by auto
  qed
qed simp

lemma not_builds:
  assumes "list_all2 (\<lambda>m r. tree_builder m g r) ms rs"
  shows "tree_builder (not_parse (NotR rs) ms) g (NotR rs)"
  by (rule tree_builderI [OF not_parse_lawful [OF builders_lawful [OF assms]]])
    (auto simp: not_parse_def split: option.splits if_splits bool.splits intro: tree_not)

lemma and_builds:
  assumes "list_all2 (\<lambda>m r. tree_builder m g r) ms rs"
  shows "tree_builder (and_parse (AndR rs) ms) g (AndR rs)"
proof (rule tree_builderI [OF and_parse_lawful [OF builders_lawful [OF assms]]])
  fix ctx it t ctx' it' assume "and_parse (AndR rs) ms ctx it = Some (Some t, ctx', it')"
  then obtain kids where kids: "try_all (AndR rs) ms ctx it [] = Some (Some kids, ctx', it')"
    and t: "t = Node (AndR rs) (span_text it it') kids"
    by (auto simp: and_parse_def split: option.splits)
  from try_all_builds [OF assms kids] t
  show "conforms g (ignore_case ctx) (AndR rs) t \<and> yields ctx it (fringe t) it'"
    by (auto intro: tree_and node_yields simp del: fringe.simps)
qed

lemma or_builds:
  assumes "list_all2 (\<lambda>m r. tree_builder m g r) ms rs"
  shows "tree_builder (or_parse (OrR rs) ms) g (OrR rs)"
proof (rule tree_builderI [OF or_parse_lawful [OF builders_lawful [OF assms]]])
  fix ctx it t ctx' it' assume "or_parse (OrR rs) ms ctx it = Some (Some t, ctx', it')"
  then obtain k where k: "try_any (OrR rs) ms ctx it it = Some (Some k, ctx', it')"
    and t: "t = Node (OrR rs) (span_text it it') [k]"
    by (auto simp: or_parse_def split: option.splits)
  from try_any_builds [OF assms k] t
  show "conforms g (ignore_case ctx) (OrR rs) t \<and> yields ctx it (fringe t) it'"
    by (auto intro: tree_or)
qed

lemma star_builds:
  assumes mr: "tree_builder m g r"
  shows "tree_builder (zero_or_more_parse (ZeroOrMore r) m) g (ZeroOrMore r)"
proof (rule tree_builderI [OF zero_or_more_parse_lawful [OF tree_builder_lawful [OF mr]]])
  fix ctx it t ctx' it'
  assume "zero_or_more_parse (ZeroOrMore r) m ctx it = Some (Some t, ctx', it')"
  then obtain kids where kids: "repeat_loop (length it) m ctx it [] = Some (kids, ctx', it')"
    and t: "t = Node (ZeroOrMore r) (span_text it it') kids"
    by (auto simp: zero_or_more_parse_def split: option.splits)
  from tree_builder.loop_builds [OF mr kids] t
  show "conforms g (ignore_case ctx) (ZeroOrMore r) t \<and> yields ctx it (fringe t) it'"
    by (auto intro: tree_star node_yields simp del: fringe.simps)
qed

lemma plus_builds:
  assumes mr: "tree_builder m g r"
  shows "tree_builder (one_or_more_parse (OneOrMore r) m) g (OneOrMore r)"
proof (rule tree_builderI [OF one_or_more_parse_lawful [OF tree_builder_lawful [OF mr]]])
  fix ctx it t ctx' it'
  assume "one_or_more_parse (OneOrMore r) m ctx it = Some (Some t, ctx', it')"
  then obtain k c1 i1 kids where 1: "m ctx it = Some (Some k, c1, i1)"
    and kids: "repeat_loop (length i1) m c1 i1 [k] = Some (kids, ctx', it')"
    and t: "t = Node (OneOrMore r) (span_text it it') kids"
    by (auto simp: one_or_more_parse_def split: option.splits)
  from tree_builder.loop_builds [OF mr kids] obtain ts where ts: "kids = k # ts"
    "list_all (conforms g (ignore_case c1) r) ts" "yields c1 i1 (concat (map fringe ts)) it'"
    by auto
  have "adds_errors ctx c1" using lawful.only_adds [OF tree_builder_lawful [OF mr] 1] .
  with ts t tree_builder.builds [OF mr 1] tree_builder.covers [OF mr 1]
  show "conforms g (ignore_case ctx) (OneOrMore r) t \<and> yields ctx it (fringe t) it'"
    by (auto simp: yields_settings intro: tree_plus yields_trans)
qed

lemma opt_builds:
  assumes mr: "tree_builder m g r"
  shows "tree_builder (zero_or_one_parse (ZeroOrOne r) m) g (ZeroOrOne r)"
proof (rule tree_builderI [OF single_child_lawful(1) [OF tree_builder_lawful [OF mr]]])
  fix ctx it t ctx' it'
  assume "zero_or_one_parse (ZeroOrOne r) m ctx it = Some (Some t, ctx', it')"
  then consider "t = Node (ZeroOrOne r) [] []" "it' = it"
    | k where "m ctx it = Some (Some k, ctx', it')"
        "t = Node (ZeroOrOne r) (span_text it it') [k]"
    by (auto simp: zero_or_one_parse_def split: option.splits)
  then show "conforms g (ignore_case ctx) (ZeroOrOne r) t \<and> yields ctx it (fringe t) it'"
    by cases (simp_all add: conforms.intros tree_builder.builds [OF mr] tree_builder.covers [OF mr])
qed

lemma rule_builds:
  assumes mr: "tree_builder m g impl"
  shows "tree_builder (rule_parse (RuleD d impl) m) g (RuleD d impl)"
proof (rule tree_builderI [OF single_child_lawful(2) [OF tree_builder_lawful [OF mr]]])
  fix ctx it t ctx' it' assume "rule_parse (RuleD d impl) m ctx it = Some (Some t, ctx', it')"
  then obtain k where "m ctx it = Some (Some k, ctx', it')"
    "t = Node (RuleD d impl) (span_text it it') [k]"
    by (auto simp: rule_parse_def split: option.splits)
  then show "conforms g (ignore_case ctx) (RuleD d impl) t \<and> yields ctx it (fringe t) it'"
    by (simp add: conforms.intros tree_builder.builds [OF mr] tree_builder.covers [OF mr])
qed

lemma terminal_builds:
  assumes "lawful m"
    and "\<And>ctx it t ctx' it'. m ctx it = Some (Some t, ctx', it') \<Longrightarrow>
      conforms g (ignore_case ctx) r t \<and> children t = []"
  shows "tree_builder m g r"
proof (rule tree_builderI [OF assms(1)])
  fix ctx it t ctx' it' assume 1: "m ctx it = Some (Some t, ctx', it')"
  then have "yields ctx it (get_text t) it'"
    using lawful.match_text [OF assms(1)] matches_text_yields by blast
  with assms(2) [OF 1] show "conforms g (ignore_case ctx) r t \<and> yields ctx it (fringe t) it'"
    by (cases t) auto
qed

lemma string_loop_matches:
  "string_loop ic lit it = (True, it') \<Longrightarrow>
     list_all2 (\<lambda>c l. char_match c l ic) (span_text it it') lit \<and> suffix it' it"
proof (induction ic lit it rule: string_loop.induct)
  case (3 ic l ls c cs)
  then have "list_all2 (\<lambda>c l. char_match c l ic) (span_text cs it') ls" "suffix it' cs"
    and "char_match c l ic" by (auto split: if_splits)
  moreover have "span_text (c # cs) it' = c # span_text cs it'"
    using \<open>suffix it' cs\<close> by (auto simp: suffix_def span_text_def)
  ultimately show ?case by (auto intro: suffix_ConsI)
qed auto

lemma string_builds: "tree_builder (string_parse (StringR lit) lit) g (StringR lit)"
  by (rule terminal_builds [OF string_parse_lawful])
    (auto simp: string_parse_def Let_def split: prod.splits if_splits
      intro: tree_string dest: string_loop_matches)

lemma character_builds: "tree_builder (character_parse (CharacterR c) c) g (CharacterR c)"
  by (rule terminal_builds [OF character_parse_lawful])
    (auto simp: character_parse_def Let_def split: if_splits intro: tree_character)

lemma characters_builds:
  "tree_builder (characters_parse (CharactersR a b) a b) g (CharactersR a b)"
  by (rule terminal_builds [OF characters_parse_lawful])
    (auto simp: characters_parse_def Let_def range_test_def split: if_splits list.splits
      intro: tree_characters)

lemma regex_builds: "tree_builder (regex_parse (RegexR pat items) pat items) g (RegexR pat items)"
proof (rule terminal_builds [OF regex_parse_lawful])
  fix ctx it t ctx' it'
  assume "regex_parse (RegexR pat items) pat items ctx it = Some (Some t, ctx', it')"
  then have m: "re_match items (skip_ws ctx it) = Some it'"
    and t: "t = Node (RegexR pat items) (span_text (skip_ws ctx it) it') []"
    by (auto simp: regex_parse_def Let_def split: if_splits option.splits)
  from m re_match_suffix [OF m] t
  show "conforms g (ignore_case ctx) (RegexR pat items) t \<and> children t = []"
    by (auto intro!: tree_regex [of _ _ it'])
qed

lemma empty_builds: "tree_builder (rule_empty_parse (RuleE d)) g (RuleE d)"
  by (rule terminal_builds [OF rule_empty_parse_lawful])
    (auto simp: rule_empty_parse_def intro: tree_empty)

lemma list_builders:
  "(\<And>r. r \<in> set rs \<Longrightarrow> tree_builder (p r) g r) \<Longrightarrow>
     list_all2 (\<lambda>m r. tree_builder m g r) (map p rs) rs"
  by (simp add: list_all2_map1 list.rel_refl_strong)

lemma parse_builds: "tree_builder (parse g n r) g r"
proof (induction g n r rule: parse.induct)
  case (13 g d)
  show ?case by (rule tree_builderI [OF parse_lawful]) simp
next
  case (14 g n d)
  show ?case
  proof (cases "g d")
    case None
    then show ?thesis by (intro tree_builderI [OF parse_lawful]) simp
  next
    case (Some r)
    from "14.IH" [OF Some] have b: "tree_builder (parse g n r) g r" .
    from Some show ?thesis
      by (intro tree_builderI [OF parse_lawful])
        (auto intro: tree_ref tree_builder.builds [OF b] tree_builder.covers [OF b])
  qed
qed (auto intro!: not_builds and_builds or_builds star_builds plus_builds opt_builds rule_builds
    string_builds character_builds characters_builds regex_builds empty_builds list_builders)

interpretation tree: tree_builder "parse g n r" g r for g n r
  by (rule parse_builds)

end
