(* ===== verification/Peg.thy ===== *)
theory Peg
  imports Recognizer
begin

text \<open>
  The language of a rule as a relation: the big-step semantics of parsing expression grammars,
  with no fuel and no order of evaluation beyond what the combinators promise. The relation is
  deterministic and \<open>recog\<close>, hence \<open>parse\<close>, computes exactly it: it returns on the inputs
  where the relation has an outcome, given enough fuel, and more fuel never changes a result.
\<close>

inductive peg :: "grammar \<Rightarrow> parse_context \<Rightarrow> rule \<Rightarrow> iter \<Rightarrow> iter option \<Rightarrow> bool"
  and peg_seq :: "grammar \<Rightarrow> parse_context \<Rightarrow> rule list \<Rightarrow> iter \<Rightarrow> iter option \<Rightarrow> bool"
  and peg_alt :: "grammar \<Rightarrow> parse_context \<Rightarrow> rule list \<Rightarrow> iter \<Rightarrow> iter option \<Rightarrow> bool"
  and peg_star :: "grammar \<Rightarrow> parse_context \<Rightarrow> rule \<Rightarrow> iter \<Rightarrow> iter \<Rightarrow> bool"
  for g :: grammar and ctx :: parse_context where
  not_none: "peg g ctx (NotR []) it None"
| not_fails: "rs \<noteq> [] \<Longrightarrow> peg_seq g ctx rs (skip_ws ctx it) (Some e) \<Longrightarrow> peg g ctx (NotR rs) it None"
| not_matches: "rs \<noteq> [] \<Longrightarrow> peg_seq g ctx rs (skip_ws ctx it) None \<Longrightarrow>
     peg g ctx (NotR rs) it (Some it)"
| and_seq: "peg_seq g ctx rs it res \<Longrightarrow> peg g ctx (AndR rs) it res"
| or_alt: "peg_alt g ctx rs it res \<Longrightarrow> peg g ctx (OrR rs) it res"
| plus_fails: "peg g ctx r it None \<Longrightarrow> peg g ctx (OneOrMore r) it None"
| plus_matches: "peg g ctx r it (Some i1) \<Longrightarrow> peg_star g ctx r i1 i2 \<Longrightarrow>
     peg g ctx (OneOrMore r) it (Some i2)"
| star: "peg_star g ctx r it i2 \<Longrightarrow> peg g ctx (ZeroOrMore r) it (Some i2)"
| opt_empty: "peg g ctx r it None \<Longrightarrow> peg g ctx (ZeroOrOne r) it (Some it)"
| opt_matches: "peg g ctx r it (Some i1) \<Longrightarrow> peg g ctx (ZeroOrOne r) it (Some i1)"
| string: "string_recog lit ctx it = res \<Longrightarrow> peg g ctx (StringR lit) it res"
| character: "char_recog (\<lambda>ic x. char_match x c ic) ctx it = res \<Longrightarrow>
     peg g ctx (CharacterR c) it res"
| characters: "char_recog (range_test a b) ctx it = res \<Longrightarrow> peg g ctx (CharactersR a b) it res"
| regex: "regex_recog items ctx it = res \<Longrightarrow> peg g ctx (RegexR pat items) it res"
| rule_decl: "peg g ctx impl it res \<Longrightarrow> peg g ctx (RuleD d impl) it res"
| rule_empty: "peg g ctx (RuleE d) it (Some it)"
| rule_ref: "g d = Some r \<Longrightarrow> peg g ctx r it res \<Longrightarrow> peg g ctx (RuleRef d) it res"
| seq_nil: "peg_seq g ctx [] it (Some it)"
| seq_fails: "peg g ctx r it None \<Longrightarrow> peg_seq g ctx (r # rs) it None"
| seq_goes_on: "peg g ctx r it (Some i1) \<Longrightarrow> peg_seq g ctx rs i1 res \<Longrightarrow>
     peg_seq g ctx (r # rs) it res"
| alt_nil: "peg_alt g ctx [] it None"
| alt_matches: "peg g ctx r it (Some i1) \<Longrightarrow> peg_alt g ctx (r # rs) it (Some i1)"
| alt_goes_on: "peg g ctx r it None \<Longrightarrow> peg_alt g ctx rs it res \<Longrightarrow> peg_alt g ctx (r # rs) it res"
| star_end: "peg_star g ctx r [] []"
| star_stops: "it \<noteq> [] \<Longrightarrow> peg g ctx r it None \<Longrightarrow> peg_star g ctx r it it"
| star_stuck: "it \<noteq> [] \<Longrightarrow> peg g ctx r it (Some it) \<Longrightarrow> peg_star g ctx r it it"
| star_goes_on: "it \<noteq> [] \<Longrightarrow> peg g ctx r it (Some i1) \<Longrightarrow> i1 \<noteq> it \<Longrightarrow> peg_star g ctx r i1 i2 \<Longrightarrow>
     peg_star g ctx r it i2"

inductive_cases peg_NotE: "peg g ctx (NotR rs) it res"
inductive_cases peg_AndE: "peg g ctx (AndR rs) it res"
inductive_cases peg_OrE: "peg g ctx (OrR rs) it res"
inductive_cases peg_PlusE: "peg g ctx (OneOrMore r) it res"
inductive_cases peg_StarE: "peg g ctx (ZeroOrMore r) it res"
inductive_cases peg_OptE: "peg g ctx (ZeroOrOne r) it res"
inductive_cases peg_DeclE: "peg g ctx (RuleD d impl) it res"
inductive_cases peg_RefE: "peg g ctx (RuleRef d) it res"
inductive_cases seq_ConsE: "peg_seq g ctx (r # rs) it res"
inductive_cases alt_ConsE: "peg_alt g ctx (r # rs) it res"
inductive_cases star_loopE: "peg_star g ctx r it i2"

inductive_simps peg_terminals [simp]:
  "peg g ctx (StringR lit) it res"
  "peg g ctx (CharacterR c) it res"
  "peg g ctx (CharactersR a b) it res"
  "peg g ctx (RegexR pat items) it res"
  "peg g ctx (RuleE d) it res"

lemmas peg_elims = peg_NotE peg_AndE peg_OrE peg_PlusE peg_StarE peg_OptE peg_DeclE peg_RefE
  seq_ConsE alt_ConsE

subsection \<open>Soundness: what recog returns is in the relation\<close>

lemma seq_recog_sound:
  assumes "\<forall>r \<in> set rs. \<forall>it res. recog g n r ctx it = Some res \<longrightarrow> peg g ctx r it res"
  shows "seq_recog (map (recog g n) rs) ctx it = Some res \<Longrightarrow> peg_seq g ctx rs it res"
  using assms
proof (induction rs arbitrary: it)
  case (Cons r rs)
  from Cons.prems(1) obtain o1 where 1: "recog g n r ctx it = Some o1"
    by (auto split: option.splits)
  with Cons.prems(2) have p: "peg g ctx r it o1" by simp
  show ?case
  proof (cases o1)
    case None
    with Cons.prems(1) 1 p show ?thesis by (auto intro: seq_fails)
  next
    case (Some i1)
    with Cons.prems 1 have "peg_seq g ctx rs i1 res" by (intro Cons.IH) auto
    with p Some show ?thesis by (auto intro: seq_goes_on)
  qed
qed (auto intro: seq_nil)

lemma alt_recog_sound:
  assumes "\<forall>r \<in> set rs. \<forall>it res. recog g n r ctx it = Some res \<longrightarrow> peg g ctx r it res"
  shows "alt_recog (map (recog g n) rs) ctx it = Some res \<Longrightarrow> peg_alt g ctx rs it res"
  using assms
proof (induction rs)
  case (Cons r rs)
  from Cons.prems(1) obtain o1 where 1: "recog g n r ctx it = Some o1"
    by (auto split: option.splits)
  with Cons.prems(2) have p: "peg g ctx r it o1" by simp
  show ?case
  proof (cases o1)
    case None
    with Cons.prems 1 have "peg_alt g ctx rs it res" by (intro Cons.IH) auto
    with p None show ?thesis by (auto intro: alt_goes_on)
  next
    case (Some i1)
    with Cons.prems(1) 1 p show ?thesis by (auto intro: alt_matches)
  qed
qed (auto intro: alt_nil)

lemma loop_recog_sound:
  assumes "\<forall>it res. recog g n r ctx it = Some res \<longrightarrow> peg g ctx r it res"
  shows "loop_recog k (recog g n r) ctx it = Some i2 \<Longrightarrow> peg_star g ctx r it i2"
proof (induction k arbitrary: it)
  case (Suc k)
  show ?case
  proof (cases "it = []")
    case False
    with Suc.prems obtain o1 where 1: "recog g n r ctx it = Some o1"
      by (auto split: option.splits)
    with assms have p: "peg g ctx r it o1" by simp
    from Suc False 1 p show ?thesis
      by (auto split: option.splits if_splits intro: star_stops star_stuck star_goes_on)
  qed (use Suc.prems in \<open>auto intro: star_end\<close>)
qed (auto split: if_splits intro: star_end)

lemma recog_sound: "recog g n r ctx it = Some res \<Longrightarrow> peg g ctx r it res"
proof (induction g n r arbitrary: it res rule: parse.induct)
  case (1 g n rs)
  have sound: "\<forall>r \<in> set rs. \<forall>it res. recog g n r ctx it = Some res \<longrightarrow> peg g ctx r it res"
    using "1.IH" by blast
  from "1.prems" show ?case
    by (auto simp: not_recog_def split: option.splits if_splits dest!: seq_recog_sound [OF sound]
        intro: not_none not_fails not_matches)
next
  case (2 g n rs)
  then have sound: "\<forall>r \<in> set rs. \<forall>it res. recog g n r ctx it = Some res \<longrightarrow> peg g ctx r it res"
    by blast
  from "2.prems" show ?case by (auto intro: and_seq seq_recog_sound [OF sound])
next
  case (3 g n rs)
  then have sound: "\<forall>r \<in> set rs. \<forall>it res. recog g n r ctx it = Some res \<longrightarrow> peg g ctx r it res"
    by blast
  from "3.prems" show ?case by (auto intro: or_alt alt_recog_sound [OF sound])
next
  case (4 g n r)
  then have sound: "\<forall>it res. recog g n r ctx it = Some res \<longrightarrow> peg g ctx r it res" by blast
  from "4.prems" sound show ?case
    by (auto simp: plus_recog_def star_recog_def split: option.splits
        intro: plus_fails plus_matches loop_recog_sound)
next
  case (5 g n r)
  then have sound: "\<forall>it res. recog g n r ctx it = Some res \<longrightarrow> peg g ctx r it res" by blast
  from "5.prems" sound show ?case
    by (auto simp: star_recog_def intro: star loop_recog_sound)
next
  case (6 g n r)
  then show ?case by (auto simp: opt_recog_def split: option.splits intro: opt_empty opt_matches)
next
  case (14 g n d)
  then show ?case by (auto split: option.splits intro: rule_ref)
qed (auto intro: rule_decl)

subsection \<open>Fuel\<close>

text \<open>More fuel never changes a result.\<close>

definition extends_recog :: "recognizer \<Rightarrow> recognizer \<Rightarrow> bool" where
  "extends_recog q q' \<longleftrightarrow> (\<forall>ctx it res. q ctx it = Some res \<longrightarrow> q' ctx it = Some res)"

lemma extends_recogD: "extends_recog q q' \<Longrightarrow> q ctx it = Some res \<Longrightarrow> q' ctx it = Some res"
  by (simp add: extends_recog_def)

lemma seq_recog_extends:
  "list_all2 extends_recog qs qs' \<Longrightarrow> seq_recog qs ctx it = Some res \<Longrightarrow>
     seq_recog qs' ctx it = Some res"
  by (induction qs qs' arbitrary: it rule: list_all2_induct)
    (auto split: option.splits dest: extends_recogD)

lemma alt_recog_extends:
  "list_all2 extends_recog qs qs' \<Longrightarrow> alt_recog qs ctx it = Some res \<Longrightarrow>
     alt_recog qs' ctx it = Some res"
  by (induction qs qs' rule: list_all2_induct) (auto split: option.splits dest: extends_recogD)

lemma loop_recog_extends:
  "extends_recog q q' \<Longrightarrow> loop_recog k q ctx it = Some res \<Longrightarrow> loop_recog k q' ctx it = Some res"
  by (induction k arbitrary: it) (auto split: option.splits if_splits dest: extends_recogD)

lemma not_recog_extends:
  assumes "list_all2 extends_recog qs qs'"
  shows "extends_recog (not_recog qs) (not_recog qs')"
  unfolding extends_recog_def [of "not_recog qs"]
  using assms by (auto simp: not_recog_def split: option.splits if_splits
      dest: list_all2_lengthD seq_recog_extends)

lemma star_recog_extends:
  "extends_recog q q' \<Longrightarrow> extends_recog (star_recog q) (star_recog q')"
  unfolding extends_recog_def [of "star_recog q"]
  by (auto simp: star_recog_def dest: loop_recog_extends)

lemma plus_recog_extends:
  assumes qq: "extends_recog q q'"
  shows "extends_recog (plus_recog q) (plus_recog q')"
  unfolding extends_recog_def [of "plus_recog q"]
proof (intro allI impI)
  fix ctx it res assume p: "plus_recog q ctx it = Some res"
  then obtain o1 where 1: "q ctx it = Some o1" by (auto simp: plus_recog_def split: option.splits)
  with p extends_recogD [OF star_recog_extends [OF qq]] extends_recogD [OF qq 1]
  show "plus_recog q' ctx it = Some res"
    by (cases o1) (auto simp: plus_recog_def)
qed

lemma opt_recog_extends: "extends_recog q q' \<Longrightarrow> extends_recog (opt_recog q) (opt_recog q')"
  unfolding extends_recog_def [of "opt_recog q"]
  by (auto simp: opt_recog_def split: option.splits dest: extends_recogD)

lemma extends_recog_refl [simp]: "extends_recog q q"
  by (simp add: extends_recog_def)

lemma list_extends:
  "list_all2 extends_recog qs qs' \<Longrightarrow> extends_recog (seq_recog qs) (seq_recog qs')"
  "list_all2 extends_recog qs qs' \<Longrightarrow> extends_recog (alt_recog qs) (alt_recog qs')"
  unfolding extends_recog_def [of "seq_recog _"] extends_recog_def [of "alt_recog _"]
  by (auto intro: seq_recog_extends alt_recog_extends)

lemmas combinators_extend = list_extends not_recog_extends star_recog_extends plus_recog_extends
  opt_recog_extends

lemma recog_extends: "extends_recog (recog g n r) (recog g (n + k) r)"
proof (induction g n r rule: parse.induct)
  case (13 g d)
  show ?case by (simp add: extends_recog_def)
next
  case (14 g n d)
  then show ?case by (cases "g d") (auto simp: extends_recog_def)
qed (auto intro!: combinators_extend list.rel_refl_strong
      simp: list_all2_map1 list_all2_map2)

lemma recog_fuel: "recog g n r ctx it = Some res \<Longrightarrow> n \<le> m \<Longrightarrow> recog g m r ctx it = Some res"
  using recog_extends [of g n r "m - n"] by (simp add: extends_recog_def)

subsection \<open>Completeness: recog finds every outcome of the relation\<close>

lemma map_recog_fuel:
  "n \<le> m \<Longrightarrow> list_all2 extends_recog (map (recog g n) rs) (map (recog g m) rs)"
  by (auto simp: list_all2_map1 list_all2_map2 extends_recog_def
      intro!: list.rel_refl_strong intro: recog_fuel)

lemma seq_recog_fuel:
  "seq_recog (map (recog g n) rs) ctx it = Some res \<Longrightarrow> n \<le> m \<Longrightarrow>
     seq_recog (map (recog g m) rs) ctx it = Some res"
  by (rule seq_recog_extends [OF map_recog_fuel])

lemma alt_recog_fuel:
  "alt_recog (map (recog g n) rs) ctx it = Some res \<Longrightarrow> n \<le> m \<Longrightarrow>
     alt_recog (map (recog g m) rs) ctx it = Some res"
  by (rule alt_recog_extends [OF map_recog_fuel])

lemma loop_recog_fuel:
  "loop_recog k (recog g n r) ctx it = Some i \<Longrightarrow> n \<le> m \<Longrightarrow>
     loop_recog k (recog g m r) ctx it = Some i"
  by (rule loop_recog_extends) (auto simp: extends_recog_def intro: recog_fuel)

text \<open>With the same number of iterations allowed or more, the loop has the same result.\<close>

lemma loop_recog_Suc:
  "loop_recog k q ctx it = Some i \<Longrightarrow> loop_recog (Suc k) q ctx it = Some i"
proof (induction k arbitrary: it)
  case (Suc k)
  from Suc.prems [unfolded loop_recog.simps(2)] show ?case
    by (subst loop_recog.simps(2))
      (auto simp del: loop_recog.simps split: option.splits if_splits intro: Suc.IH)
qed (simp split: if_splits)

lemma loop_recog_steps:
  "loop_recog k q ctx it = Some i \<Longrightarrow> loop_recog (k + d) q ctx it = Some i"
  by (induction d) (simp_all only: add_0_right add_Suc_right loop_recog_Suc)

lemma recog_complete_all:
  "peg g ctx r it res \<Longrightarrow> \<exists>n. recog g n r ctx it = Some res"
  "peg_seq g ctx rs it res \<Longrightarrow> \<exists>n. seq_recog (map (recog g n) rs) ctx it = Some res"
  "peg_alt g ctx rs it res \<Longrightarrow> \<exists>n. alt_recog (map (recog g n) rs) ctx it = Some res"
  "peg_star g ctx r it i2 \<Longrightarrow> \<exists>n. loop_recog (length it) (recog g n r) ctx it = Some i2"
proof (induction rule: peg_peg_seq_peg_alt_peg_star.inducts)
  case (plus_matches r it i1 i2)
  then obtain n1 n2 where 1: "recog g n1 r ctx it = Some (Some i1)"
    and 2: "loop_recog (length i1) (recog g n2 r) ctx i1 = Some i2" by blast
  define m where "m = max n1 n2"
  have m: "recog g m r ctx it = Some (Some i1)"
    "loop_recog (length i1) (recog g m r) ctx i1 = Some i2"
    using recog_fuel [OF 1, of m] loop_recog_fuel [OF 2, of m] by (simp_all add: m_def)
  from m show ?case by (intro exI [of _ m]) (simp add: plus_recog_def star_recog_def)
next
  case (seq_goes_on r it i1 rs res)
  then obtain n1 n2 where 1: "recog g n1 r ctx it = Some (Some i1)"
    and 2: "seq_recog (map (recog g n2) rs) ctx i1 = Some res" by blast
  define m where "m = max n1 n2"
  have m: "recog g m r ctx it = Some (Some i1)"
    "seq_recog (map (recog g m) rs) ctx i1 = Some res"
    using recog_fuel [OF 1, of m] seq_recog_fuel [OF 2, of m] by (simp_all add: m_def)
  from m show ?case by (intro exI [of _ m]) simp
next
  case (alt_goes_on r it rs res)
  then obtain n1 n2 where 1: "recog g n1 r ctx it = Some None"
    and 2: "alt_recog (map (recog g n2) rs) ctx it = Some res" by blast
  define m where "m = max n1 n2"
  have m: "recog g m r ctx it = Some None"
    "alt_recog (map (recog g m) rs) ctx it = Some res"
    using recog_fuel [OF 1, of m] alt_recog_fuel [OF 2, of m] by (simp_all add: m_def)
  from m show ?case by (intro exI [of _ m]) simp
next
  case (star_goes_on it r i1 i2)
  then obtain n1 n2 where 1: "recog g n1 r ctx it = Some (Some i1)"
    and 2: "loop_recog (length i1) (recog g n2 r) ctx i1 = Some i2" by blast
  define m where "m = max n1 n2"
  have m: "recog g m r ctx it = Some (Some i1)"
    "loop_recog (length i1) (recog g m r) ctx i1 = Some i2"
    using recog_fuel [OF 1, of m] loop_recog_fuel [OF 2, of m] by (simp_all add: m_def)
  have "length i1 < length it"
    using recog_suffix [OF m(1)] \<open>i1 \<noteq> it\<close> by (rule suffix_neq_shorter)
  then obtain k where k: "length it = Suc k" "length i1 + (k - length i1) = k"
    by (cases "length it") auto
  then have "loop_recog k (recog g m r) ctx i1 = Some i2"
    using loop_recog_steps [OF m(2), of "k - length i1"] by simp
  with m(1) k(1) \<open>it \<noteq> []\<close> \<open>i1 \<noteq> it\<close> show ?case by (intro exI [of _ m]) simp
next
  case (star_stops it r)
  then obtain n where "recog g n r ctx it = Some None" by blast
  moreover obtain k where "length it = Suc k" using \<open>it \<noteq> []\<close> by (cases "length it") auto
  ultimately show ?case using \<open>it \<noteq> []\<close> by (intro exI [of _ n]) simp
next
  case (star_stuck it r)
  then obtain n where "recog g n r ctx it = Some (Some it)" by blast
  moreover obtain k where "length it = Suc k" using \<open>it \<noteq> []\<close> by (cases "length it") auto
  ultimately show ?case using \<open>it \<noteq> []\<close> by (intro exI [of _ n]) simp
next
  case (rule_ref d r it res)
  then obtain n where "recog g n r ctx it = Some res" by blast
  then show ?case using \<open>g d = Some r\<close> by (intro exI [of _ "Suc n"]) simp
next
  case (not_fails rs it e)
  then obtain n where "seq_recog (map (recog g n) rs) ctx (skip_ws ctx it) = Some (Some e)" by blast
  then show ?case using \<open>rs \<noteq> []\<close> by (intro exI [of _ n]) (simp add: not_recog_def)
next
  case (not_matches rs it)
  then obtain n where "seq_recog (map (recog g n) rs) ctx (skip_ws ctx it) = Some None" by blast
  then show ?case using \<open>rs \<noteq> []\<close> by (intro exI [of _ n]) (simp add: not_recog_def)
next
  case (plus_fails r it)
  then obtain n where "recog g n r ctx it = Some None" by blast
  then show ?case by (intro exI [of _ n]) (simp add: plus_recog_def)
next
  case (opt_empty r it)
  then obtain n where "recog g n r ctx it = Some None" by blast
  then show ?case by (intro exI [of _ n]) (simp add: opt_recog_def)
next
  case (opt_matches r it i1)
  then obtain n where "recog g n r ctx it = Some (Some i1)" by blast
  then show ?case by (intro exI [of _ n]) (simp add: opt_recog_def)
next
  case (seq_fails r it rs)
  then obtain n where "recog g n r ctx it = Some None" by blast
  then show ?case by (intro exI [of _ n]) (simp)
next
  case (alt_matches r it i1 rs)
  then obtain n where "recog g n r ctx it = Some (Some i1)" by blast
  then show ?case by (intro exI [of _ n]) (simp)
qed (auto simp: not_recog_def star_recog_def)

theorem recog_iff_peg: "(\<exists>n. recog g n r ctx it = Some res) \<longleftrightarrow> peg g ctx r it res"
  using recog_sound recog_complete_all(1) by blast

lemma recog_unique:
  assumes "recog g n r ctx it = Some res" and "recog g m r ctx it = Some res'"
  shows "res = res'"
  using recog_fuel [OF assms(1), of "max n m"] recog_fuel [OF assms(2), of "max n m"] by simp

end
