(* ===== verification/Parse_Termination.thy ===== *)
theory Parse_Termination
  imports Peg
begin

text \<open>
  When parsing returns. The repetitions always end (their no-progress guard); what may not
  return is a struct that reaches itself before a character is consumed, which overflows the
  stack in C++ and uses up any fuel here. The executable check \<open>guarded\<close> excludes it, and for a
  guarded grammar the length of the input bounds the nesting of references.
\<close>

subsection \<open>Rules that may match without consuming\<close>

definition re_skippable :: "re_item list \<Rightarrow> bool" where
  "re_skippable items \<longleftrightarrow> list_all (\<lambda>(_, q). q = Re_Star \<or> q = Re_Opt) items"

fun may_empty :: "rule \<Rightarrow> bool" where
  "may_empty (NotR rs) = True"
| "may_empty (AndR rs) = list_all may_empty rs"
| "may_empty (OrR rs) = list_ex may_empty rs"
| "may_empty (OneOrMore r) = may_empty r"
| "may_empty (ZeroOrMore r) = True"
| "may_empty (ZeroOrOne r) = True"
| "may_empty (StringR lit) = (lit = [])"
| "may_empty (CharacterR c) = False"
| "may_empty (CharactersR a b) = False"
| "may_empty (RegexR pat items) = re_skippable items"
| "may_empty (RuleD d impl) = may_empty impl"
| "may_empty (RuleE d) = True"
| "may_empty (RuleRef d) = True"

text \<open>A rule that reaches no reference before it has consumed a character.\<close>

fun guarded :: "rule \<Rightarrow> bool" and guarded_seq :: "rule list \<Rightarrow> bool" where
  "guarded (NotR rs) = guarded_seq rs"
| "guarded (AndR rs) = guarded_seq rs"
| "guarded (OrR rs) = list_all guarded rs"
| "guarded (OneOrMore r) = guarded r"
| "guarded (ZeroOrMore r) = guarded r"
| "guarded (ZeroOrOne r) = guarded r"
| "guarded (StringR lit) = True"
| "guarded (CharacterR c) = True"
| "guarded (CharactersR a b) = True"
| "guarded (RegexR pat items) = True"
| "guarded (RuleD d impl) = guarded impl"
| "guarded (RuleE d) = True"
| "guarded (RuleRef d) = False"
| "guarded_seq [] = True"
| "guarded_seq (r # rs) = (guarded r \<and> (may_empty r \<longrightarrow> guarded_seq rs))"

text \<open>Every struct a rule refers to is defined.\<close>

fun complete :: "string set \<Rightarrow> rule \<Rightarrow> bool" where
  "complete D (NotR rs) = list_all (complete D) rs"
| "complete D (AndR rs) = list_all (complete D) rs"
| "complete D (OrR rs) = list_all (complete D) rs"
| "complete D (OneOrMore r) = complete D r"
| "complete D (ZeroOrMore r) = complete D r"
| "complete D (ZeroOrOne r) = complete D r"
| "complete D (RuleD d impl) = complete D impl"
| "complete D (RuleRef d) = (d \<in> D)"
| "complete D r = True"

definition well_founded_grammar :: "grammar \<Rightarrow> bool" where
  "well_founded_grammar g \<longleftrightarrow>
     (\<forall>d r. g d = Some r \<longrightarrow> guarded r \<and> complete (dom g) r)"

subsection \<open>A match of a rule that may not be empty consumes\<close>

lemma string_loop_empty: "string_loop ic lit it = (True, it') \<Longrightarrow> length it' = length it - length lit \<and> length lit \<le> length it"
  by (induction ic lit it rule: string_loop.induct) (auto split: if_splits)

lemma re_match_empty:
  "re_match items it = Some it' \<Longrightarrow> length it \<le> length it' \<Longrightarrow> re_skippable items"
proof (induction items it arbitrary: it' rule: re_match.induct)
  case (3 k "is" c cs)
  then show ?case by (auto split: if_splits dest!: re_match_suffix suffix_length_le)
next
  case (9 k "is" c cs)
  then show ?case by (auto split: if_splits dest!: re_match_suffix suffix_length_le)
next
  case (7 k "is" c cs)
  then show ?case
    by (auto split: if_splits option.splits simp: re_skippable_def
        dest!: re_match_suffix suffix_length_le)
next
  case (5 k "is" c cs)
  then show ?case
    by (auto split: if_splits option.splits simp: re_skippable_def
        dest!: re_match_suffix suffix_length_le)
qed (auto simp: re_skippable_def)

text \<open>The length left after a match.\<close>

lemma recog_shorter: "recog g n r ctx it = Some (Some it') \<Longrightarrow> length it' \<le> length it"
  by (rule suffix_length_le [OF recog_suffix])

lemma skip_ws_length: "length (skip_ws ctx it) \<le> length it"
  by (rule suffix_length_le [OF skip_ws_suffix])

lemma loop_recog_shorter:
  "loop_recog k (recog g n r) ctx it = Some it' \<Longrightarrow> length it' \<le> length it"
  by (induction k arbitrary: it)
    (auto split: if_splits option.splits intro: le_trans dest: recog_shorter)

lemma seq_recog_shorter:
  "seq_recog (map (recog g n) rs) ctx it = Some (Some it') \<Longrightarrow> length it' \<le> length it"
  by (induction rs arbitrary: it)
    (auto split: option.splits intro: le_trans dest: recog_shorter)

lemma seq_may_empty:
  assumes "\<forall>r \<in> set rs. \<forall>it it'. recog g n r ctx it = Some (Some it') \<longrightarrow>
      length it \<le> length it' \<longrightarrow> may_empty r"
  shows "seq_recog (map (recog g n) rs) ctx it = Some (Some it') \<Longrightarrow>
      length it \<le> length it' \<Longrightarrow> list_all may_empty rs"
  using assms
proof (induction rs arbitrary: it)
  case (Cons r rs)
  from Cons.prems(1) obtain i1 where 1: "recog g n r ctx it = Some (Some i1)"
    and 2: "seq_recog (map (recog g n) rs) ctx i1 = Some (Some it')"
    by (auto split: option.splits)
  from recog_shorter [OF 1] seq_recog_shorter [OF 2] Cons.prems(2)
  have "length it \<le> length i1" "length i1 \<le> length it'" by linarith+
  with 1 2 Cons.prems(3) Cons.IH [OF 2] show ?case by auto
qed simp

lemma alt_may_empty:
  assumes "\<forall>r \<in> set rs. \<forall>it it'. recog g n r ctx it = Some (Some it') \<longrightarrow>
      length it \<le> length it' \<longrightarrow> may_empty r"
  shows "alt_recog (map (recog g n) rs) ctx it = Some (Some it') \<Longrightarrow>
      length it \<le> length it' \<Longrightarrow> list_ex may_empty rs"
  using assms by (induction rs) (auto split: option.splits)

lemma recog_may_empty:
  "recog g n r ctx it = Some (Some it') \<Longrightarrow> length it \<le> length it' \<Longrightarrow> may_empty r"
proof (induction g n r arbitrary: it it' rule: parse.induct)
  case (2 g n rs)
  then show ?case by (simp, intro seq_may_empty [of rs g n ctx it it']) blast+
next
  case (3 g n rs)
  then show ?case by (simp, intro alt_may_empty [of rs g n ctx it it']) blast+
next
  case (4 g n r)
  from "4.prems"(1) obtain i1 where 1: "recog g n r ctx it = Some (Some i1)"
    and 2: "loop_recog (length i1) (recog g n r) ctx i1 = Some it'"
    by (auto simp: plus_recog_def star_recog_def split: option.splits)
  from loop_recog_shorter [OF 2] "4.prems"(2) have "length it \<le> length i1" by linarith
  with "4.IH" [OF 1] show ?case by simp
next
  case (7 g n lit)
  then have "string_loop (ignore_case ctx) lit (skip_ws ctx it) = (True, it')"
    by (auto simp: string_recog_def split: prod.splits if_splits)
  from string_loop_empty [OF this] "7.prems"(2) skip_ws_length [of ctx it]
  have "length lit = 0" by linarith
  then show ?case by simp
next
  case (8 g n c)
  then show ?case using skip_ws_length [of ctx it]
    by (auto simp: char_recog_def split: list.splits if_splits)
next
  case (9 g n a b)
  then show ?case using skip_ws_length [of ctx it]
    by (auto simp: char_recog_def split: list.splits if_splits)
next
  case (10 g n pat items)
  then have "re_match items (skip_ws ctx it) = Some it'"
    by (auto simp: regex_recog_def Let_def split: if_splits)
  moreover have "length (skip_ws ctx it) \<le> length it'"
    using skip_ws_length [of ctx it] "10.prems"(2) by linarith
  ultimately show ?case by (simp add: re_match_empty)
qed auto

subsection \<open>Enough fuel\<close>

lemma loop_total:
  assumes "\<And>i. length i \<le> length it \<Longrightarrow> recog g n r ctx i \<noteq> None"
  shows "length it \<le> k \<Longrightarrow> loop_recog k (recog g n r) ctx it \<noteq> None"
  using assms
proof (induction k arbitrary: it)
  case (Suc k)
  obtain res where res: "recog g n r ctx it = Some res" using Suc.prems(2) [of it] by auto
  have next_ok: "loop_recog k (recog g n r) ctx i1 \<noteq> None"
    if "res = Some i1" "i1 \<noteq> it" for i1
  proof -
    from that res have "length i1 < length it"
      by (auto intro: suffix_neq_shorter recog_suffix)
    with Suc.prems show ?thesis by (intro Suc.IH) auto
  qed
  with res show ?case by (auto split: option.splits)
qed simp

lemma seq_total:
  assumes "\<And>r i. r \<in> set rs \<Longrightarrow> length i \<le> length it \<Longrightarrow> recog g n r ctx i \<noteq> None"
  shows "seq_recog (map (recog g n) rs) ctx it \<noteq> None"
  using assms
proof (induction rs arbitrary: it)
  case (Cons r rs)
  obtain res where res: "recog g n r ctx it = Some res" using Cons.prems [of r it] by auto
  have "seq_recog (map (recog g n) rs) ctx i1 \<noteq> None" if "res = Some i1" for i1
    using that res recog_shorter [of g n r ctx it i1]
    by (intro Cons.IH Cons.prems) auto
  with res show ?case by (auto split: option.splits)
qed simp

lemma guarded_seq_total:
  assumes "\<And>r i. r \<in> set rs \<Longrightarrow> guarded r \<Longrightarrow> length i \<le> L \<Longrightarrow> recog g n r ctx i \<noteq> None"
    and "\<And>r i. r \<in> set rs \<Longrightarrow> length i < L \<Longrightarrow> recog g n r ctx i \<noteq> None"
  shows "guarded_seq rs \<Longrightarrow> length it \<le> L \<Longrightarrow> seq_recog (map (recog g n) rs) ctx it \<noteq> None"
  using assms
proof (induction rs arbitrary: it)
  case (Cons r rs)
  obtain res where res: "recog g n r ctx it = Some res"
    using Cons.prems(1,2) Cons.prems(3) [of r it] by auto
  have "seq_recog (map (recog g n) rs) ctx i1 \<noteq> None" if i1: "res = Some i1" for i1
  proof (cases "length i1 < L")
    case True
    with Cons.prems(4) show ?thesis by (intro seq_total) auto
  next
    case False
    with res i1 Cons.prems(2) recog_shorter [of g n r ctx it i1]
    have "length it \<le> length i1" "length i1 \<le> L" by auto
    moreover have "may_empty r"
      using res i1 \<open>length it \<le> length i1\<close> by (intro recog_may_empty [of g n r ctx it i1]) auto
    ultimately show ?thesis using Cons.prems by (intro Cons.IH) auto
  qed
  with res show ?case by (auto split: option.splits)
qed simp

lemma alt_total:
  "(\<And>r. r \<in> set rs \<Longrightarrow> recog g n r ctx it \<noteq> None) \<Longrightarrow>
     alt_recog (map (recog g n) rs) ctx it \<noteq> None"
  by (induction rs) (auto split: option.splits)

lemma plus_total:
  assumes "\<And>i. length i \<le> length it \<Longrightarrow> recog g n r ctx i \<noteq> None"
  shows "plus_recog (recog g n r) ctx it \<noteq> None"
proof -
  obtain res where res: "recog g n r ctx it = Some res" using assms [of it] by auto
  have "loop_recog (length i1) (recog g n r) ctx i1 \<noteq> None" if "res = Some i1" for i1
    using that res recog_shorter [of g n r ctx it i1]
    by (intro loop_total assms) auto
  with res show ?thesis by (auto simp: plus_recog_def star_recog_def split: option.splits)
qed

text \<open>With every reference returning on inputs up to a length, every rule does.\<close>

lemma complete_total:
  assumes refs: "\<And>d i. d \<in> D \<Longrightarrow> length i \<le> L \<Longrightarrow> recog g n (RuleRef d) ctx i \<noteq> None"
  shows "complete D r \<Longrightarrow> length it \<le> L \<Longrightarrow> recog g n r ctx it \<noteq> None"
proof (induction r arbitrary: it)
  case (NotR rs)
  have "seq_recog (map (recog g n) rs) ctx (skip_ws ctx it) \<noteq> None"
    using NotR skip_ws_length [of ctx it] by (intro seq_total) (auto simp: list_all_iff)
  then show ?case by (auto simp: not_recog_def split: option.splits)
next
  case (AndR rs)
  have "seq_recog (map (recog g n) rs) ctx it \<noteq> None"
    using AndR by (intro seq_total) (auto simp: list_all_iff)
  then show ?case by simp
next
  case (OrR rs)
  have "alt_recog (map (recog g n) rs) ctx it \<noteq> None"
    using OrR by (intro alt_total) (auto simp: list_all_iff)
  then show ?case by simp
next
  case (OneOrMore r)
  have "plus_recog (recog g n r) ctx it \<noteq> None"
    using OneOrMore by (intro plus_total) auto
  then show ?case by simp
next
  case (ZeroOrMore r)
  have "loop_recog (length it) (recog g n r) ctx it \<noteq> None"
    using ZeroOrMore by (intro loop_total) auto
  then show ?case by (simp add: star_recog_def)
next
  case (ZeroOrOne r)
  then have "recog g n r ctx it \<noteq> None" by simp
  then show ?case by (auto simp: opt_recog_def split: option.splits)
qed (use refs in auto)

lemma guarded_total:
  assumes all: "\<And>r i. complete D r \<Longrightarrow> length i < L \<Longrightarrow> recog g n r ctx i \<noteq> None"
  shows "complete D r \<Longrightarrow> guarded r \<Longrightarrow> length it \<le> L \<Longrightarrow> recog g n r ctx it \<noteq> None"
proof (induction r arbitrary: it)
  case (NotR rs)
  have "seq_recog (map (recog g n) rs) ctx (skip_ws ctx it) \<noteq> None"
  proof (rule guarded_seq_total [where L = L])
    fix r and i :: iter assume "r \<in> set rs" "length i < L"
    then show "recog g n r ctx i \<noteq> None" using NotR.prems(1) by (intro all) (auto simp: list_all_iff)
  qed (use NotR skip_ws_length [of ctx it] in \<open>auto simp: list_all_iff\<close>)
  then show ?case by (auto simp: not_recog_def split: option.splits)
next
  case (AndR rs)
  have "seq_recog (map (recog g n) rs) ctx it \<noteq> None"
  proof (rule guarded_seq_total [where L = L])
    fix r and i :: iter assume "r \<in> set rs" "length i < L"
    then show "recog g n r ctx i \<noteq> None" using AndR.prems(1) by (intro all) (auto simp: list_all_iff)
  qed (use AndR in \<open>auto simp: list_all_iff\<close>)
  then show ?case by simp
next
  case (OrR rs)
  have "alt_recog (map (recog g n) rs) ctx it \<noteq> None"
    using OrR by (intro alt_total) (auto simp: list_all_iff)
  then show ?case by simp
next
  case (OneOrMore r)
  have "plus_recog (recog g n r) ctx it \<noteq> None"
    using OneOrMore by (intro plus_total) auto
  then show ?case by simp
next
  case (ZeroOrMore r)
  have "loop_recog (length it) (recog g n r) ctx it \<noteq> None"
    using ZeroOrMore by (intro loop_total) auto
  then show ?case by (simp add: star_recog_def)
next
  case (ZeroOrOne r)
  then have "recog g n r ctx it \<noteq> None" by simp
  then show ?case by (auto simp: opt_recog_def split: option.splits)
qed auto

lemma recog_enough_fuel:
  assumes wf: "well_founded_grammar g"
  shows "(\<forall>r it. complete (dom g) r \<longrightarrow> guarded r \<longrightarrow> length it \<le> n \<longrightarrow>
            recog g n r ctx it \<noteq> None) \<and>
         (\<forall>r it. complete (dom g) r \<longrightarrow> length it < n \<longrightarrow> recog g n r ctx it \<noteq> None)"
proof (induction n)
  case 0
  have "recog g 0 r ctx it \<noteq> None" if "complete (dom g) r" "guarded r" "length it \<le> 0" for r it
    using that guarded_total [of "dom g" 0 g 0 ctx r it] by simp
  then show ?case by simp
next
  case (Suc n)
  have refs: "recog g (Suc n) (RuleRef d) ctx i \<noteq> None" if d: "d \<in> dom g" and "length i \<le> n" for d i
  proof -
    from d obtain r where r: "g d = Some r" by auto
    with wf have "guarded r" "complete (dom g) r" by (auto simp: well_founded_grammar_def)
    with Suc that(2) r show ?thesis by simp
  qed
  have all: "recog g (Suc n) r ctx i \<noteq> None" if "complete (dom g) r" "length i < Suc n" for r i
    using complete_total [of "dom g" n g "Suc n" ctx, OF refs] that by simp
  have "recog g (Suc n) r ctx it \<noteq> None"
    if "complete (dom g) r" "guarded r" "length it \<le> Suc n" for r it
    using guarded_total [of "dom g" "Suc n" g "Suc n" ctx, OF all] that by simp
  with all show ?case by blast
qed

lemma parse_returns:
  assumes "well_founded_grammar g" and "complete (dom g) r"
    and "length it < n \<or> guarded r \<and> length it \<le> n"
  shows "parse g n r ctx it \<noteq> None"
proof -
  have "recog g n r ctx it \<noteq> None"
    using recog_enough_fuel [OF assms(1), of n ctx] assms(2,3) by blast
  then show ?thesis by (simp add: parse_recog)
qed

subsection \<open>Left recursion\<close>

text \<open>The reference a rule tries before anything else, at every position.\<close>

fun first_call :: "rule \<Rightarrow> string option" where
  "first_call (NotR (r # _)) = first_call r"
| "first_call (AndR (r # _)) = first_call r"
| "first_call (OrR (r # _)) = first_call r"
| "first_call (OneOrMore r) = first_call r"
| "first_call (ZeroOrOne r) = first_call r"
| "first_call (RuleD d impl) = first_call impl"
| "first_call (RuleRef d) = Some d"
| "first_call r = None"

lemma first_call_stuck:
  assumes "\<And>it. recog g n (RuleRef d) ctx it = None"
  shows "first_call r = Some d \<Longrightarrow> recog g n r ctx it = None"
  using assms
  by (induction r arbitrary: it rule: first_call.induct)
    (auto simp: not_recog_def plus_recog_def opt_recog_def)

lemma left_recursion_stuck:
  assumes "g d = Some r" and "first_call r = Some d"
  shows "recog g n (RuleRef d) ctx it = None"
  by (induction n arbitrary: it) (use assms in \<open>auto intro: first_call_stuck\<close>)

end
