(* ===== verification/Parser.thy ===== *)
theory Parser
  imports Parse_Tree Parse_Termination
begin

text \<open>
  Facts about whole results of \<open>parse\<close>, tree and errors included, and about the entry point
  \<open>parser::parse\<close>: fuel only decides whether there is a result, every failure leaves an error
  behind, and the parser accepts exactly the inputs a rule matches to the end.
\<close>

subsection \<open>Fuel and whole results\<close>

definition extends_to :: "matcher \<Rightarrow> matcher \<Rightarrow> bool" where
  "extends_to m m' \<longleftrightarrow> (\<forall>ctx it res. m ctx it = Some res \<longrightarrow> m' ctx it = Some res)"

lemma extends_toI: "(\<And>ctx it res. m ctx it = Some res \<Longrightarrow> m' ctx it = Some res) \<Longrightarrow> extends_to m m'"
  unfolding extends_to_def by blast

lemma extends_toD: "extends_to m m' \<Longrightarrow> m ctx it = Some res \<Longrightarrow> m' ctx it = Some res"
  unfolding extends_to_def by blast

lemma try_seq_extends:
  "list_all2 extends_to ms ms' \<Longrightarrow> try_seq ms ctx it = Some res \<Longrightarrow> try_seq ms' ctx it = Some res"
  by (induction ms ms' arbitrary: ctx it rule: list_all2_induct)
    (auto split: option.splits dest: extends_toD)

lemma try_all_extends:
  "list_all2 extends_to ms ms' \<Longrightarrow> try_all r ms ctx it kids = Some res \<Longrightarrow>
     try_all r ms' ctx it kids = Some res"
  by (induction ms ms' arbitrary: ctx it kids rule: list_all2_induct)
    (auto split: option.splits dest: extends_toD)

lemma try_any_extends:
  "list_all2 extends_to ms ms' \<Longrightarrow> try_any r ms ctx it b = Some res \<Longrightarrow>
     try_any r ms' ctx it b = Some res"
proof (induction ms ms' arbitrary: ctx it rule: list_all2_induct)
  case (Cons m ms m' ms')
  from Cons.prems obtain o1 c1 i1 where 1: "m ctx it = Some (o1, c1, i1)"
    by (auto split: option.splits)
  have "(ms' = []) = (ms = [])" using Cons.hyps(2) by (auto dest: list_all2_lengthD)
  with Cons.prems Cons.IH 1 extends_toD [OF Cons.hyps(1) 1] show ?case
    by (auto split: option.splits)
qed simp

lemma repeat_loop_extends:
  "extends_to m m' \<Longrightarrow> repeat_loop k m ctx it kids = Some res \<Longrightarrow>
     repeat_loop k m' ctx it kids = Some res"
proof (induction k arbitrary: ctx it kids)
  case (Suc k)
  show ?case
  proof (cases "it = []")
    case False
    with Suc.prems obtain o1 c1 i1 where 1: "m ctx it = Some (o1, c1, i1)"
      by (auto split: option.splits)
    with Suc False extends_toD [OF Suc.prems(1) 1] show ?thesis
      by (auto split: option.splits if_splits)
  qed (use Suc.prems in simp)
qed simp

lemma unary_extends:
  assumes "extends_to m m'"
  shows "extends_to (one_or_more_parse r m) (one_or_more_parse r m')"
    and "extends_to (zero_or_more_parse r m) (zero_or_more_parse r m')"
    and "extends_to (zero_or_one_parse r m) (zero_or_one_parse r m')"
    and "extends_to (rule_parse r m) (rule_parse r m')"
  by (rule extends_toI;
      auto simp: one_or_more_parse_def zero_or_more_parse_def zero_or_one_parse_def
        rule_parse_def simp del: repeat_loop.simps split: option.split_asm
        dest!: extends_toD [OF assms] repeat_loop_extends [OF assms])+

lemma combinators_extend:
  assumes "list_all2 extends_to ms ms'"
  shows "extends_to (not_parse r ms) (not_parse r ms')"
    and "extends_to (and_parse r ms) (and_parse r ms')"
    and "extends_to (or_parse r ms) (or_parse r ms')"
proof -
  have "(ms' = []) = (ms = [])" using assms by (auto dest: list_all2_lengthD)
  then show "extends_to (not_parse r ms) (not_parse r ms')"
    by (intro extends_toI)
      (auto simp: not_parse_def split: option.split_asm bool.split_asm if_split_asm
        dest!: try_seq_extends [OF assms])
qed (rule extends_toI; auto simp: and_parse_def or_parse_def split: option.split_asm
    dest!: try_all_extends [OF assms] try_any_extends [OF assms])+

lemma parse_extends: "extends_to (parse g n r) (parse g (Suc n) r)"
proof (induction g n r rule: parse.induct)
  case (14 g n d)
  then show ?case by (cases "g d") (auto simp: extends_to_def)
qed (auto simp: list_all2_map1 list_all2_map2 extends_to_def [of "\<lambda>_ _. None"]
    extends_to_def [of m m for m]
    intro!: unary_extends combinators_extend list.rel_refl_strong)

lemma parse_fuel: "parse g n r ctx it = Some res \<Longrightarrow> n \<le> m \<Longrightarrow> parse g m r ctx it = Some res"
proof (induction m)
  case (Suc m)
  then show ?case
    by (cases "n = Suc m") (auto intro: extends_toD [OF parse_extends])
qed simp

text \<open>A rule without references returns on every input, whatever the fuel.\<close>

lemma parse_total: "complete {} r \<Longrightarrow> parse g n r ctx it \<noteq> None"
  using complete_total [of "{}" "length it" g n ctx r it] by (simp add: parse_recog)

subsection \<open>A failure always leaves an error\<close>

text \<open>\<open>or_<>\<close> with no alternative fails silently; no grammar of the library has one.\<close>

fun has_alternatives :: "rule \<Rightarrow> bool" where
  "has_alternatives (NotR rs) = list_all has_alternatives rs"
| "has_alternatives (AndR rs) = list_all has_alternatives rs"
| "has_alternatives (OrR rs) = (rs \<noteq> [] \<and> list_all has_alternatives rs)"
| "has_alternatives (OneOrMore r) = has_alternatives r"
| "has_alternatives (ZeroOrMore r) = has_alternatives r"
| "has_alternatives (ZeroOrOne r) = has_alternatives r"
| "has_alternatives (RuleD d impl) = has_alternatives impl"
| "has_alternatives r = True"

definition explains :: "matcher \<Rightarrow> bool" where
  "explains m \<longleftrightarrow> (\<forall>ctx it ctx' it'. m ctx it = Some (None, ctx', it') \<longrightarrow>
     length (parse_errors ctx) < length (parse_errors ctx'))"

lemma adds_errors_length:
  "adds_errors ctx ctx' \<Longrightarrow> length (parse_errors ctx) \<le> length (parse_errors ctx')"
  by (auto simp: adds_errors_def)

lemma report_length [simp]:
  "length (parse_errors (report r p e f ctx)) = Suc (length (parse_errors ctx))"
  by (simp add: report_def)

lemma try_any_explains:
  "\<forall>m \<in> set ms. lawful m \<Longrightarrow> ms \<noteq> [] \<Longrightarrow> try_any r ms ctx it it = Some (None, ctx', it') \<Longrightarrow>
     length (parse_errors ctx) < length (parse_errors ctx')"
proof (induction ms arbitrary: ctx)
  case (Cons m ms)
  from Cons.prems(3) obtain c1 i1 where 1: "m ctx it = Some (None, c1, i1)"
    by (auto split: option.splits)
  have l: "length (parse_errors ctx) \<le> length (parse_errors c1)"
    using Cons.prems(1) 1 by (auto intro: adds_errors_length lawful.only_adds)
  show ?case
  proof (cases "ms = []")
    case True
    with Cons.prems(3) 1 l show ?thesis by auto
  next
    case False
    with Cons.prems 1 Cons.IH [of c1] l show ?thesis by auto
  qed
qed simp

lemma or_explains:
  assumes "\<forall>m \<in> set ms. lawful m" and "ms \<noteq> []"
  shows "explains (or_parse r ms)"
  by (auto simp: explains_def or_parse_def split: option.splits
      dest: try_any_explains [OF assms])

lemma try_all_explains:
  "\<forall>m \<in> set ms. lawful m \<Longrightarrow> try_all r ms ctx it kids = Some (None, ctx', it') \<Longrightarrow>
     length (parse_errors ctx) < length (parse_errors ctx')"
proof (induction ms arbitrary: ctx it kids)
  case (Cons m ms)
  from Cons.prems(2) obtain o1 c1 i1 where 1: "m ctx it = Some (o1, c1, i1)"
    by (auto split: option.splits)
  have "adds_errors ctx c1" using Cons.prems(1) 1 by (auto intro: lawful.only_adds)
  then have "length (parse_errors ctx) \<le> length (parse_errors c1)" by (rule adds_errors_length)
  with Cons.prems 1 Cons.IH [of c1 i1] show ?case by (cases o1) fastforce+
qed simp

lemma list_explains:
  assumes "\<forall>m \<in> set ms. lawful m"
  shows "explains (and_parse r ms)" and "explains (not_parse r ms)"
  by (auto simp: explains_def and_parse_def not_parse_def split: option.splits if_splits bool.splits
      dest: try_all_explains [OF assms] dest!: try_seq_adds [OF assms] adds_errors_length)

lemma unary_explains:
  assumes "lawful m"
  shows "explains (one_or_more_parse r m)" and "explains (zero_or_more_parse r m)"
    and "explains (zero_or_one_parse r m)" and "explains m \<Longrightarrow> explains (rule_parse r m)"
  by (auto simp: explains_def one_or_more_parse_def zero_or_more_parse_def zero_or_one_parse_def
      rule_parse_def simp del: repeat_loop.simps split: option.splits
      dest!: lawful.only_adds [OF assms] adds_errors_length)

lemma terminals_explain:
  "explains (string_parse r lit)" "explains (character_parse r c)"
  "explains (characters_parse r a b)" "explains (regex_parse r pat items)"
  "explains (rule_empty_parse r)"
  by (auto simp: explains_def string_parse_def character_parse_def characters_parse_def
      regex_parse_def rule_empty_parse_def Let_def split: prod.splits if_splits list.splits
      option.splits)

lemma parse_explains:
  assumes "\<forall>d r. g d = Some r \<longrightarrow> has_alternatives r"
  shows "has_alternatives r \<Longrightarrow> explains (parse g n r)"
  using assms
proof (induction g n r rule: parse.induct)
  case (13 g d)
  show ?case by (simp add: explains_def)
next
  case (14 g n d)
  then show ?case by (cases "g d") (auto simp: explains_def)
qed (auto intro!: or_explains list_explains unary_explains terminals_explain parse_lawful)

end
