(* ===== verification/Ignore_Case.thy ===== *)
theory Ignore_Case
  imports Parser
begin

text \<open>
  What \<open>ignore_case\<close> promises: the letter case of the input has no influence on what is
  matched. It holds for every rule without a regular expression (\<open>regex::parse\<close> does not look
  at the flag) as long as no letter counts as whitespace.
\<close>

definition same_letters :: "iter \<Rightarrow> iter \<Rightarrow> bool" where
  "same_letters a b \<longleftrightarrow> map to_lower_ch a = map to_lower_ch b"

fun no_regex :: "rule \<Rightarrow> bool" where
  "no_regex (NotR rs) = list_all no_regex rs"
| "no_regex (AndR rs) = list_all no_regex rs"
| "no_regex (OrR rs) = list_all no_regex rs"
| "no_regex (OneOrMore r) = no_regex r"
| "no_regex (ZeroOrMore r) = no_regex r"
| "no_regex (ZeroOrOne r) = no_regex r"
| "no_regex (RuleD d impl) = no_regex impl"
| "no_regex (RegexR pat items) = False"
| "no_regex r = True"

definition case_blind :: "parse_context \<Rightarrow> bool" where
  "case_blind ctx \<longleftrightarrow> ignore_case ctx \<and> list_all (\<lambda>c. swap_case_ch c = c) (whitespace_chars ctx)"

subsection \<open>The two case conversions\<close>

lemma char_val_char_of: "0 \<le> n \<Longrightarrow> n < 128 \<Longrightarrow> char_val (char_of (n :: int)) = n"
  by (simp add: char_val_def)

lemma char_val_letters [simp]:
  "char_val (CHR ''A'') = 65" "char_val (CHR ''Z'') = 90"
  "char_val (CHR ''a'') = 97" "char_val (CHR ''z'') = 122"
  by (simp_all add: char_val_def)

lemma char_val_to_lower:
  "char_val (to_lower_ch c) =
     (if 65 \<le> char_val c \<and> char_val c \<le> 90 then char_val c + 32 else char_val c)"
  by (simp add: to_lower_ch_def char_val_char_of)

lemma char_val_swap_case:
  "char_val (swap_case_ch c) =
     (if 65 \<le> char_val c \<and> char_val c \<le> 90 then char_val c + 32
      else if 97 \<le> char_val c \<and> char_val c \<le> 122 then char_val c - 32 else char_val c)"
  by (simp add: swap_case_ch_def char_val_char_of)

lemma swap_case_twice [simp]: "swap_case_ch (swap_case_ch c) = c"
  by (subst char_val_inject [symmetric]) (simp add: char_val_swap_case)

lemma to_lower_eq_cases: "to_lower_ch c = to_lower_ch d \<Longrightarrow> d = c \<or> d = swap_case_ch c"
  unfolding char_val_inject [symmetric] char_val_to_lower char_val_swap_case
  by (simp split: if_splits)

lemma range_test_blind:
  "to_lower_ch c = to_lower_ch d \<Longrightarrow> range_test a b True c = range_test a b True d"
  by (auto simp: range_test_def dest!: to_lower_eq_cases)

lemma char_match_blind:
  "to_lower_ch c = to_lower_ch d \<Longrightarrow> char_match c l True = char_match d l True"
  by (simp add: char_match_def)

lemma whitespace_blind:
  assumes "case_blind ctx" and "to_lower_ch c = to_lower_ch d"
  shows "is_whitespace ctx c = is_whitespace ctx d"
proof -
  have ws: "swap_case_ch x = x" if "x \<in> set (whitespace_chars ctx)" for x
    using assms(1) that by (auto simp: case_blind_def list_all_iff)
  from to_lower_eq_cases [OF assms(2)] show ?thesis
    using ws [of c] ws [of d] by (auto simp: is_whitespace_def)
qed

subsection \<open>Inputs that differ in letter case only\<close>

lemma same_letters_simps [simp]:
  "same_letters [] b \<longleftrightarrow> b = []" "same_letters a [] \<longleftrightarrow> a = []"
  "same_letters (c # cs) (d # ds) \<longleftrightarrow> to_lower_ch c = to_lower_ch d \<and> same_letters cs ds"
  by (auto simp: same_letters_def)

lemma same_letters_refl [simp]: "same_letters a a"
  by (simp add: same_letters_def)

lemma same_letters_length: "same_letters a b \<Longrightarrow> length a = length b"
  unfolding same_letters_def by (drule arg_cong [where f = length]) simp

lemma same_letters_Cons: "same_letters (c # cs) b \<longleftrightarrow>
    (\<exists>d ds. b = d # ds \<and> to_lower_ch c = to_lower_ch d \<and> same_letters cs ds)"
  by (cases b) auto

lemma skip_ws_blind:
  assumes ctx: "case_blind ctx"
  shows "same_letters a b \<Longrightarrow> same_letters (skip_ws ctx a) (skip_ws ctx b)"
proof (induction a arbitrary: b)
  case (Cons c cs)
  then obtain d ds where b: "b = d # ds" "to_lower_ch c = to_lower_ch d" "same_letters cs ds"
    by (auto simp: same_letters_Cons)
  with Cons.IH whitespace_blind [OF ctx b(2)] show ?case by simp
qed simp

lemma string_loop_blind:
  "same_letters a b \<Longrightarrow> string_loop True lit a = (ok, a') \<Longrightarrow>
     \<exists>b'. string_loop True lit b = (ok, b') \<and> same_letters a' b'"
proof (induction lit arbitrary: a b)
  case (Cons l ls)
  show ?case
  proof (cases a)
    case (Cons c cs)
    with Cons.prems(1) obtain d ds
      where b: "b = d # ds" "to_lower_ch c = to_lower_ch d" "same_letters cs ds"
      by (auto simp: same_letters_Cons)
    with Cons.IH [of cs ds] Cons.prems(2) Cons char_match_blind [OF b(2), of l] show ?thesis
      by (auto split: if_splits)
  qed (use Cons.prems in auto)
qed auto

subsection \<open>Recognizers that do not see letter case\<close>

definition blind :: "parse_context \<Rightarrow> recognizer \<Rightarrow> bool" where
  "blind ctx q \<longleftrightarrow> (\<forall>a b. same_letters a b \<longrightarrow>
     rel_option (rel_option same_letters) (q ctx a) (q ctx b))"

lemma blindI:
  "(\<And>a b. same_letters a b \<Longrightarrow> rel_option (rel_option same_letters) (q ctx a) (q ctx b)) \<Longrightarrow>
     blind ctx q"
  by (simp add: blind_def)

lemma blindD:
  "blind ctx q \<Longrightarrow> same_letters a b \<Longrightarrow> rel_option (rel_option same_letters) (q ctx a) (q ctx b)"
  by (simp add: blind_def)

text \<open>The possible outcomes on two such inputs.\<close>

lemma blind_cases:
  assumes "blind ctx q" and "same_letters a b"
  obtains "q ctx a = None" "q ctx b = None"
    | "q ctx a = Some None" "q ctx b = Some None"
    | a' b' where "q ctx a = Some (Some a')" "q ctx b = Some (Some b')" "same_letters a' b'"
  using blindD [OF assms] by (auto simp: option_rel_Some1 elim!: option.rel_cases)

lemma seq_blind:
  "list_all (blind ctx) qs \<Longrightarrow> same_letters a b \<Longrightarrow>
     rel_option (rel_option same_letters) (seq_recog qs ctx a) (seq_recog qs ctx b)"
proof (induction qs arbitrary: a b)
  case (Cons q qs)
  then have q: "blind ctx q" by simp
  from blind_cases [OF q Cons.prems(2)] Cons show ?case by cases auto
qed simp

lemma alt_blind:
  "list_all (blind ctx) qs \<Longrightarrow> same_letters a b \<Longrightarrow>
     rel_option (rel_option same_letters) (alt_recog qs ctx a) (alt_recog qs ctx b)"
proof (induction qs)
  case (Cons q qs)
  then have q: "blind ctx q" by simp
  from blind_cases [OF q Cons.prems(2)] Cons show ?case by cases auto
qed simp

lemma loop_blind:
  assumes q: "blind ctx (recog g n r)"
  shows "same_letters a b \<Longrightarrow>
     rel_option same_letters (loop_recog k (recog g n r) ctx a) (loop_recog k (recog g n r) ctx b)"
proof (induction k arbitrary: a b)
  case (Suc k)
  show ?case
  proof (cases "a = []")
    case False
    with Suc.prems have b: "b \<noteq> []" by (cases b) auto
    from blind_cases [OF q Suc.prems] show ?thesis
    proof cases
      case (3 a' b')
      have "(a' = a) = (length a' = length a)" "(b' = b) = (length b' = length b)"
        using recog_suffix [OF 3(1)] recog_suffix [OF 3(2)] by (auto dest: suffix_length_eq)
      then have "(a' = a) = (b' = b)"
        using same_letters_length [OF 3(3)] same_letters_length [OF Suc.prems] by simp
      with 3 False b Suc.IH [OF 3(3)] Suc.prems show ?thesis by auto
    qed (use False b Suc.prems in auto)
  qed (use Suc.prems in simp)
qed (auto dest: same_letters_length)

lemma star_blind:
  assumes "blind ctx (recog g n r)"
  shows "blind ctx (star_recog (recog g n r))"
proof (rule blindI)
  fix a b :: iter assume "same_letters a b"
  from loop_blind [OF assms this, of "length a"] same_letters_length [OF this]
  show "rel_option (rel_option same_letters) (star_recog (recog g n r) ctx a)
      (star_recog (recog g n r) ctx b)"
    by (auto simp: star_recog_def option.rel_map elim: option.rel_mono_strong)
qed

lemma plus_blind:
  assumes q: "blind ctx (recog g n r)"
  shows "blind ctx (plus_recog (recog g n r))"
proof (rule blindI)
  fix a b :: iter assume ab: "same_letters a b"
  from blind_cases [OF q ab] blindD [OF star_blind [OF q]]
  show "rel_option (rel_option same_letters) (plus_recog (recog g n r) ctx a)
      (plus_recog (recog g n r) ctx b)"
    by cases (auto simp: plus_recog_def)
qed

lemma opt_blind:
  assumes q: "blind ctx q"
  shows "blind ctx (opt_recog q)"
proof (rule blindI)
  fix a b :: iter assume ab: "same_letters a b"
  from blind_cases [OF q ab] ab
  show "rel_option (rel_option same_letters) (opt_recog q ctx a) (opt_recog q ctx b)"
    by cases (auto simp: opt_recog_def)
qed

lemma not_blind:
  assumes ctx: "case_blind ctx" and qs: "list_all (blind ctx) qs"
  shows "blind ctx (not_recog qs)"
proof (rule blindI)
  fix a b :: iter assume ab: "same_letters a b"
  from seq_blind [OF qs skip_ws_blind [OF ctx ab]] ab
  show "rel_option (rel_option same_letters) (not_recog qs ctx a) (not_recog qs ctx b)"
    by (auto simp: not_recog_def split: option.splits)
qed

lemma char_recog_blind:
  assumes ctx: "case_blind ctx"
    and p: "\<And>c d. to_lower_ch c = to_lower_ch d \<Longrightarrow> p True c = p True d"
  shows "blind ctx (\<lambda>ctx it. Some (char_recog p ctx it))"
proof (rule blindI)
  fix a b :: iter assume "same_letters a b"
  from skip_ws_blind [OF ctx this] ctx
  show "rel_option (rel_option same_letters) (Some (char_recog p ctx a)) (Some (char_recog p ctx b))"
    by (auto simp: char_recog_def case_blind_def same_letters_Cons dest: p split: list.splits)
qed

lemma string_recog_blind:
  assumes ctx: "case_blind ctx"
  shows "blind ctx (\<lambda>ctx it. Some (string_recog lit ctx it))"
proof (rule blindI)
  fix a b :: iter assume ab: "same_letters a b"
  obtain ok a' where a': "string_loop True lit (skip_ws ctx a) = (ok, a')" by force
  from string_loop_blind [OF skip_ws_blind [OF ctx ab] a'] a' ctx
  show "rel_option (rel_option same_letters) (Some (string_recog lit ctx a))
      (Some (string_recog lit ctx b))"
    by (auto simp: string_recog_def case_blind_def)
qed

lemma recog_blind:
  assumes ctx: "case_blind ctx" and g: "\<forall>d r. g d = Some r \<longrightarrow> no_regex r"
  shows "no_regex r \<Longrightarrow> blind ctx (recog g n r)"
  using g
proof (induction g n r rule: parse.induct)
  case (14 g n d)
  then show ?case by (cases "g d") (auto simp: blind_def)
next
  case (1 g n rs)
  then show ?case by (auto intro!: not_blind ctx simp: list_all_iff)
next
  case (2 g n rs)
  then have "list_all (blind ctx) (map (recog g n) rs)" by (auto simp: list_all_iff)
  then show ?case by (auto intro!: blindI seq_blind)
next
  case (3 g n rs)
  then have "list_all (blind ctx) (map (recog g n) rs)" by (auto simp: list_all_iff)
  then show ?case by (auto intro!: blindI alt_blind)
next
  case (8 g n c)
  show ?case by (simp, rule char_recog_blind [OF ctx]) (rule char_match_blind)
next
  case (9 g n a b)
  show ?case by (simp, rule char_recog_blind [OF ctx]) (rule range_test_blind)
qed (auto intro!: plus_blind star_blind opt_blind string_recog_blind ctx
    simp: blind_def [of _ "\<lambda>_ _. None"]
    blind_def [of _ "\<lambda>_ x. Some (Some x)"])

end
