(* ===== verification/Plain_Match.thy ===== *)
theory Plain_Match
  imports Parser
begin

text \<open>
  The reading of a rule in the plain context, the one the network grammars are used in: no
  whitespace is skipped and letter case matters (\<open>xtd::parser<Rule, false, whitespace<>>\<close>). For a
  rule without references it is a total function from the input to what is left of it. The
  languages of single grammar rules are proved over this function.
\<close>

type_synonym reader = "iter \<Rightarrow> iter option"

fun seq_fn :: "reader list \<Rightarrow> reader" where
  "seq_fn [] it = Some it"
| "seq_fn (f # fs) it = (case f it of None \<Rightarrow> None | Some it' \<Rightarrow> seq_fn fs it')"

fun alt_fn :: "reader list \<Rightarrow> reader" where
  "alt_fn [] it = None"
| "alt_fn (f # fs) it = (case f it of None \<Rightarrow> alt_fn fs it | Some it' \<Rightarrow> Some it')"

fun loop_fn :: "nat \<Rightarrow> reader \<Rightarrow> iter \<Rightarrow> iter" where
  "loop_fn 0 f it = it"
| "loop_fn (Suc k) f it =
     (if it = [] then it
      else (case f it of None \<Rightarrow> it | Some it' \<Rightarrow> (if it' = it then it else loop_fn k f it')))"

definition star_fn :: "reader \<Rightarrow> iter \<Rightarrow> iter" where
  "star_fn f it = loop_fn (length it) f it"

text \<open>One character of a class.\<close>

definition class_fn :: "(char \<Rightarrow> bool) \<Rightarrow> reader" where
  "class_fn p it = (case it of [] \<Rightarrow> None | c # cs \<Rightarrow> if p c then Some cs else None)"

definition literal_fn :: "string \<Rightarrow> reader" where
  "literal_fn lit it = (case string_loop False lit it of (ok, it') \<Rightarrow> if ok then Some it' else None)"

fun plain :: "rule \<Rightarrow> reader" where
  "plain (NotR rs) it =
     (if rs = [] then None
      else (case seq_fn (map plain rs) it of None \<Rightarrow> Some it | Some _ \<Rightarrow> None))"
| "plain (AndR rs) it = seq_fn (map plain rs) it"
| "plain (OrR rs) it = alt_fn (map plain rs) it"
| "plain (OneOrMore r) it = map_option (star_fn (plain r)) (plain r it)"
| "plain (ZeroOrMore r) it = Some (star_fn (plain r) it)"
| "plain (ZeroOrOne r) it = (case plain r it of None \<Rightarrow> Some it | Some it' \<Rightarrow> Some it')"
| "plain (StringR lit) it = literal_fn lit it"
| "plain (CharacterR c) it = class_fn (\<lambda>x. x = c) it"
| "plain (CharactersR a b) it = class_fn (in_range a b) it"
| "plain (RegexR pat items) it = (if it = [] then None else re_match items it)"
| "plain (RuleD d impl) it = plain impl it"
| "plain (RuleE d) it = Some it"
| "plain (RuleRef d) it = None"

definition plain_context :: "parse_context \<Rightarrow> bool" where
  "plain_context ctx \<longleftrightarrow>
     \<not> ignore_case ctx \<and> (\<not> ignore_whitespace ctx \<or> whitespace_chars ctx = [])"

lemma plain_new_context [simp]: "plain_context (new_context [] False)"
  by (simp add: plain_context_def new_context_def)

subsection \<open>It is what the recognizer does\<close>

lemma plain_skip [simp]: "plain_context ctx \<Longrightarrow> skip_ws ctx it = it"
  by (rule skip_ws_id) (auto simp: plain_context_def is_whitespace_def)

lemma seq_recog_plain:
  "\<forall>r \<in> set rs. \<forall>it. recog g n r ctx it = Some (plain r it) \<Longrightarrow>
     seq_recog (map (recog g n) rs) ctx it = Some (seq_fn (map plain rs) it)"
  by (induction rs arbitrary: it) (auto split: option.split)

lemma alt_recog_plain:
  "\<forall>r \<in> set rs. \<forall>it. recog g n r ctx it = Some (plain r it) \<Longrightarrow>
     alt_recog (map (recog g n) rs) ctx it = Some (alt_fn (map plain rs) it)"
  by (induction rs) (auto split: option.split)

lemma loop_recog_plain:
  assumes "\<And>it. recog g n r ctx it = Some (plain r it)"
  shows "length it \<le> k \<Longrightarrow> loop_recog k (recog g n r) ctx it = Some (loop_fn k (plain r) it)"
proof (induction k arbitrary: it)
  case (Suc k)
  show ?case
  proof (cases "plain r it")
    case (Some i)
    then have "suffix i it" using assms [of it] by (auto intro: recog_suffix [of g n r ctx])
    then have "i \<noteq> it \<Longrightarrow> length i \<le> k" using Suc.prems by (auto dest: suffix_neq_shorter)
    with Suc.IH Some assms [of it] show ?thesis by auto
  qed (use assms [of it] in auto)
qed simp

lemma star_recog_plain:
  "(\<And>it. recog g n r ctx it = Some (plain r it)) \<Longrightarrow>
     star_recog (recog g n r) ctx it = Some (Some (star_fn (plain r) it))"
  by (simp add: star_recog_def star_fn_def loop_recog_plain)

lemma recog_plain:
  assumes ctx: "plain_context ctx"
  shows "complete {} r \<Longrightarrow> recog g n r ctx it = Some (plain r it)"
proof (induction g n r arbitrary: it rule: parse.induct)
  case (1 g n rs)
  with ctx seq_recog_plain [of rs g n ctx] show ?case
    by (auto simp: not_recog_def list_all_iff split: option.split)
next
  case (2 g n rs)
  with seq_recog_plain [of rs g n ctx] show ?case by (auto simp: list_all_iff)
next
  case (3 g n rs)
  with alt_recog_plain [of rs g n ctx] show ?case by (auto simp: list_all_iff)
next
  case (4 g n r)
  then show ?case by (auto simp: plus_recog_def star_recog_plain split: option.split)
next
  case (5 g n r)
  then show ?case by (simp add: star_recog_plain)
next
  case (6 g n r)
  then show ?case by (simp add: opt_recog_def split: option.split)
qed (use ctx in \<open>auto simp: string_recog_def literal_fn_def char_recog_def class_fn_def
      char_match_def range_test_def regex_recog_def plain_context_def Let_def
      split: prod.split list.split\<close>)

lemma plain_suffix: "complete {} r \<Longrightarrow> plain r it = Some it' \<Longrightarrow> suffix it' it"
  using recog_plain [of "new_context [] False" r Map.empty 0 it]
  by (auto intro: recog_suffix)

subsection \<open>Acceptance by the parser\<close>

definition parser_accepts :: "grammar \<Rightarrow> rule \<Rightarrow> bool \<Rightarrow> string \<Rightarrow> string \<Rightarrow> bool" where
  "parser_accepts g r ic ws it \<longleftrightarrow>
     (\<exists>n out. parser_parse g n r ic ws it None [] = Some out \<and> accepted out)"

lemma accepts_recog:
  assumes "recog g n r (new_context ws ic) it = Some res"
  shows "parser_accepts g r ic ws it \<longleftrightarrow> res = Some []"
proof -
  have "(\<exists>out. parser_parse g m r ic ws it None [] = Some out \<and> accepted out) \<longleftrightarrow>
      recog g m r (new_context ws ic) it = Some (Some [])" for m
    by (auto simp: parser_parse_def parse_recog outcome_def split: option.splits prod.splits)
  then have "parser_accepts g r ic ws it \<longleftrightarrow>
      (\<exists>m. recog g m r (new_context ws ic) it = Some (Some []))"
    by (simp add: parser_accepts_def)
  also have "\<dots> \<longleftrightarrow> res = Some []"
    using recog_unique [OF assms] assms by blast
  finally show ?thesis .
qed

text \<open>Acceptance in the plain context.\<close>

lemma accepts_plain: "complete {} r \<Longrightarrow> parser_accepts g r False [] it \<longleftrightarrow> plain r it = Some []"
  by (rule accepts_recog [of g 0]) (simp add: recog_plain)

text \<open>Where the reading fails, \<open>parse\<close> returns the null pointer.\<close>

lemma plain_null:
  assumes "complete {} r" and "plain r it = None"
  shows "\<exists>ctx'. parse g n r (new_context [] False) it = Some (None, ctx', it)"
  using recog_plain [of "new_context [] False" r g n it] assms parse.fail_restores
  by (auto simp: parse_recog outcome_def split: option.splits prod.splits)

subsection \<open>Loops and character classes\<close>

lemma star_fn_Nil [simp]: "star_fn f [] = []"
  by (simp add: star_fn_def)

lemma loop_fn_more:
  assumes "\<And>i i'. f i = Some i' \<Longrightarrow> suffix i' i"
  shows "length it \<le> k \<Longrightarrow> loop_fn k f it = loop_fn (length it) f it"
proof (induction "length it" arbitrary: it k rule: less_induct)
  case less
  show ?case
  proof (cases it)
    case (Cons c cs)
    with less.prems obtain k' where k: "k = Suc k'" by (cases k) auto
    have "loop_fn k' f i = loop_fn (length cs) f i" if "f it = Some i" "i \<noteq> it" for i
    proof -
      have "length i < length it" using that assms by (auto intro: suffix_neq_shorter)
      with less.hyps [of i k'] less.hyps [of i "length cs"] less.prems Cons k show ?thesis by simp
    qed
    with Cons k show ?thesis by (auto split: option.split)
  qed (cases k; simp)
qed

lemma star_fn_unfold:
  assumes "\<And>i i'. f i = Some i' \<Longrightarrow> suffix i' i"
  shows "star_fn f it = (case f it of None \<Rightarrow> it | Some it' \<Rightarrow>
      (if it' = it then it else star_fn f it'))"
proof (cases it)
  case Nil
  have "i = []" if "f [] = Some i" for i using assms [OF that] by simp
  with Nil show ?thesis by (auto split: option.split)
next
  case (Cons c cs)
  have "loop_fn (length cs) f i = loop_fn (length i) f i" if "f it = Some i" "i \<noteq> it" for i
    using that assms [OF that(1)] Cons suffix_neq_shorter [of i it]
    by (intro loop_fn_more assms) auto
  with Cons show ?thesis by (auto simp: star_fn_def split: option.split)
qed

lemma class_fn_simps [simp]:
  "class_fn p [] = None"
  "class_fn p (c # cs) = (if p c then Some cs else None)"
  by (simp_all add: class_fn_def)

lemma class_fn_suffix: "class_fn p i = Some i' \<Longrightarrow> suffix i' i"
  by (cases i) (auto split: if_splits intro: suffix_ConsI)

lemma star_fn_class [simp]: "star_fn (class_fn p) it = dropWhile p it"
proof (induction it)
  case (Cons c cs)
  then show ?case by (subst star_fn_unfold) (auto intro: class_fn_suffix)
qed simp

lemma alt_fn_class:
  "alt_fn [class_fn p] = class_fn p"
  "alt_fn (class_fn p # class_fn q # fs) = alt_fn (class_fn (\<lambda>c. p c \<or> q c) # fs)"
  by (auto simp: fun_eq_iff class_fn_def split: list.split option.split)

lemma plain_class:
  "plain (CharacterR c) = class_fn (\<lambda>x. x = c)"
  "plain (CharactersR a b) = class_fn (in_range a b)"
  "plain (RuleD d impl) = plain impl"
  "plain (OrR rs) = alt_fn (map plain rs)"
  "plain (AndR rs) = seq_fn (map plain rs)"
  by (simp_all add: fun_eq_iff)

lemma star_fn_all:
  assumes "\<And>c cs. p c \<Longrightarrow> f (c # cs) = Some cs"
  shows "list_all p s \<Longrightarrow> star_fn f s = []"
proof -
  have "list_all p s \<Longrightarrow> length s \<le> k \<Longrightarrow> loop_fn k f s = []" for k
    by (induction k arbitrary: s) (auto simp: assms neq_Nil_conv)
  then show "list_all p s \<Longrightarrow> star_fn f s = []" by (simp add: star_fn_def)
qed

text \<open>Bounded repetition, which the grammars spell as nested options.\<close>

definition opt_fn :: "reader \<Rightarrow> reader" where
  "opt_fn f it = (case f it of None \<Rightarrow> Some it | Some it' \<Rightarrow> Some it')"

fun skip_upto :: "nat \<Rightarrow> (char \<Rightarrow> bool) \<Rightarrow> iter \<Rightarrow> iter" where
  "skip_upto 0 p it = it"
| "skip_upto (Suc k) p [] = []"
| "skip_upto (Suc k) p (c # cs) = (if p c then skip_upto k p cs else c # cs)"

definition upto_fn :: "nat \<Rightarrow> (char \<Rightarrow> bool) \<Rightarrow> reader" where
  "upto_fn k p it = Some (skip_upto k p it)"

lemma plain_string: "plain (StringR lit) = literal_fn lit"
  by (simp add: fun_eq_iff)

lemma literal_fn_same [simp]: "literal_fn lit (lit @ y) = Some y"
proof -
  have "string_loop False lit (lit @ y) = (True, y)" by (induction lit) (auto simp: char_match_def)
  then show ?thesis by (simp add: literal_fn_def)
qed

lemma skip_upto_all: "skip_upto k p s = [] \<longleftrightarrow> length s \<le> k \<and> list_all p s"
  by (induction k p s rule: skip_upto.induct) auto

text \<open>A loop stops where its body fails, or at the end of the input.\<close>

lemma star_fn_stops:
  assumes "\<And>i i'. f i = Some i' \<Longrightarrow> suffix i' i \<and> i' \<noteq> i"
  shows "star_fn f s = [] \<or> f (star_fn f s) = None"
proof (induction "length s" arbitrary: s rule: less_induct)
  case less
  note unfold = star_fn_unfold [of f s, OF assms [THEN conjunct1]]
  show ?case
  proof (cases "f s")
    case (Some i)
    with assms [OF Some] less.hyps [of i] unfold show ?thesis
      by (auto dest: suffix_neq_shorter)
  qed (simp add: unfold)
qed

lemma plain_opt: "plain (ZeroOrOne r) = opt_fn (plain r)"
  by (simp add: fun_eq_iff opt_fn_def)

lemma opt_fn_class:
  "opt_fn (class_fn p) = upto_fn 1 p"
  "opt_fn (seq_fn [class_fn p, upto_fn k p]) = upto_fn (Suc k) p"
  by (auto simp: fun_eq_iff opt_fn_def upto_fn_def class_fn_def split: list.split)

lemma skip_upto_suffix: "suffix (skip_upto k p s) s"
  by (induction k p s rule: skip_upto.induct) (auto intro: suffix_ConsI)

lemma skip_upto_word:
  "\<not> p d \<Longrightarrow> list_all p (takeWhile (\<lambda>c. c \<noteq> d) s) \<Longrightarrow> length (takeWhile (\<lambda>c. c \<noteq> d) s) \<le> k \<Longrightarrow>
     skip_upto k p s = dropWhile (\<lambda>c. c \<noteq> d) s"
proof (induction k p s rule: skip_upto.induct)
  case (1 p it)
  then show ?case by (cases it) (auto split: if_splits)
qed (auto split: if_splits)

lemma skip_upto_stops:
  "\<not> p d \<Longrightarrow> \<not> (list_all p (takeWhile (\<lambda>c. c \<noteq> d) s) \<and> length (takeWhile (\<lambda>c. c \<noteq> d) s) \<le> k) \<Longrightarrow>
     skip_upto k p s \<noteq> [] \<and> hd (skip_upto k p s) \<noteq> d"
proof (induction k p s rule: skip_upto.induct)
  case (1 p it)
  then show ?case by (cases it) (auto split: if_splits)
qed (auto split: if_splits)

lemma in_range_ascii:
  assumes "(of_char b :: nat) < 128" and "a \<le> b"
  shows "in_range a b = (\<lambda>c. a \<le> c \<and> c \<le> b)"
proof
  have v: "char_val c = (if (of_char c :: nat) < 128 then int (of_char c) else int (of_char c) - 256)"
    for c
  proof -
    have e: "(of_char c :: int) = int (of_char c)" unfolding of_nat_of_char ..
    show ?thesis unfolding char_val_def Let_def e by simp
  qed
  fix c
  have "int (of_char c) < 256" by simp
  then have "\<not> int (of_char a) \<le> int (of_char c) - 256" by linarith
  with assms show "in_range a b c = (a \<le> c \<and> c \<le> b)"
    unfolding in_range_def v less_eq_char_def by (auto split: if_splits)
qed

subsection \<open>Lists of words between separators\<close>

text \<open>
  A reader of words: on a text up to the next separator it reads all of it if it is a word, and
  otherwise fails or stops in front of a character that is no separator. Then the greedy loops
  of the grammars read exactly the separated lists of words.
\<close>

definition word_reader :: "char \<Rightarrow> (string \<Rightarrow> bool) \<Rightarrow> reader \<Rightarrow> bool" where
  "word_reader d p f \<longleftrightarrow> \<not> p [] \<and> (\<forall>s.
     if p (takeWhile (\<lambda>c. c \<noteq> d) s) then f s = Some (dropWhile (\<lambda>c. c \<noteq> d) s)
     else (case f s of None \<Rightarrow> True | Some i \<Rightarrow> suffix i s \<and> i \<noteq> [] \<and> hd i \<noteq> d))"

lemma word_readerI:
  assumes "\<not> p []"
    and "\<And>s. p (takeWhile (\<lambda>c. c \<noteq> d) s) \<Longrightarrow> f s = Some (dropWhile (\<lambda>c. c \<noteq> d) s)"
    and "\<And>s i. \<not> p (takeWhile (\<lambda>c. c \<noteq> d) s) \<Longrightarrow> f s = Some i \<Longrightarrow>
      suffix i s \<and> i \<noteq> [] \<and> hd i \<noteq> d"
  shows "word_reader d p f"
  using assms by (auto simp: word_reader_def split: option.split)

lemma word_reader_cases:
  assumes "word_reader d p f"
  obtains (word) "p (takeWhile (\<lambda>c. c \<noteq> d) s)" "f s = Some (dropWhile (\<lambda>c. c \<noteq> d) s)"
    | (fails) "\<not> p (takeWhile (\<lambda>c. c \<noteq> d) s)" "f s = None"
    | (stops) i where "\<not> p (takeWhile (\<lambda>c. c \<noteq> d) s)" "f s = Some i" "suffix i s" "i \<noteq> []"
        "hd i \<noteq> d"
  using assms unfolding word_reader_def
  by (cases "f s"; cases "p (takeWhile (\<lambda>c. c \<noteq> d) s)") (auto split: if_splits)

lemma word_reader_suffix: "word_reader d p f \<Longrightarrow> f s = Some i \<Longrightarrow> suffix i s"
  by (erule word_reader_cases [of d p f s]) (auto simp: suffix_dropWhile)

lemma sep_word_suffix:
  "word_reader d p f \<Longrightarrow> seq_fn [class_fn (\<lambda>x. x = d), f] s = Some i \<Longrightarrow> suffix i s"
  by (cases s) (auto split: if_splits option.splits dest: word_reader_suffix intro: suffix_ConsI)

lemma star_sep_unfold:
  assumes f: "word_reader d p f"
  defines "q \<equiv> seq_fn [class_fn (\<lambda>x. x = d), f]"
  shows "star_fn q it = (case q it of None \<Rightarrow> it | Some it' \<Rightarrow>
      (if it' = it then it else star_fn q it'))"
  unfolding q_def by (rule star_fn_unfold) (rule sep_word_suffix [OF f])

lemma star_words:
  assumes f: "word_reader d p f"
  shows "star_fn (seq_fn [class_fn (\<lambda>x. x = d), f]) s = [] \<longleftrightarrow>
    (case s of [] \<Rightarrow> True | c # cs \<Rightarrow> c = d \<and> list_all p (split_on d cs))"
proof (induction "length s" arbitrary: s rule: less_induct)
  case less
  show ?case
  proof (cases "s = [] \<or> hd s \<noteq> d")
    case True
    then show ?thesis
      by (subst star_sep_unfold [OF f]) (auto split: list.split)
  next
    case False
    then obtain cs where s: "s = d # cs" by (cases s) auto
    let ?i = "dropWhile (\<lambda>c. c \<noteq> d) cs"
    note unfold = star_sep_unfold [OF f, of s]
    show ?thesis using f
    proof (cases rule: word_reader_cases [where s = cs])
      case word
      have "length ?i < length s" using s by (simp add: length_dropWhile_le less_Suc_eq_le)
      moreover from this have "?i \<noteq> s" by auto
      ultimately show ?thesis using less.hyps [of ?i] word s unfold
        by (cases rule: dropWhile_separator [of d cs]) (simp_all add: list_all_split_on [of p d cs] del: dropWhile_eq_Nil_conv)
    next
      case fails
      with s unfold show ?thesis by (simp add: list_all_split_on [of p d cs] del: dropWhile_eq_Nil_conv)
    next
      case (stops i)
      have "star_fn (seq_fn [class_fn (\<lambda>x. x = d), f]) i = i"
        using stops by (subst star_sep_unfold [OF f]) (cases i; simp)
      with stops s unfold show ?thesis
        by (auto simp: list_all_split_on [of p d cs] del: dropWhile_eq_Nil_conv dest: suffix_length_le)
    qed
  qed
qed

lemma words_star:
  assumes f: "word_reader d p f"
  shows "map_option (star_fn (seq_fn [class_fn (\<lambda>x. x = d), f])) (f s) = Some [] \<longleftrightarrow>
    list_all p (split_on d s)"
  using f
proof (cases rule: word_reader_cases [where s = s])
  case word
  then show ?thesis using star_words [OF f, of "dropWhile (\<lambda>c. c \<noteq> d) s"]
    by (cases rule: dropWhile_separator [of d s]) (simp_all add: list_all_split_on [of p d s] del: dropWhile_eq_Nil_conv)
next
  case fails
  then show ?thesis by (simp add: list_all_split_on [of p d s] del: dropWhile_eq_Nil_conv)
next
  case (stops i)
  with star_words [OF f, of i] show ?thesis
    by (cases i) (simp_all add: list_all_split_on [of p d s] del: dropWhile_eq_Nil_conv)
qed

text \<open>Words of one class and bounded length.\<close>

lemma bounded_word_reader:
  assumes d: "\<not> p d"
  shows "word_reader d (\<lambda>w. w \<noteq> [] \<and> length w \<le> Suc k \<and> list_all p w)
    (seq_fn [class_fn p, upto_fn k p])"
proof (rule word_readerI)
  fix s
  let ?w = "takeWhile (\<lambda>c. c \<noteq> d) s"
  show "seq_fn [class_fn p, upto_fn k p] s = Some (dropWhile (\<lambda>c. c \<noteq> d) s)"
    if "?w \<noteq> [] \<and> length ?w \<le> Suc k \<and> list_all p ?w"
    using that d by (cases s) (auto simp: upto_fn_def intro: skip_upto_word split: if_splits)
  fix i
  assume w: "\<not> (?w \<noteq> [] \<and> length ?w \<le> Suc k \<and> list_all p ?w)"
    and i: "seq_fn [class_fn p, upto_fn k p] s = Some i"
  then obtain c cs where s: "s = c # cs" "p c" "i = skip_upto k p cs"
    by (cases s) (auto simp: upto_fn_def split: if_splits)
  with d have "c \<noteq> d" by auto
  with w s skip_upto_stops [of p, OF d] skip_upto_suffix [of k p cs]
  show "suffix i s \<and> i \<noteq> [] \<and> hd i \<noteq> d" by (auto intro: suffix_ConsI)
qed simp

text \<open>A fixed number of words.\<close>

lemma words_seq:
  assumes f: "word_reader d p f"
  shows "seq_fn (f # concat (replicate n [class_fn (\<lambda>x. x = d), f])) s = Some [] \<longleftrightarrow>
    length (split_on d s) = Suc n \<and> list_all p (split_on d s)"
proof (induction n arbitrary: s)
  case 0
  show ?case using f
  proof (cases rule: word_reader_cases [where s = s])
    case word
    then show ?thesis
      by (cases rule: dropWhile_separator [of d s])
        (simp_all add: list_all_split_on [of p d s] length_split_on [of d s]
          del: dropWhile_eq_Nil_conv)
  qed (simp_all add: list_all_split_on [of p d s] del: dropWhile_eq_Nil_conv)
next
  case (Suc n)
  show ?case using f
  proof (cases rule: word_reader_cases [where s = s])
    case word
    with Suc.IH show ?thesis
      by (cases rule: dropWhile_separator [of d s])
        (simp_all add: list_all_split_on [of p d s] length_split_on [of d s]
          del: dropWhile_eq_Nil_conv)
  next
    case (stops i)
    then show ?thesis by (cases i) (simp_all add: list_all_split_on [of p d s] del: dropWhile_eq_Nil_conv)
  qed (simp add: list_all_split_on [of p d s] del: dropWhile_eq_Nil_conv)
qed

lemma word_reader_word:
  "word_reader d p f \<Longrightarrow> p (takeWhile (\<lambda>c. c \<noteq> d) s) \<Longrightarrow> f s = Some (dropWhile (\<lambda>c. c \<noteq> d) s)"
  by (simp add: word_reader_def)

lemma words_seq_prefix:
  assumes f: "word_reader d p f"
  shows "length (split_on d w) = Suc n \<Longrightarrow> list_all p (split_on d w) \<Longrightarrow>
    seq_fn (f # concat (replicate n [class_fn (\<lambda>x. x = d), f])) (w @ d # y) = Some (d # y)"
proof (induction n arbitrary: w)
  case 0
  with word_reader_word [OF f, of "w @ d # y"] show ?case
    by (cases rule: dropWhile_separator [of d w])
      (simp_all add: length_split_on [of d w] list_all_split_on [of p d w] del: dropWhile_eq_Nil_conv)
next
  case (Suc n)
  with word_reader_word [OF f, of "w @ d # y"] show ?case
    by (cases rule: dropWhile_separator [of d w])
      (simp_all add: length_split_on [of d w] list_all_split_on [of p d w] del: dropWhile_eq_Nil_conv)
qed

end
