(* ===== verification/RFC1035.thy ===== *)
theory RFC1035
  imports Plain_Match
begin

text \<open>
  Domain names, \<^verbatim>\<open>grammars/RFC1035.hpp\<close>, and the language of the \<open>domain\<close> rule.
\<close>

definition rfc1035_letter_lower :: rule where [grammar_defs]:
  "rfc1035_letter_lower = CharactersR (CHR ''a'') (CHR ''z'')"

definition rfc1035_letter_upper :: rule where [grammar_defs]:
  "rfc1035_letter_upper = CharactersR (CHR ''A'') (CHR ''Z'')"

definition rfc1035_digit :: rule where [grammar_defs]:
  "rfc1035_digit = CharactersR (CHR ''0'') (CHR ''9'')"

definition rfc1035_hyphen :: rule where [grammar_defs]:
  "rfc1035_hyphen = CharacterR (CHR ''-'')"

definition rfc1035_dot :: rule where [grammar_defs]: "rfc1035_dot = CharacterR (CHR ''.'')"

definition rfc1035_letter :: rule where [grammar_defs]:
  "rfc1035_letter = OrR [rfc1035_letter_lower, rfc1035_letter_upper]"

definition rfc1035_let_dig :: rule where [grammar_defs]:
  "rfc1035_let_dig = OrR [rfc1035_letter, rfc1035_digit]"

definition rfc1035_let_dig_hyp :: rule where [grammar_defs]:
  "rfc1035_let_dig_hyp = OrR [rfc1035_let_dig, rfc1035_hyphen]"

definition rfc1035_ldh_str :: rule where [grammar_defs]:
  "rfc1035_ldh_str = OneOrMore rfc1035_let_dig_hyp"

definition rfc1035_label :: rule where [grammar_defs]:
  "rfc1035_label = AndR [rfc1035_letter, ZeroOrMore rfc1035_let_dig_hyp]"

definition rfc1035_subdomain :: rule where [grammar_defs]:
  "rfc1035_subdomain = AndR [rfc1035_label, ZeroOrMore (AndR [rfc1035_dot, rfc1035_label])]"

definition rfc1035_domain :: rule where [grammar_defs]:
  "rfc1035_domain = RuleD ''RFC1035::domain'' rfc1035_subdomain"

subsection \<open>The language of domain names\<close>

text \<open>A label: a letter, then letters, digits and hyphens.\<close>

definition ldh :: "char \<Rightarrow> bool" where
  "ldh c \<longleftrightarrow> is_letter c \<or> is_digit c \<or> c = CHR ''-''"

definition host_label :: "string \<Rightarrow> bool" where
  "host_label w = (case w of [] \<Rightarrow> False | c # cs \<Rightarrow> is_letter c \<and> list_all ldh cs)"

lemma plain_rfc1035_letter: "plain rfc1035_letter = class_fn is_letter"
  by (simp add: rfc1035_letter_def rfc1035_letter_lower_def rfc1035_letter_upper_def
      plain_class alt_fn_class in_range_ascii is_letter_def [abs_def])

lemma plain_rfc1035_let_dig_hyp: "plain rfc1035_let_dig_hyp = class_fn ldh"
  by (simp add: rfc1035_let_dig_hyp_def rfc1035_let_dig_def rfc1035_digit_def rfc1035_hyphen_def
      plain_rfc1035_letter plain_class alt_fn_class in_range_ascii is_digit_def ldh_def [abs_def])

lemma rfc1035_label_reader: "word_reader (CHR ''.'') host_label (plain rfc1035_label)"
proof (rule word_readerI)
  have ldh: "\<not> ldh (CHR ''.'')" by code_simp
  have label: "plain rfc1035_label s = (case s of [] \<Rightarrow> None | c # cs \<Rightarrow>
      if is_letter c then Some (dropWhile ldh cs) else None)" for s
    by (simp add: rfc1035_label_def plain_rfc1035_letter plain_rfc1035_let_dig_hyp
        split: list.split)
  fix s
  show "plain rfc1035_label s = Some (dropWhile (\<lambda>c. c \<noteq> CHR ''.'') s)"
    if "host_label (takeWhile (\<lambda>c. c \<noteq> CHR ''.'') s)"
    using that dropWhile_class_word [of ldh, OF ldh] label
    by (cases s) (auto simp: host_label_def split: if_splits)
  show "suffix i s \<and> i \<noteq> [] \<and> hd i \<noteq> CHR ''.''"
    if "\<not> host_label (takeWhile (\<lambda>c. c \<noteq> CHR ''.'') s)" "plain rfc1035_label s = Some i" for i
  proof -
    have "\<not> is_letter (CHR ''.'')" by code_simp
    with that label obtain c cs where s: "s = c # cs" "is_letter c" "c \<noteq> CHR ''.''"
      and i: "i = dropWhile ldh cs" by (auto split: list.splits if_splits)
    with that dropWhile_class_stops [of ldh, OF ldh] show ?thesis
      by (auto simp: host_label_def suffix_dropWhile intro: suffix_ConsI)
  qed
qed (simp add: host_label_def)

text \<open>C38: the domain-name rule of RFC 1035 accepts exactly the texts whose dot-separated parts
  are all labels: non-empty, starting with a letter, going on with letters, digits and hyphens.
  The trailing hyphen that the comment in the source mentions is the only liberty it takes.\<close>

theorem rfc1035_domain_language:
  "parser_accepts g rfc1035_domain False [] w \<longleftrightarrow> list_all host_label (split_on (CHR ''.'') w)"
proof -
  have c: "complete {} rfc1035_domain" by (simp add: grammar_defs)
  have "plain rfc1035_domain w = map_option
      (star_fn (seq_fn [class_fn (\<lambda>x. x = CHR ''.''), plain rfc1035_label])) (plain rfc1035_label w)"
    by (simp add: rfc1035_domain_def rfc1035_subdomain_def rfc1035_dot_def plain_class
        split: option.split)
  then show ?thesis
    by (simp only: accepts_plain [OF c] words_star [OF rfc1035_label_reader])
qed

end
