(* ===== verification/RFC5234.thy ===== *)
theory RFC5234
  imports Plain_Match
begin

text \<open>
  The core rules of ABNF, \<^verbatim>\<open>grammars/RFC5234.hpp\<close>, which the other grammars import: the
  character classes as one-character rules, and the octet rule that matches two octets only.
\<close>

definition rfc5234_CR :: rule where [grammar_defs]: "rfc5234_CR = CharacterR (CHR 0x0D)"
definition rfc5234_LF :: rule where [grammar_defs]: "rfc5234_LF = CharacterR (CHR 0x0A)"
definition rfc5234_SP :: rule where [grammar_defs]: "rfc5234_SP = CharacterR (CHR 0x20)"
definition rfc5234_HTAB :: rule where [grammar_defs]: "rfc5234_HTAB = CharacterR (CHR 0x09)"
definition rfc5234_DQUOTE :: rule where [grammar_defs]: "rfc5234_DQUOTE = CharacterR (CHR 0x22)"

definition rfc5234_DIGIT :: rule where [grammar_defs]:
  "rfc5234_DIGIT = CharactersR (CHR ''0'') (CHR ''9'')"

definition rfc5234_ALPHA_UPPER :: rule where [grammar_defs]:
  "rfc5234_ALPHA_UPPER = CharactersR (CHR ''A'') (CHR ''Z'')"

definition rfc5234_ALPHA_LOWER :: rule where [grammar_defs]:
  "rfc5234_ALPHA_LOWER = CharactersR (CHR ''a'') (CHR ''z'')"

definition rfc5234_HEX_LOWER :: rule where [grammar_defs]:
  "rfc5234_HEX_LOWER = CharactersR (CHR ''a'') (CHR ''f'')"

definition rfc5234_HEX_UPPER :: rule where [grammar_defs]:
  "rfc5234_HEX_UPPER = CharactersR (CHR ''A'') (CHR ''F'')"

definition rfc5234_VCHAR :: rule where [grammar_defs]:
  "rfc5234_VCHAR = CharactersR (CHR ''!'') (CHR ''~'')"

definition rfc5234_OCTET :: rule where [grammar_defs]:
  "rfc5234_OCTET = CharactersR (CHR 0x00) (CHR 0xFF)"

definition rfc5234_CTL_LOW :: rule where [grammar_defs]:
  "rfc5234_CTL_LOW = CharactersR (CHR 0x00) (CHR 0x1F)"

definition rfc5234_CTL_DEL :: rule where [grammar_defs]:
  "rfc5234_CTL_DEL = CharacterR (CHR 0x7F)"

definition rfc5234_ALPHA :: rule where [grammar_defs]:
  "rfc5234_ALPHA = OrR [rfc5234_ALPHA_UPPER, rfc5234_ALPHA_LOWER]"

definition rfc5234_HEXDIG :: rule where [grammar_defs]:
  "rfc5234_HEXDIG = OrR [rfc5234_DIGIT, rfc5234_HEX_LOWER, rfc5234_HEX_UPPER]"

definition rfc5234_CTL :: rule where [grammar_defs]:
  "rfc5234_CTL = OrR [rfc5234_CTL_LOW, rfc5234_CTL_DEL]"

definition rfc5234_WSP :: rule where [grammar_defs]:
  "rfc5234_WSP = OrR [rfc5234_SP, rfc5234_HTAB]"

definition rfc5234_CRLF :: rule where [grammar_defs]:
  "rfc5234_CRLF = RuleD ''RFC5234::CRLF'' (AndR [rfc5234_CR, rfc5234_LF])"

definition rfc5234_LWSP :: rule where [grammar_defs]:
  "rfc5234_LWSP =
     RuleD ''RFC5234::LWSP'' (ZeroOrMore (OrR [rfc5234_WSP, AndR [rfc5234_CRLF, rfc5234_WSP]]))"

subsection \<open>The character classes\<close>

lemma plain_rfc5234_ALPHA: "plain rfc5234_ALPHA = class_fn is_letter"
  by (auto simp: rfc5234_ALPHA_def rfc5234_ALPHA_UPPER_def rfc5234_ALPHA_LOWER_def
      plain_class alt_fn_class in_range_ascii is_letter_def [abs_def] intro!: arg_cong [of _ _ class_fn])

lemma plain_rfc5234_DIGIT: "plain rfc5234_DIGIT = class_fn is_digit"
  by (simp add: rfc5234_DIGIT_def plain_class in_range_ascii is_digit_def [abs_def])

text \<open>The \<open>OCTET\<close> rule matches two of the 256 octets only. Its bounds are the signed
  characters 0 and -1, which the range test reads as the range from -1 to 0.\<close>

theorem rfc5234_octet_language:
  "parser_accepts g rfc5234_OCTET False [] w \<longleftrightarrow> w = [CHR 0x00] \<or> w = [CHR 0xFF]"
proof -
  have c: "complete {} rfc5234_OCTET" by (simp add: grammar_defs)
  have "in_range (CHR 0x00) (CHR 0xFF) x \<longleftrightarrow> x = CHR 0x00 \<or> x = CHR 0xFF" for x
    by (subst (1 2) char_val_inject [symmetric])
      (auto simp: in_range_def char_val_def [of "CHR 0x00"] char_val_def [of "CHR 0xFF"])
  then show ?thesis
    unfolding accepts_plain [OF c] by (cases w) (auto simp: rfc5234_OCTET_def)
qed

end
