(* ===== verification/RFC5322.thy ===== *)
theory RFC5322
  imports RFC5234
begin

text \<open>
  Internet messages, \<^verbatim>\<open>grammars/RFC5322.hpp\<close>. Comments nest through \<open>ccontent\<close>, which
  \<open>rfc5322_grammar\<close> ties. Below: parsing a message returns, and \<open>obs_unstruct\<close> is never reached.
\<close>

subsection \<open>Imports from RFC5234\<close>

definition rfc5322_CR :: rule where [grammar_defs]: "rfc5322_CR = rfc5234_CR"
definition rfc5322_LF :: rule where [grammar_defs]: "rfc5322_LF = rfc5234_LF"
definition rfc5322_CRLF :: rule where [grammar_defs]: "rfc5322_CRLF = rfc5234_CRLF"
definition rfc5322_SP :: rule where [grammar_defs]: "rfc5322_SP = rfc5234_SP"
definition rfc5322_HTAB :: rule where [grammar_defs]: "rfc5322_HTAB = rfc5234_HTAB"
definition rfc5322_WSP :: rule where [grammar_defs]: "rfc5322_WSP = rfc5234_WSP"
definition rfc5322_DIGIT :: rule where [grammar_defs]: "rfc5322_DIGIT = rfc5234_DIGIT"
definition rfc5322_ALPHA :: rule where [grammar_defs]: "rfc5322_ALPHA = rfc5234_ALPHA"
definition rfc5322_VCHAR :: rule where [grammar_defs]: "rfc5322_VCHAR = rfc5234_VCHAR"
definition rfc5322_DQUOTE :: rule where [grammar_defs]: "rfc5322_DQUOTE = rfc5234_DQUOTE"
definition rfc5322_HEXDIG :: rule where [grammar_defs]: "rfc5322_HEXDIG = rfc5234_HEXDIG"

subsection \<open>Punctuation terminals\<close>

definition rfc5322_BackSlash :: rule where [grammar_defs]:
  "rfc5322_BackSlash = CharacterR (CHR 0x5C)"

definition rfc5322_OpenParan :: rule where [grammar_defs]:
  "rfc5322_OpenParan = CharacterR (CHR ''('')"

definition rfc5322_CloseParan :: rule where [grammar_defs]:
  "rfc5322_CloseParan = CharacterR (CHR '')'')"

definition rfc5322_LessThan :: rule where [grammar_defs]:
  "rfc5322_LessThan = CharacterR (CHR ''<'')"

definition rfc5322_GreaterThan :: rule where [grammar_defs]:
  "rfc5322_GreaterThan = CharacterR (CHR ''>'')"

definition rfc5322_OpenBracket :: rule where [grammar_defs]:
  "rfc5322_OpenBracket = CharacterR (CHR ''['')"

definition rfc5322_CloseBracket :: rule where [grammar_defs]:
  "rfc5322_CloseBracket = CharacterR (CHR '']'')"

definition rfc5322_Colon :: rule where [grammar_defs]: "rfc5322_Colon = CharacterR (CHR '':'')"

definition rfc5322_SemiColon :: rule where [grammar_defs]:
  "rfc5322_SemiColon = CharacterR (CHR '';'')"

definition rfc5322_At :: rule where [grammar_defs]: "rfc5322_At = CharacterR (CHR ''@'')"
definition rfc5322_Comma :: rule where [grammar_defs]: "rfc5322_Comma = CharacterR (CHR '','')"

definition rfc5322_Period :: rule where [grammar_defs]:
  "rfc5322_Period = CharacterR (CHR ''.'')"

definition rfc5322_Exclaimation :: rule where [grammar_defs]:
  "rfc5322_Exclaimation = CharacterR (CHR ''!'')"

definition rfc5322_Hash :: rule where [grammar_defs]: "rfc5322_Hash = CharacterR (CHR ''#'')"

definition rfc5322_Dollar :: rule where [grammar_defs]:
  "rfc5322_Dollar = CharacterR (CHR ''$'')"

definition rfc5322_Percent :: rule where [grammar_defs]:
  "rfc5322_Percent = CharacterR (CHR ''%'')"

definition rfc5322_Ampersand :: rule where [grammar_defs]:
  "rfc5322_Ampersand = CharacterR (CHR ''&'')"

definition rfc5322_SingleQuote :: rule where [grammar_defs]:
  "rfc5322_SingleQuote = CharacterR (CHR 0x27)"

definition rfc5322_Asterisk :: rule where [grammar_defs]:
  "rfc5322_Asterisk = CharacterR (CHR ''*'')"

definition rfc5322_Plus :: rule where [grammar_defs]: "rfc5322_Plus = CharacterR (CHR ''+'')"

definition rfc5322_Hyphen :: rule where [grammar_defs]:
  "rfc5322_Hyphen = CharacterR (CHR ''-'')"

definition rfc5322_ForwardSlash :: rule where [grammar_defs]:
  "rfc5322_ForwardSlash = CharacterR (CHR ''/'')"

definition rfc5322_Equal :: rule where [grammar_defs]: "rfc5322_Equal = CharacterR (CHR ''='')"

definition rfc5322_Question :: rule where [grammar_defs]:
  "rfc5322_Question = CharacterR (CHR ''?'')"

definition rfc5322_Caret :: rule where [grammar_defs]: "rfc5322_Caret = CharacterR (CHR ''^'')"

definition rfc5322_UnderScore :: rule where [grammar_defs]:
  "rfc5322_UnderScore = CharacterR (CHR ''_'')"

definition rfc5322_Apostrophe :: rule where [grammar_defs]:
  "rfc5322_Apostrophe = CharacterR (CHR 0x60)"

definition rfc5322_OpenBrace :: rule where [grammar_defs]:
  "rfc5322_OpenBrace = CharacterR (CHR ''{'')"

definition rfc5322_CloseBrace :: rule where [grammar_defs]:
  "rfc5322_CloseBrace = CharacterR (CHR ''}'')"

definition rfc5322_Pipe :: rule where [grammar_defs]: "rfc5322_Pipe = CharacterR (CHR ''|'')"
definition rfc5322_Tilde :: rule where [grammar_defs]: "rfc5322_Tilde = CharacterR (CHR ''~'')"
definition rfc5322_Nul :: rule where [grammar_defs]: "rfc5322_Nul = CharacterR (CHR 0x00)"

subsection \<open>Control / range terminals for character classes\<close>

definition rfc5322_NoWsCtlLow :: rule where [grammar_defs]:
  "rfc5322_NoWsCtlLow = CharactersR (CHR 0x01) (CHR 0x08)"

definition rfc5322_NoWsCtl11 :: rule where [grammar_defs]:
  "rfc5322_NoWsCtl11 = CharacterR (CHR 0x0B)"

definition rfc5322_NoWsCtl12 :: rule where [grammar_defs]:
  "rfc5322_NoWsCtl12 = CharacterR (CHR 0x0C)"

definition rfc5322_NoWsCtlMid :: rule where [grammar_defs]:
  "rfc5322_NoWsCtlMid = CharactersR (CHR 0x0E) (CHR 0x1F)"

definition rfc5322_NoWsCtlDel :: rule where [grammar_defs]:
  "rfc5322_NoWsCtlDel = CharacterR (CHR 0x7F)"

definition rfc5322_TextLow :: rule where [grammar_defs]:
  "rfc5322_TextLow = CharactersR (CHR 0x01) (CHR 0x09)"

definition rfc5322_TextHigh :: rule where [grammar_defs]:
  "rfc5322_TextHigh = CharactersR (CHR 0x0E) (CHR 0x7F)"

definition rfc5322_CtextLow :: rule where [grammar_defs]:
  "rfc5322_CtextLow = CharactersR (CHR ''!'') (CHR 0x27)"

definition rfc5322_CtextMid :: rule where [grammar_defs]:
  "rfc5322_CtextMid = CharactersR (CHR ''*'') (CHR ''['')"

definition rfc5322_PrintHigh :: rule where [grammar_defs]:
  "rfc5322_PrintHigh = CharactersR (CHR '']'') (CHR ''~'')"

definition rfc5322_QtextChar33 :: rule where [grammar_defs]:
  "rfc5322_QtextChar33 = CharacterR (CHR ''!'')"

definition rfc5322_QtextMid :: rule where [grammar_defs]:
  "rfc5322_QtextMid = CharactersR (CHR ''#'') (CHR ''['')"

definition rfc5322_DtextLow :: rule where [grammar_defs]:
  "rfc5322_DtextLow = CharactersR (CHR ''!'') (CHR ''Z'')"

definition rfc5322_DtextHigh :: rule where [grammar_defs]:
  "rfc5322_DtextHigh = CharactersR (CHR ''^'') (CHR ''~'')"

definition rfc5322_FtextLow :: rule where [grammar_defs]:
  "rfc5322_FtextLow = CharactersR (CHR ''!'') (CHR ''9'')"

definition rfc5322_FtextHigh :: rule where [grammar_defs]:
  "rfc5322_FtextHigh = CharactersR (CHR '';'') (CHR ''~'')"

definition rfc5322_ZoneMilUpperA :: rule where [grammar_defs]:
  "rfc5322_ZoneMilUpperA = CharactersR (CHR ''A'') (CHR ''I'')"

definition rfc5322_ZoneMilUpperK :: rule where [grammar_defs]:
  "rfc5322_ZoneMilUpperK = CharactersR (CHR ''K'') (CHR ''Z'')"

definition rfc5322_ZoneMilLowerA :: rule where [grammar_defs]:
  "rfc5322_ZoneMilLowerA = CharactersR (CHR ''a'') (CHR ''i'')"

definition rfc5322_ZoneMilLowerK :: rule where [grammar_defs]:
  "rfc5322_ZoneMilLowerK = CharactersR (CHR ''k'') (CHR ''z'')"

subsection \<open>String terminals - day/month/zone names\<close>

definition rfc5322_Mon :: rule where [grammar_defs]: "rfc5322_Mon = StringR ''Mon''"
definition rfc5322_Tue :: rule where [grammar_defs]: "rfc5322_Tue = StringR ''Tue''"
definition rfc5322_Wed :: rule where [grammar_defs]: "rfc5322_Wed = StringR ''Wed''"
definition rfc5322_Thu :: rule where [grammar_defs]: "rfc5322_Thu = StringR ''Thu''"
definition rfc5322_Fri :: rule where [grammar_defs]: "rfc5322_Fri = StringR ''Fri''"
definition rfc5322_Sat :: rule where [grammar_defs]: "rfc5322_Sat = StringR ''Sat''"
definition rfc5322_Sun :: rule where [grammar_defs]: "rfc5322_Sun = StringR ''Sun''"
definition rfc5322_Jan :: rule where [grammar_defs]: "rfc5322_Jan = StringR ''Jan''"
definition rfc5322_Feb :: rule where [grammar_defs]: "rfc5322_Feb = StringR ''Feb''"
definition rfc5322_Mar :: rule where [grammar_defs]: "rfc5322_Mar = StringR ''Mar''"
definition rfc5322_Apr :: rule where [grammar_defs]: "rfc5322_Apr = StringR ''Apr''"
definition rfc5322_May :: rule where [grammar_defs]: "rfc5322_May = StringR ''May''"
definition rfc5322_Jun :: rule where [grammar_defs]: "rfc5322_Jun = StringR ''Jun''"
definition rfc5322_Jul :: rule where [grammar_defs]: "rfc5322_Jul = StringR ''Jul''"
definition rfc5322_Aug :: rule where [grammar_defs]: "rfc5322_Aug = StringR ''Aug''"
definition rfc5322_Sep :: rule where [grammar_defs]: "rfc5322_Sep = StringR ''Sep''"
definition rfc5322_Oct :: rule where [grammar_defs]: "rfc5322_Oct = StringR ''Oct''"
definition rfc5322_Nov :: rule where [grammar_defs]: "rfc5322_Nov = StringR ''Nov''"
definition rfc5322_Dec :: rule where [grammar_defs]: "rfc5322_Dec = StringR ''Dec''"
definition rfc5322_UT :: rule where [grammar_defs]: "rfc5322_UT = StringR ''UT''"
definition rfc5322_GMT :: rule where [grammar_defs]: "rfc5322_GMT = StringR ''GMT''"
definition rfc5322_EST :: rule where [grammar_defs]: "rfc5322_EST = StringR ''EST''"
definition rfc5322_EDT :: rule where [grammar_defs]: "rfc5322_EDT = StringR ''EDT''"
definition rfc5322_CST :: rule where [grammar_defs]: "rfc5322_CST = StringR ''CST''"
definition rfc5322_CDT :: rule where [grammar_defs]: "rfc5322_CDT = StringR ''CDT''"
definition rfc5322_MST :: rule where [grammar_defs]: "rfc5322_MST = StringR ''MST''"
definition rfc5322_MDT :: rule where [grammar_defs]: "rfc5322_MDT = StringR ''MDT''"
definition rfc5322_PST :: rule where [grammar_defs]: "rfc5322_PST = StringR ''PST''"
definition rfc5322_PDT :: rule where [grammar_defs]: "rfc5322_PDT = StringR ''PDT''"

subsection \<open>String terminals - field name prefixes (with colon), section 3\<close>

definition rfc5322_orig_date_prefix :: rule where [grammar_defs]:
  "rfc5322_orig_date_prefix = StringR ''Date:''"

definition rfc5322_from_prefix :: rule where [grammar_defs]:
  "rfc5322_from_prefix = StringR ''From:''"

definition rfc5322_sender_prefix :: rule where [grammar_defs]:
  "rfc5322_sender_prefix = StringR ''Sender:''"

definition rfc5322_reply_to_prefix :: rule where [grammar_defs]:
  "rfc5322_reply_to_prefix = StringR ''Reply-To:''"

definition rfc5322_to_prefix :: rule where [grammar_defs]: "rfc5322_to_prefix = StringR ''To:''"
definition rfc5322_cc_prefix :: rule where [grammar_defs]: "rfc5322_cc_prefix = StringR ''Cc:''"

definition rfc5322_bcc_prefix :: rule where [grammar_defs]:
  "rfc5322_bcc_prefix = StringR ''Bcc:''"

definition rfc5322_message_id_prefix :: rule where [grammar_defs]:
  "rfc5322_message_id_prefix = StringR ''Message-ID:''"

definition rfc5322_in_reply_to_prefix :: rule where [grammar_defs]:
  "rfc5322_in_reply_to_prefix = StringR ''In-Reply-To:''"

definition rfc5322_references_prefix :: rule where [grammar_defs]:
  "rfc5322_references_prefix = StringR ''References:''"

definition rfc5322_subject_prefix :: rule where [grammar_defs]:
  "rfc5322_subject_prefix = StringR ''Subject:''"

definition rfc5322_comments_prefix :: rule where [grammar_defs]:
  "rfc5322_comments_prefix = StringR ''Comments:''"

definition rfc5322_keywords_prefix :: rule where [grammar_defs]:
  "rfc5322_keywords_prefix = StringR ''Keywords:''"

definition rfc5322_resent_date_prefix :: rule where [grammar_defs]:
  "rfc5322_resent_date_prefix = StringR ''Resent-Date:''"

definition rfc5322_resent_from_prefix :: rule where [grammar_defs]:
  "rfc5322_resent_from_prefix = StringR ''Resent-From:''"

definition rfc5322_resent_sender_prefix :: rule where [grammar_defs]:
  "rfc5322_resent_sender_prefix = StringR ''Resent-Sender:''"

definition rfc5322_resent_to_prefix :: rule where [grammar_defs]:
  "rfc5322_resent_to_prefix = StringR ''Resent-To:''"

definition rfc5322_resent_cc_prefix :: rule where [grammar_defs]:
  "rfc5322_resent_cc_prefix = StringR ''Resent-Cc:''"

definition rfc5322_resent_bcc_prefix :: rule where [grammar_defs]:
  "rfc5322_resent_bcc_prefix = StringR ''Resent-Bcc:''"

definition rfc5322_resent_msg_id_prefix :: rule where [grammar_defs]:
  "rfc5322_resent_msg_id_prefix = StringR ''Resent-Message-ID:''"

definition rfc5322_return_prefix :: rule where [grammar_defs]:
  "rfc5322_return_prefix = StringR ''Return-Path:''"

definition rfc5322_received_prefix :: rule where [grammar_defs]:
  "rfc5322_received_prefix = StringR ''Received:''"

subsection \<open>String terminals - bare field names (no colon), section 4.5 obs-*\<close>

definition rfc5322_Date_name :: rule where [grammar_defs]:
  "rfc5322_Date_name = StringR ''Date''"

definition rfc5322_From_name :: rule where [grammar_defs]:
  "rfc5322_From_name = StringR ''From''"

definition rfc5322_Sender_name :: rule where [grammar_defs]:
  "rfc5322_Sender_name = StringR ''Sender''"

definition rfc5322_ReplyTo_name :: rule where [grammar_defs]:
  "rfc5322_ReplyTo_name = StringR ''Reply-To''"

definition rfc5322_To_name :: rule where [grammar_defs]: "rfc5322_To_name = StringR ''To''"
definition rfc5322_Cc_name :: rule where [grammar_defs]: "rfc5322_Cc_name = StringR ''Cc''"
definition rfc5322_Bcc_name :: rule where [grammar_defs]: "rfc5322_Bcc_name = StringR ''Bcc''"

definition rfc5322_MessageID_name :: rule where [grammar_defs]:
  "rfc5322_MessageID_name = StringR ''Message-ID''"

definition rfc5322_InReplyTo_name :: rule where [grammar_defs]:
  "rfc5322_InReplyTo_name = StringR ''In-Reply-To''"

definition rfc5322_References_name :: rule where [grammar_defs]:
  "rfc5322_References_name = StringR ''References''"

definition rfc5322_Subject_name :: rule where [grammar_defs]:
  "rfc5322_Subject_name = StringR ''Subject''"

definition rfc5322_Comments_name :: rule where [grammar_defs]:
  "rfc5322_Comments_name = StringR ''Comments''"

definition rfc5322_Keywords_name :: rule where [grammar_defs]:
  "rfc5322_Keywords_name = StringR ''Keywords''"

definition rfc5322_ResentFrom_name :: rule where [grammar_defs]:
  "rfc5322_ResentFrom_name = StringR ''Resent-From''"

definition rfc5322_ResentSender_name :: rule where [grammar_defs]:
  "rfc5322_ResentSender_name = StringR ''Resent-Sender''"

definition rfc5322_ResentDate_name :: rule where [grammar_defs]:
  "rfc5322_ResentDate_name = StringR ''Resent-Date''"

definition rfc5322_ResentTo_name :: rule where [grammar_defs]:
  "rfc5322_ResentTo_name = StringR ''Resent-To''"

definition rfc5322_ResentCc_name :: rule where [grammar_defs]:
  "rfc5322_ResentCc_name = StringR ''Resent-Cc''"

definition rfc5322_ResentBcc_name :: rule where [grammar_defs]:
  "rfc5322_ResentBcc_name = StringR ''Resent-Bcc''"

definition rfc5322_ResentMessageID_name :: rule where [grammar_defs]:
  "rfc5322_ResentMessageID_name = StringR ''Resent-Message-ID''"

definition rfc5322_ResentReplyTo_name :: rule where [grammar_defs]:
  "rfc5322_ResentReplyTo_name = StringR ''Resent-Reply-To''"

definition rfc5322_ReturnPath_name :: rule where [grammar_defs]:
  "rfc5322_ReturnPath_name = StringR ''Return-Path''"

definition rfc5322_Received_name :: rule where [grammar_defs]:
  "rfc5322_Received_name = StringR ''Received''"

subsection \<open>Character classes (using aliases)\<close>

definition rfc5322_obs_NO_WS_CTL :: rule where [grammar_defs]:
  "rfc5322_obs_NO_WS_CTL =
     OrR [
       rfc5322_NoWsCtlLow, rfc5322_NoWsCtl11, rfc5322_NoWsCtl12, rfc5322_NoWsCtlMid,
       rfc5322_NoWsCtlDel]"

definition rfc5322_obs_ctext :: rule where [grammar_defs]:
  "rfc5322_obs_ctext = rfc5322_obs_NO_WS_CTL"

definition rfc5322_obs_qtext :: rule where [grammar_defs]:
  "rfc5322_obs_qtext = rfc5322_obs_NO_WS_CTL"

definition rfc5322_obs_utext :: rule where [grammar_defs]:
  "rfc5322_obs_utext = OrR [rfc5322_Nul, rfc5322_obs_NO_WS_CTL, rfc5322_VCHAR]"

definition rfc5322_text :: rule where [grammar_defs]:
  "rfc5322_text = OrR [rfc5322_TextLow, rfc5322_NoWsCtl11, rfc5322_NoWsCtl12, rfc5322_TextHigh]"

definition rfc5322_ctext :: rule where [grammar_defs]:
  "rfc5322_ctext =
     OrR [rfc5322_CtextLow, rfc5322_CtextMid, rfc5322_PrintHigh, rfc5322_obs_ctext]"

definition rfc5322_qtext :: rule where [grammar_defs]:
  "rfc5322_qtext =
     OrR [rfc5322_QtextChar33, rfc5322_QtextMid, rfc5322_PrintHigh, rfc5322_obs_qtext]"

definition rfc5322_obs_qp :: rule where [grammar_defs]:
  "rfc5322_obs_qp =
     RuleD ''RFC5322::obs_qp''
       (AndR [
          rfc5322_BackSlash, OrR [rfc5322_Nul, rfc5322_obs_NO_WS_CTL, rfc5322_LF, rfc5322_CR]])"

definition rfc5322_quoted_pair :: rule where [grammar_defs]:
  "rfc5322_quoted_pair =
     RuleD ''RFC5322::quoted_pair''
       (OrR [AndR [rfc5322_BackSlash, OrR [rfc5322_VCHAR, rfc5322_WSP]], rfc5322_obs_qp])"

definition rfc5322_obs_dtext :: rule where [grammar_defs]:
  "rfc5322_obs_dtext =
     RuleD ''RFC5322::obs_dtext'' (OrR [rfc5322_obs_NO_WS_CTL, rfc5322_quoted_pair])"

definition rfc5322_dtext :: rule where [grammar_defs]:
  "rfc5322_dtext = OrR [rfc5322_DtextLow, rfc5322_DtextHigh, rfc5322_obs_dtext]"

definition rfc5322_ftext :: rule where [grammar_defs]:
  "rfc5322_ftext = OrR [rfc5322_FtextLow, rfc5322_FtextHigh]"

definition rfc5322_atext :: rule where [grammar_defs]:
  "rfc5322_atext =
     OrR [
       rfc5322_ALPHA, rfc5322_DIGIT, rfc5322_Exclaimation, rfc5322_Hash, rfc5322_Dollar,
       rfc5322_Percent, rfc5322_Ampersand, rfc5322_SingleQuote, rfc5322_Asterisk,
       rfc5322_Plus, rfc5322_Hyphen, rfc5322_ForwardSlash, rfc5322_Equal, rfc5322_Question,
       rfc5322_Caret, rfc5322_UnderScore, rfc5322_Apostrophe, rfc5322_OpenBrace,
       rfc5322_CloseBrace, rfc5322_Pipe, rfc5322_Tilde]"

definition rfc5322_specials :: rule where [grammar_defs]:
  "rfc5322_specials =
     OrR [
       rfc5322_OpenParan, rfc5322_CloseParan, rfc5322_LessThan, rfc5322_GreaterThan,
       rfc5322_OpenBracket, rfc5322_CloseBracket, rfc5322_Colon, rfc5322_SemiColon,
       rfc5322_At, rfc5322_BackSlash, rfc5322_Comma, rfc5322_Period, rfc5322_DQUOTE]"

subsection \<open>3.2 Quoted characters / Folding White Space and Comments\<close>

definition rfc5322_obs_FWS :: rule where [grammar_defs]:
  "rfc5322_obs_FWS =
     RuleD ''RFC5322::obs_FWS''
       (AndR [OneOrMore rfc5322_WSP, ZeroOrMore (AndR [rfc5322_CRLF, OneOrMore rfc5322_WSP])])"

definition rfc5322_FWS :: rule where [grammar_defs]:
  "rfc5322_FWS =
     RuleD ''RFC5322::FWS''
       (OrR [
          AndR [
            ZeroOrOne (AndR [ZeroOrMore rfc5322_WSP, rfc5322_CRLF]), OneOrMore rfc5322_WSP],
          rfc5322_obs_FWS])"

definition rfc5322_ccontent :: rule where [grammar_defs]:
  "rfc5322_ccontent =
     RuleD ''RFC5322::ccontent''
       (OrR [rfc5322_ctext, rfc5322_quoted_pair, RuleRef ''RFC5322::comment''])"

definition rfc5322_comment :: rule where [grammar_defs]:
  "rfc5322_comment =
     RuleD ''RFC5322::comment''
       (AndR [
          rfc5322_OpenParan, ZeroOrMore (AndR [ZeroOrOne rfc5322_FWS, rfc5322_ccontent]),
          ZeroOrOne rfc5322_FWS, rfc5322_CloseParan])"

definition rfc5322_CFWS :: rule where [grammar_defs]:
  "rfc5322_CFWS =
     RuleD ''RFC5322::CFWS''
       (OrR [
          AndR [
            OneOrMore (AndR [ZeroOrOne rfc5322_FWS, rfc5322_comment]), ZeroOrOne rfc5322_FWS],
          rfc5322_FWS])"

definition rfc5322_atom :: rule where [grammar_defs]:
  "rfc5322_atom =
     RuleD ''RFC5322::atom''
       (AndR [ZeroOrOne rfc5322_CFWS, OneOrMore rfc5322_atext, ZeroOrOne rfc5322_CFWS])"

definition rfc5322_dot_atom_text :: rule where [grammar_defs]:
  "rfc5322_dot_atom_text =
     RuleD ''RFC5322::dot_atom_text''
       (AndR [
          OneOrMore rfc5322_atext,
          ZeroOrMore (AndR [rfc5322_Period, OneOrMore rfc5322_atext])])"

definition rfc5322_dot_atom :: rule where [grammar_defs]:
  "rfc5322_dot_atom =
     RuleD ''RFC5322::dot_atom''
       (AndR [ZeroOrOne rfc5322_CFWS, rfc5322_dot_atom_text, ZeroOrOne rfc5322_CFWS])"

definition rfc5322_qcontent :: rule where [grammar_defs]:
  "rfc5322_qcontent = RuleD ''RFC5322::qcontent'' (OrR [rfc5322_qtext, rfc5322_quoted_pair])"

definition rfc5322_quoted_string :: rule where [grammar_defs]:
  "rfc5322_quoted_string =
     RuleD ''RFC5322::quoted_string''
       (AndR [
          ZeroOrOne rfc5322_CFWS, rfc5322_DQUOTE,
          ZeroOrMore (AndR [ZeroOrOne rfc5322_FWS, rfc5322_qcontent]), ZeroOrOne rfc5322_FWS,
          rfc5322_DQUOTE, ZeroOrOne rfc5322_CFWS])"

definition rfc5322_word :: rule where [grammar_defs]:
  "rfc5322_word = RuleD ''RFC5322::word'' (OrR [rfc5322_atom, rfc5322_quoted_string])"

definition rfc5322_obs_phrase :: rule where [grammar_defs]:
  "rfc5322_obs_phrase =
     RuleD ''RFC5322::obs_phrase''
       (AndR [rfc5322_word, ZeroOrMore (OrR [rfc5322_word, rfc5322_Period, rfc5322_CFWS])])"

definition rfc5322_phrase :: rule where [grammar_defs]:
  "rfc5322_phrase = RuleD ''RFC5322::phrase'' (OrR [OneOrMore rfc5322_word, rfc5322_obs_phrase])"

definition rfc5322_obs_unstruct_inner :: rule where [grammar_defs]:
  "rfc5322_obs_unstruct_inner =
     AndR [
       ZeroOrMore rfc5322_LF, ZeroOrMore rfc5322_CR,
       ZeroOrMore (AndR [rfc5322_obs_utext, ZeroOrMore rfc5322_LF, ZeroOrMore rfc5322_CR])]"

definition rfc5322_obs_unstruct :: rule where [grammar_defs]:
  "rfc5322_obs_unstruct =
     RuleD ''RFC5322::obs_unstruct''
       (ZeroOrMore (OrR [rfc5322_obs_unstruct_inner, rfc5322_FWS]))"

definition rfc5322_unstructured :: rule where [grammar_defs]:
  "rfc5322_unstructured =
     RuleD ''RFC5322::unstructured''
       (OrR [
          AndR [
            ZeroOrMore (AndR [ZeroOrOne rfc5322_FWS, rfc5322_VCHAR]), ZeroOrMore rfc5322_WSP],
          rfc5322_obs_unstruct])"

subsection \<open>3.3 Date and Time Specification\<close>

definition rfc5322_day_name :: rule where [grammar_defs]:
  "rfc5322_day_name =
     RuleD ''RFC5322::day_name''
       (OrR [
          rfc5322_Mon, rfc5322_Tue, rfc5322_Wed, rfc5322_Thu, rfc5322_Fri, rfc5322_Sat,
          rfc5322_Sun])"

definition rfc5322_obs_day_of_week :: rule where [grammar_defs]:
  "rfc5322_obs_day_of_week =
     RuleD ''RFC5322::obs_day_of_week''
       (AndR [ZeroOrOne rfc5322_CFWS, rfc5322_day_name, ZeroOrOne rfc5322_CFWS])"

definition rfc5322_day_of_week :: rule where [grammar_defs]:
  "rfc5322_day_of_week =
     RuleD ''RFC5322::day_of_week''
       (OrR [AndR [ZeroOrOne rfc5322_FWS, rfc5322_day_name], rfc5322_obs_day_of_week])"

definition rfc5322_obs_day :: rule where [grammar_defs]:
  "rfc5322_obs_day =
     RuleD ''RFC5322::obs_day''
       (AndR [
          ZeroOrOne rfc5322_CFWS, OrR [AndR [rfc5322_DIGIT, rfc5322_DIGIT], rfc5322_DIGIT],
          ZeroOrOne rfc5322_CFWS])"

definition rfc5322_day :: rule where [grammar_defs]:
  "rfc5322_day =
     RuleD ''RFC5322::day''
       (OrR [
          AndR [
            ZeroOrOne rfc5322_FWS, OrR [AndR [rfc5322_DIGIT, rfc5322_DIGIT], rfc5322_DIGIT],
            rfc5322_FWS],
          rfc5322_obs_day])"

definition rfc5322_month :: rule where [grammar_defs]:
  "rfc5322_month =
     RuleD ''RFC5322::month''
       (OrR [
          rfc5322_Jan, rfc5322_Feb, rfc5322_Mar, rfc5322_Apr, rfc5322_May, rfc5322_Jun,
          rfc5322_Jul, rfc5322_Aug, rfc5322_Sep, rfc5322_Oct, rfc5322_Nov, rfc5322_Dec])"

definition rfc5322_obs_year :: rule where [grammar_defs]:
  "rfc5322_obs_year =
     RuleD ''RFC5322::obs_year''
       (AndR [
          ZeroOrOne rfc5322_CFWS,
          AndR [rfc5322_DIGIT, rfc5322_DIGIT, ZeroOrMore rfc5322_DIGIT],
          ZeroOrOne rfc5322_CFWS])"

definition rfc5322_year :: rule where [grammar_defs]:
  "rfc5322_year =
     RuleD ''RFC5322::year''
       (OrR [
          AndR [
            rfc5322_FWS,
            AndR [
              rfc5322_DIGIT, rfc5322_DIGIT, rfc5322_DIGIT, rfc5322_DIGIT,
              ZeroOrMore rfc5322_DIGIT],
            rfc5322_FWS],
          rfc5322_obs_year])"

definition rfc5322_date :: rule where [grammar_defs]:
  "rfc5322_date = RuleD ''RFC5322::date'' (AndR [rfc5322_day, rfc5322_month, rfc5322_year])"

definition rfc5322_obs_hour :: rule where [grammar_defs]:
  "rfc5322_obs_hour =
     RuleD ''RFC5322::obs_hour''
       (AndR [
          ZeroOrOne rfc5322_CFWS, AndR [rfc5322_DIGIT, rfc5322_DIGIT], ZeroOrOne rfc5322_CFWS])"

definition rfc5322_hour :: rule where [grammar_defs]:
  "rfc5322_hour =
     RuleD ''RFC5322::hour'' (OrR [AndR [rfc5322_DIGIT, rfc5322_DIGIT], rfc5322_obs_hour])"

definition rfc5322_obs_minute :: rule where [grammar_defs]:
  "rfc5322_obs_minute =
     RuleD ''RFC5322::obs_minute''
       (AndR [
          ZeroOrOne rfc5322_CFWS, AndR [rfc5322_DIGIT, rfc5322_DIGIT], ZeroOrOne rfc5322_CFWS])"

definition rfc5322_minute :: rule where [grammar_defs]:
  "rfc5322_minute =
     RuleD ''RFC5322::minute'' (OrR [AndR [rfc5322_DIGIT, rfc5322_DIGIT], rfc5322_obs_minute])"

definition rfc5322_obs_second :: rule where [grammar_defs]:
  "rfc5322_obs_second =
     RuleD ''RFC5322::obs_second''
       (AndR [
          ZeroOrOne rfc5322_CFWS, AndR [rfc5322_DIGIT, rfc5322_DIGIT], ZeroOrOne rfc5322_CFWS])"

definition rfc5322_second :: rule where [grammar_defs]:
  "rfc5322_second =
     RuleD ''RFC5322::second'' (OrR [AndR [rfc5322_DIGIT, rfc5322_DIGIT], rfc5322_obs_second])"

definition rfc5322_time_of_day :: rule where [grammar_defs]:
  "rfc5322_time_of_day =
     RuleD ''RFC5322::time_of_day''
       (AndR [
          rfc5322_hour, rfc5322_Colon, rfc5322_minute,
          ZeroOrOne (AndR [rfc5322_Colon, rfc5322_second])])"

definition rfc5322_obs_zone :: rule where [grammar_defs]:
  "rfc5322_obs_zone =
     RuleD ''RFC5322::obs_zone''
       (OrR [
          rfc5322_UT, rfc5322_GMT, rfc5322_EST, rfc5322_EDT, rfc5322_CST, rfc5322_CDT,
          rfc5322_MST, rfc5322_MDT, rfc5322_PST, rfc5322_PDT, rfc5322_ZoneMilUpperA,
          rfc5322_ZoneMilUpperK, rfc5322_ZoneMilLowerA, rfc5322_ZoneMilLowerK])"

definition rfc5322_zone :: rule where [grammar_defs]:
  "rfc5322_zone =
     RuleD ''RFC5322::zone''
       (OrR [
          AndR [
            rfc5322_FWS, OrR [rfc5322_Plus, rfc5322_Hyphen],
            AndR [rfc5322_DIGIT, rfc5322_DIGIT, rfc5322_DIGIT, rfc5322_DIGIT]],
          AndR [rfc5322_FWS, rfc5322_obs_zone], rfc5322_obs_zone])"

definition rfc5322_time :: rule where [grammar_defs]:
  "rfc5322_time = RuleD ''RFC5322::time'' (AndR [rfc5322_time_of_day, rfc5322_zone])"

definition rfc5322_date_time :: rule where [grammar_defs]:
  "rfc5322_date_time =
     RuleD ''RFC5322::date_time''
       (AndR [
          ZeroOrOne (AndR [rfc5322_day_of_week, rfc5322_Comma]), rfc5322_date, rfc5322_time,
          ZeroOrOne rfc5322_CFWS])"

subsection \<open>3.4 Address Specification\<close>

definition rfc5322_display_name :: rule where [grammar_defs]:
  "rfc5322_display_name = RuleD ''RFC5322::display_name'' rfc5322_phrase"

definition rfc5322_obs_local_part :: rule where [grammar_defs]:
  "rfc5322_obs_local_part =
     RuleD ''RFC5322::obs_local_part''
       (AndR [rfc5322_word, ZeroOrMore (AndR [rfc5322_Period, rfc5322_word])])"

definition rfc5322_local_part :: rule where [grammar_defs]:
  "rfc5322_local_part =
     RuleD ''RFC5322::local_part''
       (OrR [rfc5322_dot_atom, rfc5322_quoted_string, rfc5322_obs_local_part])"

definition rfc5322_domain_literal :: rule where [grammar_defs]:
  "rfc5322_domain_literal =
     RuleD ''RFC5322::domain_literal''
       (AndR [
          ZeroOrOne rfc5322_CFWS, rfc5322_OpenBracket,
          ZeroOrMore (AndR [ZeroOrOne rfc5322_FWS, rfc5322_dtext]), ZeroOrOne rfc5322_FWS,
          rfc5322_CloseBracket, ZeroOrOne rfc5322_CFWS])"

definition rfc5322_obs_domain :: rule where [grammar_defs]:
  "rfc5322_obs_domain =
     RuleD ''RFC5322::obs_domain''
       (AndR [rfc5322_atom, ZeroOrMore (AndR [rfc5322_Period, rfc5322_atom])])"

definition rfc5322_domain :: rule where [grammar_defs]:
  "rfc5322_domain =
     RuleD ''RFC5322::domain''
       (OrR [rfc5322_dot_atom, rfc5322_domain_literal, rfc5322_obs_domain])"

definition rfc5322_addr_spec :: rule where [grammar_defs]:
  "rfc5322_addr_spec =
     RuleD ''RFC5322::addr_spec'' (AndR [rfc5322_local_part, rfc5322_At, rfc5322_domain])"

definition rfc5322_obs_domain_list :: rule where [grammar_defs]:
  "rfc5322_obs_domain_list =
     RuleD ''RFC5322::obs_domain_list''
       (AndR [
          ZeroOrMore (OrR [rfc5322_CFWS, rfc5322_Comma]), rfc5322_At, rfc5322_domain,
          ZeroOrMore
            (AndR [
               rfc5322_Comma, ZeroOrOne rfc5322_CFWS,
               ZeroOrOne (AndR [rfc5322_At, rfc5322_domain])])])"

definition rfc5322_obs_route :: rule where [grammar_defs]:
  "rfc5322_obs_route =
     RuleD ''RFC5322::obs_route'' (AndR [rfc5322_obs_domain_list, rfc5322_Colon])"

definition rfc5322_obs_angle_addr :: rule where [grammar_defs]:
  "rfc5322_obs_angle_addr =
     RuleD ''RFC5322::obs_angle_addr''
       (AndR [
          ZeroOrOne rfc5322_CFWS, rfc5322_LessThan, rfc5322_obs_route, rfc5322_addr_spec,
          rfc5322_GreaterThan, ZeroOrOne rfc5322_CFWS])"

definition rfc5322_angle_addr :: rule where [grammar_defs]:
  "rfc5322_angle_addr =
     RuleD ''RFC5322::angle_addr''
       (OrR [
          AndR [
            ZeroOrOne rfc5322_CFWS, rfc5322_LessThan, rfc5322_addr_spec, rfc5322_GreaterThan,
            ZeroOrOne rfc5322_CFWS],
          rfc5322_obs_angle_addr])"

definition rfc5322_name_addr :: rule where [grammar_defs]:
  "rfc5322_name_addr =
     RuleD ''RFC5322::name_addr'' (AndR [ZeroOrOne rfc5322_display_name, rfc5322_angle_addr])"

definition rfc5322_mailbox :: rule where [grammar_defs]:
  "rfc5322_mailbox = RuleD ''RFC5322::mailbox'' (OrR [rfc5322_name_addr, rfc5322_addr_spec])"

definition rfc5322_obs_mbox_list :: rule where [grammar_defs]:
  "rfc5322_obs_mbox_list =
     RuleD ''RFC5322::obs_mbox_list''
       (AndR [
          ZeroOrMore (AndR [ZeroOrOne rfc5322_CFWS, rfc5322_Comma]), rfc5322_mailbox,
          ZeroOrMore (AndR [rfc5322_Comma, ZeroOrOne (OrR [rfc5322_mailbox, rfc5322_CFWS])])])"

definition rfc5322_mailbox_list :: rule where [grammar_defs]:
  "rfc5322_mailbox_list =
     RuleD ''RFC5322::mailbox_list''
       (OrR [
          AndR [rfc5322_mailbox, ZeroOrMore (AndR [rfc5322_Comma, rfc5322_mailbox])],
          rfc5322_obs_mbox_list])"

definition rfc5322_obs_group_list :: rule where [grammar_defs]:
  "rfc5322_obs_group_list =
     RuleD ''RFC5322::obs_group_list''
       (AndR [
          OneOrMore (AndR [ZeroOrOne rfc5322_CFWS, rfc5322_Comma]), ZeroOrOne rfc5322_CFWS])"

definition rfc5322_group_list :: rule where [grammar_defs]:
  "rfc5322_group_list =
     RuleD ''RFC5322::group_list''
       (OrR [rfc5322_mailbox_list, rfc5322_CFWS, rfc5322_obs_group_list])"

definition rfc5322_group :: rule where [grammar_defs]:
  "rfc5322_group =
     RuleD ''RFC5322::group''
       (AndR [
          rfc5322_display_name, rfc5322_Colon, ZeroOrOne rfc5322_group_list,
          rfc5322_SemiColon, ZeroOrOne rfc5322_CFWS])"

definition rfc5322_address :: rule where [grammar_defs]:
  "rfc5322_address = RuleD ''RFC5322::address'' (OrR [rfc5322_mailbox, rfc5322_group])"

definition rfc5322_obs_addr_list :: rule where [grammar_defs]:
  "rfc5322_obs_addr_list =
     RuleD ''RFC5322::obs_addr_list''
       (AndR [
          ZeroOrMore (AndR [ZeroOrOne rfc5322_CFWS, rfc5322_Comma]), rfc5322_address,
          ZeroOrMore (AndR [rfc5322_Comma, ZeroOrOne (OrR [rfc5322_address, rfc5322_CFWS])])])"

definition rfc5322_address_list :: rule where [grammar_defs]:
  "rfc5322_address_list =
     RuleD ''RFC5322::address_list''
       (OrR [
          AndR [rfc5322_address, ZeroOrMore (AndR [rfc5322_Comma, rfc5322_address])],
          rfc5322_obs_addr_list])"

subsection \<open>3.5 Overall Message Syntax\<close>

definition rfc5322_obs_body_inner :: rule where [grammar_defs]:
  "rfc5322_obs_body_inner =
     AndR [
       ZeroOrMore rfc5322_LF, ZeroOrMore rfc5322_CR,
       ZeroOrMore
         (AndR [
            OrR [rfc5322_Nul, rfc5322_text], ZeroOrMore rfc5322_LF, ZeroOrMore rfc5322_CR])]"

definition rfc5322_obs_body :: rule where [grammar_defs]:
  "rfc5322_obs_body =
     RuleD ''RFC5322::obs_body'' (ZeroOrMore (OrR [rfc5322_obs_body_inner, rfc5322_CRLF]))"

definition rfc5322_body :: rule where [grammar_defs]:
  "rfc5322_body =
     RuleD ''RFC5322::body''
       (OrR [
          AndR [
            ZeroOrMore (AndR [ZeroOrMore rfc5322_text, rfc5322_CRLF]),
            ZeroOrMore rfc5322_text],
          rfc5322_obs_body])"

subsection \<open>3.6 Field Definitions\<close>

definition rfc5322_resent_date :: rule where [grammar_defs]:
  "rfc5322_resent_date =
     RuleD ''RFC5322::resent_date''
       (AndR [rfc5322_resent_date_prefix, rfc5322_date_time, rfc5322_CRLF])"

definition rfc5322_resent_from :: rule where [grammar_defs]:
  "rfc5322_resent_from =
     RuleD ''RFC5322::resent_from''
       (AndR [rfc5322_resent_from_prefix, rfc5322_mailbox_list, rfc5322_CRLF])"

definition rfc5322_resent_sender :: rule where [grammar_defs]:
  "rfc5322_resent_sender =
     RuleD ''RFC5322::resent_sender''
       (AndR [rfc5322_resent_sender_prefix, rfc5322_mailbox, rfc5322_CRLF])"

definition rfc5322_resent_to :: rule where [grammar_defs]:
  "rfc5322_resent_to =
     RuleD ''RFC5322::resent_to''
       (AndR [rfc5322_resent_to_prefix, rfc5322_address_list, rfc5322_CRLF])"

definition rfc5322_resent_cc :: rule where [grammar_defs]:
  "rfc5322_resent_cc =
     RuleD ''RFC5322::resent_cc''
       (AndR [rfc5322_resent_cc_prefix, rfc5322_address_list, rfc5322_CRLF])"

definition rfc5322_resent_bcc :: rule where [grammar_defs]:
  "rfc5322_resent_bcc =
     RuleD ''RFC5322::resent_bcc''
       (AndR [
          rfc5322_resent_bcc_prefix, ZeroOrOne (OrR [rfc5322_address_list, rfc5322_CFWS]),
          rfc5322_CRLF])"

definition rfc5322_obs_id_left :: rule where [grammar_defs]:
  "rfc5322_obs_id_left = RuleD ''RFC5322::obs_id_left'' rfc5322_local_part"

definition rfc5322_id_left :: rule where [grammar_defs]:
  "rfc5322_id_left =
     RuleD ''RFC5322::id_left'' (OrR [rfc5322_dot_atom_text, rfc5322_obs_id_left])"

definition rfc5322_no_fold_literal :: rule where [grammar_defs]:
  "rfc5322_no_fold_literal =
     RuleD ''RFC5322::no_fold_literal''
       (AndR [rfc5322_OpenBracket, ZeroOrMore rfc5322_dtext, rfc5322_CloseBracket])"

definition rfc5322_obs_id_right :: rule where [grammar_defs]:
  "rfc5322_obs_id_right = RuleD ''RFC5322::obs_id_right'' rfc5322_domain"

definition rfc5322_id_right :: rule where [grammar_defs]:
  "rfc5322_id_right =
     RuleD ''RFC5322::id_right''
       (OrR [rfc5322_dot_atom_text, rfc5322_no_fold_literal, rfc5322_obs_id_right])"

definition rfc5322_msg_id :: rule where [grammar_defs]:
  "rfc5322_msg_id =
     RuleD ''RFC5322::msg_id''
       (AndR [
          ZeroOrOne rfc5322_CFWS, rfc5322_LessThan, rfc5322_id_left, rfc5322_At,
          rfc5322_id_right, rfc5322_GreaterThan, ZeroOrOne rfc5322_CFWS])"

definition rfc5322_resent_msg_id :: rule where [grammar_defs]:
  "rfc5322_resent_msg_id =
     RuleD ''RFC5322::resent_msg_id''
       (AndR [rfc5322_resent_msg_id_prefix, rfc5322_msg_id, rfc5322_CRLF])"

definition rfc5322_fields_resent :: rule where [grammar_defs]:
  "rfc5322_fields_resent =
     OneOrMore
       (OrR [
          rfc5322_resent_date, rfc5322_resent_from, rfc5322_resent_sender, rfc5322_resent_to,
          rfc5322_resent_cc, rfc5322_resent_bcc, rfc5322_resent_msg_id])"

definition rfc5322_path :: rule where [grammar_defs]:
  "rfc5322_path =
     RuleD ''RFC5322::path''
       (OrR [
          rfc5322_angle_addr,
          AndR [
            ZeroOrOne rfc5322_CFWS, rfc5322_LessThan, ZeroOrOne rfc5322_CFWS,
            rfc5322_GreaterThan, ZeroOrOne rfc5322_CFWS]])"

definition rfc5322_Return :: rule where [grammar_defs]:
  "rfc5322_Return =
     RuleD ''RFC5322::Return'' (AndR [rfc5322_return_prefix, rfc5322_path, rfc5322_CRLF])"

definition rfc5322_received_token :: rule where [grammar_defs]:
  "rfc5322_received_token =
     RuleD ''RFC5322::received_token''
       (OrR [rfc5322_word, rfc5322_angle_addr, rfc5322_addr_spec, rfc5322_domain])"

definition rfc5322_received :: rule where [grammar_defs]:
  "rfc5322_received =
     RuleD ''RFC5322::received''
       (AndR [
          rfc5322_received_prefix, ZeroOrMore rfc5322_received_token, rfc5322_SemiColon,
          rfc5322_date_time, rfc5322_CRLF])"

definition rfc5322_trace :: rule where [grammar_defs]:
  "rfc5322_trace =
     RuleD ''RFC5322::trace'' (AndR [ZeroOrOne rfc5322_Return, OneOrMore rfc5322_received])"

definition rfc5322_field_name :: rule where [grammar_defs]:
  "rfc5322_field_name = RuleD ''RFC5322::field_name'' (OneOrMore rfc5322_ftext)"

definition rfc5322_optional_field :: rule where [grammar_defs]:
  "rfc5322_optional_field =
     RuleD ''RFC5322::optional_field''
       (AndR [rfc5322_field_name, rfc5322_Colon, rfc5322_unstructured, rfc5322_CRLF])"

definition rfc5322_fields_block :: rule where [grammar_defs]:
  "rfc5322_fields_block =
     OrR [AndR [rfc5322_trace, ZeroOrMore rfc5322_optional_field], rfc5322_fields_resent]"

definition rfc5322_orig_date :: rule where [grammar_defs]:
  "rfc5322_orig_date =
     RuleD ''RFC5322::orig_date''
       (AndR [rfc5322_orig_date_prefix, rfc5322_date_time, rfc5322_CRLF])"

definition rfc5322_from :: rule where [grammar_defs]:
  "rfc5322_from =
     RuleD ''RFC5322::from'' (AndR [rfc5322_from_prefix, rfc5322_mailbox_list, rfc5322_CRLF])"

definition rfc5322_sender :: rule where [grammar_defs]:
  "rfc5322_sender =
     RuleD ''RFC5322::sender'' (AndR [rfc5322_sender_prefix, rfc5322_mailbox, rfc5322_CRLF])"

definition rfc5322_reply_to :: rule where [grammar_defs]:
  "rfc5322_reply_to =
     RuleD ''RFC5322::reply_to''
       (AndR [rfc5322_reply_to_prefix, rfc5322_address_list, rfc5322_CRLF])"

definition rfc5322_to :: rule where [grammar_defs]:
  "rfc5322_to =
     RuleD ''RFC5322::to'' (AndR [rfc5322_to_prefix, rfc5322_address_list, rfc5322_CRLF])"

definition rfc5322_cc :: rule where [grammar_defs]:
  "rfc5322_cc =
     RuleD ''RFC5322::cc'' (AndR [rfc5322_cc_prefix, rfc5322_address_list, rfc5322_CRLF])"

definition rfc5322_bcc :: rule where [grammar_defs]:
  "rfc5322_bcc =
     RuleD ''RFC5322::bcc''
       (AndR [
          rfc5322_bcc_prefix, ZeroOrOne (OrR [rfc5322_address_list, rfc5322_CFWS]),
          rfc5322_CRLF])"

definition rfc5322_message_id :: rule where [grammar_defs]:
  "rfc5322_message_id =
     RuleD ''RFC5322::message_id''
       (AndR [rfc5322_message_id_prefix, rfc5322_msg_id, rfc5322_CRLF])"

definition rfc5322_in_reply_to :: rule where [grammar_defs]:
  "rfc5322_in_reply_to =
     RuleD ''RFC5322::in_reply_to''
       (AndR [rfc5322_in_reply_to_prefix, OneOrMore rfc5322_msg_id, rfc5322_CRLF])"

definition rfc5322_references :: rule where [grammar_defs]:
  "rfc5322_references =
     RuleD ''RFC5322::references''
       (AndR [rfc5322_references_prefix, OneOrMore rfc5322_msg_id, rfc5322_CRLF])"

definition rfc5322_subject :: rule where [grammar_defs]:
  "rfc5322_subject =
     RuleD ''RFC5322::subject''
       (AndR [rfc5322_subject_prefix, rfc5322_unstructured, rfc5322_CRLF])"

definition rfc5322_comments :: rule where [grammar_defs]:
  "rfc5322_comments =
     RuleD ''RFC5322::comments''
       (AndR [rfc5322_comments_prefix, rfc5322_unstructured, rfc5322_CRLF])"

definition rfc5322_keywords :: rule where [grammar_defs]:
  "rfc5322_keywords =
     RuleD ''RFC5322::keywords''
       (AndR [
          rfc5322_keywords_prefix, rfc5322_phrase,
          ZeroOrMore (AndR [rfc5322_Comma, rfc5322_phrase]), rfc5322_CRLF])"

definition rfc5322_fields_named :: rule where [grammar_defs]:
  "rfc5322_fields_named =
     OrR [
       rfc5322_orig_date, rfc5322_from, rfc5322_sender, rfc5322_reply_to, rfc5322_to,
       rfc5322_cc, rfc5322_bcc, rfc5322_message_id, rfc5322_in_reply_to, rfc5322_references,
       rfc5322_subject, rfc5322_comments, rfc5322_keywords, rfc5322_optional_field]"

definition rfc5322_fields :: rule where [grammar_defs]:
  "rfc5322_fields =
     RuleD ''RFC5322::fields''
       (AndR [ZeroOrMore rfc5322_fields_block, ZeroOrMore rfc5322_fields_named])"

subsection \<open>4.1 Miscellaneous Obsolete Tokens\<close>

definition rfc5322_obs_phrase_list :: rule where [grammar_defs]:
  "rfc5322_obs_phrase_list =
     RuleD ''RFC5322::obs_phrase_list''
       (AndR [
          ZeroOrOne (OrR [rfc5322_phrase, rfc5322_CFWS]),
          ZeroOrMore (AndR [rfc5322_Comma, ZeroOrOne (OrR [rfc5322_phrase, rfc5322_CFWS])])])"

subsection \<open>4.5 Obsolete Header Fields\<close>

definition rfc5322_obs_return :: rule where [grammar_defs]:
  "rfc5322_obs_return =
     RuleD ''RFC5322::obs_return''
       (AndR [
          rfc5322_ReturnPath_name, ZeroOrMore rfc5322_WSP, rfc5322_Colon, rfc5322_path,
          rfc5322_CRLF])"

definition rfc5322_obs_received :: rule where [grammar_defs]:
  "rfc5322_obs_received =
     RuleD ''RFC5322::obs_received''
       (AndR [
          rfc5322_Received_name, ZeroOrMore rfc5322_WSP, rfc5322_Colon,
          ZeroOrMore rfc5322_received_token, rfc5322_CRLF])"

definition rfc5322_obs_orig_date :: rule where [grammar_defs]:
  "rfc5322_obs_orig_date =
     RuleD ''RFC5322::obs_orig_date''
       (AndR [
          rfc5322_Date_name, ZeroOrMore rfc5322_WSP, rfc5322_Colon, rfc5322_date_time,
          rfc5322_CRLF])"

definition rfc5322_obs_from :: rule where [grammar_defs]:
  "rfc5322_obs_from =
     RuleD ''RFC5322::obs_from''
       (AndR [
          rfc5322_From_name, ZeroOrMore rfc5322_WSP, rfc5322_Colon, rfc5322_mailbox_list,
          rfc5322_CRLF])"

definition rfc5322_obs_sender :: rule where [grammar_defs]:
  "rfc5322_obs_sender =
     RuleD ''RFC5322::obs_sender''
       (AndR [
          rfc5322_Sender_name, ZeroOrMore rfc5322_WSP, rfc5322_Colon, rfc5322_mailbox,
          rfc5322_CRLF])"

definition rfc5322_obs_reply_to :: rule where [grammar_defs]:
  "rfc5322_obs_reply_to =
     RuleD ''RFC5322::obs_reply_to''
       (AndR [
          rfc5322_ReplyTo_name, ZeroOrMore rfc5322_WSP, rfc5322_Colon, rfc5322_address_list,
          rfc5322_CRLF])"

definition rfc5322_obs_to :: rule where [grammar_defs]:
  "rfc5322_obs_to =
     RuleD ''RFC5322::obs_to''
       (AndR [
          rfc5322_To_name, ZeroOrMore rfc5322_WSP, rfc5322_Colon, rfc5322_address_list,
          rfc5322_CRLF])"

definition rfc5322_obs_cc :: rule where [grammar_defs]:
  "rfc5322_obs_cc =
     RuleD ''RFC5322::obs_cc''
       (AndR [
          rfc5322_Cc_name, ZeroOrMore rfc5322_WSP, rfc5322_Colon, rfc5322_address_list,
          rfc5322_CRLF])"

definition rfc5322_obs_bcc :: rule where [grammar_defs]:
  "rfc5322_obs_bcc =
     RuleD ''RFC5322::obs_bcc''
       (AndR [
          rfc5322_Bcc_name, ZeroOrMore rfc5322_WSP, rfc5322_Colon,
          OrR [
            rfc5322_address_list,
            AndR [
              ZeroOrMore (AndR [ZeroOrOne rfc5322_CFWS, rfc5322_Comma]),
              ZeroOrOne rfc5322_CFWS]],
          rfc5322_CRLF])"

definition rfc5322_obs_message_id :: rule where [grammar_defs]:
  "rfc5322_obs_message_id =
     RuleD ''RFC5322::obs_message_id''
       (AndR [
          rfc5322_MessageID_name, ZeroOrMore rfc5322_WSP, rfc5322_Colon, rfc5322_msg_id,
          rfc5322_CRLF])"

definition rfc5322_obs_in_reply_to :: rule where [grammar_defs]:
  "rfc5322_obs_in_reply_to =
     RuleD ''RFC5322::obs_in_reply_to''
       (AndR [
          rfc5322_InReplyTo_name, ZeroOrMore rfc5322_WSP, rfc5322_Colon,
          ZeroOrMore (OrR [rfc5322_phrase, rfc5322_msg_id]), rfc5322_CRLF])"

definition rfc5322_obs_references :: rule where [grammar_defs]:
  "rfc5322_obs_references =
     RuleD ''RFC5322::obs_references''
       (AndR [
          rfc5322_References_name, ZeroOrMore rfc5322_WSP, rfc5322_Colon,
          ZeroOrMore (OrR [rfc5322_phrase, rfc5322_msg_id]), rfc5322_CRLF])"

definition rfc5322_obs_subject :: rule where [grammar_defs]:
  "rfc5322_obs_subject =
     RuleD ''RFC5322::obs_subject''
       (AndR [
          rfc5322_Subject_name, ZeroOrMore rfc5322_WSP, rfc5322_Colon, rfc5322_unstructured,
          rfc5322_CRLF])"

definition rfc5322_obs_comments :: rule where [grammar_defs]:
  "rfc5322_obs_comments =
     RuleD ''RFC5322::obs_comments''
       (AndR [
          rfc5322_Comments_name, ZeroOrMore rfc5322_WSP, rfc5322_Colon, rfc5322_unstructured,
          rfc5322_CRLF])"

definition rfc5322_obs_keywords :: rule where [grammar_defs]:
  "rfc5322_obs_keywords =
     RuleD ''RFC5322::obs_keywords''
       (AndR [
          rfc5322_Keywords_name, ZeroOrMore rfc5322_WSP, rfc5322_Colon,
          rfc5322_obs_phrase_list, rfc5322_CRLF])"

definition rfc5322_obs_resent_date :: rule where [grammar_defs]:
  "rfc5322_obs_resent_date =
     RuleD ''RFC5322::obs_resent_date''
       (AndR [
          rfc5322_ResentDate_name, ZeroOrMore rfc5322_WSP, rfc5322_Colon, rfc5322_date_time,
          rfc5322_CRLF])"

definition rfc5322_obs_resent_from :: rule where [grammar_defs]:
  "rfc5322_obs_resent_from =
     RuleD ''RFC5322::obs_resent_from''
       (AndR [
          rfc5322_ResentFrom_name, ZeroOrMore rfc5322_WSP, rfc5322_Colon,
          rfc5322_mailbox_list, rfc5322_CRLF])"

definition rfc5322_obs_resent_send :: rule where [grammar_defs]:
  "rfc5322_obs_resent_send =
     RuleD ''RFC5322::obs_resent_send''
       (AndR [
          rfc5322_ResentSender_name, ZeroOrMore rfc5322_WSP, rfc5322_Colon, rfc5322_mailbox,
          rfc5322_CRLF])"

definition rfc5322_obs_resent_rply :: rule where [grammar_defs]:
  "rfc5322_obs_resent_rply =
     RuleD ''RFC5322::obs_resent_rply''
       (AndR [
          rfc5322_ResentReplyTo_name, ZeroOrMore rfc5322_WSP, rfc5322_Colon,
          rfc5322_address_list, rfc5322_CRLF])"

definition rfc5322_obs_resent_to :: rule where [grammar_defs]:
  "rfc5322_obs_resent_to =
     RuleD ''RFC5322::obs_resent_to''
       (AndR [
          rfc5322_ResentTo_name, ZeroOrMore rfc5322_WSP, rfc5322_Colon, rfc5322_address_list,
          rfc5322_CRLF])"

definition rfc5322_obs_resent_cc :: rule where [grammar_defs]:
  "rfc5322_obs_resent_cc =
     RuleD ''RFC5322::obs_resent_cc''
       (AndR [
          rfc5322_ResentCc_name, ZeroOrMore rfc5322_WSP, rfc5322_Colon, rfc5322_address_list,
          rfc5322_CRLF])"

definition rfc5322_obs_resent_bcc :: rule where [grammar_defs]:
  "rfc5322_obs_resent_bcc =
     RuleD ''RFC5322::obs_resent_bcc''
       (AndR [
          rfc5322_ResentBcc_name, ZeroOrMore rfc5322_WSP, rfc5322_Colon,
          OrR [
            rfc5322_address_list,
            AndR [
              ZeroOrMore (AndR [ZeroOrOne rfc5322_CFWS, rfc5322_Comma]),
              ZeroOrOne rfc5322_CFWS]],
          rfc5322_CRLF])"

definition rfc5322_obs_resent_mid :: rule where [grammar_defs]:
  "rfc5322_obs_resent_mid =
     RuleD ''RFC5322::obs_resent_mid''
       (AndR [
          rfc5322_ResentMessageID_name, ZeroOrMore rfc5322_WSP, rfc5322_Colon,
          rfc5322_msg_id, rfc5322_CRLF])"

definition rfc5322_obs_optional :: rule where [grammar_defs]:
  "rfc5322_obs_optional =
     RuleD ''RFC5322::obs_optional''
       (AndR [
          rfc5322_field_name, ZeroOrMore rfc5322_WSP, rfc5322_Colon, rfc5322_unstructured,
          rfc5322_CRLF])"

definition rfc5322_obs_fields_alt :: rule where [grammar_defs]:
  "rfc5322_obs_fields_alt =
     OrR [
       rfc5322_obs_return, rfc5322_obs_received, rfc5322_obs_orig_date, rfc5322_obs_from,
       rfc5322_obs_sender, rfc5322_obs_reply_to, rfc5322_obs_to, rfc5322_obs_cc,
       rfc5322_obs_bcc, rfc5322_obs_message_id, rfc5322_obs_in_reply_to,
       rfc5322_obs_references, rfc5322_obs_subject, rfc5322_obs_comments,
       rfc5322_obs_keywords, rfc5322_obs_resent_date, rfc5322_obs_resent_from,
       rfc5322_obs_resent_send, rfc5322_obs_resent_rply, rfc5322_obs_resent_to,
       rfc5322_obs_resent_cc, rfc5322_obs_resent_bcc, rfc5322_obs_resent_mid,
       rfc5322_obs_optional]"

definition rfc5322_obs_fields :: rule where [grammar_defs]:
  "rfc5322_obs_fields = RuleD ''RFC5322::obs_fields'' (ZeroOrMore rfc5322_obs_fields_alt)"

definition rfc5322_message_field :: rule where [grammar_defs]:
  "rfc5322_message_field =
     OrR [rfc5322_fields_block, rfc5322_fields_named, rfc5322_obs_fields_alt]"

definition rfc5322_message :: rule where [grammar_defs]:
  "rfc5322_message =
     RuleD ''RFC5322::message''
       (AndR [
          ZeroOrMore rfc5322_message_field, ZeroOrOne (AndR [rfc5322_CRLF, rfc5322_body])])"

subsection \<open>The grammar and its termination\<close>

text \<open>The one cycle: \<open>ccontent\<close> refers to the forward-declared \<open>comment\<close>.\<close>

definition rfc5322_grammar :: grammar where
  "rfc5322_grammar = [''RFC5322::comment'' \<mapsto> rfc5322_comment]"

lemmas rfc5322_cuts =
  rfc5322_CFWS_def rfc5322_obs_local_part_def rfc5322_local_part_def rfc5322_domain_def
  rfc5322_received_token_def rfc5322_date_def rfc5322_date_time_def rfc5322_obs_phrase_def
  rfc5322_name_addr_def rfc5322_group_def rfc5322_msg_id_def rfc5322_fields_resent_def
  rfc5322_fields_block_def rfc5322_keywords_def rfc5322_fields_named_def
  rfc5322_obs_phrase_list_def rfc5322_obs_fields_alt_def rfc5322_message_def

lemma complete_rfc5322_CFWS [guard_simps]:
  "complete D rfc5322_CFWS = (''RFC5322::comment'' \<in> D)"
  unfolding rfc5322_CFWS_def
  by (simp add: guard_simps grammar_defs del: rfc5322_cuts)

lemma complete_rfc5322_obs_local_part [guard_simps]:
  "complete D rfc5322_obs_local_part = (''RFC5322::comment'' \<in> D)"
  unfolding rfc5322_obs_local_part_def
  by (simp add: guard_simps grammar_defs del: rfc5322_cuts)

lemma complete_rfc5322_local_part [guard_simps]:
  "complete D rfc5322_local_part = (''RFC5322::comment'' \<in> D)"
  unfolding rfc5322_local_part_def
  by (simp add: guard_simps grammar_defs del: rfc5322_cuts)

lemma complete_rfc5322_domain [guard_simps]:
  "complete D rfc5322_domain = (''RFC5322::comment'' \<in> D)"
  unfolding rfc5322_domain_def
  by (simp add: guard_simps grammar_defs del: rfc5322_cuts)

lemma complete_rfc5322_received_token [guard_simps]:
  "complete D rfc5322_received_token = (''RFC5322::comment'' \<in> D)"
  unfolding rfc5322_received_token_def
  by (simp add: guard_simps grammar_defs del: rfc5322_cuts)

lemma complete_rfc5322_date [guard_simps]:
  "complete D rfc5322_date = (''RFC5322::comment'' \<in> D)"
  unfolding rfc5322_date_def
  by (simp add: guard_simps grammar_defs del: rfc5322_cuts)

lemma complete_rfc5322_date_time [guard_simps]:
  "complete D rfc5322_date_time = (''RFC5322::comment'' \<in> D)"
  unfolding rfc5322_date_time_def
  by (simp add: guard_simps grammar_defs del: rfc5322_cuts)

lemma complete_rfc5322_obs_phrase [guard_simps]:
  "complete D rfc5322_obs_phrase = (''RFC5322::comment'' \<in> D)"
  unfolding rfc5322_obs_phrase_def
  by (simp add: guard_simps grammar_defs del: rfc5322_cuts)

lemma complete_rfc5322_name_addr [guard_simps]:
  "complete D rfc5322_name_addr = (''RFC5322::comment'' \<in> D)"
  unfolding rfc5322_name_addr_def
  by (simp add: guard_simps grammar_defs del: rfc5322_cuts)

lemma complete_rfc5322_group [guard_simps]:
  "complete D rfc5322_group = (''RFC5322::comment'' \<in> D)"
  unfolding rfc5322_group_def
  by (simp add: guard_simps grammar_defs del: rfc5322_cuts)

lemma complete_rfc5322_msg_id [guard_simps]:
  "complete D rfc5322_msg_id = (''RFC5322::comment'' \<in> D)"
  unfolding rfc5322_msg_id_def
  by (simp add: guard_simps grammar_defs del: rfc5322_cuts)

lemma complete_rfc5322_fields_resent [guard_simps]:
  "complete D rfc5322_fields_resent = (''RFC5322::comment'' \<in> D)"
  unfolding rfc5322_fields_resent_def
  by (simp add: guard_simps grammar_defs del: rfc5322_cuts)

lemma complete_rfc5322_fields_block [guard_simps]:
  "complete D rfc5322_fields_block = (''RFC5322::comment'' \<in> D)"
  unfolding rfc5322_fields_block_def
  by (simp add: guard_simps grammar_defs del: rfc5322_cuts)

lemma complete_rfc5322_keywords [guard_simps]:
  "complete D rfc5322_keywords = (''RFC5322::comment'' \<in> D)"
  unfolding rfc5322_keywords_def
  by (simp add: guard_simps grammar_defs del: rfc5322_cuts)

lemma complete_rfc5322_fields_named [guard_simps]:
  "complete D rfc5322_fields_named = (''RFC5322::comment'' \<in> D)"
  unfolding rfc5322_fields_named_def
  by (simp add: guard_simps grammar_defs del: rfc5322_cuts)

lemma complete_rfc5322_obs_phrase_list [guard_simps]:
  "complete D rfc5322_obs_phrase_list = (''RFC5322::comment'' \<in> D)"
  unfolding rfc5322_obs_phrase_list_def
  by (simp add: guard_simps grammar_defs del: rfc5322_cuts)

lemma complete_rfc5322_obs_fields_alt [guard_simps]:
  "complete D rfc5322_obs_fields_alt = (''RFC5322::comment'' \<in> D)"
  unfolding rfc5322_obs_fields_alt_def
  by (simp add: guard_simps grammar_defs del: rfc5322_cuts)

lemma complete_rfc5322_message [guard_simps]:
  "complete D rfc5322_message = (''RFC5322::comment'' \<in> D)"
  unfolding rfc5322_message_def
  by (simp add: guard_simps grammar_defs del: rfc5322_cuts)

lemma complete_rfc5322_comment [guard_simps]:
  "complete D rfc5322_comment = (''RFC5322::comment'' \<in> D)"
  by (simp add: guard_simps grammar_defs)

lemma guarded_rfc5322_comment [guard_simps]: "guarded rfc5322_comment"
  by (simp add: rfc5322_comment_def rfc5322_OpenParan_def)

lemma rfc5322_well_founded: "well_founded_grammar rfc5322_grammar"
  by (simp add: well_founded_grammar_def rfc5322_grammar_def guard_simps)

text \<open>C40: parsing an Internet message always returns. With the mutually recursive comments of
  the grammar, one more unit of fuel than the length of the input is enough for every input.\<close>

theorem rfc5322_message_returns:
  "parse rfc5322_grammar (Suc (length it)) rfc5322_message ctx it \<noteq> None"
  by (rule parse_returns [OF rfc5322_well_founded])
    (simp_all add: rfc5322_grammar_def guard_simps)

subsection \<open>Unstructured header bodies\<close>

text \<open>The obsolete alternative of \<open>unstructured\<close> is dead. The first alternative matches the
  empty text, so \<open>obs_unstruct\<close> is never tried; a text with a NUL character, which
  \<open>obs_unstruct\<close> accepts, is rejected.\<close>

theorem rfc5322_obs_unstruct_dead:
  "(parser_accepts g rfc5322_unstructured False [] w \<longleftrightarrow>
      parser_accepts g (AndR [ZeroOrMore (AndR [ZeroOrOne rfc5322_FWS, rfc5322_VCHAR]),
        ZeroOrMore rfc5322_WSP]) False [] w) \<and>
   parser_accepts g rfc5322_obs_unstruct False [] [CHR 0x00] \<and>
   \<not> parser_accepts g rfc5322_unstructured False [] [CHR 0x00]"
proof -
  have c: "complete {} rfc5322_unstructured" "complete {} rfc5322_obs_unstruct"
    "complete {} (AndR [ZeroOrMore (AndR [ZeroOrOne rfc5322_FWS, rfc5322_VCHAR]),
        ZeroOrMore rfc5322_WSP])"
    by (simp_all add: grammar_defs)
  have "plain rfc5322_obs_unstruct [CHR 0x00] = Some []" by code_simp
  moreover have "plain rfc5322_unstructured [CHR 0x00] = Some [CHR 0x00]" by code_simp
  ultimately show ?thesis
    unfolding accepts_plain [OF c(1)] accepts_plain [OF c(2)] accepts_plain [OF c(3)]
    by (simp add: rfc5322_unstructured_def)
qed

end
