(* ===== verification/RFC3986.thy ===== *)
theory RFC3986
  imports RFC5234
begin

text \<open>
  Uniform resource identifiers, \<^verbatim>\<open>grammars/RFC3986.hpp\<close>: every terminal, alias and struct. Below
  the grammar: IPv4 addresses are exactly the dotted quads, \<open>host\<close> commits to an IPv4 prefix, and
  the later alternatives of \<open>path\<close> are dead.
\<close>

subsection \<open>Terminals\<close>

definition rfc3986_AlphaLower :: rule where [grammar_defs]:
  "rfc3986_AlphaLower = CharactersR (CHR ''a'') (CHR ''z'')"

definition rfc3986_AlphaUpper :: rule where [grammar_defs]:
  "rfc3986_AlphaUpper = CharactersR (CHR ''A'') (CHR ''Z'')"

definition rfc3986_Digit :: rule where [grammar_defs]:
  "rfc3986_Digit = CharactersR (CHR ''0'') (CHR ''9'')"

definition rfc3986_HexLower :: rule where [grammar_defs]:
  "rfc3986_HexLower = CharactersR (CHR ''a'') (CHR ''f'')"

definition rfc3986_HexUpper :: rule where [grammar_defs]:
  "rfc3986_HexUpper = CharactersR (CHR ''A'') (CHR ''F'')"

definition rfc3986_Colon :: rule where [grammar_defs]: "rfc3986_Colon = CharacterR (CHR '':'')"

definition rfc3986_ForwardSlash :: rule where [grammar_defs]:
  "rfc3986_ForwardSlash = CharacterR (CHR ''/'')"

definition rfc3986_Question :: rule where [grammar_defs]:
  "rfc3986_Question = CharacterR (CHR ''?'')"

definition rfc3986_Hash :: rule where [grammar_defs]: "rfc3986_Hash = CharacterR (CHR ''#'')"

definition rfc3986_OpenBracket :: rule where [grammar_defs]:
  "rfc3986_OpenBracket = CharacterR (CHR ''['')"

definition rfc3986_CloseBracket :: rule where [grammar_defs]:
  "rfc3986_CloseBracket = CharacterR (CHR '']'')"

definition rfc3986_At :: rule where [grammar_defs]: "rfc3986_At = CharacterR (CHR ''@'')"

definition rfc3986_Exclaimation :: rule where [grammar_defs]:
  "rfc3986_Exclaimation = CharacterR (CHR ''!'')"

definition rfc3986_Dollar :: rule where [grammar_defs]:
  "rfc3986_Dollar = CharacterR (CHR ''$'')"

definition rfc3986_Ampersand :: rule where [grammar_defs]:
  "rfc3986_Ampersand = CharacterR (CHR ''&'')"

definition rfc3986_SingleQuote :: rule where [grammar_defs]:
  "rfc3986_SingleQuote = CharacterR (CHR 0x27)"

definition rfc3986_OpenParan :: rule where [grammar_defs]:
  "rfc3986_OpenParan = CharacterR (CHR ''('')"

definition rfc3986_CloseParan :: rule where [grammar_defs]:
  "rfc3986_CloseParan = CharacterR (CHR '')'')"

definition rfc3986_Asterisk :: rule where [grammar_defs]:
  "rfc3986_Asterisk = CharacterR (CHR ''*'')"

definition rfc3986_Plus :: rule where [grammar_defs]: "rfc3986_Plus = CharacterR (CHR ''+'')"
definition rfc3986_Comma :: rule where [grammar_defs]: "rfc3986_Comma = CharacterR (CHR '','')"

definition rfc3986_SemiColon :: rule where [grammar_defs]:
  "rfc3986_SemiColon = CharacterR (CHR '';'')"

definition rfc3986_Equal :: rule where [grammar_defs]: "rfc3986_Equal = CharacterR (CHR ''='')"

definition rfc3986_Hyphen :: rule where [grammar_defs]:
  "rfc3986_Hyphen = CharacterR (CHR ''-'')"

definition rfc3986_Period :: rule where [grammar_defs]:
  "rfc3986_Period = CharacterR (CHR ''.'')"

definition rfc3986_UnderScore :: rule where [grammar_defs]:
  "rfc3986_UnderScore = CharacterR (CHR ''_'')"

definition rfc3986_Tilde :: rule where [grammar_defs]: "rfc3986_Tilde = CharacterR (CHR ''~'')"

definition rfc3986_Percent :: rule where [grammar_defs]:
  "rfc3986_Percent = CharacterR (CHR ''%'')"

definition rfc3986_v_char :: rule where [grammar_defs]:
  "rfc3986_v_char = CharacterR (CHR ''v'')"

definition rfc3986_0 :: rule where [grammar_defs]: "rfc3986_0 = CharacterR (CHR ''0'')"
definition rfc3986_1 :: rule where [grammar_defs]: "rfc3986_1 = CharacterR (CHR ''1'')"
definition rfc3986_2 :: rule where [grammar_defs]: "rfc3986_2 = CharacterR (CHR ''2'')"
definition rfc3986_3 :: rule where [grammar_defs]: "rfc3986_3 = CharacterR (CHR ''3'')"
definition rfc3986_4 :: rule where [grammar_defs]: "rfc3986_4 = CharacterR (CHR ''4'')"
definition rfc3986_5 :: rule where [grammar_defs]: "rfc3986_5 = CharacterR (CHR ''5'')"
definition rfc3986_6 :: rule where [grammar_defs]: "rfc3986_6 = CharacterR (CHR ''6'')"
definition rfc3986_7 :: rule where [grammar_defs]: "rfc3986_7 = CharacterR (CHR ''7'')"
definition rfc3986_8 :: rule where [grammar_defs]: "rfc3986_8 = CharacterR (CHR ''8'')"
definition rfc3986_9 :: rule where [grammar_defs]: "rfc3986_9 = CharacterR (CHR ''9'')"

definition rfc3986_DoubleForwardSlash :: rule where [grammar_defs]:
  "rfc3986_DoubleForwardSlash = StringR ''//''"

definition rfc3986_ColonColon :: rule where [grammar_defs]:
  "rfc3986_ColonColon = StringR ''::''"

definition rfc3986_25 :: rule where [grammar_defs]: "rfc3986_25 = StringR ''25''"

definition rfc3986_Alpha :: rule where [grammar_defs]:
  "rfc3986_Alpha = OrR [rfc3986_AlphaLower, rfc3986_AlphaUpper]"

definition rfc3986_AlphaNumeric :: rule where [grammar_defs]:
  "rfc3986_AlphaNumeric = OrR [rfc3986_Alpha, rfc3986_Digit]"

definition rfc3986_HexDigit :: rule where [grammar_defs]:
  "rfc3986_HexDigit = OrR [rfc3986_Digit, rfc3986_HexLower, rfc3986_HexUpper]"

subsection \<open>Character classes\<close>

definition rfc3986_gen_delims :: rule where [grammar_defs]:
  "rfc3986_gen_delims =
     OrR [
       rfc3986_Colon, rfc3986_ForwardSlash, rfc3986_Question, rfc3986_Hash,
       rfc3986_OpenBracket, rfc3986_CloseBracket, rfc3986_At]"

definition rfc3986_sub_delims :: rule where [grammar_defs]:
  "rfc3986_sub_delims =
     OrR [
       rfc3986_Exclaimation, rfc3986_Dollar, rfc3986_Ampersand, rfc3986_SingleQuote,
       rfc3986_OpenParan, rfc3986_CloseParan, rfc3986_Asterisk, rfc3986_Plus, rfc3986_Comma,
       rfc3986_SemiColon, rfc3986_Equal]"

definition rfc3986_unreserved :: rule where [grammar_defs]:
  "rfc3986_unreserved =
     OrR [
       rfc3986_AlphaNumeric, rfc3986_Hyphen, rfc3986_Period, rfc3986_UnderScore,
       rfc3986_Tilde]"

definition rfc3986_reserved :: rule where [grammar_defs]:
  "rfc3986_reserved = OrR [rfc3986_gen_delims, rfc3986_sub_delims]"

subsection \<open>Rules\<close>

definition rfc3986_h16 :: rule where [grammar_defs]:
  "rfc3986_h16 =
     OrR [
       AndR [rfc3986_HexDigit, rfc3986_HexDigit, rfc3986_HexDigit, rfc3986_HexDigit],
       AndR [rfc3986_HexDigit, rfc3986_HexDigit, rfc3986_HexDigit],
       AndR [rfc3986_HexDigit, rfc3986_HexDigit], rfc3986_HexDigit]"

definition rfc3986_pct_encoded :: rule where [grammar_defs]:
  "rfc3986_pct_encoded =
     RuleD ''RFC3986::pct_encoded''
       (AndR [rfc3986_Percent, rfc3986_HexDigit, rfc3986_HexDigit])"

definition rfc3986_scheme :: rule where [grammar_defs]:
  "rfc3986_scheme =
     RuleD ''RFC3986::scheme''
       (AndR [
          rfc3986_Alpha,
          ZeroOrMore
            (OrR [rfc3986_AlphaNumeric, rfc3986_Plus, rfc3986_Hyphen, rfc3986_Period])])"

definition rfc3986_userinfo :: rule where [grammar_defs]:
  "rfc3986_userinfo =
     RuleD ''RFC3986::userinfo''
       (ZeroOrMore
         (OrR [rfc3986_unreserved, rfc3986_pct_encoded, rfc3986_sub_delims, rfc3986_Colon]))"

definition rfc3986_port :: rule where [grammar_defs]:
  "rfc3986_port = RuleD ''RFC3986::port'' (ZeroOrMore rfc3986_Digit)"

definition rfc3986_dec_octet :: rule where [grammar_defs]:
  "rfc3986_dec_octet =
     RuleD ''RFC3986::dec_octet''
       (OrR [
          AndR [
            rfc3986_25,
            OrR [rfc3986_0, rfc3986_1, rfc3986_2, rfc3986_3, rfc3986_4, rfc3986_5]],
          AndR [
            rfc3986_2, OrR [rfc3986_0, rfc3986_1, rfc3986_2, rfc3986_3, rfc3986_4],
            rfc3986_Digit],
          AndR [rfc3986_1, rfc3986_Digit, rfc3986_Digit],
          AndR [
            OrR [
              rfc3986_1, rfc3986_2, rfc3986_3, rfc3986_4, rfc3986_5, rfc3986_6, rfc3986_7,
              rfc3986_8, rfc3986_9],
            rfc3986_Digit],
          rfc3986_Digit])"

definition rfc3986_IPv4address :: rule where [grammar_defs]:
  "rfc3986_IPv4address =
     RuleD ''RFC3986::IPv4address''
       (AndR [
          rfc3986_dec_octet, rfc3986_Period, rfc3986_dec_octet, rfc3986_Period,
          rfc3986_dec_octet, rfc3986_Period, rfc3986_dec_octet])"

definition rfc3986_ls32 :: rule where [grammar_defs]:
  "rfc3986_ls32 =
     RuleD ''RFC3986::ls32''
       (OrR [rfc3986_IPv4address, AndR [rfc3986_h16, rfc3986_Colon, rfc3986_h16]])"

definition rfc3986_ipv6_pref1 :: rule where [grammar_defs]:
  "rfc3986_ipv6_pref1 =
     ZeroOrOne (OrR [AndR [rfc3986_h16, rfc3986_Colon, rfc3986_h16], rfc3986_h16])"

definition rfc3986_ipv6_pref2 :: rule where [grammar_defs]:
  "rfc3986_ipv6_pref2 =
     ZeroOrOne
       (OrR [
          AndR [rfc3986_h16, rfc3986_Colon, rfc3986_h16, rfc3986_Colon, rfc3986_h16],
          AndR [rfc3986_h16, rfc3986_Colon, rfc3986_h16], rfc3986_h16])"

definition rfc3986_ipv6_pref3 :: rule where [grammar_defs]:
  "rfc3986_ipv6_pref3 =
     ZeroOrOne
       (OrR [
          AndR [
            rfc3986_h16, rfc3986_Colon, rfc3986_h16, rfc3986_Colon, rfc3986_h16,
            rfc3986_Colon, rfc3986_h16],
          AndR [rfc3986_h16, rfc3986_Colon, rfc3986_h16, rfc3986_Colon, rfc3986_h16],
          AndR [rfc3986_h16, rfc3986_Colon, rfc3986_h16], rfc3986_h16])"

definition rfc3986_ipv6_pref4 :: rule where [grammar_defs]:
  "rfc3986_ipv6_pref4 =
     ZeroOrOne
       (OrR [
          AndR [
            rfc3986_h16, rfc3986_Colon, rfc3986_h16, rfc3986_Colon, rfc3986_h16,
            rfc3986_Colon, rfc3986_h16, rfc3986_Colon, rfc3986_h16],
          AndR [
            rfc3986_h16, rfc3986_Colon, rfc3986_h16, rfc3986_Colon, rfc3986_h16,
            rfc3986_Colon, rfc3986_h16],
          AndR [rfc3986_h16, rfc3986_Colon, rfc3986_h16, rfc3986_Colon, rfc3986_h16],
          AndR [rfc3986_h16, rfc3986_Colon, rfc3986_h16], rfc3986_h16])"

definition rfc3986_ipv6_pref5 :: rule where [grammar_defs]:
  "rfc3986_ipv6_pref5 =
     ZeroOrOne
       (OrR [
          AndR [
            rfc3986_h16, rfc3986_Colon, rfc3986_h16, rfc3986_Colon, rfc3986_h16,
            rfc3986_Colon, rfc3986_h16, rfc3986_Colon, rfc3986_h16, rfc3986_Colon,
            rfc3986_h16],
          AndR [
            rfc3986_h16, rfc3986_Colon, rfc3986_h16, rfc3986_Colon, rfc3986_h16,
            rfc3986_Colon, rfc3986_h16, rfc3986_Colon, rfc3986_h16],
          AndR [
            rfc3986_h16, rfc3986_Colon, rfc3986_h16, rfc3986_Colon, rfc3986_h16,
            rfc3986_Colon, rfc3986_h16],
          AndR [rfc3986_h16, rfc3986_Colon, rfc3986_h16, rfc3986_Colon, rfc3986_h16],
          AndR [rfc3986_h16, rfc3986_Colon, rfc3986_h16], rfc3986_h16])"

definition rfc3986_ipv6_pref6 :: rule where [grammar_defs]:
  "rfc3986_ipv6_pref6 =
     ZeroOrOne
       (OrR [
          AndR [
            rfc3986_h16, rfc3986_Colon, rfc3986_h16, rfc3986_Colon, rfc3986_h16,
            rfc3986_Colon, rfc3986_h16, rfc3986_Colon, rfc3986_h16, rfc3986_Colon,
            rfc3986_h16, rfc3986_Colon, rfc3986_h16],
          AndR [
            rfc3986_h16, rfc3986_Colon, rfc3986_h16, rfc3986_Colon, rfc3986_h16,
            rfc3986_Colon, rfc3986_h16, rfc3986_Colon, rfc3986_h16, rfc3986_Colon,
            rfc3986_h16],
          AndR [
            rfc3986_h16, rfc3986_Colon, rfc3986_h16, rfc3986_Colon, rfc3986_h16,
            rfc3986_Colon, rfc3986_h16, rfc3986_Colon, rfc3986_h16],
          AndR [
            rfc3986_h16, rfc3986_Colon, rfc3986_h16, rfc3986_Colon, rfc3986_h16,
            rfc3986_Colon, rfc3986_h16],
          AndR [rfc3986_h16, rfc3986_Colon, rfc3986_h16, rfc3986_Colon, rfc3986_h16],
          AndR [rfc3986_h16, rfc3986_Colon, rfc3986_h16], rfc3986_h16])"

definition rfc3986_ipv6_form1 :: rule where [grammar_defs]:
  "rfc3986_ipv6_form1 =
     AndR [
       rfc3986_h16, rfc3986_Colon, rfc3986_h16, rfc3986_Colon, rfc3986_h16, rfc3986_Colon,
       rfc3986_h16, rfc3986_Colon, rfc3986_h16, rfc3986_Colon, rfc3986_h16, rfc3986_Colon,
       rfc3986_ls32]"

definition rfc3986_ipv6_form2 :: rule where [grammar_defs]:
  "rfc3986_ipv6_form2 =
     AndR [
       rfc3986_ColonColon, rfc3986_h16, rfc3986_Colon, rfc3986_h16, rfc3986_Colon,
       rfc3986_h16, rfc3986_Colon, rfc3986_h16, rfc3986_Colon, rfc3986_h16, rfc3986_Colon,
       rfc3986_ls32]"

definition rfc3986_ipv6_form3 :: rule where [grammar_defs]:
  "rfc3986_ipv6_form3 =
     AndR [
       ZeroOrOne rfc3986_h16, rfc3986_ColonColon, rfc3986_h16, rfc3986_Colon, rfc3986_h16,
       rfc3986_Colon, rfc3986_h16, rfc3986_Colon, rfc3986_h16, rfc3986_Colon, rfc3986_ls32]"

definition rfc3986_ipv6_form4 :: rule where [grammar_defs]:
  "rfc3986_ipv6_form4 =
     AndR [
       rfc3986_ipv6_pref1, rfc3986_ColonColon, rfc3986_h16, rfc3986_Colon, rfc3986_h16,
       rfc3986_Colon, rfc3986_h16, rfc3986_Colon, rfc3986_ls32]"

definition rfc3986_ipv6_form5 :: rule where [grammar_defs]:
  "rfc3986_ipv6_form5 =
     AndR [
       rfc3986_ipv6_pref2, rfc3986_ColonColon, rfc3986_h16, rfc3986_Colon, rfc3986_h16,
       rfc3986_Colon, rfc3986_ls32]"

definition rfc3986_ipv6_form6 :: rule where [grammar_defs]:
  "rfc3986_ipv6_form6 =
     AndR [rfc3986_ipv6_pref3, rfc3986_ColonColon, rfc3986_h16, rfc3986_Colon, rfc3986_ls32]"

definition rfc3986_ipv6_form7 :: rule where [grammar_defs]:
  "rfc3986_ipv6_form7 = AndR [rfc3986_ipv6_pref4, rfc3986_ColonColon, rfc3986_ls32]"

definition rfc3986_ipv6_form8 :: rule where [grammar_defs]:
  "rfc3986_ipv6_form8 = AndR [rfc3986_ipv6_pref5, rfc3986_ColonColon, rfc3986_h16]"

definition rfc3986_ipv6_form9 :: rule where [grammar_defs]:
  "rfc3986_ipv6_form9 = AndR [rfc3986_ipv6_pref6, rfc3986_ColonColon]"

definition rfc3986_IPv6address :: rule where [grammar_defs]:
  "rfc3986_IPv6address =
     RuleD ''RFC3986::IPv6address''
       (OrR [
          rfc3986_ipv6_form1, rfc3986_ipv6_form2, rfc3986_ipv6_form3, rfc3986_ipv6_form4,
          rfc3986_ipv6_form5, rfc3986_ipv6_form6, rfc3986_ipv6_form7, rfc3986_ipv6_form8,
          rfc3986_ipv6_form9])"

definition rfc3986_IPvFuture :: rule where [grammar_defs]:
  "rfc3986_IPvFuture =
     RuleD ''RFC3986::IPvFuture''
       (AndR [
          rfc3986_v_char, OneOrMore rfc3986_HexDigit, rfc3986_Period,
          OneOrMore (OrR [rfc3986_unreserved, rfc3986_sub_delims, rfc3986_Colon])])"

definition rfc3986_IP_literal :: rule where [grammar_defs]:
  "rfc3986_IP_literal =
     RuleD ''RFC3986::IP_literal''
       (AndR [
          rfc3986_OpenBracket, OrR [rfc3986_IPv6address, rfc3986_IPvFuture],
          rfc3986_CloseBracket])"

definition rfc3986_reg_name :: rule where [grammar_defs]:
  "rfc3986_reg_name =
     RuleD ''RFC3986::reg_name''
       (ZeroOrMore (OrR [rfc3986_unreserved, rfc3986_pct_encoded, rfc3986_sub_delims]))"

definition rfc3986_host :: rule where [grammar_defs]:
  "rfc3986_host =
     RuleD ''RFC3986::host'' (OrR [rfc3986_IP_literal, rfc3986_IPv4address, rfc3986_reg_name])"

definition rfc3986_authority :: rule where [grammar_defs]:
  "rfc3986_authority =
     RuleD ''RFC3986::authority''
       (AndR [
          ZeroOrOne (AndR [rfc3986_userinfo, rfc3986_At]), rfc3986_host,
          ZeroOrOne (AndR [rfc3986_Colon, rfc3986_port])])"

definition rfc3986_pchar :: rule where [grammar_defs]:
  "rfc3986_pchar =
     RuleD ''RFC3986::pchar''
       (OrR [
          rfc3986_unreserved, rfc3986_pct_encoded, rfc3986_sub_delims, rfc3986_Colon,
          rfc3986_At])"

definition rfc3986_segment :: rule where [grammar_defs]:
  "rfc3986_segment = RuleD ''RFC3986::segment'' (ZeroOrMore rfc3986_pchar)"

definition rfc3986_segment_nz :: rule where [grammar_defs]:
  "rfc3986_segment_nz = RuleD ''RFC3986::segment_nz'' (OneOrMore rfc3986_pchar)"

definition rfc3986_segment_nz_nc :: rule where [grammar_defs]:
  "rfc3986_segment_nz_nc =
     RuleD ''RFC3986::segment_nz_nc''
       (OneOrMore
         (OrR [rfc3986_unreserved, rfc3986_pct_encoded, rfc3986_sub_delims, rfc3986_At]))"

definition rfc3986_path_empty :: rule where [grammar_defs]:
  "rfc3986_path_empty = RuleE ''RFC3986::path_empty''"

definition rfc3986_path_abempty :: rule where [grammar_defs]:
  "rfc3986_path_abempty =
     RuleD ''RFC3986::path_abempty''
       (ZeroOrMore (AndR [rfc3986_ForwardSlash, rfc3986_segment]))"

definition rfc3986_path_absolute :: rule where [grammar_defs]:
  "rfc3986_path_absolute =
     RuleD ''RFC3986::path_absolute''
       (AndR [
          rfc3986_ForwardSlash,
          ZeroOrOne
            (AndR [
               rfc3986_segment_nz, ZeroOrMore (AndR [rfc3986_ForwardSlash, rfc3986_segment])])])"

definition rfc3986_path_noscheme :: rule where [grammar_defs]:
  "rfc3986_path_noscheme =
     RuleD ''RFC3986::path_noscheme''
       (AndR [
          rfc3986_segment_nz_nc, ZeroOrMore (AndR [rfc3986_ForwardSlash, rfc3986_segment])])"

definition rfc3986_path_rootless :: rule where [grammar_defs]:
  "rfc3986_path_rootless =
     RuleD ''RFC3986::path_rootless''
       (AndR [rfc3986_segment_nz, ZeroOrMore (AndR [rfc3986_ForwardSlash, rfc3986_segment])])"

definition rfc3986_path :: rule where [grammar_defs]:
  "rfc3986_path =
     RuleD ''RFC3986::path''
       (OrR [
          rfc3986_path_abempty, rfc3986_path_absolute, rfc3986_path_noscheme,
          rfc3986_path_rootless, rfc3986_path_empty])"

definition rfc3986_query :: rule where [grammar_defs]:
  "rfc3986_query =
     RuleD ''RFC3986::query''
       (ZeroOrMore (OrR [rfc3986_pchar, rfc3986_ForwardSlash, rfc3986_Question]))"

definition rfc3986_fragment :: rule where [grammar_defs]:
  "rfc3986_fragment =
     RuleD ''RFC3986::fragment''
       (ZeroOrMore (OrR [rfc3986_pchar, rfc3986_ForwardSlash, rfc3986_Question]))"

definition rfc3986_hier_part :: rule where [grammar_defs]:
  "rfc3986_hier_part =
     RuleD ''RFC3986::hier_part''
       (OrR [
          AndR [rfc3986_DoubleForwardSlash, rfc3986_authority, rfc3986_path_abempty],
          rfc3986_path_absolute, rfc3986_path_rootless, rfc3986_path_empty])"

definition rfc3986_relative_part :: rule where [grammar_defs]:
  "rfc3986_relative_part =
     RuleD ''RFC3986::relative_part''
       (OrR [
          AndR [rfc3986_DoubleForwardSlash, rfc3986_authority, rfc3986_path_abempty],
          rfc3986_path_absolute, rfc3986_path_noscheme, rfc3986_path_empty])"

definition rfc3986_URI :: rule where [grammar_defs]:
  "rfc3986_URI =
     RuleD ''RFC3986::URI''
       (AndR [
          rfc3986_scheme, rfc3986_Colon, rfc3986_hier_part,
          ZeroOrOne (AndR [rfc3986_Question, rfc3986_query]),
          ZeroOrOne (AndR [rfc3986_Hash, rfc3986_fragment])])"

definition rfc3986_absolute_URI :: rule where [grammar_defs]:
  "rfc3986_absolute_URI =
     RuleD ''RFC3986::absolute_URI''
       (AndR [
          rfc3986_scheme, rfc3986_Colon, rfc3986_hier_part,
          ZeroOrOne (AndR [rfc3986_Question, rfc3986_query])])"

definition rfc3986_relative_ref :: rule where [grammar_defs]:
  "rfc3986_relative_ref =
     RuleD ''RFC3986::relative_ref''
       (AndR [
          rfc3986_relative_part, ZeroOrOne (AndR [rfc3986_Question, rfc3986_query]),
          ZeroOrOne (AndR [rfc3986_Hash, rfc3986_fragment])])"

definition rfc3986_URI_reference :: rule where [grammar_defs]:
  "rfc3986_URI_reference =
     RuleD ''RFC3986::URI_reference'' (OrR [rfc3986_URI, rfc3986_relative_ref])"

subsection \<open>No rule refers to itself\<close>

lemmas rfc3986_cuts = rfc3986_h16_def rfc3986_ls32_def rfc3986_IPv6address_def
  rfc3986_hier_part_def rfc3986_relative_part_def rfc3986_URI_def rfc3986_URI_reference_def

lemma complete_rfc3986_h16 [guard_simps]: "complete D rfc3986_h16"
  by (simp add: grammar_defs)

lemma complete_rfc3986_ls32 [guard_simps]: "complete D rfc3986_ls32"
  unfolding rfc3986_ls32_def by (simp add: guard_simps grammar_defs del: rfc3986_cuts)

lemma complete_rfc3986_IPv6address [guard_simps]: "complete D rfc3986_IPv6address"
  unfolding rfc3986_IPv6address_def by (simp add: guard_simps grammar_defs del: rfc3986_cuts)

lemma complete_rfc3986_parts [guard_simps]:
  "complete D rfc3986_hier_part" "complete D rfc3986_relative_part"
  unfolding rfc3986_hier_part_def rfc3986_relative_part_def
  by (simp_all add: guard_simps grammar_defs del: rfc3986_cuts)

lemma complete_rfc3986_URI [guard_simps]: "complete D rfc3986_URI"
  unfolding rfc3986_URI_def by (simp add: guard_simps grammar_defs del: rfc3986_cuts)

lemma complete_rfc3986_URI_reference [guard_simps]: "complete D rfc3986_URI_reference"
  unfolding rfc3986_URI_reference_def
  by (simp add: guard_simps grammar_defs del: rfc3986_cuts)

subsection \<open>IPv4 addresses\<close>

text \<open>A decimal number from 0 to 255, without leading zeros.\<close>

definition decimal_octet :: "string \<Rightarrow> bool" where
  "decimal_octet w \<longleftrightarrow> w \<noteq> [] \<and> list_all is_digit w \<and> (length w = 1 \<or> hd w \<noteq> CHR ''0'') \<and>
     dec_value w \<le> 255"

lemma decimal_octet_3: "decimal_octet (a # b # c # d # w) = False"
proof -
  have "decimal_octet (a # b # c # d # w) \<Longrightarrow> 1000 * (of_char a - 48) \<le> (255::nat)"
    using dec_value_mono [of "10 * (10 * (10 * (10 * 0 + (of_char a - 48)) + (of_char b - 48)) + (of_char c - 48)) + (of_char d - 48)" w]
    by (simp add: decimal_octet_def dec_value_def)
  then show ?thesis
    by (auto simp: decimal_octet_def is_digit_code char_eq_code [of a])
qed

lemma plain_dec_octet: "plain rfc3986_dec_octet = alt_fn [
    seq_fn [literal_fn ''25'', class_fn (\<lambda>x. is_digit x \<and> x \<le> CHR ''5'')],
    seq_fn [class_fn (\<lambda>x. x = CHR ''2''), class_fn (\<lambda>x. is_digit x \<and> x \<le> CHR ''4''),
            class_fn is_digit],
    seq_fn [class_fn (\<lambda>x. x = CHR ''1''), class_fn is_digit, class_fn is_digit],
    seq_fn [class_fn (\<lambda>x. is_digit x \<and> x \<noteq> CHR ''0''), class_fn is_digit],
    class_fn is_digit]"
proof -
  have four: "list_ex (\<lambda>d. x = d) ''01234'' \<longleftrightarrow> is_digit x \<and> x \<le> CHR ''4''" for x
    unfolding char_eq_code less_eq_char_def is_digit_code by (simp del: of_char_eq_iff) presburger
  have five: "is_digit x \<and> x \<le> CHR ''4'' \<or> x = CHR ''5'' \<longleftrightarrow> is_digit x \<and> x \<le> CHR ''5''" for x
    unfolding char_eq_code less_eq_char_def is_digit_code by auto
  have nine: "list_ex (\<lambda>d. x = d) ''123456789'' \<longleftrightarrow> is_digit x \<and> x \<noteq> CHR ''0''" for x
    unfolding char_eq_code is_digit_code by (simp del: of_char_eq_iff) presburger
  have digit: "in_range CHR ''0'' CHR ''9'' = is_digit"
    by (simp add: in_range_ascii is_digit_def [abs_def])
  show ?thesis
    by (simp add: grammar_defs plain_class plain_string alt_fn_class four [simplified] five nine [simplified] digit
        del: alt_fn.simps seq_fn.simps plain.simps)
qed

lemma literal_25_simps:
  "literal_fn ''25'' [] = None" "literal_fn ''25'' [a] = None"
  "literal_fn ''25'' (a # b # s) = (if a = CHR ''2'' \<and> b = CHR ''5'' then Some s else None)"
  by (auto simp: literal_fn_def char_match_def)

lemma decimal_octet_short:
  "decimal_octet [] = False"
  "decimal_octet [a] = is_digit a"
  "decimal_octet [a, b] = (is_digit a \<and> a \<noteq> CHR ''0'' \<and> is_digit b)"
  by (auto simp: decimal_octet_def dec_value_def is_digit_code)

lemma decimal_octet_triple:
  "decimal_octet [a, b, c] = (is_digit a \<and> a \<noteq> CHR ''0'' \<and> is_digit b \<and> is_digit c \<and>
     (a = CHR ''1'' \<or> a = CHR ''2'' \<and> (b \<le> CHR ''4'' \<or> b = CHR ''5'' \<and> c \<le> CHR ''5'')))"
  unfolding decimal_octet_def dec_value_def is_digit_code char_eq_code less_eq_char_def
  by (simp, arith)

lemma dec_octet_reader: "word_reader (CHR ''.'') decimal_octet (plain rfc3986_dec_octet)"
proof (rule word_readerI)
  fix s :: iter
  have const: "\<not> is_digit (CHR ''.'')" "is_digit (CHR ''1'')" "is_digit (CHR ''2'')"
    "is_digit (CHR ''5'')" "\<not> CHR ''5'' \<le> CHR ''4''" by code_simp+
  note eval = plain_dec_octet literal_25_simps decimal_octet_short decimal_octet_triple
    decimal_octet_3 const
  have s: "s = [] \<or> (\<exists>a. s = [a]) \<or> (\<exists>a b. s = [a, b]) \<or> (\<exists>a b c. s = [a, b, c]) \<or>
      (\<exists>a b c d r. s = a # b # c # d # r)"
    by (metis list.exhaust)
  show "plain rfc3986_dec_octet s = Some (dropWhile (\<lambda>c. c \<noteq> CHR ''.'') s)"
    if "decimal_octet (takeWhile (\<lambda>c. c \<noteq> CHR ''.'') s)"
    using s that by (elim disjE exE) (auto simp: eval split: if_splits)
  show "suffix i s \<and> i \<noteq> [] \<and> hd i \<noteq> CHR ''.''"
    if "\<not> decimal_octet (takeWhile (\<lambda>c. c \<noteq> CHR ''.'') s)" "plain rfc3986_dec_octet s = Some i" for i
    using s that by (elim disjE exE) (auto simp: eval suffix_def split: if_splits)
qed (simp add: decimal_octet_def)

lemma plain_IPv4address: "plain rfc3986_IPv4address =
    seq_fn (plain rfc3986_dec_octet #
      concat (replicate 3 [class_fn (\<lambda>x. x = CHR ''.''), plain rfc3986_dec_octet]))"
  by (simp add: rfc3986_IPv4address_def rfc3986_Period_def plain_class numeral_3_eq_3
      del: seq_fn.simps plain.simps)

text \<open>C39: the IPv4 rule of RFC 3986 accepts exactly four dot-separated decimal numbers from 0 to
  255 without leading zeros. The ordered alternatives of \<open>dec_octet\<close> lose no octet and let none
  above 255 pass.\<close>

theorem rfc3986_ipv4_language:
  "parser_accepts g rfc3986_IPv4address False [] w \<longleftrightarrow>
     length (split_on (CHR ''.'') w) = 4 \<and> list_all decimal_octet (split_on (CHR ''.'') w)"
proof -
  have c: "complete {} rfc3986_IPv4address" by (simp add: grammar_defs)
  show ?thesis
    unfolding accepts_plain [OF c] plain_IPv4address words_seq [OF dec_octet_reader]
    by (simp add: eval_nat_numeral)
qed

subsection \<open>Hosts and paths\<close>

definition name_char :: "char \<Rightarrow> bool" where
  "name_char c \<longleftrightarrow> is_letter c \<or> is_digit c \<or> c = CHR ''-'' \<or> c = CHR ''.'' \<or> c = CHR ''_'' \<or> c = CHR ''~''"

lemma plain_unreserved: "plain rfc3986_unreserved = class_fn name_char"
  by (simp add: rfc3986_unreserved_def rfc3986_AlphaNumeric_def rfc3986_Alpha_def
      rfc3986_AlphaLower_def rfc3986_AlphaUpper_def rfc3986_Digit_def rfc3986_Hyphen_def
      rfc3986_Period_def rfc3986_UnderScore_def rfc3986_Tilde_def plain_class alt_fn_class
      in_range_ascii name_char_def [abs_def] is_letter_def is_digit_def del: alt_fn.simps)

lemma reg_name_reads: "list_all name_char s \<Longrightarrow> plain rfc3986_reg_name s = Some []"
  by (simp add: rfc3986_reg_name_def)
    (rule star_fn_all [of name_char], simp_all add: plain_unreserved)

text \<open>A host name that continues a dotted quad is rejected. Once the IPv4 alternative of
  \<open>host\<close> has matched four octets it is final, so a registered name such as
  \<open>192.168.0.1.example\<close>, which \<open>reg_name\<close> alone accepts, is no host for the parser.\<close>

theorem rfc3986_host_commits_to_ipv4:
  assumes "length (split_on (CHR ''.'') w) = 4" and "list_all decimal_octet (split_on (CHR ''.'') w)"
    and "list_all name_char y"
  shows "\<not> parser_accepts g rfc3986_host False [] (w @ CHR ''.'' # y) \<and>
    parser_accepts g rfc3986_reg_name False [] (w @ CHR ''.'' # y)"
proof -
  have c: "complete {} rfc3986_host" "complete {} rfc3986_reg_name"
    by (simp_all add: grammar_defs guard_simps del: rfc3986_cuts)
  have quad: "plain rfc3986_IPv4address (w @ CHR ''.'' # y) = Some (CHR ''.'' # y)"
    using words_seq_prefix [OF dec_octet_reader, of w 3 y] assms
    by (simp add: plain_IPv4address eval_nat_numeral del: seq_fn.simps)
  have digits: "list_all is_digit v" if "decimal_octet v" for v
    using that by (simp add: decimal_octet_def)
  have chars: "list_all name_char w" using assms(2)
    by (intro split_on_chars [where d = "CHR ''.''"])
      (auto simp: name_char_def list_all_iff decimal_octet_def)
  have "plain rfc3986_IP_literal (w @ CHR ''.'' # y) = None"
    using chars by (cases w) (auto simp: rfc3986_IP_literal_def rfc3986_OpenBracket_def name_char_def is_letter_def is_digit_def less_eq_char_def)
  with quad have "plain rfc3986_host (w @ CHR ''.'' # y) = Some (CHR ''.'' # y)"
    by (simp add: rfc3986_host_def)
  moreover have "plain rfc3986_reg_name (w @ CHR ''.'' # y) = Some []"
    using chars assms(3) by (intro reg_name_reads) (simp add: name_char_def)
  ultimately show ?thesis by (simp add: accepts_plain [OF c(1)] accepts_plain [OF c(2)])
qed

theorem rfc3986_host_commits_to_ipv4_witness:
  "\<not> parser_accepts Map.empty rfc3986_host False [] ''192.168.0.1.example'' \<and>
    parser_accepts Map.empty rfc3986_reg_name False [] ''192.168.0.1.example''"
  using rfc3986_host_commits_to_ipv4 [of "''192.168.0.1''" "''example''" Map.empty]
  by (simp add: decimal_octet_def dec_value_def is_digit_def is_letter_def name_char_def less_eq_char_def)

text \<open>The alternatives of \<open>path\<close> after the first are dead. \<open>path_abempty\<close> matches the empty
  text, so \<open>path\<close> accepts what it accepts and never tries the absolute, noscheme, rootless and
  empty forms.\<close>

theorem rfc3986_path_is_abempty:
  "parser_accepts g rfc3986_path False [] w \<longleftrightarrow> parser_accepts g rfc3986_path_abempty False [] w"
proof -
  have c: "complete {} rfc3986_path" "complete {} rfc3986_path_abempty"
    by (simp_all add: grammar_defs)
  show ?thesis unfolding accepts_plain [OF c(1)] accepts_plain [OF c(2)]
    by (simp add: rfc3986_path_def rfc3986_path_abempty_def)
qed

end
