(* ===== verification/RFC7230.thy ===== *)
theory RFC7230
  imports RFC3986 RFC5234
begin

text \<open>
  HTTP message syntax, \<^verbatim>\<open>grammars/RFC7230.hpp\<close>. \<open>comment\<close> refers to itself, which the grammar
  \<open>rfc7230_grammar\<close> ties. Below: parsing a message returns, and the chunk rule matches nothing.
\<close>

subsection \<open>Imports from RFC5234\<close>

definition rfc7230_CR :: rule where [grammar_defs]: "rfc7230_CR = rfc5234_CR"
definition rfc7230_LF :: rule where [grammar_defs]: "rfc7230_LF = rfc5234_LF"
definition rfc7230_CRLF :: rule where [grammar_defs]: "rfc7230_CRLF = rfc5234_CRLF"
definition rfc7230_SP :: rule where [grammar_defs]: "rfc7230_SP = rfc5234_SP"
definition rfc7230_HTAB :: rule where [grammar_defs]: "rfc7230_HTAB = rfc5234_HTAB"
definition rfc7230_DIGIT :: rule where [grammar_defs]: "rfc7230_DIGIT = rfc5234_DIGIT"
definition rfc7230_ALPHA :: rule where [grammar_defs]: "rfc7230_ALPHA = rfc5234_ALPHA"
definition rfc7230_VCHAR :: rule where [grammar_defs]: "rfc7230_VCHAR = rfc5234_VCHAR"
definition rfc7230_HEXDIG :: rule where [grammar_defs]: "rfc7230_HEXDIG = rfc5234_HEXDIG"
definition rfc7230_DQUOTE :: rule where [grammar_defs]: "rfc7230_DQUOTE = rfc5234_DQUOTE"

subsection \<open>Imports from RFC3986\<close>

definition rfc7230_absolute_URI :: rule where [grammar_defs]:
  "rfc7230_absolute_URI = rfc3986_absolute_URI"

definition rfc7230_authority :: rule where [grammar_defs]:
  "rfc7230_authority = rfc3986_authority"

definition rfc7230_fragment :: rule where [grammar_defs]: "rfc7230_fragment = rfc3986_fragment"

definition rfc7230_path_abempty :: rule where [grammar_defs]:
  "rfc7230_path_abempty = rfc3986_path_abempty"

definition rfc7230_port :: rule where [grammar_defs]: "rfc7230_port = rfc3986_port"
definition rfc7230_query :: rule where [grammar_defs]: "rfc7230_query = rfc3986_query"

definition rfc7230_relative_part :: rule where [grammar_defs]:
  "rfc7230_relative_part = rfc3986_relative_part"

definition rfc7230_scheme :: rule where [grammar_defs]: "rfc7230_scheme = rfc3986_scheme"
definition rfc7230_segment :: rule where [grammar_defs]: "rfc7230_segment = rfc3986_segment"
definition rfc7230_uri_host :: rule where [grammar_defs]: "rfc7230_uri_host = rfc3986_host"

definition rfc7230_URI_reference :: rule where [grammar_defs]:
  "rfc7230_URI_reference = rfc3986_URI_reference"

subsection \<open>Punctuation terminals\<close>

definition rfc7230_Colon :: rule where [grammar_defs]: "rfc7230_Colon = CharacterR (CHR '':'')"

definition rfc7230_ForwardSlash :: rule where [grammar_defs]:
  "rfc7230_ForwardSlash = CharacterR (CHR ''/'')"

definition rfc7230_Question :: rule where [grammar_defs]:
  "rfc7230_Question = CharacterR (CHR ''?'')"

definition rfc7230_Hash :: rule where [grammar_defs]: "rfc7230_Hash = CharacterR (CHR ''#'')"

definition rfc7230_Asterisk :: rule where [grammar_defs]:
  "rfc7230_Asterisk = CharacterR (CHR ''*'')"

definition rfc7230_Comma :: rule where [grammar_defs]: "rfc7230_Comma = CharacterR (CHR '','')"

definition rfc7230_SemiColon :: rule where [grammar_defs]:
  "rfc7230_SemiColon = CharacterR (CHR '';'')"

definition rfc7230_Equal :: rule where [grammar_defs]: "rfc7230_Equal = CharacterR (CHR ''='')"

definition rfc7230_BackSlash :: rule where [grammar_defs]:
  "rfc7230_BackSlash = CharacterR (CHR 0x5C)"

definition rfc7230_OpenParan :: rule where [grammar_defs]:
  "rfc7230_OpenParan = CharacterR (CHR ''('')"

definition rfc7230_CloseParan :: rule where [grammar_defs]:
  "rfc7230_CloseParan = CharacterR (CHR '')'')"

definition rfc7230_Exclaimation :: rule where [grammar_defs]:
  "rfc7230_Exclaimation = CharacterR (CHR ''!'')"

definition rfc7230_Dollar :: rule where [grammar_defs]:
  "rfc7230_Dollar = CharacterR (CHR ''$'')"

definition rfc7230_Percent :: rule where [grammar_defs]:
  "rfc7230_Percent = CharacterR (CHR ''%'')"

definition rfc7230_Ampersand :: rule where [grammar_defs]:
  "rfc7230_Ampersand = CharacterR (CHR ''&'')"

definition rfc7230_SingleQuote :: rule where [grammar_defs]:
  "rfc7230_SingleQuote = CharacterR (CHR 0x27)"

definition rfc7230_Plus :: rule where [grammar_defs]: "rfc7230_Plus = CharacterR (CHR ''+'')"

definition rfc7230_Hyphen :: rule where [grammar_defs]:
  "rfc7230_Hyphen = CharacterR (CHR ''-'')"

definition rfc7230_Period :: rule where [grammar_defs]:
  "rfc7230_Period = CharacterR (CHR ''.'')"

definition rfc7230_Caret :: rule where [grammar_defs]: "rfc7230_Caret = CharacterR (CHR ''^'')"

definition rfc7230_UnderScore :: rule where [grammar_defs]:
  "rfc7230_UnderScore = CharacterR (CHR ''_'')"

definition rfc7230_Grave :: rule where [grammar_defs]: "rfc7230_Grave = CharacterR (CHR 0x60)"
definition rfc7230_Pipe :: rule where [grammar_defs]: "rfc7230_Pipe = CharacterR (CHR ''|'')"
definition rfc7230_Tilde :: rule where [grammar_defs]: "rfc7230_Tilde = CharacterR (CHR ''~'')"
definition rfc7230_0 :: rule where [grammar_defs]: "rfc7230_0 = CharacterR (CHR ''0'')"
definition rfc7230_1 :: rule where [grammar_defs]: "rfc7230_1 = CharacterR (CHR ''1'')"
definition rfc7230_q :: rule where [grammar_defs]: "rfc7230_q = CharacterR (CHR ''q'')"

definition rfc7230_CtextLow :: rule where [grammar_defs]:
  "rfc7230_CtextLow = CharactersR (CHR ''!'') (CHR 0x27)"

definition rfc7230_CtextMid :: rule where [grammar_defs]:
  "rfc7230_CtextMid = CharactersR (CHR ''*'') (CHR ''['')"

definition rfc7230_CtextHigh :: rule where [grammar_defs]:
  "rfc7230_CtextHigh = CharactersR (CHR '']'') (CHR ''~'')"

definition rfc7230_QdtextBang :: rule where [grammar_defs]:
  "rfc7230_QdtextBang = CharacterR (CHR ''!'')"

definition rfc7230_QdtextMid :: rule where [grammar_defs]:
  "rfc7230_QdtextMid = CharactersR (CHR ''#'') (CHR ''['')"

definition rfc7230_QdtextHigh :: rule where [grammar_defs]:
  "rfc7230_QdtextHigh = CharactersR (CHR '']'') (CHR ''~'')"

definition rfc7230_ObsText :: rule where [grammar_defs]:
  "rfc7230_ObsText = CharactersR (CHR 0x80) (CHR 0xFF)"

definition rfc7230_OctetAscii :: rule where [grammar_defs]:
  "rfc7230_OctetAscii = CharactersR (CHR 0x00) (CHR 0x7F)"

definition rfc7230_any_octet :: rule where [grammar_defs]:
  "rfc7230_any_octet = OrR [rfc7230_OctetAscii, rfc7230_ObsText]"

definition rfc7230_AlphaNumeric :: rule where [grammar_defs]:
  "rfc7230_AlphaNumeric = OrR [rfc7230_ALPHA, rfc7230_DIGIT]"

subsection \<open>String terminals\<close>

definition rfc7230_chunked :: rule where [grammar_defs]: "rfc7230_chunked = StringR ''chunked''"

definition rfc7230_compress :: rule where [grammar_defs]:
  "rfc7230_compress = StringR ''compress''"

definition rfc7230_deflate :: rule where [grammar_defs]: "rfc7230_deflate = StringR ''deflate''"
definition rfc7230_gzip :: rule where [grammar_defs]: "rfc7230_gzip = StringR ''gzip''"

definition rfc7230_HTTP_name :: rule where [grammar_defs]:
  "rfc7230_HTTP_name = StringR ''HTTP''"

definition rfc7230_http_URI_prefix :: rule where [grammar_defs]:
  "rfc7230_http_URI_prefix = StringR ''http://''"

definition rfc7230_https_URI_prefix :: rule where [grammar_defs]:
  "rfc7230_https_URI_prefix = StringR ''https://''"

definition rfc7230_trailers :: rule where [grammar_defs]:
  "rfc7230_trailers = StringR ''trailers''"

subsection \<open>2.1 / 3.2.3 Whitespace\<close>

definition rfc7230_OWS :: rule where [grammar_defs]:
  "rfc7230_OWS = ZeroOrMore (OrR [rfc7230_SP, rfc7230_HTAB])"

definition rfc7230_RWS :: rule where [grammar_defs]:
  "rfc7230_RWS = OneOrMore (OrR [rfc7230_SP, rfc7230_HTAB])"

definition rfc7230_BWS :: rule where [grammar_defs]: "rfc7230_BWS = rfc7230_OWS"

subsection \<open>3.2.6.  Field Value Components\<close>

definition rfc7230_tchar :: rule where [grammar_defs]:
  "rfc7230_tchar =
     RuleD ''RFC7230::tchar''
       (OrR [
          rfc7230_Exclaimation, rfc7230_Hash, rfc7230_Dollar, rfc7230_Percent,
          rfc7230_Ampersand, rfc7230_SingleQuote, rfc7230_Asterisk, rfc7230_Plus,
          rfc7230_Hyphen, rfc7230_Period, rfc7230_Caret, rfc7230_UnderScore, rfc7230_Grave,
          rfc7230_Pipe, rfc7230_Tilde, rfc7230_AlphaNumeric])"

definition rfc7230_token :: rule where [grammar_defs]:
  "rfc7230_token = RuleD ''RFC7230::token'' (OneOrMore rfc7230_tchar)"

definition rfc7230_obs_text :: rule where [grammar_defs]:
  "rfc7230_obs_text = RuleD ''RFC7230::obs_text'' rfc7230_ObsText"

definition rfc7230_qdtext :: rule where [grammar_defs]:
  "rfc7230_qdtext =
     RuleD ''RFC7230::qdtext''
       (OrR [
          rfc7230_HTAB, rfc7230_SP, rfc7230_QdtextBang, rfc7230_QdtextMid,
          rfc7230_QdtextHigh, rfc7230_obs_text])"

definition rfc7230_quoted_pair :: rule where [grammar_defs]:
  "rfc7230_quoted_pair =
     RuleD ''RFC7230::quoted_pair''
       (AndR [
          rfc7230_BackSlash, OrR [rfc7230_HTAB, rfc7230_SP, rfc7230_VCHAR, rfc7230_obs_text]])"

definition rfc7230_quoted_string :: rule where [grammar_defs]:
  "rfc7230_quoted_string =
     RuleD ''RFC7230::quoted_string''
       (AndR [
          rfc7230_DQUOTE, ZeroOrMore (OrR [rfc7230_qdtext, rfc7230_quoted_pair]),
          rfc7230_DQUOTE])"

definition rfc7230_ctext :: rule where [grammar_defs]:
  "rfc7230_ctext =
     RuleD ''RFC7230::ctext''
       (OrR [
          rfc7230_HTAB, rfc7230_SP, rfc7230_CtextLow, rfc7230_CtextMid, rfc7230_CtextHigh,
          rfc7230_obs_text])"

definition rfc7230_comment :: rule where [grammar_defs]:
  "rfc7230_comment =
     RuleD ''RFC7230::comment''
       (AndR [
          rfc7230_OpenParan,
          ZeroOrMore (OrR [rfc7230_ctext, rfc7230_quoted_pair, RuleRef ''RFC7230::comment'']),
          rfc7230_CloseParan])"

subsection \<open>2.6.  Protocol Versioning\<close>

definition rfc7230_HTTP_version :: rule where [grammar_defs]:
  "rfc7230_HTTP_version =
     RuleD ''RFC7230::HTTP_version''
       (AndR [
          rfc7230_HTTP_name, rfc7230_ForwardSlash, rfc7230_DIGIT, rfc7230_Period,
          rfc7230_DIGIT])"

subsection \<open>2.7.  URI\<close>

definition rfc7230_absolute_path :: rule where [grammar_defs]:
  "rfc7230_absolute_path =
     RuleD ''RFC7230::absolute_path''
       (OneOrMore (AndR [rfc7230_ForwardSlash, rfc7230_segment]))"

definition rfc7230_partial_URI :: rule where [grammar_defs]:
  "rfc7230_partial_URI =
     RuleD ''RFC7230::partial_URI''
       (AndR [rfc7230_relative_part, ZeroOrOne (AndR [rfc7230_Question, rfc7230_query])])"

definition rfc7230_http_URI :: rule where [grammar_defs]:
  "rfc7230_http_URI =
     RuleD ''RFC7230::http_URI''
       (AndR [
          rfc7230_http_URI_prefix, rfc7230_authority, rfc7230_path_abempty,
          ZeroOrOne (AndR [rfc7230_Question, rfc7230_query]),
          ZeroOrOne (AndR [rfc7230_Hash, rfc7230_fragment])])"

definition rfc7230_https_URI :: rule where [grammar_defs]:
  "rfc7230_https_URI =
     RuleD ''RFC7230::https_URI''
       (AndR [
          rfc7230_https_URI_prefix, rfc7230_authority, rfc7230_path_abempty,
          ZeroOrOne (AndR [rfc7230_Question, rfc7230_query]),
          ZeroOrOne (AndR [rfc7230_Hash, rfc7230_fragment])])"

subsection \<open>3.1.  Start Line\<close>

definition rfc7230_method :: rule where [grammar_defs]:
  "rfc7230_method = RuleD ''RFC7230::method'' rfc7230_token"

definition rfc7230_origin_form :: rule where [grammar_defs]:
  "rfc7230_origin_form =
     RuleD ''RFC7230::origin_form''
       (AndR [rfc7230_absolute_path, ZeroOrOne (AndR [rfc7230_Question, rfc7230_query])])"

definition rfc7230_absolute_form :: rule where [grammar_defs]:
  "rfc7230_absolute_form = RuleD ''RFC7230::absolute_form'' rfc7230_absolute_URI"

definition rfc7230_authority_form :: rule where [grammar_defs]:
  "rfc7230_authority_form = RuleD ''RFC7230::authority_form'' rfc7230_authority"

definition rfc7230_asterisk_form :: rule where [grammar_defs]:
  "rfc7230_asterisk_form = RuleD ''RFC7230::asterisk_form'' rfc7230_Asterisk"

definition rfc7230_request_target :: rule where [grammar_defs]:
  "rfc7230_request_target =
     RuleD ''RFC7230::request_target''
       (OrR [
          rfc7230_origin_form, rfc7230_absolute_form, rfc7230_authority_form,
          rfc7230_asterisk_form])"

definition rfc7230_request_line :: rule where [grammar_defs]:
  "rfc7230_request_line =
     RuleD ''RFC7230::request_line''
       (AndR [
          rfc7230_method, rfc7230_SP, rfc7230_request_target, rfc7230_SP,
          rfc7230_HTTP_version, rfc7230_CRLF])"

definition rfc7230_status_code :: rule where [grammar_defs]:
  "rfc7230_status_code =
     RuleD ''RFC7230::status_code'' (AndR [rfc7230_DIGIT, rfc7230_DIGIT, rfc7230_DIGIT])"

definition rfc7230_reason_phrase :: rule where [grammar_defs]:
  "rfc7230_reason_phrase =
     RuleD ''RFC7230::reason_phrase''
       (ZeroOrMore (OrR [rfc7230_HTAB, rfc7230_SP, rfc7230_VCHAR, rfc7230_obs_text]))"

definition rfc7230_status_line :: rule where [grammar_defs]:
  "rfc7230_status_line =
     RuleD ''RFC7230::status_line''
       (AndR [
          rfc7230_HTTP_version, rfc7230_SP, rfc7230_status_code, rfc7230_SP,
          rfc7230_reason_phrase, rfc7230_CRLF])"

definition rfc7230_start_line :: rule where [grammar_defs]:
  "rfc7230_start_line =
     RuleD ''RFC7230::start_line'' (OrR [rfc7230_request_line, rfc7230_status_line])"

subsection \<open>3.2.  Header Fields\<close>

definition rfc7230_field_name :: rule where [grammar_defs]:
  "rfc7230_field_name = RuleD ''RFC7230::field_name'' rfc7230_token"

definition rfc7230_field_vchar :: rule where [grammar_defs]:
  "rfc7230_field_vchar = RuleD ''RFC7230::field_vchar'' (OrR [rfc7230_VCHAR, rfc7230_obs_text])"

definition rfc7230_field_content :: rule where [grammar_defs]:
  "rfc7230_field_content =
     RuleD ''RFC7230::field_content''
       (AndR [
          rfc7230_field_vchar,
          ZeroOrOne (AndR [OneOrMore (OrR [rfc7230_SP, rfc7230_HTAB]), rfc7230_field_vchar])])"

definition rfc7230_obs_fold :: rule where [grammar_defs]:
  "rfc7230_obs_fold =
     RuleD ''RFC7230::obs_fold''
       (AndR [rfc7230_CRLF, OneOrMore (OrR [rfc7230_SP, rfc7230_HTAB])])"

definition rfc7230_field_value :: rule where [grammar_defs]:
  "rfc7230_field_value =
     RuleD ''RFC7230::field_value''
       (ZeroOrMore (OrR [rfc7230_field_content, rfc7230_obs_fold]))"

definition rfc7230_header_field :: rule where [grammar_defs]:
  "rfc7230_header_field =
     RuleD ''RFC7230::header_field''
       (AndR [
          rfc7230_field_name, rfc7230_Colon, rfc7230_OWS, rfc7230_field_value, rfc7230_OWS])"

subsection \<open>3.3.  Message Body\<close>

definition rfc7230_message_body :: rule where [grammar_defs]:
  "rfc7230_message_body = RuleD ''RFC7230::message_body'' (ZeroOrMore rfc7230_any_octet)"

definition rfc7230_HTTP_message :: rule where [grammar_defs]:
  "rfc7230_HTTP_message =
     RuleD ''RFC7230::HTTP_message''
       (AndR [
          rfc7230_start_line, ZeroOrMore (AndR [rfc7230_header_field, rfc7230_CRLF]),
          rfc7230_CRLF, ZeroOrOne rfc7230_message_body])"

subsection \<open>4.  Transfer Codings\<close>

definition rfc7230_transfer_parameter :: rule where [grammar_defs]:
  "rfc7230_transfer_parameter =
     RuleD ''RFC7230::transfer_parameter''
       (AndR [
          rfc7230_token, rfc7230_BWS, rfc7230_Equal, rfc7230_BWS,
          OrR [rfc7230_token, rfc7230_quoted_string]])"

definition rfc7230_transfer_extension :: rule where [grammar_defs]:
  "rfc7230_transfer_extension =
     RuleD ''RFC7230::transfer_extension''
       (AndR [
          rfc7230_token,
          ZeroOrMore
            (AndR [rfc7230_OWS, rfc7230_SemiColon, rfc7230_OWS, rfc7230_transfer_parameter])])"

definition rfc7230_transfer_coding :: rule where [grammar_defs]:
  "rfc7230_transfer_coding =
     RuleD ''RFC7230::transfer_coding''
       (OrR [
          rfc7230_chunked, rfc7230_compress, rfc7230_deflate, rfc7230_gzip,
          rfc7230_transfer_extension])"

definition rfc7230_up_to_3DIGIT :: rule where [grammar_defs]:
  "rfc7230_up_to_3DIGIT =
     ZeroOrOne
       (AndR [rfc7230_DIGIT, ZeroOrOne (AndR [rfc7230_DIGIT, ZeroOrOne rfc7230_DIGIT])])"

definition rfc7230_up_to_3zero :: rule where [grammar_defs]:
  "rfc7230_up_to_3zero =
     ZeroOrOne (AndR [rfc7230_0, ZeroOrOne (AndR [rfc7230_0, ZeroOrOne rfc7230_0])])"

definition rfc7230_rank :: rule where [grammar_defs]:
  "rfc7230_rank =
     RuleD ''RFC7230::rank''
       (OrR [
          AndR [rfc7230_0, ZeroOrOne (AndR [rfc7230_Period, rfc7230_up_to_3DIGIT])],
          AndR [rfc7230_1, ZeroOrOne (AndR [rfc7230_Period, rfc7230_up_to_3zero])]])"

definition rfc7230_t_ranking :: rule where [grammar_defs]:
  "rfc7230_t_ranking =
     RuleD ''RFC7230::t_ranking''
       (AndR [
          rfc7230_OWS, rfc7230_SemiColon, rfc7230_OWS, rfc7230_q, rfc7230_Equal, rfc7230_rank])"

definition rfc7230_t_codings :: rule where [grammar_defs]:
  "rfc7230_t_codings =
     RuleD ''RFC7230::t_codings''
       (OrR [rfc7230_trailers, AndR [rfc7230_transfer_coding, ZeroOrOne rfc7230_t_ranking]])"

subsection \<open>4.1.  Chunked Transfer Coding\<close>

definition rfc7230_chunk_size :: rule where [grammar_defs]:
  "rfc7230_chunk_size = RuleD ''RFC7230::chunk_size'' (OneOrMore rfc7230_HEXDIG)"

definition rfc7230_chunk_ext_name :: rule where [grammar_defs]:
  "rfc7230_chunk_ext_name = RuleD ''RFC7230::chunk_ext_name'' rfc7230_token"

definition rfc7230_chunk_ext_val :: rule where [grammar_defs]:
  "rfc7230_chunk_ext_val =
     RuleD ''RFC7230::chunk_ext_val'' (OrR [rfc7230_token, rfc7230_quoted_string])"

definition rfc7230_chunk_ext :: rule where [grammar_defs]:
  "rfc7230_chunk_ext =
     RuleD ''RFC7230::chunk_ext''
       (ZeroOrMore
         (AndR [
            rfc7230_SemiColon, rfc7230_chunk_ext_name,
            ZeroOrOne (AndR [rfc7230_Equal, rfc7230_chunk_ext_val])]))"

definition rfc7230_chunk_data :: rule where [grammar_defs]:
  "rfc7230_chunk_data = RuleD ''RFC7230::chunk_data'' (OneOrMore rfc7230_any_octet)"

definition rfc7230_chunk :: rule where [grammar_defs]:
  "rfc7230_chunk =
     RuleD ''RFC7230::chunk''
       (AndR [
          rfc7230_chunk_size, ZeroOrOne rfc7230_chunk_ext, rfc7230_CRLF, rfc7230_chunk_data,
          rfc7230_CRLF])"

definition rfc7230_last_chunk :: rule where [grammar_defs]:
  "rfc7230_last_chunk =
     RuleD ''RFC7230::last_chunk''
       (AndR [OneOrMore rfc7230_0, ZeroOrOne rfc7230_chunk_ext, rfc7230_CRLF])"

definition rfc7230_trailer_part :: rule where [grammar_defs]:
  "rfc7230_trailer_part =
     RuleD ''RFC7230::trailer_part'' (ZeroOrMore (AndR [rfc7230_header_field, rfc7230_CRLF]))"

definition rfc7230_chunked_body :: rule where [grammar_defs]:
  "rfc7230_chunked_body =
     RuleD ''RFC7230::chunked_body''
       (AndR [
          ZeroOrMore rfc7230_chunk, rfc7230_last_chunk, rfc7230_trailer_part, rfc7230_CRLF])"

subsection \<open>5.4 / 6.1 / Appendix A - header values\<close>

definition rfc7230_Host :: rule where [grammar_defs]:
  "rfc7230_Host =
     RuleD ''RFC7230::Host''
       (AndR [rfc7230_uri_host, ZeroOrOne (AndR [rfc7230_Colon, rfc7230_port])])"

definition rfc7230_connection_option :: rule where [grammar_defs]:
  "rfc7230_connection_option = RuleD ''RFC7230::connection_option'' rfc7230_token"

definition rfc7230_Connection :: rule where [grammar_defs]:
  "rfc7230_Connection =
     RuleD ''RFC7230::Connection''
       (AndR [
          ZeroOrMore (AndR [rfc7230_Comma, rfc7230_OWS]), rfc7230_connection_option,
          ZeroOrMore
            (AndR [
               rfc7230_OWS, rfc7230_Comma,
               ZeroOrOne (AndR [rfc7230_OWS, rfc7230_connection_option])])])"

definition rfc7230_Content_Length :: rule where [grammar_defs]:
  "rfc7230_Content_Length = RuleD ''RFC7230::Content_Length'' (OneOrMore rfc7230_DIGIT)"

definition rfc7230_TE :: rule where [grammar_defs]:
  "rfc7230_TE =
     RuleD ''RFC7230::TE''
       (ZeroOrOne
         (AndR [
            OrR [rfc7230_Comma, rfc7230_t_codings],
            ZeroOrMore
              (AndR [
                 rfc7230_OWS, rfc7230_Comma,
                 ZeroOrOne (AndR [rfc7230_OWS, rfc7230_t_codings])])]))"

definition rfc7230_Trailer :: rule where [grammar_defs]:
  "rfc7230_Trailer =
     RuleD ''RFC7230::Trailer''
       (AndR [
          ZeroOrMore (AndR [rfc7230_Comma, rfc7230_OWS]), rfc7230_field_name,
          ZeroOrMore
            (AndR [
               rfc7230_OWS, rfc7230_Comma, ZeroOrOne (AndR [rfc7230_OWS, rfc7230_field_name])])])"

definition rfc7230_Transfer_Encoding :: rule where [grammar_defs]:
  "rfc7230_Transfer_Encoding =
     RuleD ''RFC7230::Transfer_Encoding''
       (AndR [
          ZeroOrMore (AndR [rfc7230_Comma, rfc7230_OWS]), rfc7230_transfer_coding,
          ZeroOrMore
            (AndR [
               rfc7230_OWS, rfc7230_Comma,
               ZeroOrOne (AndR [rfc7230_OWS, rfc7230_transfer_coding])])])"

definition rfc7230_protocol_name :: rule where [grammar_defs]:
  "rfc7230_protocol_name = RuleD ''RFC7230::protocol_name'' rfc7230_token"

definition rfc7230_protocol_version :: rule where [grammar_defs]:
  "rfc7230_protocol_version = RuleD ''RFC7230::protocol_version'' rfc7230_token"

definition rfc7230_protocol :: rule where [grammar_defs]:
  "rfc7230_protocol =
     RuleD ''RFC7230::protocol''
       (AndR [
          rfc7230_protocol_name,
          ZeroOrOne (AndR [rfc7230_ForwardSlash, rfc7230_protocol_version])])"

definition rfc7230_Upgrade :: rule where [grammar_defs]:
  "rfc7230_Upgrade =
     RuleD ''RFC7230::Upgrade''
       (AndR [
          ZeroOrMore (AndR [rfc7230_Comma, rfc7230_OWS]), rfc7230_protocol,
          ZeroOrMore
            (AndR [
               rfc7230_OWS, rfc7230_Comma, ZeroOrOne (AndR [rfc7230_OWS, rfc7230_protocol])])])"

definition rfc7230_pseudonym :: rule where [grammar_defs]:
  "rfc7230_pseudonym = RuleD ''RFC7230::pseudonym'' rfc7230_token"

definition rfc7230_received_protocol :: rule where [grammar_defs]:
  "rfc7230_received_protocol =
     RuleD ''RFC7230::received_protocol''
       (AndR [
          ZeroOrOne (AndR [rfc7230_protocol_name, rfc7230_ForwardSlash]),
          rfc7230_protocol_version])"

definition rfc7230_received_by :: rule where [grammar_defs]:
  "rfc7230_received_by =
     RuleD ''RFC7230::received_by''
       (OrR [
          AndR [rfc7230_uri_host, ZeroOrOne (AndR [rfc7230_Colon, rfc7230_port])],
          rfc7230_pseudonym])"

definition rfc7230_Via :: rule where [grammar_defs]:
  "rfc7230_Via =
     RuleD ''RFC7230::Via''
       (AndR [
          ZeroOrMore (AndR [rfc7230_Comma, rfc7230_OWS]), rfc7230_received_protocol,
          rfc7230_RWS, rfc7230_received_by, ZeroOrOne (AndR [rfc7230_RWS, rfc7230_comment]),
          ZeroOrMore
            (AndR [
               rfc7230_OWS, rfc7230_Comma,
               ZeroOrOne
                 (AndR [
                    rfc7230_OWS, rfc7230_received_protocol, rfc7230_RWS, rfc7230_received_by,
                    ZeroOrOne (AndR [rfc7230_RWS, rfc7230_comment])])])])"

subsection \<open>The grammar and its termination\<close>

text \<open>\<open>comment\<close> refers to itself.\<close>

definition rfc7230_grammar :: grammar where
  "rfc7230_grammar = [''RFC7230::comment'' \<mapsto> rfc7230_comment]"

lemma complete_rfc7230_HTTP_message [guard_simps]:
  "complete D rfc7230_HTTP_message"
  unfolding rfc7230_HTTP_message_def
  by (simp add: guard_simps grammar_defs del: rfc3986_cuts)

lemma complete_rfc7230_comment [guard_simps]:
  "complete D rfc7230_comment = (''RFC7230::comment'' \<in> D)"
  by (simp add: guard_simps grammar_defs)

lemma guarded_rfc7230_comment [guard_simps]: "guarded rfc7230_comment"
  by (simp add: rfc7230_comment_def rfc7230_OpenParan_def)

lemma rfc7230_well_founded: "well_founded_grammar rfc7230_grammar"
  by (simp add: well_founded_grammar_def rfc7230_grammar_def guard_simps)

text \<open>Parsing an HTTP message or a URI reference always returns. Their rules refer to no
  struct that is still being defined, so no fuel is needed: on every input, in every context,
  with any grammar.\<close>

theorem rfc7230_message_returns:
  "parse g 0 rfc7230_HTTP_message ctx it \<noteq> None \<and> parse g 0 rfc3986_URI_reference ctx it \<noteq> None"
  by (simp add: parse_total guard_simps)

subsection \<open>Chunks\<close>

text \<open>A chunk with data never matches. \<open>chunk_data\<close> reads every octet up to the end of the
  input, so the line break after it cannot match: on every input the parse of \<open>chunk\<close> returns the
  null pointer, and a chunked body is only ever recognized from its last chunk on.\<close>

theorem rfc7230_chunk_never_matches:
  "\<exists>ctx'. parse g n rfc7230_chunk (new_context [] False) it = Some (None, ctx', it)"
proof (rule plain_null)
  show "complete {} rfc7230_chunk" by (simp add: grammar_defs)
  have any: "plain rfc7230_any_octet = class_fn (\<lambda>_. True)"
  proof -
    have "in_range (CHR 0x00) (CHR 0x7F) c \<or> in_range (CHR 0x80) (CHR 0xFF) c" for c
      using char_val_bounds [of c]
      by (auto simp: in_range_def char_val_def [of "CHR 0x00"] char_val_def [of "CHR 0x7F"]
          char_val_def [of "CHR 0x80"] char_val_def [of "CHR 0xFF"])
    then show ?thesis
      by (simp add: rfc7230_any_octet_def rfc7230_OctetAscii_def rfc7230_ObsText_def plain_class
          alt_fn_class del: alt_fn.simps)
  qed
  have data: "i = []" if "plain rfc7230_chunk_data s = Some i" for s i
  proof -
    have "dropWhile (\<lambda>_. True) z = []" for z :: iter by (induction z) auto
    with that show ?thesis by (auto simp: rfc7230_chunk_data_def any)
  qed
  have crlf: "plain rfc7230_CRLF [] = None" by code_simp
  show "plain rfc7230_chunk it = None"
    by (auto simp: rfc7230_chunk_def crlf dest!: data split: option.split)
qed

end
