(* ===== verification/Parser_Properties.thy ===== *)
theory Parser_Properties
  imports Ignore_Case RFC1035 RFC5322 RFC7230
begin

text \<open>
  The correctness properties of the parser engine, over all rules and grammars. The witnesses
  run them on rules of the library's own grammars.
\<close>

text \<open>C1: parsing computes the parsing-expression-grammar semantics of the rule. With enough
  fuel \<open>parse\<close> returns a node and stops at \<open>it'\<close> exactly if the big-step relation \<open>peg\<close> matches
  up to \<open>it'\<close>, and returns the null pointer, at the position where it started, exactly if the
  relation fails. Where the relation has no outcome, \<open>parse\<close> returns for no fuel.\<close>

theorem parse_computes_peg:
  "((\<exists>n t ctx'. parse g n r ctx it = Some (Some t, ctx', it')) \<longleftrightarrow> peg g ctx r it (Some it')) \<and>
   ((\<exists>n ctx'. parse g n r ctx it = Some (None, ctx', it)) \<longleftrightarrow> peg g ctx r it None)"
proof -
  have "(\<exists>t ctx'. parse g n r ctx it = Some (Some t, ctx', it')) \<longleftrightarrow>
      recog g n r ctx it = Some (Some it')" for n
    by (auto simp: parse_recog outcome_def split: option.splits prod.splits)
  moreover have "(\<exists>ctx'. parse g n r ctx it = Some (None, ctx', it)) \<longleftrightarrow>
      recog g n r ctx it = Some None" for n
    by (auto simp: parse_recog outcome_def split: option.splits prod.splits
        dest: parse.fail_restores)
  ultimately show ?thesis by (simp only: recog_iff_peg [symmetric])
qed

text \<open>The fuel has no influence on the result. Two calls that return, with any amounts of
  fuel, return the same tree, the same errors and the same position.\<close>

theorem parse_result_unique:
  assumes "parse g n r ctx it = Some a" and "parse g m r ctx it = Some b"
  shows "a = b"
  using parse_fuel [OF assms(1), of "max n m"] parse_fuel [OF assms(2), of "max n m"] by simp

theorem parse_result_unique_witness:
  "the (parse rfc7230_grammar 2 rfc7230_comment (new_context [] False) ''(a(b))'') =
   the (parse rfc7230_grammar 7 rfc7230_comment (new_context [] False) ''(a(b))'')"
  (is "the ?a = the ?b")
proof -
  have "?a \<noteq> None" by code_simp
  moreover have "?b \<noteq> None" by code_simp
  ultimately show ?thesis
    by (intro parse_result_unique [of rfc7230_grammar 2 rfc7230_comment
          "new_context [] False" "''(a(b))''" _ 7]) simp_all
qed

text \<open>C3: parsing returns. In a grammar whose structs consume a character before they refer to
  a struct, every rule returns on every input; the length of the input is enough fuel, or one
  more for a rule that itself refers to a struct at once.\<close>

theorem parse_terminates:
  assumes "well_founded_grammar g" and "complete (dom g) r"
    and "length it < n \<or> guarded r \<and> length it \<le> n"
  shows "parse g n r ctx it \<noteq> None"
  using assms by (rule parse_returns)

theorem parse_terminates_witness:
  "parse rfc5322_grammar 8 rfc5322_CFWS (new_context [] False) ''(a(b))'' \<noteq> None"
  by (rule parse_terminates)
    (simp_all add: rfc5322_well_founded guard_simps, simp add: rfc5322_grammar_def)

text \<open>A left-recursive struct never returns. If the first thing a struct tries is the struct
  itself, parsing it returns for no fuel, on any input.\<close>

theorem left_recursion_never_returns:
  assumes "g d = Some r" and "first_call r = Some d"
  shows "parse g n (RuleRef d) ctx it = None"
  using left_recursion_stuck [of g d r n ctx it, OF assms] by (simp add: parse_recog)

theorem left_recursion_never_returns_witness:
  "parse [''subdomain'' \<mapsto> RuleD ''subdomain''
            (OrR [AndR [RuleRef ''subdomain'', rfc1035_dot, rfc1035_label], rfc1035_label])]
     100 (RuleRef ''subdomain'') (new_context [] False) ''a.b'' = None"
  by (rule left_recursion_never_returns, simp, simp)

text \<open>C4: the tree has the shape of the rule. Every node of the tree of a match carries the rule
  it was parsed by, has the children that rule prescribes, and the text of a terminal node is
  one the terminal describes.\<close>

theorem parse_tree_conforms:
  assumes "parse g n r ctx it = Some (Some t, ctx', it')"
  shows "conforms g (ignore_case ctx) r t"
  using assms by (rule tree.builds)

theorem parse_tree_conforms_witness:
  "\<exists>t. conforms Map.empty False rfc1035_domain t \<and> get_text t = ''a.b''"
proof -
  let ?p = "parse Map.empty 0 rfc1035_domain (new_context [] False) ''a.b''"
  have "(case ?p of Some (Some t, _, _) \<Rightarrow> get_text t = ''a.b'' | _ \<Rightarrow> False)" by code_simp
  then obtain t ctx' it' where p: "?p = Some (Some t, ctx', it')" and t: "get_text t = ''a.b''"
    by (auto split: option.splits)
  from parse_tree_conforms [OF p] t show ?thesis by (auto simp: new_context_def)
qed

text \<open>C5: the tree accounts for the input. What was consumed is leading whitespace and the text
  of the node, and the texts of the leaves, read from left to right, are the consumed input up
  to whitespace.\<close>

theorem parse_tree_covers_input:
  assumes "parse g n r ctx it = Some (Some t, ctx', it')"
  shows "(\<exists>w. it = w @ get_text t @ it' \<and> (\<forall>c \<in> set w. is_whitespace ctx c)) \<and>
    (\<exists>w. it = w @ it' \<and>
       filter (\<lambda>c. \<not> is_whitespace ctx c) w = filter (\<lambda>c. \<not> is_whitespace ctx c) (fringe t))"
  using parse.match_text [OF assms] tree.covers [OF assms]
  by (simp add: matches_text_def yields_def significant_def)

theorem parse_tree_covers_input_witness:
  "\<exists>t. fringe t = ''a.b'' \<and> (\<exists>w. ''a . b;'' = w @ '';'' \<and>
     filter (\<lambda>c. c \<noteq> CHR '' '') w = filter (\<lambda>c. c \<noteq> CHR '' '') (fringe t))"
proof -
  let ?ctx = "new_context '' '' False"
  let ?p = "parse Map.empty 0 rfc1035_domain ?ctx ''a . b;''"
  have "(case ?p of Some (Some t, _, i) \<Rightarrow> fringe t = ''a.b'' \<and> i = '';'' | _ \<Rightarrow> False)"
    by code_simp
  then obtain t ctx' where p: "?p = Some (Some t, ctx', '';'')" and t: "fringe t = ''a.b''"
    by (auto split: option.splits)
  have ws: "is_whitespace ?ctx = (\<lambda>c. c = CHR '' '')"
    by (auto simp: is_whitespace_def new_context_def)
  from parse_tree_covers_input [OF p, THEN conjunct2] obtain w where "''a . b;'' = w @ '';''"
    and "filter (\<lambda>c. c \<noteq> CHR '' '') w = filter (\<lambda>c. c \<noteq> CHR '' '') (fringe t)"
    unfolding ws by blast
  with t show ?thesis by blast
qed

text \<open>C6: what every \<open>parse\<close> does to its arguments. A failed match leaves the position where it
  was, a match only moves it forward; the settings of the context are never changed, and the
  errors reported before are kept, in order, before the new ones.\<close>

theorem parse_contract:
  assumes "parse g n r ctx it = Some (res, ctx', it')"
  shows "(res \<noteq> None \<or> it' = it) \<and> suffix it' it \<and>
    (\<exists>es. ctx' = ctx\<lparr>parse_errors := parse_errors ctx @ es\<rparr>)"
  using parse.moves_forward [OF assms] parse.only_adds [OF assms] parse.fail_restores assms
  by (cases res) (auto simp: adds_errors_def)

theorem parse_contract_witness:
  "\<exists>es. snd (the (parse Map.empty 0 rfc1035_domain (new_context [] False) ''.b'')) =
     ((new_context [] False)\<lparr>parse_errors := es\<rparr>, ''.b'')"
proof -
  let ?p = "parse Map.empty 0 rfc1035_domain (new_context [] False) ''.b''"
  have "(case ?p of Some (None, _, _) \<Rightarrow> True | _ \<Rightarrow> False)" by code_simp
  then obtain ctx' it' where p: "?p = Some (None, ctx', it')" by (auto split: option.splits)
  from parse_contract [OF p] p show ?thesis by auto
qed

text \<open>C2: the parser accepts exactly the inputs its rule matches to the very end. Whatever
  \<open>ast\<close> and \<open>errors\<close> held before, \<open>parser::parse\<close> returns true for some fuel exactly if the
  rule's semantics matches the whole input in the context the parser sets up.\<close>

theorem parser_accepts_iff:
  "(\<exists>n out. parser_parse g n r ic ws it ast0 errs = Some out \<and> accepted out) \<longleftrightarrow>
   peg g (new_context ws ic) r it (Some [])"
proof -
  have "(\<exists>out. parser_parse g n r ic ws it ast0 errs = Some out \<and> accepted out) \<longleftrightarrow>
      recog g n r (new_context ws ic) it = Some (Some [])" for n
    by (auto simp: parser_parse_def parse_recog outcome_def split: option.splits prod.splits)
  then show ?thesis by (simp only: recog_iff_peg [symmetric])
qed

text \<open>What acceptance gives. The tree handed out has the shape of the parser's rule, its
  leaves read the whole input up to whitespace, and the caller's error list is left alone.\<close>

theorem parser_accepts_tree:
  assumes "parser_parse g n r ic ws it ast0 errs = Some out" and "accepted out"
  shows "out_errors out = errs \<and> (\<exists>t. out_ast out = Some t \<and> conforms g ic r t \<and>
    filter (\<lambda>c. c \<notin> set ws) (fringe t) = filter (\<lambda>c. c \<notin> set ws) it)"
proof -
  from assms obtain t ctx' where p: "parse g n r (new_context ws ic) it = Some (Some t, ctx', [])"
    and out: "out_ast out = Some t" "out_errors out = errs"
    by (auto simp: parser_parse_def split: option.splits prod.splits if_splits)
  have "is_whitespace (new_context ws ic) = (\<lambda>c. c \<in> set ws)"
    by (auto simp: is_whitespace_def new_context_def fun_eq_iff)
  with tree.covers [OF p] tree.builds [OF p] out show ?thesis
    by (auto simp: yields_def significant_def new_context_def)
qed

theorem parser_accepts_tree_witness:
  "\<exists>t. conforms Map.empty True rfc1035_domain t \<and> filter (\<lambda>c. c \<notin> {CHR '' ''}) (fringe t) = ''a.B''"
proof -
  let ?p = "parser_parse Map.empty 0 rfc1035_domain True '' '' '' a. B'' None []"
  have "(case ?p of Some out \<Rightarrow> accepted out | _ \<Rightarrow> False)" by code_simp
  then obtain out where p: "?p = Some out" "accepted out" by (auto split: option.splits)
  from parser_accepts_tree [OF p] show ?thesis by auto
qed

text \<open>C7: a rejection is explained. When \<open>parser::parse\<close> returns false, the tree the caller
  passed in is untouched and the error list handed back is not empty, for every rule and grammar
  without an \<open>or_\<close> that has no alternative.\<close>

theorem parser_rejects_with_error:
  assumes "parser_parse g n r ic ws it ast0 errs = Some out" and "\<not> accepted out"
    and "has_alternatives r" and "\<forall>d r. g d = Some r \<longrightarrow> has_alternatives r"
  shows "out_ast out = ast0 \<and> out_errors out \<noteq> []"
proof -
  have x: "explains (parse g n r)" using assms(3,4) by (rule parse_explains [rotated])
  from assms(1,2) show ?thesis
    by (auto simp: parser_parse_def split: option.splits prod.splits if_splits
        dest: x [unfolded explains_def, rule_format])
qed

theorem parser_rejects_with_error_witness:
  "\<exists>out. parser_parse Map.empty 0 rfc1035_domain False [] ''a..b'' None [] = Some out \<and>
     out_errors out \<noteq> []"
proof -
  let ?p = "parser_parse Map.empty 0 rfc1035_domain False [] ''a..b'' None []"
  have "(case ?p of Some out \<Rightarrow> \<not> accepted out | _ \<Rightarrow> False)" by code_simp
  then obtain out where p: "?p = Some out" "\<not> accepted out" by (auto split: option.splits)
  have "has_alternatives rfc1035_domain" by (simp add: grammar_defs)
  from parser_rejects_with_error [OF p this] p show ?thesis by auto
qed

text \<open>C8: with \<open>ignore_case\<close> set, letter case does not matter to rules and grammars without \<open>regex\<close>,
  when no whitespace character is a letter. (The parse of a \<open>regex\<close> does not look at the flag, so
  a rule with one may tell the inputs apart.) On two inputs that differ only in
  the case of letters, a parse with the same fuel returns on both or on neither, matches both or
  neither, and leaves rests that again differ only in letter case.\<close>

theorem parse_ignores_case:
  assumes "ignore_case ctx" and "\<forall>c \<in> set (whitespace_chars ctx). swap_case_ch c = c"
    and "no_regex r" and "\<forall>d r. g d = Some r \<longrightarrow> no_regex r"
    and "map to_lower_ch a = map to_lower_ch b"
  shows "rel_option (rel_option same_letters)
    (map_option outcome (parse g n r ctx a)) (map_option outcome (parse g n r ctx b))"
  using blindD [OF recog_blind [OF _ assms(4,3)], of ctx a b n] assms(1,2,5)
  by (simp add: parse_recog case_blind_def list_all_iff same_letters_def)

theorem parse_ignores_case_witness:
  "rel_option (rel_option same_letters)
    (map_option outcome (parse Map.empty 0 rfc1035_domain (new_context [] True) ''Ab.C''))
    (map_option outcome (parse Map.empty 0 rfc1035_domain (new_context [] True) ''aB.c''))"
proof (rule parse_ignores_case)
  show "map to_lower_ch ''Ab.C'' = map to_lower_ch ''aB.c''" by code_simp
qed (simp_all add: new_context_def grammar_defs)

end
