(* ===== verification/RFC2229.thy ===== *)
theory RFC2229
  imports Plain_Match
begin

text \<open>
  The dictionary protocol, \<^verbatim>\<open>grammars/rfc2229.hpp\<close>, and why its quoted strings never match.
\<close>

definition rfc2229_DEFINE :: rule where [grammar_defs]: "rfc2229_DEFINE = StringR ''DEFINE''"

definition rfc2229_CHAR :: rule where [grammar_defs]:
  "rfc2229_CHAR = CharactersR (CHR 0x00) (CHR 0x7F)"

definition rfc2229_CTL :: rule where [grammar_defs]:
  "rfc2229_CTL = CharactersR (CHR 0x00) (CHR 0x1F)"

definition rfc2229_CR :: rule where [grammar_defs]: "rfc2229_CR = CharacterR (CHR 0x0D)"
definition rfc2229_LF :: rule where [grammar_defs]: "rfc2229_LF = CharacterR (CHR 0x0A)"
definition rfc2229_SPACE :: rule where [grammar_defs]: "rfc2229_SPACE = CharacterR (CHR 0x20)"
definition rfc2229_HTAB :: rule where [grammar_defs]: "rfc2229_HTAB = CharacterR (CHR 0x09)"
definition rfc2229_DQUOTE :: rule where [grammar_defs]: "rfc2229_DQUOTE = CharacterR (CHR 0x22)"
definition rfc2229_SQUOTE :: rule where [grammar_defs]: "rfc2229_SQUOTE = CharacterR (CHR 0x27)"
definition rfc2229_BSLASH :: rule where [grammar_defs]: "rfc2229_BSLASH = CharacterR (CHR 0x5C)"
definition rfc2229_LT :: rule where [grammar_defs]: "rfc2229_LT = CharacterR (CHR ''<'')"
definition rfc2229_GT :: rule where [grammar_defs]: "rfc2229_GT = CharacterR (CHR ''>'')"

definition rfc2229_PERIOD :: rule where [grammar_defs]:
  "rfc2229_PERIOD = CharacterR (CHR ''.'')"

definition rfc2229_AT :: rule where [grammar_defs]: "rfc2229_AT = CharacterR (CHR ''@'')"

definition rfc2229_CRLF :: rule where [grammar_defs]:
  "rfc2229_CRLF = AndR [rfc2229_CR, rfc2229_LF]"

definition rfc2229_WS :: rule where [grammar_defs]:
  "rfc2229_WS = OneOrMore (OrR [rfc2229_SPACE, rfc2229_HTAB])"

definition rfc2229_dqtext :: rule where [grammar_defs]:
  "rfc2229_dqtext = AndR [NotR [rfc2229_DQUOTE, rfc2229_BSLASH, rfc2229_CTL], rfc2229_CHAR]"

definition rfc2229_sqtext :: rule where [grammar_defs]:
  "rfc2229_sqtext = AndR [NotR [rfc2229_SQUOTE, rfc2229_BSLASH, rfc2229_CTL], rfc2229_CHAR]"

definition rfc2229_quoted_pair :: rule where [grammar_defs]:
  "rfc2229_quoted_pair = AndR [rfc2229_BSLASH, rfc2229_CHAR]"

definition rfc2229_atom :: rule where [grammar_defs]:
  "rfc2229_atom =
     OneOrMore
       (AndR [
          NotR [rfc2229_SPACE, rfc2229_CTL, rfc2229_SQUOTE, rfc2229_DQUOTE, rfc2229_BSLASH],
          rfc2229_CHAR])"

definition rfc2229_sqstring :: rule where [grammar_defs]:
  "rfc2229_sqstring =
     AndR [
       rfc2229_SQUOTE, ZeroOrMore (OrR [rfc2229_dqtext, rfc2229_quoted_pair]), rfc2229_SQUOTE]"

definition rfc2229_dqstring :: rule where [grammar_defs]:
  "rfc2229_dqstring =
     AndR [
       rfc2229_DQUOTE, ZeroOrMore (OrR [rfc2229_dqtext, rfc2229_quoted_pair]), rfc2229_DQUOTE]"

definition rfc2229_string :: rule where [grammar_defs]:
  "rfc2229_string = ZeroOrMore (OrR [rfc2229_dqstring, rfc2229_sqstring, rfc2229_quoted_pair])"

definition rfc2229_word :: rule where [grammar_defs]:
  "rfc2229_word = ZeroOrMore (OrR [rfc2229_atom, rfc2229_string])"

definition rfc2229_description :: rule where [grammar_defs]:
  "rfc2229_description = ZeroOrMore (OrR [rfc2229_word, rfc2229_WS])"

definition rfc2229_text :: rule where [grammar_defs]:
  "rfc2229_text = ZeroOrMore (OrR [rfc2229_word, rfc2229_WS])"

definition rfc2229_cmd_word :: rule where [grammar_defs]: "rfc2229_cmd_word = rfc2229_atom"
definition rfc2229_database :: rule where [grammar_defs]: "rfc2229_database = rfc2229_atom"
definition rfc2229_strategy :: rule where [grammar_defs]: "rfc2229_strategy = rfc2229_atom"

definition rfc2229_cmd_param :: rule where [grammar_defs]:
  "rfc2229_cmd_param = OrR [rfc2229_database, rfc2229_strategy, rfc2229_word]"

definition rfc2229_command :: rule where [grammar_defs]:
  "rfc2229_command =
     RuleD ''rfc2229::command''
       (AndR [rfc2229_cmd_word, ZeroOrMore (AndR [rfc2229_WS, rfc2229_cmd_param])])"

definition rfc2229_msg_atom :: rule where [grammar_defs]:
  "rfc2229_msg_atom =
     RuleD ''rfc2229::msg_atom''
       (OneOrMore
         (AndR [
            NotR [
              rfc2229_SPACE, rfc2229_CTL, rfc2229_LT, rfc2229_GT, rfc2229_PERIOD,
              rfc2229_BSLASH],
            rfc2229_CHAR]))"

definition rfc2229_capabilities :: rule where [grammar_defs]:
  "rfc2229_capabilities =
     RuleD ''rfc2229::capabilities''
       (ZeroOrOne
         (AndR [
            rfc2229_LT, rfc2229_msg_atom,
            ZeroOrMore (AndR [rfc2229_PERIOD, rfc2229_msg_atom]), rfc2229_GT]))"

definition rfc2229_local_part :: rule where [grammar_defs]:
  "rfc2229_local_part =
     AndR [rfc2229_msg_atom, ZeroOrMore (AndR [rfc2229_PERIOD, rfc2229_msg_atom])]"

definition rfc2229_domain :: rule where [grammar_defs]:
  "rfc2229_domain =
     AndR [rfc2229_msg_atom, ZeroOrMore (AndR [rfc2229_PERIOD, rfc2229_msg_atom])]"

definition rfc2229_spec :: rule where [grammar_defs]:
  "rfc2229_spec =
     RuleD ''rfc2229::spec'' (AndR [rfc2229_local_part, rfc2229_AT, rfc2229_domain])"

definition rfc2229_msg_id :: rule where [grammar_defs]:
  "rfc2229_msg_id = RuleD ''rfc2229::msg_id'' (AndR [rfc2229_LT, rfc2229_spec, rfc2229_GT])"

definition rfc2229_define_command :: rule where [grammar_defs]:
  "rfc2229_define_command =
     RuleD ''rfc2229::define_command'' (AndR [rfc2229_DEFINE, rfc2229_database, rfc2229_word])"

subsection \<open>Quoted strings\<close>

lemma rfc2229_string_loop_stops:
  assumes "star_fn (plain (OrR [rfc2229_dqtext, rfc2229_quoted_pair])) s = [q]"
    and "(of_char q :: nat) < 128"
  shows False
proof -
  let ?r = "OrR [rfc2229_dqtext, rfc2229_quoted_pair]"
  have c: "complete {} ?r" by (simp add: grammar_defs)
  have consumes: "i' \<noteq> i" if "plain ?r i = Some i'" for i i'
    using that recog_may_empty [of Map.empty 0 ?r "new_context [] False" i i'] recog_plain [OF _ c]
    by (auto simp: grammar_defs)
  have "plain ?r [q] = None"
    using star_fn_stops [of "plain ?r" s] assms(1) consumes plain_suffix [OF c] by fastforce
  moreover have "in_range (CHR 0x00) (CHR 0x7F) q"
    using assms(2) by (simp add: in_range_ascii less_eq_char_def)
  ultimately show False by (auto simp: grammar_defs split: if_splits)
qed

text \<open>No quoted string is ever accepted. \<open>not_<DQUOTE, BSLASH, CTL>\<close> rejects only the three
  characters in sequence, not each of them, so the loop between the quotes reads the closing
  quote as well and never leaves one behind; \<open>sqstring\<close> repeats the same loop.\<close>

theorem rfc2229_quoted_strings_never_accepted:
  "\<not> parser_accepts g rfc2229_dqstring False [] w \<and> \<not> parser_accepts g rfc2229_sqstring False [] w"
proof -
  have c: "complete {} rfc2229_dqstring" "complete {} rfc2229_sqstring"
    by (simp_all add: grammar_defs)
  have q: "class_fn (\<lambda>x. x = y) i = Some [] \<longleftrightarrow> i = [y]" for y i
    by (cases i) auto
  show ?thesis
    using rfc2229_string_loop_stops [of _ "CHR 0x22"] rfc2229_string_loop_stops [of _ "CHR 0x27"]
    unfolding accepts_plain [OF c(1)] accepts_plain [OF c(2)]
    by (auto simp: rfc2229_dqstring_def rfc2229_sqstring_def rfc2229_DQUOTE_def rfc2229_SQUOTE_def
        q split: option.splits simp del: plain.simps(3))
qed

end
