(* ===== verification/RFC4647.thy ===== *)
theory RFC4647
  imports RFC5234
begin

text \<open>
  Language ranges, \<^verbatim>\<open>grammars/RFC4647.hpp\<close>, and their language.
\<close>

subsection \<open>Imports from RFC5234\<close>

definition rfc4647_ALPHA :: rule where [grammar_defs]: "rfc4647_ALPHA = rfc5234_ALPHA"

subsection \<open>Punctuation terminals\<close>

definition rfc4647_Hyphen :: rule where [grammar_defs]:
  "rfc4647_Hyphen = CharacterR (CHR ''-'')"

definition rfc4647_Asterisk :: rule where [grammar_defs]:
  "rfc4647_Asterisk = CharacterR (CHR ''*'')"

subsection \<open>Bounded helpers\<close>

definition rfc4647_alpha_1_to_8 :: rule where [grammar_defs]:
  "rfc4647_alpha_1_to_8 =
     AndR [
       rfc4647_ALPHA,
       ZeroOrOne
         (AndR [
            rfc4647_ALPHA,
            ZeroOrOne
              (AndR [
                 rfc4647_ALPHA,
                 ZeroOrOne
                   (AndR [
                      rfc4647_ALPHA,
                      ZeroOrOne
                        (AndR [
                           rfc4647_ALPHA,
                           ZeroOrOne
                             (AndR [
                                rfc4647_ALPHA,
                                ZeroOrOne (AndR [rfc4647_ALPHA, ZeroOrOne rfc4647_ALPHA])])])])])])]"

subsection \<open>Rules\<close>

definition rfc4647_language_range :: rule where [grammar_defs]:
  "rfc4647_language_range =
     RuleD ''RFC4647::language_range''
       (OrR [
          AndR [
            rfc4647_alpha_1_to_8, ZeroOrMore (AndR [rfc4647_Hyphen, rfc4647_alpha_1_to_8])],
          rfc4647_Asterisk])"

subsection \<open>The language of basic language ranges\<close>

definition range_subtag :: "string \<Rightarrow> bool" where
  "range_subtag w \<longleftrightarrow> w \<noteq> [] \<and> length w \<le> 8 \<and> list_all is_letter w"

lemma plain_rfc4647_alpha_1_to_8:
  "plain rfc4647_alpha_1_to_8 = seq_fn [class_fn is_letter, upto_fn 7 is_letter]"
  by (simp add: rfc4647_alpha_1_to_8_def rfc4647_ALPHA_def plain_rfc5234_ALPHA plain_class
      plain_opt opt_fn_class numeral_eq_Suc del: seq_fn.simps plain.simps)

lemma rfc4647_subtag_reader:
  "word_reader (CHR ''-'') range_subtag (plain rfc4647_alpha_1_to_8)"
proof -
  have "\<not> is_letter (CHR ''-'')" by code_simp
  from bounded_word_reader [of is_letter, OF this, of 7] show ?thesis
    by (simp add: range_subtag_def [abs_def] plain_rfc4647_alpha_1_to_8)
qed

text \<open>The language-range rule of RFC 4647 accepts exactly the wildcard and the texts whose
  parts between hyphens are one to eight letters each: the hand-expanded repetition has the
  bounds of the specification and the greedy match never cuts a subtag short.\<close>

theorem rfc4647_language_range_language:
  "parser_accepts g rfc4647_language_range False [] w \<longleftrightarrow>
     w = ''*'' \<or> list_all range_subtag (split_on (CHR ''-'') w)"
proof -
  have c: "complete {} rfc4647_language_range" by (simp add: grammar_defs)
  let ?f = "\<lambda>s. map_option (star_fn (seq_fn [class_fn (\<lambda>x. x = CHR ''-''), plain rfc4647_alpha_1_to_8]))
      (plain rfc4647_alpha_1_to_8 s)"
  have p: "plain rfc4647_language_range w =
      (case ?f w of None \<Rightarrow> class_fn (\<lambda>x. x = CHR ''*'') w | Some i \<Rightarrow> Some i)"
    by (simp add: rfc4647_language_range_def rfc4647_Hyphen_def rfc4647_Asterisk_def plain_class
        split: option.split)
  have star: "?f (CHR ''*'' # cs) = None" for cs
    by (simp add: plain_rfc4647_alpha_1_to_8 is_letter_def less_eq_char_def)
  show ?thesis
    unfolding accepts_plain [OF c] words_star [OF rfc4647_subtag_reader, symmetric] p
    using star by (cases "?f w"; cases w) (auto split: if_splits)
qed

end
