(* ===== verification/RFC5536.thy ===== *)
theory RFC5536
  imports RFC5322 RFC3986
begin

text \<open>
  Netnews articles, \<^verbatim>\<open>grammars/RFC5536.hpp\<close>, on top of the rules of RFC 5322 and RFC 3986.
\<close>

subsection \<open>Imports from RFC5322 (and transitively RFC5234)\<close>

definition rfc5536_CRLF :: rule where [grammar_defs]: "rfc5536_CRLF = rfc5322_CRLF"
definition rfc5536_SP :: rule where [grammar_defs]: "rfc5536_SP = rfc5322_SP"
definition rfc5536_WSP :: rule where [grammar_defs]: "rfc5536_WSP = rfc5322_WSP"
definition rfc5536_FWS :: rule where [grammar_defs]: "rfc5536_FWS = rfc5322_FWS"
definition rfc5536_CFWS :: rule where [grammar_defs]: "rfc5536_CFWS = rfc5322_CFWS"
definition rfc5536_DIGIT :: rule where [grammar_defs]: "rfc5536_DIGIT = rfc5322_DIGIT"
definition rfc5536_ALPHA :: rule where [grammar_defs]: "rfc5536_ALPHA = rfc5322_ALPHA"
definition rfc5536_VCHAR :: rule where [grammar_defs]: "rfc5536_VCHAR = rfc5322_VCHAR"

definition rfc5536_quoted_string :: rule where [grammar_defs]:
  "rfc5536_quoted_string = rfc5322_quoted_string"

definition rfc5536_dot_atom_text :: rule where [grammar_defs]:
  "rfc5536_dot_atom_text = rfc5322_dot_atom_text"

definition rfc5536_phrase :: rule where [grammar_defs]: "rfc5536_phrase = rfc5322_phrase"

definition rfc5536_date_time :: rule where [grammar_defs]:
  "rfc5536_date_time = rfc5322_date_time"

definition rfc5536_mailbox :: rule where [grammar_defs]: "rfc5536_mailbox = rfc5322_mailbox"

definition rfc5536_mailbox_list :: rule where [grammar_defs]:
  "rfc5536_mailbox_list = rfc5322_mailbox_list"

definition rfc5536_address_list :: rule where [grammar_defs]:
  "rfc5536_address_list = rfc5322_address_list"

definition rfc5536_body :: rule where [grammar_defs]: "rfc5536_body = rfc5322_body"

subsection \<open>Imports from RFC3986 (for Path diagnostics)\<close>

definition rfc5536_IPv4address :: rule where [grammar_defs]:
  "rfc5536_IPv4address = rfc3986_IPv4address"

definition rfc5536_IPv6address :: rule where [grammar_defs]:
  "rfc5536_IPv6address = rfc3986_IPv6address"

subsection \<open>Punctuation terminals\<close>

definition rfc5536_Colon :: rule where [grammar_defs]: "rfc5536_Colon = CharacterR (CHR '':'')"

definition rfc5536_SemiColon :: rule where [grammar_defs]:
  "rfc5536_SemiColon = CharacterR (CHR '';'')"

definition rfc5536_Exclaimation :: rule where [grammar_defs]:
  "rfc5536_Exclaimation = CharacterR (CHR ''!'')"

definition rfc5536_Period :: rule where [grammar_defs]:
  "rfc5536_Period = CharacterR (CHR ''.'')"

definition rfc5536_Hyphen :: rule where [grammar_defs]:
  "rfc5536_Hyphen = CharacterR (CHR ''-'')"

definition rfc5536_UnderScore :: rule where [grammar_defs]:
  "rfc5536_UnderScore = CharacterR (CHR ''_'')"

definition rfc5536_Plus :: rule where [grammar_defs]: "rfc5536_Plus = CharacterR (CHR ''+'')"

definition rfc5536_OpenBracket :: rule where [grammar_defs]:
  "rfc5536_OpenBracket = CharacterR (CHR ''['')"

definition rfc5536_CloseBracket :: rule where [grammar_defs]:
  "rfc5536_CloseBracket = CharacterR (CHR '']'')"

definition rfc5536_OpenBrace :: rule where [grammar_defs]:
  "rfc5536_OpenBrace = CharacterR (CHR ''{'')"

definition rfc5536_CloseBrace :: rule where [grammar_defs]:
  "rfc5536_CloseBrace = CharacterR (CHR ''}'')"

definition rfc5536_LessThan :: rule where [grammar_defs]:
  "rfc5536_LessThan = CharacterR (CHR ''<'')"

definition rfc5536_GreaterThan :: rule where [grammar_defs]:
  "rfc5536_GreaterThan = CharacterR (CHR ''>'')"

definition rfc5536_At :: rule where [grammar_defs]: "rfc5536_At = CharacterR (CHR ''@'')"
definition rfc5536_Comma :: rule where [grammar_defs]: "rfc5536_Comma = CharacterR (CHR '','')"
definition rfc5536_Equal :: rule where [grammar_defs]: "rfc5536_Equal = CharacterR (CHR ''='')"

definition rfc5536_ForwardSlash :: rule where [grammar_defs]:
  "rfc5536_ForwardSlash = CharacterR (CHR ''/'')"

definition rfc5536_Hash :: rule where [grammar_defs]: "rfc5536_Hash = CharacterR (CHR ''#'')"

definition rfc5536_Dollar :: rule where [grammar_defs]:
  "rfc5536_Dollar = CharacterR (CHR ''$'')"

definition rfc5536_Percent :: rule where [grammar_defs]:
  "rfc5536_Percent = CharacterR (CHR ''%'')"

definition rfc5536_Ampersand :: rule where [grammar_defs]:
  "rfc5536_Ampersand = CharacterR (CHR ''&'')"

definition rfc5536_SingleQuote :: rule where [grammar_defs]:
  "rfc5536_SingleQuote = CharacterR (CHR 0x27)"

definition rfc5536_Asterisk :: rule where [grammar_defs]:
  "rfc5536_Asterisk = CharacterR (CHR ''*'')"

definition rfc5536_Caret :: rule where [grammar_defs]: "rfc5536_Caret = CharacterR (CHR ''^'')"

definition rfc5536_Backtick :: rule where [grammar_defs]:
  "rfc5536_Backtick = CharacterR (CHR 0x60)"

definition rfc5536_Pipe :: rule where [grammar_defs]: "rfc5536_Pipe = CharacterR (CHR ''|'')"
definition rfc5536_Tilde :: rule where [grammar_defs]: "rfc5536_Tilde = CharacterR (CHR ''~'')"

subsection \<open>Character-class terminals\<close>

definition rfc5536_MdtextLow :: rule where [grammar_defs]:
  "rfc5536_MdtextLow = CharactersR (CHR ''!'') (CHR ''='')"

definition rfc5536_MdtextMid :: rule where [grammar_defs]:
  "rfc5536_MdtextMid = CharactersR (CHR ''?'') (CHR ''Z'')"

definition rfc5536_MdtextHigh :: rule where [grammar_defs]:
  "rfc5536_MdtextHigh = CharactersR (CHR ''^'') (CHR ''~'')"

definition rfc5536_LocatorLow :: rule where [grammar_defs]:
  "rfc5536_LocatorLow = CharactersR (CHR ''!'') (CHR 0x27)"

definition rfc5536_LocatorMid :: rule where [grammar_defs]:
  "rfc5536_LocatorMid = CharactersR (CHR '')'') (CHR '':'')"

definition rfc5536_LocatorHigh :: rule where [grammar_defs]:
  "rfc5536_LocatorHigh = CharactersR (CHR ''<'') (CHR ''~'')"

subsection \<open>Header field name prefixes, section 3 (colon only; callers add the mandatory SP)\<close>

definition rfc5536_orig_date_prefix :: rule where [grammar_defs]:
  "rfc5536_orig_date_prefix = StringR ''Date:''"

definition rfc5536_from_prefix :: rule where [grammar_defs]:
  "rfc5536_from_prefix = StringR ''From:''"

definition rfc5536_message_id_prefix :: rule where [grammar_defs]:
  "rfc5536_message_id_prefix = StringR ''Message-ID:''"

definition rfc5536_newsgroups_prefix :: rule where [grammar_defs]:
  "rfc5536_newsgroups_prefix = StringR ''Newsgroups:''"

definition rfc5536_path_prefix :: rule where [grammar_defs]:
  "rfc5536_path_prefix = StringR ''Path:''"

definition rfc5536_subject_prefix :: rule where [grammar_defs]:
  "rfc5536_subject_prefix = StringR ''Subject:''"

definition rfc5536_approved_prefix :: rule where [grammar_defs]:
  "rfc5536_approved_prefix = StringR ''Approved:''"

definition rfc5536_archive_prefix :: rule where [grammar_defs]:
  "rfc5536_archive_prefix = StringR ''Archive:''"

definition rfc5536_control_prefix :: rule where [grammar_defs]:
  "rfc5536_control_prefix = StringR ''Control:''"

definition rfc5536_distribution_prefix :: rule where [grammar_defs]:
  "rfc5536_distribution_prefix = StringR ''Distribution:''"

definition rfc5536_expires_prefix :: rule where [grammar_defs]:
  "rfc5536_expires_prefix = StringR ''Expires:''"

definition rfc5536_followup_to_prefix :: rule where [grammar_defs]:
  "rfc5536_followup_to_prefix = StringR ''Followup-To:''"

definition rfc5536_injection_date_prefix :: rule where [grammar_defs]:
  "rfc5536_injection_date_prefix = StringR ''Injection-Date:''"

definition rfc5536_injection_info_prefix :: rule where [grammar_defs]:
  "rfc5536_injection_info_prefix = StringR ''Injection-Info:''"

definition rfc5536_lines_prefix :: rule where [grammar_defs]:
  "rfc5536_lines_prefix = StringR ''Lines:''"

definition rfc5536_organization_prefix :: rule where [grammar_defs]:
  "rfc5536_organization_prefix = StringR ''Organization:''"

definition rfc5536_references_prefix :: rule where [grammar_defs]:
  "rfc5536_references_prefix = StringR ''References:''"

definition rfc5536_summary_prefix :: rule where [grammar_defs]:
  "rfc5536_summary_prefix = StringR ''Summary:''"

definition rfc5536_supersedes_prefix :: rule where [grammar_defs]:
  "rfc5536_supersedes_prefix = StringR ''Supersedes:''"

definition rfc5536_user_agent_prefix :: rule where [grammar_defs]:
  "rfc5536_user_agent_prefix = StringR ''User-Agent:''"

definition rfc5536_xref_prefix :: rule where [grammar_defs]:
  "rfc5536_xref_prefix = StringR ''Xref:''"

definition rfc5536_comments_prefix :: rule where [grammar_defs]:
  "rfc5536_comments_prefix = StringR ''Comments:''"

definition rfc5536_keywords_prefix :: rule where [grammar_defs]:
  "rfc5536_keywords_prefix = StringR ''Keywords:''"

definition rfc5536_reply_to_prefix :: rule where [grammar_defs]:
  "rfc5536_reply_to_prefix = StringR ''Reply-To:''"

definition rfc5536_sender_prefix :: rule where [grammar_defs]:
  "rfc5536_sender_prefix = StringR ''Sender:''"

subsection \<open>Miscellaneous string literals\<close>

definition rfc5536_archive_no :: rule where [grammar_defs]:
  "rfc5536_archive_no = StringR ''no''"

definition rfc5536_archive_yes :: rule where [grammar_defs]:
  "rfc5536_archive_yes = StringR ''yes''"

definition rfc5536_poster_literal :: rule where [grammar_defs]:
  "rfc5536_poster_literal = StringR ''poster''"

subsection \<open>2.2 Restricted unstructured (stricter than RFC5322: forbids the empty match)\<close>

definition rfc5536_unstructured :: rule where [grammar_defs]:
  "rfc5536_unstructured =
     RuleD ''RFC5536::unstructured''
       (AndR [
          ZeroOrMore rfc5536_WSP, rfc5536_VCHAR,
          ZeroOrMore (AndR [ZeroOrOne rfc5536_FWS, rfc5536_VCHAR]), ZeroOrMore rfc5536_WSP])"

subsection \<open>Generic token / parameter grammar (shared by Control, User-Agent, Archive, Injection-Info)\<close>

definition rfc5536_tchar :: rule where [grammar_defs]:
  "rfc5536_tchar =
     OrR [
       rfc5536_ALPHA, rfc5536_DIGIT, rfc5536_Exclaimation, rfc5536_Hash, rfc5536_Dollar,
       rfc5536_Percent, rfc5536_Ampersand, rfc5536_SingleQuote, rfc5536_Asterisk,
       rfc5536_Plus, rfc5536_Hyphen, rfc5536_Period, rfc5536_Caret, rfc5536_UnderScore,
       rfc5536_Backtick, rfc5536_OpenBrace, rfc5536_CloseBrace, rfc5536_Pipe, rfc5536_Tilde]"

definition rfc5536_token :: rule where [grammar_defs]:
  "rfc5536_token = RuleD ''RFC5536::token'' (OneOrMore rfc5536_tchar)"

definition rfc5536_attribute :: rule where [grammar_defs]:
  "rfc5536_attribute = RuleD ''RFC5536::attribute'' rfc5536_token"

definition rfc5536_value :: rule where [grammar_defs]:
  "rfc5536_value = RuleD ''RFC5536::value'' (OrR [rfc5536_token, rfc5536_quoted_string])"

definition rfc5536_parameter :: rule where [grammar_defs]:
  "rfc5536_parameter =
     RuleD ''RFC5536::parameter''
       (AndR [
          rfc5536_attribute, ZeroOrOne rfc5536_CFWS, rfc5536_Equal, ZeroOrOne rfc5536_CFWS,
          rfc5536_value])"

subsection \<open>3.1 Mandatory Header Fields\<close>

definition rfc5536_mdtext :: rule where [grammar_defs]:
  "rfc5536_mdtext = OrR [rfc5536_MdtextLow, rfc5536_MdtextMid, rfc5536_MdtextHigh]"

definition rfc5536_no_fold_literal :: rule where [grammar_defs]:
  "rfc5536_no_fold_literal =
     RuleD ''RFC5536::no_fold_literal''
       (AndR [rfc5536_OpenBracket, ZeroOrMore rfc5536_mdtext, rfc5536_CloseBracket])"

definition rfc5536_id_left :: rule where [grammar_defs]:
  "rfc5536_id_left = RuleD ''RFC5536::id_left'' rfc5536_dot_atom_text"

definition rfc5536_id_right :: rule where [grammar_defs]:
  "rfc5536_id_right =
     RuleD ''RFC5536::id_right'' (OrR [rfc5536_dot_atom_text, rfc5536_no_fold_literal])"

definition rfc5536_msg_id_core :: rule where [grammar_defs]:
  "rfc5536_msg_id_core =
     RuleD ''RFC5536::msg_id_core'' (AndR [rfc5536_id_left, rfc5536_At, rfc5536_id_right])"

definition rfc5536_msg_id :: rule where [grammar_defs]:
  "rfc5536_msg_id =
     RuleD ''RFC5536::msg_id''
       (AndR [rfc5536_LessThan, rfc5536_msg_id_core, rfc5536_GreaterThan])"

definition rfc5536_message_id :: rule where [grammar_defs]:
  "rfc5536_message_id =
     RuleD ''RFC5536::message_id''
       (AndR [
          rfc5536_message_id_prefix, rfc5536_SP, ZeroOrMore rfc5536_WSP, rfc5536_msg_id,
          ZeroOrMore rfc5536_WSP, rfc5536_CRLF])"

definition rfc5536_orig_date :: rule where [grammar_defs]:
  "rfc5536_orig_date =
     RuleD ''RFC5536::orig_date''
       (AndR [rfc5536_orig_date_prefix, rfc5536_SP, rfc5536_date_time, rfc5536_CRLF])"

definition rfc5536_from :: rule where [grammar_defs]:
  "rfc5536_from =
     RuleD ''RFC5536::from''
       (AndR [rfc5536_from_prefix, rfc5536_SP, rfc5536_mailbox_list, rfc5536_CRLF])"

definition rfc5536_component_char :: rule where [grammar_defs]:
  "rfc5536_component_char =
     OrR [rfc5536_ALPHA, rfc5536_DIGIT, rfc5536_Plus, rfc5536_Hyphen, rfc5536_UnderScore]"

definition rfc5536_component :: rule where [grammar_defs]:
  "rfc5536_component = RuleD ''RFC5536::component'' (OneOrMore rfc5536_component_char)"

definition rfc5536_newsgroup_name :: rule where [grammar_defs]:
  "rfc5536_newsgroup_name =
     RuleD ''RFC5536::newsgroup_name''
       (AndR [rfc5536_component, ZeroOrMore (AndR [rfc5536_Period, rfc5536_component])])"

definition rfc5536_newsgroup_list :: rule where [grammar_defs]:
  "rfc5536_newsgroup_list =
     RuleD ''RFC5536::newsgroup_list''
       (AndR [
          ZeroOrMore rfc5536_WSP, rfc5536_newsgroup_name,
          ZeroOrMore
            (AndR [
               ZeroOrOne rfc5536_FWS, rfc5536_Comma, ZeroOrOne rfc5536_FWS,
               rfc5536_newsgroup_name]),
          ZeroOrMore rfc5536_WSP])"

definition rfc5536_newsgroups :: rule where [grammar_defs]:
  "rfc5536_newsgroups =
     RuleD ''RFC5536::newsgroups''
       (AndR [rfc5536_newsgroups_prefix, rfc5536_SP, rfc5536_newsgroup_list, rfc5536_CRLF])"

definition rfc5536_alphanum :: rule where [grammar_defs]:
  "rfc5536_alphanum = OrR [rfc5536_ALPHA, rfc5536_DIGIT]"

definition rfc5536_path_nodot :: rule where [grammar_defs]:
  "rfc5536_path_nodot =
     RuleD ''RFC5536::path_nodot''
       (OneOrMore (OrR [rfc5536_alphanum, rfc5536_Hyphen, rfc5536_UnderScore]))"

definition rfc5536_label :: rule where [grammar_defs]:
  "rfc5536_label =
     RuleD ''RFC5536::label''
       (AndR [rfc5536_alphanum, ZeroOrMore (OrR [rfc5536_alphanum, rfc5536_Hyphen])])"

definition rfc5536_toplabel :: rule where [grammar_defs]:
  "rfc5536_toplabel =
     RuleD ''RFC5536::toplabel''
       (AndR [rfc5536_ALPHA, ZeroOrMore (OrR [rfc5536_alphanum, rfc5536_Hyphen])])"

definition rfc5536_path_identity :: rule where [grammar_defs]:
  "rfc5536_path_identity =
     RuleD ''RFC5536::path_identity''
       (OrR [
          AndR [OneOrMore (AndR [rfc5536_label, rfc5536_Period]), rfc5536_toplabel],
          rfc5536_path_nodot])"

definition rfc5536_diag_keyword :: rule where [grammar_defs]:
  "rfc5536_diag_keyword = RuleD ''RFC5536::diag_keyword'' (OneOrMore rfc5536_ALPHA)"

definition rfc5536_diag_identity :: rule where [grammar_defs]:
  "rfc5536_diag_identity =
     RuleD ''RFC5536::diag_identity''
       (OrR [rfc5536_path_identity, rfc5536_IPv4address, rfc5536_IPv6address])"

definition rfc5536_diag_match :: rule where [grammar_defs]:
  "rfc5536_diag_match = RuleD ''RFC5536::diag_match'' rfc5536_Exclaimation"

definition rfc5536_diag_other :: rule where [grammar_defs]:
  "rfc5536_diag_other =
     RuleD ''RFC5536::diag_other''
       (AndR [
          rfc5536_Exclaimation, rfc5536_Period, rfc5536_diag_keyword,
          ZeroOrOne (AndR [rfc5536_Period, rfc5536_diag_identity]), ZeroOrOne rfc5536_FWS])"

definition rfc5536_diag_deprecated :: rule where [grammar_defs]:
  "rfc5536_diag_deprecated =
     RuleD ''RFC5536::diag_deprecated''
       (AndR [rfc5536_Exclaimation, rfc5536_IPv4address, ZeroOrOne rfc5536_FWS])"

definition rfc5536_path_diagnostic :: rule where [grammar_defs]:
  "rfc5536_path_diagnostic =
     RuleD ''RFC5536::path_diagnostic''
       (OrR [rfc5536_diag_other, rfc5536_diag_deprecated, rfc5536_diag_match])"

definition rfc5536_path_list_item :: rule where [grammar_defs]:
  "rfc5536_path_list_item =
     AndR [
       rfc5536_path_identity, ZeroOrOne rfc5536_FWS,
       OrR [
         AndR [rfc5536_diag_other, rfc5536_Exclaimation],
         AndR [rfc5536_diag_deprecated, rfc5536_Exclaimation],
         AndR [rfc5536_Exclaimation, rfc5536_Exclaimation], rfc5536_Exclaimation]]"

definition rfc5536_path_list :: rule where [grammar_defs]:
  "rfc5536_path_list = RuleD ''RFC5536::path_list'' (ZeroOrMore rfc5536_path_list_item)"

definition rfc5536_tail_entry :: rule where [grammar_defs]:
  "rfc5536_tail_entry = RuleD ''RFC5536::tail_entry'' rfc5536_path_nodot"

definition rfc5536_path :: rule where [grammar_defs]:
  "rfc5536_path =
     RuleD ''RFC5536::path''
       (AndR [
          rfc5536_path_prefix, rfc5536_SP, ZeroOrMore rfc5536_WSP, rfc5536_path_list,
          rfc5536_tail_entry, ZeroOrMore rfc5536_WSP, rfc5536_CRLF])"

definition rfc5536_subject :: rule where [grammar_defs]:
  "rfc5536_subject =
     RuleD ''RFC5536::subject''
       (AndR [rfc5536_subject_prefix, rfc5536_SP, rfc5536_unstructured, rfc5536_CRLF])"

subsection \<open>3.2 Optional Header Fields\<close>

definition rfc5536_approved :: rule where [grammar_defs]:
  "rfc5536_approved =
     RuleD ''RFC5536::approved''
       (AndR [rfc5536_approved_prefix, rfc5536_SP, rfc5536_mailbox_list, rfc5536_CRLF])"

definition rfc5536_archive_param :: rule where [grammar_defs]:
  "rfc5536_archive_param = RuleD ''RFC5536::archive_param'' rfc5536_parameter"

definition rfc5536_archive :: rule where [grammar_defs]:
  "rfc5536_archive =
     RuleD ''RFC5536::archive''
       (AndR [
          rfc5536_archive_prefix, rfc5536_SP, ZeroOrOne rfc5536_CFWS,
          OrR [rfc5536_archive_no, rfc5536_archive_yes],
          ZeroOrMore
            (AndR [
               ZeroOrOne rfc5536_CFWS, rfc5536_SemiColon, ZeroOrOne rfc5536_CFWS,
               rfc5536_archive_param]),
          ZeroOrOne rfc5536_CFWS, rfc5536_CRLF])"

definition rfc5536_verb :: rule where [grammar_defs]:
  "rfc5536_verb = RuleD ''RFC5536::verb'' rfc5536_token"

definition rfc5536_argument :: rule where [grammar_defs]:
  "rfc5536_argument = RuleD ''RFC5536::argument'' (OneOrMore rfc5536_VCHAR)"

definition rfc5536_control_command :: rule where [grammar_defs]:
  "rfc5536_control_command =
     RuleD ''RFC5536::control_command''
       (AndR [rfc5536_verb, ZeroOrMore (AndR [OneOrMore rfc5536_WSP, rfc5536_argument])])"

definition rfc5536_control :: rule where [grammar_defs]:
  "rfc5536_control =
     RuleD ''RFC5536::control''
       (AndR [
          rfc5536_control_prefix, rfc5536_SP, ZeroOrMore rfc5536_WSP,
          rfc5536_control_command, ZeroOrMore rfc5536_WSP, rfc5536_CRLF])"

definition rfc5536_dist_name :: rule where [grammar_defs]:
  "rfc5536_dist_name =
     RuleD ''RFC5536::dist_name''
       (AndR [OrR [rfc5536_ALPHA, rfc5536_DIGIT], ZeroOrMore rfc5536_component_char])"

definition rfc5536_dist_list :: rule where [grammar_defs]:
  "rfc5536_dist_list =
     RuleD ''RFC5536::dist_list''
       (AndR [
          ZeroOrMore rfc5536_WSP, rfc5536_dist_name,
          ZeroOrMore
            (AndR [
               ZeroOrOne rfc5536_FWS, rfc5536_Comma, ZeroOrOne rfc5536_FWS, rfc5536_dist_name]),
          ZeroOrMore rfc5536_WSP])"

definition rfc5536_distribution :: rule where [grammar_defs]:
  "rfc5536_distribution =
     RuleD ''RFC5536::distribution''
       (AndR [rfc5536_distribution_prefix, rfc5536_SP, rfc5536_dist_list, rfc5536_CRLF])"

definition rfc5536_expires :: rule where [grammar_defs]:
  "rfc5536_expires =
     RuleD ''RFC5536::expires''
       (AndR [rfc5536_expires_prefix, rfc5536_SP, rfc5536_date_time, rfc5536_CRLF])"

definition rfc5536_poster_text :: rule where [grammar_defs]:
  "rfc5536_poster_text =
     RuleD ''RFC5536::poster_text''
       (AndR [ZeroOrMore rfc5536_WSP, rfc5536_poster_literal, ZeroOrMore rfc5536_WSP])"

definition rfc5536_followup_to :: rule where [grammar_defs]:
  "rfc5536_followup_to =
     RuleD ''RFC5536::followup_to''
       (AndR [
          rfc5536_followup_to_prefix, rfc5536_SP,
          OrR [rfc5536_newsgroup_list, rfc5536_poster_text], rfc5536_CRLF])"

definition rfc5536_injection_date :: rule where [grammar_defs]:
  "rfc5536_injection_date =
     RuleD ''RFC5536::injection_date''
       (AndR [rfc5536_injection_date_prefix, rfc5536_SP, rfc5536_date_time, rfc5536_CRLF])"

definition rfc5536_injection_info :: rule where [grammar_defs]:
  "rfc5536_injection_info =
     RuleD ''RFC5536::injection_info''
       (AndR [
          rfc5536_injection_info_prefix, rfc5536_SP, ZeroOrOne rfc5536_CFWS,
          rfc5536_path_identity, ZeroOrOne rfc5536_CFWS,
          ZeroOrMore (AndR [rfc5536_SemiColon, ZeroOrOne rfc5536_CFWS, rfc5536_parameter]),
          ZeroOrOne rfc5536_CFWS, rfc5536_CRLF])"

definition rfc5536_organization :: rule where [grammar_defs]:
  "rfc5536_organization =
     RuleD ''RFC5536::organization''
       (AndR [rfc5536_organization_prefix, rfc5536_SP, rfc5536_unstructured, rfc5536_CRLF])"

definition rfc5536_references :: rule where [grammar_defs]:
  "rfc5536_references =
     RuleD ''RFC5536::references''
       (AndR [
          rfc5536_references_prefix, rfc5536_SP, ZeroOrOne rfc5536_CFWS, rfc5536_msg_id,
          ZeroOrMore (AndR [rfc5536_CFWS, rfc5536_msg_id]), ZeroOrOne rfc5536_CFWS,
          rfc5536_CRLF])"

definition rfc5536_summary :: rule where [grammar_defs]:
  "rfc5536_summary =
     RuleD ''RFC5536::summary''
       (AndR [rfc5536_summary_prefix, rfc5536_SP, rfc5536_unstructured, rfc5536_CRLF])"

definition rfc5536_supersedes :: rule where [grammar_defs]:
  "rfc5536_supersedes =
     RuleD ''RFC5536::supersedes''
       (AndR [
          rfc5536_supersedes_prefix, rfc5536_SP, ZeroOrMore rfc5536_WSP, rfc5536_msg_id,
          ZeroOrMore rfc5536_WSP, rfc5536_CRLF])"

definition rfc5536_product_version :: rule where [grammar_defs]:
  "rfc5536_product_version =
     RuleD ''RFC5536::product_version'' (AndR [ZeroOrOne rfc5536_CFWS, rfc5536_token])"

definition rfc5536_product :: rule where [grammar_defs]:
  "rfc5536_product =
     RuleD ''RFC5536::product''
       (AndR [
          ZeroOrOne rfc5536_CFWS, rfc5536_token,
          ZeroOrOne
            (AndR [ZeroOrOne rfc5536_CFWS, rfc5536_ForwardSlash, rfc5536_product_version])])"

definition rfc5536_user_agent :: rule where [grammar_defs]:
  "rfc5536_user_agent =
     RuleD ''RFC5536::user_agent''
       (AndR [
          rfc5536_user_agent_prefix, rfc5536_SP, OneOrMore rfc5536_product,
          ZeroOrOne rfc5536_CFWS, rfc5536_CRLF])"

definition rfc5536_server_name :: rule where [grammar_defs]:
  "rfc5536_server_name = RuleD ''RFC5536::server_name'' rfc5536_path_identity"

definition rfc5536_article_locator :: rule where [grammar_defs]:
  "rfc5536_article_locator =
     RuleD ''RFC5536::article_locator''
       (OneOrMore (OrR [rfc5536_LocatorLow, rfc5536_LocatorMid, rfc5536_LocatorHigh]))"

definition rfc5536_location :: rule where [grammar_defs]:
  "rfc5536_location =
     RuleD ''RFC5536::location''
       (AndR [rfc5536_newsgroup_name, rfc5536_Colon, rfc5536_article_locator])"

definition rfc5536_xref :: rule where [grammar_defs]:
  "rfc5536_xref =
     RuleD ''RFC5536::xref''
       (AndR [
          rfc5536_xref_prefix, rfc5536_SP, ZeroOrMore rfc5536_WSP, rfc5536_server_name,
          OneOrMore (AndR [rfc5536_FWS, rfc5536_location]), ZeroOrMore rfc5536_WSP,
          rfc5536_CRLF])"

subsection \<open>3.3 Obsolete Header Fields\<close>

definition rfc5536_lines :: rule where [grammar_defs]:
  "rfc5536_lines =
     RuleD ''RFC5536::lines''
       (AndR [
          rfc5536_lines_prefix, rfc5536_SP, ZeroOrMore rfc5536_WSP, OneOrMore rfc5536_DIGIT,
          ZeroOrMore rfc5536_WSP, rfc5536_CRLF])"

subsection \<open>RFC5322-style optional headers, redefined here with the mandatory SP after colon\<close>

definition rfc5536_comments :: rule where [grammar_defs]:
  "rfc5536_comments =
     RuleD ''RFC5536::comments''
       (AndR [rfc5536_comments_prefix, rfc5536_SP, rfc5536_unstructured, rfc5536_CRLF])"

definition rfc5536_keywords :: rule where [grammar_defs]:
  "rfc5536_keywords =
     RuleD ''RFC5536::keywords''
       (AndR [
          rfc5536_keywords_prefix, rfc5536_SP, rfc5536_phrase,
          ZeroOrMore (AndR [rfc5536_Comma, rfc5536_phrase]), rfc5536_CRLF])"

definition rfc5536_reply_to :: rule where [grammar_defs]:
  "rfc5536_reply_to =
     RuleD ''RFC5536::reply_to''
       (AndR [rfc5536_reply_to_prefix, rfc5536_SP, rfc5536_address_list, rfc5536_CRLF])"

definition rfc5536_sender :: rule where [grammar_defs]:
  "rfc5536_sender =
     RuleD ''RFC5536::sender''
       (AndR [rfc5536_sender_prefix, rfc5536_SP, rfc5536_mailbox, rfc5536_CRLF])"

subsection \<open>3. News Header Fields - fields extension, and the article as a whole\<close>

definition rfc5536_fields_alt :: rule where [grammar_defs]:
  "rfc5536_fields_alt =
     OrR [
       rfc5536_approved, rfc5536_archive, rfc5536_control, rfc5536_distribution,
       rfc5536_expires, rfc5536_followup_to, rfc5536_injection_date, rfc5536_injection_info,
       rfc5536_lines, rfc5536_newsgroups, rfc5536_organization, rfc5536_path,
       rfc5536_summary, rfc5536_supersedes, rfc5536_user_agent, rfc5536_xref]"

definition rfc5536_fields :: rule where [grammar_defs]:
  "rfc5536_fields = RuleD ''RFC5536::fields'' (ZeroOrMore rfc5536_fields_alt)"

definition rfc5536_article_header_alt :: rule where [grammar_defs]:
  "rfc5536_article_header_alt =
     OrR [
       rfc5536_orig_date, rfc5536_from, rfc5536_message_id, rfc5536_newsgroups, rfc5536_path,
       rfc5536_subject, rfc5536_fields_alt, rfc5536_comments, rfc5536_keywords,
       rfc5536_reply_to, rfc5536_sender, rfc5322_optional_field]"

definition rfc5536_article_header :: rule where [grammar_defs]:
  "rfc5536_article_header = RuleD ''RFC5536::article_header'' rfc5536_article_header_alt"

definition rfc5536_article :: rule where [grammar_defs]:
  "rfc5536_article =
     RuleD ''RFC5536::article''
       (AndR [
          OneOrMore rfc5536_article_header, ZeroOrOne (AndR [rfc5536_CRLF, rfc5536_body])])"

end
