(* ===== verification/RFC5646.thy ===== *)
theory RFC5646
  imports RFC5234
begin

text \<open>
  Language tags, \<^verbatim>\<open>grammars/RFC5646.hpp\<close>, and what the order of the alternatives of
  \<open>Language_Tag\<close> rejects.
\<close>

subsection \<open>Imports from RFC5234\<close>

definition rfc5646_ALPHA :: rule where [grammar_defs]: "rfc5646_ALPHA = rfc5234_ALPHA"
definition rfc5646_DIGIT :: rule where [grammar_defs]: "rfc5646_DIGIT = rfc5234_DIGIT"

subsection \<open>Punctuation / ranges\<close>

definition rfc5646_Hyphen :: rule where [grammar_defs]:
  "rfc5646_Hyphen = CharacterR (CHR ''-'')"

definition rfc5646_x :: rule where [grammar_defs]: "rfc5646_x = CharacterR (CHR ''x'')"

definition rfc5646_SingletonUpperAW :: rule where [grammar_defs]:
  "rfc5646_SingletonUpperAW = CharactersR (CHR ''A'') (CHR ''W'')"

definition rfc5646_SingletonUpperYZ :: rule where [grammar_defs]:
  "rfc5646_SingletonUpperYZ = CharactersR (CHR ''Y'') (CHR ''Z'')"

definition rfc5646_SingletonLowerAW :: rule where [grammar_defs]:
  "rfc5646_SingletonLowerAW = CharactersR (CHR ''a'') (CHR ''w'')"

definition rfc5646_SingletonLowerYZ :: rule where [grammar_defs]:
  "rfc5646_SingletonLowerYZ = CharactersR (CHR ''y'') (CHR ''z'')"

definition rfc5646_alphanum :: rule where [grammar_defs]:
  "rfc5646_alphanum = OrR [rfc5646_ALPHA, rfc5646_DIGIT]"

subsection \<open>String terminals - grandfathered\<close>

definition rfc5646_en_GB_oed :: rule where [grammar_defs]:
  "rfc5646_en_GB_oed = StringR ''en-GB-oed''"

definition rfc5646_i_ami :: rule where [grammar_defs]: "rfc5646_i_ami = StringR ''i-ami''"
definition rfc5646_i_bnn :: rule where [grammar_defs]: "rfc5646_i_bnn = StringR ''i-bnn''"

definition rfc5646_i_default :: rule where [grammar_defs]:
  "rfc5646_i_default = StringR ''i-default''"

definition rfc5646_i_enochian :: rule where [grammar_defs]:
  "rfc5646_i_enochian = StringR ''i-enochian''"

definition rfc5646_i_hak :: rule where [grammar_defs]: "rfc5646_i_hak = StringR ''i-hak''"

definition rfc5646_i_klingon :: rule where [grammar_defs]:
  "rfc5646_i_klingon = StringR ''i-klingon''"

definition rfc5646_i_lux :: rule where [grammar_defs]: "rfc5646_i_lux = StringR ''i-lux''"
definition rfc5646_i_mingo :: rule where [grammar_defs]: "rfc5646_i_mingo = StringR ''i-mingo''"

definition rfc5646_i_navajo :: rule where [grammar_defs]:
  "rfc5646_i_navajo = StringR ''i-navajo''"

definition rfc5646_i_pwn :: rule where [grammar_defs]: "rfc5646_i_pwn = StringR ''i-pwn''"
definition rfc5646_i_tao :: rule where [grammar_defs]: "rfc5646_i_tao = StringR ''i-tao''"
definition rfc5646_i_tay :: rule where [grammar_defs]: "rfc5646_i_tay = StringR ''i-tay''"
definition rfc5646_i_tsu :: rule where [grammar_defs]: "rfc5646_i_tsu = StringR ''i-tsu''"

definition rfc5646_sgn_BE_FR :: rule where [grammar_defs]:
  "rfc5646_sgn_BE_FR = StringR ''sgn-BE-FR''"

definition rfc5646_sgn_BE_NL :: rule where [grammar_defs]:
  "rfc5646_sgn_BE_NL = StringR ''sgn-BE-NL''"

definition rfc5646_sgn_CH_DE :: rule where [grammar_defs]:
  "rfc5646_sgn_CH_DE = StringR ''sgn-CH-DE''"

definition rfc5646_art_lojban :: rule where [grammar_defs]:
  "rfc5646_art_lojban = StringR ''art-lojban''"

definition rfc5646_cel_gaulish :: rule where [grammar_defs]:
  "rfc5646_cel_gaulish = StringR ''cel-gaulish''"

definition rfc5646_no_bok :: rule where [grammar_defs]: "rfc5646_no_bok = StringR ''no-bok''"
definition rfc5646_no_nyn :: rule where [grammar_defs]: "rfc5646_no_nyn = StringR ''no-nyn''"

definition rfc5646_zh_guoyu :: rule where [grammar_defs]:
  "rfc5646_zh_guoyu = StringR ''zh-guoyu''"

definition rfc5646_zh_hakka :: rule where [grammar_defs]:
  "rfc5646_zh_hakka = StringR ''zh-hakka''"

definition rfc5646_zh_min_nan :: rule where [grammar_defs]:
  "rfc5646_zh_min_nan = StringR ''zh-min-nan''"

definition rfc5646_zh_min :: rule where [grammar_defs]: "rfc5646_zh_min = StringR ''zh-min''"

definition rfc5646_zh_xiang :: rule where [grammar_defs]:
  "rfc5646_zh_xiang = StringR ''zh-xiang''"

subsection \<open>Bounded helpers\<close>

definition rfc5646_not_ALPHA :: rule where [grammar_defs]:
  "rfc5646_not_ALPHA = NotR [rfc5646_ALPHA]"

definition rfc5646_not_alphanum :: rule where [grammar_defs]:
  "rfc5646_not_alphanum = NotR [rfc5646_alphanum]"

definition rfc5646_not_DIGIT :: rule where [grammar_defs]:
  "rfc5646_not_DIGIT = NotR [rfc5646_DIGIT]"

definition rfc5646_alpha_2_to_3 :: rule where [grammar_defs]:
  "rfc5646_alpha_2_to_3 = AndR [rfc5646_ALPHA, rfc5646_ALPHA, ZeroOrOne rfc5646_ALPHA]"

definition rfc5646_alpha_3 :: rule where [grammar_defs]:
  "rfc5646_alpha_3 = AndR [rfc5646_ALPHA, rfc5646_ALPHA, rfc5646_ALPHA]"

definition rfc5646_alpha_4 :: rule where [grammar_defs]:
  "rfc5646_alpha_4 = AndR [rfc5646_ALPHA, rfc5646_ALPHA, rfc5646_ALPHA, rfc5646_ALPHA]"

definition rfc5646_alpha_5_to_8 :: rule where [grammar_defs]:
  "rfc5646_alpha_5_to_8 =
     AndR [
       rfc5646_ALPHA, rfc5646_ALPHA, rfc5646_ALPHA, rfc5646_ALPHA, rfc5646_ALPHA,
       ZeroOrOne
         (AndR [rfc5646_ALPHA, ZeroOrOne (AndR [rfc5646_ALPHA, ZeroOrOne rfc5646_ALPHA])])]"

definition rfc5646_digit_3 :: rule where [grammar_defs]:
  "rfc5646_digit_3 = AndR [rfc5646_DIGIT, rfc5646_DIGIT, rfc5646_DIGIT]"

definition rfc5646_alpha_2 :: rule where [grammar_defs]:
  "rfc5646_alpha_2 = AndR [rfc5646_ALPHA, rfc5646_ALPHA]"

definition rfc5646_alphanum_1_to_8 :: rule where [grammar_defs]:
  "rfc5646_alphanum_1_to_8 =
     AndR [
       rfc5646_alphanum,
       ZeroOrOne
         (AndR [
            rfc5646_alphanum,
            ZeroOrOne
              (AndR [
                 rfc5646_alphanum,
                 ZeroOrOne
                   (AndR [
                      rfc5646_alphanum,
                      ZeroOrOne
                        (AndR [
                           rfc5646_alphanum,
                           ZeroOrOne
                             (AndR [
                                rfc5646_alphanum,
                                ZeroOrOne
                                  (AndR [rfc5646_alphanum, ZeroOrOne rfc5646_alphanum])])])])])])]"

definition rfc5646_alphanum_2_to_8 :: rule where [grammar_defs]:
  "rfc5646_alphanum_2_to_8 =
     AndR [
       rfc5646_alphanum, rfc5646_alphanum,
       ZeroOrOne
         (AndR [
            rfc5646_alphanum,
            ZeroOrOne
              (AndR [
                 rfc5646_alphanum,
                 ZeroOrOne
                   (AndR [
                      rfc5646_alphanum,
                      ZeroOrOne
                        (AndR [
                           rfc5646_alphanum,
                           ZeroOrOne (AndR [rfc5646_alphanum, ZeroOrOne rfc5646_alphanum])])])])])]"

definition rfc5646_alphanum_3 :: rule where [grammar_defs]:
  "rfc5646_alphanum_3 = AndR [rfc5646_alphanum, rfc5646_alphanum, rfc5646_alphanum]"

definition rfc5646_alphanum_5_to_8 :: rule where [grammar_defs]:
  "rfc5646_alphanum_5_to_8 =
     AndR [
       rfc5646_alphanum, rfc5646_alphanum, rfc5646_alphanum, rfc5646_alphanum,
       rfc5646_alphanum,
       ZeroOrOne
         (AndR [
            rfc5646_alphanum, ZeroOrOne (AndR [rfc5646_alphanum, ZeroOrOne rfc5646_alphanum])])]"

definition rfc5646_hyphen_alpha3_subtag :: rule where [grammar_defs]:
  "rfc5646_hyphen_alpha3_subtag = AndR [rfc5646_Hyphen, rfc5646_alpha_3, rfc5646_not_ALPHA]"

definition rfc5646_up_to_2_hyphen_alpha3 :: rule where [grammar_defs]:
  "rfc5646_up_to_2_hyphen_alpha3 =
     ZeroOrOne (AndR [rfc5646_hyphen_alpha3_subtag, ZeroOrOne rfc5646_hyphen_alpha3_subtag])"

subsection \<open>2.1 Syntax\<close>

definition rfc5646_singleton :: rule where [grammar_defs]:
  "rfc5646_singleton =
     RuleD ''RFC5646::singleton''
       (OrR [
          rfc5646_DIGIT, rfc5646_SingletonUpperAW, rfc5646_SingletonUpperYZ,
          rfc5646_SingletonLowerAW, rfc5646_SingletonLowerYZ])"

definition rfc5646_extlang :: rule where [grammar_defs]:
  "rfc5646_extlang =
     RuleD ''RFC5646::extlang''
       (AndR [rfc5646_alpha_3, rfc5646_not_ALPHA, rfc5646_up_to_2_hyphen_alpha3])"

definition rfc5646_language :: rule where [grammar_defs]:
  "rfc5646_language =
     RuleD ''RFC5646::language''
       (OrR [
          AndR [rfc5646_alpha_5_to_8, rfc5646_not_ALPHA],
          AndR [rfc5646_alpha_4, rfc5646_not_ALPHA],
          AndR [
            rfc5646_alpha_2_to_3, rfc5646_not_ALPHA,
            ZeroOrOne (AndR [rfc5646_Hyphen, rfc5646_extlang])]])"

definition rfc5646_script :: rule where [grammar_defs]:
  "rfc5646_script = RuleD ''RFC5646::script'' (AndR [rfc5646_alpha_4, rfc5646_not_ALPHA])"

definition rfc5646_region :: rule where [grammar_defs]:
  "rfc5646_region =
     RuleD ''RFC5646::region''
       (OrR [
          AndR [rfc5646_alpha_2, rfc5646_not_ALPHA],
          AndR [rfc5646_digit_3, rfc5646_not_DIGIT]])"

definition rfc5646_variant :: rule where [grammar_defs]:
  "rfc5646_variant =
     RuleD ''RFC5646::variant''
       (OrR [
          AndR [rfc5646_alphanum_5_to_8, rfc5646_not_alphanum],
          AndR [rfc5646_DIGIT, rfc5646_alphanum_3, rfc5646_not_alphanum]])"

definition rfc5646_extension :: rule where [grammar_defs]:
  "rfc5646_extension =
     RuleD ''RFC5646::extension''
       (AndR [
          rfc5646_singleton,
          OneOrMore (AndR [rfc5646_Hyphen, rfc5646_alphanum_2_to_8, rfc5646_not_alphanum])])"

definition rfc5646_privateuse :: rule where [grammar_defs]:
  "rfc5646_privateuse =
     RuleD ''RFC5646::privateuse''
       (AndR [
          rfc5646_x,
          OneOrMore (AndR [rfc5646_Hyphen, rfc5646_alphanum_1_to_8, rfc5646_not_alphanum])])"

definition rfc5646_irregular :: rule where [grammar_defs]:
  "rfc5646_irregular =
     RuleD ''RFC5646::irregular''
       (OrR [
          rfc5646_en_GB_oed, rfc5646_i_default, rfc5646_i_enochian, rfc5646_i_klingon,
          rfc5646_i_navajo, rfc5646_i_ami, rfc5646_i_bnn, rfc5646_i_hak, rfc5646_i_lux,
          rfc5646_i_mingo, rfc5646_i_pwn, rfc5646_i_tao, rfc5646_i_tay, rfc5646_i_tsu,
          rfc5646_sgn_BE_FR, rfc5646_sgn_BE_NL, rfc5646_sgn_CH_DE])"

definition rfc5646_regular :: rule where [grammar_defs]:
  "rfc5646_regular =
     RuleD ''RFC5646::regular''
       (OrR [
          rfc5646_art_lojban, rfc5646_cel_gaulish, rfc5646_no_bok, rfc5646_no_nyn,
          rfc5646_zh_guoyu, rfc5646_zh_hakka, rfc5646_zh_min_nan, rfc5646_zh_xiang,
          rfc5646_zh_min])"

definition rfc5646_grandfathered :: rule where [grammar_defs]:
  "rfc5646_grandfathered =
     RuleD ''RFC5646::grandfathered'' (OrR [rfc5646_irregular, rfc5646_regular])"

definition rfc5646_langtag :: rule where [grammar_defs]:
  "rfc5646_langtag =
     RuleD ''RFC5646::langtag''
       (AndR [
          rfc5646_language, ZeroOrOne (AndR [rfc5646_Hyphen, rfc5646_script]),
          ZeroOrOne (AndR [rfc5646_Hyphen, rfc5646_region]),
          ZeroOrMore (AndR [rfc5646_Hyphen, rfc5646_variant]),
          ZeroOrMore (AndR [rfc5646_Hyphen, rfc5646_extension]),
          ZeroOrOne (AndR [rfc5646_Hyphen, rfc5646_privateuse])])"

definition rfc5646_Language_Tag :: rule where [grammar_defs]:
  "rfc5646_Language_Tag =
     RuleD ''RFC5646::Language_Tag''
       (OrR [rfc5646_grandfathered, rfc5646_privateuse, rfc5646_langtag])"

subsection \<open>Grandfathered tags\<close>

text \<open>A grandfathered tag is final. The alternative of the grandfathered tags comes first and
  matches a prefix, so a language tag that goes on after one of them is rejected, even where it
  is a well-formed \<open>langtag\<close>.\<close>

theorem rfc5646_grandfathered_prefix_rejected:
  assumes "t \<in> {''art-lojban'', ''cel-gaulish'', ''no-bok'', ''no-nyn'', ''zh-guoyu'', ''zh-hakka'',
      ''zh-xiang'', ''zh-min-nan''}" and "y \<noteq> []"
  shows "\<not> parser_accepts g rfc5646_Language_Tag False [] (t @ y)"
proof -
  have c: "complete {} rfc5646_Language_Tag" by (simp add: grammar_defs)
  have "plain rfc5646_grandfathered (t @ y) = Some y"
    using assms(1) by (elim insertE emptyE) (simp_all add: grammar_defs literal_fn_def char_match_def)
  then show ?thesis unfolding accepts_plain [OF c]
    using assms(2) by (simp add: rfc5646_Language_Tag_def)
qed

theorem rfc5646_grandfathered_prefix_rejected_witness:
  "\<not> parser_accepts Map.empty rfc5646_Language_Tag False [] ''art-lojban-x-variety'' \<and>
   parser_accepts Map.empty rfc5646_langtag False [] ''art-lojban-x-variety''"
proof -
  have "complete {} rfc5646_langtag" by (simp add: grammar_defs)
  moreover have "plain rfc5646_langtag ''art-lojban-x-variety'' = Some []" by code_simp
  ultimately show ?thesis
    using rfc5646_grandfathered_prefix_rejected [of "''art-lojban''" "''-x-variety''" Map.empty]
    by (simp add: accepts_plain)
qed

end
