(* ===== verification/RFC7231.thy ===== *)
theory RFC7231
  imports RFC4647 RFC5646 RFC5322 RFC7230
begin

text \<open>
  HTTP header values, \<^verbatim>\<open>grammars/RFC7231.hpp\<close>, and the language of quality values.
\<close>

subsection \<open>Imports\<close>

definition rfc7231_language_range :: rule where [grammar_defs]:
  "rfc7231_language_range = rfc4647_language_range"

definition rfc7231_language_tag :: rule where [grammar_defs]:
  "rfc7231_language_tag = rfc5646_Language_Tag"

definition rfc7231_mailbox :: rule where [grammar_defs]: "rfc7231_mailbox = rfc5322_mailbox"
definition rfc7231_BWS :: rule where [grammar_defs]: "rfc7231_BWS = rfc7230_BWS"
definition rfc7231_OWS :: rule where [grammar_defs]: "rfc7231_OWS = rfc7230_OWS"
definition rfc7231_RWS :: rule where [grammar_defs]: "rfc7231_RWS = rfc7230_RWS"

definition rfc7231_URI_reference :: rule where [grammar_defs]:
  "rfc7231_URI_reference = rfc7230_URI_reference"

definition rfc7231_absolute_URI :: rule where [grammar_defs]:
  "rfc7231_absolute_URI = rfc7230_absolute_URI"

definition rfc7231_comment :: rule where [grammar_defs]: "rfc7231_comment = rfc7230_comment"

definition rfc7231_field_name :: rule where [grammar_defs]:
  "rfc7231_field_name = rfc7230_field_name"

definition rfc7231_partial_URI :: rule where [grammar_defs]:
  "rfc7231_partial_URI = rfc7230_partial_URI"

definition rfc7231_quoted_string :: rule where [grammar_defs]:
  "rfc7231_quoted_string = rfc7230_quoted_string"

definition rfc7231_token :: rule where [grammar_defs]: "rfc7231_token = rfc7230_token"
definition rfc7231_DIGIT :: rule where [grammar_defs]: "rfc7231_DIGIT = rfc7230_DIGIT"
definition rfc7231_SP :: rule where [grammar_defs]: "rfc7231_SP = rfc7230_SP"

subsection \<open>Punctuation terminals\<close>

definition rfc7231_Colon :: rule where [grammar_defs]: "rfc7231_Colon = CharacterR (CHR '':'')"

definition rfc7231_ForwardSlash :: rule where [grammar_defs]:
  "rfc7231_ForwardSlash = CharacterR (CHR ''/'')"

definition rfc7231_Asterisk :: rule where [grammar_defs]:
  "rfc7231_Asterisk = CharacterR (CHR ''*'')"

definition rfc7231_Comma :: rule where [grammar_defs]: "rfc7231_Comma = CharacterR (CHR '','')"

definition rfc7231_SemiColon :: rule where [grammar_defs]:
  "rfc7231_SemiColon = CharacterR (CHR '';'')"

definition rfc7231_Equal :: rule where [grammar_defs]: "rfc7231_Equal = CharacterR (CHR ''='')"

definition rfc7231_Hyphen :: rule where [grammar_defs]:
  "rfc7231_Hyphen = CharacterR (CHR ''-'')"

definition rfc7231_Period :: rule where [grammar_defs]:
  "rfc7231_Period = CharacterR (CHR ''.'')"

definition rfc7231_0 :: rule where [grammar_defs]: "rfc7231_0 = CharacterR (CHR ''0'')"
definition rfc7231_1 :: rule where [grammar_defs]: "rfc7231_1 = CharacterR (CHR ''1'')"
definition rfc7231_q :: rule where [grammar_defs]: "rfc7231_q = CharacterR (CHR ''q'')"

subsection \<open>String terminals\<close>

definition rfc7231_100_continue :: rule where [grammar_defs]:
  "rfc7231_100_continue = StringR ''100-continue''"

definition rfc7231_GMT :: rule where [grammar_defs]: "rfc7231_GMT = StringR ''GMT''"

definition rfc7231_identity :: rule where [grammar_defs]:
  "rfc7231_identity = StringR ''identity''"

definition rfc7231_Mon :: rule where [grammar_defs]: "rfc7231_Mon = StringR ''Mon''"
definition rfc7231_Tue :: rule where [grammar_defs]: "rfc7231_Tue = StringR ''Tue''"
definition rfc7231_Wed :: rule where [grammar_defs]: "rfc7231_Wed = StringR ''Wed''"
definition rfc7231_Thu :: rule where [grammar_defs]: "rfc7231_Thu = StringR ''Thu''"
definition rfc7231_Fri :: rule where [grammar_defs]: "rfc7231_Fri = StringR ''Fri''"
definition rfc7231_Sat :: rule where [grammar_defs]: "rfc7231_Sat = StringR ''Sat''"
definition rfc7231_Sun :: rule where [grammar_defs]: "rfc7231_Sun = StringR ''Sun''"
definition rfc7231_Monday :: rule where [grammar_defs]: "rfc7231_Monday = StringR ''Monday''"
definition rfc7231_Tuesday :: rule where [grammar_defs]: "rfc7231_Tuesday = StringR ''Tuesday''"

definition rfc7231_Wednesday :: rule where [grammar_defs]:
  "rfc7231_Wednesday = StringR ''Wednesday''"

definition rfc7231_Thursday :: rule where [grammar_defs]:
  "rfc7231_Thursday = StringR ''Thursday''"

definition rfc7231_Friday :: rule where [grammar_defs]: "rfc7231_Friday = StringR ''Friday''"

definition rfc7231_Saturday :: rule where [grammar_defs]:
  "rfc7231_Saturday = StringR ''Saturday''"

definition rfc7231_Sunday :: rule where [grammar_defs]: "rfc7231_Sunday = StringR ''Sunday''"

definition rfc7231_media_range_all :: rule where [grammar_defs]:
  "rfc7231_media_range_all = StringR ''*/*''"

definition rfc7231_media_subrange_all :: rule where [grammar_defs]:
  "rfc7231_media_subrange_all = StringR ''/*''"

definition rfc7231_Jan :: rule where [grammar_defs]: "rfc7231_Jan = StringR ''Jan''"
definition rfc7231_Feb :: rule where [grammar_defs]: "rfc7231_Feb = StringR ''Feb''"
definition rfc7231_Mar :: rule where [grammar_defs]: "rfc7231_Mar = StringR ''Mar''"
definition rfc7231_Apr :: rule where [grammar_defs]: "rfc7231_Apr = StringR ''Apr''"
definition rfc7231_May :: rule where [grammar_defs]: "rfc7231_May = StringR ''May''"
definition rfc7231_Jun :: rule where [grammar_defs]: "rfc7231_Jun = StringR ''Jun''"
definition rfc7231_Jul :: rule where [grammar_defs]: "rfc7231_Jul = StringR ''Jul''"
definition rfc7231_Aug :: rule where [grammar_defs]: "rfc7231_Aug = StringR ''Aug''"
definition rfc7231_Sep :: rule where [grammar_defs]: "rfc7231_Sep = StringR ''Sep''"
definition rfc7231_Oct :: rule where [grammar_defs]: "rfc7231_Oct = StringR ''Oct''"
definition rfc7231_Nov :: rule where [grammar_defs]: "rfc7231_Nov = StringR ''Nov''"
definition rfc7231_Dec :: rule where [grammar_defs]: "rfc7231_Dec = StringR ''Dec''"

subsection \<open>Bounded helpers\<close>

definition rfc7231_digit_2 :: rule where [grammar_defs]:
  "rfc7231_digit_2 = AndR [rfc7231_DIGIT, rfc7231_DIGIT]"

definition rfc7231_digit_4 :: rule where [grammar_defs]:
  "rfc7231_digit_4 = AndR [rfc7231_DIGIT, rfc7231_DIGIT, rfc7231_DIGIT, rfc7231_DIGIT]"

definition rfc7231_up_to_3DIGIT :: rule where [grammar_defs]:
  "rfc7231_up_to_3DIGIT =
     ZeroOrOne
       (AndR [rfc7231_DIGIT, ZeroOrOne (AndR [rfc7231_DIGIT, ZeroOrOne rfc7231_DIGIT])])"

definition rfc7231_up_to_3zero :: rule where [grammar_defs]:
  "rfc7231_up_to_3zero =
     ZeroOrOne (AndR [rfc7231_0, ZeroOrOne (AndR [rfc7231_0, ZeroOrOne rfc7231_0])])"

subsection \<open>Date / time atoms\<close>

definition rfc7231_day_name :: rule where [grammar_defs]:
  "rfc7231_day_name =
     RuleD ''RFC7231::day_name''
       (OrR [
          rfc7231_Mon, rfc7231_Tue, rfc7231_Wed, rfc7231_Thu, rfc7231_Fri, rfc7231_Sat,
          rfc7231_Sun])"

definition rfc7231_day_name_1 :: rule where [grammar_defs]:
  "rfc7231_day_name_1 =
     RuleD ''RFC7231::day_name_1''
       (OrR [
          rfc7231_Monday, rfc7231_Tuesday, rfc7231_Wednesday, rfc7231_Thursday,
          rfc7231_Friday, rfc7231_Saturday, rfc7231_Sunday])"

definition rfc7231_month :: rule where [grammar_defs]:
  "rfc7231_month =
     RuleD ''RFC7231::month''
       (OrR [
          rfc7231_Jan, rfc7231_Feb, rfc7231_Mar, rfc7231_Apr, rfc7231_May, rfc7231_Jun,
          rfc7231_Jul, rfc7231_Aug, rfc7231_Sep, rfc7231_Oct, rfc7231_Nov, rfc7231_Dec])"

definition rfc7231_day :: rule where [grammar_defs]:
  "rfc7231_day = RuleD ''RFC7231::day'' rfc7231_digit_2"

definition rfc7231_hour :: rule where [grammar_defs]:
  "rfc7231_hour = RuleD ''RFC7231::hour'' rfc7231_digit_2"

definition rfc7231_minute :: rule where [grammar_defs]:
  "rfc7231_minute = RuleD ''RFC7231::minute'' rfc7231_digit_2"

definition rfc7231_second :: rule where [grammar_defs]:
  "rfc7231_second = RuleD ''RFC7231::second'' rfc7231_digit_2"

definition rfc7231_year :: rule where [grammar_defs]:
  "rfc7231_year = RuleD ''RFC7231::year'' rfc7231_digit_4"

definition rfc7231_date1 :: rule where [grammar_defs]:
  "rfc7231_date1 =
     RuleD ''RFC7231::date1''
       (AndR [rfc7231_day, rfc7231_SP, rfc7231_month, rfc7231_SP, rfc7231_year])"

definition rfc7231_date2 :: rule where [grammar_defs]:
  "rfc7231_date2 =
     RuleD ''RFC7231::date2''
       (AndR [rfc7231_day, rfc7231_Hyphen, rfc7231_month, rfc7231_Hyphen, rfc7231_digit_2])"

definition rfc7231_date3 :: rule where [grammar_defs]:
  "rfc7231_date3 =
     RuleD ''RFC7231::date3''
       (AndR [
          rfc7231_month, rfc7231_SP, OrR [rfc7231_digit_2, AndR [rfc7231_SP, rfc7231_DIGIT]]])"

definition rfc7231_time_of_day :: rule where [grammar_defs]:
  "rfc7231_time_of_day =
     RuleD ''RFC7231::time_of_day''
       (AndR [rfc7231_hour, rfc7231_Colon, rfc7231_minute, rfc7231_Colon, rfc7231_second])"

definition rfc7231_IMF_fixdate :: rule where [grammar_defs]:
  "rfc7231_IMF_fixdate =
     RuleD ''RFC7231::IMF_fixdate''
       (AndR [
          rfc7231_day_name, rfc7231_Comma, rfc7231_SP, rfc7231_date1, rfc7231_SP,
          rfc7231_time_of_day, rfc7231_SP, rfc7231_GMT])"

definition rfc7231_rfc850_date :: rule where [grammar_defs]:
  "rfc7231_rfc850_date =
     RuleD ''RFC7231::rfc850_date''
       (AndR [
          rfc7231_day_name_1, rfc7231_Comma, rfc7231_SP, rfc7231_date2, rfc7231_SP,
          rfc7231_time_of_day, rfc7231_SP, rfc7231_GMT])"

definition rfc7231_asctime_date :: rule where [grammar_defs]:
  "rfc7231_asctime_date =
     RuleD ''RFC7231::asctime_date''
       (AndR [
          rfc7231_day_name, rfc7231_SP, rfc7231_date3, rfc7231_SP, rfc7231_time_of_day,
          rfc7231_SP, rfc7231_year])"

definition rfc7231_obs_date :: rule where [grammar_defs]:
  "rfc7231_obs_date =
     RuleD ''RFC7231::obs_date'' (OrR [rfc7231_rfc850_date, rfc7231_asctime_date])"

definition rfc7231_HTTP_date :: rule where [grammar_defs]:
  "rfc7231_HTTP_date =
     RuleD ''RFC7231::HTTP_date'' (OrR [rfc7231_IMF_fixdate, rfc7231_obs_date])"

subsection \<open>Media / quality / product\<close>

definition rfc7231_qvalue :: rule where [grammar_defs]:
  "rfc7231_qvalue =
     RuleD ''RFC7231::qvalue''
       (OrR [
          AndR [rfc7231_0, ZeroOrOne (AndR [rfc7231_Period, rfc7231_up_to_3DIGIT])],
          AndR [rfc7231_1, ZeroOrOne (AndR [rfc7231_Period, rfc7231_up_to_3zero])]])"

definition rfc7231_weight :: rule where [grammar_defs]:
  "rfc7231_weight =
     RuleD ''RFC7231::weight''
       (AndR [
          rfc7231_OWS, rfc7231_SemiColon, rfc7231_OWS, rfc7231_q, rfc7231_Equal,
          rfc7231_qvalue])"

definition rfc7231_parameter :: rule where [grammar_defs]:
  "rfc7231_parameter =
     RuleD ''RFC7231::parameter''
       (AndR [rfc7231_token, rfc7231_Equal, OrR [rfc7231_token, rfc7231_quoted_string]])"

definition rfc7231_type :: rule where [grammar_defs]:
  "rfc7231_type = RuleD ''RFC7231::type'' rfc7231_token"

definition rfc7231_subtype :: rule where [grammar_defs]:
  "rfc7231_subtype = RuleD ''RFC7231::subtype'' rfc7231_token"

definition rfc7231_media_type :: rule where [grammar_defs]:
  "rfc7231_media_type =
     RuleD ''RFC7231::media_type''
       (AndR [
          rfc7231_type, rfc7231_ForwardSlash, rfc7231_subtype,
          ZeroOrMore (AndR [rfc7231_OWS, rfc7231_SemiColon, rfc7231_OWS, rfc7231_parameter])])"

definition rfc7231_media_range :: rule where [grammar_defs]:
  "rfc7231_media_range =
     RuleD ''RFC7231::media_range''
       (AndR [
          OrR [
            rfc7231_media_range_all, AndR [rfc7231_type, rfc7231_media_subrange_all],
            AndR [rfc7231_type, rfc7231_ForwardSlash, rfc7231_subtype]],
          ZeroOrMore (AndR [rfc7231_OWS, rfc7231_SemiColon, rfc7231_OWS, rfc7231_parameter])])"

definition rfc7231_accept_ext :: rule where [grammar_defs]:
  "rfc7231_accept_ext =
     RuleD ''RFC7231::accept_ext''
       (AndR [
          rfc7231_OWS, rfc7231_SemiColon, rfc7231_OWS, rfc7231_token,
          ZeroOrOne (AndR [rfc7231_Equal, OrR [rfc7231_token, rfc7231_quoted_string]])])"

definition rfc7231_accept_params :: rule where [grammar_defs]:
  "rfc7231_accept_params =
     RuleD ''RFC7231::accept_params'' (AndR [rfc7231_weight, ZeroOrMore rfc7231_accept_ext])"

definition rfc7231_charset :: rule where [grammar_defs]:
  "rfc7231_charset = RuleD ''RFC7231::charset'' rfc7231_token"

definition rfc7231_content_coding :: rule where [grammar_defs]:
  "rfc7231_content_coding = RuleD ''RFC7231::content_coding'' rfc7231_token"

definition rfc7231_codings :: rule where [grammar_defs]:
  "rfc7231_codings =
     RuleD ''RFC7231::codings''
       (OrR [rfc7231_identity, rfc7231_Asterisk, rfc7231_content_coding])"

definition rfc7231_method :: rule where [grammar_defs]:
  "rfc7231_method = RuleD ''RFC7231::method'' rfc7231_token"

definition rfc7231_product_version :: rule where [grammar_defs]:
  "rfc7231_product_version = RuleD ''RFC7231::product_version'' rfc7231_token"

definition rfc7231_product :: rule where [grammar_defs]:
  "rfc7231_product =
     RuleD ''RFC7231::product''
       (AndR [
          rfc7231_token, ZeroOrOne (AndR [rfc7231_ForwardSlash, rfc7231_product_version])])"

definition rfc7231_delay_seconds :: rule where [grammar_defs]:
  "rfc7231_delay_seconds = RuleD ''RFC7231::delay_seconds'' (OneOrMore rfc7231_DIGIT)"

subsection \<open>Header values\<close>

definition rfc7231_accept :: rule where [grammar_defs]:
  "rfc7231_accept =
     RuleD ''RFC7231::accept''
       (ZeroOrOne
         (AndR [
            OrR [rfc7231_Comma, AndR [rfc7231_media_range, ZeroOrOne rfc7231_accept_params]],
            ZeroOrMore
              (AndR [
                 rfc7231_OWS, rfc7231_Comma,
                 ZeroOrOne
                   (AndR [
                      rfc7231_OWS, rfc7231_media_range, ZeroOrOne rfc7231_accept_params])])]))"

definition rfc7231_Accept_Charset :: rule where [grammar_defs]:
  "rfc7231_Accept_Charset =
     RuleD ''RFC7231::Accept_Charset''
       (AndR [
          ZeroOrMore (AndR [rfc7231_Comma, rfc7231_OWS]),
          OrR [rfc7231_charset, rfc7231_Asterisk], ZeroOrOne rfc7231_weight,
          ZeroOrMore
            (AndR [
               rfc7231_OWS, rfc7231_Comma,
               ZeroOrOne
                 (AndR [
                    rfc7231_OWS, OrR [rfc7231_charset, rfc7231_Asterisk],
                    ZeroOrOne rfc7231_weight])])])"

definition rfc7231_Accept_Encoding :: rule where [grammar_defs]:
  "rfc7231_Accept_Encoding =
     RuleD ''RFC7231::Accept_Encoding''
       (ZeroOrOne
         (AndR [
            OrR [rfc7231_Comma, AndR [rfc7231_codings, ZeroOrOne rfc7231_weight]],
            ZeroOrMore
              (AndR [
                 rfc7231_OWS, rfc7231_Comma,
                 ZeroOrOne (AndR [rfc7231_OWS, rfc7231_codings, ZeroOrOne rfc7231_weight])])]))"

definition rfc7231_Accept_Language :: rule where [grammar_defs]:
  "rfc7231_Accept_Language =
     RuleD ''RFC7231::Accept_Language''
       (AndR [
          ZeroOrMore (AndR [rfc7231_Comma, rfc7231_OWS]), rfc7231_language_range,
          ZeroOrOne rfc7231_weight,
          ZeroOrMore
            (AndR [
               rfc7231_OWS, rfc7231_Comma,
               ZeroOrOne
                 (AndR [rfc7231_OWS, rfc7231_language_range, ZeroOrOne rfc7231_weight])])])"

definition rfc7231_Allow :: rule where [grammar_defs]:
  "rfc7231_Allow =
     RuleD ''RFC7231::Allow''
       (ZeroOrOne
         (AndR [
            OrR [rfc7231_Comma, rfc7231_method],
            ZeroOrMore
              (AndR [
                 rfc7231_OWS, rfc7231_Comma, ZeroOrOne (AndR [rfc7231_OWS, rfc7231_method])])]))"

definition rfc7231_Content_Encoding :: rule where [grammar_defs]:
  "rfc7231_Content_Encoding =
     RuleD ''RFC7231::Content_Encoding''
       (AndR [
          ZeroOrMore (AndR [rfc7231_Comma, rfc7231_OWS]), rfc7231_content_coding,
          ZeroOrMore
            (AndR [
               rfc7231_OWS, rfc7231_Comma,
               ZeroOrOne (AndR [rfc7231_OWS, rfc7231_content_coding])])])"

definition rfc7231_Content_Language :: rule where [grammar_defs]:
  "rfc7231_Content_Language =
     RuleD ''RFC7231::Content_Language''
       (AndR [
          ZeroOrMore (AndR [rfc7231_Comma, rfc7231_OWS]), rfc7231_language_tag,
          ZeroOrMore
            (AndR [
               rfc7231_OWS, rfc7231_Comma,
               ZeroOrOne (AndR [rfc7231_OWS, rfc7231_language_tag])])])"

definition rfc7231_Content_Location :: rule where [grammar_defs]:
  "rfc7231_Content_Location =
     RuleD ''RFC7231::Content_Location'' (OrR [rfc7231_absolute_URI, rfc7231_partial_URI])"

definition rfc7231_Content_Type :: rule where [grammar_defs]:
  "rfc7231_Content_Type = RuleD ''RFC7231::Content_Type'' rfc7231_media_type"

definition rfc7231_Date :: rule where [grammar_defs]:
  "rfc7231_Date = RuleD ''RFC7231::Date'' rfc7231_HTTP_date"

definition rfc7231_Expect :: rule where [grammar_defs]:
  "rfc7231_Expect = RuleD ''RFC7231::Expect'' rfc7231_100_continue"

definition rfc7231_From :: rule where [grammar_defs]:
  "rfc7231_From = RuleD ''RFC7231::From'' rfc7231_mailbox"

definition rfc7231_Location :: rule where [grammar_defs]:
  "rfc7231_Location = RuleD ''RFC7231::Location'' rfc7231_URI_reference"

definition rfc7231_Max_Forwards :: rule where [grammar_defs]:
  "rfc7231_Max_Forwards = RuleD ''RFC7231::Max_Forwards'' (OneOrMore rfc7231_DIGIT)"

definition rfc7231_Referer :: rule where [grammar_defs]:
  "rfc7231_Referer =
     RuleD ''RFC7231::Referer'' (OrR [rfc7231_absolute_URI, rfc7231_partial_URI])"

definition rfc7231_Retry_After :: rule where [grammar_defs]:
  "rfc7231_Retry_After =
     RuleD ''RFC7231::Retry_After'' (OrR [rfc7231_HTTP_date, rfc7231_delay_seconds])"

definition rfc7231_Server :: rule where [grammar_defs]:
  "rfc7231_Server =
     RuleD ''RFC7231::Server''
       (AndR [
          rfc7231_product,
          ZeroOrMore (AndR [rfc7231_RWS, OrR [rfc7231_product, rfc7231_comment]])])"

definition rfc7231_User_Agent :: rule where [grammar_defs]:
  "rfc7231_User_Agent =
     RuleD ''RFC7231::User_Agent''
       (AndR [
          rfc7231_product,
          ZeroOrMore (AndR [rfc7231_RWS, OrR [rfc7231_product, rfc7231_comment]])])"

definition rfc7231_Vary :: rule where [grammar_defs]:
  "rfc7231_Vary =
     RuleD ''RFC7231::Vary''
       (OrR [
          rfc7231_Asterisk,
          AndR [
            ZeroOrMore (AndR [rfc7231_Comma, rfc7231_OWS]), rfc7231_field_name,
            ZeroOrMore
              (AndR [
                 rfc7231_OWS, rfc7231_Comma,
                 ZeroOrOne (AndR [rfc7231_OWS, rfc7231_field_name])])]])"

subsection \<open>Quality values\<close>

text \<open>The qvalue rule of RFC 7231 accepts exactly 0 with up to three decimals and 1 with up
  to three zeros: the hand-expanded bounds are those of the specification.\<close>

theorem rfc7231_qvalue_language:
  "parser_accepts g rfc7231_qvalue False [] w \<longleftrightarrow>
     w = ''0'' \<or> w = ''1'' \<or>
     (\<exists>ds. w = ''0.'' @ ds \<and> length ds \<le> 3 \<and> list_all is_digit ds) \<or>
     (\<exists>ds. w = ''1.'' @ ds \<and> length ds \<le> 3 \<and> list_all (\<lambda>c. c = CHR ''0'') ds)"
proof -
  have c: "complete {} rfc7231_qvalue" by (simp add: grammar_defs)
  have p: "plain rfc7231_qvalue = alt_fn [
      seq_fn [class_fn (\<lambda>x. x = CHR ''0''),
              opt_fn (seq_fn [class_fn (\<lambda>x. x = CHR ''.''), upto_fn 3 is_digit])],
      seq_fn [class_fn (\<lambda>x. x = CHR ''1''),
              opt_fn (seq_fn [class_fn (\<lambda>x. x = CHR ''.''), upto_fn 3 (\<lambda>x. x = CHR ''0'')])]]"
    by (simp add: rfc7231_qvalue_def rfc7231_0_def rfc7231_1_def rfc7231_Period_def
        rfc7231_up_to_3DIGIT_def rfc7231_up_to_3zero_def rfc7231_DIGIT_def rfc7230_DIGIT_def
        plain_rfc5234_DIGIT plain_class plain_opt opt_fn_class numeral_eq_Suc
        del: alt_fn.simps seq_fn.simps plain.simps)
  show ?thesis
  proof (cases w)
    case (Cons a u)
    then show ?thesis unfolding accepts_plain [OF c] p
      by (cases u) (auto simp: opt_fn_def upto_fn_def skip_upto_all split: if_splits)
  qed (simp add: accepts_plain [OF c] p)
qed

end
