(* ===== verification/RFC7232.thy ===== *)
theory RFC7232
  imports RFC7231
begin

text \<open>
  Conditional requests of HTTP, \<^verbatim>\<open>grammars/RFC7232.hpp\<close>.
\<close>

subsection \<open>Imports\<close>

definition rfc7232_OWS :: rule where [grammar_defs]: "rfc7232_OWS = rfc7230_OWS"
definition rfc7232_obs_text :: rule where [grammar_defs]: "rfc7232_obs_text = rfc7230_obs_text"
definition rfc7232_DQUOTE :: rule where [grammar_defs]: "rfc7232_DQUOTE = rfc7230_DQUOTE"

definition rfc7232_HTTP_date :: rule where [grammar_defs]:
  "rfc7232_HTTP_date = rfc7231_HTTP_date"

subsection \<open>Punctuation terminals\<close>

definition rfc7232_Comma :: rule where [grammar_defs]: "rfc7232_Comma = CharacterR (CHR '','')"

definition rfc7232_Asterisk :: rule where [grammar_defs]:
  "rfc7232_Asterisk = CharacterR (CHR ''*'')"

definition rfc7232_Exclamation :: rule where [grammar_defs]:
  "rfc7232_Exclamation = CharacterR (CHR ''!'')"

definition rfc7232_etagc_vchar :: rule where [grammar_defs]:
  "rfc7232_etagc_vchar = CharactersR (CHR ''#'') (CHR ''~'')"

subsection \<open>String terminals\<close>

definition rfc7232_weak :: rule where [grammar_defs]: "rfc7232_weak = StringR ''W/''"

subsection \<open>Rules\<close>

definition rfc7232_etagc :: rule where [grammar_defs]:
  "rfc7232_etagc =
     RuleD ''RFC7232::etagc''
       (OrR [rfc7232_Exclamation, rfc7232_etagc_vchar, rfc7232_obs_text])"

definition rfc7232_opaque_tag :: rule where [grammar_defs]:
  "rfc7232_opaque_tag =
     RuleD ''RFC7232::opaque_tag''
       (AndR [rfc7232_DQUOTE, ZeroOrMore rfc7232_etagc, rfc7232_DQUOTE])"

definition rfc7232_entity_tag :: rule where [grammar_defs]:
  "rfc7232_entity_tag =
     RuleD ''RFC7232::entity_tag'' (AndR [ZeroOrOne rfc7232_weak, rfc7232_opaque_tag])"

definition rfc7232_ETag :: rule where [grammar_defs]:
  "rfc7232_ETag = RuleD ''RFC7232::ETag'' rfc7232_entity_tag"

definition rfc7232_If_Match :: rule where [grammar_defs]:
  "rfc7232_If_Match =
     RuleD ''RFC7232::If_Match''
       (OrR [
          rfc7232_Asterisk,
          AndR [
            ZeroOrMore (AndR [rfc7232_Comma, rfc7232_OWS]), rfc7232_entity_tag,
            ZeroOrMore
              (AndR [
                 rfc7232_OWS, rfc7232_Comma,
                 ZeroOrOne (AndR [rfc7232_OWS, rfc7232_entity_tag])])]])"

definition rfc7232_If_None_Match :: rule where [grammar_defs]:
  "rfc7232_If_None_Match =
     RuleD ''RFC7232::If_None_Match''
       (OrR [
          rfc7232_Asterisk,
          AndR [
            ZeroOrMore (AndR [rfc7232_Comma, rfc7232_OWS]), rfc7232_entity_tag,
            ZeroOrMore
              (AndR [
                 rfc7232_OWS, rfc7232_Comma,
                 ZeroOrOne (AndR [rfc7232_OWS, rfc7232_entity_tag])])]])"

definition rfc7232_If_Modified_Since :: rule where [grammar_defs]:
  "rfc7232_If_Modified_Since = RuleD ''RFC7232::If_Modified_Since'' rfc7232_HTTP_date"

definition rfc7232_If_Unmodified_Since :: rule where [grammar_defs]:
  "rfc7232_If_Unmodified_Since = RuleD ''RFC7232::If_Unmodified_Since'' rfc7232_HTTP_date"

definition rfc7232_Last_Modified :: rule where [grammar_defs]:
  "rfc7232_Last_Modified = RuleD ''RFC7232::Last_Modified'' rfc7232_HTTP_date"

end
