(* ===== verification/RFC7233.thy ===== *)
theory RFC7233
  imports RFC7232
begin

text \<open>
  Range requests of HTTP, \<^verbatim>\<open>grammars/RFC7233.hpp\<close>.
\<close>

subsection \<open>Imports\<close>

definition rfc7233_DIGIT :: rule where [grammar_defs]: "rfc7233_DIGIT = rfc7230_DIGIT"
definition rfc7233_OWS :: rule where [grammar_defs]: "rfc7233_OWS = rfc7230_OWS"
definition rfc7233_SP :: rule where [grammar_defs]: "rfc7233_SP = rfc7230_SP"
definition rfc7233_token :: rule where [grammar_defs]: "rfc7233_token = rfc7230_token"
definition rfc7233_VCHAR :: rule where [grammar_defs]: "rfc7233_VCHAR = rfc7230_VCHAR"

definition rfc7233_HTTP_date :: rule where [grammar_defs]:
  "rfc7233_HTTP_date = rfc7231_HTTP_date"

definition rfc7233_entity_tag :: rule where [grammar_defs]:
  "rfc7233_entity_tag = rfc7232_entity_tag"

subsection \<open>Punctuation terminals\<close>

definition rfc7233_EqualSign :: rule where [grammar_defs]:
  "rfc7233_EqualSign = CharacterR (CHR ''='')"

definition rfc7233_Hyphen :: rule where [grammar_defs]:
  "rfc7233_Hyphen = CharacterR (CHR ''-'')"

definition rfc7233_ForwardSlash :: rule where [grammar_defs]:
  "rfc7233_ForwardSlash = CharacterR (CHR ''/'')"

definition rfc7233_Comma :: rule where [grammar_defs]: "rfc7233_Comma = CharacterR (CHR '','')"

definition rfc7233_Asterisk :: rule where [grammar_defs]:
  "rfc7233_Asterisk = CharacterR (CHR ''*'')"

definition rfc7233_CHAR :: rule where [grammar_defs]:
  "rfc7233_CHAR = CharactersR (CHR 0x01) (CHR 0x7F)"

subsection \<open>String terminals\<close>

definition rfc7233_bytes :: rule where [grammar_defs]: "rfc7233_bytes = StringR ''bytes''"
definition rfc7233_none :: rule where [grammar_defs]: "rfc7233_none = StringR ''none''"

subsection \<open>Rules\<close>

definition rfc7233_bytes_unit :: rule where [grammar_defs]:
  "rfc7233_bytes_unit = RuleD ''RFC7233::bytes_unit'' rfc7233_bytes"

definition rfc7233_other_range_unit :: rule where [grammar_defs]:
  "rfc7233_other_range_unit = RuleD ''RFC7233::other_range_unit'' rfc7233_token"

definition rfc7233_range_unit :: rule where [grammar_defs]:
  "rfc7233_range_unit =
     RuleD ''RFC7233::range_unit'' (OrR [rfc7233_bytes_unit, rfc7233_other_range_unit])"

definition rfc7233_first_byte_pos :: rule where [grammar_defs]:
  "rfc7233_first_byte_pos = RuleD ''RFC7233::first_byte_pos'' (OneOrMore rfc7233_DIGIT)"

definition rfc7233_last_byte_pos :: rule where [grammar_defs]:
  "rfc7233_last_byte_pos = RuleD ''RFC7233::last_byte_pos'' (OneOrMore rfc7233_DIGIT)"

definition rfc7233_suffix_length :: rule where [grammar_defs]:
  "rfc7233_suffix_length = RuleD ''RFC7233::suffix_length'' (OneOrMore rfc7233_DIGIT)"

definition rfc7233_complete_length :: rule where [grammar_defs]:
  "rfc7233_complete_length = RuleD ''RFC7233::complete_length'' (OneOrMore rfc7233_DIGIT)"

definition rfc7233_byte_range_spec :: rule where [grammar_defs]:
  "rfc7233_byte_range_spec =
     RuleD ''RFC7233::byte_range_spec''
       (AndR [rfc7233_first_byte_pos, rfc7233_Hyphen, ZeroOrOne rfc7233_last_byte_pos])"

definition rfc7233_suffix_byte_range_spec :: rule where [grammar_defs]:
  "rfc7233_suffix_byte_range_spec =
     RuleD ''RFC7233::suffix_byte_range_spec'' (AndR [rfc7233_Hyphen, rfc7233_suffix_length])"

definition rfc7233_byte_range_set :: rule where [grammar_defs]:
  "rfc7233_byte_range_set =
     RuleD ''RFC7233::byte_range_set''
       (AndR [
          ZeroOrMore (AndR [rfc7233_Comma, rfc7233_OWS]),
          OrR [rfc7233_suffix_byte_range_spec, rfc7233_byte_range_spec],
          ZeroOrMore
            (AndR [
               rfc7233_OWS, rfc7233_Comma,
               ZeroOrOne
                 (AndR [
                    rfc7233_OWS,
                    OrR [rfc7233_suffix_byte_range_spec, rfc7233_byte_range_spec]])])])"

definition rfc7233_byte_ranges_specifier :: rule where [grammar_defs]:
  "rfc7233_byte_ranges_specifier =
     RuleD ''RFC7233::byte_ranges_specifier''
       (AndR [rfc7233_bytes_unit, rfc7233_EqualSign, rfc7233_byte_range_set])"

definition rfc7233_other_range_set :: rule where [grammar_defs]:
  "rfc7233_other_range_set = RuleD ''RFC7233::other_range_set'' (OneOrMore rfc7233_VCHAR)"

definition rfc7233_other_ranges_specifier :: rule where [grammar_defs]:
  "rfc7233_other_ranges_specifier =
     RuleD ''RFC7233::other_ranges_specifier''
       (AndR [rfc7233_other_range_unit, rfc7233_EqualSign, rfc7233_other_range_set])"

definition rfc7233_Range :: rule where [grammar_defs]:
  "rfc7233_Range =
     RuleD ''RFC7233::Range''
       (OrR [rfc7233_byte_ranges_specifier, rfc7233_other_ranges_specifier])"

definition rfc7233_acceptable_ranges :: rule where [grammar_defs]:
  "rfc7233_acceptable_ranges =
     RuleD ''RFC7233::acceptable_ranges''
       (OrR [
          rfc7233_none,
          AndR [
            ZeroOrMore (AndR [rfc7233_Comma, rfc7233_OWS]), rfc7233_range_unit,
            ZeroOrMore
              (AndR [
                 rfc7233_OWS, rfc7233_Comma,
                 ZeroOrOne (AndR [rfc7233_OWS, rfc7233_range_unit])])]])"

definition rfc7233_Accept_Ranges :: rule where [grammar_defs]:
  "rfc7233_Accept_Ranges = RuleD ''RFC7233::Accept_Ranges'' rfc7233_acceptable_ranges"

definition rfc7233_byte_range :: rule where [grammar_defs]:
  "rfc7233_byte_range =
     RuleD ''RFC7233::byte_range''
       (AndR [rfc7233_first_byte_pos, rfc7233_Hyphen, rfc7233_last_byte_pos])"

definition rfc7233_byte_range_resp :: rule where [grammar_defs]:
  "rfc7233_byte_range_resp =
     RuleD ''RFC7233::byte_range_resp''
       (AndR [
          rfc7233_byte_range, rfc7233_ForwardSlash,
          OrR [rfc7233_complete_length, rfc7233_Asterisk]])"

definition rfc7233_unsatisfied_range :: rule where [grammar_defs]:
  "rfc7233_unsatisfied_range =
     RuleD ''RFC7233::unsatisfied_range''
       (AndR [rfc7233_Asterisk, rfc7233_ForwardSlash, rfc7233_complete_length])"

definition rfc7233_byte_content_range :: rule where [grammar_defs]:
  "rfc7233_byte_content_range =
     RuleD ''RFC7233::byte_content_range''
       (AndR [
          rfc7233_bytes_unit, rfc7233_SP,
          OrR [rfc7233_unsatisfied_range, rfc7233_byte_range_resp]])"

definition rfc7233_other_range_resp :: rule where [grammar_defs]:
  "rfc7233_other_range_resp = RuleD ''RFC7233::other_range_resp'' (ZeroOrMore rfc7233_CHAR)"

definition rfc7233_other_content_range :: rule where [grammar_defs]:
  "rfc7233_other_content_range =
     RuleD ''RFC7233::other_content_range''
       (AndR [rfc7233_other_range_unit, rfc7233_SP, rfc7233_other_range_resp])"

definition rfc7233_Content_Range :: rule where [grammar_defs]:
  "rfc7233_Content_Range =
     RuleD ''RFC7233::Content_Range''
       (OrR [rfc7233_byte_content_range, rfc7233_other_content_range])"

definition rfc7233_If_Range :: rule where [grammar_defs]:
  "rfc7233_If_Range = RuleD ''RFC7233::If_Range'' (OrR [rfc7233_entity_tag, rfc7233_HTTP_date])"

end
