(* ===== verification/ISO32000.thy ===== *)
theory ISO32000
  imports Plain_Match
begin

text \<open>
  The beginnings of a PDF grammar, \<^verbatim>\<open>grammars/iso32000-1.hpp\<close>, and the language of numbers.
\<close>

definition iso32000_NUL :: rule where [grammar_defs]: "iso32000_NUL = CharacterR (CHR 0x00)"
definition iso32000_HT :: rule where [grammar_defs]: "iso32000_HT = CharacterR (CHR 0x09)"
definition iso32000_LF :: rule where [grammar_defs]: "iso32000_LF = CharacterR (CHR 0x0A)"
definition iso32000_FF :: rule where [grammar_defs]: "iso32000_FF = CharacterR (CHR 0x0C)"
definition iso32000_CR :: rule where [grammar_defs]: "iso32000_CR = CharacterR (CHR 0x0D)"
definition iso32000_SP :: rule where [grammar_defs]: "iso32000_SP = CharacterR (CHR 0x20)"

definition iso32000_whitespace :: string where
  "iso32000_whitespace = [CHR 0x00, CHR 0x09, CHR 0x0A, CHR 0x0C, CHR 0x0D, CHR 0x20]"

definition iso32000_OPEN_PARAN :: rule where [grammar_defs]:
  "iso32000_OPEN_PARAN = CharacterR (CHR ''('')"

definition iso32000_CLOSE_PARAN :: rule where [grammar_defs]:
  "iso32000_CLOSE_PARAN = CharacterR (CHR '')'')"

definition iso32000_LESS_THAN :: rule where [grammar_defs]:
  "iso32000_LESS_THAN = CharacterR (CHR ''<'')"

definition iso32000_GREATER_THAN :: rule where [grammar_defs]:
  "iso32000_GREATER_THAN = CharacterR (CHR ''>'')"

definition iso32000_OPEN_BRACKET :: rule where [grammar_defs]:
  "iso32000_OPEN_BRACKET = CharacterR (CHR ''['')"

definition iso32000_CLOSE_BRACKET :: rule where [grammar_defs]:
  "iso32000_CLOSE_BRACKET = CharacterR (CHR '']'')"

definition iso32000_OPEN_BRACE :: rule where [grammar_defs]:
  "iso32000_OPEN_BRACE = CharacterR (CHR ''{'')"

definition iso32000_CLOSE_BRACE :: rule where [grammar_defs]:
  "iso32000_CLOSE_BRACE = CharacterR (CHR ''}'')"

definition iso32000_SOLIDUS :: rule where [grammar_defs]:
  "iso32000_SOLIDUS = CharacterR (CHR ''/'')"

definition iso32000_FORWARD_SLASH :: rule where [grammar_defs]:
  "iso32000_FORWARD_SLASH = CharacterR (CHR ''/'')"

definition iso32000_PERCENT :: rule where [grammar_defs]:
  "iso32000_PERCENT = CharacterR (CHR ''%'')"

definition iso32000_PLUS :: rule where [grammar_defs]: "iso32000_PLUS = CharacterR (CHR ''+'')"

definition iso32000_HYPHEN :: rule where [grammar_defs]:
  "iso32000_HYPHEN = CharacterR (CHR ''-'')"

definition iso32000_PERIOD :: rule where [grammar_defs]:
  "iso32000_PERIOD = CharacterR (CHR ''.'')"

definition iso32000_DIGIT :: rule where [grammar_defs]:
  "iso32000_DIGIT = CharactersR (CHR ''0'') (CHR ''9'')"

definition iso32000_EOL :: rule where [grammar_defs]:
  "iso32000_EOL = AndR [iso32000_CR, iso32000_LF]"

definition iso32000_COMMENT :: rule where [grammar_defs]:
  "iso32000_COMMENT = RegexR [CHR 0x5C, CHR ''%'', CHR ''['', CHR ''^'', CHR 0x5C, CHR ''r'', CHR 0x5C, CHR ''n'', CHR '']'', CHR ''*'']
    [(Re_Class False [(CHR ''%'', CHR ''%'')], Re_One),
     (Re_Class True [(CHR 0x0D, CHR 0x0D), (CHR 0x0A, CHR 0x0A)], Re_Star)]"

definition iso32000_True :: rule where [grammar_defs]: "iso32000_True = StringR ''true''"
definition iso32000_False :: rule where [grammar_defs]: "iso32000_False = StringR ''false''"

definition iso32000_number :: rule where [grammar_defs]:
  "iso32000_number = OneOrMore iso32000_DIGIT"

definition iso32000_Integer :: rule where [grammar_defs]:
  "iso32000_Integer =
     RuleD ''iso32000::Integer''
       (AndR [ZeroOrOne (OrR [iso32000_PLUS, iso32000_HYPHEN]), iso32000_number])"

definition iso32000_period_number :: rule where [grammar_defs]:
  "iso32000_period_number = AndR [iso32000_PERIOD, OneOrMore iso32000_DIGIT]"

definition iso32000_number_period_number :: rule where [grammar_defs]:
  "iso32000_number_period_number =
     AndR [OneOrMore iso32000_DIGIT, iso32000_PERIOD, ZeroOrMore iso32000_DIGIT]"

definition iso32000_Real :: rule where [grammar_defs]:
  "iso32000_Real =
     RuleD ''iso32000::Real''
       (AndR [
          ZeroOrOne (OrR [iso32000_PLUS, iso32000_HYPHEN]),
          OrR [iso32000_period_number, iso32000_number_period_number, iso32000_number]])"

definition iso32000_literal_string :: rule where [grammar_defs]:
  "iso32000_literal_string =
     RuleD ''iso32000::literal_string'' (AndR [iso32000_OPEN_PARAN, iso32000_CLOSE_PARAN])"

subsection \<open>Numbers\<close>

lemma plain_iso32000_DIGIT: "plain iso32000_DIGIT = class_fn is_digit"
  by (simp add: iso32000_DIGIT_def plain_class in_range_ascii is_digit_def [abs_def])

lemma plain_iso32000_number:
  "plain iso32000_number s = (case s of [] \<Rightarrow> None | c # cs \<Rightarrow>
     if is_digit c then Some (dropWhile is_digit cs) else None)"
  by (simp add: iso32000_number_def plain_iso32000_DIGIT split: list.split)

definition unsigned_decimal :: "string \<Rightarrow> bool" where
  "unsigned_decimal u \<longleftrightarrow> (\<exists>a b. list_all is_digit a \<and> list_all is_digit b \<and>
     (u = a \<and> a \<noteq> [] \<or> u = a @ ''.'' @ b \<and> (a \<noteq> [] \<or> b \<noteq> [])))"

lemma dropWhile_point:
  "(\<exists>a. list_all is_digit a \<and> r = a @ CHR ''.'' # b) \<longleftrightarrow> dropWhile is_digit r = CHR ''.'' # b"
proof -
  have dot: "\<not> is_digit (CHR ''.'')" by code_simp
  have "dropWhile is_digit (a @ CHR ''.'' # b) = CHR ''.'' # b" if "list_all is_digit a" for a
    using that dot by (induction a) auto
  moreover have "list_all is_digit (takeWhile is_digit r)"
    by (auto simp: list_all_iff dest: set_takeWhileD)
  ultimately show ?thesis by (metis takeWhile_dropWhile_id)
qed

lemma unsigned_decimal_cases:
  "\<not> unsigned_decimal []"
  "unsigned_decimal (CHR ''.'' # r) \<longleftrightarrow> r \<noteq> [] \<and> list_all is_digit r"
  "is_digit c \<Longrightarrow> unsigned_decimal (c # r) \<longleftrightarrow>
     list_all is_digit r \<or> (\<exists>b. list_all is_digit b \<and> dropWhile is_digit r = CHR ''.'' # b)"
  "\<not> is_digit c \<Longrightarrow> c \<noteq> CHR ''.'' \<Longrightarrow> \<not> unsigned_decimal (c # r)"
proof -
  have dot: "\<not> is_digit (CHR ''.'')" by code_simp
  then show "unsigned_decimal (CHR ''.'' # r) \<longleftrightarrow> r \<noteq> [] \<and> list_all is_digit r"
    by (auto simp: unsigned_decimal_def Cons_eq_append_conv intro: exI [of _ "[]"])
  assume "is_digit c"
  with dot show "unsigned_decimal (c # r) \<longleftrightarrow>
      list_all is_digit r \<or> (\<exists>b. list_all is_digit b \<and> dropWhile is_digit r = CHR ''.'' # b)"
  proof -
    have "unsigned_decimal (c # r) \<longleftrightarrow>
        (\<exists>a b. list_all is_digit a \<and> list_all is_digit b \<and> (r = a \<or> r = a @ CHR ''.'' # b))"
      (is "_ \<longleftrightarrow> ?r")
    proof
      assume "unsigned_decimal (c # r)"
      with \<open>is_digit c\<close> dot show ?r
        by (auto simp: unsigned_decimal_def Cons_eq_append_conv)
    next
      assume ?r
      then obtain a b where "list_all is_digit (c # a)" "list_all is_digit b"
        "c # r = c # a \<or> c # r = (c # a) @ ''.'' @ b"
        using \<open>is_digit c\<close> by auto
      then show "unsigned_decimal (c # r)" unfolding unsigned_decimal_def by blast
    qed
    then show ?thesis unfolding dropWhile_point [symmetric] by blast
  qed
qed (auto simp: unsigned_decimal_def Cons_eq_append_conv)

lemma iso32000_unsigned:
  "alt_fn [plain iso32000_period_number, plain iso32000_number_period_number,
      plain iso32000_number] u = Some [] \<longleftrightarrow> unsigned_decimal u"
proof -
  have dot: "\<not> is_digit (CHR ''.'')" by code_simp
  have number: "plain (OneOrMore iso32000_DIGIT) = plain iso32000_number"
    by (simp add: iso32000_number_def)
  note defs = iso32000_period_number_def iso32000_number_period_number_def number
    plain_iso32000_number plain_iso32000_DIGIT iso32000_PERIOD_def dot unsigned_decimal_cases
  consider "u = []" | r where "u = CHR ''.'' # r" | c r where "u = c # r" "is_digit c"
    | c r where "u = c # r" "\<not> is_digit c" "c \<noteq> CHR ''.''"
    by (cases u) auto
  then show ?thesis
  proof cases
    case (2 r)
    then show ?thesis by (cases r) (auto simp: defs list_all_iff)
  next
    case (3 c r)
    then show ?thesis
      by (cases "dropWhile is_digit r") (auto simp: defs dropWhile_Nil_list_all [symmetric] simp del: dropWhile_eq_Nil_conv)
  qed (auto simp: defs)
qed

text \<open>The \<open>Real\<close> rule of the PDF grammar accepts exactly the optionally signed decimals: a
  digit string, or digits around a point with at least one digit on either side.\<close>

theorem iso32000_real_language:
  "parser_accepts g iso32000_Real False [] w \<longleftrightarrow>
     (\<exists>sign u. sign \<in> {[], ''+'', ''-''} \<and> unsigned_decimal u \<and> w = sign @ u)"
proof -
  have c: "complete {} iso32000_Real" by (simp add: grammar_defs)
  let ?f = "alt_fn [plain iso32000_period_number, plain iso32000_number_period_number,
      plain iso32000_number]"
  have sign: "\<not> unsigned_decimal (x # u)" if "x = CHR ''+'' \<or> x = CHR ''-''" for x u
    using that by (intro unsigned_decimal_cases) (auto simp: is_digit_code)
  have "plain iso32000_Real w = (case w of [] \<Rightarrow> ?f [] | c # cs \<Rightarrow>
      if c = CHR ''+'' \<or> c = CHR ''-'' then ?f cs else ?f w)"
  proof -
    have "plain (ZeroOrOne (OrR [iso32000_PLUS, iso32000_HYPHEN])) =
        opt_fn (class_fn (\<lambda>c. c = CHR ''+'' \<or> c = CHR ''-''))"
      by (simp add: iso32000_PLUS_def iso32000_HYPHEN_def plain_opt plain_class alt_fn_class
          del: alt_fn.simps)
    then show ?thesis
      by (cases w) (simp_all add: iso32000_Real_def opt_fn_def plain_class
          del: alt_fn.simps plain.simps split: option.split)
  qed
  then have p: "plain iso32000_Real w = Some [] \<longleftrightarrow> (case w of [] \<Rightarrow> ?f [] = Some [] | c # cs \<Rightarrow>
      if c = CHR ''+'' \<or> c = CHR ''-'' then ?f cs = Some [] else ?f w = Some [])"
    by (cases w) (simp_all only: list.case if_distrib [of "\<lambda>x. x = Some []"])
  then have "plain iso32000_Real w = Some [] \<longleftrightarrow> (case w of [] \<Rightarrow> unsigned_decimal [] | c # cs \<Rightarrow>
      if c = CHR ''+'' \<or> c = CHR ''-'' then unsigned_decimal cs else unsigned_decimal w)"
    unfolding iso32000_unsigned .
  also have "\<dots> \<longleftrightarrow> unsigned_decimal w \<or> (\<exists>u. w = CHR ''+'' # u \<and> unsigned_decimal u) \<or>
      (\<exists>u. w = CHR ''-'' # u \<and> unsigned_decimal u)"
  proof (cases w)
    case (Cons c cs)
    have "unsigned_decimal (c # cs) \<Longrightarrow> c \<noteq> CHR ''+'' \<and> c \<noteq> CHR ''-''" using sign [of c cs] by blast
    with Cons show ?thesis by auto
  qed simp
  also have "\<dots> \<longleftrightarrow> (\<exists>sign u. sign \<in> {[], ''+'', ''-''} \<and> unsigned_decimal u \<and> w = sign @ u)"
    by (simp add: ex_disj_distrib conj_disj_distribR) blast
  finally show ?thesis by (simp only: accepts_plain [OF c])
qed

end
