(* ===== verification/Keyed_Store.thy ===== *)
theory Keyed_Store
  imports Prelude
begin

text \<open>
  The interface the containers of the library promise their clients: a store of values under
  unique keys, whose insertion does not overwrite and whose removal says whether there was
  anything to remove. The locale states what each operation does to the contents; inside it, a
  client's whole sequence of calls is shown to behave as on a mathematical map.
\<close>

datatype ('k, 'v) store_call = Insert 'k 'v | Remove 'k | Exists 'k

fun call_map :: "('k, 'v) store_call \<Rightarrow> ('k \<Rightarrow> 'v option) \<Rightarrow> bool \<times> ('k \<Rightarrow> 'v option)" where
  "call_map (Insert k v) m = (if m k = None then (True, m(k \<mapsto> v)) else (False, m))"
| "call_map (Remove k) m = (m k \<noteq> None, m(k := None))"
| "call_map (Exists k) m = (m k \<noteq> None, m)"

fun calls_map :: "('k, 'v) store_call list \<Rightarrow> ('k \<Rightarrow> 'v option) \<Rightarrow> bool list \<times> ('k \<Rightarrow> 'v option)" where
  "calls_map [] m = ([], m)"
| "calls_map (c # cs) m =
     (let (b, m') = call_map c m; (bs, m'') = calls_map cs m' in (b # bs, m''))"

text \<open>The same calls on an implementation.\<close>

fun call_store ::
  "('k \<Rightarrow> 'v \<Rightarrow> 's \<Rightarrow> bool \<times> 's) \<Rightarrow> ('k \<Rightarrow> 's \<Rightarrow> bool \<times> 's) \<Rightarrow> ('k \<Rightarrow> 's \<Rightarrow> bool) \<Rightarrow>
   ('k, 'v) store_call \<Rightarrow> 's \<Rightarrow> bool \<times> 's" where
  "call_store ins del mem (Insert k v) s = ins k v s"
| "call_store ins del mem (Remove k) s = del k s"
| "call_store ins del mem (Exists k) s = (mem k s, s)"

fun calls_store ::
  "('k \<Rightarrow> 'v \<Rightarrow> 's \<Rightarrow> bool \<times> 's) \<Rightarrow> ('k \<Rightarrow> 's \<Rightarrow> bool \<times> 's) \<Rightarrow> ('k \<Rightarrow> 's \<Rightarrow> bool) \<Rightarrow>
   ('k, 'v) store_call list \<Rightarrow> 's \<Rightarrow> bool list \<times> 's" where
  "calls_store ins del mem [] s = ([], s)"
| "calls_store ins del mem (c # cs) s =
     (let (b, s') = call_store ins del mem c s; (bs, s'') = calls_store ins del mem cs s'
      in (b # bs, s''))"

locale keyed_store =
  fixes inv :: "'s \<Rightarrow> bool"
    and lookup :: "'s \<Rightarrow> 'k \<Rightarrow> 'v option"
    and ins :: "'k \<Rightarrow> 'v \<Rightarrow> 's \<Rightarrow> bool \<times> 's"
    and del :: "'k \<Rightarrow> 's \<Rightarrow> bool \<times> 's"
    and mem :: "'k \<Rightarrow> 's \<Rightarrow> bool"
  assumes ins_inv: "inv s \<Longrightarrow> inv (snd (ins k v s))"
    and del_inv: "inv s \<Longrightarrow> inv (snd (del k s))"
    and ins_new: "inv s \<Longrightarrow> lookup s k = None \<Longrightarrow>
      fst (ins k v s) \<and> lookup (snd (ins k v s)) = (lookup s)(k \<mapsto> v)"
    and ins_present: "inv s \<Longrightarrow> lookup s k = Some w \<Longrightarrow>
      \<not> fst (ins k v s) \<and> lookup (snd (ins k v s)) = lookup s"
    and del_lookup: "inv s \<Longrightarrow>
      fst (del k s) = (lookup s k \<noteq> None) \<and> lookup (snd (del k s)) = (lookup s)(k := None)"
    and mem_lookup: "inv s \<Longrightarrow> mem k s = (lookup s k \<noteq> None)"
begin

lemma call_refines:
  assumes "inv s" and "call_store ins del mem c s = (b, s')"
  shows "inv s' \<and> call_map c (lookup s) = (b, lookup s')"
proof (cases c)
  case (Insert k v)
  with assms(2) have e: "ins k v s = (b, s')" by simp
  show ?thesis
    using ins_inv [OF assms(1), of k v] ins_new [OF assms(1), of k v]
      ins_present [OF assms(1), of k _ v] Insert
    by (cases "lookup s k") (auto simp: e)
next
  case (Remove k)
  with assms(2) have e: "del k s = (b, s')" by simp
  show ?thesis
    using del_inv [OF assms(1), of k] del_lookup [OF assms(1), of k] Remove by (simp add: e)
next
  case (Exists k)
  then show ?thesis using assms mem_lookup [OF assms(1), of k] by auto
qed

lemma calls_refine:
  "inv s \<Longrightarrow> calls_store ins del mem cs s = (bs, s') \<Longrightarrow>
     inv s' \<and> calls_map cs (lookup s) = (bs, lookup s')"
proof (induction cs arbitrary: s bs s')
  case (Cons c cs)
  obtain b t where c: "call_store ins del mem c s = (b, t)" by force
  obtain bs' t' where cs: "calls_store ins del mem cs t = (bs', t')" by force
  show ?case
    using call_refines [OF Cons.prems(1) c] Cons.IH [OF _ cs] Cons.prems(2) c cs by auto
qed simp

end

end
