(* ===== verification/Hash_Map.thy ===== *)
theory Hash_Map
  imports Keyed_Store "HOL-Library.Word"
begin

unbundle bit_operations_syntax

text \<open>
  The hash map of \<open>concurrent/hash_map.hpp\<close>, as one thread sees it: a trie over the nibbles of
  the key, lowest nibble first. \<open>hash_map<_KeyT, _ValueT, n>\<close> holds sixteen pointers to maps
  over \<open>n - 1\<close> nibbles, and \<open>hash_map<_KeyT, _ValueT, 1>\<close> sixteen pointers to values; the
  template parameter \<open>n\<close> is the first argument of the operations. A key is the unsigned integer
  of its size (\<open>intrinsic_cast\<close>), with \<open>n = sizeof(_KeyT) * 2\<close> at the root. An atomic exchange
  of a pointer that was just read as null succeeds when no other thread runs; the interleavings
  are in \<open>Hash_Map_Race\<close>.
\<close>

datatype 'v hash_map = Buckets "'v hash_map option list" | Values "'v option list"

definition nibble_count :: nat where
  "nibble_count = 16"

definition Index :: "'k::len word \<Rightarrow> nat" where
  "Index x = unat (x AND 0xF)"

fun new_bucket :: "nat \<Rightarrow> 'v hash_map" where
  "new_bucket n = (if n \<le> 1 then Values (replicate nibble_count None)
                   else Buckets (replicate nibble_count None))"

text \<open>The map over one nibble, whose buckets point to the values.\<close>

definition leaf_insert :: "'k::len word \<Rightarrow> 'v \<Rightarrow> 'v option list \<Rightarrow> bool \<times> 'v option list" where
  "leaf_insert Key Value vs =
     (let x = Index Key in
      case vs ! x of
        Some _ \<Rightarrow> (False, vs)
      | None \<Rightarrow> (True, vs[x := Some Value]))"

definition leaf_remove :: "'k::len word \<Rightarrow> 'v option list \<Rightarrow> bool \<times> 'v option list" where
  "leaf_remove Key vs =
     (let x = Index Key in
      case vs ! x of
        None \<Rightarrow> (False, vs)
      | Some _ \<Rightarrow> (True, vs[x := None]))"

definition leaf_exists :: "'k::len word \<Rightarrow> 'v option list \<Rightarrow> bool" where
  "leaf_exists Key vs = (vs ! Index Key \<noteq> None)"

definition leaf_index :: "'v \<Rightarrow> 'k::len word \<Rightarrow> 'v option list \<Rightarrow> 'v option \<times> 'v option list" where
  "leaf_index dflt Key vs =
     (let x = Index Key in
      case vs ! x of
        Some v \<Rightarrow> (Some v, vs)
      | None \<Rightarrow> (Some dflt, vs[x := Some dflt]))"

lemmas leaf_defs = leaf_insert_def leaf_remove_def leaf_exists_def leaf_index_def

text \<open>The map over several nibbles.\<close>

fun hm_insert :: "nat \<Rightarrow> 'k::len word \<Rightarrow> 'v \<Rightarrow> 'v hash_map \<Rightarrow> bool \<times> 'v hash_map" where
  "hm_insert n Key Value (Values vs) =
     (let (b, vs') = leaf_insert Key Value vs in (b, Values vs'))"
| "hm_insert (Suc n) Key Value (Buckets bs) =
     (let x = Index Key;
          pChild = (case bs ! x of None \<Rightarrow> new_bucket n | Some c \<Rightarrow> c);
          (b, c') = hm_insert n (drop_bit 4 Key) Value pChild
      in (b, Buckets (bs[x := Some c'])))"
| "hm_insert 0 Key Value (Buckets bs) = (False, Buckets bs)"

fun hm_exists :: "nat \<Rightarrow> 'k::len word \<Rightarrow> 'v hash_map \<Rightarrow> bool" where
  "hm_exists n Key (Values vs) = leaf_exists Key vs"
| "hm_exists (Suc n) Key (Buckets bs) =
     (case bs ! Index Key of None \<Rightarrow> False | Some c \<Rightarrow> hm_exists n (drop_bit 4 Key) c)"
| "hm_exists 0 Key (Buckets bs) = False"

fun hm_remove :: "nat \<Rightarrow> 'k::len word \<Rightarrow> 'v hash_map \<Rightarrow> bool \<times> 'v hash_map" where
  "hm_remove n Key (Values vs) =
     (let (b, vs') = leaf_remove Key vs in (b, Values vs'))"
| "hm_remove (Suc n) Key (Buckets bs) =
     (let x = Index Key in
      case bs ! x of
        None \<Rightarrow> (False, Buckets bs)
      | Some c \<Rightarrow> (let (b, c') = hm_remove n (drop_bit 4 Key) c in (b, Buckets (bs[x := Some c']))))"
| "hm_remove 0 Key (Buckets bs) = (False, Buckets bs)"

text \<open>\<open>operator[]\<close>: the value under the key, inserting a default-constructed one if there is
  none. In an inner node an empty bucket is filled through \<open>insert\<close> and then read again.\<close>

fun hm_index :: "nat \<Rightarrow> 'v \<Rightarrow> 'k::len word \<Rightarrow> 'v hash_map \<Rightarrow> 'v option \<times> 'v hash_map" where
  "hm_index n dflt Key (Values vs) =
     (let (r, vs') = leaf_index dflt Key vs in (r, Values vs'))"
| "hm_index (Suc n) dflt Key (Buckets bs) =
     (let x = Index Key;
          bs' = (case bs ! x of
                   Some _ \<Rightarrow> bs
                 | None \<Rightarrow> (case snd (hm_insert (Suc n) Key dflt (Buckets bs)) of
                              Buckets cs \<Rightarrow> cs | Values _ \<Rightarrow> bs))
      in case bs' ! x of
           None \<Rightarrow> (None, Buckets bs')
         | Some c \<Rightarrow> (let (r, c') = hm_index n dflt (drop_bit 4 Key) c in (r, Buckets (bs'[x := Some c']))))"
| "hm_index 0 dflt Key (Buckets bs) = (None, Buckets bs)"

subsection \<open>Shape and contents\<close>

fun shaped :: "nat \<Rightarrow> 'v hash_map \<Rightarrow> bool" where
  "shaped n (Values vs) \<longleftrightarrow> n = 1 \<and> length vs = nibble_count"
| "shaped 0 (Buckets bs) \<longleftrightarrow> False"
| "shaped (Suc n) (Buckets bs) \<longleftrightarrow>
     0 < n \<and> length bs = nibble_count \<and> list_all (\<lambda>b. case b of None \<Rightarrow> True | Some c \<Rightarrow> shaped n c) bs"

fun hm_lookup :: "nat \<Rightarrow> 'v hash_map \<Rightarrow> 'k::len word \<Rightarrow> 'v option" where
  "hm_lookup n (Values vs) Key = vs ! Index Key"
| "hm_lookup (Suc n) (Buckets bs) Key =
     (case bs ! Index Key of None \<Rightarrow> None | Some c \<Rightarrow> hm_lookup n c (drop_bit 4 Key))"
| "hm_lookup 0 (Buckets bs) Key = None"

fun nibbles :: "nat \<Rightarrow> 'k::len word \<Rightarrow> nat list" where
  "nibbles 0 x = []"
| "nibbles (Suc n) x = Index x # nibbles n (drop_bit 4 x)"

lemma Index_mod: "Index (x :: 'k::len word) = unat x mod 16"
proof -
  have "x AND 0xF = take_bit 4 x"
    by (simp add: take_bit_eq_mask mask_eq_exp_minus_1)
  then show ?thesis unfolding Index_def by (simp only: unsigned_take_bit_eq) (simp add: take_bit_eq_mod)
qed

lemma Index_less [simp]: "Index x < nibble_count"
  by (simp add: Index_mod nibble_count_def)

lemma unat_drop_nibble: "unat (drop_bit 4 (x :: 'k::len word)) = unat x div 16"
  unfolding unat_drop_bit_eq by (simp add: drop_bit_eq_div)

lemma nibbles_inject_mod:
  "nibbles n x = nibbles n y \<Longrightarrow> unat (x :: 'k::len word) mod 16 ^ n = unat y mod 16 ^ n"
proof (induction n arbitrary: x y)
  case (Suc n)
  then have "unat x div 16 mod 16 ^ n = unat y div 16 mod 16 ^ n"
    and "unat x mod 16 = unat y mod 16"
    by (auto simp: Index_mod dest!: Suc.IH simp flip: unat_drop_nibble)
  then show ?case by (simp add: mod_mult2_eq)
qed simp

lemma nibbles_inject:
  assumes "LENGTH('k) = 4 * n"
  shows "nibbles n x = nibbles n y \<longleftrightarrow> x = (y :: 'k::len word)"
proof
  assume e: "nibbles n x = nibbles n y"
  have p: "(2::nat) ^ LENGTH('k) = 16 ^ n" by (simp add: assms power_mult)
  have "unat z mod 16 ^ n = unat z" for z :: "'k word"
    using unsigned_less [of z, where ?'a = nat] unfolding p by simp
  then show "x = y" using nibbles_inject_mod [OF e] by (metis word_unat_eq_iff)
qed simp


lemma new_bucket_shaped [simp]: "0 < n \<Longrightarrow> shaped n (new_bucket n)"
  by (cases n) (auto simp: list_all_iff)

lemma new_bucket_lookup [simp]: "0 < n \<Longrightarrow> hm_lookup n (new_bucket n) k = None"
  by (cases n) auto

declare new_bucket.simps [simp del]

lemma shaped_Buckets [simp]:
  "shaped (Suc n) (Buckets bs) \<longleftrightarrow> 0 < n \<and> length bs = nibble_count \<and>
     (\<forall>i c. i < nibble_count \<longrightarrow> bs ! i = Some c \<longrightarrow> shaped n c)"
  by (auto simp: list_all_length split: option.split)

declare shaped.simps(3) [simp del]

lemma shaped_zero [simp]: "\<not> shaped 0 m"
  by (cases m) auto

text \<open>The child an insertion descends into: the bucket of the nibble, made if it was missing.\<close>

definition child_or_new :: "nat \<Rightarrow> 'v hash_map option \<Rightarrow> 'v hash_map" where
  "child_or_new n b = (case b of None \<Rightarrow> new_bucket n | Some c \<Rightarrow> c)"

lemma child_or_new_Some [simp]: "child_or_new n (Some c) = c"
  by (simp add: child_or_new_def)

lemma child_shaped:
  "shaped (Suc n) (Buckets bs) \<Longrightarrow> shaped n (child_or_new n (bs ! Index k))"
  using Index_less [of k] by (auto simp: child_or_new_def simp del: Index_less split: option.split)

lemma hm_lookup_child:
  "shaped (Suc n) (Buckets bs) \<Longrightarrow>
     hm_lookup (Suc n) (Buckets bs) k = hm_lookup n (child_or_new n (bs ! Index k)) (drop_bit 4 k)"
  by (auto simp: child_or_new_def split: option.split)

lemma hm_lookup_update:
  "length bs = nibble_count \<Longrightarrow>
     hm_lookup (Suc n) (Buckets (bs[Index k := Some c])) k' =
       (if Index k' = Index k then hm_lookup n c (drop_bit 4 k') else hm_lookup (Suc n) (Buckets bs) k')"
  by simp

lemma shaped_update:
  "shaped (Suc n) (Buckets bs) \<Longrightarrow> shaped n c \<Longrightarrow> shaped (Suc n) (Buckets (bs[i := Some c]))"
  by (cases "i < length bs") (auto simp: nth_list_update split: if_splits)

lemma hm_insert_Buckets:
  "hm_insert (Suc n) k v (Buckets bs) =
     (let r = hm_insert n (drop_bit 4 k) v (child_or_new n (bs ! Index k))
      in (fst r, Buckets (bs[Index k := Some (snd r)])))"
  by (simp add: child_or_new_def Let_def split_beta)

lemma hm_insert_correct:
  fixes k :: "'k::len word"
  assumes "shaped n m"
  shows "shaped n (snd (hm_insert n k v m)) \<and>
    fst (hm_insert n k v m) = (hm_lookup n m k = None) \<and>
    (\<forall>k' :: 'k word. hm_lookup n (snd (hm_insert n k v m)) k' =
      (if nibbles n k' = nibbles n k \<and> hm_lookup n m k = None then Some v else hm_lookup n m k'))"
  using assms
proof (induction n arbitrary: k m)
  case (Suc n)
  show ?case
  proof (cases m)
    case (Buckets bs)
    have s: "shaped (Suc n) (Buckets bs)" and len: "length bs = nibble_count"
      using Suc.prems Buckets by simp_all
    note IH = Suc.IH [OF child_shaped [OF s, of k], of "drop_bit 4 k"]
    show ?thesis
      unfolding Buckets hm_insert_Buckets Let_def fst_conv snd_conv hm_lookup_update [OF len]
      using IH shaped_update [OF s, of _ "Index k"] by (simp add: hm_lookup_child [OF s] del: hm_lookup.simps shaped_Buckets)
  next
    case (Values vs)
    with Suc.prems show ?thesis
      by (auto simp: leaf_defs Let_def nth_list_update split: option.split)
  qed
qed simp

lemma hm_exists_correct: "shaped n m \<Longrightarrow> hm_exists n k m = (hm_lookup n m k \<noteq> None)"
proof (induction n arbitrary: k m)
  case (Suc n)
  show ?case
  proof (cases m)
    case (Buckets bs)
    show ?thesis
      using Suc.prems Suc.IH [of "the (bs ! Index k)" "drop_bit 4 k"] Index_less [of k]
      by (auto simp: Buckets simp del: Index_less split: option.split)
  qed (simp add: leaf_defs)
qed simp

lemma hm_remove_correct:
  fixes k :: "'k::len word"
  assumes "shaped n m"
  shows "shaped n (snd (hm_remove n k m)) \<and>
    fst (hm_remove n k m) = (hm_lookup n m k \<noteq> None) \<and>
    (\<forall>k' :: 'k word. hm_lookup n (snd (hm_remove n k m)) k' =
      (if nibbles n k' = nibbles n k then None else hm_lookup n m k'))"
  using assms
proof (induction n arbitrary: k m)
  case (Suc n)
  show ?case
  proof (cases m)
    case (Buckets bs)
    have s: "shaped (Suc n) (Buckets bs)" and len: "length bs = nibble_count"
      using Suc.prems Buckets by simp_all
    show ?thesis
    proof (cases "bs ! Index k")
      case None
      then show ?thesis using s by (auto simp: Buckets)
    next
      case (Some c)
      note IH = Suc.IH [OF child_shaped [OF s, of k], of "drop_bit 4 k", unfolded Some child_or_new_Some]
      have r: "hm_remove (Suc n) k m =
          (let r = hm_remove n (drop_bit 4 k) c in (fst r, Buckets (bs[Index k := Some (snd r)])))"
        by (simp add: Buckets Some Let_def split_beta)
      show ?thesis
        unfolding r Let_def fst_conv snd_conv hm_lookup_update [OF len]
        using IH shaped_update [OF s, of _ "Index k"]
        by (simp add: Buckets hm_lookup_child [OF s] Some del: hm_lookup.simps shaped_Buckets)
    qed
  next
    case (Values vs)
    with Suc.prems show ?thesis
      by (auto simp: leaf_defs Let_def nth_list_update split: option.split)
  qed
qed simp

text \<open>\<open>operator[]\<close> is an insertion of the default value followed by a read.\<close>

lemma hm_insert_present:
  "shaped n m \<Longrightarrow> hm_lookup n m k \<noteq> None \<Longrightarrow> hm_insert n k v m = (False, m)"
proof (induction n arbitrary: k m)
  case (Suc n)
  show ?case
  proof (cases m)
    case (Buckets bs)
    then obtain c where c: "bs ! Index k = Some c"
      using Suc.prems(2) by (auto split: option.splits)
    have "shaped n c" using child_shaped [of n bs k] Suc.prems(1) by (simp add: Buckets c)
    then have "hm_insert n (drop_bit 4 k) v c = (False, c)"
      using Suc.prems(2) by (intro Suc.IH) (simp_all add: Buckets c)
    then show ?thesis using list_update_id [of bs "Index k"] by (simp add: Buckets c)
  qed (use Suc.prems in \<open>auto simp: leaf_defs\<close>)
qed simp

lemma hm_index_correct:
  assumes "shaped n m"
  shows "hm_index n d k m =
    (Some (case hm_lookup n m k of None \<Rightarrow> d | Some v \<Rightarrow> v), snd (hm_insert n k d m))"
  using assms
proof (induction n arbitrary: k m)
  case (Suc n)
  show ?case
  proof (cases m)
    case (Buckets bs)
    have s: "shaped (Suc n) (Buckets bs)" and len: "length bs = nibble_count"
      using Suc.prems Buckets by simp_all
    show ?thesis
    proof (cases "bs ! Index k")
      case None
      define c where "c = snd (hm_insert n (drop_bit 4 k) d (new_bucket n))"
      have p: "0 < n" using s by simp
      note new = hm_insert_correct [OF new_bucket_shaped [OF p], of "drop_bit 4 k" d]
      have "hm_insert n (drop_bit 4 k) d (new_bucket n) = (True, c)"
        using new p by (auto simp: c_def prod_eq_iff)
      then have i: "hm_insert (Suc n) k d (Buckets bs) = (True, Buckets (bs[Index k := Some c]))"
        by (simp add: hm_insert_Buckets None child_or_new_def Let_def del: hm_insert.simps)
      have c: "shaped n c" "hm_lookup n c (drop_bit 4 k) = Some d"
        using new p by (auto simp: c_def)
      have "hm_index n d (drop_bit 4 k) c = (Some d, c)"
        using Suc.IH [OF c(1), of "drop_bit 4 k"] hm_insert_present [OF c(1), of "drop_bit 4 k" d] c(2)
        by simp
      then show ?thesis
        unfolding Buckets i by (simp add: None i len Let_def del: hm_insert.simps)
    next
      case (Some c)
      have "shaped n c" using child_shaped [OF s, of k] by (simp add: Some)
      from Suc.IH [OF this, of "drop_bit 4 k"] show ?thesis
        unfolding Buckets hm_insert_Buckets by (simp add: Some Let_def del: hm_insert.simps)
    qed
  next
    case (Values vs)
    with Suc.prems show ?thesis
      by (auto simp: leaf_defs Let_def nth_list_update split: option.split)
  qed
qed simp

subsection \<open>The map as a keyed store\<close>

text \<open>A map over keys of type \<open>'k\<close> has as many levels as the key has nibbles.\<close>

definition hm_inv :: "'k::len itself \<Rightarrow> nat \<Rightarrow> 'v hash_map \<Rightarrow> bool" where
  "hm_inv key_type n m \<longleftrightarrow> LENGTH('k) = 4 * n \<and> shaped n m"

lemma hm_inv_new: "LENGTH('k::len) = 4 * n \<Longrightarrow> hm_inv TYPE('k) n (new_bucket n)"
  using len_gt_0 [where ?'a = 'k] by (simp add: hm_inv_def)

lemma hm_lookup_new: "LENGTH('k::len) = 4 * n \<Longrightarrow> hm_lookup n (new_bucket n) = (Map.empty :: 'k word \<rightharpoonup> 'v)"
  using len_gt_0 [where ?'a = 'k] by auto

interpretation hm: keyed_store "hm_inv TYPE('k::len) n" "hm_lookup n :: 'v hash_map \<Rightarrow> 'k word \<Rightarrow> 'v option"
  "hm_insert n" "hm_remove n" "hm_exists n"
proof unfold_locales
  fix m :: "'v hash_map" and k :: "'k word" and v w :: 'v
  assume "hm_inv TYPE('k) n m"
  then have n: "LENGTH('k) = 4 * n" and s: "shaped n m" by (simp_all add: hm_inv_def)
  note ins = hm_insert_correct [OF s, of k v] and del = hm_remove_correct [OF s, of k]
  show "hm_inv TYPE('k) n (snd (hm_insert n k v m))" using ins n by (simp add: hm_inv_def)
  show "hm_inv TYPE('k) n (snd (hm_remove n k m))" using del n by (simp add: hm_inv_def)
  show "fst (hm_insert n k v m) \<and> hm_lookup n (snd (hm_insert n k v m)) = (hm_lookup n m)(k \<mapsto> v)"
    if "hm_lookup n m k = None" using ins that by (auto simp: nibbles_inject [OF n])
  show "\<not> fst (hm_insert n k v m) \<and> hm_lookup n (snd (hm_insert n k v m)) = (hm_lookup n m :: 'k word \<Rightarrow> 'v option)"
    if "hm_lookup n m k = Some w" using ins that by (simp add: fun_eq_iff)
  show "fst (hm_remove n k m) = (hm_lookup n m k \<noteq> None) \<and>
      hm_lookup n (snd (hm_remove n k m)) = (hm_lookup n m)(k := None)"
    using del by (auto simp: nibbles_inject [OF n])
  show "hm_exists n k m = (hm_lookup n m k \<noteq> None)" using s by (rule hm_exists_correct)
qed

text \<open>C13: The hash map is a map. A new map on which one thread makes any sequence of insertions,
  removals and queries gives the answers of a mathematical map (an insertion succeeds exactly
  when the key is absent, a removal says whether the key was there, a query whether it is) and
  afterwards holds that map's values: \<open>operator[]\<close> at any key returns the value the map has
  there, so an insertion that answers false has left the stored value alone, and the
  default-constructed value where the map has none.\<close>

theorem hash_map_answers_as_a_map:
  fixes cs :: "('k::len word, 'v) store_call list"
  assumes "LENGTH('k) = 4 * n"
  shows "case calls_store (hm_insert n) (hm_remove n) (hm_exists n) cs (new_bucket n) of
    (answers, m) \<Rightarrow> answers = fst (calls_map cs Map.empty) \<and>
      (\<forall>k d. fst (hm_index n d k m) =
        Some (case snd (calls_map cs Map.empty) k of None \<Rightarrow> d | Some v \<Rightarrow> v))"
proof -
  obtain bs m where r: "calls_store (hm_insert n) (hm_remove n) (hm_exists n) cs (new_bucket n) = (bs, m)"
    by force
  from hm.calls_refine [OF hm_inv_new [OF assms] r]
  have "shaped n m" "calls_map cs Map.empty = (bs, hm_lookup n m)"
    by (simp_all add: hm_inv_def hm_lookup_new [OF assms])
  then show ?thesis by (simp add: r hm_index_correct)
qed

definition some_calls :: "(8 word, string) store_call list" where
  "some_calls = [Insert 0x12 ''a'', Insert 0x12 ''b'', Insert 0x22 ''c'', Remove 0x22, Exists 0x12,
     Exists 0x22, Remove 0x13]"

theorem hash_map_answers_as_a_map_witness:
  "case calls_store (hm_insert 2) (hm_remove 2) (hm_exists 2) some_calls (new_bucket 2) of
     (answers, m) \<Rightarrow> answers = [True, False, True, True, True, False, False] \<and>
       fst (hm_index 2 '''' (0x12 :: 8 word) m) = Some ''a'' \<and>
       fst (hm_index 2 '''' (0x22 :: 8 word) m) = Some ''''"
proof -
  have "LENGTH(8) = 4 * 2" by simp
  note w = hash_map_answers_as_a_map [OF this, of some_calls]
  have "fst (calls_map some_calls Map.empty) = [True, False, True, True, True, False, False]"
    "snd (calls_map some_calls Map.empty) 0x12 = Some ''a''"
    "snd (calls_map some_calls Map.empty) 0x22 = None"
    by (simp_all add: some_calls_def)
  then show ?thesis using w by (auto split: prod.splits)
qed

text \<open>Indexing. \<open>operator[]\<close> returns the value under the key, and leaves the map as it was,
  when there is one; otherwise it inserts the default value and returns that. No other key is
  affected.\<close>

theorem hash_map_index:
  fixes k :: "'k::len word" and d :: 'v
  assumes "LENGTH('k) = 4 * n" and "shaped n m" and "hm_index n d k m = (r, m')"
  shows "shaped n m' \<and> r = hm_lookup n m' k \<and>
    (hm_lookup n m' :: 'k word \<Rightarrow> 'v option) =
      (if hm_lookup n m k = None then (hm_lookup n m)(k \<mapsto> d) else hm_lookup n m)"
proof -
  have "m' = snd (hm_insert n k d m)"
    and r: "r = Some (case hm_lookup n m k of None \<Rightarrow> d | Some v \<Rightarrow> v)"
    using hm_index_correct [OF assms(2), of d k] assms(3) by simp_all
  with hm_insert_correct [OF assms(2), of k d] show ?thesis
    by (auto simp: nibbles_inject [OF assms(1)] split: option.split)
qed

theorem hash_map_index_witness:
  "fst (hm_index 2 (0 :: nat) (0x7F :: 8 word) (snd (hm_insert 2 (0x7F :: 8 word) 5 (new_bucket 2)))) = Some 5"
proof -
  let ?m = "snd (hm_insert 2 (0x7F :: 8 word) 5 (new_bucket 2)) :: nat hash_map"
  obtain r m' where i: "hm_index 2 0 (0x7F :: 8 word) ?m = (r, m')" by force
  have s: "shaped 2 ?m" by code_simp
  have l: "hm_lookup 2 ?m (0x7F :: 8 word) = Some 5" by code_simp
  from hash_map_index [OF _ s i] l show ?thesis unfolding i by simp
qed

end
