(* ===== verification/Hash_Map_Iteration.thy ===== *)
theory Hash_Map_Iteration
  imports Hash_Map
begin

text \<open>
  The iterators of \<open>concurrent/hash_map.hpp\<close>. An iterator holds the nibbles of its position, an
  array of \<open>int8_t\<close> of which each level owns one element and passes the rest to its child, and
  a pointer to the current value (here the value, or \<open>None\<close> for null). The operators bump the
  last nibble and call \<open>_next\<close> or \<open>_prev\<close>.

  The loops of \<open>_next\<close> and \<open>_prev\<close> run over the same buckets in opposite orders; the locale
  \<open>direction\<close> holds what the two have in common, and their common recursion is \<open>sweep\<close>.
\<close>

subsection \<open>The code\<close>

text \<open>The loop \<open>for (; *pKey < nibble_count; ++*pKey)\<close>, and its opposite: the body is given the
  bucket's number and the rest of the array.\<close>

function scan_up :: "(nat \<Rightarrow> int list \<Rightarrow> 'v option \<times> int list) \<Rightarrow> int \<Rightarrow> int list \<Rightarrow> 'v option \<times> int list" where
  "scan_up body pKey rest =
     (if pKey < 16
      then (case body (nat pKey) rest of
              (Some pRet, rest') \<Rightarrow> (Some pRet, pKey # rest')
            | (None, rest') \<Rightarrow> scan_up body (pKey + 1) rest')
      else (None, pKey # rest))"
  by auto
termination by (relation "measure (\<lambda>(_, pKey, _). nat (16 - pKey))") auto

function scan_down :: "(nat \<Rightarrow> int list \<Rightarrow> 'v option \<times> int list) \<Rightarrow> int \<Rightarrow> int list \<Rightarrow> 'v option \<times> int list" where
  "scan_down body pKey rest =
     (if pKey \<ge> 0
      then (case body (nat pKey) rest of
              (Some pRet, rest') \<Rightarrow> (Some pRet, pKey # rest')
            | (None, rest') \<Rightarrow> scan_down body (pKey - 1) rest')
      else (None, pKey # rest))"
  by auto
termination by (relation "measure (\<lambda>(_, pKey, _). nat (pKey + 1))") auto

declare scan_up.simps [simp del] scan_down.simps [simp del]

text \<open>The map over one nibble: the loops look for a value.\<close>

definition leaf_begin :: "'v option list \<Rightarrow> int list \<Rightarrow> 'v option \<times> int list" where
  "leaf_begin vs key = scan_up (\<lambda>i rest. (vs ! i, rest)) 0 (tl key)"

definition leaf_back :: "'v option list \<Rightarrow> int list \<Rightarrow> 'v option \<times> int list" where
  "leaf_back vs key = scan_down (\<lambda>i rest. (vs ! i, rest)) 15 (tl key)"

definition leaf_next :: "'v option list \<Rightarrow> int list \<Rightarrow> 'v option \<times> int list" where
  "leaf_next vs key =
     (case scan_up (\<lambda>i rest. (vs ! i, rest)) (if hd key < 0 \<or> hd key \<ge> 16 then 0 else hd key) (tl key) of
        (Some pRet, key') \<Rightarrow> (Some pRet, key')
      | (None, key') \<Rightarrow> (None, -1 # tl key'))"

definition leaf_prev :: "'v option list \<Rightarrow> int list \<Rightarrow> 'v option \<times> int list" where
  "leaf_prev vs key =
     (case scan_down (\<lambda>i rest. (vs ! i, rest)) (if hd key < 0 \<or> hd key \<ge> 16 then 15 else hd key) (tl key) of
        (Some pRet, key') \<Rightarrow> (Some pRet, key')
      | (None, key') \<Rightarrow> (None, -1 # tl key'))"

text \<open>The map over several nibbles: a null bucket is passed over, a child is searched.\<close>

definition visit_child ::
  "('v hash_map \<Rightarrow> int list \<Rightarrow> 'v option \<times> int list) \<Rightarrow> 'v hash_map option list \<Rightarrow> nat \<Rightarrow> int list \<Rightarrow>
   'v option \<times> int list"
where
  "visit_child search bs i rest = (case bs ! i of None \<Rightarrow> (None, rest) | Some c \<Rightarrow> search c rest)"

primrec hm_begin :: "nat \<Rightarrow> 'v hash_map \<Rightarrow> int list \<Rightarrow> 'v option \<times> int list" where
  "hm_begin 0 m key = (None, key)"
| "hm_begin (Suc n) m key =
     (case m of
        Values vs \<Rightarrow> leaf_begin vs key
      | Buckets bs \<Rightarrow> scan_up (visit_child (hm_begin n) bs) 0 (tl key))"

primrec hm_back :: "nat \<Rightarrow> 'v hash_map \<Rightarrow> int list \<Rightarrow> 'v option \<times> int list" where
  "hm_back 0 m key = (None, key)"
| "hm_back (Suc n) m key =
     (case m of
        Values vs \<Rightarrow> leaf_back vs key
      | Buckets bs \<Rightarrow> scan_down (visit_child (hm_back n) bs) 15 (tl key))"

primrec hm_next :: "nat \<Rightarrow> 'v hash_map \<Rightarrow> int list \<Rightarrow> 'v option \<times> int list" where
  "hm_next 0 m key = (None, key)"
| "hm_next (Suc n) m key =
     (case m of
        Values vs \<Rightarrow> leaf_next vs key
      | Buckets bs \<Rightarrow>
          (case scan_up (visit_child (hm_next n) bs)
                  (if hd key < 0 \<or> hd key \<ge> 16 then 0 else hd key) (tl key) of
             (Some pRet, key') \<Rightarrow> (Some pRet, key')
           | (None, key') \<Rightarrow> (None, -1 # tl key')))"

primrec hm_prev :: "nat \<Rightarrow> 'v hash_map \<Rightarrow> int list \<Rightarrow> 'v option \<times> int list" where
  "hm_prev 0 m key = (None, key)"
| "hm_prev (Suc n) m key =
     (case m of
        Values vs \<Rightarrow> leaf_prev vs key
      | Buckets bs \<Rightarrow>
          (case scan_down (visit_child (hm_prev n) bs)
                  (if hd key < 0 \<or> hd key \<ge> 16 then 15 else hd key) (tl key) of
             (Some pRet, key') \<Rightarrow> (Some pRet, key')
           | (None, key') \<Rightarrow> (None, -1 # tl key')))"

record 'v hash_map_iterator =
  Current :: "'v option"
  Key_nibbles :: "int list"

definition it_of :: "'v option \<times> int list \<Rightarrow> 'v hash_map_iterator" where
  "it_of r = \<lparr>Current = fst r, Key_nibbles = snd r\<rparr>"

definition it_begin :: "nat \<Rightarrow> 'v hash_map \<Rightarrow> 'v hash_map_iterator" where
  "it_begin n m = it_of (hm_begin n m (replicate n (-1)))"

definition it_back :: "nat \<Rightarrow> 'v hash_map \<Rightarrow> 'v hash_map_iterator" where
  "it_back n m = it_of (hm_back n m (replicate n (-1)))"

definition bump :: "int \<Rightarrow> int list \<Rightarrow> int list" where
  "bump d key = butlast key @ [last key + d]"

definition it_increment :: "nat \<Rightarrow> 'v hash_map \<Rightarrow> 'v hash_map_iterator \<Rightarrow> 'v hash_map_iterator" where
  "it_increment n m it = it_of (hm_next n m (bump 1 (Key_nibbles it)))"

definition it_decrement :: "nat \<Rightarrow> 'v hash_map \<Rightarrow> 'v hash_map_iterator \<Rightarrow> 'v hash_map_iterator" where
  "it_decrement n m it = it_of (hm_prev n m (bump (-1) (Key_nibbles it)))"

text \<open>The client's loop \<open>for (it = begin; it != end; ++it)\<close>: the values it sees, when it ends
  within the fuel. An iterator equals \<open>end()\<close> when its pointer is null.\<close>

fun walk :: "('v hash_map_iterator \<Rightarrow> 'v hash_map_iterator) \<Rightarrow> nat \<Rightarrow> 'v hash_map_iterator \<Rightarrow> 'v list option" where
  "walk advance 0 it = None"
| "walk advance (Suc fuel) it =
     (case Current it of
        None \<Rightarrow> Some []
      | Some v \<Rightarrow> (case walk advance fuel (advance it) of None \<Rightarrow> None | Some vs \<Rightarrow> Some (v # vs)))"

subsection \<open>The common recursion\<close>

text \<open>The loop body of both kinds of map.\<close>

definition visit ::
  "('v hash_map \<Rightarrow> int list \<Rightarrow> 'v option \<times> int list) \<Rightarrow> 'v hash_map \<Rightarrow> nat \<Rightarrow> int list \<Rightarrow> 'v option \<times> int list"
where
  "visit search m i rest =
     (case m of Values vs \<Rightarrow> (vs ! i, rest) | Buckets bs \<Rightarrow> visit_child search bs i rest)"

lemma visit_simps:
  "visit search (Values vs) = (\<lambda>i rest. (vs ! i, rest))"
  "visit search (Buckets bs) = visit_child search bs"
  by (simp_all add: fun_eq_iff visit_def)

fun scan :: "(nat \<Rightarrow> int list \<Rightarrow> 'v option \<times> int list) \<Rightarrow> nat list \<Rightarrow> int list \<Rightarrow> 'v option \<times> int list" where
  "scan body [] rest = (None, rest)"
| "scan body (j # js) rest =
     (case body j rest of
        (Some v, rest') \<Rightarrow> (Some v, int j # rest')
      | (None, rest') \<Rightarrow> scan body js rest')"

lemma scan_up_scan:
  "i \<le> 16 \<Longrightarrow> scan_up body (int i) rest =
     (case scan body [i..<16] rest of (Some v, key) \<Rightarrow> (Some v, key) | (None, rest') \<Rightarrow> (None, 16 # rest'))"
proof (induction "16 - i" arbitrary: i rest)
  case 0
  then show ?case by (simp add: scan_up.simps)
next
  case (Suc k)
  have e: "[i..<16] = i # [Suc i..<16]" using Suc.hyps(2) by (simp add: upt_rec)
  have IH: "scan_up body (int i + 1) r =
      (case scan body [Suc i..<16] r of (Some v, key) \<Rightarrow> (Some v, key) | (None, rest') \<Rightarrow> (None, 16 # rest'))" for r
    using Suc.hyps(1) [of "Suc i" r] Suc.hyps(2) by (simp add: add.commute)
  have "int i < 16" using Suc.hyps(2) by simp
  then show ?case
    by (subst scan_up.simps) (simp add: e IH split: prod.split option.split)
qed

lemma scan_down_scan:
  "scan_down body (int i - 1) rest =
     (case scan body (rev [0..<i]) rest of (Some v, key) \<Rightarrow> (Some v, key) | (None, rest') \<Rightarrow> (None, -1 # rest'))"
proof (induction i arbitrary: rest)
  case 0
  then show ?case by (simp add: scan_down.simps)
next
  case (Suc i)
  show ?case
    using Suc.IH by (subst scan_down.simps) (simp split: prod.split option.split)
qed

text \<open>A direction: the order in which a loop passes over the buckets, and what the operators add
  to the last nibble. From a bumped nibble the loop starts at the bucket after it; past the last
  bucket it starts over.\<close>

definition start :: "nat list \<Rightarrow> int \<Rightarrow> nat list" where
  "start ord k = (if k < 0 \<or> k \<ge> 16 then ord else dropWhile (\<lambda>j. int j \<noteq> k) ord)"

definition bucket_entries ::
  "('v hash_map \<Rightarrow> (nat list \<times> 'v) list) \<Rightarrow> 'v hash_map \<Rightarrow> nat \<Rightarrow> (nat list \<times> 'v) list"
where
  "bucket_entries below m j =
     (case m of
        Values vs \<Rightarrow> (case vs ! j of None \<Rightarrow> [] | Some v \<Rightarrow> [([], v)])
      | Buckets bs \<Rightarrow> (case bs ! j of None \<Rightarrow> [] | Some c \<Rightarrow> below c))"

text \<open>The entries of a map, with the nibbles of their keys, in the order of the loops.\<close>

primrec entries :: "nat list \<Rightarrow> nat \<Rightarrow> 'v hash_map \<Rightarrow> (nat list \<times> 'v) list" where
  "entries ord 0 m = []"
| "entries ord (Suc n) m =
     concat (map (\<lambda>j. map (\<lambda>(p, v). (j # p, v)) (bucket_entries (entries ord n) m j)) ord)"

text \<open>The recursion shared by \<open>_next\<close> and \<open>_prev\<close>.\<close>

primrec sweep :: "nat list \<Rightarrow> nat \<Rightarrow> 'v hash_map \<Rightarrow> int list \<Rightarrow> 'v option \<times> int list" where
  "sweep ord 0 m key = (None, key)"
| "sweep ord (Suc n) m key =
     (case scan (visit (sweep ord n) m) (start ord (hd key)) (tl key) of
        (Some v, key') \<Rightarrow> (Some v, key')
      | (None, rest') \<Rightarrow> (None, -1 # rest'))"

text \<open>The recursion shared by \<open>_begin\<close> and \<open>_back\<close>, which start at the first bucket whatever the
  array holds; \<open>past\<close> is what the loop leaves in the array when it finds nothing.\<close>

primrec probe :: "nat list \<Rightarrow> int \<Rightarrow> nat \<Rightarrow> 'v hash_map \<Rightarrow> int list \<Rightarrow> 'v option \<times> int list" where
  "probe ord past 0 m key = (None, key)"
| "probe ord past (Suc n) m key =
     (case scan (visit (probe ord past n) m) ord (tl key) of
        (Some v, key') \<Rightarrow> (Some v, key')
      | (None, rest') \<Rightarrow> (None, past # rest'))"

text \<open>What a search that has the entries \<open>es\<close> before it finds.\<close>

definition first_of :: "nat \<Rightarrow> (nat list \<times> 'v) list \<Rightarrow> 'v option \<times> int list" where
  "first_of n es = (case es of [] \<Rightarrow> (None, replicate n (-1)) | (p, v) # _ \<Rightarrow> (Some v, map int p))"

lemma first_of_Cons [simp]: "first_of n ((p, v) # es) = (Some v, map int p)"
  by (simp add: first_of_def)

lemma first_of_Nil [simp]: "first_of n [] = (None, replicate n (-1))"
  by (simp add: first_of_def)

locale direction =
  fixes ord :: "nat list" and d :: int
  assumes ord_set: "set ord = {..<16}"
    and ord_distinct: "distinct ord"
    and ord_next: "ord = as @ k # bs \<Longrightarrow> start ord (int k + d) = (if bs = [] then ord else bs)"
begin

lemma ord_from: "ord = as @ k # bs \<Longrightarrow> start ord (int k) = k # bs"
proof -
  assume e: "ord = as @ k # bs"
  then have "k \<in> set ord" by simp
  then have "k < 16" by (simp add: ord_set)
  moreover have "k \<notin> set as" using ord_distinct e by auto
  then have "dropWhile (\<lambda>j. int j \<noteq> int k) (as @ k # bs) = k # bs"
    by (subst dropWhile_append2) auto
  ultimately show ?thesis by (simp add: start_def e)
qed

lemma scan_first:
  assumes "\<And>j. j \<in> set js \<Longrightarrow> body j (replicate n (-1)) = first_of n (g j)"
  shows "scan body js (replicate n (-1)) =
    (case concat (map (\<lambda>j. map (\<lambda>(p, v). (j # p, v)) (g j)) js) of
       [] \<Rightarrow> (None, replicate n (-1)) | (p, v) # _ \<Rightarrow> (Some v, map int p))"
  using assms
proof (induction js)
  case (Cons j js)
  then show ?case by (cases "g j") (auto split: list.split prod.split)
qed simp

lemma visit_first:
  assumes "shaped (Suc n) m" and "j < 16"
    and "\<And>c. shaped n c \<Longrightarrow> 0 < n \<Longrightarrow> search c (replicate n (-1)) = first_of n (below c)"
  shows "visit search m j (replicate n (-1)) = first_of n (bucket_entries below m j)"
  using assms by (cases m) (auto simp: visit_def visit_child_def bucket_entries_def nibble_count_def split: option.split)

lemma sweep_first: "shaped n m \<Longrightarrow> sweep ord n m (replicate n (-1)) = first_of n (entries ord n m)"
proof (induction n arbitrary: m)
  case (Suc n)
  have b: "visit (sweep ord n) m j (replicate n (-1)) = first_of n (bucket_entries (entries ord n) m j)"
    if "j \<in> set ord" for j
    using that Suc by (intro visit_first) (auto simp: ord_set)
  have "scan (visit (sweep ord n) m) ord (replicate n (-1)) =
      (case entries ord (Suc n) m of
         [] \<Rightarrow> (None, replicate n (-1)) | (p, v) # _ \<Rightarrow> (Some v, map int p))"
    using scan_first [of ord "visit (sweep ord n) m" n "bucket_entries (entries ord n) m", OF b] by simp
  then show ?case
    by (cases "entries ord (Suc n) m") (auto simp: start_def simp del: entries.simps)
qed simp

text \<open>Advancing from the position of an entry.\<close>

lemma concat_map_split:
  assumes "concat (map f js) = xs @ e # ys"
  obtains as k bs xs' ys' where "js = as @ k # bs" and "f k = xs' @ e # ys'"
    and "xs = concat (map f as) @ xs'" and "ys = ys' @ concat (map f bs)"
  using assms
proof (induction js arbitrary: xs thesis)
  case (Cons j js)
  from Cons.prems(2) have "f j @ concat (map f js) = xs @ e # ys" by simp
  then consider (here) zs where "f j = xs @ e # zs" "ys = zs @ concat (map f js)"
    | (later) zs where "xs = f j @ zs" "concat (map f js) = zs @ e # ys"
    by (fastforce simp: append_eq_append_conv2 append_eq_Cons_conv)
  then show ?case
  proof cases
    case here
    then show ?thesis using Cons.prems(1) [of "[]" j js xs zs] by simp
  next
    case later
    from Cons.IH [OF _ later(2)] obtain as k bs xs' ys' where
      "js = as @ k # bs" "f k = xs' @ e # ys'" "zs = concat (map f as) @ xs'"
      "ys = ys' @ concat (map f bs)" by metis
    then show ?thesis using later Cons.prems(1) [of "j # as" k bs xs' ys'] by simp
  qed
qed simp

lemma bucket_entries_cases:
  assumes "shaped (Suc n) m" and "j < 16" and "(p, v) \<in> set (bucket_entries (entries ord n) m j)"
  obtains vs where "m = Values vs" "n = 0" "p = []" "vs ! j = Some v"
  | bs c where "m = Buckets bs" "bs ! j = Some c" "shaped n c" "(p, v) \<in> set (entries ord n c)"
proof (cases m)
  case (Buckets bs)
  then obtain c where c: "bs ! j = Some c" "(p, v) \<in> set (entries ord n c)"
    using assms(3) by (cases "bs ! j") (auto simp: bucket_entries_def)
  moreover have "shaped n c" using assms(1,2) c(1) by (simp add: Buckets nibble_count_def)
  ultimately show ?thesis using Buckets that(2) by blast
next
  case (Values vs)
  then show ?thesis
    using assms that(1) by (cases "vs ! j") (auto simp: bucket_entries_def)
qed

lemma entries_SucE:
  assumes "(p, v) \<in> set (entries ord (Suc n) m)"
  obtains j q where "p = j # q" "j < 16" "(q, v) \<in> set (bucket_entries (entries ord n) m j)"
  using assms by (auto simp: ord_set)

lemma entries_path: "shaped n m \<Longrightarrow> (p, v) \<in> set (entries ord n m) \<Longrightarrow> length p = n \<and> set p \<subseteq> {..<16}"
proof (induction n arbitrary: m p)
  case (Suc n)
  obtain j q where p: "p = j # q" "j < 16" "(q, v) \<in> set (bucket_entries (entries ord n) m j)"
    using Suc.prems(2) by (rule entries_SucE)
  from Suc.prems(1) p(2,3) show ?case
    by (rule bucket_entries_cases) (use p Suc.IH in auto)
qed simp

lemma bump_Cons: "p \<noteq> [] \<Longrightarrow> bump b (k # p) = k # bump b p"
  by (simp add: bump_def)

lemma sweep_advance:
  assumes "shaped n m" and "entries ord n m = xs @ (p, v) # ys"
  shows "if last p = last ord
    then \<exists>q w. sweep ord n m (bump d (map int p)) = (Some w, map int q) \<and> (q, w) \<in> set (xs @ [(p, v)])
    else sweep ord n m (bump d (map int p)) = first_of n ys"
  using assms
proof (induction n arbitrary: m p xs ys)
  case (Suc n)
  define g where "g = bucket_entries (entries ord n) m"
  define slot where "slot j = map (\<lambda>(p, v). (j # p, v)) (g j)" for j
  have b: "visit (sweep ord n) m j (replicate n (-1)) = first_of n (g j)" if "j \<in> set ord" for j
    using that Suc.prems(1) unfolding g_def by (intro visit_first sweep_first) (auto simp: ord_set)
  have first: "scan (visit (sweep ord n) m) js (replicate n (-1)) =
      (case concat (map slot js) of
         [] \<Rightarrow> (None, replicate n (-1)) | (p, v) # _ \<Rightarrow> (Some v, map int p))" if "set js \<subseteq> set ord" for js
    unfolding slot_def using that by (intro scan_first b) auto
  have "concat (map slot ord) = xs @ (p, v) # ys"
    using Suc.prems(2) by (simp add: slot_def [abs_def] g_def)
  then obtain as k bs xs' ys' where o: "ord = as @ k # bs" and k: "slot k = xs' @ (p, v) # ys'"
    and xs: "xs = concat (map slot as) @ xs'" and ys: "ys = ys' @ concat (map slot bs)"
    by (rule concat_map_split)
  have k16: "k < 16" "set (k # bs) \<subseteq> set ord" using ord_set o by auto
  show ?case
  proof (cases m)
    case (Values vs)
    with Suc.prems(1) have n: "n = 0" by simp
    have "slot k = (case vs ! k of None \<Rightarrow> [] | Some v \<Rightarrow> [([k], v)])"
      by (simp add: slot_def g_def bucket_entries_def Values split: option.split)
    then have p: "p = [k]" "xs' = []" "ys' = []"
      using k by (auto split: option.splits simp: append_eq_Cons_conv Cons_eq_append_conv)
    have s: "sweep ord (Suc n) m (bump d (map int p)) =
        (case scan (visit (sweep ord n) m) (if bs = [] then ord else bs) [] of
           (Some v, key') \<Rightarrow> (Some v, key') | (None, rest') \<Rightarrow> (None, -1 # rest'))"
      by (simp add: p bump_def ord_next [OF o])
    show ?thesis
    proof (cases "bs = []")
      case True
      have ne: "concat (map slot ord) = xs @ [(p, v)]" using o k xs p True by simp
      then obtain q w es where q: "concat (map slot ord) = (q, w) # es"
        using ne by (cases "xs @ [(p, v)]") auto
      have "(q, w) \<in> set (xs @ [(p, v)])" using q ne by (metis list.set_intros(1))
      moreover have "sweep ord (Suc n) m (bump d (map int p)) = (Some w, map int q)"
        unfolding s using True first [of ord] q by (simp add: n)
      moreover have "last p = last ord" using True o p(1) by simp
      ultimately show ?thesis by auto
    next
      case False
      then have "last p \<noteq> last ord" using o ord_distinct p(1) by auto
      moreover have "sweep ord (Suc n) m (bump d (map int p)) = first_of (Suc n) ys"
        unfolding s using False first [of bs] k16 ys p
        by (cases "concat (map slot bs)") (auto simp: n first_of_def)
      ultimately show ?thesis by simp
    qed
  next
    case (Buckets bk)
    then have n: "0 < n" using Suc.prems(1) by simp
    obtain c where c: "bk ! k = Some c"
      using k by (cases "bk ! k") (auto simp: slot_def g_def bucket_entries_def Buckets)
    have sc: "shaped n c" using Suc.prems(1) c k16 by (simp add: Buckets nibble_count_def)
    have "g k = entries ord n c" by (simp add: g_def bucket_entries_def Buckets c)
    then obtain p' xs'' ys'' where e: "entries ord n c = xs'' @ (p', v) # ys''"
      and p: "p = k # p'" "xs' = map (\<lambda>(p, v). (k # p, v)) xs''" "ys' = map (\<lambda>(p, v). (k # p, v)) ys''"
      using k unfolding slot_def by (auto simp: map_eq_append_conv Cons_eq_map_conv)
    have p': "p' \<noteq> []" using entries_path [OF sc, of p' v] e n by auto
    have s: "sweep ord (Suc n) m (bump d (map int p)) =
        (case scan (visit (sweep ord n) m) (k # bs) (bump d (map int p')) of
           (Some v, key') \<Rightarrow> (Some v, key') | (None, rest') \<Rightarrow> (None, -1 # rest'))"
      using p' by (simp add: p bump_Cons ord_from [OF o])
    have v: "visit (sweep ord n) m k rest = sweep ord n c rest" for rest
      by (simp add: visit_def visit_child_def Buckets c)
    have last: "last p = last p'" using p p' by simp
    show ?thesis
    proof (cases "last p' = last ord")
      case True
      then obtain q w where q: "sweep ord n c (bump d (map int p')) = (Some w, map int q)"
        "(q, w) \<in> set (xs'' @ [(p', v)])" using Suc.IH [OF sc e] by auto
      have "(k # q, w) \<in> set (xs @ [(p, v)])" using q(2) by (auto simp: xs p)
      then show ?thesis unfolding s last using True q(1)
        by (auto simp: v intro!: exI [of _ "k # q"])
    next
      case False
      then have "sweep ord n c (bump d (map int p')) = first_of n ys''"
        using Suc.IH [OF sc e] by simp
      moreover obtain later where later: "concat (map slot bs) = later" by blast
      ultimately show ?thesis
        unfolding s last using False first [of bs, unfolded later] k16
        by (cases ys''; cases later) (auto simp: v ys [unfolded later] p)
    qed
  qed
qed simp

subsection \<open>Walking\<close>

text \<open>The iterator of the loops at the first of the entries \<open>es\<close>.\<close>

definition at_first :: "nat \<Rightarrow> (nat list \<times> 'v) list \<Rightarrow> 'v hash_map_iterator" where
  "at_first n es = it_of (first_of n es)"

definition step_it :: "nat \<Rightarrow> 'v hash_map \<Rightarrow> 'v hash_map_iterator \<Rightarrow> 'v hash_map_iterator" where
  "step_it n m it = it_of (sweep ord n m (bump d (Key_nibbles it)))"

lemma walk_ends:
  assumes "shaped n m" and "entries ord n m = xs @ ys"
    and "\<And>p v. (p, v) \<in> set (entries ord n m) \<Longrightarrow> last p \<noteq> last ord"
  shows "walk (step_it n m) (Suc (length ys)) (at_first n ys) = Some (map snd ys)"
  using assms(2)
proof (induction ys arbitrary: xs)
  case Nil
  then show ?case by (simp add: at_first_def it_of_def)
next
  case (Cons e ys)
  obtain p v where e: "e = (p, v)" by force
  have E: "entries ord n m = xs @ (p, v) # ys" using Cons.prems e by simp
  then have "step_it n m (at_first n (e # ys)) = at_first n ys"
    using sweep_advance [OF assms(1) E] assms(3) [of p v]
    by (simp add: step_it_def at_first_def it_of_def e)
  moreover have "walk (step_it n m) (Suc (length ys)) (at_first n ys) = Some (map snd ys)"
    using Cons.IH [of "xs @ [e]"] Cons.prems by simp
  ultimately show ?case
    by (subst walk.simps) (simp add: at_first_def it_of_def e)
qed

lemma walk_stuck:
  assumes "shaped n m" and "entries ord n m = xs @ (pb, vb) # ys" and "last pb = last ord"
    and "\<And>p v. (p, v) \<in> set xs \<Longrightarrow> last p \<noteq> last ord"
    and "(p, v) \<in> set (xs @ [(pb, vb)])"
  shows "walk (step_it n m) fuel \<lparr>Current = Some v, Key_nibbles = map int p\<rparr> = None"
  using assms(5)
proof (induction fuel arbitrary: p v)
  case (Suc fuel)
  have "\<exists>q w. sweep ord n m (bump d (map int p)) = (Some w, map int q) \<and> (q, w) \<in> set (xs @ [(pb, vb)])"
  proof (cases "(p, v) \<in> set xs")
    case True
    then obtain as bs where xs: "xs = as @ (p, v) # bs" by (meson split_list)
    have E: "entries ord n m = as @ (p, v) # (bs @ (pb, vb) # ys)" using assms(2) xs by simp
    have "sweep ord n m (bump d (map int p)) = first_of n (bs @ (pb, vb) # ys)"
      using sweep_advance [OF assms(1) E] assms(4) [OF True] by simp
    then show ?thesis by (cases bs) (auto simp: xs)
  next
    case False
    then have "(p, v) = (pb, vb)" using Suc.prems by simp
    then show ?thesis using sweep_advance [OF assms(1,2)] assms(3) by simp
  qed
  then show ?case using Suc.IH by (auto simp: step_it_def it_of_def)
qed simp

lemma walk_more_fuel: "walk adv f it = Some vs \<Longrightarrow> f \<le> f' \<Longrightarrow> walk adv f' it = Some vs"
proof (induction f arbitrary: f' it vs)
  case (Suc f)
  then obtain f'' where f': "f' = Suc f''" "f \<le> f''" by (cases f') auto
  show ?case
    using Suc.prems(1) Suc.IH [OF _ f'(2)] by (auto simp: f' split: option.splits)
qed simp

lemma first_bad:
  assumes "(p, v) \<in> set es" and "last p = last ord"
  obtains xs pb vb ys where "es = xs @ (pb, vb) # ys" and "last pb = last ord"
    and "\<And>p v. (p, v) \<in> set xs \<Longrightarrow> last p \<noteq> last ord"
proof -
  have "\<exists>e \<in> set es. last (fst e) = last ord" using assms by force
  from split_list_first_prop [OF this]
  obtain xs e ys where e: "es = xs @ e # ys" "last (fst e) = last ord"
    "\<forall>e \<in> set xs. last (fst e) \<noteq> last ord" by blast
  show ?thesis
  proof (rule that)
    show "es = xs @ (fst e, snd e) # ys" using e(1) by simp
    show "last (fst e) = last ord" by (rule e(2))
    show "last p \<noteq> last ord" if "(p, v) \<in> set xs" for p v using e(3) that by force
  qed
qed

lemma walk_iff:
  assumes "shaped n m"
  shows "(\<exists>fuel. walk (step_it n m) fuel (at_first n (entries ord n m)) \<noteq> None) \<longleftrightarrow>
      (\<forall>(p, v) \<in> set (entries ord n m). last p \<noteq> last ord)"
    and "walk (step_it n m) fuel (at_first n (entries ord n m)) = Some vs \<Longrightarrow>
      vs = map snd (entries ord n m)"
proof -
  let ?w = "\<lambda>fuel. walk (step_it n m) fuel (at_first n (entries ord n m))"
  have good: "?w (Suc (length (entries ord n m))) = Some (map snd (entries ord n m))"
    if "\<forall>(p, v) \<in> set (entries ord n m). last p \<noteq> last ord"
    by (rule walk_ends [OF assms, of "[]"]) (use that in auto)
  have bad: "?w fuel = None" if "\<not> (\<forall>(p, v) \<in> set (entries ord n m). last p \<noteq> last ord)" for fuel
  proof -
    from that obtain p v where "(p, v) \<in> set (entries ord n m)" "last p = last ord" by blast
    then obtain xs pb vb ys where f: "entries ord n m = xs @ (pb, vb) # ys" "last pb = last ord"
      "\<And>p v. (p, v) \<in> set xs \<Longrightarrow> last p \<noteq> last ord" by (rule first_bad) blast
    show ?thesis
    proof (cases xs)
      case Nil
      have "walk (step_it n m) fuel \<lparr>Current = Some vb, Key_nibbles = map int pb\<rparr> = None"
        by (rule walk_stuck [OF assms f(1,2)]) (use f(3) in auto)
      then show ?thesis using f(1) Nil by (simp add: at_first_def it_of_def)
    next
      case (Cons e xs')
      have "walk (step_it n m) fuel \<lparr>Current = Some (snd e), Key_nibbles = map int (fst e)\<rparr> = None"
        by (rule walk_stuck [OF assms f(1,2)]) (use f(3) Cons in auto)
      then show ?thesis using f(1) Cons by (cases e) (simp add: at_first_def it_of_def)
    qed
  qed
  show "(\<exists>fuel. ?w fuel \<noteq> None) \<longleftrightarrow> (\<forall>(p, v) \<in> set (entries ord n m). last p \<noteq> last ord)"
    using good bad by (metis option.distinct(1))
  assume r: "?w fuel = Some vs"
  with bad have "\<forall>(p, v) \<in> set (entries ord n m). last p \<noteq> last ord" by (metis option.distinct(1))
  with good have g: "?w (Suc (length (entries ord n m))) = Some (map snd (entries ord n m))" by blast
  show "vs = map snd (entries ord n m)"
    using walk_more_fuel [OF r, of "Suc (length (entries ord n m))"]
      walk_more_fuel [OF g, of fuel] r g by (cases "fuel \<le> Suc (length (entries ord n m))") auto
qed

end

text \<open>What the entries are: the keys of the map with their values, each once.\<close>

context direction
begin

lemma entries_lookup:
  "shaped n m \<Longrightarrow> (nibbles n k, v) \<in> set (entries ord n m) \<longleftrightarrow> hm_lookup n m k = Some v"
proof (induction n arbitrary: m k)
  case (Suc n)
  have "Index k \<in> set ord" using Index_less [of k] by (simp add: ord_set nibble_count_def)
  then have e: "(nibbles (Suc n) k, v) \<in> set (entries ord (Suc n) m) \<longleftrightarrow>
      (nibbles n (drop_bit 4 k), v) \<in> set (bucket_entries (entries ord n) m (Index k))"
    by force
  show ?case
  proof (cases m)
    case (Values vs)
    then show ?thesis unfolding e using Suc.prems
      by (auto simp: bucket_entries_def split: option.split)
  next
    case (Buckets bs)
    show ?thesis
    proof (cases "bs ! Index k")
      case (Some c)
      then have "shaped n c" using Suc.prems child_shaped [of n bs k] by (simp add: Buckets)
      from Suc.IH [OF this] show ?thesis unfolding e by (simp add: bucket_entries_def Buckets Some)
    qed (simp only: e, simp add: bucket_entries_def Buckets)
  qed
qed simp

lemma entries_distinct: "shaped n m \<Longrightarrow> distinct (map fst (entries ord n m))"
proof (induction n arbitrary: m)
  case (Suc n)
  define g where "g j = map fst (map (\<lambda>(p, v). (j # p, v)) (bucket_entries (entries ord n) m j))" for j
  have g: "g j = map ((#) j) (map fst (bucket_entries (entries ord n) m j))" for j
    by (auto simp: g_def)
  have b: "distinct (map fst (bucket_entries (entries ord n) m j))" if "j < 16" for j
    using Suc.prems Suc.IH that
    by (cases m) (auto simp: bucket_entries_def nibble_count_def split: option.split)
  have d: "distinct (g j)" if "j < 16" for j
    unfolding g by (subst distinct_map) (simp add: b [OF that] inj_on_def)
  have "distinct (concat (map g js))" if "distinct js" "set js \<subseteq> {..<16}" for js
    using that by (induction js) (auto simp: d, auto simp: g)
  from this [OF ord_distinct] show ?case
    by (simp add: map_concat g_def [abs_def] ord_set comp_def)
qed simp

text \<open>A search from the first bucket finds the first entry.\<close>

definition finds :: "'v option \<times> int list \<Rightarrow> nat \<Rightarrow> (nat list \<times> 'v) list \<Rightarrow> bool" where
  "finds r n es \<longleftrightarrow> (case es of
      [] \<Rightarrow> fst r = None \<and> length (snd r) = n | (p, v) # _ \<Rightarrow> r = (Some v, map int p))"

lemma finds_simps [simp]:
  "finds r n [] \<longleftrightarrow> fst r = None \<and> length (snd r) = n"
  "finds r n ((p, v) # es) \<longleftrightarrow> r = (Some v, map int p)"
  by (simp_all add: finds_def)

lemma scan_finds:
  assumes "\<And>j rest. j \<in> set js \<Longrightarrow> length rest = n \<Longrightarrow> finds (body j rest) n (g j)"
    and "length rest = n"
  shows "finds (scan body js rest) n (concat (map (\<lambda>j. map (\<lambda>(p, v). (j # p, v)) (g j)) js))"
  using assms
proof (induction js arbitrary: rest)
  case (Cons j js)
  have f: "finds (body j rest) n (g j)" using Cons.prems by simp
  show ?case
  proof (cases "g j")
    case Nil
    then obtain rest' where r: "body j rest = (None, rest')" "length rest' = n"
      using f by (cases "body j rest") auto
    have "finds (scan body js rest') n (concat (map (\<lambda>j. map (\<lambda>(p, v). (j # p, v)) (g j)) js))"
      using Cons r(2) by simp
    then show ?thesis by (simp add: r(1) Nil)
  next
    case (Cons e es)
    then show ?thesis using f by (cases e) simp
  qed
qed simp

lemma probe_finds:
  "shaped n m \<Longrightarrow> length key = n \<Longrightarrow> finds (probe ord past n m key) n (entries ord n m)"
proof (induction n arbitrary: m key)
  case (Suc n)
  have b: "finds (visit (probe ord past n) m j rest) n (bucket_entries (entries ord n) m j)"
    if "j \<in> set ord" "length rest = n" for j rest
    using that Suc by (cases m) (auto simp: visit_def visit_child_def bucket_entries_def nibble_count_def ord_set
      split: option.split)
  have f: "finds (scan (visit (probe ord past n) m) ord (tl key)) n (entries ord (Suc n) m)"
    using scan_finds [of ord n "visit (probe ord past n) m" "bucket_entries (entries ord n) m" "tl key", OF b]
      Suc.prems(2) by simp
  show ?case
  proof (cases "entries ord (Suc n) m")
    case Nil
    with f show ?thesis
      by (cases "scan (visit (probe ord past n) m) ord (tl key)") (simp del: entries.simps)
  next
    case (Cons e es)
    with f show ?thesis by (cases e) (simp del: entries.simps)
  qed
qed simp

lemma walk_probe:
  assumes "shaped n m"
  shows "walk adv fuel (it_of (probe ord past n m (replicate n (-1)))) =
    walk adv fuel (at_first n (entries ord n m))"
  using probe_finds [OF assms, of "replicate n (-1)" past]
  by (cases fuel; cases "entries ord n m") (auto simp: finds_def at_first_def it_of_def)

end

subsection \<open>The two directions\<close>

interpretation forward: direction "[0..<16]" 1
proof
  show "set [0..<16] = {..<16::nat}" by auto
  fix as k bs assume e: "[0..<16] = as @ k # (bs :: nat list)"
  have "list_all (\<lambda>i. start [0..<16] (int ([0..<16] ! i) + 1) =
      (if drop (Suc i) [0..<16] = [] then [0..<16] else drop (Suc i) [0..<16])) [0..<16]"
    by code_simp
  moreover have "length as < 16" using arg_cong [OF e, of length] by simp
  ultimately have "start [0..<16] (int ([0..<16] ! length as) + 1) =
      (if drop (Suc (length as)) [0..<16] = [] then [0..<16] else drop (Suc (length as)) [0..<16])"
    by (simp add: list_all_iff del: upt_Suc)
  then show "start [0..<16] (int k + 1) = (if bs = [] then [0..<16] else bs)"
    unfolding e by simp
qed simp

interpretation backward: direction "rev [0..<16]" "-1"
proof
  show "set (rev [0..<16]) = {..<16::nat}" by auto
  fix as k bs assume e: "rev [0..<16] = as @ k # (bs :: nat list)"
  have "list_all (\<lambda>i. start (rev [0..<16]) (int (rev [0..<16] ! i) + - 1) =
      (if drop (Suc i) (rev [0..<16]) = [] then rev [0..<16] else drop (Suc i) (rev [0..<16]))) [0..<16]"
    by code_simp
  moreover have "length as < 16" using arg_cong [OF e, of length] by simp
  ultimately have "start (rev [0..<16]) (int (rev [0..<16] ! length as) + - 1) =
      (if drop (Suc (length as)) (rev [0..<16]) = [] then rev [0..<16]
       else drop (Suc (length as)) (rev [0..<16]))"
    by (simp add: list_all_iff del: upt_Suc)
  then show "start (rev [0..<16]) (int k + - 1) = (if bs = [] then rev [0..<16] else bs)"
    unfolding e by simp
qed simp

lemma start_up: "0 \<le> k \<Longrightarrow> k < 16 \<Longrightarrow> start [0..<16] k = [nat k..<16]"
proof -
  assume k: "0 \<le> k" "k < 16"
  then have "[0..<16] = [0..<nat k] @ nat k # [Suc (nat k)..<16]"
    using upt_add_eq_append [of 0 "nat k" "16 - nat k"] upt_conv_Cons [of "nat k" 16] by simp
  from forward.ord_from [OF this] show ?thesis
    using k upt_conv_Cons [of "nat k" 16] by simp
qed

lemma start_down: "0 \<le> k \<Longrightarrow> k < 16 \<Longrightarrow> start (rev [0..<16]) k = rev [0..<Suc (nat k)]"
proof -
  assume k: "0 \<le> k" "k < 16"
  then have "[0..<16] = [0..<nat k] @ nat k # [Suc (nat k)..<16]"
    using upt_add_eq_append [of 0 "nat k" "16 - nat k"] upt_conv_Cons [of "nat k" 16] by simp
  then have "rev [0..<16] = rev [Suc (nat k)..<16] @ nat k # rev [0..<nat k]" by simp
  from backward.ord_from [OF this] show ?thesis using k by simp
qed

lemma hm_next_sweep: "hm_next n = sweep [0..<16] n"
proof (induction n)
  case (Suc n)
  have u: "scan_up body (if k < 0 \<or> k \<ge> 16 then 0 else k) rest =
      (case scan body (start [0..<16] k) rest of
         (Some v, key) \<Rightarrow> (Some v, key) | (None, rest') \<Rightarrow> (None, 16 # rest'))"
    for body :: "nat \<Rightarrow> int list \<Rightarrow> 'a option \<times> int list" and k rest
    using scan_up_scan [of "nat k" body rest] scan_up_scan [of 0 body rest] start_up [of k]
    by (auto simp: start_def [of _ k] simp del: upt_Suc)
  show ?case
  proof (intro ext)
    fix m :: "'a hash_map" and key
    show "hm_next (Suc n) m key = sweep [0..<16] (Suc n) m key"
      by (cases m) (simp_all add: Suc.IH leaf_next_def leaf_prev_def visit_simps u split del: if_split
          split: prod.split option.split del: upt_Suc)
  qed
qed (simp add: fun_eq_iff)

lemma hm_prev_sweep: "hm_prev n = sweep (rev [0..<16]) n"
proof (induction n)
  case (Suc n)
  have u: "scan_down body (if k < 0 \<or> k \<ge> 16 then 15 else k) rest =
      (case scan body (start (rev [0..<16]) k) rest of
         (Some v, key) \<Rightarrow> (Some v, key) | (None, rest') \<Rightarrow> (None, -1 # rest'))"
    for body :: "nat \<Rightarrow> int list \<Rightarrow> 'a option \<times> int list" and k rest
    using scan_down_scan [of body "Suc (nat k)" rest] scan_down_scan [of body 16 rest] start_down [of k]
    by (auto simp: start_def [of _ k] simp del: upt_Suc)
  show ?case
  proof (intro ext)
    fix m :: "'a hash_map" and key
    show "hm_prev (Suc n) m key = sweep (rev [0..<16]) (Suc n) m key"
      by (cases m) (simp_all add: Suc.IH leaf_next_def leaf_prev_def visit_simps u split del: if_split
          split: prod.split option.split del: upt_Suc)
  qed
qed (simp add: fun_eq_iff)

lemma hm_begin_probe: "hm_begin n = probe [0..<16] 16 n"
proof (induction n)
  case (Suc n)
  show ?case
    using scan_up_scan [of 0, where 'a = 'a]
    by (intro ext) (simp add: Suc.IH leaf_begin_def leaf_back_def visit_simps
        split: prod.split option.split hash_map.split del: upt_Suc)
qed (simp add: fun_eq_iff)

lemma hm_back_probe: "hm_back n = probe (rev [0..<16]) (-1) n"
proof (induction n)
  case (Suc n)
  show ?case
    using scan_down_scan [of _ 16, where 'a = 'a]
    by (intro ext) (simp add: Suc.IH leaf_begin_def leaf_back_def visit_simps
        split: prod.split option.split hash_map.split del: upt_Suc)
qed (simp add: fun_eq_iff)

lemma it_increment_step: "it_increment n m = forward.step_it n m"
  by (simp add: fun_eq_iff it_increment_def forward.step_it_def hm_next_sweep)

lemma it_decrement_step: "it_decrement n m = backward.step_it n m"
  by (simp add: fun_eq_iff it_decrement_def backward.step_it_def hm_prev_sweep)

subsection \<open>Keys and paths\<close>

lemma nibbles_path: "length (nibbles n k) = n \<and> set (nibbles n k) \<subseteq> {..<16}"
  using Index_less by (induction n arbitrary: k) (auto simp: nibble_count_def)

lemma nibbles_last: "last (nibbles (Suc n) k) = Index (drop_bit (4 * n) k)"
proof (induction n arbitrary: k)
  case (Suc n)
  have "last (nibbles (Suc (Suc n)) k) = last (nibbles (Suc n) (drop_bit 4 k))" by simp
  also have "\<dots> = Index (drop_bit (4 * Suc n) k)" by (simp only: Suc.IH) (simp add: add.commute)
  finally show ?case .
qed simp

lemma path_key:
  assumes "LENGTH('k::len) = 4 * n" and "length p = n" and "set p \<subseteq> {..<16}"
  obtains k :: "'k::len word" where "nibbles n k = p"
proof -
  let ?P = "{p. set p \<subseteq> {..<16::nat} \<and> length p = n}"
  have fin: "finite ?P" by (simp add: finite_lists_length_eq)
  have inj: "inj (nibbles n :: 'k::len word \<Rightarrow> nat list)"
    by (simp add: inj_on_def nibbles_inject [OF assms(1)])
  have "card (range (nibbles n :: 'k::len word \<Rightarrow> nat list)) = 16 ^ n"
    unfolding card_image [OF inj] by (simp add: card_word assms(1) power_mult)
  also have "\<dots> = card ?P" by (simp add: card_lists_length_eq)
  finally have "range (nibbles n :: 'k::len word \<Rightarrow> nat list) = ?P"
    using nibbles_path by (intro card_subset_eq [OF fin]) auto
  then have "p \<in> range (nibbles n :: 'k word \<Rightarrow> nat list)" using assms(2,3) by simp
  then show thesis using that by (metis imageE)
qed

context direction
begin

lemma entry_key:
  assumes "LENGTH('k::len) = 4 * n" and "shaped n m" and "(p, v) \<in> set (entries ord n m)"
  obtains k :: "'k::len word" where "nibbles n k = p" and "hm_lookup n m k = Some v"
proof -
  obtain k :: "'k::len word" where "nibbles n k = p"
    using path_key [OF assms(1)] entries_path [OF assms(2,3)] by blast
  then show thesis using that entries_lookup [OF assms(2), of k v] assms(3) by simp
qed

lemma last_nibbles:
  assumes "LENGTH('k::len) = 4 * n"
  shows "last (nibbles n (k :: 'k::len word)) = Index (drop_bit (LENGTH('k) - 4) k)"
proof -
  obtain n' where "n = Suc n'" using assms len_gt_0 [where ?'a = 'k] by (cases n) auto
  then show ?thesis using assms by (simp add: nibbles_last del: nibbles.simps)
qed

lemma last_entries:
  assumes "LENGTH('k::len) = 4 * n" and "shaped n m"
  shows "(\<forall>(p, v) \<in> set (entries ord n m). last p \<noteq> last ord) \<longleftrightarrow>
    (\<forall>k :: 'k::len word. hm_lookup n m k \<noteq> None \<longrightarrow> Index (drop_bit (LENGTH('k) - 4) k) \<noteq> last ord)"
proof (intro iffI allI impI)
  fix k :: "'k::len word"
  assume a: "\<forall>(p, v) \<in> set (entries ord n m). last p \<noteq> last ord" and "hm_lookup n m k \<noteq> None"
  then obtain v where "(nibbles n k, v) \<in> set (entries ord n m)"
    using entries_lookup [OF assms(2), of k] by auto
  with a show "Index (drop_bit (LENGTH('k) - 4) k) \<noteq> last ord"
    unfolding last_nibbles [OF assms(1), symmetric] by auto
next
  assume a: "\<forall>k :: 'k::len word. hm_lookup n m k \<noteq> None \<longrightarrow> Index (drop_bit (LENGTH('k) - 4) k) \<noteq> last ord"
  show "\<forall>(p, v) \<in> set (entries ord n m). last p \<noteq> last ord"
  proof clarify
    fix p v assume "(p, v) \<in> set (entries ord n m)" "last p = last ord"
    then obtain k :: "'k::len word" where "nibbles n k = p" "hm_lookup n m k = Some v"
      using entry_key [OF assms] by metis
    then show False using a \<open>last p = last ord\<close> last_nibbles [OF assms(1), of k] by auto
  qed
qed

lemma entries_values:
  assumes "LENGTH('k::len) = 4 * n" and "shaped n m"
  shows "\<exists>ks :: 'k::len word list. distinct ks \<and> set ks = dom (hm_lookup n m) \<and>
    map snd (entries ord n m) = map (\<lambda>k. the (hm_lookup n m k)) ks"
proof -
  define key where "key p = (inv (nibbles n) p :: 'k::len word)" for p
  have inj: "inj (nibbles n :: 'k::len word \<Rightarrow> nat list)"
    by (simp add: inj_on_def nibbles_inject [OF assms(1)])
  have k: "nibbles n (key p) = p \<and> hm_lookup n m (key p) = Some v"
    if e: "(p, v) \<in> set (entries ord n m)" for p v
    using entry_key [OF assms e] unfolding key_def by (metis inv_f_f [OF inj])
  let ?ks = "map (key \<circ> fst) (entries ord n m)"
  have "map (nibbles n) ?ks = map fst (entries ord n m)" using k by fastforce
  then have "distinct ?ks" using entries_distinct [OF assms(2)] by (metis distinct_map)
  moreover have "set ?ks = dom (hm_lookup n m)"
  proof (intro set_eqI iffI)
    fix x :: "'k word" assume "x \<in> dom (hm_lookup n m)"
    then obtain v where v: "(nibbles n x, v) \<in> set (entries ord n m)"
      using entries_lookup [OF assms(2), of x] by auto
    moreover have "key (nibbles n x) = x" unfolding key_def by (rule inv_f_f [OF inj])
    ultimately show "x \<in> set ?ks" by force
  qed (use k in auto)
  moreover have "map snd (entries ord n m) = map (\<lambda>k. the (hm_lookup n m k)) ?ks" using k by fastforce
  ultimately show ?thesis by blast
qed

lemma walk_summary:
  fixes m :: "'v hash_map"
  assumes "LENGTH('k::len) = 4 * n" and "shaped n m"
  shows "((\<exists>fuel vs. walk (step_it n m) fuel (it_of (probe ord past n m (replicate n (-1)))) = Some vs) \<longleftrightarrow>
      (\<forall>k :: 'k::len word. hm_lookup n m k \<noteq> None \<longrightarrow> Index (drop_bit (LENGTH('k) - 4) k) \<noteq> last ord)) \<and>
    (\<forall>fuel vs. walk (step_it n m) fuel (it_of (probe ord past n m (replicate n (-1)))) = Some vs \<longrightarrow>
      (\<exists>ks :: 'k::len word list. distinct ks \<and> set ks = dom (hm_lookup n m) \<and>
        vs = map (\<lambda>k. the (hm_lookup n m k)) ks))"
  unfolding walk_probe [OF assms(2)] last_entries [OF assms, symmetric]
  using walk_iff [OF assms(2)] entries_values [OF assms] by (metis not_None_eq)

end

subsection \<open>Properties\<close>

text \<open>C16: Iterating forwards. The loop from \<open>begin()\<close> by \<open>++\<close> ends exactly when no key in the map
  has 15 as its highest nibble, and then visits the value of every key once. With such a key (a
  negative one, when keys are signed) the last nibble is bumped to 16, which \<open>_next\<close> resets to 0
  without going on to the next bucket, and the loop never ends.\<close>

theorem hash_map_iteration_ends:
  fixes m :: "'v hash_map"
  assumes "LENGTH('k::len) = 4 * n" and "shaped n m"
  shows "((\<exists>fuel vs. walk (it_increment n m) fuel (it_begin n m) = Some vs) \<longleftrightarrow>
      (\<forall>k :: 'k::len word. hm_lookup n m k \<noteq> None \<longrightarrow> Index (drop_bit (LENGTH('k) - 4) k) \<noteq> 15)) \<and>
    (\<forall>fuel vs. walk (it_increment n m) fuel (it_begin n m) = Some vs \<longrightarrow>
      (\<exists>ks :: 'k::len word list. distinct ks \<and> set ks = dom (hm_lookup n m) \<and>
        vs = map (\<lambda>k. the (hm_lookup n m k)) ks))"
proof -
  have "last [0..<16] = (15::nat)" by simp
  from forward.walk_summary [OF assms, of 16, unfolded this] show ?thesis
    unfolding it_begin_def it_increment_step hm_begin_probe .
qed

theorem hash_map_iteration_ends_witness:
  "\<nexists>fuel vs. walk (it_increment 2 (snd (hm_insert 2 (0xF3 :: 8 word) ''x'' (new_bucket 2)))) fuel
     (it_begin 2 (snd (hm_insert 2 (0xF3 :: 8 word) ''x'' (new_bucket 2)))) = Some vs"
proof -
  let ?m = "snd (hm_insert 2 (0xF3 :: 8 word) ''x'' (new_bucket 2))"
  have s: "shaped 2 ?m" and l: "hm_lookup 2 ?m (0xF3 :: 8 word) \<noteq> None"
    and i: "Index (drop_bit 4 (0xF3 :: 8 word)) = 15" by code_simp+
  have n: "LENGTH(8) = 4 * 2" by simp
  from hash_map_iteration_ends [OF n s] l i show ?thesis by auto
qed

text \<open>Iterating backwards. The loop from \<open>back()\<close> by \<open>--\<close> ends exactly when no key in the map
  has 0 as its highest nibble, and then visits the value of every key once: with any small key
  the last nibble goes from 0 to -1, which \<open>_prev\<close> resets to 15 in the same bucket.\<close>

theorem hash_map_reverse_iteration_ends:
  fixes m :: "'v hash_map"
  assumes "LENGTH('k::len) = 4 * n" and "shaped n m"
  shows "((\<exists>fuel vs. walk (it_decrement n m) fuel (it_back n m) = Some vs) \<longleftrightarrow>
      (\<forall>k :: 'k::len word. hm_lookup n m k \<noteq> None \<longrightarrow> Index (drop_bit (LENGTH('k) - 4) k) \<noteq> 0)) \<and>
    (\<forall>fuel vs. walk (it_decrement n m) fuel (it_back n m) = Some vs \<longrightarrow>
      (\<exists>ks :: 'k::len word list. distinct ks \<and> set ks = dom (hm_lookup n m) \<and>
        vs = map (\<lambda>k. the (hm_lookup n m k)) ks))"
proof -
  have "last (rev [0..<16]) = (0::nat)" by (simp add: last_rev)
  from backward.walk_summary [OF assms, of "-1", unfolded this] show ?thesis
    unfolding it_back_def it_decrement_step hm_back_probe .
qed

theorem hash_map_reverse_iteration_ends_witness:
  "\<exists>fuel vs. walk (it_decrement 2 (snd (hm_insert 2 (0xF3 :: 8 word) ''x'' (new_bucket 2)))) fuel
     (it_back 2 (snd (hm_insert 2 (0xF3 :: 8 word) ''x'' (new_bucket 2)))) = Some vs"
proof -
  let ?m = "snd (hm_insert 2 (0xF3 :: 8 word) ''x'' (new_bucket 2))"
  have s: "shaped 2 ?m" by code_simp
  have n: "LENGTH(8) = 4 * 2" by simp
  have i: "Index (drop_bit 4 (0xF3 :: 8 word)) \<noteq> 0" by code_simp
  have "(hm_lookup 2 ?m :: 8 word \<Rightarrow> _) = Map.empty(0xF3 \<mapsto> ''x'')"
    using hm.ins_new [OF hm_inv_new [OF n], of "0xF3" "''x''"] unfolding hm_lookup_new [OF n] by simp
  with hash_map_reverse_iteration_ends [OF n s] i show ?thesis by (auto split: if_splits)
qed

end
