(* ===== verification/Hash_Map_Race.thy ===== *)
theory Hash_Map_Race
  imports Hash_Map
begin

text \<open>
  Concurrent insertions into the hash map of \<open>concurrent/hash_map.hpp\<close>, as a step relation over
  the atomic loads and exchanges of \<open>insert\<close>. Any number of threads insert one key and value
  each into a new map; a step is one thread going from one atomic access to the next.

  Nodes live on a heap. An address is the identity of one allocation, not the number the
  allocator returns: it records the bucket the node was allocated for, as the path of nibbles from
  the root, and for each node on the path the thread that allocated it; a thread allocates at most
  once for a bucket. An allocator may give the memory of a deleted node to a later one. A program
  sees that only through a pointer to the deleted node: the exchanges compare with the null
  pointer and never with an address. Using such a pointer is undefined behaviour. In the model
  a deleted node has no cell, a thread that reads one is \<open>Dangling\<close>, and there the execution
  has no next step: what the code does from then on (the loser of a race goes on in freed or reused
  memory, and its \<open>insert\<close> may even return true with the value lost) is not bounded by
  anything the model says. The theorems speak of executions without such a read, and
  \<open>insert_race_loser_uses_deleted\<close> shows that the code has executions with one.
\<close>

subsection \<open>The threads\<close>

type_synonym addr = "(nat \<times> nat) list"

datatype 'v cell = Inner "addr option list" | Slots "'v option list"

type_synonym 'v heap = "addr \<Rightarrow> 'v cell option"

definition new_cell :: "nat \<Rightarrow> 'v cell" where
  "new_cell level = (if level \<le> 1 then Slots (replicate nibble_count None)
                     else Inner (replicate nibble_count None))"

text \<open>Where a thread is: at the load of \<open>hash_map<level>::insert\<close> on a node; at the exchange of a
  bucket with the child it made; at the exchange of a null value; done.\<close>

datatype 'k pc =
    Enter nat addr 'k
  | Exchange nat addr 'k addr
  | Exchange_value addr 'k
  | Returned bool
  | Dangling

text \<open>The two accesses of the map over one nibble: the load, and the exchange of the null pointer
  with the value.\<close>

definition load_value :: "'v option list \<Rightarrow> addr \<Rightarrow> 'k::len word \<Rightarrow> 'k word pc" where
  "load_value vs a x = (case vs ! Index x of Some _ \<Rightarrow> Returned False | None \<Rightarrow> Exchange_value a x)"

definition exchange_value ::
  "'v \<Rightarrow> 'v option list \<Rightarrow> 'v heap \<Rightarrow> addr \<Rightarrow> 'k::len word \<Rightarrow> 'v heap \<times> 'k word pc" where
  "exchange_value Value vs h a x =
     (case vs ! Index x of
        None \<Rightarrow> (h(a \<mapsto> Slots (vs[Index x := Some Value])), Returned True)
      | Some _ \<Rightarrow> (h, Returned False))"

lemmas value_defs = load_value_def exchange_value_def

text \<open>One step of a thread.\<close>

fun advance :: "nat \<Rightarrow> 'v \<Rightarrow> 'v heap \<Rightarrow> 'k::len word pc \<Rightarrow> 'v heap \<times> 'k word pc" where
  "advance i Value h (Enter level a x) =
     (case h a of
        None \<Rightarrow> (h, Dangling)
      | Some (Slots vs) \<Rightarrow> (h, load_value vs a x)
      | Some (Inner bs) \<Rightarrow>
          (case bs ! Index x of
             Some pChild \<Rightarrow> (h, Enter (level - 1) pChild (drop_bit 4 x))
           | None \<Rightarrow> (let pChild = a @ [(Index x, i)]
                      in (h(pChild \<mapsto> new_cell (level - 1)), Exchange level a x pChild))))"
| "advance i Value h (Exchange level a x pChild) =
     (case h a of
        Some (Inner bs) \<Rightarrow>
          (case bs ! Index x of
             None \<Rightarrow> (h(a \<mapsto> Inner (bs[Index x := Some pChild])), Enter (level - 1) pChild (drop_bit 4 x))
           | Some _ \<Rightarrow> (h(pChild := None), Enter (level - 1) pChild (drop_bit 4 x)))
      | _ \<Rightarrow> (h, Dangling))"
| "advance i Value h (Exchange_value a x) =
     (case h a of
        Some (Slots vs) \<Rightarrow> exchange_value Value vs h a x
      | _ \<Rightarrow> (h, Dangling))"
| "advance i Value h p = (h, p)"

fun running :: "'k pc \<Rightarrow> bool" where
  "running (Returned b) = False"
| "running Dangling = False"
| "running p = True"

text \<open>The jobs of the threads are their keys and values.\<close>

text \<open>A read of a deleted node by any thread is undefined behaviour of the whole program.\<close>

definition undefined_read :: "'k pc list \<Rightarrow> bool" where
  "undefined_read pcs \<longleftrightarrow> Dangling \<in> set pcs"

inductive race_step ::
  "('k::len word \<times> 'v) list \<Rightarrow> 'v heap \<times> 'k word pc list \<Rightarrow> 'v heap \<times> 'k word pc list \<Rightarrow> bool"
  for jobs where
  "\<not> undefined_read pcs \<Longrightarrow> i < length pcs \<Longrightarrow> running (pcs ! i) \<Longrightarrow>
     advance i (snd (jobs ! i)) h (pcs ! i) = (h', p') \<Longrightarrow>
     race_step jobs (h, pcs) (h', pcs[i := p'])"

definition race_start :: "nat \<Rightarrow> ('k::len word \<times> 'v) list \<Rightarrow> 'v heap \<times> 'k word pc list" where
  "race_start n jobs = ([[] \<mapsto> new_cell n], map (\<lambda>(k, v). Enter n [] k) jobs)"

definition race_reach :: "nat \<Rightarrow> ('k::len word \<times> 'v) list \<Rightarrow> 'v heap \<times> 'k word pc list \<Rightarrow> bool" where
  "race_reach n jobs s \<longleftrightarrow> (race_step jobs)\<^sup>*\<^sup>* (race_start n jobs) s"

text \<open>What \<open>exists\<close> and a read of the map find, once the threads are done.\<close>

fun heap_lookup :: "nat \<Rightarrow> 'v heap \<Rightarrow> addr \<Rightarrow> 'k::len word \<Rightarrow> 'v option" where
  "heap_lookup level h a x =
     (case h a of
        None \<Rightarrow> None
      | Some (Slots vs) \<Rightarrow> vs ! Index x
      | Some (Inner bs) \<Rightarrow>
          (case level of
             0 \<Rightarrow> None
           | Suc below \<Rightarrow>
               (case bs ! Index x of None \<Rightarrow> None | Some c \<Rightarrow> heap_lookup below h c (drop_bit 4 x))))"

declare heap_lookup.simps [simp del]

text \<open>A schedule names the thread that moves next; a name that cannot move is passed over.\<close>

fun race_run ::
  "('k::len word \<times> 'v) list \<Rightarrow> nat list \<Rightarrow> 'v heap \<times> 'k word pc list \<Rightarrow> 'v heap \<times> 'k word pc list" where
  "race_run jobs [] s = s"
| "race_run jobs (i # is) (h, pcs) =
     (if \<not> undefined_read pcs \<and> i < length pcs \<and> running (pcs ! i)
      then (let (h', p') = advance i (snd (jobs ! i)) h (pcs ! i) in race_run jobs is (h', pcs[i := p']))
      else race_run jobs is (h, pcs))"

lemma race_run_steps: "(race_step jobs)\<^sup>*\<^sup>* s (race_run jobs is s)"
proof (induction jobs "is" s rule: race_run.induct)
  case (2 jobs i "is" h pcs)
  then show ?case
    by (auto split: prod.split intro: race_step.intros converse_rtranclp_into_rtranclp)
qed simp

lemma race_run_reach: "race_reach n jobs (race_run jobs is (race_start n jobs))"
  unfolding race_reach_def by (rule race_run_steps)

subsection \<open>Linked nodes\<close>

text \<open>A node is linked when its path leads to it from the root.\<close>

inductive linked :: "'v heap \<Rightarrow> addr \<Rightarrow> bool" for h where
  root: "linked h []"
| child: "linked h a \<Longrightarrow> h a = Some (Inner bs) \<Longrightarrow> x < nibble_count \<Longrightarrow> bs ! x = Some (a @ [(x, j)]) \<Longrightarrow>
    linked h (a @ [(x, j)])"

inductive_cases linked_snocE: "linked h (a @ [e])"

definition cell_ok :: "nat \<Rightarrow> 'v heap \<Rightarrow> addr \<Rightarrow> 'v cell \<Rightarrow> bool" where
  "cell_ok n h a c \<longleftrightarrow>
     (case c of
        Slots vs \<Rightarrow> length vs = nibble_count \<and> length a + 1 = n
      | Inner bs \<Rightarrow> length bs = nibble_count \<and> length a + 1 < n \<and>
          (\<forall>x < nibble_count. \<forall>b. bs ! x = Some b \<longrightarrow> (\<exists>j. b = a @ [(x, j)]) \<and> h b \<noteq> None))"

definition heap_ok :: "nat \<Rightarrow> 'v heap \<Rightarrow> bool" where
  "heap_ok n h \<longleftrightarrow> h [] \<noteq> None \<and> (\<forall>a c. h a = Some c \<longrightarrow> cell_ok n h a c)"

lemma linked_cell:
  assumes "heap_ok n h" and "linked h a"
  obtains c where "h a = Some c" and "cell_ok n h a c"
  using assms(2)
proof cases
  case root
  then show ?thesis using assms(1) that by (auto simp: heap_ok_def)
next
  case (child b bs x j)
  then have "cell_ok n h b (Inner bs)" using assms(1) by (simp add: heap_ok_def)
  then have "h a \<noteq> None" using child by (auto simp: cell_ok_def)
  then show ?thesis using assms(1) that by (auto simp: heap_ok_def)
qed

lemma linked_live: "heap_ok n h \<Longrightarrow> linked h a \<Longrightarrow> h a \<noteq> None"
  by (erule (1) linked_cell) simp

lemma linked_inner:
  assumes "heap_ok n h" and "h a = Some (Inner bs)" and "bs ! Index x = Some c" and "linked h a"
  shows "\<exists>j. c = a @ [(Index x, j)]" and "linked h c"
proof -
  have "cell_ok n h a (Inner bs)" using assms(1,2) by (simp add: heap_ok_def)
  then show c: "\<exists>j. c = a @ [(Index x, j)]" using assms(3) Index_less [of x] by (auto simp: cell_ok_def)
  then show "linked h c" using linked.child [OF assms(4,2) Index_less [of x]] assms(3) by auto
qed

text \<open>Two linked nodes for the same nibbles are the same node.\<close>

lemma linked_unique:
  "linked h a \<Longrightarrow> linked h b \<Longrightarrow> map fst a = map fst b \<Longrightarrow> a = b"
proof (induction arbitrary: b rule: linked.induct)
  case (child a bs x j)
  obtain b' y i where b: "b = b' @ [(y, i)]" using child.prems(2)
    by (cases b rule: rev_cases) auto
  with child.prems obtain bs' where b': "linked h b'" "h b' = Some (Inner bs')" "bs' ! y = Some (b' @ [(y, i)])"
    by (auto elim: linked_snocE)
  have "a = b'" using child.IH [OF b'(1)] child.prems(2) b by simp
  then show ?case using child b b' by simp
qed simp

lemma nibbles_nth: "d < n \<Longrightarrow> nibbles n k ! d = Index (drop_bit (4 * d) k)"
proof (induction n arbitrary: d k)
  case (Suc n)
  then show ?case by (cases d) (simp_all add: add.commute)
qed simp

lemma nibbles_len [simp]: "length (nibbles n k) = n"
  by (induction n arbitrary: k) simp_all

subsection \<open>The invariant\<close>

text \<open>A thread stands on its key's path, with the rest of the key.\<close>

definition placed :: "nat \<Rightarrow> 'k::len word \<Rightarrow> nat \<Rightarrow> addr \<Rightarrow> 'k word \<Rightarrow> bool" where
  "placed n k level a x \<longleftrightarrow> length a + level = n \<and> 1 \<le> level \<and>
     x = drop_bit (4 * length a) k \<and> map fst a = take (length a) (nibbles n k)"

lemma placed_start: "0 < n \<Longrightarrow> placed n k n [] k"
  by (simp add: placed_def)

lemma placed_child:
  assumes "placed n k level a x" and "2 \<le> level"
  shows "placed n k (level - 1) (a @ [(Index x, j)]) (drop_bit 4 x)"
proof -
  have "length a < n" using assms by (simp add: placed_def)
  moreover have "nibbles n k ! length a = Index x"
    using assms calculation by (simp add: placed_def nibbles_nth)
  ultimately show ?thesis
    using assms by (auto simp: placed_def take_Suc_conv_app_nth add.commute)
qed

lemma placed_snoc:
  assumes "placed n k level (a @ [(y, j)]) x"
  shows "placed n k (Suc level) a (drop_bit (4 * length a) k) \<and>
    y = Index (drop_bit (4 * length a) k) \<and> x = drop_bit 4 (drop_bit (4 * length a) k)"
proof -
  have len: "length a < n" and m: "map fst a @ [y] = take (Suc (length a)) (nibbles n k)"
    using assms by (auto simp: placed_def)
  have "take (Suc (length a)) (nibbles n k) =
      take (length a) (nibbles n k) @ [Index (drop_bit (4 * length a) k)]"
    using len by (simp add: take_Suc_conv_app_nth nibbles_nth)
  then show ?thesis using m assms by (simp add: placed_def add.commute)
qed

text \<open>A node that its thread lost: deleted, and allocated by that thread.\<close>

definition lost :: "nat \<Rightarrow> 'v heap \<Rightarrow> addr \<Rightarrow> bool" where
  "lost i h a \<longleftrightarrow> h a = None \<and> a \<noteq> [] \<and> snd (last a) = i"

definition thread_ok :: "nat \<Rightarrow> 'k::len word \<times> 'v \<Rightarrow> 'v heap \<Rightarrow> nat \<Rightarrow> 'k word pc \<Rightarrow> bool" where
  "thread_ok n job h i p \<longleftrightarrow>
     (case p of
        Enter level a x \<Rightarrow> placed n (fst job) level a x \<and> (linked h a \<or> lost i h a)
      | Exchange level a x c \<Rightarrow> placed n (fst job) level a x \<and> 2 \<le> level \<and> linked h a \<and>
          c = a @ [(Index x, i)] \<and> h c = Some (new_cell (level - 1)) \<and> \<not> linked h c
      | Exchange_value a x \<Rightarrow> placed n (fst job) 1 a x \<and> linked h a
      | Returned b \<Rightarrow> (if b then heap_lookup n h [] (fst job) = Some (snd job)
                       else heap_lookup n h [] (fst job) \<noteq> None)
      | Dangling \<Rightarrow> True)"

text \<open>What a step of thread \<open>i\<close> may do to the heap: fill empty places of linked nodes, link a node
  of its own, and make or delete a node of its own that is not linked.\<close>

definition list_grows :: "'a option list \<Rightarrow> 'a option list \<Rightarrow> bool" where
  "list_grows xs ys \<longleftrightarrow> length ys = length xs \<and> (\<forall>j < length xs. xs ! j \<noteq> None \<longrightarrow> ys ! j = xs ! j)"

fun cell_grows :: "'v cell \<Rightarrow> 'v cell \<Rightarrow> bool" where
  "cell_grows (Inner bs) (Inner bs') = list_grows bs bs'"
| "cell_grows (Slots vs) (Slots vs') = list_grows vs vs'"
| "cell_grows _ _ = False"

definition heap_step :: "nat \<Rightarrow> 'v heap \<Rightarrow> 'v heap \<Rightarrow> bool" where
  "heap_step i h h' \<longleftrightarrow>
     (\<forall>a c. linked h a \<longrightarrow> h a = Some c \<longrightarrow> (\<exists>c'. h' a = Some c' \<and> cell_grows c c')) \<and>
     (\<forall>a. \<not> linked h a \<longrightarrow> a \<noteq> [] \<longrightarrow> snd (last a) \<noteq> i \<longrightarrow> h' a = h a) \<and>
     (\<forall>a. linked h' a \<longrightarrow> linked h a \<or> (a \<noteq> [] \<and> snd (last a) = i))"

lemma list_grows_refl [simp]: "list_grows xs xs"
  by (simp add: list_grows_def)

lemma list_grows_update [simp]: "xs ! j = None \<Longrightarrow> list_grows xs (xs[j := y])"
  by (auto simp: list_grows_def) (metis nth_list_update_neq option.distinct(1))

lemma cell_grows_refl [simp]: "cell_grows c c"
  by (cases c) simp_all

lemma heap_step_same [simp]: "heap_step i h h"
  by (auto simp: heap_step_def)

lemma heap_step_inner:
  assumes "heap_step i h h'" and "linked h a" and "h a = Some (Inner bs)"
  obtains bs' where "h' a = Some (Inner bs')" and "list_grows bs bs'"
proof -
  obtain c' where "h' a = Some c'" "cell_grows (Inner bs) c'"
    using assms unfolding heap_step_def by blast
  then show ?thesis using that by (cases c') auto
qed

lemma heap_step_slots:
  assumes "heap_step i h h'" and "linked h a" and "h a = Some (Slots vs)"
  obtains vs' where "h' a = Some (Slots vs')" and "list_grows vs vs'"
proof -
  obtain c' where "h' a = Some c'" "cell_grows (Slots vs) c'"
    using assms unfolding heap_step_def by blast
  then show ?thesis using that by (cases c') auto
qed

lemma linked_grows:
  assumes "linked h a" and "heap_step i h h'" and "heap_ok n h"
  shows "linked h' a"
  using assms(1)
proof induction
  case (child a bs x j)
  obtain bs' where bs': "h' a = Some (Inner bs')" "list_grows bs bs'"
    using heap_step_inner [OF assms(2) child.hyps(1,2)] .
  have "length bs = nibble_count"
    using child.hyps(2) assms(3) unfolding heap_ok_def cell_ok_def by fastforce
  then have "bs' ! x = Some (a @ [(x, j)])" using bs'(2) child.hyps by (auto simp: list_grows_def)
  then show ?case using child.IH bs'(1) child.hyps(3) by (intro linked.child)
qed (rule linked.root)

lemma lookup_grows:
  assumes "heap_step i h h'" and "heap_ok n h"
  shows "linked h a \<Longrightarrow> heap_lookup level h a x = Some v \<Longrightarrow> heap_lookup level h' a x = Some v"
proof (induction level arbitrary: a x)
  case 0
  then obtain vs where vs: "h a = Some (Slots vs)" "vs ! Index x = Some v"
    by (subst (asm) heap_lookup.simps) (auto split: option.splits cell.splits)
  then have "length vs = nibble_count" using assms(2) unfolding heap_ok_def cell_ok_def by fastforce
  then show ?case
    using heap_step_slots [OF assms(1) 0(1) vs(1)] vs(2)
    by (subst heap_lookup.simps) (fastforce simp: list_grows_def)
next
  case (Suc level)
  show ?case
  proof (cases "h a")
    case None
    then show ?thesis using Suc.prems(2) by (simp add: heap_lookup.simps)
  next
    case (Some c)
    then have c: "cell_ok n h a c" using assms(2) by (simp add: heap_ok_def)
    show ?thesis
    proof (cases c)
      case (Slots vs)
      with Suc.prems(2) Some have "vs ! Index x = Some v" by (simp add: heap_lookup.simps)
      then show ?thesis
        using heap_step_slots [OF assms(1) Suc.prems(1) Some [unfolded Slots]] c
        by (subst heap_lookup.simps) (fastforce simp: list_grows_def cell_ok_def Slots)
    next
      case (Inner bs)
      with Suc.prems(2) Some obtain b where b: "bs ! Index x = Some b"
        "heap_lookup level h b (drop_bit 4 x) = Some v"
        by (auto simp: heap_lookup.simps split: option.splits)
      have l: "linked h b" using linked_inner [OF assms(2) _ b(1) Suc.prems(1)] Some Inner by simp
      obtain bs' where "h' a = Some (Inner bs')" "list_grows bs bs'"
        using heap_step_inner [OF assms(1) Suc.prems(1) Some [unfolded Inner]] .
      moreover from this have "bs' ! Index x = Some b"
        using b(1) c by (auto simp: list_grows_def cell_ok_def Inner)
      ultimately show ?thesis using Suc.IH [OF l b(2)] by (subst heap_lookup.simps) simp
    qed
  qed
qed

text \<open>A step of another thread leaves a thread where it was.\<close>

lemma thread_ok_frame:
  assumes "thread_ok n job h j p" and "heap_step i h h'" and "heap_ok n h" and "j \<noteq> i"
  shows "thread_ok n job h' j p"
proof -
  have keep: "h' a = h a" if "lost j h a \<or> (\<not> linked h a \<and> a \<noteq> [] \<and> snd (last a) = j)" for a
  proof -
    have "\<not> linked h a"
      using that linked_live [OF assms(3), of a] by (auto simp: lost_def)
    then show ?thesis using that assms(2,4) by (auto simp: heap_step_def lost_def)
  qed
  have lookup: "heap_lookup n h [] k = Some v \<Longrightarrow> heap_lookup n h' [] k = Some v" for k :: "'a word" and v
    using lookup_grows [OF assms(2,3) linked.root] .
  show ?thesis
  proof (cases p)
    case (Enter level a x)
    then show ?thesis
      using assms(1) linked_grows [OF _ assms(2,3), of a] keep [of a] by (auto simp: thread_ok_def lost_def)
  next
    case (Exchange level a x c)
    then show ?thesis
      using assms(1,2,4) linked_grows [OF _ assms(2,3), of a] keep [of c]
      by (auto simp: thread_ok_def heap_step_def)
  next
    case (Exchange_value a x)
    then show ?thesis
      using assms(1) linked_grows [OF _ assms(2,3), of a] by (auto simp: thread_ok_def)
  next
    case (Returned b)
    then show ?thesis using assms(1) lookup by (auto simp: thread_ok_def split: if_splits)
  qed (simp add: thread_ok_def)
qed

text \<open>From a linked node on the key's path, the rest of the search is the whole search.\<close>

lemma lookup_from_linked:
  assumes "heap_ok n h"
  shows "linked h a \<Longrightarrow> placed n k level a x \<Longrightarrow> heap_lookup n h [] k = heap_lookup level h a x"
proof (induction arbitrary: level x rule: linked.induct)
  case root
  then show ?case by (simp add: placed_def)
next
  case (child a bs y j)
  have ok: "cell_ok n h a (Inner bs)" using child.hyps(2) assms by (simp add: heap_ok_def)
  define y' where "y' = drop_bit (4 * length a) k"
  have p: "placed n k (Suc level) a y'" and xk: "x = drop_bit 4 y'" and y: "y = Index y'"
    using placed_snoc [OF child.prems] by (simp_all add: y'_def)
  from child.IH [OF p] show ?case
    by (simp add: heap_lookup.simps [of "Suc level"] child.hyps y [symmetric] xk)
qed

lemma linked_leaf_lookup:
  assumes "heap_ok n h" and "linked h a" and "placed n k 1 a x" and "h a = Some (Slots vs)"
  shows "heap_lookup n h [] k = vs ! Index x"
  using lookup_from_linked [OF assms(1-3)] by (simp add: heap_lookup.simps assms(4))

lemma level_inner:
  assumes "heap_ok n h" and "placed n k level a x" and "h a = Some (Inner bs)"
  shows "2 \<le> level"
  using assms unfolding heap_ok_def cell_ok_def placed_def by fastforce

lemma level_slots:
  assumes "heap_ok n h" and "placed n k level a x" and "h a = Some (Slots vs)"
  shows "level = 1"
  using assms unfolding heap_ok_def cell_ok_def placed_def by fastforce

subsection \<open>The steps of one thread\<close>

lemma new_cell_ok: "length a + level = n \<Longrightarrow> 1 \<le> level \<Longrightarrow> cell_ok n h a (new_cell level)"
  by (auto simp: new_cell_def cell_ok_def)

lemma cell_ok_more:
  "cell_ok n h a c \<Longrightarrow> (\<And>b. h b \<noteq> None \<Longrightarrow> h' b \<noteq> None) \<Longrightarrow> cell_ok n h' a c"
  by (fastforce simp: cell_ok_def split: cell.splits)

lemma heap_ok_update:
  assumes "heap_ok n h" and "cell_ok n (h(a \<mapsto> c)) a c"
  shows "heap_ok n (h(a \<mapsto> c))"
  unfolding heap_ok_def
proof (intro conjI allI impI)
  show "(h(a \<mapsto> c)) [] \<noteq> None" using assms(1) by (auto simp: heap_ok_def)
  fix b d assume "(h(a \<mapsto> c)) b = Some d"
  then show "cell_ok n (h(a \<mapsto> c)) b d"
    using assms cell_ok_more [of n h b d "h(a \<mapsto> c)"] by (auto simp: heap_ok_def split: if_splits)
qed

text \<open>Linked nodes after an update of one cell.\<close>

lemma linked_update_unlinked:
  assumes "linked (h(a := c)) b" and "\<not> linked h a"
  shows "linked h b"
  using assms(1)
proof induction
  case (child b bs x j)
  then have "b \<noteq> a" using assms(2) by auto
  then show ?case using child by (auto intro: linked.child)
qed (rule linked.root)

lemma linked_update_slots:
  assumes "linked (h(a \<mapsto> Slots vs)) b"
  shows "linked h b"
  using assms
proof induction
  case (child b bs x j)
  then show ?case by (auto intro: linked.child split: if_splits)
qed (rule linked.root)

lemma linked_update_link:
  fixes h :: "'v heap"
  assumes "linked (h(a \<mapsto> Inner (bs[y := Some c]))) b" and "h a = Some (Inner bs)"
    and "h c = Some (new_cell level)" and "c \<noteq> a" and "length bs = nibble_count"
  shows "linked h b \<or> b = c"
  using assms(1)
proof induction
  case (child b bs' x j)
  show ?case
  proof (cases "b = c")
    case True
    then have "new_cell level = (Inner bs' :: 'v cell)" using child.hyps(2) assms(3,4) by simp
    then show ?thesis using child.hyps(3,4) by (auto simp: new_cell_def split: if_splits)
  next
    case False
    then have l: "linked h b" using child.IH by simp
    show ?thesis
    proof (cases "b = a \<and> x = y")
      case True
      then show ?thesis using child.hyps assms(5) by auto
    next
      case False
      then obtain bs0 where "h b = Some (Inner bs0)" "bs0 ! x = Some (b @ [(x, j)])"
        using child.hyps assms(2) by (cases "b = a") auto
      then show ?thesis using linked.child [OF l _ child.hyps(3)] by blast
    qed
  qed
qed (simp add: linked.root)

definition step_ok ::
  "nat \<Rightarrow> 'k::len word \<times> 'v \<Rightarrow> 'v heap \<Rightarrow> nat \<Rightarrow> 'v heap \<times> 'k word pc \<Rightarrow> bool" where
  "step_ok n job h i r \<longleftrightarrow>
     heap_ok n (fst r) \<and> heap_step i h (fst r) \<and> thread_ok n job (fst r) i (snd r)"

lemma unlinked_child:
  assumes "h a = Some (Inner bs)" and "bs ! x \<noteq> Some (a @ [(x, j)])"
  shows "\<not> linked h (a @ [(x, j)])"
  using assms by (auto elim: linked_snocE)

lemma enter_step:
  assumes "heap_ok n h" and "thread_ok n job h i (Enter level a x)"
  shows "step_ok n job h i (advance i (snd job) h (Enter level a x))"
proof (cases "h a")
  case None
  then show ?thesis using assms by (simp add: step_ok_def thread_ok_def)
next
  case (Some c)
  then have l: "linked h a" and p: "placed n (fst job) level a x"
    using assms(2) by (auto simp: thread_ok_def lost_def)
  show ?thesis
  proof (cases c)
    case (Slots vs)
    then have h: "h a = Some (Slots vs)" using Some by simp
    have "level = 1" using level_slots [OF assms(1) p h] .
    then show ?thesis
      using assms(1) l p linked_leaf_lookup [OF assms(1) l _ h, of "fst job" x] h
      by (cases "vs ! Index x") (auto simp: value_defs step_ok_def thread_ok_def)
  next
    case (Inner bs)
    then have h: "h a = Some (Inner bs)" using Some by simp
    have lv: "2 \<le> level" using level_inner [OF assms(1) p h] .
    show ?thesis
    proof (cases "bs ! Index x")
      case (Some b)
      then show ?thesis
        using linked_inner [OF assms(1) h Some l] placed_child [OF p lv] assms(1) h
        by (auto simp: step_ok_def thread_ok_def)
    next
      case None
      define b where "b = a @ [(Index x, i)]"
      define h' where "h' = h(b \<mapsto> new_cell (level - 1))"
      have u: "\<not> linked h b" unfolding b_def using unlinked_child [of h a bs "Index x" i] h None by simp
      have ok: "heap_ok n h'"
        unfolding h'_def using p lv
        by (intro heap_ok_update [OF assms(1)] new_cell_ok) (auto simp: placed_def b_def)
      have st: "heap_step i h h'"
        unfolding heap_step_def using u linked_update_unlinked [of h b "Some (new_cell (level - 1))"]
        by (auto simp: h'_def b_def intro: cell_grows_refl)
      have "\<not> linked h' b" using u linked_update_unlinked unfolding h'_def by blast
      then show ?thesis
        using ok st linked_grows [OF l st assms(1)] p lv h None
        by (simp add: step_ok_def thread_ok_def b_def h'_def Let_def)
    qed
  qed
qed

lemma exchange_step:
  assumes "heap_ok n h" and "thread_ok n job h i (Exchange level a x b)"
  shows "step_ok n job h i (advance i (snd job) h (Exchange level a x b))"
proof -
  have l: "linked h a" and p: "placed n (fst job) level a x" and lv: "2 \<le> level"
    and b: "b = a @ [(Index x, i)]" "h b = Some (new_cell (level - 1))" "\<not> linked h b"
    using assms(2) by (auto simp: thread_ok_def)
  obtain c where "h a = Some c" "cell_ok n h a c" by (rule linked_cell [OF assms(1) l])
  then obtain bs where h: "h a = Some (Inner bs)" and len: "length bs = nibble_count"
    and n: "length a + 1 < n"
    using p lv by (cases c) (auto simp: cell_ok_def placed_def)
  have ab: "b \<noteq> a" using b(1) by simp
  show ?thesis
  proof (cases "bs ! Index x")
    case None
    define h' where "h' = h(a \<mapsto> Inner (bs[Index x := Some b]))"
    have "cell_ok n h a (Inner bs)" using h assms(1) by (simp add: heap_ok_def)
    then have ok: "heap_ok n h'"
      unfolding h'_def using b n ab
      by (intro heap_ok_update [OF assms(1)]) (auto simp: cell_ok_def nth_list_update split: if_splits)
    have st: "heap_step i h h'"
      unfolding heap_step_def
    proof (intro conjI allI impI)
      show "\<exists>c'. h' d = Some c' \<and> cell_grows c c'" if "linked h d" "h d = Some c" for d c
        using that h None by (auto simp: h'_def)
      show "h' d = h d" if "\<not> linked h d" for d using that l by (auto simp: h'_def)
      show "linked h d \<or> d \<noteq> [] \<and> snd (last d) = i" if "linked h' d" for d
        using linked_update_link [OF that [unfolded h'_def] h b(2) ab len] b(1) by auto
    qed
    have "linked h' b"
      unfolding b(1) using linked_grows [OF l st assms(1)] Index_less [of x] len b(1)
      by (intro linked.child) (auto simp: h'_def)
    then show ?thesis
      using ok st placed_child [OF p lv, of i] h None
      by (simp add: step_ok_def thread_ok_def b(1) h'_def)
  next
    case (Some b')
    define h' where "h' = h(b := None)"
    have ne: "bs ! Index x \<noteq> Some b"
      using linked_inner(2) [OF assms(1) h _ l] b(3) by blast
    have keep: "cell_ok n h' d c" if c: "h d = Some c" for d c
    proof -
      have "cell_ok n h d c" using c assms(1) by (simp add: heap_ok_def)
      then show ?thesis using ne c h b(1)
        by (cases c) (auto simp: cell_ok_def h'_def)
    qed
    have ok: "heap_ok n h'"
      using assms(1) keep b(1) by (auto simp: heap_ok_def h'_def)
    have st: "heap_step i h h'"
      unfolding heap_step_def using b linked_update_unlinked [of h b None]
      by (auto simp: h'_def)
    show ?thesis
      using ok st placed_child [OF p lv, of i] h Some
      by (simp add: step_ok_def thread_ok_def lost_def b(1) h'_def)
  qed
qed

lemma exchange_value_step:
  assumes "heap_ok n h" and "thread_ok n job h i (Exchange_value a x)"
  shows "step_ok n job h i (advance i (snd job) h (Exchange_value a x))"
proof -
  have l: "linked h a" and p: "placed n (fst job) 1 a x"
    using assms(2) by (auto simp: thread_ok_def)
  obtain c where "h a = Some c" "cell_ok n h a c" by (rule linked_cell [OF assms(1) l])
  then obtain vs where h: "h a = Some (Slots vs)" and len: "length vs = nibble_count"
    and n: "length a + 1 = n"
    using p by (cases c) (auto simp: cell_ok_def placed_def)
  show ?thesis
  proof (cases "vs ! Index x")
    case None
    define h' where "h' = h(a \<mapsto> Slots (vs[Index x := Some (snd job)]))"
    have ok: "heap_ok n h'"
      unfolding h'_def using len n by (intro heap_ok_update [OF assms(1)]) (auto simp: cell_ok_def)
    have st: "heap_step i h h'"
      unfolding heap_step_def using h None l linked_update_slots [of h a]
      by (auto simp: h'_def)
    have "heap_lookup n h' [] (fst job) = Some (snd job)"
      using linked_leaf_lookup [OF ok linked_grows [OF l st assms(1)] p, of "vs[Index x := Some (snd job)]"]
        len Index_less [of x] by (simp add: h'_def)
    then show ?thesis using ok st h None by (simp add: value_defs step_ok_def thread_ok_def h'_def)
  next
    case (Some v)
    then show ?thesis
      using assms(1) h linked_leaf_lookup [OF assms(1) l p h]
      by (simp add: value_defs step_ok_def thread_ok_def)
  qed
qed

lemma advance_ok:
  assumes "heap_ok n h" and "thread_ok n job h i p"
  shows "step_ok n job h i (advance i (snd job) h p)"
proof (cases p)
  case (Enter level a x)
  then show ?thesis using enter_step assms by blast
next
  case (Exchange level a x c)
  then show ?thesis using exchange_step assms by blast
next
  case (Exchange_value a x)
  then show ?thesis using exchange_value_step assms by blast
qed (use assms in \<open>simp_all add: step_ok_def\<close>)

subsection \<open>The whole system\<close>

definition race_ok :: "nat \<Rightarrow> ('k::len word \<times> 'v) list \<Rightarrow> 'v heap \<Rightarrow> 'k word pc list \<Rightarrow> bool" where
  "race_ok n jobs h pcs \<longleftrightarrow>
     heap_ok n h \<and> length pcs = length jobs \<and>
     (\<forall>i < length jobs. thread_ok n (jobs ! i) h i (pcs ! i))"

text \<open>Every stored value was stored by a thread that returned true, and no two such threads have
  the same key.\<close>

definition stored_by :: "nat \<Rightarrow> ('k::len word \<times> 'v) list \<Rightarrow> 'v heap \<Rightarrow> 'k word pc list \<Rightarrow> bool" where
  "stored_by n jobs h pcs \<longleftrightarrow>
     (\<forall>a vs x v. h a = Some (Slots vs) \<longrightarrow> x < nibble_count \<longrightarrow> vs ! x = Some v \<longrightarrow>
        (\<exists>j < length jobs. pcs ! j = Returned True \<and> snd (jobs ! j) = v \<and>
           nibbles n (fst (jobs ! j)) = map fst a @ [x]))"

definition one_winner :: "('k \<times> 'v) list \<Rightarrow> 'p pc list \<Rightarrow> bool" where
  "one_winner jobs pcs \<longleftrightarrow>
     (\<forall>i < length jobs. \<forall>j < length jobs. pcs ! i = Returned True \<longrightarrow> pcs ! j = Returned True \<longrightarrow>
        fst (jobs ! i) = fst (jobs ! j) \<longrightarrow> i = j)"

definition race_inv :: "nat \<Rightarrow> ('k::len word \<times> 'v) list \<Rightarrow> 'v heap \<times> 'k word pc list \<Rightarrow> bool" where
  "race_inv n jobs s \<longleftrightarrow>
     race_ok n jobs (fst s) (snd s) \<and> stored_by n jobs (fst s) (snd s) \<and> one_winner jobs (snd s)"

lemma race_ok_step:
  assumes "race_ok n jobs h pcs" and "i < length pcs"
    and "advance i (snd (jobs ! i)) h (pcs ! i) = (h', p')"
  shows "race_ok n jobs h' (pcs[i := p'])" and "heap_step i h h'"
proof -
  have s: "step_ok n (jobs ! i) h i (h', p')"
    using advance_ok [of n h "jobs ! i" i "pcs ! i"] assms by (simp add: race_ok_def)
  then show st: "heap_step i h h'" by (simp add: step_ok_def)
  show "race_ok n jobs h' (pcs[i := p'])"
    unfolding race_ok_def
  proof (intro conjI allI impI)
    fix j assume "j < length jobs"
    then show "thread_ok n (jobs ! j) h' j (pcs[i := p'] ! j)"
      using s assms thread_ok_frame [OF _ st, of n "jobs ! j" j "pcs ! j"]
      by (cases "j = i") (auto simp: race_ok_def step_ok_def)
  qed (use s assms in \<open>simp_all add: step_ok_def race_ok_def\<close>)
qed

text \<open>A value appears only through a successful exchange of the value.\<close>

lemma advance_values:
  assumes "advance i v h p = (h', p')" and "h' a = Some (Slots vs')" and "x < nibble_count"
    and "vs' ! x = Some w" and "heap_ok n h"
  shows "(\<exists>vs. h a = Some (Slots vs) \<and> vs ! x = Some w) \<or>
    (\<exists>y. p = Exchange_value a y \<and> Index y = x \<and> p' = Returned True \<and> w = v)"
proof (cases p)
  case (Enter level b y)
  then show ?thesis using assms(1-4)
    by (auto simp: value_defs new_cell_def Let_def split: option.splits cell.splits if_splits)
next
  case (Exchange level b y c)
  then show ?thesis using assms(1-4) by (auto split: option.splits cell.splits if_splits)
next
  case (Exchange_value b y)
  show ?thesis
  proof (cases "a = b")
    case True
    then show ?thesis using assms Exchange_value
      by (cases "x = Index y") (auto simp: value_defs heap_ok_def cell_ok_def split: option.splits cell.splits)
  next
    case False
    then show ?thesis using assms(1-4) Exchange_value
      by (auto simp: value_defs split: option.splits cell.splits)
  qed
qed (use assms in auto)

lemma advance_wins:
  assumes "advance i v h p = (h', Returned True)" and "running p"
  obtains a x vs where "p = Exchange_value a x" and "h a = Some (Slots vs)" and "vs ! Index x = None"
  using assms by (cases p) (auto simp: value_defs Let_def split: option.splits cell.splits)

lemma placed_leaf:
  assumes "placed n k 1 a x"
  shows "nibbles n k = map fst a @ [Index x]"
proof -
  have n: "n = Suc (length a)" and x: "x = drop_bit (4 * length a) k"
    and m: "map fst a = take (length a) (nibbles n k)"
    using assms by (auto simp: placed_def)
  have "nibbles n k = take (Suc (length a)) (nibbles n k)" by (simp only: n take_all nibbles_len order_refl)
  also have "\<dots> = take (length a) (nibbles n k) @ [nibbles n k ! length a]"
    by (rule take_Suc_conv_app_nth) (simp only: n nibbles_len lessI)
  also have "nibbles n k ! length a = Index x" using n x by (simp only: nibbles_nth lessI)
  finally show ?thesis using m by simp
qed

lemma race_inv_step:
  fixes jobs :: "('k::len word \<times> 'v) list"
  assumes "race_step jobs s t" and "race_inv n jobs s" and "LENGTH('k) = 4 * n"
  shows "race_inv n jobs t"
  using assms(1)
proof cases
  case (1 pcs i h h' p')
  note st = this
  have ok: "race_ok n jobs h pcs" and sto: "stored_by n jobs h pcs" and one: "one_winner jobs pcs"
    using assms(2) st(1) by (simp_all add: race_inv_def)
  have len: "length pcs = length jobs" and hok: "heap_ok n h" and i: "i < length jobs"
    using ok st(4) by (simp_all add: race_ok_def)
  have stays: "pcs[i := p'] ! j = Returned True" if "pcs ! j = Returned True" for j
    using that st(5) by (cases "j = i") auto
  have ok': "race_ok n jobs h' (pcs[i := p'])" using race_ok_step(1) [OF ok st(4,6)] .
  have "stored_by n jobs h' (pcs[i := p'])"
    unfolding stored_by_def
  proof (intro allI impI)
    fix a vs x v assume a: "h' a = Some (Slots vs)" "x < nibble_count" "vs ! x = Some v"
    from advance_values [OF st(6) a hok]
    show "\<exists>j < length jobs. pcs[i := p'] ! j = Returned True \<and> snd (jobs ! j) = v \<and>
        nibbles n (fst (jobs ! j)) = map fst a @ [x]"
    proof
      assume "\<exists>vs. h a = Some (Slots vs) \<and> vs ! x = Some v"
      then show ?thesis using sto a(2) stays unfolding stored_by_def by blast
    next
      assume "\<exists>y. pcs ! i = Exchange_value a y \<and> Index y = x \<and> p' = Returned True \<and> v = snd (jobs ! i)"
      then obtain y where y: "pcs ! i = Exchange_value a y" "Index y = x" "p' = Returned True"
        "v = snd (jobs ! i)" by blast
      have "placed n (fst (jobs ! i)) 1 a y"
        using ok i y(1) unfolding race_ok_def thread_ok_def by fastforce
      then show ?thesis using placed_leaf y i len by (intro exI [of _ i]) auto
    qed
  qed
  moreover have "one_winner jobs (pcs[i := p'])"
  proof (cases "p' = Returned True")
    case True
    obtain a x vs where a: "pcs ! i = Exchange_value a x" "h a = Some (Slots vs)" "vs ! Index x = None"
      using advance_wins [OF st(6) [unfolded True] st(5)] .
    have "heap_lookup n h [] (fst (jobs ! i)) = None"
      using ok i a linked_leaf_lookup [OF hok _ _ a(2)] unfolding race_ok_def thread_ok_def by fastforce
    then have "fst (jobs ! j) \<noteq> fst (jobs ! i)" if "j < length jobs" "pcs ! j = Returned True" for j
      using ok that unfolding race_ok_def thread_ok_def by fastforce
    then show ?thesis
      using one len unfolding one_winner_def by (metis nth_list_update_neq)
  next
    case False
    then have "pcs ! j = Returned True" if "pcs[i := p'] ! j = Returned True" "j < length jobs" for j
      using that len by (cases "j = i") auto
    then show ?thesis using one unfolding one_winner_def by blast
  qed
  ultimately show ?thesis using ok' st(2) by (simp add: race_inv_def)
qed

lemma race_inv_start:
  fixes jobs :: "('k::len word \<times> 'v) list"
  assumes "0 < n"
  shows "race_inv n jobs (race_start n jobs)"
proof -
  define h :: "'v heap" where "h = [[] \<mapsto> new_cell n]"
  have "heap_ok n h" using assms by (simp add: h_def heap_ok_def new_cell_ok)
  moreover have "thread_ok n job h i (Enter n [] (fst job))" for i and job :: "'k word \<times> 'v"
    using assms by (simp add: thread_ok_def placed_start linked.root)
  moreover have "stored_by n jobs h pcs" for pcs
    by (auto simp: h_def stored_by_def new_cell_def split: if_splits)
  ultimately show ?thesis
    by (simp add: h_def [symmetric] race_inv_def race_start_def race_ok_def one_winner_def split_beta)
qed

lemma race_reach_inv:
  fixes jobs :: "('k::len word \<times> 'v) list"
  assumes "race_reach n jobs s" and "LENGTH('k) = 4 * n"
  shows "race_inv n jobs s"
  using assms(1) unfolding race_reach_def
proof (induction rule: rtranclp_induct)
  case base
  show ?case using assms(2) len_gt_0 [where ?'a = 'k] by (intro race_inv_start) simp
next
  case (step s t)
  then show ?case using race_inv_step assms(2) by blast
qed

lemma lookup_leaf:
  assumes "heap_ok n h"
  shows "linked h a \<Longrightarrow> placed n k level a x \<Longrightarrow> heap_lookup level h a x = Some v \<Longrightarrow>
    \<exists>b y vs. linked h b \<and> placed n k 1 b y \<and> h b = Some (Slots vs) \<and> vs ! Index y = Some v"
proof (induction level arbitrary: a x)
  case 0
  then show ?case by (simp add: placed_def)
next
  case (Suc level)
  obtain c where c: "h a = Some c" "cell_ok n h a c" by (rule linked_cell [OF assms Suc.prems(1)])
  show ?case
  proof (cases c)
    case (Slots vs)
    then have "Suc level = 1" using level_slots [OF assms Suc.prems(2)] c(1) by simp
    then show ?thesis using Suc.prems c(1) Slots by (auto simp: heap_lookup.simps)
  next
    case (Inner bs)
    then have h: "h a = Some (Inner bs)" using c(1) by simp
    from Suc.prems(3) obtain b where b: "bs ! Index x = Some b"
      "heap_lookup level h b (drop_bit 4 x) = Some v"
      by (auto simp: heap_lookup.simps [of "Suc level"] h split: option.splits)
    have lv: "2 \<le> Suc level" using level_inner [OF assms Suc.prems(2) h] .
    obtain j where "b = a @ [(Index x, j)]" using linked_inner(1) [OF assms h b(1) Suc.prems(1)] by blast
    then have "placed n k level b (drop_bit 4 x)" using placed_child [OF Suc.prems(2) lv, of j] by simp
    from Suc.IH [OF linked_inner(2) [OF assms h b(1) Suc.prems(1)] this b(2)] show ?thesis .
  qed
qed

subsection \<open>Properties\<close>

text \<open>C14: Concurrent insertion has one winner, in every execution in which no thread reads a node it
  has deleted. However insertions of any keys are interleaved, at every moment of such an execution
  the map holds exactly the values of the threads whose \<open>insert\<close> returned true, under their keys;
  and for the key of a thread that has returned, true or false, exactly one thread has returned
  true. Executions with such a read exist (two threads that add the same inner bucket:
  \<open>insert_race_loser_uses_deleted\<close>); what follows it is undefined behaviour, and nothing is
  claimed of it.\<close>

theorem concurrent_insert_one_winner:
  fixes jobs :: "('k::len word \<times> 'v) list"
  assumes "LENGTH('k) = 4 * n" and "race_reach n jobs (h, pcs)" and "\<not> undefined_read pcs"
  shows "(\<forall>k v. heap_lookup n h [] k = Some v \<longleftrightarrow>
      (\<exists>i < length jobs. jobs ! i = (k, v) \<and> pcs ! i = Returned True)) \<and>
    (\<forall>i < length jobs. \<forall>b. pcs ! i = Returned b \<longrightarrow>
      (\<exists>!j. j < length jobs \<and> fst (jobs ! j) = fst (jobs ! i) \<and> pcs ! j = Returned True))"
proof -
  have inv: "race_ok n jobs h pcs" "stored_by n jobs h pcs" "one_winner jobs pcs"
    using race_reach_inv [OF assms(2,1)] by (simp_all add: race_inv_def)
  have hok: "heap_ok n h" using inv(1) by (simp add: race_ok_def)
  have n: "0 < n" using assms(1) len_gt_0 [where ?'a = 'k] by simp
  have found: "\<exists>i < length jobs. jobs ! i = (k, v) \<and> pcs ! i = Returned True"
    if f: "heap_lookup n h [] k = Some v" for k v
  proof -
    obtain b y vs where b: "placed n k 1 b y" "h b = Some (Slots vs)" "vs ! Index y = Some v"
      using lookup_leaf [OF hok linked.root placed_start [OF n] f] by blast
    obtain j where j: "j < length jobs" "pcs ! j = Returned True" "snd (jobs ! j) = v"
      "nibbles n (fst (jobs ! j)) = map fst b @ [Index y]"
      using inv(2) b(2,3) Index_less [of y] unfolding stored_by_def by blast
    then have "fst (jobs ! j) = k"
      using placed_leaf [OF b(1)] nibbles_inject [OF assms(1)] by metis
    then show ?thesis using j by (metis prod.collapse)
  qed
  have thread: "if b then heap_lookup n h [] (fst (jobs ! i)) = Some (snd (jobs ! i))
      else heap_lookup n h [] (fst (jobs ! i)) \<noteq> None"
    if "i < length jobs" "pcs ! i = Returned b" for i b
    using inv(1) that unfolding race_ok_def thread_ok_def by fastforce
  show ?thesis
  proof (intro conjI allI impI iffI)
    fix k v assume "\<exists>i < length jobs. jobs ! i = (k, v) \<and> pcs ! i = Returned True"
    then show "heap_lookup n h [] k = Some v" using thread by fastforce
  next
    fix i b assume i: "i < length jobs" "pcs ! i = Returned b"
    then obtain v where "heap_lookup n h [] (fst (jobs ! i)) = Some v"
      using thread by (cases b) fastforce+
    then obtain j where "j < length jobs" "jobs ! j = (fst (jobs ! i), v)" "pcs ! j = Returned True"
      using found by blast
    then show "\<exists>!j. j < length jobs \<and> fst (jobs ! j) = fst (jobs ! i) \<and> pcs ! j = Returned True"
      using inv(3) unfolding one_winner_def by (intro ex1I [of _ j]) auto
  qed (rule found)
qed

definition same_key_jobs :: "(8 word \<times> string) list" where
  "same_key_jobs = [(0x21, ''first''), (0x21, ''second'')]"

theorem concurrent_insert_one_winner_witness:
  "race_reach 2 same_key_jobs (race_run same_key_jobs [0, 0, 0, 1, 1, 1, 0] (race_start 2 same_key_jobs)) \<and>
   snd (race_run same_key_jobs [0, 0, 0, 1, 1, 1, 0] (race_start 2 same_key_jobs)) =
     [Returned False, Returned True] \<and>
   heap_lookup 2 (fst (race_run same_key_jobs [0, 0, 0, 1, 1, 1, 0] (race_start 2 same_key_jobs))) [] (0x21 :: 8 word) =
     Some ''second''"
proof -
  let ?s = "race_run same_key_jobs [0, 0, 0, 1, 1, 1, 0] (race_start 2 same_key_jobs)"
  obtain h pcs where s: "?s = (h, pcs)" by force
  have r: "race_reach 2 same_key_jobs (h, pcs)" using race_run_reach s by metis
  have "snd ?s = [Returned False, Returned True]" by code_simp
  then have p: "pcs = [Returned False, Returned True]" unfolding s by simp
  have "LENGTH(8) = 4 * 2" by simp
  moreover have "\<not> undefined_read pcs" by (simp add: p undefined_read_def)
  ultimately have w: "heap_lookup 2 h [] k = Some v \<longleftrightarrow>
      (\<exists>i < length same_key_jobs. same_key_jobs ! i = (k, v) \<and> pcs ! i = Returned True)" for k v
    using concurrent_insert_one_winner [OF _ r] by blast
  have "\<exists>i < length same_key_jobs. same_key_jobs ! i = (0x21, ''second'') \<and> pcs ! i = Returned True"
    by (rule exI [of _ 1]) (simp add: same_key_jobs_def p)
  with w [of "0x21" "''second''"] have "heap_lookup 2 h [] (0x21 :: 8 word) = Some ''second''" by (rule iffD2)
  then show ?thesis using r p unfolding s by simp
qed

text \<open>A loser: a thread at the exchange of a bucket that another thread has filled.\<close>

definition loses_bucket :: "nat \<Rightarrow> 'v heap \<times> 'k::len word pc list \<Rightarrow> bool" where
  "loses_bucket i s \<longleftrightarrow>
     (case snd s ! i of
        Exchange level a x c \<Rightarrow>
          (case fst s a of Some (Inner bs) \<Rightarrow> bs ! Index x \<noteq> None | _ \<Rightarrow> False)
      | _ \<Rightarrow> False)"

text \<open>What becomes of it: it stands at the node it deleted, or has read it.\<close>

definition uses_deleted :: "nat \<Rightarrow> 'v heap \<times> 'k::len word pc list \<Rightarrow> bool" where
  "uses_deleted i s \<longleftrightarrow>
     (case snd s ! i of Enter level a x \<Rightarrow> lost i (fst s) a | Dangling \<Rightarrow> True | _ \<Rightarrow> False)"

lemma uses_deleted_step:
  assumes "race_step jobs s t" and "race_inv n jobs s" and "uses_deleted i s" and "i < length (snd s)"
  shows "uses_deleted i t"
  using assms(1)
proof cases
  case (1 pcs j h h' p')
  have ok: "race_ok n jobs h pcs" using assms(2) 1(1) by (simp add: race_inv_def)
  show ?thesis
  proof (cases "j = i")
    case True
    then show ?thesis
      using assms(3,4) 1 by (auto simp: uses_deleted_def lost_def split: pc.splits)
  next
    case False
    have "h' a = h a" if l: "lost i h a" for a
    proof -
      have "\<not> linked h a" using l linked_live [of n h a] ok by (auto simp: lost_def race_ok_def)
      then show ?thesis
        using l race_ok_step(2) [OF ok 1(4,6)] False unfolding heap_step_def lost_def by blast
    qed
    then show ?thesis
      using assms(3) 1 False by (auto simp: uses_deleted_def lost_def split: pc.splits)
  qed
qed

text \<open>The loser of a race for a bucket is lost. A thread whose exchange of an inner bucket
  fails deletes the node it made and goes on with it: from its next step on, whatever the other
  threads do, it stands at the deleted node or has read it. Its next access is undefined
  behaviour, and it has no other way to go on.\<close>

theorem insert_race_loser_uses_deleted:
  fixes jobs :: "('k::len word \<times> 'v) list"
  assumes "LENGTH('k) = 4 * n" and "race_reach n jobs (h, pcs)"
    and "i < length jobs" and "loses_bucket i (h, pcs)" and "\<not> undefined_read pcs"
    and "(race_step jobs)\<^sup>*\<^sup>* (race_run jobs [i] (h, pcs)) t"
  shows "uses_deleted i t"
proof -
  note nr = assms(5)
  have inv: "race_inv n jobs (h, pcs)" using race_reach_inv [OF assms(2,1)] .
  then have ok: "thread_ok n (jobs ! i) h i (pcs ! i)" and len: "length pcs = length jobs"
    using assms(3) by (auto simp: race_inv_def race_ok_def)
  define s where "s = race_run jobs [i] (h, pcs)"
  obtain level a x c bs where p: "pcs ! i = Exchange level a x c" "h a = Some (Inner bs)"
    "bs ! Index x \<noteq> None"
    using assms(4) by (auto simp: loses_bucket_def split: pc.splits option.splits cell.splits)
  have s: "s = (h(c := None), pcs[i := Enter (level - 1) c (drop_bit 4 x)])"
    using p assms(3) len nr by (auto simp: s_def)
  have u: "uses_deleted i s"
    using ok p(1) assms(3) len by (auto simp: s uses_deleted_def lost_def thread_ok_def)
  have "(race_step jobs)\<^sup>*\<^sup>* (h, pcs) s" unfolding s_def by (rule race_run_steps)
  then have "race_reach n jobs s" using assms(2) unfolding race_reach_def by simp
  then have "race_inv n jobs s" using race_reach_inv assms(1) by blast
  with assms(6) [folded s_def] u show ?thesis
  proof (induction rule: rtranclp_induct)
    case (step y z)
    have "race_inv n jobs y"
      using step.hyps(1) race_reach_inv assms(1) \<open>race_reach n jobs s\<close>
      unfolding race_reach_def by (metis rtranclp_trans)
    then have "i < length (snd y)" using assms(3) by (simp add: race_inv_def race_ok_def)
    then show ?case using uses_deleted_step [OF step.hyps(2) \<open>race_inv n jobs y\<close>] step by blast
  qed
qed

definition one_bucket_jobs :: "(8 word \<times> string) list" where
  "one_bucket_jobs = [(0x21, ''first''), (0x31, ''second'')]"

theorem insert_race_loser_uses_deleted_witness:
  "loses_bucket 1 (race_run one_bucket_jobs [0, 1, 0] (race_start 2 one_bucket_jobs)) \<and>
   uses_deleted 1 (race_run one_bucket_jobs [1] (race_run one_bucket_jobs [0, 1, 0] (race_start 2 one_bucket_jobs)))"
proof -
  let ?s = "race_run one_bucket_jobs [0, 1, 0] (race_start 2 one_bucket_jobs)"
  obtain h pcs where s: "?s = (h, pcs)" by force
  have r: "race_reach 2 one_bucket_jobs (h, pcs)" using race_run_reach s by metis
  have l: "loses_bucket 1 ?s" by code_simp
  have len: "LENGTH(8) = 4 * 2" "1 < length one_bucket_jobs" by (simp_all add: one_bucket_jobs_def)
  have "\<not> undefined_read (snd ?s)" by code_simp
  then have nr: "\<not> undefined_read pcs" unfolding s by simp
  show ?thesis
    using l insert_race_loser_uses_deleted [OF len(1) r len(2) _ nr] unfolding s by blast
qed

subsection \<open>Progress\<close>

text \<open>The atomic accesses a thread has left.\<close>

fun accesses_left :: "'k pc \<Rightarrow> nat" where
  "accesses_left (Enter level a x) = 2 * level"
| "accesses_left (Exchange level a x c) = 2 * level - 1"
| "accesses_left (Exchange_value a x) = 1"
| "accesses_left p = 0"

lemma advance_accesses:
  assumes "advance i v h p = (h', p')" and "running p" and "thread_ok n job h i p"
  shows "accesses_left p' < accesses_left p"
  using assms by (cases p) (auto simp: value_defs thread_ok_def placed_def Let_def
      split: option.splits cell.splits)

text \<open>Along a schedule a thread's accesses go down by one each time the thread is named, and no other
  thread's step changes them.\<close>

lemma race_run_stuck: "undefined_read pcs \<Longrightarrow> race_run jobs is (h, pcs) = (h, pcs)"
  by (induction "is") simp_all

lemma race_run_accesses:
  fixes jobs :: "('k::len word \<times> 'v) list"
  assumes "race_inv n jobs s" and "LENGTH('k) = 4 * n" and "i < length (snd s)"
  shows "undefined_read (snd (race_run jobs is s)) \<or>
    accesses_left (snd (race_run jobs is s) ! i) \<le> accesses_left (snd s ! i) - count_list is i"
  using assms
proof (induction jobs "is" s rule: race_run.induct)
  case (2 jobs j "is" h pcs)
  note IH1 = 2(1) and IH2 = 2(2) and inv = 2(3) and len = 2(4) and i = 2(5)
  show ?case
  proof (cases "\<not> undefined_read pcs \<and> j < length pcs \<and> running (pcs ! j)")
    case True
    obtain h' p' where a: "advance j (snd (jobs ! j)) h (pcs ! j) = (h', p')" by force
    have st: "race_step jobs (h, pcs) (h', pcs[j := p'])" using True a by (intro race_step.intros) simp_all
    have "thread_ok n (jobs ! j) h j (pcs ! j)"
      using inv True by (simp add: race_inv_def race_ok_def)
    from advance_accesses [OF a _ this] have less: "accesses_left p' < accesses_left (pcs ! j)" using True by simp
    have "undefined_read (snd (race_run jobs is (h', pcs[j := p']))) \<or>
      accesses_left (snd (race_run jobs is (h', pcs[j := p'])) ! i) \<le>
        accesses_left (pcs[j := p'] ! i) - count_list is i"
      using IH1 [OF True a [symmetric] refl race_inv_step [OF st inv len] len] i by simp
    then show ?thesis using True a less i by (cases "j = i") auto
  next
    case False
    then consider "undefined_read pcs" | "\<not> undefined_read pcs" "j = i" "accesses_left (pcs ! i) = 0"
      | "\<not> undefined_read pcs" "j \<noteq> i"
      using i by (cases "pcs ! j"; cases "j = i") auto
    then show ?thesis
    proof cases
      case 1
      then show ?thesis by (simp add: race_run_stuck)
    next
      case 2
      then show ?thesis using IH2 [OF False inv len i] False by auto
    next
      case 3
      then show ?thesis using IH2 [OF False inv len i] False by auto
    qed
  qed
qed simp

lemma no_accesses_left:
  "accesses_left p = 0 \<Longrightarrow> thread_ok n job h i p \<Longrightarrow> p = Dangling \<or> (\<exists>b. p = Returned b)"
  by (cases p) (auto simp: thread_ok_def placed_def)

text \<open>C15: Insertion is wait-free, unless the execution ends in undefined behaviour. Whatever the
  schedule, and however seldom or often the other threads move, a thread that has been given two
  moves per nibble of the key has returned, or some thread has read a node it had deleted. No thread
  ever needs another one to move. An insertion that loses the race for an inner bucket is one that
  does not return: it reads the node it deleted (\<open>insert_race_loser_uses_deleted\<close>).\<close>

theorem concurrent_insert_terminates:
  fixes jobs :: "('k::len word \<times> 'v) list"
  assumes "LENGTH('k) = 4 * n" and "race_run jobs is (race_start n jobs) = (h, pcs)"
    and "i < length jobs" and "2 * n \<le> count_list is i"
  shows "(\<exists>b. pcs ! i = Returned b) \<or> undefined_read pcs"
proof -
  have n: "0 < n" using assms(1) len_gt_0 [where ?'a = 'k] by simp
  have "race_reach n jobs (h, pcs)" using race_run_reach assms(2) by metis
  then have inv: "race_inv n jobs (h, pcs)" using assms(1) by (rule race_reach_inv)
  then have ok: "thread_ok n (jobs ! i) h i (pcs ! i)" and len: "length pcs = length jobs"
    using assms(3) by (auto simp: race_inv_def race_ok_def)
  have "accesses_left (snd (race_start n jobs) ! i) = 2 * n"
    using assms(3) by (simp add: race_start_def split_beta)
  moreover have "i < length (snd (race_start n jobs))" using assms(3) by (simp add: race_start_def)
  ultimately have "undefined_read pcs \<or> accesses_left (pcs ! i) = 0"
    using race_run_accesses [OF race_inv_start [OF n] assms(1), of i jobs "is"] assms(2,4) by simp
  then show ?thesis
    using no_accesses_left [OF _ ok] assms(3) len by (auto simp: undefined_read_def in_set_conv_nth)
qed

theorem concurrent_insert_terminates_witness:
  "(\<exists>b. snd (race_run same_key_jobs [0, 1, 0, 0, 1, 0] (race_start 2 same_key_jobs)) ! 0 = Returned b) \<and>
   running (snd (race_run same_key_jobs [0, 1, 0, 0, 1, 0] (race_start 2 same_key_jobs)) ! 1)"
proof -
  let ?s = "race_run same_key_jobs [0, 1, 0, 0, 1, 0] (race_start 2 same_key_jobs)"
  obtain h pcs where s: "?s = (h, pcs)" by force
  have u: "\<not> undefined_read (snd ?s) \<and> running (snd ?s ! 1)" by code_simp
  have n: "LENGTH(8) = 4 * 2" "0 < length same_key_jobs" "2 * 2 \<le> count_list [0, 1, 0, 0, 1, 0::nat] 0"
    by (simp_all add: same_key_jobs_def)
  show ?thesis using concurrent_insert_terminates [OF n(1) s n(2,3)] u unfolding s by simp
qed

end
