(* ===== verification/Btree.thy ===== *)
theory Btree
  imports Prelude "HOL-Library.Monad_Syntax"
begin

text \<open>
  The on-disk B+ tree of \<open>btree.hpp\<close>: pages, allocation, search, insertion, erasure, iteration.

  Pages are those of the mapped file; the page cache hands out views of them, so reading page
  \<open>i\<close> through the cache is reading page \<open>i\<close> of the file (\<open>Page_Cache\<close>). The header, page 0, is a
  field of its own. The state of the mapped file and its \<open>append\<close> are parameters. The arrays of
  a page are functions off indices, of which the first \<open>count\<close> places mean something; a page
  taken off the allocator has unspecified contents.

  An operation is \<open>None\<close> when it takes a page for one of another type. Recursions down the tree
  carry a bound on the depth, which the operations take off the header's height.
\<close>

subsection \<open>Pages\<close>

record ('k, 'v) leaf_page =
  leaf_count :: nat
  next_page :: nat
  prev_page :: nat
  records :: "nat \<Rightarrow> 'k \<times> 'v"

record 'k branch_page =
  branch_count :: nat
  seps :: "nat \<Rightarrow> 'k"
  children :: "nat \<Rightarrow> nat"

datatype ('k, 'v) page =
    Free_page nat
  | Leaf_page "('k, 'v) leaf_page"
  | Branch_page "'k branch_page"

record file_header =
  root_page :: nat
  first_leaf :: nat
  elem_count :: nat
  height :: nat
  free_list_head :: nat
  free_list_count :: nat

record ('k, 'v, 'f) btree =
  header :: file_header
  pages :: "nat \<Rightarrow> ('k, 'v) page"
  disk :: 'f

definition new_header :: file_header where
  "new_header = \<lparr>root_page = 0, first_leaf = 0, elem_count = 0, height = 0, free_list_head = 0,
     free_list_count = 0\<rparr>"

definition get_leaf :: "nat \<Rightarrow> ('k, 'v, 'f) btree \<Rightarrow> ('k, 'v) leaf_page option" where
  "get_leaf idx b = (case pages b idx of Leaf_page l \<Rightarrow> Some l | _ \<Rightarrow> None)"

definition get_branch :: "nat \<Rightarrow> ('k, 'v, 'f) btree \<Rightarrow> 'k branch_page option" where
  "get_branch idx b = (case pages b idx of Branch_page p \<Rightarrow> Some p | _ \<Rightarrow> None)"

definition put_page :: "nat \<Rightarrow> ('k, 'v) page \<Rightarrow> ('k, 'v, 'f) btree \<Rightarrow> ('k, 'v, 'f) btree" where
  "put_page idx p b = b\<lparr>pages := (pages b)(idx := p)\<rparr>"

definition put_header :: "(file_header \<Rightarrow> file_header) \<Rightarrow> ('k, 'v, 'f) btree \<Rightarrow> ('k, 'v, 'f) btree" where
  "put_header f b = b\<lparr>header := f (header b)\<rparr>"

definition update_leaf ::
  "nat \<Rightarrow> (('k, 'v) leaf_page \<Rightarrow> ('k, 'v) leaf_page) \<Rightarrow> ('k, 'v, 'f) btree \<Rightarrow> ('k, 'v, 'f) btree option" where
  "update_leaf idx f b =
     (case get_leaf idx b of None \<Rightarrow> None | Some l \<Rightarrow> Some (put_page idx (Leaf_page (f l)) b))"

subsection \<open>Allocation\<close>

text \<open>\<open>allocate_raw\<close>: the head of the free list when there is one, a new page of the file
  otherwise.\<close>

definition allocate_raw ::
  "('f \<Rightarrow> nat \<times> 'f) \<Rightarrow> ('k, 'v, 'f) btree \<Rightarrow> (nat \<times> ('k, 'v, 'f) btree) option" where
  "allocate_raw grow b =
     (if free_list_head (header b) \<noteq> 0 then
        (let idx = free_list_head (header b) in
         case pages b idx of
           Free_page nxt \<Rightarrow>
             Some (idx, put_header (\<lambda>h. h\<lparr>free_list_head := nxt,
                                          free_list_count := free_list_count h - 1\<rparr>) b)
         | _ \<Rightarrow> None)
      else (let (idx, f) = grow (disk b) in Some (idx, b\<lparr>disk := f\<rparr>)))"

definition new_leaf ::
  "('f \<Rightarrow> nat \<times> 'f) \<Rightarrow> ('k, 'v, 'f) btree \<Rightarrow> (nat \<times> ('k, 'v, 'f) btree) option" where
  "new_leaf grow b =
     do {
       (idx, b) \<leftarrow> allocate_raw grow b;
       Some (idx, put_page idx
         (Leaf_page \<lparr>leaf_count = 0, next_page = 0, prev_page = 0, records = (\<lambda>_. undefined)\<rparr>) b)
     }"

definition new_branch ::
  "('f \<Rightarrow> nat \<times> 'f) \<Rightarrow> ('k, 'v, 'f) btree \<Rightarrow> (nat \<times> ('k, 'v, 'f) btree) option" where
  "new_branch grow b =
     do {
       (idx, b) \<leftarrow> allocate_raw grow b;
       Some (idx, put_page idx
         (Branch_page \<lparr>branch_count = 0, seps = (\<lambda>_. undefined), children = (\<lambda>_. undefined)\<rparr>) b)
     }"

definition free_page_at :: "nat \<Rightarrow> ('k, 'v, 'f) btree \<Rightarrow> ('k, 'v, 'f) btree" where
  "free_page_at idx b =
     put_header (\<lambda>h. h\<lparr>free_list_head := idx, free_list_count := free_list_count h + 1\<rparr>)
       (put_page idx (Free_page (free_list_head (header b))) b)"

subsection \<open>Search\<close>

text \<open>The binary searches over the first places of an array.\<close>

function lower_bound :: "(nat \<Rightarrow> 'k::linorder) \<Rightarrow> 'k \<Rightarrow> nat \<Rightarrow> nat \<Rightarrow> nat" where
  "lower_bound a key lo hi =
     (if lo < hi
      then (let mid = lo + (hi - lo) div 2 in
            if a mid < key then lower_bound a key (mid + 1) hi else lower_bound a key lo mid)
      else lo)"
  by auto
termination by (relation "measure (\<lambda>(_, _, lo, hi). hi - lo)") auto

function upper_bound :: "(nat \<Rightarrow> 'k::linorder) \<Rightarrow> 'k \<Rightarrow> nat \<Rightarrow> nat \<Rightarrow> nat" where
  "upper_bound a key lo hi =
     (if lo < hi
      then (let mid = lo + (hi - lo) div 2 in
            if key < a mid then upper_bound a key lo mid else upper_bound a key (mid + 1) hi)
      else lo)"
  by auto
termination by (relation "measure (\<lambda>(_, _, lo, hi). hi - lo)") auto

declare lower_bound.simps [simp del] upper_bound.simps [simp del]

definition lower_bound_leaf :: "('k::linorder, 'v) leaf_page \<Rightarrow> 'k \<Rightarrow> nat" where
  "lower_bound_leaf oLeaf key = lower_bound (\<lambda>i. fst (records oLeaf i)) key 0 (leaf_count oLeaf)"

definition child_index :: "'k::linorder branch_page \<Rightarrow> 'k \<Rightarrow> nat" where
  "child_index oBranch key = upper_bound (seps oBranch) key 0 (branch_count oBranch)"

text \<open>\<open>find_leaf\<close>: the loop down off the root.\<close>

primrec descend :: "nat \<Rightarrow> 'k::linorder \<Rightarrow> nat \<Rightarrow> ('k, 'v, 'f) btree \<Rightarrow> nat option" where
  "descend 0 key node b = None"
| "descend (Suc depth) key node b =
     (case pages b node of
        Branch_page oBranch \<Rightarrow>
          (if node = 0 then Some node
           else descend depth key (children oBranch (child_index oBranch key)) b)
      | _ \<Rightarrow> Some node)"

definition find_leaf :: "'k::linorder \<Rightarrow> ('k, 'v, 'f) btree \<Rightarrow> nat option" where
  "find_leaf key b = descend (Suc (height (header b))) key (root_page (header b)) b"

text \<open>The position of a key in a leaf, when it is there.\<close>

definition at_key :: "('k::linorder, 'v) leaf_page \<Rightarrow> nat \<Rightarrow> 'k \<Rightarrow> bool" where
  "at_key oLeaf pos key \<longleftrightarrow> pos < leaf_count oLeaf \<and> fst (records oLeaf pos) = key"

subsection \<open>Insertion\<close>

record 'k insert_result =
  inserted :: bool
  was_split :: bool
  promo_key :: 'k
  right_idx :: nat

text \<open>The loops that move the places off \<open>pos\<close> on one up, or those after \<open>pos\<close> one down, and the
  loop that copies places of one array to the beginning of another.\<close>

fun shift_up :: "nat \<Rightarrow> nat \<Rightarrow> (nat \<Rightarrow> 'a) \<Rightarrow> (nat \<Rightarrow> 'a)" where
  "shift_up pos 0 a = a"
| "shift_up pos (Suc i) a = (if Suc i > pos then shift_up pos i (a(Suc i := a i)) else a)"

function shift_down :: "nat \<Rightarrow> nat \<Rightarrow> (nat \<Rightarrow> 'a) \<Rightarrow> (nat \<Rightarrow> 'a)" where
  "shift_down i n a = (if i < n then shift_down (i + 1) n (a(i := a (i + 1))) else a)"
  by auto
termination by (relation "measure (\<lambda>(i, n, _). n - i)") auto

declare shift_down.simps [simp del]

fun copy_places :: "nat \<Rightarrow> nat \<Rightarrow> (nat \<Rightarrow> 'a) \<Rightarrow> (nat \<Rightarrow> 'a) \<Rightarrow> (nat \<Rightarrow> 'a)" where
  "copy_places 0 off src dst = dst"
| "copy_places (Suc n) off src dst = (copy_places n off src dst)(n := src (off + n))"

definition leaf_insert_at ::
  "('k, 'v) leaf_page \<Rightarrow> nat \<Rightarrow> 'k \<Rightarrow> 'v \<Rightarrow> ('k, 'v) leaf_page" where
  "leaf_insert_at oLeaf pos key val =
     oLeaf\<lparr>records := (shift_up pos (leaf_count oLeaf) (records oLeaf))(pos := (key, val)),
           leaf_count := leaf_count oLeaf + 1\<rparr>"

definition insert_leaf ::
  "nat \<Rightarrow> ('f \<Rightarrow> nat \<times> 'f) \<Rightarrow> nat \<Rightarrow> 'k::linorder \<Rightarrow> 'v \<Rightarrow> ('k, 'v, 'f) btree \<Rightarrow>
   ('k insert_result \<times> ('k, 'v, 'f) btree) option" where
  "insert_leaf order grow idx key val b =
     do {
       oLeaf \<leftarrow> get_leaf idx b;
       let pos = lower_bound_leaf oLeaf key;
       if at_key oLeaf pos key
       then Some (\<lparr>inserted = False, was_split = False, promo_key = key, right_idx = 0\<rparr>, b)
       else if leaf_count oLeaf < order
       then Some (\<lparr>inserted = True, was_split = False, promo_key = key, right_idx = 0\<rparr>,
                  put_page idx (Leaf_page (leaf_insert_at oLeaf pos key val)) b)
       else do {
         (ridx, b) \<leftarrow> new_leaf grow b;
         oRight \<leftarrow> get_leaf ridx b;
         oLeaf \<leftarrow> get_leaf idx b;
         let mid = order div 2;
         let oRight = oRight\<lparr>leaf_count := order - mid,
                            records := copy_places (order - mid) mid (records oLeaf) (records oRight),
                            next_page := next_page oLeaf, prev_page := idx\<rparr>;
         let oLeaf = oLeaf\<lparr>leaf_count := mid, next_page := ridx\<rparr>;
         let b = put_page idx (Leaf_page oLeaf) (put_page ridx (Leaf_page oRight) b);
         b \<leftarrow> (if next_page oRight \<noteq> 0
              then update_leaf (next_page oRight) (\<lambda>oAfter. oAfter\<lparr>prev_page := ridx\<rparr>) b else Some b);
         oLeaf \<leftarrow> get_leaf idx b;
         oRight \<leftarrow> get_leaf ridx b;
         let b = (if key < fst (records oRight 0)
                  then put_page idx (Leaf_page (leaf_insert_at oLeaf (lower_bound_leaf oLeaf key) key val)) b
                  else put_page ridx (Leaf_page (leaf_insert_at oRight (lower_bound_leaf oRight key) key val)) b);
         oRight \<leftarrow> get_leaf ridx b;
         Some (\<lparr>inserted = True, was_split = True, promo_key = fst (records oRight 0), right_idx = ridx\<rparr>, b)
       }
     }"

definition branch_insert_at :: "'k branch_page \<Rightarrow> nat \<Rightarrow> 'k \<Rightarrow> nat \<Rightarrow> 'k branch_page" where
  "branch_insert_at oBranch at sep right_child =
     oBranch\<lparr>seps := (shift_up at (branch_count oBranch) (seps oBranch))(at := sep),
             children := (shift_up (at + 1) (branch_count oBranch + 1) (children oBranch))(at + 1 := right_child),
             branch_count := branch_count oBranch + 1\<rparr>"

text \<open>The part of \<open>insert_branch\<close> after the recursive call has split the child \<open>ci\<close>.\<close>

definition insert_split_child ::
  "nat \<Rightarrow> ('f \<Rightarrow> nat \<times> 'f) \<Rightarrow> nat \<Rightarrow> 'k::linorder \<Rightarrow> nat \<Rightarrow> 'k insert_result \<Rightarrow> ('k, 'v, 'f) btree \<Rightarrow>
   ('k insert_result \<times> ('k, 'v, 'f) btree) option" where
  "insert_split_child order grow idx key ci res b =
     do {
       oBranch \<leftarrow> get_branch idx b;
       if branch_count oBranch < order
       then Some (\<lparr>inserted = inserted res, was_split = False, promo_key = key, right_idx = 0\<rparr>,
                  put_page idx (Branch_page (branch_insert_at oBranch ci (promo_key res) (right_idx res))) b)
       else do {
         let tkeys = copy_places (branch_count oBranch) 0 (seps oBranch) (\<lambda>_. undefined);
         let tchildren = copy_places (branch_count oBranch + 1) 0 (children oBranch) (\<lambda>_. undefined);
         let tkeys = (shift_up ci (branch_count oBranch) tkeys)(ci := promo_key res);
         let tchildren = (shift_up (ci + 1) (branch_count oBranch + 1) tchildren)(ci + 1 := right_idx res);
         let total = order + 1;
         let mid = total div 2;
         let promo = tkeys mid;
         let oBranch = oBranch\<lparr>branch_count := mid,
                              seps := copy_places mid 0 tkeys (seps oBranch),
                              children := copy_places (mid + 1) 0 tchildren (children oBranch)\<rparr>;
         let b = put_page idx (Branch_page oBranch) b;
         (ridx, b) \<leftarrow> new_branch grow b;
         oRight \<leftarrow> get_branch ridx b;
         let n = total - mid - 1;
         let oRight = oRight\<lparr>branch_count := n,
                            seps := copy_places n (mid + 1) tkeys (seps oRight),
                            children := copy_places (n + 1) (mid + 1) tchildren (children oRight)\<rparr>;
         Some (\<lparr>inserted = inserted res, was_split = True, promo_key = promo, right_idx = ridx\<rparr>,
               put_page ridx (Branch_page oRight) b)
       }
     }"

definition insert_branch ::
  "(nat \<Rightarrow> 'k::linorder \<Rightarrow> 'v \<Rightarrow> ('k, 'v, 'f) btree \<Rightarrow> ('k insert_result \<times> ('k, 'v, 'f) btree) option) \<Rightarrow>
   nat \<Rightarrow> ('f \<Rightarrow> nat \<times> 'f) \<Rightarrow> nat \<Rightarrow> 'k \<Rightarrow> 'v \<Rightarrow> ('k, 'v, 'f) btree \<Rightarrow>
   ('k insert_result \<times> ('k, 'v, 'f) btree) option" where
  "insert_branch insert_child order grow idx key val b =
     do {
       oBranch \<leftarrow> get_branch idx b;
       let ci = child_index oBranch key;
       (res, b) \<leftarrow> insert_child (children oBranch ci) key val b;
       if \<not> was_split res then Some (res, b) else insert_split_child order grow idx key ci res b
     }"

primrec insert_rec ::
  "nat \<Rightarrow> nat \<Rightarrow> ('f \<Rightarrow> nat \<times> 'f) \<Rightarrow> nat \<Rightarrow> 'k::linorder \<Rightarrow> 'v \<Rightarrow> ('k, 'v, 'f) btree \<Rightarrow>
   ('k insert_result \<times> ('k, 'v, 'f) btree) option" where
  "insert_rec 0 order grow idx key val b = None"
| "insert_rec (Suc depth) order grow idx key val b =
     (case pages b idx of
        Leaf_page _ \<Rightarrow> insert_leaf order grow idx key val b
      | _ \<Rightarrow> insert_branch (insert_rec depth order grow) order grow idx key val b)"

definition bt_insert ::
  "nat \<Rightarrow> ('f \<Rightarrow> nat \<times> 'f) \<Rightarrow> 'k::linorder \<Rightarrow> 'v \<Rightarrow> ('k, 'v, 'f) btree \<Rightarrow> (bool \<times> ('k, 'v, 'f) btree) option" where
  "bt_insert order grow key val b =
     (if root_page (header b) = 0 then do {
        (lidx, b) \<leftarrow> new_leaf grow b;
        b \<leftarrow> update_leaf lidx (\<lambda>l. l\<lparr>records := (records l)(0 := (key, val)), leaf_count := 1\<rparr>) b;
        Some (True, put_header (\<lambda>h. h\<lparr>root_page := lidx, first_leaf := lidx, height := 1, elem_count := 1\<rparr>) b)
      } else do {
        (res, b) \<leftarrow> insert_rec (Suc (height (header b))) order grow (root_page (header b)) key val b;
        b \<leftarrow> (if was_split res then do {
               (nr, b) \<leftarrow> new_branch grow b;
               oRoot \<leftarrow> get_branch nr b;
               let oRoot = oRoot\<lparr>branch_count := 1, seps := (seps oRoot)(0 := promo_key res),
                                children := (children oRoot)(0 := root_page (header b), 1 := right_idx res)\<rparr>;
               Some (put_header (\<lambda>h. h\<lparr>root_page := nr, height := height h + 1\<rparr>)
                 (put_page nr (Branch_page oRoot) b))
             } else Some b);
        if inserted res
        then Some (True, put_header (\<lambda>h. h\<lparr>elem_count := elem_count h + 1\<rparr>) b)
        else Some (False, b)
      })"

subsection \<open>Erasure\<close>

definition unlink_leaf :: "nat \<Rightarrow> ('k, 'v, 'f) btree \<Rightarrow> ('k, 'v, 'f) btree option" where
  "unlink_leaf cidx b =
     do {
       oLeaf \<leftarrow> get_leaf cidx b;
       let p = prev_page oLeaf;
       let n = next_page oLeaf;
       b \<leftarrow> (if p \<noteq> 0 then update_leaf p (\<lambda>l. l\<lparr>next_page := n\<rparr>) b else Some b);
       b \<leftarrow> (if n \<noteq> 0 then update_leaf n (\<lambda>l. l\<lparr>prev_page := p\<rparr>) b else Some b);
       Some (if first_leaf (header b) = cidx then put_header (\<lambda>h. h\<lparr>first_leaf := n\<rparr>) b else b)
     }"

definition drop_child :: "'k branch_page \<Rightarrow> nat \<Rightarrow> 'k branch_page" where
  "drop_child oBranch ci =
     (let cnt = branch_count oBranch in
      if ci = cnt then (if cnt > 0 then oBranch\<lparr>branch_count := cnt - 1\<rparr> else oBranch)
      else oBranch\<lparr>children := shift_down ci cnt (children oBranch),
                   seps := shift_down ci (cnt - 1) (seps oBranch),
                   branch_count := cnt - 1\<rparr>)"

definition remove_child :: "nat \<Rightarrow> nat \<Rightarrow> ('k, 'v, 'f) btree \<Rightarrow> ('k, 'v, 'f) btree option" where
  "remove_child bidx ci b =
     do {
       oBranch \<leftarrow> get_branch bidx b;
       let cidx = children oBranch ci;
       b \<leftarrow> (case pages b cidx of Leaf_page _ \<Rightarrow> unlink_leaf cidx b | _ \<Rightarrow> Some b);
       let b = free_page_at cidx b;
       oBranch \<leftarrow> get_branch bidx b;
       Some (put_page bidx (Branch_page (drop_child oBranch ci)) b)
     }"

record erase_result =
  erased :: bool
  child_empty :: bool

primrec erase_rec ::
  "nat \<Rightarrow> nat \<Rightarrow> 'k::linorder \<Rightarrow> ('k, 'v, 'f) btree \<Rightarrow> (erase_result \<times> ('k, 'v, 'f) btree) option" where
  "erase_rec 0 idx key b = None"
| "erase_rec (Suc depth) idx key b =
     (case pages b idx of
        Leaf_page oLeaf \<Rightarrow>
          (let pos = lower_bound_leaf oLeaf key in
           if \<not> at_key oLeaf pos key then Some (\<lparr>erased = False, child_empty = False\<rparr>, b)
           else (let n = leaf_count oLeaf - 1;
                     oLeaf = oLeaf\<lparr>records := shift_down pos n (records oLeaf), leaf_count := n\<rparr>
                 in Some (\<lparr>erased = True, child_empty = (n = 0)\<rparr>, put_page idx (Leaf_page oLeaf) b)))
      | _ \<Rightarrow>
          do {
            oBranch \<leftarrow> get_branch idx b;
            let ci = child_index oBranch key;
            (res, b) \<leftarrow> erase_rec depth (children oBranch ci) key b;
            if \<not> erased res then Some (\<lparr>erased = False, child_empty = False\<rparr>, b)
            else if child_empty res then do {
              oBranch \<leftarrow> get_branch idx b;
              let becomes_empty = (branch_count oBranch = 0);
              b \<leftarrow> remove_child idx ci b;
              Some (\<lparr>erased = True, child_empty = becomes_empty\<rparr>, b)
            } else Some (\<lparr>erased = True, child_empty = False\<rparr>, b)
          })"

text \<open>The loop that removes single-child branches at the root.\<close>

primrec collapse_root :: "nat \<Rightarrow> ('k, 'v, 'f) btree \<Rightarrow> ('k, 'v, 'f) btree option" where
  "collapse_root 0 b = None"
| "collapse_root (Suc depth) b =
     (let old = root_page (header b) in
      if old = 0 then Some b
      else (case pages b old of
              Branch_page oRoot \<Rightarrow>
                (if branch_count oRoot \<noteq> 0 then Some b
                 else collapse_root depth
                   (free_page_at old (put_header (\<lambda>h. h\<lparr>root_page := children oRoot 0, height := height h - 1\<rparr>) b)))
            | _ \<Rightarrow> Some b))"

definition bt_erase :: "'k::linorder \<Rightarrow> ('k, 'v, 'f) btree \<Rightarrow> (nat \<times> ('k, 'v, 'f) btree) option" where
  "bt_erase key b =
     (if root_page (header b) = 0 then Some (0, b)
      else do {
        (res, b) \<leftarrow> erase_rec (Suc (height (header b))) (root_page (header b)) key b;
        if \<not> erased res then Some (0, b)
        else do {
          let b = put_header (\<lambda>h. h\<lparr>elem_count := elem_count h - 1\<rparr>) b;
          if child_empty res
          then Some (1, put_header (\<lambda>h. h\<lparr>root_page := 0, first_leaf := 0, height := 0\<rparr>)
                          (free_page_at (root_page (header b)) b))
          else do {
            b \<leftarrow> collapse_root (Suc (height (header b))) b;
            Some (1, b)
          }
        }
      })"

text \<open>\<open>free_subtree\<close> and \<open>clear\<close>.\<close>

primrec free_subtree :: "nat \<Rightarrow> nat \<Rightarrow> ('k, 'v, 'f) btree \<Rightarrow> ('k, 'v, 'f) btree option" where
  "free_subtree 0 idx b = None"
| "free_subtree (Suc depth) idx b =
     do {
       b \<leftarrow> (case pages b idx of
              Branch_page oBranch \<Rightarrow>
                foldl (\<lambda>r kid. do { b \<leftarrow> r; free_subtree depth kid b }) (Some b)
                  (map (children oBranch) [0..<branch_count oBranch + 1])
            | _ \<Rightarrow> Some b);
       Some (free_page_at idx b)
     }"

definition bt_clear :: "('k, 'v, 'f) btree \<Rightarrow> ('k, 'v, 'f) btree option" where
  "bt_clear b =
     do {
       b \<leftarrow> (if root_page (header b) \<noteq> 0
            then free_subtree (Suc (height (header b))) (root_page (header b)) b else Some b);
       Some (put_header (\<lambda>h. h\<lparr>root_page := 0, first_leaf := 0, elem_count := 0, height := 0\<rparr>) b)
     }"

subsection \<open>Lookup\<close>

text \<open>\<open>find\<close>: the leaf and the position of a key; the outer \<open>None\<close> is a wrong page, the inner one
  \<open>end()\<close>.\<close>

definition bt_find :: "'k::linorder \<Rightarrow> ('k, 'v, 'f) btree \<Rightarrow> (nat \<times> nat) option option" where
  "bt_find key b =
     do {
       leaf \<leftarrow> find_leaf key b;
       if leaf = 0 then Some None
       else do {
         oLeaf \<leftarrow> get_leaf leaf b;
         let pos = lower_bound_leaf oLeaf key;
         Some (if at_key oLeaf pos key then Some (leaf, pos) else None)
       }
     }"

definition bt_contains :: "'k::linorder \<Rightarrow> ('k, 'v, 'f) btree \<Rightarrow> bool option" where
  "bt_contains key b = do { r \<leftarrow> bt_find key b; Some (r \<noteq> None) }"

text \<open>\<open>find_value\<close>; \<open>at\<close> throws \<open>std::out_of_range\<close> where it gives \<open>None\<close>.\<close>

definition find_value :: "'k::linorder \<Rightarrow> ('k, 'v, 'f) btree \<Rightarrow> 'v option option" where
  "find_value key b =
     do {
       leaf \<leftarrow> find_leaf key b;
       if leaf = 0 then Some None
       else do {
         oLeaf \<leftarrow> get_leaf leaf b;
         let pos = lower_bound_leaf oLeaf key;
         Some (if at_key oLeaf pos key then Some (snd (records oLeaf pos)) else None)
       }
     }"

datatype 'a or_throw = Value 'a | Out_of_range

definition bt_at :: "'k::linorder \<Rightarrow> ('k, 'v, 'f) btree \<Rightarrow> 'v or_throw option" where
  "bt_at key b =
     do {
       leaf \<leftarrow> find_leaf key b;
       if leaf \<noteq> 0
       then do {
         oLeaf \<leftarrow> get_leaf leaf b;
         let pos = lower_bound_leaf oLeaf key;
         Some (if at_key oLeaf pos key then Value (snd (records oLeaf pos)) else Out_of_range)
       }
       else Some Out_of_range
     }"

definition bt_update :: "'k::linorder \<Rightarrow> 'v \<Rightarrow> ('k, 'v, 'f) btree \<Rightarrow> (bool \<times> ('k, 'v, 'f) btree) option" where
  "bt_update key val b =
     do {
       leaf \<leftarrow> find_leaf key b;
       if leaf = 0 then Some (False, b)
       else do {
         oLeaf \<leftarrow> get_leaf leaf b;
         let pos = lower_bound_leaf oLeaf key;
         Some (if at_key oLeaf pos key
               then (True, put_page leaf (Leaf_page (oLeaf\<lparr>records := (records oLeaf)(pos := (fst (records oLeaf pos), val))\<rparr>)) b)
               else (False, b))
       }
     }"

definition insert_or_assign ::
  "nat \<Rightarrow> ('f \<Rightarrow> nat \<times> 'f) \<Rightarrow> 'k::linorder \<Rightarrow> 'v \<Rightarrow> ('k, 'v, 'f) btree \<Rightarrow> ('k, 'v, 'f) btree option" where
  "insert_or_assign order grow key val b =
     do {
       (found, b) \<leftarrow> bt_update key val b;
       if found then Some b else do { (_, b) \<leftarrow> bt_insert order grow key val b; Some b }
     }"

text \<open>Reading through the proxy of \<open>operator[]\<close>, which inserts a default value when there is none.\<close>

definition proxy_read ::
  "nat \<Rightarrow> ('f \<Rightarrow> nat \<times> 'f) \<Rightarrow> 'v \<Rightarrow> 'k::linorder \<Rightarrow> ('k, 'v, 'f) btree \<Rightarrow> ('v \<times> ('k, 'v, 'f) btree) option" where
  "proxy_read order grow dflt key b =
     do {
       v \<leftarrow> find_value key b;
       case v of
         Some v \<Rightarrow> Some (v, b)
       | None \<Rightarrow> do { (_, b) \<leftarrow> bt_insert order grow key dflt b; Some (dflt, b) }
     }"

subsection \<open>Iteration\<close>

text \<open>An iterator is a leaf and a position; the leaf 0 is \<open>end()\<close>.\<close>

type_synonym const_iterator = "nat \<times> nat"

primrec skip_to_nonempty :: "nat \<Rightarrow> ('k, 'v, 'f) btree \<Rightarrow> const_iterator \<Rightarrow> const_iterator option" where
  "skip_to_nonempty 0 b it = None"
| "skip_to_nonempty (Suc fuel) b it =
     (if fst it = 0 then Some it
      else do {
        oLeaf \<leftarrow> get_leaf (fst it) b;
        if leaf_count oLeaf \<noteq> 0 then Some it
        else if next_page oLeaf = 0 then Some (0, 0)
        else skip_to_nonempty fuel b (next_page oLeaf, 0)
      })"

definition bt_begin :: "nat \<Rightarrow> ('k, 'v, 'f) btree \<Rightarrow> const_iterator option" where
  "bt_begin fuel b =
     (if elem_count (header b) = 0 \<or> first_leaf (header b) = 0 then Some (0, 0)
      else skip_to_nonempty fuel b (first_leaf (header b), 0))"

definition it_next :: "nat \<Rightarrow> ('k, 'v, 'f) btree \<Rightarrow> const_iterator \<Rightarrow> const_iterator option" where
  "it_next fuel b it =
     do {
       oLeaf \<leftarrow> get_leaf (fst it) b;
       let pos = snd it + 1;
       if pos \<ge> leaf_count oLeaf
       then (if next_page oLeaf = 0 then Some (0, 0)
             else skip_to_nonempty fuel b (next_page oLeaf, 0))
       else Some (fst it, pos)
     }"

text \<open>The client's loop \<open>for (it = begin(); it != end(); ++it)\<close> with \<open>*it\<close> collected.\<close>

primrec iterate :: "nat \<Rightarrow> ('k, 'v, 'f) btree \<Rightarrow> const_iterator \<Rightarrow> ('k \<times> 'v) list option" where
  "iterate 0 b it = None"
| "iterate (Suc fuel) b it =
     (if it = (0, 0) then Some []
      else do {
        oLeaf \<leftarrow> get_leaf (fst it) b;
        it' \<leftarrow> it_next (Suc fuel) b it;
        rest \<leftarrow> iterate fuel b it';
        Some (records oLeaf (snd it) # rest)
      })"

definition bt_size :: "('k, 'v, 'f) btree \<Rightarrow> nat" where
  "bt_size b = elem_count (header b)"

definition new_btree :: "'f \<Rightarrow> ('k, 'v, 'f) btree" where
  "new_btree f = \<lparr>header = new_header, pages = (\<lambda>_. Free_page 0), disk = f\<rparr>"

end
