(* ===== verification/Btree_Arrays.thy ===== *)
theory Btree_Arrays
  imports Btree
begin

text \<open>
  What the loops over the arrays of a page do to its meaningful places, as lists: inserting,
  removing, copying and the two binary searches.
\<close>

abbreviation arr :: "(nat \<Rightarrow> 'a) \<Rightarrow> nat \<Rightarrow> 'a list" where
  "arr a n \<equiv> map a [0..<n]"

lemma arr_eqI: "length xs = n \<Longrightarrow> (\<And>i. i < n \<Longrightarrow> a i = xs ! i) \<Longrightarrow> arr a n = xs"
  by (auto intro: nth_equalityI)

lemma arr_nth: "arr a n = xs \<Longrightarrow> i < n \<Longrightarrow> a i = xs ! i"
  by auto

subsection \<open>Inserting, removing, copying\<close>

lemma shift_up_at: "shift_up pos n a j = (if pos < j \<and> j \<le> n then a (j - 1) else a j)"
proof (induction n arbitrary: a)
  case (Suc n)
  then show ?case by (auto simp: le_Suc_eq)
qed simp

lemma arr_insert:
  assumes "pos \<le> n"
  shows "arr ((shift_up pos n a)(pos := x)) (Suc n) = take pos (arr a n) @ x # drop pos (arr a n)"
proof (rule arr_eqI)
  fix i assume "i < Suc n"
  then show "((shift_up pos n a)(pos := x)) i = (take pos (arr a n) @ x # drop pos (arr a n)) ! i"
    using assms by (auto simp: shift_up_at nth_append nth_Cons' min_def)
qed (use assms in simp)

lemma shift_down_at: "shift_down i n a j = (if i \<le> j \<and> j < n then a (j + 1) else a j)"
proof (induction "n - i" arbitrary: i a)
  case 0
  then show ?case by (subst shift_down.simps) auto
next
  case (Suc d)
  then have "i < n" by simp
  then have "shift_down i n a = shift_down (i + 1) n (a(i := a (i + 1)))"
    by (subst shift_down.simps) simp
  then show ?case using Suc.hyps(1) [of "i + 1" "a(i := a (i + 1))"] Suc.hyps(2) by auto
qed

lemma arr_remove:
  assumes "pos \<le> n"
  shows "arr (shift_down pos n a) n = take pos (arr a (Suc n)) @ drop (Suc pos) (arr a (Suc n))"
proof (rule arr_eqI)
  fix i assume "i < n"
  then show "shift_down pos n a i = (take pos (arr a (Suc n)) @ drop (Suc pos) (arr a (Suc n))) ! i"
    using assms by (auto simp: shift_down_at nth_append min_def simp del: upt_Suc)
qed (use assms in simp)

lemma copy_places_at: "copy_places n off src dst i = (if i < n then src (off + i) else dst i)"
  by (induction n) (auto simp: less_Suc_eq)

lemma arr_copy: "arr (copy_places n off src dst) n = drop off (arr src (off + n))"
  by (rule arr_eqI) (simp_all add: copy_places_at)

lemma arr_copy_part:
  "off + n \<le> m \<Longrightarrow> arr (copy_places n off src dst) n = take n (drop off (arr src m))"
  by (rule arr_eqI) (simp_all add: copy_places_at)

lemma arr_take: "n \<le> m \<Longrightarrow> arr a n = take n (arr a m)"
  by (simp add: take_map)

subsection \<open>Searching\<close>

definition nondecreasing :: "(nat \<Rightarrow> 'k::linorder) \<Rightarrow> nat \<Rightarrow> bool" where
  "nondecreasing a n \<longleftrightarrow> (\<forall>i j. i \<le> j \<longrightarrow> j < n \<longrightarrow> a i \<le> a j)"

lemma sorted_nondecreasing: "sorted (arr a n) \<Longrightarrow> nondecreasing a n"
  unfolding nondecreasing_def sorted_iff_nth_mono by auto

lemma nondecreasingD: "nondecreasing a n \<Longrightarrow> i \<le> j \<Longrightarrow> j < n \<Longrightarrow> a i \<le> a j"
  by (simp add: nondecreasing_def)

text \<open>Both searches look for the first place where a property that holds from some place on
  begins to hold.\<close>

definition splits_at :: "(nat \<Rightarrow> bool) \<Rightarrow> nat \<Rightarrow> nat \<Rightarrow> bool" where
  "splits_at P n r \<longleftrightarrow> r \<le> n \<and> (\<forall>i < r. \<not> P i) \<and> (\<forall>i. r \<le> i \<longrightarrow> i < n \<longrightarrow> P i)"

lemma splits_at_unique: "splits_at P n r \<Longrightarrow> splits_at P n s \<Longrightarrow> r = s"
  unfolding splits_at_def by (metis linorder_not_le nat_less_le order_less_le_trans)

lemma lower_bound_splits:
  assumes "nondecreasing a n" and "lo \<le> hi" and "hi \<le> n"
    and "\<forall>i < lo. a i < key" and "\<forall>i. hi \<le> i \<longrightarrow> i < n \<longrightarrow> key \<le> a i"
  shows "splits_at (\<lambda>i. key \<le> a i) n (lower_bound a key lo hi)"
  using assms
proof (induction a key lo hi rule: lower_bound.induct)
  case (1 a key lo hi)
  show ?case
  proof (cases "lo < hi")
    case True
    define mid where "mid = lo + (hi - lo) div 2"
    have mid: "lo \<le> mid" "mid < hi" using True by (auto simp: mid_def)
    show ?thesis
    proof (cases "a mid < key")
      case lt: True
      have "\<forall>i < mid + 1. a i < key"
        using lt nondecreasingD [OF 1(3), of _ mid] mid 1(5) le_less_trans by (metis less_Suc_eq_le Suc_eq_plus1 less_le_trans)
      then have "splits_at (\<lambda>i. key \<le> a i) n (lower_bound a key (mid + 1) hi)"
        using 1(1) [OF True mid_def lt 1(3)] mid 1(4-) by simp
      then show ?thesis using True lt by (subst lower_bound.simps) (simp add: Let_def flip: mid_def)
    next
      case ge: False
      have "\<forall>i. mid \<le> i \<longrightarrow> i < n \<longrightarrow> key \<le> a i"
        using ge nondecreasingD [OF 1(3), of mid] order_trans not_less by metis
      then have "splits_at (\<lambda>i. key \<le> a i) n (lower_bound a key lo mid)"
        using 1(2) [OF True mid_def ge 1(3)] mid 1(4-) by simp
      then show ?thesis using True ge by (subst lower_bound.simps) (simp add: Let_def flip: mid_def)
    qed
  next
    case False
    then show ?thesis using 1 by (subst lower_bound.simps) (auto simp: splits_at_def not_le)
  qed
qed

lemma upper_bound_splits:
  assumes "nondecreasing a n" and "lo \<le> hi" and "hi \<le> n"
    and "\<forall>i < lo. a i \<le> key" and "\<forall>i. hi \<le> i \<longrightarrow> i < n \<longrightarrow> key < a i"
  shows "splits_at (\<lambda>i. key < a i) n (upper_bound a key lo hi)"
  using assms
proof (induction a key lo hi rule: upper_bound.induct)
  case (1 a key lo hi)
  show ?case
  proof (cases "lo < hi")
    case True
    define mid where "mid = lo + (hi - lo) div 2"
    have mid: "lo \<le> mid" "mid < hi" using True by (auto simp: mid_def)
    show ?thesis
    proof (cases "key < a mid")
      case lt: True
      have "\<forall>i. mid \<le> i \<longrightarrow> i < n \<longrightarrow> key < a i"
        using lt nondecreasingD [OF 1(3), of mid] less_le_trans by metis
      then have "splits_at (\<lambda>i. key < a i) n (upper_bound a key lo mid)"
        using 1(1) [OF True mid_def lt 1(3)] mid 1(4-) by simp
      then show ?thesis using True lt by (subst upper_bound.simps) (simp add: Let_def flip: mid_def)
    next
      case ge: False
      have "\<forall>i < mid + 1. a i \<le> key"
        using ge nondecreasingD [OF 1(3), of _ mid] mid 1(5) order_trans not_less
        by (metis less_Suc_eq_le Suc_eq_plus1 less_le_trans)
      then have "splits_at (\<lambda>i. key < a i) n (upper_bound a key (mid + 1) hi)"
        using 1(2) [OF True mid_def ge 1(3)] mid 1(4-) by simp
      then show ?thesis using True ge by (subst upper_bound.simps) (simp add: Let_def flip: mid_def)
    qed
  next
    case False
    then show ?thesis using 1 by (subst upper_bound.simps) (auto simp: splits_at_def not_le)
  qed
qed

end
