(* ===== verification/Btree_Shape.thy ===== *)
theory Btree_Shape
  imports Btree_Arrays
begin

text \<open>
  The tree a set of pages stands for, and what makes it well formed. \<open>bt\<close> is the tree with the
  page numbers in its nodes; \<open>rep\<close> says that pages hold it, \<open>okt\<close> that it is a search tree of
  uniform height whose nodes are within the order, \<open>chain\<close> that its leaves are linked.
\<close>

datatype ('k, 'v) bt = Lf nat "('k \<times> 'v) list" | Nd nat "'k list" "('k, 'v) bt list"

fun page_no :: "('k, 'v) bt \<Rightarrow> nat" where
  "page_no (Lf p rs) = p"
| "page_no (Nd p ks ts) = p"

fun page_nos :: "('k, 'v) bt \<Rightarrow> nat list" where
  "page_nos (Lf p rs) = [p]"
| "page_nos (Nd p ks ts) = p # concat (map page_nos ts)"

fun leaf_nos :: "('k, 'v) bt \<Rightarrow> nat list" where
  "leaf_nos (Lf p rs) = [p]"
| "leaf_nos (Nd p ks ts) = concat (map leaf_nos ts)"

fun recs :: "('k, 'v) bt \<Rightarrow> ('k \<times> 'v) list" where
  "recs (Lf p rs) = rs"
| "recs (Nd p ks ts) = concat (map recs ts)"

abbreviation keys_of :: "('k, 'v) bt \<Rightarrow> 'k set" where
  "keys_of t \<equiv> fst ` set (recs t)"

lemma page_no_in [simp]: "page_no t \<in> set (page_nos t)"
  by (cases t) auto

lemma leaf_nos_subset: "set (leaf_nos t) \<subseteq> set (page_nos t)"
  by (induction t) auto

lemma distinct_leaf_nos: "distinct (page_nos t) \<Longrightarrow> distinct (leaf_nos t)"
proof (induction t)
  case (Nd p ks ts)
  have "distinct (concat (map page_nos xs)) \<Longrightarrow> set xs \<subseteq> set ts \<Longrightarrow> distinct (concat (map leaf_nos xs))" for xs
    using Nd.IH leaf_nos_subset by (induction xs) (auto, blast)
  then show ?case using Nd.prems by auto
qed simp

subsection \<open>Bounds and order\<close>

definition within :: "'k::linorder option \<Rightarrow> 'k option \<Rightarrow> 'k \<Rightarrow> bool" where
  "within lo hi k \<longleftrightarrow> (case lo of None \<Rightarrow> True | Some a \<Rightarrow> a \<le> k) \<and> (case hi of None \<Rightarrow> True | Some c \<Rightarrow> k < c)"

text \<open>A sequence of subtrees with separators between them.\<close>

fun seg :: "('k option \<Rightarrow> 'k option \<Rightarrow> 't \<Rightarrow> bool) \<Rightarrow> 'k option \<Rightarrow> 'k option \<Rightarrow> 'k list \<Rightarrow> 't list \<Rightarrow> bool" where
  "seg Q lo hi [] [t] = Q lo hi t"
| "seg Q lo hi (k # ks) (t # ts) = (Q lo (Some k) t \<and> seg Q (Some k) hi ks ts)"
| "seg Q lo hi _ _ = False"

text \<open>A search tree of height \<open>h\<close>, every leaf with a record, every node within the order.\<close>

primrec okt :: "nat \<Rightarrow> nat \<Rightarrow> 'k::linorder option \<Rightarrow> 'k option \<Rightarrow> ('k, 'v) bt \<Rightarrow> bool" where
  "okt order 0 lo hi t = (case t of
     Lf p rs \<Rightarrow> rs \<noteq> [] \<and> length rs \<le> order \<and> sorted_wrt (<) (map fst rs) \<and> (\<forall>r \<in> set rs. within lo hi (fst r))
   | Nd _ _ _ \<Rightarrow> False)"
| "okt order (Suc h) lo hi t = (case t of
     Lf _ _ \<Rightarrow> False
   | Nd p ks ts \<Rightarrow> length ks \<le> order \<and> seg (okt order h) lo hi ks ts)"

lemma okt_Lf [simp]: "okt order h lo hi (Lf p rs) \<longleftrightarrow> h = 0 \<and> rs \<noteq> [] \<and> length rs \<le> order \<and>
    sorted_wrt (<) (map fst rs) \<and> (\<forall>r \<in> set rs. within lo hi (fst r))"
  by (cases h) auto

lemma okt_Nd: "okt order h lo hi (Nd p ks ts) \<longleftrightarrow>
    (\<exists>g. h = Suc g \<and> length ks \<le> order \<and> seg (okt order g) lo hi ks ts)"
  by (cases h) auto

lemma seg_length: "seg Q lo hi ks ts \<Longrightarrow> length ts = Suc (length ks)"
  by (induction Q lo hi ks ts rule: seg.induct) auto

lemma seg_Cons: "seg Q lo hi (k # ks) ts \<longleftrightarrow> (\<exists>t us. ts = t # us \<and> Q lo (Some k) t \<and> seg Q (Some k) hi ks us)"
  by (cases ts) auto

lemma seg_Nil: "seg Q lo hi [] ts \<longleftrightarrow> (\<exists>t. ts = [t] \<and> Q lo hi t)"
  by (cases ts; cases "tl ts") auto

lemma seg_split:
  "length P = Suc (length X) \<Longrightarrow>
     seg Q lo hi (X @ m # Y) (P @ R) \<longleftrightarrow> seg Q lo (Some m) X P \<and> seg Q (Some m) hi Y R"
proof (induction X arbitrary: lo P)
  case Nil
  then obtain t where "P = [t]" by (cases P) auto
  then show ?case by simp
next
  case (Cons k X)
  then obtain t P' where "P = t # P'" by (cases P) auto
  then show ?case using Cons by auto
qed

text \<open>The subtrees before one of them, and the bounds of that one.\<close>

fun seg_before :: "('k option \<Rightarrow> 'k option \<Rightarrow> 't \<Rightarrow> bool) \<Rightarrow> 'k option \<Rightarrow> 'k list \<Rightarrow> 't list \<Rightarrow> bool" where
  "seg_before Q lo [] [] = True"
| "seg_before Q lo (k # ks) (t # ts) = (Q lo (Some k) t \<and> seg_before Q (Some k) ks ts)"
| "seg_before Q lo _ _ = False"

definition low_of :: "'k option \<Rightarrow> 'k list \<Rightarrow> 'k option" where
  "low_of lo ks = (if ks = [] then lo else Some (last ks))"

definition high_of :: "'k option \<Rightarrow> 'k list \<Rightarrow> 'k option" where
  "high_of hi ks = (case ks of [] \<Rightarrow> hi | k # _ \<Rightarrow> Some k)"

definition seg_after :: "('k option \<Rightarrow> 'k option \<Rightarrow> 't \<Rightarrow> bool) \<Rightarrow> 'k option \<Rightarrow> 'k list \<Rightarrow> 't list \<Rightarrow> bool" where
  "seg_after Q hi ks ts = (case ks of [] \<Rightarrow> ts = [] | k # us \<Rightarrow> seg Q (Some k) hi us ts)"

lemma low_of_simps [simp]: "low_of lo [] = lo" "low_of lo (ks @ [k]) = Some k"
  "low_of lo (k # ks) = low_of (Some k) ks"
  by (auto simp: low_of_def)

lemma seg_append:
  "length A = length K \<Longrightarrow>
     seg Q lo hi (K @ L) (A @ T) \<longleftrightarrow> seg_before Q lo K A \<and> seg Q (low_of lo K) hi L T"
proof (induction K arbitrary: lo A)
  case (Cons k K)
  then obtain t A' where "A = t # A'" by (cases A) auto
  then show ?case using Cons by simp
qed simp

lemma seg_at:
  "length A = length K \<Longrightarrow>
     seg Q lo hi (K @ L) (A @ t # B) \<longleftrightarrow>
       seg_before Q lo K A \<and> Q (low_of lo K) (high_of hi L) t \<and> seg_after Q hi L B"
  using seg_append [of A K Q lo hi L "t # B"]
  by (cases L) (auto simp: high_of_def seg_after_def seg_Nil)

lemma seg_at_two:
  "length A = length K \<Longrightarrow>
     seg Q lo hi (K @ m # L) (A @ t # u # B) \<longleftrightarrow>
       seg_before Q lo K A \<and> Q (low_of lo K) (Some m) t \<and> Q (Some m) (high_of hi L) u \<and> seg_after Q hi L B"
  using seg_append [of A K Q lo hi "m # L" "t # u # B"]
  by (cases L) (auto simp: high_of_def seg_after_def seg_Nil)

lemma seg_before_mono:
  "seg_before Q lo K A \<Longrightarrow> (\<And>l h t. t \<in> set A \<Longrightarrow> Q l h t \<Longrightarrow> R l h t) \<Longrightarrow> seg_before R lo K A"
  by (induction Q lo K A rule: seg_before.induct) auto

subsection \<open>Widening the bounds\<close>

definition below :: "'k::linorder option \<Rightarrow> 'k option \<Rightarrow> bool" where
  "below a b \<longleftrightarrow> (case a of None \<Rightarrow> True | Some x \<Rightarrow> (case b of None \<Rightarrow> False | Some y \<Rightarrow> x \<le> y))"

definition above :: "'k::linorder option \<Rightarrow> 'k option \<Rightarrow> bool" where
  "above b a \<longleftrightarrow> (case b of None \<Rightarrow> True | Some y \<Rightarrow> (case a of None \<Rightarrow> False | Some x \<Rightarrow> x \<le> y))"

lemma below_refl [simp]: "below a a" and above_refl [simp]: "above a a"
  by (auto simp: below_def above_def split: option.split)

lemma within_widen: "within lo hi k \<Longrightarrow> below lo' lo \<Longrightarrow> above hi' hi \<Longrightarrow> within lo' hi' k"
  by (auto simp: within_def below_def above_def split: option.splits)

lemma seg_widen:
  assumes "seg Q lo hi ks ts" and "below lo' lo" and "above hi' hi"
    and "\<And>l h l' h' t. Q l h t \<Longrightarrow> below l' l \<Longrightarrow> above h' h \<Longrightarrow> Q l' h' t"
  shows "seg Q lo' hi' ks ts"
  using assms(1,2)
proof (induction ks arbitrary: lo lo' ts)
  case Nil
  then show ?case using assms(3,4) by (auto simp: seg_Nil)
next
  case (Cons k ks)
  then obtain t us where ts: "ts = t # us" "Q lo (Some k) t" "seg Q (Some k) hi ks us"
    by (auto simp: seg_Cons)
  then show ?case using Cons.IH [OF ts(3), of "Some k"] assms(4) [OF ts(2) Cons.prems(2)] by simp
qed

lemma okt_widen: "okt order h lo hi t \<Longrightarrow> below lo' lo \<Longrightarrow> above hi' hi \<Longrightarrow> okt order h lo' hi' t"
proof (induction h arbitrary: lo hi lo' hi' t)
  case 0
  then show ?case by (cases t) (auto intro: within_widen)
next
  case (Suc h)
  then show ?case by (cases t) (auto intro: seg_widen)
qed

lemma seg_each: "seg Q lo hi ks ts \<Longrightarrow> t \<in> set ts \<Longrightarrow> \<exists>l h. Q l h t"
proof (induction ks arbitrary: lo ts)
  case Nil
  then obtain u where "ts = [u]" "Q lo hi u" by (auto simp: seg_Nil)
  then show ?case using Nil.prems(2) by auto
next
  case (Cons k ks)
  then show ?case by (fastforce simp: seg_Cons)
qed

text \<open>The height of a tree is unique.\<close>

lemma okt_height: "okt order h lo hi t \<Longrightarrow> okt order h' lo' hi' t \<Longrightarrow> h = h'"
proof (induction h arbitrary: h' lo hi lo' hi' t)
  case 0
  then show ?case by (cases t) (auto simp: okt_Nd)
next
  case (Suc h)
  then obtain p ks ts where t: "t = Nd p ks ts" "seg (okt order h) lo hi ks ts" by (cases t) auto
  obtain g where g: "h' = Suc g" "seg (okt order g) lo' hi' ks ts" using Suc.prems(2) t(1) by (auto simp: okt_Nd)
  obtain u where u: "u \<in> set ts" using seg_length [OF t(2)] by (cases ts) auto
  then show ?case using Suc.IH seg_each [OF t(2) u] seg_each [OF g(2) u] g(1) by blast
qed

lemma okt_leaf_nos: "okt order h lo hi t \<Longrightarrow> leaf_nos t \<noteq> []"
proof (induction h arbitrary: lo hi t)
  case 0
  then show ?case by (cases t) auto
next
  case (Suc h)
  then obtain p ks ts where t: "t = Nd p ks ts" "seg (okt order h) lo hi ks ts" by (cases t) auto
  obtain v vs where "ts = v # vs" using seg_length [OF t(2)] by (cases ts) auto
  then show ?case using Suc.IH seg_each [OF t(2), of v] t(1) by auto
qed

subsection \<open>The records of a search tree\<close>

definition ordered_recs :: "'k::linorder option \<Rightarrow> 'k option \<Rightarrow> ('k \<times> 'v) list \<Rightarrow> bool" where
  "ordered_recs lo hi rs \<longleftrightarrow> rs \<noteq> [] \<and> sorted_wrt (<) (map fst rs) \<and> (\<forall>r \<in> set rs. within lo hi (fst r))"

lemma ordered_recs_append:
  assumes "ordered_recs lo (Some k) rs" and "ordered_recs (Some k) hi us"
  shows "ordered_recs lo hi (rs @ us)"
proof -
  obtain r where r: "r \<in> set rs" using assms(1) by (cases rs) (auto simp: ordered_recs_def)
  obtain u where u: "u \<in> set us" using assms(2) by (cases us) (auto simp: ordered_recs_def)
  have k: "fst x < k" if "x \<in> set rs" for x using assms(1) that by (auto simp: ordered_recs_def within_def)
  have k': "k \<le> fst x" if "x \<in> set us" for x using assms(2) that by (auto simp: ordered_recs_def within_def)
  have "within lo hi (fst x)" if "x \<in> set rs" for x
    using k [OF that] k' [OF u] assms that u unfolding ordered_recs_def within_def
    by (fastforce split: option.splits)
  moreover have "within lo hi (fst x)" if "x \<in> set us" for x
    using k [OF r] k' [OF that] assms that r unfolding ordered_recs_def within_def
    by (fastforce split: option.splits)
  ultimately show ?thesis
    using assms k k' by (fastforce simp: ordered_recs_def sorted_wrt_append)
qed

lemma seg_recs:
  assumes "seg Q lo hi ks ts" and "\<And>l h t. Q l h t \<Longrightarrow> ordered_recs l h (recs t)"
  shows "ordered_recs lo hi (concat (map recs ts))"
  using assms(1)
proof (induction ks arbitrary: lo ts)
  case Nil
  then show ?case using assms(2) by (auto simp: seg_Nil)
next
  case (Cons k ks)
  then show ?case using assms(2) ordered_recs_append by (fastforce simp: seg_Cons)
qed

lemma okt_recs: "okt order h lo hi t \<Longrightarrow> ordered_recs lo hi (recs t)"
proof (induction h arbitrary: lo hi t)
  case 0
  then show ?case by (cases t) (auto simp: ordered_recs_def)
next
  case (Suc h)
  then show ?case by (cases t) (auto intro: seg_recs)
qed

lemma okt_keys_within: "okt order h lo hi t \<Longrightarrow> k \<in> keys_of t \<Longrightarrow> within lo hi k"
  using okt_recs by (fastforce simp: ordered_recs_def)

lemma okt_some_key: "okt order h lo hi t \<Longrightarrow> \<exists>k. k \<in> keys_of t"
  using okt_recs [of order h lo hi t] by (auto simp: ordered_recs_def neq_Nil_conv)

lemma seg_sorted: "seg (okt order h) lo hi ks ts \<Longrightarrow> sorted_wrt (<) ks \<and>
    (\<forall>k \<in> set ks. case lo of None \<Rightarrow> True | Some a \<Rightarrow> a < k)"
proof (induction ks arbitrary: lo ts)
  case (Cons k ks)
  then obtain t us where ts: "okt order h lo (Some k) t" "seg (okt order h) (Some k) hi ks us"
    "ts = t # us" by (auto simp: seg_Cons)
  obtain x where "within lo (Some k) x" using okt_some_key [OF ts(1)] okt_keys_within [OF ts(1)] by blast
  then have lo: "case lo of None \<Rightarrow> True | Some a \<Rightarrow> a < k" by (auto simp: within_def split: option.splits)
  from Cons.IH [OF ts(2)] show ?case using lo by (force split: option.splits)
qed simp

text \<open>The subtree that must hold a key.\<close>

lemma seg_beforeD: "seg_before Q lo K A \<Longrightarrow> u \<in> set A \<Longrightarrow> \<exists>l k. k \<in> set K \<and> Q l (Some k) u"
  by (induction Q lo K A rule: seg_before.induct) auto

lemma segD: "seg Q (Some k) hi ks ts \<Longrightarrow> u \<in> set ts \<Longrightarrow> \<exists>l h. l \<in> set (k # ks) \<and> Q (Some l) h u"
proof (induction ks arbitrary: k ts)
  case Nil
  then show ?case by (auto simp: seg_Nil)
next
  case (Cons k' ks)
  then obtain t us where ts: "ts = t # us" "Q (Some k) (Some k') t" "seg Q (Some k') hi ks us"
    by (auto simp: seg_Cons)
  show ?case
  proof (cases "u = t")
    case False
    then show ?thesis using Cons.IH [OF ts(3)] Cons.prems(2) ts(1) by auto
  qed (use ts in auto)
qed

lemma seg_afterD: "seg_after Q hi L B \<Longrightarrow> u \<in> set B \<Longrightarrow> \<exists>k h. k \<in> set L \<and> Q (Some k) h u"
  by (cases L) (auto simp: seg_after_def dest!: segD; blast)+

lemma key_elsewhere:
  assumes "seg_before (okt order h) lo K A" and "seg_after (okt order h) hi L B"
    and "\<forall>k \<in> set K. k \<le> key" and "\<forall>k \<in> set L. key < k"
  shows "u \<in> set A \<union> set B \<Longrightarrow> key \<notin> keys_of u"
proof -
  assume "u \<in> set A \<union> set B"
  then consider "u \<in> set A" | "u \<in> set B" by blast
  then show ?thesis
  proof cases
    case 1
    then obtain l k where "k \<in> set K" "okt order h l (Some k) u" using seg_beforeD [OF assms(1)] by blast
    then show ?thesis using okt_keys_within [of order h l "Some k" u key] assms(3)
      unfolding within_def by fastforce
  next
    case 2
    then obtain k h' where "k \<in> set L" "okt order h (Some k) h' u" using seg_afterD [OF assms(2)] by blast
    then show ?thesis using okt_keys_within [of order h "Some k" h' u key] assms(4)
      unfolding within_def by fastforce
  qed
qed

lemma within_child:
  assumes "within lo hi key" and "\<forall>k \<in> set K. k \<le> key" and "\<forall>k \<in> set L. key < k"
  shows "within (low_of lo K) (high_of hi L) key"
  using assms by (cases L) (auto simp: within_def low_of_def high_of_def)

subsection \<open>The pages of a tree\<close>

text \<open>Everything on a page but the links between leaves.\<close>

fun content :: "('k, 'v) page \<Rightarrow> ('k, 'v) page" where
  "content (Leaf_page l) = Leaf_page (l\<lparr>next_page := 0, prev_page := 0\<rparr>)"
| "content (Free_page n) = Free_page n"
| "content (Branch_page p) = Branch_page p"

fun rep :: "(nat \<Rightarrow> ('k, 'v) page) \<Rightarrow> ('k, 'v) bt \<Rightarrow> bool" where
  "rep g (Lf p rs) \<longleftrightarrow> (\<exists>l. g p = Leaf_page l \<and> arr (records l) (leaf_count l) = rs)"
| "rep g (Nd p ks ts) \<longleftrightarrow>
     (\<exists>br. g p = Branch_page br \<and> arr (seps br) (branch_count br) = ks \<and>
        arr (children br) (Suc (branch_count br)) = map page_no ts) \<and> (\<forall>t \<in> set ts. rep g t)"

lemma content_leaf:
  assumes "content (g' p) = content (Leaf_page l)"
  obtains l' where "g' p = Leaf_page l'" and "records l' = records l" and "leaf_count l' = leaf_count l"
  using assms by (cases "g' p") (auto, metis leaf_page.ext_inject leaf_page.surjective leaf_page.update_convs)

lemma content_branch: "content p = Branch_page br \<longleftrightarrow> p = Branch_page br"
  by (cases p) auto

lemma rep_cong:
  "rep g t \<Longrightarrow> (\<And>p. p \<in> set (page_nos t) \<Longrightarrow> content (g' p) = content (g p)) \<Longrightarrow> rep g' t"
proof (induction t)
  case (Lf p rs)
  then obtain l where "g p = Leaf_page l" "arr (records l) (leaf_count l) = rs" by auto
  moreover obtain l' where "g' p = Leaf_page l'" "records l' = records l" "leaf_count l' = leaf_count l"
    using content_leaf [of g' p l] Lf.prems(2) [of p] calculation(1) by auto
  ultimately show ?case by auto
next
  case (Nd p ks ts)
  have "content (g' p) = content (g p)" using Nd.prems(2) by simp
  then have "g' p = g p" using Nd.prems(1) by (auto simp: content_branch)
  then show ?case using Nd by auto
qed

text \<open>The links of the leaves, in order.\<close>

fun chain :: "(nat \<Rightarrow> ('k, 'v) page) \<Rightarrow> nat \<Rightarrow> nat list \<Rightarrow> nat \<Rightarrow> bool" where
  "chain g prev [] nxt = True"
| "chain g prev (p # ps) nxt \<longleftrightarrow>
     (\<exists>l. g p = Leaf_page l \<and> prev_page l = prev \<and> next_page l = (case ps of [] \<Rightarrow> nxt | q # _ \<Rightarrow> q)) \<and>
     chain g p ps nxt"

lemma chain_append:
  "chain g prev (ps @ qs) nxt \<longleftrightarrow>
     chain g prev ps (case qs of [] \<Rightarrow> nxt | q # _ \<Rightarrow> q) \<and> chain g (if ps = [] then prev else last ps) qs nxt"
  by (induction ps arbitrary: prev) (auto split: list.split)

lemma chain_cong: "chain g prev ps nxt \<Longrightarrow> (\<And>p. p \<in> set ps \<Longrightarrow> g' p = g p) \<Longrightarrow> chain g' prev ps nxt"
  by (induction ps arbitrary: prev) auto

text \<open>Changing a page but not its links.\<close>

definition same_links :: "('k, 'v) page \<Rightarrow> ('k, 'v) page \<Rightarrow> bool" where
  "same_links p q \<longleftrightarrow> (\<exists>l l'. p = Leaf_page l \<and> q = Leaf_page l' \<and>
     next_page l' = next_page l \<and> prev_page l' = prev_page l)"

lemma chain_links_cong:
  "chain g prev ps nxt \<Longrightarrow> (\<And>p. p \<in> set ps \<Longrightarrow> g' p = g p \<or> same_links (g p) (g' p)) \<Longrightarrow> chain g' prev ps nxt"
proof (induction ps arbitrary: prev)
  case (Cons p ps)
  have "chain g' p ps nxt" using Cons by simp
  moreover have "g' p = g p \<or> same_links (g p) (g' p)" using Cons.prems(2) by simp
  ultimately show ?case using Cons.prems(1) by (auto simp: same_links_def)
qed simp

end
