(* ===== verification/Mapped_File.thy ===== *)
theory Mapped_File
  imports Prelude
begin

text \<open>
  How \<open>mapped_file.hpp\<close> sizes a file and numbers its pages. The state of a file is its size in
  bytes. The Unix version makes room for a page by writing one byte behind it; whether \<open>mmap\<close>
  accepts an offset is a parameter, of which only the documented rule is used that an offset
  must be a multiple of the page size. The Windows version sizes the file by the mapping it
  creates.

  The locale \<open>page_file\<close> is what the B-tree needs of a file: \<open>append\<close> hands out a page that was
  not handed out before. The Windows version keeps it.
\<close>

subsection \<open>Unix\<close>

text \<open>The offset that is mapped, or an exception, and the size of the file afterwards.\<close>

definition unix_get :: "nat \<Rightarrow> (nat \<Rightarrow> bool) \<Rightarrow> nat \<Rightarrow> nat \<Rightarrow> nat option \<times> nat" where
  "unix_get iPageSize mmap pageNum st_size =
     (let iLastByte = pageNum * iPageSize + iPageSize;
          bytes' = (if st_size < iLastByte then iLastByte + 1 else st_size)
      in (if mmap (pageNum * iPageSize) then Some (pageNum * iPageSize) else None, bytes'))"

definition unix_append :: "nat \<Rightarrow> (nat \<Rightarrow> bool) \<Rightarrow> nat \<Rightarrow> nat option \<times> nat" where
  "unix_append iPageSize mmap st_size =
     (let newpage = st_size div iPageSize
      in (if mmap st_size then Some newpage else None, st_size + iPageSize + 1))"

text \<open>A number of appends, one after the other; the pages they return.\<close>

fun unix_appends :: "nat \<Rightarrow> (nat \<Rightarrow> bool) \<Rightarrow> nat \<Rightarrow> nat \<Rightarrow> nat option list" where
  "unix_appends iPageSize mmap 0 bytes = []"
| "unix_appends iPageSize mmap (Suc n) bytes =
     (let (r, bytes') = unix_append iPageSize mmap bytes in r # unix_appends iPageSize mmap n bytes')"

lemma unix_appends_misaligned:
  assumes "\<And>offset. mmap offset \<Longrightarrow> P dvd offset" and "0 < j" and "j + n < P + 1"
  shows "unix_appends P mmap n (m * P + j) = replicate n None"
  using assms(2,3)
proof (induction n arbitrary: m j)
  case (Suc n)
  have "\<not> P dvd m * P + j" using Suc.prems by (auto simp: dvd_add_right_iff dest: dvd_imp_le)
  then have "\<not> mmap (m * P + j)" using assms(1) by blast
  moreover have "m * P + j + P + 1 = Suc m * P + Suc j" by simp
  ultimately show ?case
    using Suc.IH [of "Suc j" "Suc m"] Suc.prems by (simp add: unix_append_def add_ac)
qed simp

subsection \<open>Windows\<close>

definition windows_get :: "nat \<Rightarrow> nat \<Rightarrow> nat \<Rightarrow> nat" where
  "windows_get page_size pageNum bytes =
     (let newSize = pageNum * page_size + page_size in if bytes < newSize then newSize else bytes)"

definition windows_append :: "nat \<Rightarrow> nat \<Rightarrow> nat \<times> nat" where
  "windows_append page_size bytes =
     (let newpage = (bytes + page_size) div page_size in (newpage, windows_get page_size newpage bytes))"

text \<open>The constructor: the mapping, and with it the file, has at least one page.\<close>

definition windows_open :: "nat \<Rightarrow> nat \<Rightarrow> nat" where
  "windows_open page_size fileSize = (if fileSize > page_size then fileSize else page_size)"

subsection \<open>The interface\<close>

locale page_file =
  fixes grow :: "'f \<Rightarrow> nat \<times> 'f"
    and disk_ok :: "'f \<Rightarrow> bool"
    and handed :: "'f \<Rightarrow> nat set"
  assumes grow_fresh: "disk_ok f \<Longrightarrow> grow f = (p, f') \<Longrightarrow>
      disk_ok f' \<and> p \<noteq> 0 \<and> p \<notin> handed f \<and> handed f' = insert p (handed f)"

text \<open>On Windows every append skips a page: the pages handed out are the even ones.\<close>

definition windows_ok :: "nat \<Rightarrow> nat \<Rightarrow> bool" where
  "windows_ok page_size bytes \<longleftrightarrow> 0 < page_size \<and> (\<exists>n. bytes = (2 * n + 1) * page_size)"

definition windows_handed :: "nat \<Rightarrow> nat \<Rightarrow> nat set" where
  "windows_handed page_size bytes = {p. even p \<and> 0 < p \<and> p < bytes div page_size}"

lemma windows_append_size:
  assumes "0 < P"
  shows "windows_append P (n * P) = (n + 1, (n + 2) * P)"
proof -
  have "(n * P + P) div P = n + 1" using assms by simp
  then show ?thesis using assms by (simp add: windows_append_def windows_get_def Let_def)
qed

interpretation windows: page_file "windows_append P" "windows_ok P" "windows_handed P" for P
proof
  fix f p f' assume ok: "windows_ok P f" and a: "windows_append P f = (p, f')"
  then obtain n where P: "0 < P" and f: "f = (2 * n + 1) * P" by (auto simp: windows_ok_def)
  have "(p, f') = (2 * n + 1 + 1, (2 * n + 1 + 2) * P)"
    unfolding a [symmetric] f by (rule windows_append_size [OF P])
  then have p: "p = 2 * n + 2" and f': "f' = (2 * n + 3) * P" by (simp_all add: algebra_simps)
  have d: "f div P = 2 * n + 1" "f' div P = 2 * n + 3" using P f f' by simp_all
  have "f' = (2 * (n + 1) + 1) * P" using f' by (simp add: algebra_simps)
  then have "windows_ok P f'" using P unfolding windows_ok_def by blast
  moreover have "windows_handed P f' = insert p (windows_handed P f)"
    unfolding windows_handed_def d p by (auto, presburger)
  ultimately show "windows_ok P f' \<and> p \<noteq> 0 \<and> p \<notin> windows_handed P f \<and>
      windows_handed P f' = insert p (windows_handed P f)"
    by (simp add: windows_handed_def d p)
qed

subsection \<open>Properties\<close>

text \<open>On Unix a file that was opened by page stops growing. Reading page 0 of a new file leaves
  a file of one page and one byte, and \<open>append\<close> maps the end of the file, which is then not a
  multiple of the page size: the appends that follow throw, every one of the first
  \<open>page size - 1\<close>. So the first insertion into a new B-tree throws.\<close>

theorem unix_append_throws:
  assumes "\<And>offset. mmap offset \<Longrightarrow> iPageSize dvd offset" and "n < iPageSize"
  shows "unix_appends iPageSize mmap n (snd (unix_get iPageSize mmap 0 0)) = replicate n None"
proof -
  have "iPageSize dvd offset" if "mmap offset" for offset using assms(1) that .
  from unix_appends_misaligned [of mmap iPageSize 1 n 1, OF this] assms(2) show ?thesis
    by (simp add: unix_get_def)
qed

theorem unix_append_throws_witness:
  "unix_appends 4096 (\<lambda>offset. 4096 dvd offset) 3 (snd (unix_get 4096 (\<lambda>offset. 4096 dvd offset) 0 0)) =
     [None, None, None]"
  using unix_append_throws [of "\<lambda>offset. 4096 dvd offset" 4096 3] by (simp add: numeral_3_eq_3)

end
