(* ===== verification/Btree_Alloc.thy ===== *)
theory Btree_Alloc
  imports Btree_Shape Mapped_File
begin

text \<open>
  Page allocation: the free list, and the account of who has which page. \<open>alloc_ok\<close> says that
  every page the file handed out is either one of the set \<open>U\<close>, in use, or on the free list once.
\<close>

fun free_list :: "(nat \<Rightarrow> ('k, 'v) page) \<Rightarrow> nat \<Rightarrow> nat list \<Rightarrow> bool" where
  "free_list g h [] \<longleftrightarrow> h = 0"
| "free_list g h (p # ps) \<longleftrightarrow> h = p \<and> p \<noteq> 0 \<and> (\<exists>n. g p = Free_page n \<and> free_list g n ps)"

definition alloc_ok ::
  "('f \<Rightarrow> bool) \<Rightarrow> ('f \<Rightarrow> nat set) \<Rightarrow> ('k, 'v, 'f) btree \<Rightarrow> nat set \<Rightarrow> bool" where
  "alloc_ok disk_ok handed b U \<longleftrightarrow>
     disk_ok (disk b) \<and> 0 \<notin> U \<and>
     (\<exists>F. free_list (pages b) (free_list_head (header b)) F \<and> distinct F \<and> set F \<inter> U = {} \<and>
        free_list_count (header b) = length F \<and> U \<union> set F = handed (disk b))"

definition same_tree_header :: "('k, 'v, 'f) btree \<Rightarrow> ('k, 'v, 'f) btree \<Rightarrow> bool" where
  "same_tree_header b b' \<longleftrightarrow>
     root_page (header b') = root_page (header b) \<and> first_leaf (header b') = first_leaf (header b) \<and>
     elem_count (header b') = elem_count (header b) \<and> height (header b') = height (header b)"

lemma same_tree_header_refl [simp]: "same_tree_header b b"
  by (simp add: same_tree_header_def)

lemma same_tree_header_trans:
  "same_tree_header a b \<Longrightarrow> same_tree_header b c \<Longrightarrow> same_tree_header a c"
  by (simp add: same_tree_header_def)

lemma put_page_simps [simp]:
  "pages (put_page p x b) = (pages b)(p := x)" "header (put_page p x b) = header b"
  "disk (put_page p x b) = disk b"
  by (simp_all add: put_page_def)

lemma put_header_simps [simp]:
  "pages (put_header f b) = pages b" "header (put_header f b) = f (header b)"
  "disk (put_header f b) = disk b"
  by (simp_all add: put_header_def)

lemma same_tree_header_put [simp]: "same_tree_header b (put_page p x c) = same_tree_header b c"
  by (simp add: same_tree_header_def)

lemma free_list_cong:
  "free_list g h F \<Longrightarrow> (\<And>p. p \<in> set F \<Longrightarrow> g' p = g p) \<Longrightarrow> free_list g' h F"
  by (induction F arbitrary: h) auto

lemma alloc_ok_zero: "alloc_ok disk_ok handed b U \<Longrightarrow> 0 \<notin> U"
  by (simp add: alloc_ok_def)

lemma alloc_ok_put:
  assumes "alloc_ok disk_ok handed b U" and "p \<in> U"
  shows "alloc_ok disk_ok handed (put_page p x b) U"
proof -
  obtain F where F: "free_list (pages b) (free_list_head (header b)) F" "distinct F" "set F \<inter> U = {}"
    "free_list_count (header b) = length F" "U \<union> set F = handed (disk b)"
    using assms(1) by (auto simp: alloc_ok_def)
  have "free_list (pages (put_page p x b)) (free_list_head (header b)) F"
    using F(1) by (rule free_list_cong) (use F(3) assms(2) in auto)
  then show ?thesis using F assms(1) unfolding alloc_ok_def by auto
qed

lemma alloc_ok_header:
  assumes "alloc_ok disk_ok handed b U"
    and "free_list_head (f (header b)) = free_list_head (header b)"
    and "free_list_count (f (header b)) = free_list_count (header b)"
  shows "alloc_ok disk_ok handed (put_header f b) U"
  using assms by (simp add: alloc_ok_def)

lemma alloc_ok_free:
  assumes "alloc_ok disk_ok handed b U" and "p \<in> U"
  shows "alloc_ok disk_ok handed (free_page_at p b) (U - {p})"
proof -
  obtain F where F: "free_list (pages b) (free_list_head (header b)) F" "distinct F" "set F \<inter> U = {}"
    "free_list_count (header b) = length F" "U \<union> set F = handed (disk b)"
    using assms(1) by (auto simp: alloc_ok_def)
  have z: "p \<noteq> 0" using assms alloc_ok_zero by metis
  have "free_list (pages (free_page_at p b)) (free_list_head (header b)) F"
    using F(1) by (rule free_list_cong) (use F(3) assms(2) in \<open>auto simp: free_page_at_def\<close>)
  then have "free_list (pages (free_page_at p b)) p (p # F)"
    using z by (simp add: free_page_at_def)
  then show ?thesis
    using F assms unfolding alloc_ok_def free_page_at_def by (auto intro!: exI [of _ "p # F"])
qed

lemma free_page_at_tree [simp]: "same_tree_header b (free_page_at p c) = same_tree_header b c"
  by (simp add: same_tree_header_def free_page_at_def)

lemma free_page_at_pages: "pages (free_page_at p b) = (pages b)(p := Free_page (free_list_head (header b)))"
  by (simp add: free_page_at_def)

context page_file
begin

lemma allocate_raw_ok:
  assumes "alloc_ok disk_ok handed b U"
  shows "\<exists>p b'. allocate_raw grow b = Some (p, b') \<and> p \<notin> U \<and> p \<noteq> 0 \<and> pages b' = pages b \<and>
    same_tree_header b b' \<and> (\<forall>x. alloc_ok disk_ok handed (put_page p x b') (insert p U))"
proof -
  obtain F where F: "free_list (pages b) (free_list_head (header b)) F" "distinct F" "set F \<inter> U = {}"
    "free_list_count (header b) = length F" "U \<union> set F = handed (disk b)"
    and d: "disk_ok (disk b)" and z: "0 \<notin> U"
    using assms by (auto simp: alloc_ok_def)
  show ?thesis
  proof (cases F)
    case Nil
    then have h: "free_list_head (header b) = 0" using F(1) by simp
    obtain p f' where g: "grow (disk b) = (p, f')" by force
    from grow_fresh [OF d g] have p: "disk_ok f'" "p \<noteq> 0" "p \<notin> U" "insert p U = handed f'"
      using F(5) Nil by auto
    have "alloc_ok disk_ok handed (put_page p x (b\<lparr>disk := f'\<rparr>)) (insert p U)" for x
      unfolding alloc_ok_def using p z h F(4) Nil by (auto intro!: exI [of _ "[]"])
    then show ?thesis using p h g
      by (auto simp: allocate_raw_def same_tree_header_def)
  next
    case (Cons p F')
    then obtain n where h: "free_list_head (header b) = p" "p \<noteq> 0" "pages b p = Free_page n"
      "free_list (pages b) n F'" using F(1) by auto
    define b' where "b' = put_header (\<lambda>h. h\<lparr>free_list_head := n, free_list_count := free_list_count h - 1\<rparr>) b"
    have "alloc_ok disk_ok handed (put_page p x b') (insert p U)" for x
    proof -
      have "free_list ((pages b)(p := x)) n F'"
        using h(4) by (rule free_list_cong) (use F(2) Cons in auto)
      then show ?thesis
        unfolding alloc_ok_def b'_def using F d z h Cons by (auto intro!: exI [of _ F'])
    qed
    moreover have "allocate_raw grow b = Some (p, b')"
      using h by (simp add: allocate_raw_def b'_def Let_def)
    moreover have "same_tree_header b b'" "pages b' = pages b"
      by (simp_all add: b'_def same_tree_header_def)
    ultimately show ?thesis using F(3) h(2) Cons by auto
  qed
qed

lemma new_leaf_ok:
  assumes "alloc_ok disk_ok handed b U"
  obtains p b' l where "new_leaf grow b = Some (p, b')" and "p \<notin> U" and "p \<noteq> 0"
    and "pages b' = (pages b)(p := Leaf_page l)" and "get_leaf p b' = Some l"
    and "same_tree_header b b'" and "alloc_ok disk_ok handed b' (insert p U)"
    and "next_page l = 0" and "prev_page l = 0"
proof -
  obtain p b' where a: "allocate_raw grow b = Some (p, b')" "p \<notin> U" "p \<noteq> 0" "pages b' = pages b"
    "same_tree_header b b'" "\<And>x. alloc_ok disk_ok handed (put_page p x b') (insert p U)"
    using allocate_raw_ok [OF assms] by blast
  show thesis
    by (rule that [of p "put_page p (Leaf_page \<lparr>leaf_count = 0, next_page = 0, prev_page = 0,
        records = (\<lambda>_. undefined)\<rparr>) b'" "\<lparr>leaf_count = 0, next_page = 0, prev_page = 0,
        records = (\<lambda>_. undefined)\<rparr>"])
      (use a in \<open>simp_all add: new_leaf_def get_leaf_def\<close>)
qed

lemma new_branch_ok:
  assumes "alloc_ok disk_ok handed b U"
  obtains p b' br where "new_branch grow b = Some (p, b')" and "p \<notin> U" and "p \<noteq> 0"
    and "pages b' = (pages b)(p := Branch_page br)" and "get_branch p b' = Some br"
    and "same_tree_header b b'" and "alloc_ok disk_ok handed b' (insert p U)"
proof -
  obtain p b' where a: "allocate_raw grow b = Some (p, b')" "p \<notin> U" "p \<noteq> 0" "pages b' = pages b"
    "same_tree_header b b'" "\<And>x. alloc_ok disk_ok handed (put_page p x b') (insert p U)"
    using allocate_raw_ok [OF assms] by blast
  show thesis
    by (rule that [of p "put_page p (Branch_page \<lparr>branch_count = 0, seps = (\<lambda>_. undefined),
        children = (\<lambda>_. undefined)\<rparr>) b'"])
      (use a in \<open>simp_all add: new_branch_def get_branch_def\<close>)
qed

end

end
