(* ===== verification/Btree_Search.thy ===== *)
theory Btree_Search
  imports Btree_Alloc
begin

text \<open>
  Searching: the position of a key in a leaf, the child to descend into, and the leaf at the end
  of the descent. \<open>find_leaf\<close> reaches the one leaf of the tree that can hold the key.
\<close>

abbreviation leaf_recs :: "('k, 'v) leaf_page \<Rightarrow> ('k \<times> 'v) list" where
  "leaf_recs l \<equiv> arr (records l) (leaf_count l)"

lemma arr_drop_mem: "x \<in> set (drop r (arr a n)) \<longleftrightarrow> (\<exists>i. r \<le> i \<and> i < n \<and> x = a i)"
  by (auto simp: drop_map)

lemma arr_take_mem: "r \<le> n \<Longrightarrow> x \<in> set (take r (arr a n)) \<longleftrightarrow> (\<exists>i < r. x = a i)"
  by (auto simp: take_map)

lemma lower_bound_leaf_spec:
  assumes "sorted_wrt (<) (map fst (leaf_recs l))"
  shows "lower_bound_leaf l key \<le> leaf_count l \<and>
    (\<forall>r \<in> set (take (lower_bound_leaf l key) (leaf_recs l)). fst r < key) \<and>
    (\<forall>r \<in> set (drop (lower_bound_leaf l key) (leaf_recs l)). key \<le> fst r)"
proof -
  have "sorted (arr (\<lambda>i. fst (records l i)) (leaf_count l))"
    using strict_sorted_imp_sorted [OF assms] by (simp add: comp_def)
  from lower_bound_splits [OF sorted_nondecreasing [OF this], of 0 "leaf_count l" key]
  have "splits_at (\<lambda>i. key \<le> fst (records l i)) (leaf_count l) (lower_bound_leaf l key)"
    by (simp add: lower_bound_leaf_def)
  then show ?thesis unfolding splits_at_def not_le
    by (auto simp: arr_take_mem arr_drop_mem simp del: split_paired_All) (metis fst_conv)+
qed

lemma at_key_spec:
  assumes "sorted_wrt (<) (map fst (leaf_recs l))"
  shows "at_key l (lower_bound_leaf l key) key \<longleftrightarrow> key \<in> fst ` set (leaf_recs l)"
proof
  assume "at_key l (lower_bound_leaf l key) key"
  then show "key \<in> fst ` set (leaf_recs l)" by (force simp: at_key_def)
next
  assume "key \<in> fst ` set (leaf_recs l)"
  then obtain i where i: "i < leaf_count l" "fst (records l i) = key" by auto
  let ?p = "lower_bound_leaf l key"
  note s = lower_bound_leaf_spec [OF assms, of key]
  have "\<not> i < ?p"
  proof
    assume "i < ?p"
    then have "records l i \<in> set (take ?p (leaf_recs l))" using s by (auto simp: arr_take_mem)
    then show False using s i(2) by blast
  qed
  then have p: "?p \<le> i" "?p < leaf_count l" using i by auto
  have "records l ?p \<in> set (drop ?p (leaf_recs l))" using p(2) by (auto simp: arr_drop_mem)
  then have ge: "key \<le> fst (records l ?p)" using s by blast
  have "?p = i"
  proof (rule ccontr)
    assume "?p \<noteq> i"
    then have "?p < i" using p by simp
    then have "fst (records l ?p) < fst (records l i)"
      using assms i(1) p(2) by (simp add: sorted_wrt_iff_nth_less)
    then show False using ge i(2) by simp
  qed
  then show "at_key l ?p key" using i by (simp add: at_key_def)
qed

lemma records_map_of:
  assumes "sorted_wrt (<) (map fst (leaf_recs l))" and "at_key l pos key"
  shows "map_of (leaf_recs l) key = Some (snd (records l pos))"
proof (rule map_of_is_SomeI)
  show "distinct (map fst (leaf_recs l))" using strict_sorted_iff assms(1) by blast
  have "records l pos \<in> set (leaf_recs l)" using assms(2) by (auto simp: at_key_def)
  then show "(key, snd (records l pos)) \<in> set (leaf_recs l)"
    using assms(2) by (metis at_key_def prod.collapse)
qed

lemma child_index_spec:
  assumes "sorted_wrt (<) (arr (seps br) (branch_count br))"
  shows "child_index br key \<le> branch_count br \<and>
    (\<forall>k \<in> set (take (child_index br key) (arr (seps br) (branch_count br))). k \<le> key) \<and>
    (\<forall>k \<in> set (drop (child_index br key) (arr (seps br) (branch_count br))). key < k)"
proof -
  have "sorted (arr (seps br) (branch_count br))" using strict_sorted_imp_sorted [OF assms] .
  from upper_bound_splits [OF sorted_nondecreasing [OF this], of 0 "branch_count br" key]
  have "splits_at (\<lambda>i. key < seps br i) (branch_count br) (child_index br key)"
    by (simp add: child_index_def)
  then show ?thesis by (auto simp: splits_at_def arr_take_mem arr_drop_mem not_less)
qed

text \<open>The child that the search of a branch goes to, with what is on either side of it.\<close>

definition branch_at :: "(nat \<Rightarrow> ('k, 'v) page) \<Rightarrow> nat \<Rightarrow> 'k branch_page \<Rightarrow> 'k list \<Rightarrow> ('k, 'v) bt list \<Rightarrow> bool" where
  "branch_at g p br ks ts \<longleftrightarrow> g p = Branch_page br \<and> arr (seps br) (branch_count br) = ks \<and>
     arr (children br) (Suc (branch_count br)) = map page_no ts \<and> (\<forall>t \<in> set ts. rep g t)"

lemma rep_Nd: "rep g (Nd p ks ts) \<longleftrightarrow> (\<exists>br. branch_at g p br ks ts)"
  by (auto simp: branch_at_def)

lemma branch_child:
  assumes "branch_at g p br ks ts" and "seg (okt order h) lo hi ks ts" and "within lo hi key"
  obtains K L A t B where "ks = K @ L" and "ts = A @ t # B" and "length K = child_index br key"
    and "length A = child_index br key" and "children br (child_index br key) = page_no t"
    and "seg_before (okt order h) lo K A" and "okt order h (low_of lo K) (high_of hi L) t"
    and "seg_after (okt order h) hi L B" and "within (low_of lo K) (high_of hi L) key"
    and "\<And>u. u \<in> set A \<union> set B \<Longrightarrow> key \<notin> keys_of u" and "rep g t"
    and "\<forall>k \<in> set K. k \<le> key" and "\<forall>k \<in> set L. key < k"
proof -
  let ?ci = "child_index br key"
  have ks: "arr (seps br) (branch_count br) = ks"
    and ch: "arr (children br) (Suc (branch_count br)) = map page_no ts"
    and reps: "\<forall>t \<in> set ts. rep g t" using assms(1) by (simp_all add: branch_at_def del: upt_Suc)
  have len: "length ts = Suc (length ks)" using seg_length [OF assms(2)] .
  have cnt: "branch_count br = length ks" using ks by (metis length_map length_upt minus_nat.diff_0)
  define K L A t B where "K = take ?ci ks" and "L = drop ?ci ks" and "A = take ?ci ts"
    and "t = ts ! ?ci" and "B = drop (Suc ?ci) ts"
  note s = child_index_spec [of br key, unfolded ks, OF conjunct1 [OF seg_sorted [OF assms(2)]]]
  have ci: "?ci \<le> length ks" using s cnt by simp
  have ts: "ts = A @ t # B" using ci len by (simp add: A_def t_def B_def id_take_nth_drop)
  have kl: "ks = K @ L" by (simp add: K_def L_def)
  have lens: "length K = ?ci" "length A = ?ci" using ci len by (simp_all add: K_def A_def)
  have KL: "\<forall>k \<in> set K. k \<le> key" "\<forall>k \<in> set L. key < k" using s by (simp_all add: K_def L_def)
  have sg: "seg_before (okt order h) lo K A" "okt order h (low_of lo K) (high_of hi L) t"
    "seg_after (okt order h) hi L B"
    using assms(2) seg_at [of A K "okt order h" lo hi L t B] lens unfolding kl ts by simp_all
  have "children br ?ci = map page_no ts ! ?ci" using arr_nth [OF ch] ci cnt by simp
  then have "children br ?ci = page_no t" using ci len by (simp add: t_def)
  then show thesis
    using that [OF kl ts lens _ sg within_child [OF assms(3) KL] key_elsewhere [OF sg(1,3) KL] _ KL]
      reps ts by auto
qed

subsection \<open>The descent\<close>

lemma descend_leaf:
  assumes "rep (pages b) t" and "okt order h lo hi t" and "within lo hi key" and "0 \<notin> set (page_nos t)"
    and "h < depth"
  shows "\<exists>p l. descend depth key (page_no t) b = Some p \<and> p \<noteq> 0 \<and> pages b p = Leaf_page l \<and>
    p \<in> set (leaf_nos t) \<and> sorted_wrt (<) (map fst (leaf_recs l)) \<and>
    map_of (leaf_recs l) key = map_of (recs t) key"
  using assms
proof (induction depth arbitrary: h lo hi t)
  case (Suc depth)
  show ?case
  proof (cases t)
    case (Lf p rs)
    then show ?thesis using Suc.prems by auto
  next
    case (Nd p ks ts)
    obtain g where h: "h = Suc g" and sg: "seg (okt order g) lo hi ks ts"
      using Suc.prems(2) Nd by (auto simp: okt_Nd)
    obtain br where br: "branch_at (pages b) p br ks ts" using Suc.prems(1) Nd rep_Nd by blast
    obtain K L A u B where c: "ts = A @ u # B" "children br (child_index br key) = page_no u"
      "okt order g (low_of lo K) (high_of hi L) u" "within (low_of lo K) (high_of hi L) key"
      "\<forall>v \<in> set A \<union> set B. key \<notin> keys_of v" "rep (pages b) u"
      using branch_child [OF br sg Suc.prems(3)] by metis
    have z: "0 \<notin> set (page_nos u)" using Suc.prems(4) Nd c(1) by auto
    have step: "descend (Suc depth) key (page_no t) b = descend depth key (page_no u) b"
      using br Nd Suc.prems(4) c(2) by (simp add: branch_at_def)
    have none: "map_of (concat (map recs A)) key = None" "map_of (concat (map recs B)) key = None"
      using c(5) by (fastforce simp: map_of_eq_None_iff)+
    have "map_of (recs t) key = map_of (recs u) key"
      using none by (simp add: Nd c(1) map_add_def split: option.split)
    then show ?thesis
      using Suc.IH [OF c(6,3,4) z] Suc.prems(5) h step Nd c(1) by auto
  qed
qed simp

end
