(* ===== verification/Btree_State.thy ===== *)
theory Btree_State
  imports Btree_Search
begin

text \<open>
  When a B-tree holds a tree: the header, the pages, the links of the leaves and the account of the
  pages agree with it. What the lookups return then.
\<close>

definition entries :: "('k, 'v) bt option \<Rightarrow> ('k \<times> 'v) list" where
  "entries to = (case to of None \<Rightarrow> [] | Some t \<Rightarrow> recs t)"

definition tree_pages :: "('k, 'v) bt option \<Rightarrow> nat set" where
  "tree_pages to = (case to of None \<Rightarrow> {} | Some t \<Rightarrow> set (page_nos t))"

lemma entries_simps [simp]: "entries None = []" "entries (Some t) = recs t"
  and tree_pages_simps [simp]: "tree_pages None = {}" "tree_pages (Some t) = set (page_nos t)"
  by (simp_all add: entries_def tree_pages_def)

definition bt_holds ::
  "('f \<Rightarrow> bool) \<Rightarrow> ('f \<Rightarrow> nat set) \<Rightarrow> nat \<Rightarrow> ('k::linorder, 'v, 'f) btree \<Rightarrow> ('k, 'v) bt option \<Rightarrow> bool" where
  "bt_holds disk_ok handed order b to \<longleftrightarrow>
     alloc_ok disk_ok handed b (tree_pages to) \<and> elem_count (header b) = length (entries to) \<and>
     (case to of
        None \<Rightarrow> root_page (header b) = 0 \<and> first_leaf (header b) = 0 \<and> height (header b) = 0
      | Some t \<Rightarrow> root_page (header b) = page_no t \<and> take 1 (leaf_nos t) = [first_leaf (header b)] \<and>
          rep (pages b) t \<and> distinct (page_nos t) \<and> chain (pages b) 0 (leaf_nos t) 0 \<and>
          (\<exists>h. height (header b) = Suc h \<and> okt order h None None t))"

lemma bt_holds_Some: "bt_holds disk_ok handed order b (Some t) \<longleftrightarrow>
    alloc_ok disk_ok handed b (set (page_nos t)) \<and> elem_count (header b) = length (recs t) \<and>
    root_page (header b) = page_no t \<and> take 1 (leaf_nos t) = [first_leaf (header b)] \<and>
    rep (pages b) t \<and> distinct (page_nos t) \<and> chain (pages b) 0 (leaf_nos t) 0 \<and>
    (\<exists>h. height (header b) = Suc h \<and> okt order h None None t)"
  by (simp add: bt_holds_def)

lemma bt_holds_None: "bt_holds disk_ok handed order b None \<longleftrightarrow>
    alloc_ok disk_ok handed b {} \<and> elem_count (header b) = 0 \<and> root_page (header b) = 0 \<and>
    first_leaf (header b) = 0 \<and> height (header b) = 0"
  by (simp add: bt_holds_def)

text \<open>The invariant of the container.\<close>

definition bt_inv ::
  "('f \<Rightarrow> bool) \<Rightarrow> ('f \<Rightarrow> nat set) \<Rightarrow> nat \<Rightarrow> ('k::linorder, 'v, 'f) btree \<Rightarrow> bool" where
  "bt_inv disk_ok handed order b \<longleftrightarrow> (\<exists>to. bt_holds disk_ok handed order b to)"

lemma within_unbounded [simp]: "within None None k"
  by (simp add: within_def)

lemma bt_holds_sorted: "bt_holds disk_ok handed order b to \<Longrightarrow> sorted_wrt (<) (map fst (entries to))"
proof (cases to)
  case (Some t)
  assume "bt_holds disk_ok handed order b to"
  then obtain h where "okt order h None None t" unfolding Some bt_holds_Some by blast
  from okt_recs [OF this] show ?thesis by (simp add: ordered_recs_def Some)
qed simp

lemma sorted_keys_distinct:
  fixes rs :: "('k::linorder \<times> 'v) list"
  shows "sorted_wrt (<) (map fst rs) \<Longrightarrow> distinct (map fst rs)"
  by (simp add: strict_sorted_iff)

definition inserted_set :: "'k \<Rightarrow> 'v \<Rightarrow> ('k \<times> 'v) set \<Rightarrow> ('k \<times> 'v) set" where
  "inserted_set key val R = (if key \<in> fst ` R then R else insert (key, val) R)"

lemma map_of_same_at:
  assumes "distinct (map fst rs)" and "distinct (map fst rs')"
    and "\<And>x. (k, x) \<in> set rs' \<longleftrightarrow> (k, x) \<in> set rs"
  shows "map_of rs' k = map_of rs k"
proof (cases "map_of rs k")
  case None
  then have "k \<notin> fst ` set rs'" using assms(3) by (force simp: map_of_eq_None_iff)
  then show ?thesis using None by (simp add: map_of_eq_None_iff [symmetric])
next
  case (Some x)
  then have "(k, x) \<in> set rs'" using assms(3) map_of_SomeD by metis
  then show ?thesis using Some assms(2) by simp
qed

lemma map_of_inserted:
  fixes rs :: "('k::linorder \<times> 'v) list"
  assumes "sorted_wrt (<) (map fst rs)" and "sorted_wrt (<) (map fst rs')"
    and "set rs' = inserted_set key val (set rs)"
  shows "map_of rs' = (if map_of rs key = None then (map_of rs)(key \<mapsto> val) else map_of rs)"
proof (cases "map_of rs key = None")
  case True
  then have s: "set rs' = insert (key, val) (set rs)"
    using assms(3) by (simp add: inserted_set_def map_of_eq_None_iff)
  have "map_of rs' k = ((map_of rs)(key \<mapsto> val)) k" for k
    using map_of_same_at [OF assms(1,2) [THEN sorted_keys_distinct], of k]
      map_of_is_SomeI [OF sorted_keys_distinct [OF assms(2)], of key val] s by simp
  then show ?thesis using True by auto
next
  case False
  then have "set rs' = set rs" using assms(3) by (simp add: inserted_set_def map_of_eq_None_iff)
  then have "map_of rs' k = map_of rs k" for k
    using map_of_same_at [OF assms(1,2) [THEN sorted_keys_distinct], of k] by simp
  then show ?thesis using False by auto
qed

lemma length_inserted:
  fixes rs :: "('k::linorder \<times> 'v) list"
  assumes "sorted_wrt (<) (map fst rs)" and "sorted_wrt (<) (map fst rs')"
    and "set rs' = inserted_set key val (set rs)"
  shows "length rs' = (if key \<in> fst ` set rs then length rs else Suc (length rs))"
proof -
  have "distinct rs" "distinct rs'" using assms(1,2) sorted_keys_distinct distinct_map by blast+
  then have len: "length rs = card (set rs)" "length rs' = card (set rs')" by (simp_all add: distinct_card)
  have "(key, val) \<notin> set rs" if "key \<notin> fst ` set rs" using that by force
  then show ?thesis unfolding len assms(3) inserted_set_def by simp
qed

lemma bt_holds_leaf:
  assumes "bt_holds disk_ok handed order b (Some t)"
  obtains p l where "find_leaf key b = Some p" and "p \<noteq> 0" and "pages b p = Leaf_page l"
    and "p \<in> set (leaf_nos t)" and "sorted_wrt (<) (map fst (leaf_recs l))"
    and "map_of (leaf_recs l) key = map_of (recs t) key"
proof -
  obtain h where h: "height (header b) = Suc h" "okt order h None None t" "rep (pages b) t"
    "root_page (header b) = page_no t" "alloc_ok disk_ok handed b (set (page_nos t))"
    using assms unfolding bt_holds_Some by blast
  have "0 \<notin> set (page_nos t)" using alloc_ok_zero [OF h(5)] .
  from descend_leaf [OF h(3,2) within_unbounded this, of "Suc (Suc h)" key] h(1,4) that
  show thesis by (auto simp: find_leaf_def)
qed

lemma find_leaf_empty: "root_page (header b) = 0 \<Longrightarrow> find_leaf key b = Some 0"
  by (simp add: find_leaf_def split: page.split)

subsection \<open>Lookups\<close>

lemma find_value_ok:
  assumes "bt_holds disk_ok handed order b to"
  shows "find_value key b = Some (map_of (entries to) key)"
proof (cases to)
  case None
  then show ?thesis using assms by (simp add: find_value_def find_leaf_empty bt_holds_def)
next
  case (Some t)
  obtain p l where l: "find_leaf key b = Some p" "p \<noteq> 0" "pages b p = Leaf_page l"
    "sorted_wrt (<) (map fst (leaf_recs l))" "map_of (leaf_recs l) key = map_of (recs t) key"
    by (rule bt_holds_leaf [OF assms [unfolded Some]])
  show ?thesis
  proof (cases "at_key l (lower_bound_leaf l key) key")
    case True
    then show ?thesis
      using l records_map_of [OF l(4) True] Some by (simp add: find_value_def get_leaf_def)
  next
    case False
    then have "map_of (leaf_recs l) key = None"
      using at_key_spec [OF l(4)] by (simp add: map_of_eq_None_iff)
    then show ?thesis using False l Some by (simp add: find_value_def get_leaf_def)
  qed
qed

lemma bt_at_find_value:
  "bt_at key b = map_option (\<lambda>r. case r of Some v \<Rightarrow> Value v | None \<Rightarrow> Out_of_range) (find_value key b)"
  by (auto simp: bt_at_def find_value_def Let_def split: Option.bind_splits)

lemma bt_contains_find_value: "bt_contains key b = map_option (\<lambda>r. r \<noteq> None) (find_value key b)"
  by (auto simp: bt_contains_def bt_find_def find_value_def Let_def split: Option.bind_splits)

end
