(* ===== verification/Btree_Insert.thy ===== *)
theory Btree_Insert
  imports Btree_State
begin

text \<open>
  Insertion keeps the tree. The lemma on \<open>insert_rec\<close> describes the one or two trees that stand
  where the visited subtree stood, inside the chain of all leaves and the account of all pages.
\<close>

subsection \<open>Leaves\<close>

lemma leaf_insert_at_simps [simp]:
  "leaf_count (leaf_insert_at l pos k v) = Suc (leaf_count l)"
  "next_page (leaf_insert_at l pos k v) = next_page l"
  "prev_page (leaf_insert_at l pos k v) = prev_page l"
  by (simp_all add: leaf_insert_at_def)

lemma leaf_insert_at_recs:
  "pos \<le> leaf_count l \<Longrightarrow>
     leaf_recs (leaf_insert_at l pos k v) = take pos (leaf_recs l) @ (k, v) # drop pos (leaf_recs l)"
  using arr_insert [of pos "leaf_count l" "records l" "(k, v)"] by (simp add: leaf_insert_at_def)

definition inserted_rec :: "'k::linorder \<Rightarrow> 'v \<Rightarrow> ('k \<times> 'v) list \<Rightarrow> ('k \<times> 'v) list \<Rightarrow> bool" where
  "inserted_rec key val rs rs' \<longleftrightarrow> sorted_wrt (<) (map fst rs') \<and> set rs' = insert (key, val) (set rs) \<and>
     length rs' = Suc (length rs) \<and> (rs \<noteq> [] \<longrightarrow> fst (hd rs) < key \<longrightarrow> fst (hd rs') = fst (hd rs))"

lemma leaf_insert_spec:
  assumes "sorted_wrt (<) (map fst (leaf_recs l))" and "key \<notin> fst ` set (leaf_recs l)"
  shows "inserted_rec key val (leaf_recs l) (leaf_recs (leaf_insert_at l (lower_bound_leaf l key) key val))"
proof -
  let ?p = "lower_bound_leaf l key"
  let ?rs = "leaf_recs l"
  note s = lower_bound_leaf_spec [OF assms(1), of key]
  define X Y where "X = take ?p ?rs" and "Y = drop ?p ?rs"
  have rs: "?rs = X @ Y" by (simp add: X_def Y_def)
  have new: "leaf_recs (leaf_insert_at l ?p key val) = X @ (key, val) # Y"
    unfolding X_def Y_def by (rule leaf_insert_at_recs) (use s in blast)
  have X: "\<forall>r \<in> set X. fst r < key" using s by (simp add: X_def)
  have ge: "\<forall>r \<in> set Y. key \<le> fst r" using s by (simp add: Y_def)
  have "\<forall>r \<in> set Y. fst r \<noteq> key" using assms(2) rs by (metis Un_iff image_eqI set_append)
  with ge have Y: "\<forall>r \<in> set Y. key < fst r" by (metis order.not_eq_order_implies_strict)
  have "sorted_wrt (<) (map fst (X @ (key, val) # Y))"
    using assms(1) X Y unfolding rs by (auto simp: sorted_wrt_append)
  moreover have "fst (hd (X @ (key, val) # Y)) = fst (hd (X @ Y))" if "fst (hd (X @ Y)) < key" "X @ Y \<noteq> []"
    using that Y by (cases X; cases Y) auto
  ultimately show ?thesis unfolding inserted_rec_def new rs by auto
qed

subsection \<open>The chain of leaves\<close>

lemma chain_insert_after:
  assumes "chain g 0 (A @ p # B) 0" and "distinct (A @ p # B)" and "r \<notin> set (A @ p # B)"
    and "g p = Leaf_page l"
    and "g' p = Leaf_page l'" and "prev_page l' = prev_page l" and "next_page l' = r"
    and "g' r = Leaf_page r'" and "prev_page r' = p" and "next_page r' = next_page l"
    and "\<And>q lq. B \<noteq> [] \<Longrightarrow> q = hd B \<Longrightarrow> g q = Leaf_page lq \<Longrightarrow>
      \<exists>lq'. g' q = Leaf_page lq' \<and> prev_page lq' = r \<and> next_page lq' = next_page lq"
    and "\<And>q. q \<in> set A \<union> set (tl B) \<Longrightarrow> g' q = g q"
  shows "chain g' 0 (A @ p # r # B) 0"
proof -
  have A: "chain g 0 A p" and p: "chain g (if A = [] then 0 else last A) (p # B) 0"
    using assms(1) by (auto simp: chain_append)
  have "chain g' 0 A p" using A by (rule chain_cong) (simp add: assms(12))
  moreover have "chain g' r B 0"
  proof (cases B)
    case (Cons q B')
    then obtain lq where lq: "g q = Leaf_page lq" "next_page lq = (case B' of [] \<Rightarrow> 0 | x # _ \<Rightarrow> x)"
      "chain g q B' 0" using p by auto
    obtain lq' where "g' q = Leaf_page lq'" "prev_page lq' = r" "next_page lq' = next_page lq"
      using assms(11) [OF _ _ lq(1)] Cons by (metis list.distinct(1) list.sel(1))
    moreover have "chain g' q B' 0" using lq(3) by (rule chain_cong) (simp add: assms(12) Cons)
    ultimately show ?thesis using lq(2) Cons by simp
  qed simp
  moreover have "prev_page l = (if A = [] then 0 else last A)" "next_page l = (case B of [] \<Rightarrow> 0 | x # _ \<Rightarrow> x)"
    using p assms(4) by auto
  ultimately show ?thesis using assms(5-10) by (simp add: chain_append)
qed

subsection \<open>What an insertion into a subtree does\<close>

text \<open>A subtree \<open>t\<close> inside the tree: the leaves before and after it, the pages in use.\<close>

definition part_of ::
  "('f \<Rightarrow> bool) \<Rightarrow> ('f \<Rightarrow> nat set) \<Rightarrow> nat set \<Rightarrow> nat list \<Rightarrow> nat list \<Rightarrow> ('k, 'v, 'f) btree \<Rightarrow> ('k, 'v) bt \<Rightarrow> bool"
where
  "part_of disk_ok handed U A B b t \<longleftrightarrow>
     rep (pages b) t \<and> distinct (page_nos t) \<and> set (page_nos t) \<subseteq> U \<and> alloc_ok disk_ok handed b U \<and>
     chain (pages b) 0 (A @ leaf_nos t @ B) 0 \<and> distinct (A @ leaf_nos t @ B) \<and>
     set A \<union> set B \<subseteq> U - set (page_nos t)"

text \<open>The trees \<open>T\<close>, with separators \<open>ks\<close>, that stand for \<open>t\<close> afterwards.\<close>

definition grown ::
  "('f \<Rightarrow> bool) \<Rightarrow> ('f \<Rightarrow> nat set) \<Rightarrow> nat set \<Rightarrow> nat list \<Rightarrow> nat list \<Rightarrow> ('k, 'v, 'f) btree \<Rightarrow> ('k, 'v) bt \<Rightarrow>
   ('k, 'v, 'f) btree \<Rightarrow> ('k, 'v) bt list \<Rightarrow> bool"
where
  "grown disk_ok handed U A B b t b' T \<longleftrightarrow>
     (\<forall>u \<in> set T. rep (pages b') u) \<and> distinct (concat (map page_nos T)) \<and>
     set (concat (map page_nos T)) \<inter> U = set (page_nos t) \<and>
     alloc_ok disk_ok handed b' (U \<union> set (concat (map page_nos T))) \<and>
     chain (pages b') 0 (A @ concat (map leaf_nos T) @ B) 0 \<and>
     (\<forall>p \<in> U - set (page_nos t). content (pages b' p) = content (pages b p)) \<and>
     same_tree_header b b' \<and> T \<noteq> [] \<and> page_no (hd T) = page_no t \<and>
     take 1 (concat (map leaf_nos T)) = take 1 (leaf_nos t)"

text \<open>What an insertion into \<open>t\<close> leaves: one tree, or two with the promoted key between them.\<close>

definition insert_outcome ::
  "('f \<Rightarrow> bool) \<Rightarrow> ('f \<Rightarrow> nat set) \<Rightarrow> nat \<Rightarrow> nat set \<Rightarrow> nat list \<Rightarrow> nat list \<Rightarrow> nat \<Rightarrow> 'k::linorder option \<Rightarrow>
   'k option \<Rightarrow> 'k \<Rightarrow> 'v \<Rightarrow> ('k, 'v, 'f) btree \<Rightarrow> ('k, 'v) bt \<Rightarrow> 'k insert_result \<Rightarrow> ('k, 'v, 'f) btree \<Rightarrow> bool"
where
  "insert_outcome disk_ok handed order U A B h lo hi key val b t res b' \<longleftrightarrow>
     inserted res = (key \<notin> keys_of t) \<and>
     (if was_split res
      then \<exists>t1 t2. page_no t2 = right_idx res \<and> grown disk_ok handed U A B b t b' [t1, t2] \<and>
        okt order h lo (Some (promo_key res)) t1 \<and> okt order h (Some (promo_key res)) hi t2 \<and>
        set (recs t1) \<union> set (recs t2) = inserted_set key val (set (recs t))
      else \<exists>t1. grown disk_ok handed U A B b t b' [t1] \<and> okt order h lo hi t1 \<and>
        set (recs t1) = inserted_set key val (set (recs t)))"

lemma insert_outcome_one:
  assumes "\<not> was_split res" and "inserted res = (key \<notin> keys_of t)"
    and "grown disk_ok handed U A B b t b' [t1]" and "okt order h lo hi t1"
    and "set (recs t1) = inserted_set key val (set (recs t))"
  shows "insert_outcome disk_ok handed order U A B h lo hi key val b t res b'"
  unfolding insert_outcome_def using assms by auto

lemma insert_outcome_two:
  assumes "was_split res" and "inserted res = (key \<notin> keys_of t)" and "page_no t2 = right_idx res"
    and "grown disk_ok handed U A B b t b' [t1, t2]" and "okt order h lo (Some (promo_key res)) t1"
    and "okt order h (Some (promo_key res)) hi t2"
    and "set (recs t1) \<union> set (recs t2) = inserted_set key val (set (recs t))"
  shows "insert_outcome disk_ok handed order U A B h lo hi key val b t res b'"
  unfolding insert_outcome_def using assms by auto

lemma insert_outcome_cases:
  assumes "insert_outcome disk_ok handed order U A B h lo hi key val b t res b'"
  obtains (one) t1 where "\<not> was_split res" and "inserted res = (key \<notin> keys_of t)"
    and "grown disk_ok handed U A B b t b' [t1]" and "okt order h lo hi t1"
    and "set (recs t1) = inserted_set key val (set (recs t))"
  | (two) t1 t2 where "was_split res" and "inserted res = (key \<notin> keys_of t)"
    and "page_no t2 = right_idx res"
    and "grown disk_ok handed U A B b t b' [t1, t2]" and "okt order h lo (Some (promo_key res)) t1"
    and "okt order h (Some (promo_key res)) hi t2"
    and "set (recs t1) \<union> set (recs t2) = inserted_set key val (set (recs t))"
  using assms unfolding insert_outcome_def by (auto split: if_splits)

lemma part_of_leaf:
  assumes "part_of disk_ok handed U A B b (Lf p rs)"
  obtains l where "pages b p = Leaf_page l" and "leaf_recs l = rs" and "p \<in> U" and "p \<notin> set A \<union> set B"
    and "chain (pages b) 0 (A @ p # B) 0" and "distinct (A @ p # B)" and "alloc_ok disk_ok handed b U"
    and "set A \<union> set B \<subseteq> U"
  using assms by (auto simp: part_of_def)

lemma chain_member: "chain g prev ps nxt \<Longrightarrow> p \<in> set ps \<Longrightarrow> \<exists>l. g p = Leaf_page l"
  by (induction ps arbitrary: prev) auto

lemma chain_next: "chain g prev (A @ p # B) nxt \<Longrightarrow> g p = Leaf_page l \<Longrightarrow>
    next_page l = (case B of [] \<Rightarrow> nxt | q # _ \<Rightarrow> q)"
  by (auto simp: chain_append)

lemma chain_prev: "chain g prev (A @ p # B) nxt \<Longrightarrow> g p = Leaf_page l \<Longrightarrow>
    prev_page l = (if A = [] then prev else last A)"
  by (auto simp: chain_append)

text \<open>Splitting the records of a full leaf and inserting one of the halves.\<close>

lemma split_records:
  assumes "okt order 0 lo hi (Lf p rs)" and "within lo hi key" and "length rs = order" and "2 \<le> order"
    and "key \<notin> fst ` set rs"
    and "m = fst (hd (drop (order div 2) rs))"
    and "if key < m then inserted_rec key val (take (order div 2) rs) L \<and> R = drop (order div 2) rs
         else L = take (order div 2) rs \<and> inserted_rec key val (drop (order div 2) rs) R"
  shows "okt order 0 lo (Some m) (Lf p L) \<and> okt order 0 (Some m) hi (Lf r R) \<and>
    set L \<union> set R = insert (key, val) (set rs) \<and> fst (hd R) = m"
proof -
  define X Y where "X = take (order div 2) rs" and "Y = drop (order div 2) rs"
  have rs: "rs = X @ Y" and lens: "length X < order" "length Y < order" "X \<noteq> []" "Y \<noteq> []"
    using assms(3,4) by (auto simp: X_def Y_def)
  have m: "m = fst (hd Y)" "m \<in> fst ` set Y" using assms(6) lens by (auto simp: Y_def)
  have s: "sorted_wrt (<) (map fst X)" "sorted_wrt (<) (map fst Y)"
    "\<forall>x \<in> set X. \<forall>y \<in> set Y. fst x < fst y"
    using assms(1) by (auto simp: rs sorted_wrt_append)
  have "hd Y \<in> set Y" using lens(4) by simp
  then have Xm: "\<forall>x \<in> set X. fst x < m" using s(3) m(1) by blast
  have Ym: "\<forall>y \<in> set Y. m \<le> fst y" using s(2) lens(4) m(1) by (cases Y) auto
  have w: "\<forall>x \<in> set X \<union> set Y. within lo hi (fst x)" using assms(1) rs by auto
  have cut: "within lo (Some m) k" if "within lo hi k" "k < m" for k
    using that by (simp add: within_def)
  have cut': "within (Some m) hi k" if "within lo hi k" "m \<le> k" for k
    using that by (simp add: within_def)
  have key: "key \<noteq> m" using assms(5) m(2) rs by auto
  show ?thesis
  proof (cases "key < m")
    case True
    then have i: "inserted_rec key val X L" and R: "R = Y" using assms(7) by (auto simp: X_def Y_def)
    have "set L = insert (key, val) (set X)" "length L \<le> order" "L \<noteq> []" "sorted_wrt (<) (map fst L)"
      using i lens by (auto simp: inserted_rec_def)
    then show ?thesis
      using True Xm Ym w assms(2) cut cut' s(2) lens m(1) by (auto simp: R rs)
  next
    case False
    then have i: "inserted_rec key val Y R" and L: "L = X" using assms(7) by (auto simp: X_def Y_def)
    have mk: "m < key" using False key by simp
    have "set R = insert (key, val) (set Y)" "length R \<le> order" "R \<noteq> []" "sorted_wrt (<) (map fst R)"
      "fst (hd R) = m"
      using i lens m(1) mk by (auto simp: inserted_rec_def)
    then show ?thesis
      using mk Xm Ym w assms(2) cut cut' s(1) lens by (auto simp: L rs)
  qed
qed

lemma put_page_twice [simp]: "put_page p x (put_page p y b) = put_page p x b"
  by (simp add: put_page_def)

lemma put_page_swap: "p \<noteq> q \<Longrightarrow> put_page p x (put_page q y b) = put_page q y (put_page p x b)"
  by (simp add: put_page_def fun_upd_twist)

lemma get_leaf_put [simp]:
  "get_leaf q (put_page p (Leaf_page l) b) = (if q = p then Some l else get_leaf q b)"
  by (simp add: get_leaf_def)

text \<open>The run of \<open>insert_leaf\<close> that splits: the pages it leaves.\<close>

lemma insert_leaf_split_run:
  fixes l x :: "('k::linorder, 'v) leaf_page"
  assumes "get_leaf p b = Some l" and "leaf_count l = order" and "\<not> at_key l (lower_bound_leaf l key) key"
    and "new_leaf grow b = Some (r, b1)" and "get_leaf r b1 = Some x" and "get_leaf p b1 = Some l"
    and "r \<noteq> p" and "q = next_page l"
    and "q \<noteq> 0 \<Longrightarrow> get_leaf q b1 = Some lq \<and> q \<noteq> p \<and> q \<noteq> r"
    and "l' = l\<lparr>leaf_count := order div 2, next_page := r\<rparr>"
    and "x' = x\<lparr>leaf_count := order - order div 2,
                records := copy_places (order - order div 2) (order div 2) (records l) (records x),
                next_page := q, prev_page := p\<rparr>"
    and "l1 = (if key < fst (records x' 0) then leaf_insert_at l' (lower_bound_leaf l' key) key val else l')"
    and "x1 = (if key < fst (records x' 0) then x' else leaf_insert_at x' (lower_bound_leaf x' key) key val)"
    and "b2 = (if q = 0 then b1 else put_page q (Leaf_page (lq\<lparr>prev_page := r\<rparr>)) b1)"
  shows "insert_leaf order grow p key val b =
    Some (\<lparr>inserted = True, was_split = True, promo_key = fst (records x1 0), right_idx = r\<rparr>,
      put_page r (Leaf_page x1) (put_page p (Leaf_page l1) b2))"
proof (cases "q = 0")
  case True
  then show ?thesis using assms(1-8)
    by (auto simp: insert_leaf_def Let_def assms(10-14) fun_eq_iff intro!: btree.equality)
next
  case False
  then show ?thesis using assms(1-9)
    by (auto simp: insert_leaf_def Let_def assms(10-14) update_leaf_def fun_eq_iff intro!: btree.equality)
qed

context page_file
begin

lemma insert_leaf_no_split:
  assumes "part_of disk_ok handed U A B b (Lf p rs)" and "okt order 0 lo hi (Lf p rs)"
    and "within lo hi key" and "key \<in> fst ` set rs \<or> length rs < order"
  shows "\<exists>res b'. insert_leaf order grow p key val b = Some (res, b') \<and>
    insert_outcome disk_ok handed order U A B 0 lo hi key val b (Lf p rs) res b'"
proof -
  obtain l where l: "pages b p = Leaf_page l" "leaf_recs l = rs" "p \<in> U" "p \<notin> set A \<union> set B"
    "chain (pages b) 0 (A @ p # B) 0" "distinct (A @ p # B)" "alloc_ok disk_ok handed b U"
    by (rule part_of_leaf [OF assms(1)])
  have srt: "sorted_wrt (<) (map fst (leaf_recs l))" using assms(2) l(2) by simp
  note at = at_key_spec [OF srt, of key]
  show ?thesis
  proof (cases "key \<in> fst ` set rs")
    case True
    then have "insert_leaf order grow p key val b =
        Some (\<lparr>inserted = False, was_split = False, promo_key = key, right_idx = 0\<rparr>, b)"
      using at l by (simp add: insert_leaf_def get_leaf_def)
    moreover have "U \<union> {p} = U" using l(3) by blast
    ultimately show ?thesis
      using True assms(2) l by (auto simp: insert_outcome_def grown_def inserted_set_def
          intro!: exI [of _ "Lf p rs"])
  next
    case False
    define l' where "l' = leaf_insert_at l (lower_bound_leaf l key) key val"
    have i: "inserted_rec key val rs (leaf_recs l')"
      unfolding l'_def l(2) [symmetric] using leaf_insert_spec [OF srt] False l(2) by simp
    have len: "length rs = leaf_count l" using l(2) by auto
    let ?b = "put_page p (Leaf_page l') b"
    have run: "insert_leaf order grow p key val b =
        Some (\<lparr>inserted = True, was_split = False, promo_key = key, right_idx = 0\<rparr>, ?b)"
      using at l False assms(4) len by (simp add: insert_leaf_def get_leaf_def l'_def)
    obtain rs' where rs': "leaf_recs l' = rs'" by simp
    have "alloc_ok disk_ok handed ?b U" using alloc_ok_put [OF l(7,3)] .
    moreover have "chain (pages ?b) 0 (A @ p # B) 0" unfolding put_page_simps
      using l(5) by (rule chain_links_cong) (simp add: same_links_def l(1) l'_def)
    moreover have "rep (pages ?b) (Lf p rs')" using rs' by simp
    moreover have "U \<union> {p} = U" "{p} \<inter> U = {p}" using l(3) by blast+
    ultimately have "grown disk_ok handed U A B b (Lf p rs) ?b [Lf p rs']" by (simp add: grown_def)
    moreover have "okt order 0 lo hi (Lf p rs')"
      using i assms(2,3,4) False by (auto simp: rs' inserted_rec_def)
    moreover have "set rs' = inserted_set key val (set rs)"
      using i False by (simp add: rs' inserted_rec_def inserted_set_def)
    ultimately show ?thesis using run False
      by (auto simp: insert_outcome_def intro!: exI [of _ "Lf p rs'"])
  qed
qed

lemma insert_leaf_split:
  assumes "part_of disk_ok handed U A B b (Lf p rs)" and "okt order 0 lo hi (Lf p rs)"
    and "within lo hi key" and "key \<notin> fst ` set rs" and "length rs = order" and "2 \<le> order"
  shows "\<exists>res b'. insert_leaf order grow p key val b = Some (res, b') \<and>
    insert_outcome disk_ok handed order U A B 0 lo hi key val b (Lf p rs) res b'"
proof -
  obtain l where l: "pages b p = Leaf_page l" "leaf_recs l = rs" "p \<in> U" "p \<notin> set A \<union> set B"
    "chain (pages b) 0 (A @ p # B) 0" "distinct (A @ p # B)" "alloc_ok disk_ok handed b U"
    "set A \<union> set B \<subseteq> U"
    by (rule part_of_leaf [OF assms(1)])
  have srt: "sorted_wrt (<) (map fst (leaf_recs l))" using assms(2) l(2) by simp
  have cnt: "leaf_count l = order" using l(2) assms(5) by auto
  obtain r b1 x where r: "new_leaf grow b = Some (r, b1)" "r \<notin> U" "r \<noteq> 0"
    "pages b1 = (pages b)(r := Leaf_page x)" "get_leaf r b1 = Some x" "same_tree_header b b1"
    "alloc_ok disk_ok handed b1 (insert r U)" "next_page x = 0" "prev_page x = 0"
    by (rule new_leaf_ok [OF l(7)])
  have rp: "r \<noteq> p" using r(2) l(3) by blast
  let ?q = "next_page l"
  have q: "?q = (case B of [] \<Rightarrow> 0 | y # _ \<Rightarrow> y)" using chain_next [OF l(5,1)] .
  have z: "0 \<notin> U" using alloc_ok_zero [OF l(7)] .
  have qU: "?q \<noteq> 0 \<Longrightarrow> B \<noteq> [] \<and> ?q = hd B \<and> ?q \<in> U \<and> ?q \<noteq> p \<and> ?q \<noteq> r"
    using q l(4,8) r(2) by (cases B) auto
  have "\<exists>lq. ?q \<noteq> 0 \<longrightarrow> pages b ?q = Leaf_page lq"
    using qU chain_member [OF l(5), of ?q] by (cases "?q = 0") auto
  then obtain lq where lq: "?q \<noteq> 0 \<Longrightarrow> pages b ?q = Leaf_page lq" by blast
  define l' where "l' = l\<lparr>leaf_count := order div 2, next_page := r\<rparr>"
  define x' where "x' = x\<lparr>leaf_count := order - order div 2,
    records := copy_places (order - order div 2) (order div 2) (records l) (records x),
    next_page := ?q, prev_page := p\<rparr>"
  define l1 where "l1 = (if key < fst (records x' 0)
    then leaf_insert_at l' (lower_bound_leaf l' key) key val else l')"
  define x1 where "x1 = (if key < fst (records x' 0)
    then x' else leaf_insert_at x' (lower_bound_leaf x' key) key val)"
  define b2 where "b2 = (if ?q = 0 then b1 else put_page ?q (Leaf_page (lq\<lparr>prev_page := r\<rparr>)) b1)"
  define b' where "b' = put_page r (Leaf_page x1) (put_page p (Leaf_page l1) b2)"
  have run: "insert_leaf order grow p key val b =
      Some (\<lparr>inserted = True, was_split = True, promo_key = fst (records x1 0), right_idx = r\<rparr>, b')"
    unfolding b'_def
  proof (rule insert_leaf_split_run [OF _ cnt _ r(1,5) _ rp refl _ l'_def x'_def l1_def x1_def b2_def])
    show "\<not> at_key l (lower_bound_leaf l key) key" using at_key_spec [OF srt] assms(4) l(2) by simp
    show "?q \<noteq> 0 \<Longrightarrow> get_leaf ?q b1 = Some lq \<and> ?q \<noteq> p \<and> ?q \<noteq> r"
      using qU lq r(4) by (simp add: get_leaf_def)
  qed (use l(1) r(4) rp in \<open>simp_all add: get_leaf_def\<close>)
  have recs': "leaf_recs l' = take (order div 2) rs" "leaf_recs x' = drop (order div 2) rs"
    using l(2) cnt by (auto simp: l'_def x'_def arr_copy take_map)
  obtain L R where LR: "leaf_recs l1 = L" "leaf_recs x1 = R" by simp
  have srt': "sorted_wrt (<) (map fst (leaf_recs l'))" "sorted_wrt (<) (map fst (leaf_recs x'))"
    unfolding recs' take_map [symmetric] drop_map [symmetric]
    using srt l(2) by (simp_all add: sorted_wrt_take sorted_wrt_drop)
  have key': "key \<notin> fst ` set (leaf_recs l')" "key \<notin> fst ` set (leaf_recs x')"
    unfolding recs' using assms(4) by (auto dest: in_set_takeD in_set_dropD)
  have hd': "fst (records x' 0) = fst (hd (drop (order div 2) rs))"
    unfolding recs' [symmetric] using assms(6) by (simp add: x'_def hd_map upt_conv_Cons)
  have "if key < fst (records x' 0)
      then inserted_rec key val (take (order div 2) rs) L \<and> R = drop (order div 2) rs
      else L = take (order div 2) rs \<and> inserted_rec key val (drop (order div 2) rs) R"
    using leaf_insert_spec [OF srt'(1) key'(1), of val] leaf_insert_spec [OF srt'(2) key'(2), of val]
      LR recs' unfolding l1_def x1_def
    by (cases "key < fst (records x' 0)") (simp_all del: leaf_insert_at_simps upt_Suc)
  from split_records [OF assms(2,3,5,6,4) hd' this, of r]
  have sp: "okt order 0 lo (Some (fst (hd R))) (Lf p L)" "okt order 0 (Some (fst (hd R))) hi (Lf r R)"
    "set L \<union> set R = insert (key, val) (set rs)" by simp_all
  have "R \<noteq> []" using sp(2) by simp
  then have promo: "fst (records x1 0) = fst (hd R)"
    using LR(2) by (cases "leaf_count x1") (auto simp: upt_conv_Cons simp del: upt_Suc)
  have links: "prev_page l1 = prev_page l" "next_page l1 = r" "prev_page x1 = p" "next_page x1 = ?q"
    by (simp_all add: l1_def x1_def l'_def x'_def)
  have pg: "pages b' p = Leaf_page l1" "pages b' r = Leaf_page x1"
    "\<And>i. i \<noteq> p \<Longrightarrow> i \<noteq> r \<Longrightarrow> i \<noteq> ?q \<Longrightarrow> pages b' i = pages b i"
    "?q \<noteq> 0 \<Longrightarrow> pages b' ?q = Leaf_page (lq\<lparr>prev_page := r\<rparr>)"
    using rp qU r(4) by (auto simp: b'_def b2_def)
  have "chain (pages b') 0 (A @ p # r # B) 0"
  proof (rule chain_insert_after [OF l(5,6) _ l(1) pg(1) links(1,2) pg(2) links(3,4)])
    show "r \<notin> set (A @ p # B)" using r(2) l(3,8) by auto
    fix i assume i: "i \<in> set A \<union> set (tl B)"
    then have "i \<in> set A \<union> set B" by (cases B) auto
    then have iU: "i \<in> U" "i \<noteq> p" using l(4,8) by blast+
    have "i \<noteq> ?q"
    proof (cases B)
      case Nil
      then have "?q = 0" using q by simp
      then show ?thesis using iU(1) z by metis
    next
      case (Cons y B')
      then show ?thesis using i l(6) unfolding q by auto
    qed
    then show "pages b' i = pages b i" using pg(3) r(2) iU by blast
  next
    fix i li assume i: "B \<noteq> []" "i = hd B" "pages b i = Leaf_page li"
    have "i \<in> U" using i(1,2) l(8) hd_in_set by blast
    then have "i \<noteq> 0" using z by metis
    moreover have "i = ?q" using i(1,2) q by (cases B) simp_all
    ultimately have "i = ?q" "?q \<noteq> 0" by simp_all
    then show "\<exists>lq'. pages b' i = Leaf_page lq' \<and> prev_page lq' = r \<and> next_page lq' = next_page li"
      using pg(4) lq i(3) by simp
  qed
  moreover have "alloc_ok disk_ok handed b' (U \<union> {p, r})"
  proof -
    have "alloc_ok disk_ok handed b2 (insert r U)"
      using r(7) alloc_ok_put [OF r(7)] qU by (simp add: b2_def)
    then have "alloc_ok disk_ok handed b' (insert r U)"
      unfolding b'_def by (intro alloc_ok_put) (use l(3) in auto)
    moreover have "U \<union> {p, r} = insert r U" using l(3) by blast
    ultimately show ?thesis by simp
  qed
  moreover have "content (pages b' i) = content (pages b i)" if i: "i \<in> U - {p}" for i
  proof -
    have "i \<noteq> 0" "i \<noteq> r" "i \<noteq> p" using i r(2) z by (metis DiffD1, metis DiffD1, blast)
    then show ?thesis using pg(3) [of i] pg(4) lq by (cases "i = ?q") simp_all
  qed
  moreover have "same_tree_header b b'" using r(6) by (simp add: b'_def b2_def)
  moreover have "{p, r} \<inter> U = {p}" using r(2) l(3) by blast
  moreover have "rep (pages b') (Lf p L)" "rep (pages b') (Lf r R)" using pg LR by simp_all
  ultimately have "grown disk_ok handed U A B b (Lf p rs) b' [Lf p L, Lf r R]"
    using rp by (simp add: grown_def)
  then have "insert_outcome disk_ok handed order U A B 0 lo hi key val b (Lf p rs)
      \<lparr>inserted = True, was_split = True, promo_key = fst (records x1 0), right_idx = r\<rparr> b'"
    by (rule insert_outcome_two [rotated 3]) (use assms(4) sp promo in \<open>simp_all add: inserted_set_def\<close>)
  with run show ?thesis by blast
qed

lemma insert_leaf_ok:
  assumes "part_of disk_ok handed U A B b (Lf p rs)" and "okt order 0 lo hi (Lf p rs)"
    and "within lo hi key" and "2 \<le> order"
  shows "\<exists>res b'. insert_leaf order grow p key val b = Some (res, b') \<and>
    insert_outcome disk_ok handed order U A B 0 lo hi key val b (Lf p rs) res b'"
proof (cases "key \<in> fst ` set rs \<or> length rs < order")
  case True
  then show ?thesis using insert_leaf_no_split [OF assms(1-3)] by blast
next
  case False
  then have "key \<notin> fst ` set rs" "length rs = order" using assms(2) by auto
  then show ?thesis using insert_leaf_split [OF assms(1-3) _ _ assms(4)] by blast
qed

end

end
