(* ===== verification/Btree_Insert_Branch.thy ===== *)
theory Btree_Insert_Branch
  imports Btree_Insert
begin

text \<open>
  Insertion through a branch: when the child was split, its promoted key and its new sibling go
  into the branch, which is split in turn when it is full. By induction on the height insertion
  into a subtree has the outcome that \<open>insert_outcome\<close> describes.
\<close>

subsection \<open>A node whose child has grown\<close>

abbreviation all_pages :: "('k, 'v) bt list \<Rightarrow> nat list" where
  "all_pages ts \<equiv> concat (map page_nos ts)"

abbreviation all_leaves :: "('k, 'v) bt list \<Rightarrow> nat list" where
  "all_leaves ts \<equiv> concat (map leaf_nos ts)"

lemma all_leaves_subset: "set (all_leaves ts) \<subseteq> set (all_pages ts)"
  using leaf_nos_subset by fastforce

lemma part_of_child:
  assumes "part_of disk_ok handed U A B b (Nd p ks (As @ u # Bs))"
  shows "part_of disk_ok handed U (A @ all_leaves As) (all_leaves Bs @ B) b u"
proof -
  have d: "distinct (p # all_pages As @ page_nos u @ all_pages Bs)"
    and s: "set (p # all_pages As @ page_nos u @ all_pages Bs) \<subseteq> U"
    and ab: "set A \<union> set B \<subseteq> U - set (p # all_pages As @ page_nos u @ all_pages Bs)"
    using assms by (simp_all add: part_of_def del: set_simps)
  have "set (all_leaves As) \<subseteq> U - set (page_nos u)" "set (all_leaves Bs) \<subseteq> U - set (page_nos u)"
    using d s all_leaves_subset [of As] all_leaves_subset [of Bs] by (auto simp del: set_concat)
  then show ?thesis using assms ab d by (simp add: part_of_def del: set_concat) blast
qed

text \<open>The node \<open>p\<close> with the children \<open>R\<close> where \<open>t\<close> stood, its own page not yet written.\<close>

definition grown_node ::
  "('f \<Rightarrow> bool) \<Rightarrow> ('f \<Rightarrow> nat set) \<Rightarrow> nat set \<Rightarrow> nat list \<Rightarrow> nat list \<Rightarrow> ('k, 'v, 'f) btree \<Rightarrow> ('k, 'v) bt \<Rightarrow>
   ('k, 'v, 'f) btree \<Rightarrow> ('k, 'v) bt list \<Rightarrow> bool"
where
  "grown_node disk_ok handed U A B b t b' R \<longleftrightarrow>
     (\<forall>v \<in> set R. rep (pages b') v) \<and> distinct (page_no t # all_pages R) \<and>
     set (page_no t # all_pages R) \<inter> U = set (page_nos t) \<and>
     alloc_ok disk_ok handed b' (U \<union> set (all_pages R)) \<and>
     chain (pages b') 0 (A @ all_leaves R @ B) 0 \<and>
     (\<forall>q \<in> U - set (page_nos t). content (pages b' q) = content (pages b q)) \<and>
     same_tree_header b b' \<and> set A \<union> set B \<subseteq> U - set (page_nos t) \<and>
     content (pages b' (page_no t)) = content (pages b (page_no t)) \<and>
     take 1 (all_leaves R) = take 1 (leaf_nos t)"

lemma take_1_mid: "take 1 a = take 1 c \<Longrightarrow> take 1 (x @ a @ y) = take 1 (x @ c @ y)"
  by (cases x; cases a; cases c) simp_all

lemma grown_lift:
  assumes "part_of disk_ok handed U A B b (Nd p ks (As @ u # Bs))"
    and "grown disk_ok handed U (A @ all_leaves As) (all_leaves Bs @ B) b u b' T"
  shows "grown_node disk_ok handed U A B b (Nd p ks (As @ u # Bs)) b' (As @ T @ Bs)"
proof -
  have d: "distinct (p # all_pages As @ page_nos u @ all_pages Bs)"
    and s: "set (p # all_pages As @ page_nos u @ all_pages Bs) \<subseteq> U"
    and r: "\<forall>v \<in> set As \<union> set Bs. rep (pages b) v"
    and ab: "set A \<union> set B \<subseteq> U - set (p # all_pages As @ page_nos u @ all_pages Bs)"
    using assms(1) by (auto simp add: part_of_def simp del: set_concat)
  have T: "\<forall>v \<in> set T. rep (pages b') v" "distinct (all_pages T)" "set (all_pages T) \<inter> U = set (page_nos u)"
    "alloc_ok disk_ok handed b' (U \<union> set (all_pages T))"
    "chain (pages b') 0 (A @ all_leaves As @ all_leaves T @ all_leaves Bs @ B) 0"
    "\<And>q. q \<in> U \<Longrightarrow> q \<notin> set (page_nos u) \<Longrightarrow> content (pages b' q) = content (pages b q)"
    "same_tree_header b b'"
    using assms(2) by (auto simp: grown_def simp del: set_concat)
  have "take 1 (all_leaves T) = take 1 (leaf_nos u)" using assms(2) by (simp add: grown_def)
  then have first: "take 1 (all_leaves As @ all_leaves T @ all_leaves Bs) =
      take 1 (all_leaves As @ leaf_nos u @ all_leaves Bs)" by (rule take_1_mid)
  have other: "set (all_pages As) \<subseteq> U - set (page_nos u)" "set (all_pages Bs) \<subseteq> U - set (page_nos u)"
    "p \<in> U - set (page_nos u)" "p \<notin> set (all_pages T)"
    using d s T(3) by (auto simp del: set_concat)
  have "rep (pages b') v" if v: "v \<in> set As \<union> set Bs" for v
  proof (rule rep_cong [of "pages b"])
    show "rep (pages b) v" using r v by blast
    fix q assume "q \<in> set (page_nos v)"
    then have "q \<in> set (all_pages As) \<union> set (all_pages Bs)" using v by auto
    then show "content (pages b' q) = content (pages b q)" using other T(6) by blast
  qed
  moreover have "distinct (p # all_pages (As @ T @ Bs))"
    using d T(2,3) other by (auto simp del: set_concat)
  moreover have "set (p # all_pages (As @ T @ Bs)) \<inter> U = set (p # all_pages As @ page_nos u @ all_pages Bs)"
    using s T(3) by (auto simp del: set_concat)
  moreover have "U \<union> set (all_pages (As @ T @ Bs)) = U \<union> set (all_pages T)"
    using other by (auto simp del: set_concat)
  moreover have "\<forall>q \<in> U - set (p # all_pages As @ page_nos u @ all_pages Bs).
      content (pages b' q) = content (pages b q)" using T(6) by (auto simp del: set_concat)
  moreover have "content (pages b' p) = content (pages b p)" using T(6) other(3) by blast
  ultimately show ?thesis using T(1,4,5,7) ab first
    by (simp add: grown_node_def ball_Un del: set_concat)
qed

text \<open>The page of the node is written: one node, or two of them.\<close>

lemma grown_node_one:
  assumes "grown_node disk_ok handed U A B b t b1 R" and "page_no t = p" and "p \<in> U"
    and "arr (seps br) (branch_count br) = ks"
    and "arr (children br) (Suc (branch_count br)) = map page_no R"
    and "pages b' = (pages b1)(p := Branch_page br)" and "same_tree_header b1 b'"
    and "alloc_ok disk_ok handed b' (U \<union> set (all_pages R))"
  shows "grown disk_ok handed U A B b t b' [Nd p ks R]"
proof -
  have g: "\<forall>v \<in> set R. rep (pages b1) v" "distinct (p # all_pages R)"
    "set (p # all_pages R) \<inter> U = set (page_nos t)"
    "chain (pages b1) 0 (A @ all_leaves R @ B) 0"
    "\<forall>q \<in> U - set (page_nos t). content (pages b1 q) = content (pages b q)"
    "same_tree_header b b1" "set A \<union> set B \<subseteq> U - set (page_nos t)"
    "take 1 (all_leaves R) = take 1 (leaf_nos t)"
    using assms(1,2) by (auto simp: grown_node_def simp del: set_concat)
  have p: "p \<in> set (page_nos t)" using assms(2) page_no_in by blast
  have "rep (pages b') v" if v: "v \<in> set R" for v
  proof (rule rep_cong [of "pages b1"])
    show "rep (pages b1) v" using g(1) v by blast
    fix q assume "q \<in> set (page_nos v)"
    then have "q \<noteq> p" using g(2) v by auto
    then show "content (pages b' q) = content (pages b1 q)" using assms(6) by simp
  qed
  moreover have "pages b' p = Branch_page br" using assms(6) by simp
  ultimately have "rep (pages b') (Nd p ks R)" using assms(4,5) by auto
  moreover have "chain (pages b') 0 (A @ all_leaves R @ B) 0"
    using g(4)
  proof (rule chain_cong)
    fix i assume "i \<in> set (A @ all_leaves R @ B)"
    then have "i \<noteq> p" using g(2,7) p all_leaves_subset [of R] by (auto simp del: set_concat)
    then show "pages b' i = pages b1 i" using assms(6) by simp
  qed
  moreover have "\<forall>q \<in> U - set (page_nos t). content (pages b' q) = content (pages b q)"
    using g(5) p assms(6) by auto
  moreover have "U \<union> set (p # all_pages R) = U \<union> set (all_pages R)" using assms(3) by auto
  ultimately show ?thesis
    using g(2,3,6,8) assms(2,7,8) same_tree_header_trans
    by (simp add: grown_def del: set_concat) blast
qed

lemma grown_node_two:
  assumes "grown_node disk_ok handed U A B b t b1 (R @ S)" and "page_no t = p" and "p \<in> U"
    and "r \<notin> U \<union> set (all_pages (R @ S))"
    and "arr (seps br) (branch_count br) = ks"
    and "arr (children br) (Suc (branch_count br)) = map page_no R"
    and "arr (seps br') (branch_count br') = ks'"
    and "arr (children br') (Suc (branch_count br')) = map page_no S"
    and "pages b' = (pages b1)(p := Branch_page br, r := Branch_page br')" and "same_tree_header b1 b'"
    and "alloc_ok disk_ok handed b' (insert r (U \<union> set (all_pages (R @ S))))"
  shows "grown disk_ok handed U A B b t b' [Nd p ks R, Nd r ks' S]"
proof -
  have g: "\<forall>v \<in> set R \<union> set S. rep (pages b1) v" "distinct (p # all_pages R @ all_pages S)"
    "set (p # all_pages R @ all_pages S) \<inter> U = set (page_nos t)"
    "chain (pages b1) 0 (A @ (all_leaves R @ all_leaves S) @ B) 0"
    "\<forall>q \<in> U - set (page_nos t). content (pages b1 q) = content (pages b q)"
    "same_tree_header b b1" "set A \<union> set B \<subseteq> U - set (page_nos t)"
    "take 1 (all_leaves R @ all_leaves S) = take 1 (leaf_nos t)"
    using assms(1,2) by (auto simp: grown_node_def simp del: set_concat)
  have p: "p \<in> set (page_nos t)" using assms(2) page_no_in by blast
  have r: "r \<notin> U" "r \<notin> set (all_pages R)" "r \<notin> set (all_pages S)" "r \<noteq> p"
    using assms(3,4) by (auto simp del: set_concat)
  have "rep (pages b') v" if v: "v \<in> set R \<union> set S" for v
  proof (rule rep_cong [of "pages b1"])
    show "rep (pages b1) v" using g(1) v by blast
    fix q assume "q \<in> set (page_nos v)"
    then have "q \<in> set (all_pages R @ all_pages S)" using v by auto
    then have "q \<noteq> p" "q \<noteq> r" using g(2) r by (auto simp del: set_concat)
    then show "content (pages b' q) = content (pages b1 q)" using assms(9) by simp
  qed
  moreover have "pages b' p = Branch_page br" "pages b' r = Branch_page br'" using assms(9) r(4) by auto
  ultimately have "rep (pages b') (Nd p ks R)" "rep (pages b') (Nd r ks' S)" using assms(5-8) by auto
  moreover have "chain (pages b') 0 (A @ (all_leaves R @ all_leaves S) @ B) 0"
    using g(4)
  proof (rule chain_cong)
    fix i assume "i \<in> set (A @ (all_leaves R @ all_leaves S) @ B)"
    then have "i \<noteq> p" "i \<noteq> r"
      using g(2,7) p r all_leaves_subset [of R] all_leaves_subset [of S] by (auto simp del: set_concat)
    then show "pages b' i = pages b1 i" using assms(9) by simp
  qed
  moreover have "\<forall>q \<in> U - set (page_nos t). content (pages b' q) = content (pages b q)"
    using g(5) p r(1) assms(9) by auto
  moreover have "U \<union> set (p # all_pages R @ r # all_pages S) = insert r (U \<union> set (all_pages (R @ S)))"
    using assms(3) by (auto simp del: set_concat)
  moreover have "set (p # all_pages R @ r # all_pages S) \<inter> U = set (page_nos t)"
    using g(3) r(1) by (auto simp del: set_concat)
  moreover have "distinct (p # all_pages R @ r # all_pages S)"
    using g(2) r by (auto simp del: set_concat)
  ultimately show ?thesis
    using g(6,8) assms(2,10,11) same_tree_header_trans
    by (simp add: grown_def del: set_concat) blast
qed

subsection \<open>The runs of \<open>insert_split_child\<close>\<close>

lemma length_arr: "arr a n = xs \<Longrightarrow> length xs = n"
  by auto

lemma insert_split_child_room:
  assumes "get_branch p b = Some br" and "branch_count br < order" and "ci \<le> branch_count br"
    and "arr (seps br) (branch_count br) = ks" and "arr (children br) (Suc (branch_count br)) = ch"
  shows "\<exists>br'. insert_split_child order grow p key ci res b =
      Some (\<lparr>inserted = inserted res, was_split = False, promo_key = key, right_idx = 0\<rparr>,
        put_page p (Branch_page br') b) \<and>
    arr (seps br') (branch_count br') = take ci ks @ promo_key res # drop ci ks \<and>
    arr (children br') (Suc (branch_count br')) = take (Suc ci) ch @ right_idx res # drop (Suc ci) ch"
proof -
  define br' where "br' = branch_insert_at br ci (promo_key res) (right_idx res)"
  have "insert_split_child order grow p key ci res b =
      Some (\<lparr>inserted = inserted res, was_split = False, promo_key = key, right_idx = 0\<rparr>,
        put_page p (Branch_page br') b)"
    using assms(1,2) by (simp add: insert_split_child_def br'_def)
  moreover have "arr (seps br') (branch_count br') = take ci ks @ promo_key res # drop ci ks"
    using arr_insert [OF assms(3), of "seps br" "promo_key res"] assms(4)
    by (simp add: br'_def branch_insert_at_def del: upt_Suc)
  moreover have "arr (children br') (Suc (branch_count br')) =
      take (Suc ci) ch @ right_idx res # drop (Suc ci) ch"
    using arr_insert [of "Suc ci" "Suc (branch_count br)" "children br" "right_idx res"] assms(3,5)
    by (simp add: br'_def branch_insert_at_def del: upt_Suc)
  ultimately show ?thesis by blast
qed

lemma insert_split_child_full:
  assumes "get_branch p b = Some br" and "branch_count br = order" and "ci \<le> order" and "2 \<le> order"
    and "arr (seps br) order = ks" and "arr (children br) (Suc order) = ch"
    and "KK = take ci ks @ promo_key res # drop ci ks"
    and "CH = take (Suc ci) ch @ right_idx res # drop (Suc ci) ch"
    and "mid = Suc order div 2"
  shows "\<exists>br1. arr (seps br1) (branch_count br1) = take mid KK \<and>
    arr (children br1) (Suc (branch_count br1)) = take (Suc mid) CH \<and>
    (\<forall>r b2 x. new_branch grow (put_page p (Branch_page br1) b) = Some (r, b2) \<longrightarrow> get_branch r b2 = Some x \<longrightarrow>
      (\<exists>br2. arr (seps br2) (branch_count br2) = drop (Suc mid) KK \<and>
        arr (children br2) (Suc (branch_count br2)) = drop (Suc mid) CH \<and>
        insert_split_child order grow p key ci res b =
          Some (\<lparr>inserted = inserted res, was_split = True, promo_key = KK ! mid, right_idx = r\<rparr>,
            put_page r (Branch_page br2) b2)))"
proof -
  define tk tc where
    "tk = (shift_up ci order (copy_places order 0 (seps br) (\<lambda>_. undefined)))(ci := promo_key res)" and
    "tc = (shift_up (Suc ci) (Suc order) (copy_places (Suc order) 0 (children br) (\<lambda>_. undefined)))
       (Suc ci := right_idx res)"
  have tk: "arr tk (Suc order) = KK"
    unfolding tk_def assms(7) using assms(3,5) by (simp only: arr_insert arr_copy) simp
  have tc: "arr tc (Suc (Suc order)) = CH"
    unfolding tc_def assms(8) using assms(3,6) by (simp only: arr_insert arr_copy Suc_le_mono) simp
  have mid: "mid \<le> order" "mid < Suc order" using assms(4,9) by auto
  define br1 where "br1 = br\<lparr>branch_count := mid, seps := copy_places mid 0 tk (seps br),
    children := copy_places (Suc mid) 0 tc (children br)\<rparr>"
  define br2 where "br2 x = x\<lparr>branch_count := order - mid, seps := copy_places (order - mid) (Suc mid) tk (seps x),
    children := copy_places (Suc (order - mid)) (Suc mid) tc (children x)\<rparr>" for x :: "'a branch_page"
  have "arr (seps br1) (branch_count br1) = take mid KK"
    using arr_copy_part [of 0 mid "Suc order" tk "seps br"] tk mid by (simp add: br1_def del: upt_Suc)
  moreover have "arr (children br1) (Suc (branch_count br1)) = take (Suc mid) CH"
    using arr_copy_part [of 0 "Suc mid" "Suc (Suc order)" tc "children br"] tc mid
    by (simp add: br1_def del: upt_Suc)
  moreover have "arr (seps (br2 x)) (branch_count (br2 x)) = drop (Suc mid) KK" for x
    using arr_copy [of "order - mid" "Suc mid" tk "seps x"] tk mid by (simp add: br2_def del: upt_Suc)
  moreover have "arr (children (br2 x)) (Suc (branch_count (br2 x))) = drop (Suc mid) CH" for x
    using arr_copy [of "Suc (order - mid)" "Suc mid" tc "children x"] tc mid
    by (simp add: br2_def del: upt_Suc)
  moreover have "insert_split_child order grow p key ci res b =
      Some (\<lparr>inserted = inserted res, was_split = True, promo_key = KK ! mid, right_idx = r\<rparr>,
        put_page r (Branch_page (br2 x)) b2)"
    if "new_branch grow (put_page p (Branch_page br1) b) = Some (r, b2)" "get_branch r b2 = Some x" for r b2 x
  proof -
    have "tk mid = KK ! mid" using arr_nth [OF tk mid(2)] .
    then show ?thesis
      using that assms(1,2) by (simp add: insert_split_child_def Let_def br1_def br2_def tk_def tc_def assms(9))
  qed
  ultimately show ?thesis by blast
qed

subsection \<open>The outcome at a branch\<close>

lemma inserted_set_Un:
  "key \<notin> fst ` S \<Longrightarrow> inserted_set key val (S \<union> R) = S \<union> inserted_set key val R"
  by (auto simp: inserted_set_def)

lemma split_seg:
  assumes "seg (okt order g) lo hi KK R" and "length KK = Suc order" and "2 \<le> order"
    and "mid = Suc order div 2"
  shows "okt order (Suc g) lo (Some (KK ! mid)) (Nd p (take mid KK) (take (Suc mid) R)) \<and>
    okt order (Suc g) (Some (KK ! mid)) hi (Nd r (drop (Suc mid) KK) (drop (Suc mid) R))"
proof -
  have mid: "mid < length KK" "mid \<le> order" using assms(2-4) by auto
  have R: "length R = Suc (length KK)" using seg_length [OF assms(1)] .
  have KK: "KK = take mid KK @ KK ! mid # drop (Suc mid) KK" using mid(1) by (rule id_take_nth_drop)
  have "seg (okt order g) lo hi (take mid KK @ KK ! mid # drop (Suc mid) KK)
      (take (Suc mid) R @ drop (Suc mid) R)"
    using assms(1) KK by (metis append_take_drop_id)
  then have "seg (okt order g) lo (Some (KK ! mid)) (take mid KK) (take (Suc mid) R) \<and>
      seg (okt order g) (Some (KK ! mid)) hi (drop (Suc mid) KK) (drop (Suc mid) R)"
    by (rule iffD1 [OF seg_split, rotated]) (use mid R in simp)
  then show ?thesis using assms(2) mid by (simp add: okt_Nd)
qed

context page_file
begin

lemma insert_split_child_ok:
  assumes "grown_node disk_ok handed U A B b t b1 (As @ t1 # t2 # Bs)" and "page_no t = p" and "p \<in> U"
    and "branch_at (pages b) p br (K @ L) (As @ u # Bs)" and "page_no t1 = page_no u"
    and "page_no t2 = right_idx res"
    and "seg (okt order g) lo hi (K @ promo_key res # L) (As @ t1 # t2 # Bs)"
    and "length As = length K" and "ci = length K" and "length (K @ L) \<le> order" and "2 \<le> order"
    and "inserted res = (key \<notin> keys_of t)"
    and "set (concat (map recs (As @ t1 # t2 # Bs))) = inserted_set key val (set (recs t))"
  shows "\<exists>res' b'. insert_split_child order grow p key ci res b1 = Some (res', b') \<and>
    insert_outcome disk_ok handed order U A B (Suc g) lo hi key val b t res' b'"
proof -
  let ?R = "As @ t1 # t2 # Bs" and ?KK = "K @ promo_key res # L"
  have alloc: "alloc_ok disk_ok handed b1 (U \<union> set (all_pages ?R))"
    and br: "get_branch p b1 = Some br"
    using assms(1,2,4) by (auto simp: grown_node_def branch_at_def content_branch get_branch_def simp del: set_concat)
  have ks: "arr (seps br) (branch_count br) = K @ L"
    and ch: "arr (children br) (Suc (branch_count br)) = map page_no As @ page_no u # map page_no Bs"
    using assms(4) by (simp_all add: branch_at_def del: upt_Suc)
  have cnt: "branch_count br = length (K @ L)" using length_arr [OF ks] by simp
  have KK: "take ci (K @ L) @ promo_key res # drop ci (K @ L) = ?KK" using assms(9) by simp
  have CH: "take (Suc ci) (map page_no As @ page_no u # map page_no Bs) @ right_idx res #
      drop (Suc ci) (map page_no As @ page_no u # map page_no Bs) = map page_no ?R"
    using assms(5,6,8,9) by simp
  show ?thesis
  proof (cases "branch_count br < order")
    case True
    from insert_split_child_room [OF br True _ ks ch, of ci grow key res] obtain br' where
      run: "insert_split_child order grow p key ci res b1 =
        Some (\<lparr>inserted = inserted res, was_split = False, promo_key = key, right_idx = 0\<rparr>,
          put_page p (Branch_page br') b1)"
      and br': "arr (seps br') (branch_count br') = ?KK"
        "arr (children br') (Suc (branch_count br')) = map page_no ?R"
      unfolding KK CH using cnt assms(9) by auto
    have "grown disk_ok handed U A B b t (put_page p (Branch_page br') b1) [Nd p ?KK ?R]"
      by (rule grown_node_one [OF assms(1-3) br']) (use alloc_ok_put [OF alloc] assms(3) in auto)
    moreover have "okt order (Suc g) lo hi (Nd p ?KK ?R)"
      using assms(7) True cnt by (simp add: okt_Nd)
    ultimately have "insert_outcome disk_ok handed order U A B (Suc g) lo hi key val b t
        \<lparr>inserted = inserted res, was_split = False, promo_key = key, right_idx = 0\<rparr>
        (put_page p (Branch_page br') b1)"
      by (rule insert_outcome_one [rotated 2]) (use assms(12,13) in simp_all)
    with run show ?thesis by blast
  next
    case False
    define mid where "mid = Suc order div 2"
    have full: "branch_count br = order" using False cnt assms(10) by simp
    have lenKK: "length ?KK = Suc order" using full cnt by simp
    have ci: "ci \<le> order" using full cnt assms(9) by simp
    from insert_split_child_full [OF br full ci assms(11) ks [unfolded full] ch [unfolded full]
        KK [symmetric] CH [symmetric] mid_def, of grow key]
    obtain br1 where br1: "arr (seps br1) (branch_count br1) = take mid ?KK"
      "arr (children br1) (Suc (branch_count br1)) = map page_no (take (Suc mid) ?R)"
      and run: "\<And>r b2 x. new_branch grow (put_page p (Branch_page br1) b1) = Some (r, b2) \<Longrightarrow>
        get_branch r b2 = Some x \<Longrightarrow>
        \<exists>br2. arr (seps br2) (branch_count br2) = drop (Suc mid) ?KK \<and>
          arr (children br2) (Suc (branch_count br2)) = map page_no (drop (Suc mid) ?R) \<and>
          insert_split_child order grow p key ci res b1 =
            Some (\<lparr>inserted = inserted res, was_split = True, promo_key = ?KK ! mid, right_idx = r\<rparr>,
              put_page r (Branch_page br2) b2)"
      unfolding take_map drop_map by blast
    have "alloc_ok disk_ok handed (put_page p (Branch_page br1) b1) (U \<union> set (all_pages ?R))"
      using alloc_ok_put [OF alloc] assms(3) by blast
    then obtain r b2 x where r: "new_branch grow (put_page p (Branch_page br1) b1) = Some (r, b2)"
      "r \<notin> U \<union> set (all_pages ?R)" "pages b2 = (pages (put_page p (Branch_page br1) b1))(r := Branch_page x)"
      "get_branch r b2 = Some x" "same_tree_header (put_page p (Branch_page br1) b1) b2"
      "alloc_ok disk_ok handed b2 (insert r (U \<union> set (all_pages ?R)))"
      by (rule new_branch_ok)
    from run [OF r(1,4)] obtain br2 where br2: "arr (seps br2) (branch_count br2) = drop (Suc mid) ?KK"
      "arr (children br2) (Suc (branch_count br2)) = map page_no (drop (Suc mid) ?R)"
      "insert_split_child order grow p key ci res b1 =
        Some (\<lparr>inserted = inserted res, was_split = True, promo_key = ?KK ! mid, right_idx = r\<rparr>,
          put_page r (Branch_page br2) b2)" by blast
    have R: "take (Suc mid) ?R @ drop (Suc mid) ?R = ?R" by (rule append_take_drop_id)
    have "grown disk_ok handed U A B b t (put_page r (Branch_page br2) b2)
        [Nd p (take mid ?KK) (take (Suc mid) ?R), Nd r (drop (Suc mid) ?KK) (drop (Suc mid) ?R)]"
    proof (rule grown_node_two [OF _ assms(2,3) _ br1 br2(1,2)])
      show "grown_node disk_ok handed U A B b t b1 (take (Suc mid) ?R @ drop (Suc mid) ?R)"
        unfolding R by (rule assms(1))
      show "pages (put_page r (Branch_page br2) b2) =
          (pages b1)(p := Branch_page br1, r := Branch_page br2)" using r(3) by simp
      show "same_tree_header b1 (put_page r (Branch_page br2) b2)"
        using r(5) by (simp add: same_tree_header_def)
    qed (unfold R, use r(2,6) alloc_ok_put [OF r(6)] in auto)
    moreover note split_seg [OF assms(7) lenKK assms(11) mid_def, of p r]
    moreover have "set (recs (Nd p (take mid ?KK) (take (Suc mid) ?R))) \<union>
        set (recs (Nd r (drop (Suc mid) ?KK) (drop (Suc mid) ?R))) = set (concat (map recs ?R))"
      unfolding recs.simps set_append [symmetric] concat_append [symmetric] map_append [symmetric] R ..
    ultimately have "insert_outcome disk_ok handed order U A B (Suc g) lo hi key val b t
        \<lparr>inserted = inserted res, was_split = True, promo_key = ?KK ! mid, right_idx = r\<rparr>
        (put_page r (Branch_page br2) b2)"
      by (intro insert_outcome_two [where ?t1.0 = "Nd p (take mid ?KK) (take (Suc mid) ?R)"
            and ?t2.0 = "Nd r (drop (Suc mid) ?KK) (drop (Suc mid) ?R)"]) (use assms(12,13) in simp_all)
    with br2(3) show ?thesis by blast
  qed
qed

lemma insert_rec_ok:
  assumes "part_of disk_ok handed U A B b t" and "okt order h lo hi t" and "within lo hi key"
    and "2 \<le> order" and "h < depth"
  shows "\<exists>res b'. insert_rec depth order grow (page_no t) key val b = Some (res, b') \<and>
    insert_outcome disk_ok handed order U A B h lo hi key val b t res b'"
  using assms
proof (induction depth arbitrary: h lo hi t A B)
  case (Suc depth)
  show ?case
  proof (cases t)
    case (Lf p rs)
    then have "h = 0" using Suc.prems(2) by simp
    moreover obtain l where "pages b p = Leaf_page l" using Suc.prems(1) Lf by (auto simp: part_of_def)
    ultimately show ?thesis
      using insert_leaf_ok [of U A B b p rs order lo hi key val] Suc.prems Lf by simp
  next
    case (Nd p ks ts)
    obtain g where h: "h = Suc g" "length ks \<le> order" and sg: "seg (okt order g) lo hi ks ts"
      using Suc.prems(2) Nd by (auto simp: okt_Nd)
    have "rep (pages b) (Nd p ks ts)" and pU: "p \<in> U"
      using Suc.prems(1) Nd by (auto simp: part_of_def)
    then obtain br where br: "branch_at (pages b) p br ks ts" using rep_Nd by blast
    obtain K L As u Bs where c: "ks = K @ L" "ts = As @ u # Bs" "length K = child_index br key"
      "length As = child_index br key" "children br (child_index br key) = page_no u"
      "seg_before (okt order g) lo K As" "okt order g (low_of lo K) (high_of hi L) u"
      "seg_after (okt order g) hi L Bs" "within (low_of lo K) (high_of hi L) key"
      "\<forall>v \<in> set As \<union> set Bs. key \<notin> keys_of v"
      using branch_child [OF br sg Suc.prems(3)] by metis
    have child: "part_of disk_ok handed U (A @ all_leaves As) (all_leaves Bs @ B) b u"
      using part_of_child Suc.prems(1) unfolding Nd c(2) by blast
    obtain res b1 where run: "insert_rec depth order grow (page_no u) key val b = Some (res, b1)"
      and out: "insert_outcome disk_ok handed order U (A @ all_leaves As) (all_leaves Bs @ B) g
        (low_of lo K) (high_of hi L) key val b u res b1"
      using Suc.IH [OF child c(7,9) assms(4)] Suc.prems(5) h(1) by auto
    have brp: "pages b p = Branch_page br" using br by (simp add: branch_at_def)
    have step: "insert_rec (Suc depth) order grow (page_no t) key val b =
        (if \<not> was_split res then Some (res, b1)
         else insert_split_child order grow p key (child_index br key) res b1)"
      using brp Nd run c(5) by (simp add: insert_branch_def get_branch_def)
    have other: "key \<notin> fst ` set (concat (map recs As) @ concat (map recs Bs))" using c(10) by auto
    have ins: "inserted_set key val (set (recs t)) =
        set (concat (map recs As) @ concat (map recs Bs)) \<union> inserted_set key val (set (recs u))"
      using inserted_set_Un [OF other, of val "set (recs u)"] by (simp add: Nd c(2) Un_ac)
    have keys: "(key \<in> keys_of t) = (key \<in> keys_of u)"
      using c(10) by (auto simp: Nd c(2))
    from out show ?thesis
    proof (cases rule: insert_outcome_cases)
      case (one t1)
      note gn = grown_lift [OF Suc.prems(1) [unfolded Nd c(2)] one(3)]
      have "page_no t1 = page_no u" using one(3) by (simp add: grown_def)
      then have "arr (children br) (Suc (branch_count br)) = map page_no (As @ [t1] @ Bs)"
        using br by (simp add: branch_at_def c(2) del: upt_Suc)
      moreover have "pages b1 p = Branch_page br"
        using gn brp by (simp add: grown_node_def content_branch)
      ultimately have G: "grown disk_ok handed U A B b t b1 [Nd p ks (As @ [t1] @ Bs)]"
        using gn br unfolding Nd c(2)
        by (intro grown_node_one [where ?b1.0 = b1 and br = br]) (auto simp: branch_at_def pU grown_node_def)
      have O: "okt order h lo hi (Nd p ks (As @ [t1] @ Bs))"
        using seg_at [of As K "okt order g" lo hi L t1 Bs] c one(4) h by (simp add: okt_Nd)
      have S: "set (recs (Nd p ks (As @ [t1] @ Bs))) = inserted_set key val (set (recs t))"
        unfolding ins using one(5) by auto
      have "insert_outcome disk_ok handed order U A B h lo hi key val b t res b1"
        by (rule insert_outcome_one [OF one(1) _ G O S]) (simp add: one(2) keys)
      then show ?thesis using step one(1) by simp
    next
      case (two t1 t2)
      note gn = grown_lift [OF Suc.prems(1) [unfolded Nd c(2)] two(4)]
      have p1: "page_no t1 = page_no u" using two(4) by (simp add: grown_def)
      have sg2: "seg (okt order g) lo hi (K @ promo_key res # L) (As @ t1 # t2 # Bs)"
        using seg_at_two [of As K "okt order g" lo hi "promo_key res" L t1 t2 Bs] c two(5,6) by simp
      have "set (concat (map recs (As @ t1 # t2 # Bs))) = inserted_set key val (set (recs t))"
        unfolding ins using two(7) by auto
      from insert_split_child_ok [OF _ _ pU br [unfolded c(1,2)] p1 two(3) sg2 _ _ _ assms(4) _ this,
          where A = A and B = B]
      show ?thesis
        using gn step two(1,2) keys c(1,3,4) h unfolding Nd c(2) by simp
    qed
  qed
qed simp

end

end
