(* ===== verification/Btree_Update.thy ===== *)
theory Btree_Update
  imports Btree_Insert_Branch
begin

text \<open>
  \<open>insert\<close>, \<open>update\<close>, \<open>insert_or_assign\<close> and the reads and writes of the proxy on the whole tree.
\<close>

subsection \<open>Insertion at the root\<close>

context page_file
begin

lemma bt_insert_empty:
  assumes "bt_holds disk_ok handed order b None" and "2 \<le> order"
  shows "\<exists>p b'. bt_insert order grow key val b = Some (True, b') \<and>
    bt_holds disk_ok handed order b' (Some (Lf p [(key, val)]))"
proof -
  have h: "alloc_ok disk_ok handed b {}" "root_page (header b) = 0"
    using assms(1) unfolding bt_holds_None by simp_all
  obtain p b1 l where p: "new_leaf grow b = Some (p, b1)" "p \<noteq> 0" "get_leaf p b1 = Some l"
    "alloc_ok disk_ok handed b1 {p}" "next_page l = 0" "prev_page l = 0"
    using new_leaf_ok [OF h(1)] by metis
  define l' where "l' = l\<lparr>records := (records l)(0 := (key, val)), leaf_count := 1\<rparr>"
  define b' where "b' = put_header (\<lambda>h. h\<lparr>root_page := p, first_leaf := p, height := 1, elem_count := 1\<rparr>)
    (put_page p (Leaf_page l') b1)"
  have "bt_insert order grow key val b = Some (True, b')"
    using h(2) p by (simp add: bt_insert_def update_leaf_def b'_def l'_def)
  moreover have "alloc_ok disk_ok handed b' {p}"
    unfolding b'_def by (intro alloc_ok_header alloc_ok_put p) simp_all
  then have "bt_holds disk_ok handed order b' (Some (Lf p [(key, val)]))"
    unfolding bt_holds_Some using assms(2) p(5,6) by (simp add: b'_def l'_def)
  ultimately show ?thesis by blast
qed

lemma bt_insert_nonempty:
  assumes "bt_holds disk_ok handed order b (Some t)" and "2 \<le> order"
  shows "\<exists>t' b'. bt_insert order grow key val b = Some (key \<notin> keys_of t, b') \<and>
    bt_holds disk_ok handed order b' (Some t') \<and> set (recs t') = inserted_set key val (set (recs t))"
proof -
  obtain h where h: "alloc_ok disk_ok handed b (set (page_nos t))" "elem_count (header b) = length (recs t)"
    "root_page (header b) = page_no t" "take 1 (leaf_nos t) = [first_leaf (header b)]"
    "rep (pages b) t" "distinct (page_nos t)" "chain (pages b) 0 (leaf_nos t) 0"
    "height (header b) = Suc h" "okt order h None None t"
    using assms(1) unfolding bt_holds_Some by blast
  have nz: "page_no t \<noteq> 0" using alloc_ok_zero [OF h(1)] page_no_in by metis
  have "part_of disk_ok handed (set (page_nos t)) [] [] b t"
    using h distinct_leaf_nos by (simp add: part_of_def)
  from insert_rec_ok [OF this h(9) within_unbounded assms(2), of "Suc (Suc h)" key val]
  obtain res b1 where run: "insert_rec (Suc (Suc h)) order grow (page_no t) key val b = Some (res, b1)"
    and out: "insert_outcome disk_ok handed order (set (page_nos t)) [] [] h None None key val b t res b1"
    by auto
  have srt: "sorted_wrt (<) (map fst (recs t))" using okt_recs [OF h(9)] by (simp add: ordered_recs_def)
  have count: "bt_holds disk_ok handed order
      (if inserted res then put_header (\<lambda>h. h\<lparr>elem_count := elem_count h + 1\<rparr>) b2 else b2) (Some t')"
    if b2: "alloc_ok disk_ok handed b2 (set (page_nos t'))" "elem_count (header b2) = length (recs t)"
      "root_page (header b2) = page_no t'" "take 1 (leaf_nos t') = [first_leaf (header b2)]"
      "rep (pages b2) t'" "distinct (page_nos t')" "chain (pages b2) 0 (leaf_nos t') 0"
      "height (header b2) = Suc h'" "okt order h' None None t'"
      "set (recs t') = inserted_set key val (set (recs t))" "inserted res = (key \<notin> keys_of t)" for b2 t' h'
  proof -
    have "sorted_wrt (<) (map fst (recs t'))" using okt_recs [OF b2(9)] by (simp add: ordered_recs_def)
    from length_inserted [OF srt this b2(10)]
    have "length (recs t') = (if inserted res then Suc (length (recs t)) else length (recs t))"
      using b2(11) by simp
    moreover have "alloc_ok disk_ok handed (put_header (\<lambda>h. h\<lparr>elem_count := elem_count h + 1\<rparr>) b2) (set (page_nos t'))"
      by (rule alloc_ok_header [OF b2(1)]) simp_all
    ultimately show ?thesis using b2 unfolding bt_holds_Some by simp
  qed
  from out show ?thesis
  proof (cases rule: insert_outcome_cases)
    case (one t1)
    have g: "rep (pages b1) t1" "distinct (page_nos t1)" "set (page_nos t1) \<inter> set (page_nos t) = set (page_nos t)"
      "alloc_ok disk_ok handed b1 (set (page_nos t) \<union> set (page_nos t1))"
      "chain (pages b1) 0 (leaf_nos t1) 0" "same_tree_header b b1" "page_no t1 = page_no t"
      "take 1 (leaf_nos t1) = take 1 (leaf_nos t)"
      using one(3) by (simp_all add: grown_def)
    have "set (page_nos t) \<union> set (page_nos t1) = set (page_nos t1)" using g(3) by blast
    then have "bt_holds disk_ok handed order
        (if inserted res then put_header (\<lambda>h. h\<lparr>elem_count := elem_count h + 1\<rparr>) b1 else b1) (Some t1)"
      by (intro count [of b1 t1 h]) (use g h one in \<open>simp_all add: same_tree_header_def\<close>)
    moreover have "bt_insert order grow key val b = Some (inserted res,
        if inserted res then put_header (\<lambda>h. h\<lparr>elem_count := elem_count h + 1\<rparr>) b1 else b1)"
      using run one(1) h(3,8) nz by (simp add: bt_insert_def)
    ultimately show ?thesis using one(5) unfolding one(2) [symmetric] by blast
  next
    case (two t1 t2)
    let ?P = "set (page_nos t1) \<union> set (page_nos t2)"
    have g: "rep (pages b1) t1" "rep (pages b1) t2" "distinct (page_nos t1 @ page_nos t2)"
      "?P \<inter> set (page_nos t) = set (page_nos t)"
      "alloc_ok disk_ok handed b1 (set (page_nos t) \<union> ?P)"
      "chain (pages b1) 0 (leaf_nos t1 @ leaf_nos t2) 0" "same_tree_header b b1" "page_no t1 = page_no t"
      "take 1 (leaf_nos t1 @ leaf_nos t2) = take 1 (leaf_nos t)"
      using two(4) by (simp_all add: grown_def)
    have "set (page_nos t) \<union> ?P = ?P" using g(4) by blast
    then have "alloc_ok disk_ok handed b1 ?P" using g(5) by simp
    then obtain r b2 x where r: "new_branch grow b1 = Some (r, b2)" "r \<notin> ?P" "r \<noteq> 0"
      "pages b2 = (pages b1)(r := Branch_page x)" "get_branch r b2 = Some x" "same_tree_header b1 b2"
      "alloc_ok disk_ok handed b2 (insert r ?P)"
      by (rule new_branch_ok)
    define x' where "x' = x\<lparr>branch_count := 1, seps := (seps x)(0 := promo_key res),
      children := (children x)(0 := page_no t, 1 := right_idx res)\<rparr>"
    define b3 where "b3 = put_header (\<lambda>h. h\<lparr>root_page := r, height := height h + 1\<rparr>) (put_page r (Branch_page x') b2)"
    let ?t = "Nd r [promo_key res] [t1, t2]"
    have hd2: "root_page (header b2) = page_no t" "height (header b2) = Suc h"
      "elem_count (header b2) = length (recs t)" "first_leaf (header b2) = first_leaf (header b)"
      using r(6) g(7) h(2,3,8) by (simp_all add: same_tree_header_def)
    have b3: "pages b3 = (pages b1)(r := Branch_page x')" using r(4) by (simp add: b3_def)
    have "rep (pages b3) u" if u: "u \<in> {t1, t2}" for u
    proof (rule rep_cong [of "pages b1"])
      show "rep (pages b1) u" using g(1,2) u by blast
      fix q assume "q \<in> set (page_nos u)"
      then have "q \<noteq> r" using r(2) u by blast
      then show "content (pages b3 q) = content (pages b1 q)" using b3 by simp
    qed
    then have "rep (pages b3) ?t"
      using two(3) g(8) by (simp add: b3 x'_def upt_conv_Cons)
    moreover have "chain (pages b3) 0 (leaf_nos t1 @ leaf_nos t2) 0"
      using g(6)
    proof (rule chain_cong)
      fix q assume "q \<in> set (leaf_nos t1 @ leaf_nos t2)"
      then have "q \<noteq> r" using r(2) leaf_nos_subset [of t1] leaf_nos_subset [of t2] by auto
      then show "pages b3 q = pages b1 q" using b3 by simp
    qed
    moreover have "alloc_ok disk_ok handed b3 (insert r ?P)"
      unfolding b3_def by (intro alloc_ok_header alloc_ok_put r) simp_all
    moreover have "okt order (Suc h) None None ?t" using two(5,6) assms(2) by simp
    ultimately have "bt_holds disk_ok handed order
        (if inserted res then put_header (\<lambda>h. h\<lparr>elem_count := elem_count h + 1\<rparr>) b3 else b3) (Some ?t)"
      by (intro count [of b3 ?t "Suc h"]) (use r(2) g(3,9) h(4) hd2 two(2,7) in \<open>simp_all add: b3_def Un_ac\<close>)
    moreover have "bt_insert order grow key val b = Some (inserted res,
        if inserted res then put_header (\<lambda>h. h\<lparr>elem_count := elem_count h + 1\<rparr>) b3 else b3)"
      using run two(1) h(3,8) nz r(1,5) hd2(1) by (simp add: bt_insert_def b3_def x'_def)
    moreover have "set (recs ?t) = inserted_set key val (set (recs t))" using two(7) by simp
    ultimately show ?thesis unfolding two(2) [symmetric] by blast
  qed
qed

lemma bt_insert_ok:
  assumes "bt_holds disk_ok handed order b to" and "2 \<le> order"
  shows "\<exists>to' b'. bt_insert order grow key val b = Some (map_of (entries to) key = None, b') \<and>
    bt_holds disk_ok handed order b' to' \<and>
    map_of (entries to') = (if map_of (entries to) key = None
      then (map_of (entries to))(key \<mapsto> val) else map_of (entries to))"
proof (cases to)
  case None
  obtain p b' where "bt_insert order grow key val b = Some (True, b')"
    "bt_holds disk_ok handed order b' (Some (Lf p [(key, val)]))"
    using bt_insert_empty [OF assms(1) [unfolded None] assms(2), of key val] by blast
  then show ?thesis unfolding None
    by (intro exI [of _ "Some (Lf p [(key, val)])"] exI [of _ b']) auto
next
  case (Some t)
  then obtain t' b' where t': "bt_insert order grow key val b = Some (key \<notin> keys_of t, b')"
    "bt_holds disk_ok handed order b' (Some t')" "set (recs t') = inserted_set key val (set (recs t))"
    using bt_insert_nonempty [OF assms(1) [unfolded Some] assms(2), of key val] by blast
  have srt: "sorted_wrt (<) (map fst (recs t))" "sorted_wrt (<) (map fst (recs t'))"
    using bt_holds_sorted [OF assms(1)] bt_holds_sorted [OF t'(2)] Some by simp_all
  have "map_of (recs t') =
      (if map_of (recs t) key = None then (map_of (recs t))(key \<mapsto> val) else map_of (recs t))"
    by (rule map_of_inserted [OF srt t'(3)])
  moreover have "(key \<notin> keys_of t) = (map_of (entries to) key = None)"
    by (simp add: Some map_of_eq_None_iff)
  ultimately show ?thesis
    using t'(1,2) Some by (intro exI [of _ "Some t'"] exI [of _ b']) simp
qed

end

subsection \<open>Changing a value\<close>

definition revalue_rec :: "'k \<Rightarrow> 'v \<Rightarrow> 'k \<times> 'v \<Rightarrow> 'k \<times> 'v" where
  "revalue_rec key val r = (if fst r = key then (key, val) else r)"

fun revalue :: "'k \<Rightarrow> 'v \<Rightarrow> ('k, 'v) bt \<Rightarrow> ('k, 'v) bt" where
  "revalue key val (Lf p rs) = Lf p (map (revalue_rec key val) rs)"
| "revalue key val (Nd p ks ts) = Nd p ks (map (revalue key val) ts)"

lemma fst_revalue_rec [simp]: "fst (revalue_rec key val r) = fst r"
  by (simp add: revalue_rec_def)

lemma map_fst_revalue [simp]: "map fst (map (revalue_rec key val) rs) = map fst rs"
  by simp

lemma revalue_page_no [simp]: "page_no (revalue key val t) = page_no t"
  by (cases t) auto

lemma revalue_page_nos [simp]: "page_nos (revalue key val t) = page_nos t"
  and revalue_leaf_nos [simp]: "leaf_nos (revalue key val t) = leaf_nos t"
  and revalue_recs: "recs (revalue key val t) = map (revalue_rec key val) (recs t)"
proof (induction t)
  case (Nd p ks ts)
  { case 1 show ?case using Nd.IH(1) by (simp add: comp_def cong: map_cong) }
  { case 2 show ?case using Nd.IH(2) by (simp add: comp_def cong: map_cong) }
  { case 3 show ?case using Nd.IH(3) by (simp add: comp_def map_concat cong: map_cong) }
qed simp_all

lemma seg_map:
  "seg Q lo hi ks ts \<Longrightarrow> (\<And>l h t. Q l h t \<Longrightarrow> Q l h (f t)) \<Longrightarrow> seg Q lo hi ks (map f ts)"
  by (induction ks arbitrary: lo ts) (auto simp: seg_Nil seg_Cons)

lemma okt_revalue: "okt order h lo hi t \<Longrightarrow> okt order h lo hi (revalue key val t)"
proof (induction h arbitrary: lo hi t)
  case 0
  then show ?case by (cases t) (auto simp: comp_def)
next
  case (Suc h)
  then show ?case by (cases t) (auto intro: seg_map)
qed

lemma revalue_id: "key \<notin> keys_of t \<Longrightarrow> revalue key val t = t"
proof (induction t)
  case (Lf p rs)
  then have "\<forall>r \<in> set rs. fst r \<noteq> key" by auto
  then show ?case by (simp add: revalue_rec_def map_idI)
next
  case (Nd p ks ts)
  then have "\<forall>t \<in> set ts. revalue key val t = t" by (auto simp: image_iff)
  then show ?case by (simp add: map_idI)
qed

lemma rep_leaf_recs:
  "rep g t \<Longrightarrow> p \<in> set (leaf_nos t) \<Longrightarrow> g p = Leaf_page l \<Longrightarrow> set (leaf_recs l) \<subseteq> set (recs t)"
proof (induction t)
  case (Nd q ks ts)
  then obtain u where "u \<in> set ts" "p \<in> set (leaf_nos u)" by auto
  then show ?case using Nd.IH [of u] Nd.prems by auto
qed auto

lemma rep_revalue:
  assumes "rep g t" and "distinct (page_nos t)" and "distinct (map fst (recs t))"
    and "p \<in> set (leaf_nos t)" and "g p = Leaf_page l" and "key \<in> fst ` set (leaf_recs l)"
    and "arr (records l') (leaf_count l') = map (revalue_rec key val) (leaf_recs l)"
  shows "rep (g(p := Leaf_page l')) (revalue key val t)"
  using assms(1-4)
proof (induction t)
  case (Lf q rs)
  then show ?case using assms(5,7) by auto
next
  case (Nd q ks ts)
  have "p \<noteq> q" using Nd.prems(2,4) all_leaves_subset [of ts] by (auto simp del: set_concat)
  obtain A u B where ts: "ts = A @ u # B" and pu: "p \<in> set (leaf_nos u)"
    using Nd.prems(4) by (auto simp: in_set_conv_decomp [of _ ts])
  have d: "distinct (all_pages A @ page_nos u @ all_pages B)"
    and dk: "distinct (map fst (concat (map recs A) @ recs u @ concat (map recs B)))"
    using Nd.prems(2,3) by (simp_all add: ts del: set_concat)
  have reps: "\<forall>v \<in> set ts. rep g v" using Nd.prems(1) by simp
  have p: "p \<in> set (page_nos u)" using pu leaf_nos_subset by blast
  have u: "rep (g(p := Leaf_page l')) (revalue key val u)"
    by (rule Nd.IH) (use ts reps d dk pu in auto)
  have "rep g u" using reps ts by simp
  have ku: "key \<in> keys_of u" using rep_leaf_recs [OF \<open>rep g u\<close> pu assms(5)] assms(6) by blast
  have other: "rep (g(p := Leaf_page l')) v \<and> revalue key val v = v" if v: "v \<in> set A \<union> set B" for v
  proof
    have "keys_of v \<subseteq> fst ` set (concat (map recs A) @ concat (map recs B))" using v by force
    moreover have "key \<notin> fst ` set (concat (map recs A) @ concat (map recs B))"
      using dk ku by (simp add: image_Un del: set_concat) blast
    ultimately have "key \<notin> keys_of v" by blast
    then show "revalue key val v = v" by (rule revalue_id)
    have "p \<notin> set (page_nos v)" using d p v by auto
    moreover have "rep g v" using reps v ts by auto
    ultimately show "rep (g(p := Leaf_page l')) v" by (auto elim!: rep_cong)
  qed
  have "map (revalue key val) ts = A @ revalue key val u # B"
    using other by (simp add: ts map_idI)
  moreover define g' where "g' = g(p := Leaf_page l')"
  moreover have "g' q = g q" using \<open>p \<noteq> q\<close> by (simp add: g'_def)
  moreover have "\<forall>v \<in> set A \<union> set B. rep g' v" "rep g' (revalue key val u)"
    using other u by (simp_all add: g'_def)
  ultimately have "rep g' (revalue key val (Nd q ks ts))"
    using Nd.prems(1) by (auto simp: ts simp del: upt_Suc)
  then show ?case unfolding g'_def .
qed

lemma map_of_revalue: "map_of (map (revalue_rec key val) rs) =
    (if map_of rs key = None then map_of rs else (map_of rs)(key \<mapsto> val))"
  by (induction rs) (auto simp: revalue_rec_def fun_eq_iff)

lemma arr_revalue:
  assumes "sorted_wrt (<) (map fst (leaf_recs l))" and "at_key l pos key"
    and "l' = l\<lparr>records := (records l)(pos := (fst (records l pos), val))\<rparr>"
  shows "leaf_recs l' = map (revalue_rec key val) (leaf_recs l)"
proof (rule arr_eqI)
  fix i assume "i < leaf_count l'"
  then have i: "i < leaf_count l" by (simp add: assms(3))
  have pos: "pos < leaf_count l" "fst (records l pos) = key" using assms(2) by (simp_all add: at_key_def)
  have "fst (records l i) = key \<longleftrightarrow> i = pos"
    using sorted_keys_distinct [OF assms(1)] i pos by (auto simp: distinct_conv_nth)
  then show "records l' i = map (revalue_rec key val) (leaf_recs l) ! i"
    using i pos by (auto simp: assms(3) revalue_rec_def)
qed (simp add: assms(3))

lemma bt_update_ok:
  assumes "bt_holds disk_ok handed order b to"
  shows "\<exists>to' b'. bt_update key val b = Some (map_of (entries to) key \<noteq> None, b') \<and>
    bt_holds disk_ok handed order b' to' \<and>
    map_of (entries to') = (if map_of (entries to) key = None then map_of (entries to)
      else (map_of (entries to))(key \<mapsto> val))"
proof (cases to)
  case None
  then have "bt_update key val b = Some (False, b)"
    using assms unfolding bt_holds_None None by (simp add: bt_update_def find_leaf_empty)
  then show ?thesis using assms by (intro exI [of _ to] exI [of _ b]) (simp add: None)
next
  case (Some t)
  obtain p l where l: "find_leaf key b = Some p" "p \<noteq> 0" "pages b p = Leaf_page l"
    "p \<in> set (leaf_nos t)" "sorted_wrt (<) (map fst (leaf_recs l))"
    "map_of (leaf_recs l) key = map_of (recs t) key"
    by (rule bt_holds_leaf [OF assms [unfolded Some]])
  let ?pos = "lower_bound_leaf l key"
  show ?thesis
  proof (cases "at_key l ?pos key")
    case False
    then have "key \<notin> fst ` set (leaf_recs l)" using at_key_spec [OF l(5)] by blast
    then have "map_of (recs t) key = None" unfolding l(6) [symmetric] map_of_eq_None_iff .
    moreover from False have "bt_update key val b = Some (False, b)"
      using l by (simp add: bt_update_def get_leaf_def Let_def)
    ultimately show ?thesis using assms Some by (intro exI [of _ to] exI [of _ b]) simp
  next
    case True
    define l' where "l' = l\<lparr>records := (records l)(?pos := (fst (records l ?pos), val))\<rparr>"
    define b' where "b' = put_page p (Leaf_page l') b"
    have run: "bt_update key val b = Some (True, b')"
      using True l(1-3) by (simp add: bt_update_def get_leaf_def Let_def b'_def l'_def)
    have key: "key \<in> fst ` set (leaf_recs l)" using True at_key_spec [OF l(5)] by blast
    have dom: "map_of (recs t) key \<noteq> None" using key l(6) by (metis map_of_eq_None_iff)
    obtain h where h: "alloc_ok disk_ok handed b (set (page_nos t))" "elem_count (header b) = length (recs t)"
      "root_page (header b) = page_no t" "take 1 (leaf_nos t) = [first_leaf (header b)]"
      "rep (pages b) t" "distinct (page_nos t)" "chain (pages b) 0 (leaf_nos t) 0"
      "height (header b) = Suc h" "okt order h None None t"
      using assms unfolding Some bt_holds_Some by blast
    have "distinct (map fst (recs t))" using sorted_keys_distinct bt_holds_sorted [OF assms] Some by force
    from rep_revalue [OF h(5,6) this l(4,3) key arr_revalue [OF l(5) True l'_def]]
    have "rep (pages b') (revalue key val t)" by (simp add: b'_def)
    moreover have "chain (pages b') 0 (leaf_nos t) 0"
      using h(7) unfolding b'_def put_page_simps
      by (rule chain_links_cong) (simp add: same_links_def l(3) l'_def)
    moreover have "alloc_ok disk_ok handed b' (set (page_nos t))"
      unfolding b'_def by (rule alloc_ok_put [OF h(1)]) (use l(4) leaf_nos_subset in blast)
    ultimately have "bt_holds disk_ok handed order b' (Some (revalue key val t))"
      unfolding bt_holds_Some using h okt_revalue [OF h(9)] by (simp add: b'_def revalue_recs)
    moreover have "map_of (recs (revalue key val t)) = (map_of (recs t))(key \<mapsto> val)"
      using dom by (simp only: revalue_recs map_of_revalue if_False)
    ultimately show ?thesis
      using run dom Some by (intro exI [of _ "Some (revalue key val t)"] exI [of _ b']) auto
  qed
qed

context page_file
begin

lemma insert_or_assign_ok:
  assumes "bt_holds disk_ok handed order b to" and "2 \<le> order"
  shows "\<exists>to' b'. insert_or_assign order grow key val b = Some b' \<and>
    bt_holds disk_ok handed order b' to' \<and> map_of (entries to') = (map_of (entries to))(key \<mapsto> val)"
proof -
  obtain to1 b1 where u: "bt_update key val b = Some (map_of (entries to) key \<noteq> None, b1)"
    "bt_holds disk_ok handed order b1 to1" "map_of (entries to1) =
      (if map_of (entries to) key = None then map_of (entries to) else (map_of (entries to))(key \<mapsto> val))"
    using bt_update_ok [OF assms(1), of key val] by blast
  show ?thesis
  proof (cases "map_of (entries to) key = None")
    case False
    then have "map_of (entries to1) = (map_of (entries to))(key \<mapsto> val)" using u(3) by (simp only: if_False)
    then show ?thesis
      using u(1,2) False by (intro exI [of _ to1] exI [of _ b1]) (auto simp: insert_or_assign_def)
  next
    case True
    obtain to2 b2 where "bt_insert order grow key val b1 = Some (map_of (entries to1) key = None, b2)"
      "bt_holds disk_ok handed order b2 to2" "map_of (entries to2) = (if map_of (entries to1) key = None
        then (map_of (entries to1))(key \<mapsto> val) else map_of (entries to1))"
      using bt_insert_ok [OF u(2) assms(2), of key val] by blast
    then show ?thesis
      using u True by (intro exI [of _ to2] exI [of _ b2]) (simp add: insert_or_assign_def)
  qed
qed

lemma proxy_read_ok:
  assumes "bt_holds disk_ok handed order b to" and "2 \<le> order"
  shows "\<exists>to' b'. proxy_read order grow dflt key b =
      Some (case map_of (entries to) key of Some v \<Rightarrow> v | None \<Rightarrow> dflt, b') \<and>
    bt_holds disk_ok handed order b' to' \<and>
    map_of (entries to') = (if map_of (entries to) key = None then (map_of (entries to))(key \<mapsto> dflt)
      else map_of (entries to))"
proof (cases "map_of (entries to) key")
  case (Some v)
  then show ?thesis using assms find_value_ok [OF assms(1), of key]
    by (intro exI [of _ to] exI [of _ b]) (simp add: proxy_read_def)
next
  case None
  obtain to2 b2 where "bt_insert order grow key dflt b = Some (map_of (entries to) key = None, b2)"
    "bt_holds disk_ok handed order b2 to2" "map_of (entries to2) = (if map_of (entries to) key = None
      then (map_of (entries to))(key \<mapsto> dflt) else map_of (entries to))"
    using bt_insert_ok [OF assms, of key dflt] by blast
  then show ?thesis using None find_value_ok [OF assms(1), of key]
    by (intro exI [of _ to2] exI [of _ b2]) (simp add: proxy_read_def)
qed

end

end
