(* ===== verification/Btree_Erase.thy ===== *)
theory Btree_Erase
  imports Btree_Insert_Branch
begin

text \<open>
  Erasure keeps the tree: a record leaves its leaf, a leaf that became empty leaves the chain and
  the tree with its page, a branch without children goes the same way, and at the root branches
  with a single child are removed. What is left are the other records, in order.
\<close>

definition first_of :: "nat list \<Rightarrow> nat" where
  "first_of ps = (case ps of [] \<Rightarrow> 0 | p # _ \<Rightarrow> p)"

lemma first_of_simps [simp]: "first_of [] = 0" "first_of (p # ps) = p"
  by (simp_all add: first_of_def)

abbreviation without :: "'k \<Rightarrow> ('k \<times> 'v) list \<Rightarrow> ('k \<times> 'v) list" where
  "without key rs \<equiv> filter (\<lambda>r. fst r \<noteq> key) rs"

text \<open>The pages \<open>P\<close> and the leaves \<open>L\<close> are what is left of the tree \<open>t\<close>.\<close>

definition shrunk ::
  "('f \<Rightarrow> bool) \<Rightarrow> ('f \<Rightarrow> nat set) \<Rightarrow> nat set \<Rightarrow> nat list \<Rightarrow> nat list \<Rightarrow> ('k, 'v, 'f) btree \<Rightarrow> ('k, 'v) bt \<Rightarrow>
   ('k, 'v, 'f) btree \<Rightarrow> nat set \<Rightarrow> nat list \<Rightarrow> bool"
where
  "shrunk disk_ok handed U A B b t b' P L \<longleftrightarrow>
     alloc_ok disk_ok handed b' (U - (set (page_nos t) - P)) \<and>
     chain (pages b') 0 (A @ L @ B) 0 \<and>
     (\<forall>q \<in> U - set (page_nos t). content (pages b' q) = content (pages b q)) \<and>
     root_page (header b') = root_page (header b) \<and> elem_count (header b') = elem_count (header b) \<and>
     height (header b') = height (header b) \<and> first_leaf (header b') = first_of (A @ L @ B)"

definition erase_outcome ::
  "('f \<Rightarrow> bool) \<Rightarrow> ('f \<Rightarrow> nat set) \<Rightarrow> nat \<Rightarrow> nat set \<Rightarrow> nat list \<Rightarrow> nat list \<Rightarrow> nat \<Rightarrow> 'k::linorder option \<Rightarrow>
   'k option \<Rightarrow> 'k \<Rightarrow> ('k, 'v, 'f) btree \<Rightarrow> ('k, 'v) bt \<Rightarrow> erase_result \<Rightarrow> ('k, 'v, 'f) btree \<Rightarrow> bool"
where
  "erase_outcome disk_ok handed order U A B h lo hi key b t res b' \<longleftrightarrow>
     (if \<not> erased res then key \<notin> keys_of t \<and> b' = b
      else key \<in> keys_of t \<and>
        (if child_empty res
         then without key (recs t) = [] \<and>
           shrunk disk_ok handed U A B b t b' {page_no t} (if h = 0 then [page_no t] else []) \<and>
           (h = 0 \<longleftrightarrow> (\<exists>l. pages b' (page_no t) = Leaf_page l))
         else \<exists>t'. page_no t' = page_no t \<and> rep (pages b') t' \<and> okt order h lo hi t' \<and>
           recs t' = without key (recs t) \<and> distinct (page_nos t') \<and> set (page_nos t') \<subseteq> set (page_nos t) \<and>
           shrunk disk_ok handed U A B b t b' (set (page_nos t')) (leaf_nos t')))"

lemma erase_outcome_cases:
  assumes "erase_outcome disk_ok handed order U A B h lo hi key b t res b'"
  obtains (missing) "\<not> erased res" and "key \<notin> keys_of t" and "b' = b"
  | (empty) "erased res" and "child_empty res" and "key \<in> keys_of t" and "without key (recs t) = []"
    and "shrunk disk_ok handed U A B b t b' {page_no t} (if h = 0 then [page_no t] else [])"
    and "h = 0 \<longleftrightarrow> (\<exists>l. pages b' (page_no t) = Leaf_page l)"
  | (rest) t' where "erased res" and "\<not> child_empty res" and "key \<in> keys_of t"
    and "page_no t' = page_no t" and "rep (pages b') t'" and "okt order h lo hi t'"
    and "recs t' = without key (recs t)" and "distinct (page_nos t')"
    and "set (page_nos t') \<subseteq> set (page_nos t)"
    and "shrunk disk_ok handed U A B b t b' (set (page_nos t')) (leaf_nos t')"
  using assms unfolding erase_outcome_def by (metis (no_types, lifting))

lemma erase_outcome_rest:
  assumes "erased res" and "\<not> child_empty res" and "key \<in> keys_of t" and "page_no t' = page_no t"
    and "rep (pages b') t'" and "okt order h lo hi t'" and "recs t' = without key (recs t)"
    and "distinct (page_nos t')" and "set (page_nos t') \<subseteq> set (page_nos t)"
    and "shrunk disk_ok handed U A B b t b' (set (page_nos t')) (leaf_nos t')"
  shows "erase_outcome disk_ok handed order U A B h lo hi key b t res b'"
  unfolding erase_outcome_def using assms(3-) by (simp only: assms(1,2) simp_thms if_False if_True) blast

subsection \<open>Leaves\<close>

lemma erased_recs:
  assumes "distinct (map fst rs)" and "pos < length rs" and "fst (rs ! pos) = key"
  shows "take pos rs @ drop (Suc pos) rs = without key rs"
proof -
  define X r Y where "X = take pos rs" and "r = rs ! pos" and "Y = drop (Suc pos) rs"
  have rs: "rs = X @ r # Y" using id_take_nth_drop [OF assms(2)] by (simp add: X_def r_def Y_def)
  have r: "fst r = key" using assms(3) by (simp add: r_def)
  then have "key \<notin> fst ` set X" "key \<notin> fst ` set Y" using assms(1) unfolding rs by auto
  then have "\<forall>x \<in> set X. fst x \<noteq> key" "\<forall>x \<in> set Y. fst x \<noteq> key" by blast+
  with r have "without key rs = X @ Y" unfolding rs by (simp add: filter_id_conv)
  then show ?thesis by (simp add: X_def Y_def)
qed

lemma erase_leaf_ok:
  assumes "part_of disk_ok handed U A B b (Lf p rs)" and "okt order 0 lo hi (Lf p rs)"
    and "first_leaf (header b) = first_of (A @ p # B)"
  shows "\<exists>res b'. erase_rec (Suc depth) p key b = Some (res, b') \<and>
    erase_outcome disk_ok handed order U A B 0 lo hi key b (Lf p rs) res b'"
proof -
  obtain l where l: "pages b p = Leaf_page l" "leaf_recs l = rs" "p \<in> U" "p \<notin> set A \<union> set B"
    "chain (pages b) 0 (A @ p # B) 0" "distinct (A @ p # B)" "alloc_ok disk_ok handed b U"
    by (rule part_of_leaf [OF assms(1)])
  have srt: "sorted_wrt (<) (map fst (leaf_recs l))" using assms(2) l(2) by simp
  let ?pos = "lower_bound_leaf l key"
  show ?thesis
  proof (cases "at_key l ?pos key")
    case False
    then have "key \<notin> fst ` set rs" using at_key_spec [OF srt, of key] l(2) by simp
    moreover from False have "erase_rec (Suc depth) p key b = Some (\<lparr>erased = False, child_empty = False\<rparr>, b)"
      using l(1) by (simp add: Let_def)
    ultimately show ?thesis by (simp add: erase_outcome_def)
  next
    case True
    then have key: "key \<in> fst ` set rs" using at_key_spec [OF srt, of key] l(2) by simp
    define n where "n = leaf_count l - 1"
    define l' where "l' = l\<lparr>records := shift_down ?pos n (records l), leaf_count := n\<rparr>"
    define b' where "b' = put_page p (Leaf_page l') b"
    have pos: "?pos < leaf_count l" "fst (records l ?pos) = key" using True by (simp_all add: at_key_def)
    have n: "Suc n = leaf_count l" using pos by (simp add: n_def)
    have "fst (rs ! ?pos) = key" "?pos < length rs" using pos l(2) by auto
    then have rs': "leaf_recs l' = without key rs"
      using arr_remove [of ?pos n "records l"] erased_recs [of rs ?pos key] pos(1) n l(2)
        sorted_keys_distinct [OF srt [unfolded l(2)]] by (simp add: l'_def del: upt_Suc)
    have run: "erase_rec (Suc depth) p key b = Some (\<lparr>erased = True, child_empty = (n = 0)\<rparr>, b')"
      using True l(1) by (simp add: Let_def b'_def l'_def n_def)
    have "alloc_ok disk_ok handed b' U" unfolding b'_def by (rule alloc_ok_put [OF l(7,3)])
    moreover have "chain (pages b') 0 (A @ p # B) 0"
      unfolding b'_def put_page_simps
      using l(5) by (rule chain_links_cong) (simp add: same_links_def l(1) l'_def)
    ultimately have shr: "shrunk disk_ok handed U A B b (Lf p rs) b' {p} [p]"
      using assms(3) by (simp add: shrunk_def b'_def)
    have pg: "pages b' p = Leaf_page l'" by (simp add: b'_def)
    have len: "length (without key rs) = n" using length_arr [OF rs'] by (simp add: l'_def)
    have out: "erase_outcome disk_ok handed order U A B 0 lo hi key b (Lf p rs)
        \<lparr>erased = True, child_empty = (n = 0)\<rparr> b'"
    proof (cases "n = 0")
      case True
      then show ?thesis using len shr pg key by (simp add: erase_outcome_def)
    next
      case False
      have "rep (pages b') (Lf p (without key rs))" using pg rs' by simp
      moreover have "okt order 0 lo hi (Lf p (without key rs))"
        using assms(2) False len length_filter_le [of "\<lambda>r. fst r \<noteq> key" rs]
        by (auto simp: sorted_wrt_map sorted_wrt_filter)
      ultimately show ?thesis using False shr key
        unfolding erase_outcome_def by (auto intro!: exI [of _ "Lf p (without key rs)"])
    qed
    show ?thesis using run out by blast
  qed
qed

subsection \<open>Taking a leaf out of the chain\<close>

lemma chain_remove:
  assumes "chain g 0 (X @ c # Y) 0"
    and "\<And>X' x l. X = X' @ [x] \<Longrightarrow> g x = Leaf_page l \<Longrightarrow>
      g' x = Leaf_page (l\<lparr>next_page := first_of Y\<rparr>)"
    and "\<And>y Y' l. Y = y # Y' \<Longrightarrow> g y = Leaf_page l \<Longrightarrow>
      g' y = Leaf_page (l\<lparr>prev_page := (if X = [] then 0 else last X)\<rparr>)"
    and "\<And>q. q \<in> set (butlast X) \<union> set (tl Y) \<Longrightarrow> g' q = g q"
  shows "chain g' 0 (X @ Y) 0"
proof -
  have X: "chain g 0 X c" and Y: "chain g c Y 0" using assms(1) by (auto simp: chain_append)
  have "chain g' 0 X (first_of Y)"
  proof (cases X rule: rev_cases)
    case (snoc X' x)
    then obtain l where l: "g x = Leaf_page l" "prev_page l = (if X' = [] then 0 else last X')"
      and X': "chain g 0 X' x" using X by (auto simp: chain_append)
    have "chain g' 0 X' x" using X' by (rule chain_cong) (simp add: assms(4) snoc)
    then show ?thesis using assms(2) [OF snoc l(1)] l(2) by (simp add: snoc chain_append)
  qed simp
  moreover have "chain g' (if X = [] then 0 else last X) Y 0"
  proof (cases Y)
    case (Cons y Y')
    then obtain l where l: "g y = Leaf_page l" "next_page l = (case Y' of [] \<Rightarrow> 0 | q # _ \<Rightarrow> q)"
      and Y': "chain g y Y' 0" using Y by auto
    have "chain g' y Y' 0" using Y' by (rule chain_cong) (simp add: assms(4) Cons)
    then show ?thesis using assms(3) [OF Cons l(1)] l(2) by (simp add: Cons)
  qed simp
  ultimately show ?thesis by (simp add: chain_append first_of_def)
qed

definition same_header_but_first :: "('k, 'v, 'f) btree \<Rightarrow> ('k, 'v, 'f) btree \<Rightarrow> bool" where
  "same_header_but_first b b' \<longleftrightarrow> root_page (header b') = root_page (header b) \<and>
     elem_count (header b') = elem_count (header b) \<and> height (header b') = height (header b)"

lemma unlink_leaf_run:
  assumes "get_leaf c b = Some l" and "prev_page l = (if X = [] then 0 else last X)"
    and "next_page l = first_of Y" and "0 \<notin> set X \<union> set Y" and "set X \<inter> set Y = {}"
    and "X \<noteq> [] \<Longrightarrow> get_leaf (last X) b = Some lx" and "Y \<noteq> [] \<Longrightarrow> get_leaf (hd Y) b = Some ly"
    and "b1 = (if X = [] then b else put_page (last X) (Leaf_page (lx\<lparr>next_page := first_of Y\<rparr>)) b)"
    and "b2 = (if Y = [] then b1 else put_page (hd Y) (Leaf_page (ly\<lparr>prev_page := prev_page l\<rparr>)) b1)"
  shows "unlink_leaf c b =
    Some (if first_leaf (header b) = c then put_header (\<lambda>h. h\<lparr>first_leaf := first_of Y\<rparr>) b2 else b2)"
proof -
  have "X \<noteq> [] \<Longrightarrow> last X \<noteq> 0" using assms(4) last_in_set by fastforce
  then have 1: "(if prev_page l \<noteq> 0 then update_leaf (prev_page l) (\<lambda>l'. l'\<lparr>next_page := next_page l\<rparr>) b
      else Some b) = Some b1"
    using assms(2,3,6,8) by (cases "X = []") (simp_all add: update_leaf_def)
  have hd: "Y \<noteq> [] \<Longrightarrow> first_of Y = hd Y \<and> hd Y \<noteq> 0" using assms(4) by (cases Y) auto
  have "X \<noteq> [] \<Longrightarrow> Y \<noteq> [] \<Longrightarrow> hd Y \<noteq> last X"
    using assms(5) last_in_set hd_in_set by (metis disjoint_iff)
  then have "Y \<noteq> [] \<Longrightarrow> get_leaf (hd Y) b1 = Some ly" using assms(7,8) by simp
  then have 2: "(if next_page l \<noteq> 0 then update_leaf (next_page l) (\<lambda>l'. l'\<lparr>prev_page := prev_page l\<rparr>) b1
      else Some b1) = Some b2"
    using assms(3,9) hd by (cases "Y = []") (simp_all add: update_leaf_def)
  have "header b2 = header b" using assms(8,9) by simp
  then show ?thesis using assms(1,3) 1 2 by (simp add: unlink_leaf_def Let_def)
qed

lemma last_not_in_butlast: "distinct X \<Longrightarrow> X \<noteq> [] \<Longrightarrow> last X \<notin> set (butlast X)"
  by (cases X rule: rev_cases) auto

lemma hd_not_in_tl: "distinct Y \<Longrightarrow> Y \<noteq> [] \<Longrightarrow> hd Y \<notin> set (tl Y)"
  by (cases Y) auto

lemma unlink_leaf_ok:
  assumes "pages b c = Leaf_page l" and "chain (pages b) 0 (X @ c # Y) 0" and "distinct (X @ c # Y)"
    and "alloc_ok disk_ok handed b U" and "set X \<union> set Y \<subseteq> U"
    and "first_leaf (header b) = first_of (X @ c # Y)"
  shows "\<exists>b'. unlink_leaf c b = Some b' \<and> chain (pages b') 0 (X @ Y) 0 \<and> alloc_ok disk_ok handed b' U \<and>
    (\<forall>q. content (pages b' q) = content (pages b q)) \<and>
    (\<forall>q. q \<notin> set X \<union> set Y \<longrightarrow> pages b' q = pages b q) \<and>
    same_header_but_first b b' \<and> first_leaf (header b') = first_of (X @ Y)"
proof -
  have z: "0 \<notin> set X \<union> set Y" using assms(4,5) alloc_ok_zero by (metis subsetD)
  have "\<exists>lx. X \<noteq> [] \<longrightarrow> pages b (last X) = Leaf_page lx"
    using chain_member [OF assms(2), of "last X"] by (cases "X = []") auto
  then obtain lx where lx: "X \<noteq> [] \<Longrightarrow> pages b (last X) = Leaf_page lx" by blast
  have "\<exists>ly. Y \<noteq> [] \<longrightarrow> pages b (hd Y) = Leaf_page ly"
    using chain_member [OF assms(2), of "hd Y"] by (cases Y) auto
  then obtain ly where ly: "Y \<noteq> [] \<Longrightarrow> pages b (hd Y) = Leaf_page ly" by blast
  have pn: "prev_page l = (if X = [] then 0 else last X)" "next_page l = first_of Y"
    using chain_prev [OF assms(2,1)] chain_next [OF assms(2,1)] by (simp_all add: first_of_def)
  have disj: "set X \<inter> set Y = {}" using assms(3) by auto
  define b1 where "b1 = (if X = [] then b else put_page (last X) (Leaf_page (lx\<lparr>next_page := first_of Y\<rparr>)) b)"
  define b2 where "b2 = (if Y = [] then b1 else put_page (hd Y) (Leaf_page (ly\<lparr>prev_page := prev_page l\<rparr>)) b1)"
  define b' where "b' = (if first_leaf (header b) = c then put_header (\<lambda>h. h\<lparr>first_leaf := first_of Y\<rparr>) b2 else b2)"
  have run: "unlink_leaf c b = Some b'"
    unfolding b'_def
    by (rule unlink_leaf_run [OF _ pn z disj _ _ b1_def b2_def]) (use assms(1) lx ly in \<open>simp_all add: get_leaf_def\<close>)
  have pg: "pages b' q = (if Y \<noteq> [] \<and> q = hd Y then Leaf_page (ly\<lparr>prev_page := prev_page l\<rparr>)
      else if X \<noteq> [] \<and> q = last X then Leaf_page (lx\<lparr>next_page := first_of Y\<rparr>) else pages b q)" for q
    by (simp add: b'_def b2_def b1_def)
  have hl: "X \<noteq> [] \<Longrightarrow> Y \<noteq> [] \<Longrightarrow> last X \<noteq> hd Y" using disj last_in_set hd_in_set by fastforce
  have "chain (pages b') 0 (X @ Y) 0"
    using assms(2)
  proof (rule chain_remove)
    fix X' x l' assume "X = X' @ [x]" "pages b x = Leaf_page l'"
    then show "pages b' x = Leaf_page (l'\<lparr>next_page := first_of Y\<rparr>)" using pg [of x] lx hl by auto
  next
    fix y Y' l' assume "Y = y # Y'" "pages b y = Leaf_page l'"
    then show "pages b' y = Leaf_page (l'\<lparr>prev_page := (if X = [] then 0 else last X)\<rparr>)"
      using pg [of y] ly pn(1) by simp
  next
    fix q assume q: "q \<in> set (butlast X) \<union> set (tl Y)"
    have "distinct X" "distinct Y" using assms(3) by auto
    then have l: "X \<noteq> [] \<Longrightarrow> last X \<notin> set (butlast X)" and h: "Y \<noteq> [] \<Longrightarrow> hd Y \<notin> set (tl Y)"
      using last_not_in_butlast hd_not_in_tl by blast+
    show "pages b' q = pages b q"
    proof (cases "q \<in> set (butlast X)")
      case True
      then have "q \<in> set X" "X \<noteq> []" by (auto dest: in_set_butlastD)
      moreover from this have "\<not> (Y \<noteq> [] \<and> q = hd Y)" using disj hd_in_set by blast
      ultimately show ?thesis using pg [of q] l True by auto
    next
      case False
      then have q': "q \<in> set (tl Y)" using q by blast
      then have "q \<in> set Y" "Y \<noteq> []" by (cases Y; auto)+
      moreover from this have "\<not> (X \<noteq> [] \<and> q = last X)" using disj last_in_set by blast
      ultimately show ?thesis using pg [of q] h q' by auto
    qed
  qed
  moreover have "alloc_ok disk_ok handed b' U"
  proof -
    have "X \<noteq> [] \<Longrightarrow> last X \<in> U" "Y \<noteq> [] \<Longrightarrow> hd Y \<in> U" using assms(5) last_in_set hd_in_set by blast+
    moreover from this have "alloc_ok disk_ok handed b1 U"
      using alloc_ok_put [OF assms(4)] assms(4) by (simp add: b1_def)
    ultimately have "alloc_ok disk_ok handed b2 U"
      using alloc_ok_put [of _ _ b1] by (simp add: b2_def)
    then show ?thesis unfolding b'_def by (auto intro: alloc_ok_header)
  qed
  moreover have "content (pages b' q) = content (pages b q)" for q
    using pg [of q] lx ly by auto
  moreover have "pages b' q = pages b q" if "q \<notin> set X \<union> set Y" for q
    using pg [of q] that last_in_set hd_in_set by (metis UnI1 UnI2)
  moreover have "same_header_but_first b b'"
    by (simp add: same_header_but_first_def b'_def b2_def b1_def)
  moreover have "first_leaf (header b') = first_of (X @ Y)"
    using assms(3,6) by (cases X) (auto simp: b'_def b2_def b1_def)
  ultimately show ?thesis using run by blast
qed

subsection \<open>Dropping a child\<close>

lemma drop_child_left:
  assumes "arr (seps br) (branch_count br) = K @ m # L" and "length K = ci"
    and "arr (children br) (Suc (branch_count br)) = X @ c # Y" and "length X = ci"
  shows "arr (seps (drop_child br ci)) (branch_count (drop_child br ci)) = K @ L \<and>
    arr (children (drop_child br ci)) (Suc (branch_count (drop_child br ci))) = X @ Y"
proof -
  define n where "n = length K + length L"
  have n: "branch_count br = Suc n" "ci \<le> n" using length_arr [OF assms(1)] assms(2) by (auto simp: n_def)
  have "arr (shift_down ci n (seps br)) n = K @ L"
    using arr_remove [OF n(2), of "seps br", folded n(1), unfolded assms(1)] assms(2) by simp
  moreover have "arr (shift_down ci (Suc n) (children br)) (Suc n) = X @ Y"
    using arr_remove [of ci "Suc n" "children br", folded n(1), unfolded assms(3)] assms(4) n by simp
  ultimately show ?thesis using n by (simp add: drop_child_def Let_def del: upt_Suc)
qed

lemma drop_child_last:
  assumes "arr (seps br) (branch_count br) = K @ [m]" and "ci = Suc (length K)"
    and "arr (children br) (Suc (branch_count br)) = X @ [c]"
  shows "arr (seps (drop_child br ci)) (branch_count (drop_child br ci)) = K \<and>
    arr (children (drop_child br ci)) (Suc (branch_count (drop_child br ci))) = X"
proof -
  have n: "branch_count br = Suc (length K)" using length_arr [OF assms(1)] by simp
  then show ?thesis using assms by (simp add: drop_child_def)
qed

lemma drop_child_only: "branch_count br = 0 \<Longrightarrow> drop_child br 0 = br"
  by (simp add: drop_child_def)

lemma okt_bounds_below: "okt order g lo (Some m) t \<Longrightarrow> below lo (Some m)"
proof -
  assume t: "okt order g lo (Some m) t"
  obtain k where "within lo (Some m) k" using okt_some_key [OF t] okt_keys_within [OF t] by blast
  then show ?thesis by (auto simp: within_def below_def split: option.splits)
qed

lemma okt_bounds_above: "okt order g (Some m) hi t \<Longrightarrow> above hi (Some m)"
proof -
  assume t: "okt order g (Some m) hi t"
  obtain k where "within (Some m) hi k" using okt_some_key [OF t] okt_keys_within [OF t] by blast
  then show ?thesis by (auto simp: within_def above_def split: option.splits)
qed

lemma seg_okt_widen:
  "seg (okt order g) lo hi ks ts \<Longrightarrow> below lo' lo \<Longrightarrow> above hi' hi \<Longrightarrow> seg (okt order g) lo' hi' ks ts"
  by (erule seg_widen) (auto intro: okt_widen)

lemma seg_drop_left:
  assumes "seg (okt order g) lo hi (K @ m # L) (As @ u # Bs)" and "length As = length K"
  shows "seg (okt order g) lo hi (K @ L) (As @ Bs)"
proof -
  have s: "seg_before (okt order g) lo K As" "okt order g (low_of lo K) (Some m) u"
    "seg (okt order g) (Some m) hi L Bs"
    using assms seg_append [OF assms(2), of "okt order g" lo hi "m # L" "u # Bs"] by auto
  have "seg (okt order g) (low_of lo K) hi L Bs"
    using seg_okt_widen [OF s(3) okt_bounds_below [OF s(2)]] by simp
  then show ?thesis using seg_append [OF assms(2)] s(1) by blast
qed

lemma seg_drop_last:
  assumes "seg (okt order g) lo hi (K @ [m]) (As @ [u])" and "length As = Suc (length K)"
  shows "seg (okt order g) lo hi K As"
proof -
  have s: "seg (okt order g) lo (Some m) K As" "okt order g (Some m) hi u"
    using seg_split [OF assms(2), of "okt order g" lo hi m "[]" "[u]"] assms(1) by simp_all
  show ?thesis using seg_okt_widen [OF s(1) below_refl okt_bounds_above [OF s(2)]] .
qed

subsection \<open>Removing an empty child\<close>

lemma remove_child_ok:
  assumes "part_of disk_ok handed U A B b (Nd p ks (As @ u # Bs))"
    and "branch_at (pages b) p br ks (As @ u # Bs)" and "length As = ci"
    and "shrunk disk_ok handed U (A @ all_leaves As) (all_leaves Bs @ B) b u b1 {page_no u}
      (if g = (0::nat) then [page_no u] else [])"
    and "g = 0 \<longleftrightarrow> (\<exists>l. pages b1 (page_no u) = Leaf_page l)"
  shows "\<exists>b'. remove_child p ci b1 = Some b' \<and> pages b' p = Branch_page (drop_child br ci) \<and>
    (\<forall>v \<in> set As \<union> set Bs. rep (pages b') v) \<and>
    shrunk disk_ok handed U A B b (Nd p ks (As @ u # Bs)) b'
      (insert p (set (all_pages As) \<union> set (all_pages Bs))) (all_leaves As @ all_leaves Bs)"
proof -
  let ?c = "page_no u" and ?X = "A @ all_leaves As" and ?Y = "all_leaves Bs @ B"
  have d: "distinct (p # all_pages As @ page_nos u @ all_pages Bs)"
    and s: "set (p # all_pages As @ page_nos u @ all_pages Bs) \<subseteq> U"
    and ab: "set A \<union> set B \<subseteq> U - set (p # all_pages As @ page_nos u @ all_pages Bs)"
    and dl: "distinct (A @ (all_leaves As @ leaf_nos u @ all_leaves Bs) @ B)"
    using assms(1) by (simp_all add: part_of_def del: set_simps)
  have dab: "distinct ?X" "distinct ?Y" "set ?X \<inter> set ?Y = {}" using dl by auto
  have XY: "set ?X \<union> set ?Y \<subseteq> U - set (p # page_nos u)"
    using d s ab all_leaves_subset [of As] all_leaves_subset [of Bs] by (auto simp del: set_concat)
  have c: "?c \<in> set (page_nos u)" by simp
  have cU: "?c \<in> U" "?c \<noteq> p" "?c \<notin> set ?X \<union> set ?Y" "p \<in> U" "p \<notin> set ?X \<union> set ?Y" "p \<notin> set (page_nos u)"
    using XY s d c by (auto simp del: set_concat page_no_in)
  have sh: "alloc_ok disk_ok handed b1 (U - (set (page_nos u) - {?c}))"
    "chain (pages b1) 0 (?X @ (if g = 0 then [?c] else []) @ ?Y) 0"
    "\<And>q. q \<in> U \<Longrightarrow> q \<notin> set (page_nos u) \<Longrightarrow> content (pages b1 q) = content (pages b q)"
    "same_header_but_first b b1" "first_leaf (header b1) = first_of (?X @ (if g = 0 then [?c] else []) @ ?Y)"
    using assms(4) by (simp_all add: shrunk_def same_header_but_first_def)
  have brp: "pages b1 p = Branch_page br"
    using sh(3) [OF cU(4,6)] assms(2) by (simp add: branch_at_def content_branch)
  have "children br ci = map page_no (As @ u # Bs) ! ci"
  proof (rule arr_nth)
    show "arr (children br) (Suc (branch_count br)) = map page_no (As @ u # Bs)"
      using assms(2) by (simp only: branch_at_def)
    from length_arr [OF this] show "ci < Suc (branch_count br)" using assms(3) by simp
  qed
  then have child: "children br ci = ?c" using assms(3) by (simp add: nth_append)
  have "\<exists>b2. (case pages b1 ?c of Leaf_page _ \<Rightarrow> unlink_leaf ?c b1 | _ \<Rightarrow> Some b1) = Some b2 \<and>
    chain (pages b2) 0 (?X @ ?Y) 0 \<and> alloc_ok disk_ok handed b2 (U - (set (page_nos u) - {?c})) \<and>
    (\<forall>q. content (pages b2 q) = content (pages b1 q)) \<and> pages b2 p = pages b1 p \<and>
    same_header_but_first b1 b2 \<and> first_leaf (header b2) = first_of (?X @ ?Y)"
  proof (cases "g = 0")
    case True
    then obtain l where l: "pages b1 ?c = Leaf_page l" using assms(5) by blast
    have C: "chain (pages b1) 0 (?X @ ?c # ?Y) 0" and F: "first_leaf (header b1) = first_of (?X @ ?c # ?Y)"
      using sh(2,5) True by simp_all
    have D: "distinct (?X @ ?c # ?Y)" using dab cU(3) by auto
    have "set ?X \<union> set ?Y \<subseteq> U - (set (page_nos u) - {?c})" using XY by (auto simp del: set_concat)
    from unlink_leaf_ok [OF l C D sh(1) this F] obtain b2 where "unlink_leaf ?c b1 = Some b2" "chain (pages b2) 0 (?X @ ?Y) 0"
      "alloc_ok disk_ok handed b2 (U - (set (page_nos u) - {?c}))"
      "\<forall>q. content (pages b2 q) = content (pages b1 q)"
      "\<forall>q. q \<notin> set ?X \<union> set ?Y \<longrightarrow> pages b2 q = pages b1 q"
      "same_header_but_first b1 b2" "first_leaf (header b2) = first_of (?X @ ?Y)"
      by blast
    then show ?thesis using l cU(5) by (intro exI [of _ b2]) simp
  next
    case False
    then have "\<And>l. pages b1 ?c \<noteq> Leaf_page l" using assms(5) by blast
    then have "(case pages b1 ?c of Leaf_page _ \<Rightarrow> unlink_leaf ?c b1 | _ \<Rightarrow> Some b1) = Some b1"
      by (simp split: page.split)
    then show ?thesis using False sh by (intro exI [of _ b1]) (simp add: same_header_but_first_def)
  qed
  then obtain b2 where b2: "(case pages b1 ?c of Leaf_page _ \<Rightarrow> unlink_leaf ?c b1 | _ \<Rightarrow> Some b1) = Some b2"
    "chain (pages b2) 0 (?X @ ?Y) 0" "alloc_ok disk_ok handed b2 (U - (set (page_nos u) - {?c}))"
    "\<And>q. content (pages b2 q) = content (pages b1 q)" "pages b2 p = pages b1 p"
    "same_header_but_first b1 b2" "first_leaf (header b2) = first_of (?X @ ?Y)" by blast
  define b3 where "b3 = free_page_at ?c b2"
  define b' where "b' = put_page p (Branch_page (drop_child br ci)) b3"
  have run: "remove_child p ci b1 = Some b'"
    using brp child b2(1,5) cU(2) by (simp add: remove_child_def get_branch_def Let_def b'_def b3_def free_page_at_pages
        cong: page.case_cong)
  have pg: "pages b' p = Branch_page (drop_child br ci)" by (simp add: b'_def)
  have pg': "pages b' q = pages b2 q" if "q \<noteq> p" "q \<noteq> ?c" for q
    using that by (simp add: b'_def b3_def free_page_at_pages)
  have same: "content (pages b' q) = content (pages b q)" if "q \<in> U" "q \<notin> set (page_nos u)" "q \<noteq> p" for q
  proof -
    have "q \<noteq> ?c" using that(2) c by metis
    then show ?thesis using pg' [of q] that b2(4) [of q] sh(3) [of q] by simp
  qed
  have "rep (pages b') v" if v: "v \<in> set As \<union> set Bs" for v
  proof (rule rep_cong [of "pages b"])
    show "rep (pages b) v" using assms(2) v by (auto simp: branch_at_def)
    fix q assume "q \<in> set (page_nos v)"
    then have "q \<in> set (all_pages As @ all_pages Bs)" using v by auto
    then have "q \<in> U" "q \<notin> set (page_nos u)" "q \<noteq> p" using d s by (auto simp del: set_concat)
    then show "content (pages b' q) = content (pages b q)" by (rule same)
  qed
  moreover have "chain (pages b') 0 (?X @ ?Y) 0"
    using b2(2)
  proof (rule chain_cong)
    fix q assume "q \<in> set (?X @ ?Y)"
    then have "q \<noteq> p" "q \<noteq> ?c" using cU(3,5) by (auto simp del: set_concat)
    then show "pages b' q = pages b2 q" by (rule pg')
  qed
  moreover have "alloc_ok disk_ok handed b' (U - set (page_nos u))"
  proof -
    have "alloc_ok disk_ok handed b3 (U - (set (page_nos u) - {?c}) - {?c})"
      unfolding b3_def by (rule alloc_ok_free [OF b2(3)]) (use cU(1) in simp)
    moreover have "U - (set (page_nos u) - {?c}) - {?c} = U - set (page_nos u)" using c by blast
    ultimately have "alloc_ok disk_ok handed b3 (U - set (page_nos u))" by simp
    then show ?thesis unfolding b'_def by (rule alloc_ok_put) (use cU(4,6) in blast)
  qed
  moreover have "set (page_nos (Nd p ks (As @ u # Bs))) - insert p (set (all_pages As) \<union> set (all_pages Bs)) =
      set (page_nos u)"
    using d by (auto simp del: set_concat)
  moreover have "same_header_but_first b b'" "first_leaf (header b') = first_of (?X @ ?Y)"
    using sh(4) b2(6,7) by (simp_all add: same_header_but_first_def b'_def b3_def free_page_at_def)
  moreover have "\<forall>q \<in> U - set (page_nos (Nd p ks (As @ u # Bs))). content (pages b' q) = content (pages b q)"
    using same by (auto simp del: set_concat)
  ultimately show ?thesis
    using run pg unfolding shrunk_def same_header_but_first_def
    by (intro exI [of _ b']) simp
qed

subsection \<open>Erasing in a subtree\<close>

lemma without_other: "key \<notin> fst ` set rs \<Longrightarrow> without key rs = rs"
  by (auto simp: filter_id_conv)

lemma without_child:
  assumes "\<forall>v \<in> set As \<union> set Bs. key \<notin> keys_of v"
  shows "without key (concat (map recs (As @ u # Bs))) =
    concat (map recs As) @ without key (recs u) @ concat (map recs Bs)"
proof -
  have "key \<notin> fst ` set (concat (map recs As))" "key \<notin> fst ` set (concat (map recs Bs))"
    using assms by auto
  then show ?thesis by (simp add: without_other del: set_concat)
qed

text \<open>The branch that is left when a child went away.\<close>

lemma branch_after_removal:
  assumes "branch_at (pages b) p br (K @ L) (As @ u # Bs)" and "length As = length K"
    and "seg (okt order g) lo hi (K @ L) (As @ u # Bs)" and "length (K @ L) \<le> order"
    and "branch_count br \<noteq> 0" and "pages b' p = Branch_page (drop_child br (length As))"
    and "\<forall>v \<in> set As \<union> set Bs. rep (pages b') v"
  shows "\<exists>ks. rep (pages b') (Nd p ks (As @ Bs)) \<and> okt order (Suc g) lo hi (Nd p ks (As @ Bs))"
proof -
  have ks: "arr (seps br) (branch_count br) = K @ L"
    and ch: "arr (children br) (Suc (branch_count br)) = map page_no As @ page_no u # map page_no Bs"
    using assms(1) by (simp_all add: branch_at_def del: upt_Suc)
  have len: "length (As @ u # Bs) = Suc (length (K @ L))" using seg_length [OF assms(3)] .
  have "\<exists>ks. arr (seps (drop_child br (length As))) (branch_count (drop_child br (length As))) = ks \<and>
    arr (children (drop_child br (length As))) (Suc (branch_count (drop_child br (length As)))) =
      map page_no (As @ Bs) \<and> seg (okt order g) lo hi ks (As @ Bs) \<and> length ks \<le> order"
  proof (cases L)
    case (Cons m L')
    from drop_child_left [OF ks [unfolded Cons] _ ch, of "length As"] assms(2)
      seg_drop_left [OF assms(3) [unfolded Cons] assms(2)] assms(4) Cons
    show ?thesis by (intro exI [of _ "K @ L'"]) simp
  next
    case Nil
    then have B: "Bs = []" using len assms(2) by simp
    have "length (K @ L) \<noteq> 0" using length_arr [OF ks] assms(5) by simp
    then obtain K' m where K: "K = K' @ [m]" using Nil by (cases K rule: rev_cases) auto
    have "arr (seps br) (branch_count br) = K' @ [m]" "length As = Suc (length K')"
      "arr (children br) (Suc (branch_count br)) = map page_no As @ [page_no u]"
      using ks ch assms(2) by (simp_all add: K Nil B)
    from drop_child_last [OF this] seg_drop_last [of order g lo hi K' m As u] assms(2-4)
    show ?thesis by (intro exI [of _ K']) (simp add: K Nil B)
  qed
  then obtain ks' where "arr (seps (drop_child br (length As))) (branch_count (drop_child br (length As))) = ks'"
    "arr (children (drop_child br (length As))) (Suc (branch_count (drop_child br (length As)))) =
      map page_no (As @ Bs)" "seg (okt order g) lo hi ks' (As @ Bs)" "length ks' \<le> order" by blast
  then show ?thesis
    using assms(6,7) by (intro exI [of _ ks']) (auto simp: okt_Nd simp del: upt_Suc)
qed

lemma shrunk_lift:
  assumes "part_of disk_ok handed U A B b (Nd p ks (As @ u # Bs))"
    and "shrunk disk_ok handed U (A @ all_leaves As) (all_leaves Bs @ B) b u b' P L"
    and "P \<subseteq> set (page_nos u)"
  shows "shrunk disk_ok handed U A B b (Nd p ks (As @ u # Bs)) b'
    (insert p (set (all_pages As) \<union> P \<union> set (all_pages Bs))) (all_leaves As @ L @ all_leaves Bs)"
proof -
  have d: "distinct (p # all_pages As @ page_nos u @ all_pages Bs)"
    using assms(1) by (simp add: part_of_def del: set_simps)
  have "set (page_nos (Nd p ks (As @ u # Bs))) - insert p (set (all_pages As) \<union> P \<union> set (all_pages Bs)) =
      set (page_nos u) - P"
    using d assms(3) by (auto simp del: set_concat)
  moreover have "\<forall>q \<in> U - set (page_nos (Nd p ks (As @ u # Bs))). content (pages b' q) = content (pages b q)"
    using assms(2) by (auto simp: shrunk_def simp del: set_concat)
  ultimately show ?thesis using assms(2) by (simp add: shrunk_def)
qed

lemma erase_rec_ok:
  assumes "part_of disk_ok handed U A B b t" and "okt order h lo hi t" and "within lo hi key"
    and "h < depth" and "first_leaf (header b) = first_of (A @ leaf_nos t @ B)"
  shows "\<exists>res b'. erase_rec depth (page_no t) key b = Some (res, b') \<and>
    erase_outcome disk_ok handed order U A B h lo hi key b t res b'"
  using assms
proof (induction depth arbitrary: h lo hi t A B)
  case (Suc depth)
  show ?case
  proof (cases t)
    case (Lf p rs)
    then have "h = 0" using Suc.prems(2) by simp
    then show ?thesis
      using erase_leaf_ok [of disk_ok handed U A B b p rs order lo hi depth key] Suc.prems Lf by simp
  next
    case (Nd p ks ts)
    obtain g where h: "h = Suc g" "length ks \<le> order" and sg: "seg (okt order g) lo hi ks ts"
      using Suc.prems(2) Nd by (auto simp: okt_Nd)
    have "rep (pages b) (Nd p ks ts)" and pU: "p \<in> U"
      using Suc.prems(1) Nd by (auto simp: part_of_def)
    then obtain br where br: "branch_at (pages b) p br ks ts" using rep_Nd by blast
    obtain K L As u Bs where c: "ks = K @ L" "ts = As @ u # Bs" "length K = child_index br key"
      "length As = child_index br key" "children br (child_index br key) = page_no u"
      "seg_before (okt order g) lo K As" "okt order g (low_of lo K) (high_of hi L) u"
      "seg_after (okt order g) hi L Bs" "within (low_of lo K) (high_of hi L) key"
      "\<forall>v \<in> set As \<union> set Bs. key \<notin> keys_of v"
      using branch_child [OF br sg Suc.prems(3)] by metis
    have pt: "part_of disk_ok handed U A B b (Nd p ks (As @ u # Bs))" using Suc.prems(1) Nd c(2) by simp
    note child = part_of_child [OF pt]
    have fl: "first_leaf (header b) = first_of ((A @ all_leaves As) @ leaf_nos u @ (all_leaves Bs @ B))"
      using Suc.prems(5) by (simp add: Nd c(2))
    obtain res b1 where run: "erase_rec depth (page_no u) key b = Some (res, b1)"
      and out: "erase_outcome disk_ok handed order U (A @ all_leaves As) (all_leaves Bs @ B) g
        (low_of lo K) (high_of hi L) key b u res b1"
      using Suc.IH [OF child c(7,9) _ fl] Suc.prems(4) h(1) by auto
    have brp: "pages b p = Branch_page br" using br by (simp add: branch_at_def)
    have d: "distinct (p # all_pages As @ page_nos u @ all_pages Bs)"
      using pt by (simp add: part_of_def del: set_simps)
    have step: "erase_rec (Suc depth) (page_no t) key b =
        (if \<not> erased res then Some (\<lparr>erased = False, child_empty = False\<rparr>, b1)
         else if child_empty res then
           (case get_branch p b1 of None \<Rightarrow> None | Some br' \<Rightarrow>
             (case remove_child p (child_index br key) b1 of None \<Rightarrow> None
              | Some b2 \<Rightarrow> Some (\<lparr>erased = True, child_empty = (branch_count br' = 0)\<rparr>, b2)))
         else Some (\<lparr>erased = True, child_empty = False\<rparr>, b1))"
      using brp Nd run c(5) by (auto simp: get_branch_def split: option.split)
    have keys: "(key \<in> keys_of t) = (key \<in> keys_of u)" using c(10) by (auto simp: Nd c(2))
    have wo: "without key (recs t) = concat (map recs As) @ without key (recs u) @ concat (map recs Bs)"
      using without_child [OF c(10)] by (simp add: Nd c(2))
    have p_kept: "pages b1 p = Branch_page br" if "shrunk disk_ok handed U (A @ all_leaves As) (all_leaves Bs @ B) b u b1 P M" for P M
    proof -
      have "p \<in> U - set (page_nos u)" using pU d by simp
      then have "content (pages b1 p) = content (pages b p)" using that by (simp add: shrunk_def)
      then show ?thesis using brp by (simp add: content_branch)
    qed
    from out show ?thesis
    proof (cases rule: erase_outcome_cases)
      case missing
      then show ?thesis using step keys by (simp add: erase_outcome_def)
    next
      case (rest u')
      have rep': "rep (pages b1) v" if v: "v \<in> set As \<union> set Bs" for v
      proof (rule rep_cong [of "pages b"])
        show "rep (pages b) v" using br v by (auto simp: branch_at_def c(2))
        fix q assume "q \<in> set (page_nos v)"
        then have q: "q \<in> set (all_pages As @ all_pages Bs)" using v by auto
        have "set (page_nos (Nd p ks (As @ u # Bs))) \<subseteq> U" using pt by (simp add: part_of_def)
        then have "q \<in> U" "q \<notin> set (page_nos u)" using d q by (auto simp del: set_concat)
        then show "content (pages b1 q) = content (pages b q)" using rest(10) by (simp add: shrunk_def)
      qed
      let ?t = "Nd p ks (As @ u' # Bs)"
      have R: "rep (pages b1) ?t"
        using rep' rest(4,5) p_kept [OF rest(10)] br by (auto simp: branch_at_def c(2) simp del: upt_Suc)
      have O: "okt order h lo hi ?t"
        using seg_at [of As K "okt order g" lo hi L u' Bs] c rest(6) h by (simp add: okt_Nd)
      have S: "shrunk disk_ok handed U A B b t b1 (set (page_nos ?t)) (leaf_nos ?t)"
        using shrunk_lift [OF pt rest(10,9)] by (simp add: Nd c(2) Un_ac)
      have D: "distinct (page_nos ?t)" and P: "set (page_nos ?t) \<subseteq> set (page_nos t)"
        using d rest(8,9) by (auto simp: Nd c(2) simp del: set_concat)
      have E: "recs ?t = without key (recs t)" using wo rest(7) by simp
      have "page_no ?t = page_no t" by (simp add: Nd)
      from erase_outcome_rest [OF _ _ _ this R O E D P S, of "\<lparr>erased = True, child_empty = False\<rparr>"]
      show ?thesis using step rest(1-3) keys by simp
    next
      case empty
      have br1: "get_branch p b1 = Some br" using p_kept [OF empty(5)] by (simp add: get_branch_def)
      obtain b' where b': "remove_child p (child_index br key) b1 = Some b'"
        "pages b' p = Branch_page (drop_child br (child_index br key))"
        "\<forall>v \<in> set As \<union> set Bs. rep (pages b') v"
        "shrunk disk_ok handed U A B b (Nd p ks (As @ u # Bs)) b'
          (insert p (set (all_pages As) \<union> set (all_pages Bs))) (all_leaves As @ all_leaves Bs)"
        using remove_child_ok [OF pt br [unfolded c(2)] c(4) empty(5,6)] by blast
      have stp: "erase_rec (Suc depth) (page_no t) key b =
          Some (\<lparr>erased = True, child_empty = (branch_count br = 0)\<rparr>, b')"
        using step empty(1,2) br1 b'(1) by simp
      have "erase_outcome disk_ok handed order U A B h lo hi key b t
          \<lparr>erased = True, child_empty = (branch_count br = 0)\<rparr> b'"
      proof (cases "branch_count br = 0")
        case True
        have "ks = []" using br True by (simp add: branch_at_def)
        then have "As = []" "Bs = []" using seg_length [OF sg] by (simp_all add: c(2))
        then show ?thesis
          using True b'(2,4) empty(3,4) keys wo by (simp add: erase_outcome_def h Nd c(2))
      next
        case False
        have e: "length As = child_index br key" "length As = length K" using c(3,4) by simp_all
        obtain ks' where t': "rep (pages b') (Nd p ks' (As @ Bs))" "okt order h lo hi (Nd p ks' (As @ Bs))"
          using branch_after_removal [OF br [unfolded c(1,2)] e(2) sg [unfolded c(1,2)] h(2) [unfolded c(1)] False
              b'(2) [folded e(1)] b'(3)] h(1) by blast
        have E: "recs (Nd p ks' (As @ Bs)) = without key (recs t)" using wo empty(4) by simp
        have D: "distinct (page_nos (Nd p ks' (As @ Bs)))"
          and P: "set (page_nos (Nd p ks' (As @ Bs))) \<subseteq> set (page_nos t)"
          using d by (auto simp: Nd c(2) simp del: set_concat)
        have S: "shrunk disk_ok handed U A B b t b' (set (page_nos (Nd p ks' (As @ Bs))))
            (leaf_nos (Nd p ks' (As @ Bs)))"
          using b'(4) by (simp add: Nd c(2))
        have "page_no (Nd p ks' (As @ Bs)) = page_no t" by (simp add: Nd)
        from erase_outcome_rest [OF _ _ _ this t' E D P S, of "\<lparr>erased = True, child_empty = (branch_count br = 0)\<rparr>"]
        show ?thesis using False empty(3) keys by simp
      qed
      then show ?thesis using stp by blast
    qed
  qed
qed simp

end
