(* ===== verification/Btree_Clear.thy ===== *)
theory Btree_Clear
  imports Btree_Erase
begin

text \<open>
  \<open>erase\<close> on the whole tree, with the loop that lowers the root, and \<open>clear\<close>.
\<close>

subsection \<open>Lowering the root\<close>

lemma collapse_root_ok:
  assumes "bt_holds disk_ok handed order b (Some t)" and "okt order h None None t" and "h < depth"
  shows "\<exists>t' b'. collapse_root depth b = Some b' \<and> bt_holds disk_ok handed order b' (Some t') \<and>
    recs t' = recs t"
  using assms
proof (induction depth arbitrary: b t h)
  case (Suc depth)
  have b: "alloc_ok disk_ok handed b (set (page_nos t))" "elem_count (header b) = length (recs t)"
    "root_page (header b) = page_no t" "take 1 (leaf_nos t) = [first_leaf (header b)]"
    "rep (pages b) t" "distinct (page_nos t)" "chain (pages b) 0 (leaf_nos t) 0"
    using Suc.prems(1) unfolding bt_holds_Some by blast+
  have nz: "page_no t \<noteq> 0" using alloc_ok_zero [OF b(1)] page_no_in by metis
  show ?case
  proof (cases t)
    case (Lf p rs)
    then have "collapse_root (Suc depth) b = Some b" using b(3,5) by auto
    then show ?thesis using Suc.prems(1) by blast
  next
    case (Nd p ks ts)
    obtain g where h: "h = Suc g" "seg (okt order g) None None ks ts"
      using Suc.prems(2) Nd by (auto simp: okt_Nd)
    obtain br where br: "branch_at (pages b) p br ks ts" using b(5) Nd rep_Nd by metis
    have brp: "pages b p = Branch_page br" using br by (simp add: branch_at_def)
    show ?thesis
    proof (cases "branch_count br = 0")
      case False
      then have "collapse_root (Suc depth) b = Some b" using b(3) Nd brp nz by simp
      then show ?thesis using Suc.prems(1) by blast
    next
      case True
      then have "ks = []" using br by (simp add: branch_at_def)
      then obtain u where u: "ts = [u]" "okt order g None None u" using h(2) by (auto simp: seg_Nil)
      define b1 where "b1 = free_page_at p
        (put_header (\<lambda>h. h\<lparr>root_page := children br 0, height := height h - 1\<rparr>) b)"
      have ch: "children br 0 = page_no u" using br True u(1) by (simp add: branch_at_def)
      have step: "collapse_root (Suc depth) b = collapse_root depth b1"
        using True b(3) Nd brp nz by (simp add: Let_def b1_def)
      have d: "p \<notin> set (page_nos u)" "distinct (page_nos u)" using b(6) by (simp_all add: Nd u(1))
      have pg: "q \<noteq> p \<Longrightarrow> pages b1 q = pages b q" for q by (simp add: b1_def free_page_at_pages)
      have "rep (pages b1) u"
      proof (rule rep_cong [of "pages b"])
        show "rep (pages b) u" using br u(1) by (simp add: branch_at_def)
        fix q assume "q \<in> set (page_nos u)"
        then have "q \<noteq> p" using d(1) by metis
        then show "content (pages b1 q) = content (pages b q)" using pg by simp
      qed
      moreover have "chain (pages b1) 0 (leaf_nos u) 0"
      proof (rule chain_cong)
        show "chain (pages b) 0 (leaf_nos u) 0" using b(7) by (simp add: Nd u(1))
        fix q assume "q \<in> set (leaf_nos u)"
        then have "q \<noteq> p" using d(1) leaf_nos_subset [of u] by blast
        then show "pages b1 q = pages b q" by (rule pg)
      qed
      moreover have "alloc_ok disk_ok handed b1 (set (page_nos u))"
      proof -
        have "alloc_ok disk_ok handed b1 (set (page_nos t) - {p})"
          unfolding b1_def by (intro alloc_ok_free alloc_ok_header [OF b(1)]) (simp_all add: Nd)
        moreover have "set (page_nos t) - {p} = set (page_nos u)" using d(1) by (auto simp: Nd u(1))
        ultimately show ?thesis by simp
      qed
      moreover have "height (header b) = Suc h"
        using Suc.prems(1,2) okt_height unfolding bt_holds_Some by metis
      ultimately have "bt_holds disk_ok handed order b1 (Some u)"
        unfolding bt_holds_Some using b d(2) u ch
        by (simp add: Nd b1_def free_page_at_def h(1))
      from Suc.IH [OF this u(2)] show ?thesis using Suc.prems(3) h(1) step by (simp add: Nd u(1))
    qed
  qed
qed simp

subsection \<open>Erasure\<close>

lemma length_without:
  "distinct (map fst rs) \<Longrightarrow> key \<in> fst ` set rs \<Longrightarrow> length (without key rs) = length rs - 1"
proof (induction rs)
  case (Cons r rs)
  show ?case
  proof (cases "fst r = key")
    case True
    then have "key \<notin> fst ` set rs" using Cons.prems(1) by auto
    then show ?thesis using True by (simp add: without_other)
  next
    case False
    then have "key \<in> fst ` set rs" using Cons.prems(2) by auto
    moreover from this have "rs \<noteq> []" by auto
    ultimately show ?thesis using False Cons by simp
  qed
qed simp

lemma bt_erase_nonempty:
  assumes "bt_holds disk_ok handed order b (Some t)"
  shows "\<exists>to' b'. bt_erase key b = Some (if key \<in> keys_of t then 1 else 0, b') \<and>
    bt_holds disk_ok handed order b' to' \<and> entries to' = without key (recs t)"
proof -
  obtain h where h: "alloc_ok disk_ok handed b (set (page_nos t))" "elem_count (header b) = length (recs t)"
    "root_page (header b) = page_no t" "take 1 (leaf_nos t) = [first_leaf (header b)]"
    "rep (pages b) t" "distinct (page_nos t)" "chain (pages b) 0 (leaf_nos t) 0"
    "height (header b) = Suc h" "okt order h None None t"
    using assms(1) unfolding bt_holds_Some by blast
  have nz: "page_no t \<noteq> 0" using alloc_ok_zero [OF h(1)] page_no_in by metis
  have part: "part_of disk_ok handed (set (page_nos t)) [] [] b t"
    using h distinct_leaf_nos by (simp add: part_of_def)
  have fl: "first_leaf (header b) = first_of ([] @ leaf_nos t @ [])" using h(4) by (cases "leaf_nos t") auto
  obtain res b1 where run: "erase_rec (Suc (Suc h)) (page_no t) key b = Some (res, b1)"
    and out: "erase_outcome disk_ok handed order (set (page_nos t)) [] [] h None None key b t res b1"
    using erase_rec_ok [OF part h(9) within_unbounded _ fl, of "Suc (Suc h)" key] by auto
  have dk: "distinct (map fst (recs t))"
    using okt_recs [OF h(9)] by (intro sorted_keys_distinct) (simp add: ordered_recs_def)
  define b2 where "b2 = put_header (\<lambda>h. h\<lparr>elem_count := elem_count h - 1\<rparr>) b1"
  from out show ?thesis
  proof (cases rule: erase_outcome_cases)
    case missing
    then have "bt_erase key b = Some (0, b)" using run h(3,8) nz by (simp add: bt_erase_def)
    then show ?thesis using missing(2) assms without_other [OF missing(2)]
      by (intro exI [of _ "Some t"] exI [of _ b]) simp
  next
    case empty
    have hd: "root_page (header b2) = page_no t" "elem_count (header b2) = 0"
      using empty(5) h(2,3) length_without [OF dk empty(3)] empty(4) by (simp_all add: shrunk_def b2_def)
    define b' where "b' = put_header (\<lambda>h. h\<lparr>root_page := 0, first_leaf := 0, height := 0\<rparr>)
      (free_page_at (page_no t) b2)"
    have "bt_erase key b = Some (1, b')"
      using run h(3,8) nz empty(1,2) hd(1) by (simp add: bt_erase_def b2_def b'_def del: erase_rec.simps)
    moreover have "alloc_ok disk_ok handed b' {}"
    proof -
      have "set (page_nos t) - (set (page_nos t) - {page_no t}) = {page_no t}" by auto
      then have "alloc_ok disk_ok handed b1 {page_no t}" using empty(5) by (simp add: shrunk_def)
      then have "alloc_ok disk_ok handed b2 {page_no t}" unfolding b2_def by (rule alloc_ok_header) simp_all
      from alloc_ok_free [OF this, of "page_no t"] show ?thesis
        unfolding b'_def by (intro alloc_ok_header) simp_all
    qed
    then have "bt_holds disk_ok handed order b' None"
      unfolding bt_holds_None using hd(2) by (simp add: b'_def free_page_at_def)
    ultimately show ?thesis using empty(3,4) by (intro exI [of _ None] exI [of _ b']) simp
  next
    case (rest t')
    have "set (page_nos t) - (set (page_nos t) - set (page_nos t')) = set (page_nos t')" using rest(9) by blast
    then have s: "alloc_ok disk_ok handed b1 (set (page_nos t'))" "chain (pages b1) 0 (leaf_nos t') 0"
      "root_page (header b1) = page_no t" "elem_count (header b1) = length (recs t)"
      "height (header b1) = Suc h" "first_leaf (header b1) = first_of (leaf_nos t')"
      using rest(10) h(2,3,8) by (simp_all add: shrunk_def)
    have "leaf_nos t' \<noteq> []" using okt_leaf_nos [OF rest(6)] .
    then have "take 1 (leaf_nos t') = [first_leaf (header b1)]" using s(6) by (cases "leaf_nos t'") auto
    moreover have "alloc_ok disk_ok handed b2 (set (page_nos t'))"
      unfolding b2_def by (rule alloc_ok_header [OF s(1)]) simp_all
    ultimately have "bt_holds disk_ok handed order b2 (Some t')"
      unfolding bt_holds_Some using s rest length_without [OF dk rest(3)] by (simp add: b2_def)
    from collapse_root_ok [OF this rest(6), of "Suc (Suc h)"] obtain t2 b3 where
      c: "collapse_root (Suc (Suc h)) b2 = Some b3" "bt_holds disk_ok handed order b3 (Some t2)"
      "recs t2 = recs t'" by auto
    have "height (header b2) = Suc h" using s(5) by (simp add: b2_def)
    then have "bt_erase key b = Some (1, b3)"
      using run h(3,8) nz rest(1,2) c(1)
      by (simp add: bt_erase_def Let_def b2_def del: erase_rec.simps collapse_root.simps)
    then show ?thesis using c(2,3) rest(3,7) by (intro exI [of _ "Some t2"] exI [of _ b3]) simp
  qed
qed

lemma bt_erase_ok:
  assumes "bt_holds disk_ok handed order b to"
  shows "\<exists>to' b'. bt_erase key b = Some (if map_of (entries to) key = None then 0 else 1, b') \<and>
    bt_holds disk_ok handed order b' to' \<and> entries to' = without key (entries to)"
proof (cases to)
  case None
  then have "bt_erase key b = Some (0, b)" using assms unfolding None bt_holds_None by (simp add: bt_erase_def)
  then show ?thesis using assms None by (intro exI [of _ to] exI [of _ b]) simp
next
  case (Some t)
  have "(map_of (recs t) key = None) = (key \<notin> keys_of t)" by (rule map_of_eq_None_iff)
  moreover obtain to' b' where "bt_erase key b = Some (if key \<in> keys_of t then 1 else 0, b')"
    "bt_holds disk_ok handed order b' to'" "entries to' = without key (recs t)"
    using bt_erase_nonempty [OF assms [unfolded Some], of key] by blast
  ultimately show ?thesis
    using Some by (cases "key \<in> keys_of t") (intro exI [of _ to'] exI [of _ b'], simp)+
qed

lemma map_of_without: "map_of (without key rs) = (map_of rs)(key := None)"
  by (induction rs) (auto simp: fun_eq_iff)

subsection \<open>Clearing\<close>

definition freed :: "('f \<Rightarrow> bool) \<Rightarrow> ('f \<Rightarrow> nat set) \<Rightarrow> ('k, 'v, 'f) btree \<Rightarrow> nat set \<Rightarrow> nat set \<Rightarrow> ('k, 'v, 'f) btree \<Rightarrow> bool"
where
  "freed disk_ok handed b U P b' \<longleftrightarrow> alloc_ok disk_ok handed b' (U - P) \<and> (\<forall>q. q \<notin> P \<longrightarrow> pages b' q = pages b q)"

lemma free_subtree_ok:
  assumes "rep (pages b) t" and "okt order h lo hi t" and "distinct (page_nos t)"
    and "alloc_ok disk_ok handed b U" and "set (page_nos t) \<subseteq> U" and "h < depth"
  shows "\<exists>b'. free_subtree depth (page_no t) b = Some b' \<and> freed disk_ok handed b U (set (page_nos t)) b'"
  using assms
proof (induction depth arbitrary: b t h lo hi U)
  case (Suc depth)
  have at_end: "freed disk_ok handed b U (insert (page_no t) P) (free_page_at (page_no t) b1)"
    if "freed disk_ok handed b U P b1" "page_no t \<in> U" "page_no t \<notin> P" for b1 P
  proof -
    have "alloc_ok disk_ok handed (free_page_at (page_no t) b1) (U - P - {page_no t})"
      using that by (intro alloc_ok_free) (auto simp: freed_def)
    moreover have "U - P - {page_no t} = U - insert (page_no t) P" by auto
    ultimately show ?thesis using that(1) by (simp add: freed_def free_page_at_pages)
  qed
  have root: "page_no t \<in> U" using Suc.prems(5) page_no_in by blast
  show ?case
  proof (cases t)
    case (Lf p rs)
    then show ?thesis
      using Suc.prems(1,4) at_end [of "{}" b] root by (auto simp: freed_def)
  next
    case (Nd p ks ts)
    obtain g where h: "h = Suc g" "seg (okt order g) lo hi ks ts"
      using Suc.prems(2) Nd by (auto simp: okt_Nd)
    obtain br where br: "branch_at (pages b) p br ks ts" using Suc.prems(1) Nd rep_Nd by metis
    have loop: "\<exists>b'. foldl (\<lambda>r kid. do { b \<leftarrow> r; free_subtree depth kid b }) (Some b) (map page_no us) = Some b' \<and>
        freed disk_ok handed b U (set (all_pages us)) b'"
      if "\<forall>v \<in> set us. rep (pages b) v \<and> (\<exists>l k. okt order g l k v)" "distinct (all_pages us)"
        "set (all_pages us) \<subseteq> U" for us
      using that
    proof (induction us rule: rev_induct)
      case Nil
      then show ?case using Suc.prems(4) by (simp add: freed_def)
    next
      case (snoc v us)
      obtain b1 where b1: "foldl (\<lambda>r kid. do { b \<leftarrow> r; free_subtree depth kid b }) (Some b) (map page_no us) = Some b1"
        "freed disk_ok handed b U (set (all_pages us)) b1"
        using snoc by auto
      obtain l k where v: "rep (pages b) v" "okt order g l k v" using snoc.prems(1) by auto
      have dj: "set (page_nos v) \<inter> set (all_pages us) = {}" "distinct (page_nos v)"
        using snoc.prems(2) by auto
      have "rep (pages b1) v"
        using v(1)
      proof (rule rep_cong)
        fix q assume "q \<in> set (page_nos v)"
        then have "q \<notin> set (all_pages us)" using dj(1) by blast
        then show "content (pages b1 q) = content (pages b q)" using b1(2) unfolding freed_def by metis
      qed
      moreover have "set (page_nos v) \<subseteq> U - set (all_pages us)" using dj(1) snoc.prems(3) by auto
      moreover have "alloc_ok disk_ok handed b1 (U - set (all_pages us))" using b1(2) by (simp add: freed_def)
      ultimately obtain b2 where b2: "free_subtree depth (page_no v) b1 = Some b2"
        "freed disk_ok handed b1 (U - set (all_pages us)) (set (page_nos v)) b2"
        using Suc.IH [of b1 v g l k "U - set (all_pages us)"] v(2) dj(2) Suc.prems(6) h(1) by auto
      have "U - set (all_pages us) - set (page_nos v) = U - set (all_pages (us @ [v]))" by auto
      then have "freed disk_ok handed b U (set (all_pages (us @ [v]))) b2"
        using b1(2) b2(2) by (simp add: freed_def)
      then show ?case using b1(1) b2(1) by simp
    qed
    have ch: "map (children br) [0..<branch_count br + 1] = map page_no ts"
      using br by (simp add: branch_at_def del: upt_Suc)
    have "\<forall>v \<in> set ts. rep (pages b) v \<and> (\<exists>l k. okt order g l k v)"
      using br seg_each [OF h(2)] by (simp add: branch_at_def)
    from loop [OF this] obtain b1 where b1:
      "foldl (\<lambda>r kid. do { b \<leftarrow> r; free_subtree depth kid b }) (Some b) (map page_no ts) = Some b1"
      "freed disk_ok handed b U (set (all_pages ts)) b1"
      using Suc.prems(3,5) Nd by auto
    have "page_no t \<notin> set (all_pages ts)" using Suc.prems(3) Nd by simp
    from at_end [OF b1(2) root this] show ?thesis
      using b1(1) br ch by (simp add: Nd branch_at_def del: upt_Suc)
  qed
qed simp

lemma bt_clear_ok:
  assumes "bt_holds disk_ok handed order b to"
  shows "\<exists>b'. bt_clear b = Some b' \<and> bt_holds disk_ok handed order b' None"
proof -
  have "\<exists>b1. (if root_page (header b) \<noteq> 0
      then free_subtree (Suc (height (header b))) (root_page (header b)) b else Some b) = Some b1 \<and>
    alloc_ok disk_ok handed b1 {}"
  proof (cases to)
    case None
    then show ?thesis using assms unfolding None bt_holds_None by auto
  next
    case (Some t)
    obtain h where h: "alloc_ok disk_ok handed b (set (page_nos t))" "root_page (header b) = page_no t"
      "rep (pages b) t" "distinct (page_nos t)" "height (header b) = Suc h" "okt order h None None t"
      using assms unfolding Some bt_holds_Some by blast
    have "page_no t \<noteq> 0" using alloc_ok_zero [OF h(1)] page_no_in by metis
    then show ?thesis
      using free_subtree_ok [OF h(3,6,4,1), of "Suc (Suc h)"] h(2,5) by (auto simp: freed_def)
  qed
  then obtain b1 where b1: "(if root_page (header b) \<noteq> 0
      then free_subtree (Suc (height (header b))) (root_page (header b)) b else Some b) = Some b1"
    "alloc_ok disk_ok handed b1 {}" by blast
  define b' where "b' = put_header (\<lambda>h. h\<lparr>root_page := 0, first_leaf := 0, elem_count := 0, height := 0\<rparr>) b1"
  have "bt_clear b = Some b'" using b1(1) by (simp add: bt_clear_def b'_def)
  moreover have "alloc_ok disk_ok handed b' {}" unfolding b'_def by (rule alloc_ok_header [OF b1(2)]) simp_all
  then have "bt_holds disk_ok handed order b' None" unfolding bt_holds_None by (simp add: b'_def)
  ultimately show ?thesis by blast
qed

end
