(* ===== verification/Btree_Iteration.thy ===== *)
theory Btree_Iteration
  imports Btree_State
begin

text \<open>
  A loop over the tree, from \<open>begin()\<close> to \<open>end()\<close>, follows the links of the leaves and yields the
  records of the tree in order.
\<close>

definition page_recs :: "(nat \<Rightarrow> ('k, 'v) page) \<Rightarrow> nat \<Rightarrow> ('k \<times> 'v) list" where
  "page_recs g p = (case g p of Leaf_page l \<Rightarrow> leaf_recs l | _ \<Rightarrow> [])"

abbreviation chain_recs :: "(nat \<Rightarrow> ('k, 'v) page) \<Rightarrow> nat list \<Rightarrow> ('k \<times> 'v) list" where
  "chain_recs g ps \<equiv> concat (map (page_recs g) ps)"

lemma rep_recs: "rep g t \<Longrightarrow> recs t = chain_recs g (leaf_nos t)"
proof (induction t)
  case (Nd p ks ts)
  then have "\<forall>t \<in> set ts. recs t = chain_recs g (leaf_nos t)" by simp
  then have "concat (map recs ts) = chain_recs g (concat (map leaf_nos ts))" by (induction ts) simp_all
  then show ?case by simp
qed (auto simp: page_recs_def)

lemma leaves_nonempty:
  assumes "rep g t" and "okt order h lo hi t" and "p \<in> set (leaf_nos t)"
  shows "page_recs g p \<noteq> []"
  using assms
proof (induction h arbitrary: lo hi t)
  case 0
  then show ?case by (cases t) (auto simp: page_recs_def)
next
  case (Suc h)
  then obtain q ks ts where t: "t = Nd q ks ts" "seg (okt order h) lo hi ks ts" by (cases t) auto
  obtain u where u: "u \<in> set ts" "p \<in> set (leaf_nos u)" using Suc.prems(3) t(1) by auto
  then show ?case using Suc.IH seg_each [OF t(2) u(1)] Suc.prems(1) t(1) by auto
qed

lemma skip_to_nonempty_stays:
  assumes "p \<noteq> 0" and "pages b p = Leaf_page l" and "page_recs (pages b) p \<noteq> []"
  shows "skip_to_nonempty (Suc fuel) b (p, i) = Some (p, i)"
  using assms by (auto simp: get_leaf_def page_recs_def)

lemma iterate_leaf:
  assumes "chain (pages b) prev (p # ps) 0" and "0 \<notin> set (p # ps)"
    and "\<forall>q \<in> set (p # ps). page_recs (pages b) q \<noteq> []"
    and "pos < length (page_recs (pages b) p)"
    and "length (drop pos (page_recs (pages b) p) @ chain_recs (pages b) ps) < fuel"
  shows "iterate fuel b (p, pos) = Some (drop pos (page_recs (pages b) p) @ chain_recs (pages b) ps)"
  using assms
proof (induction fuel arbitrary: prev p ps pos)
  case (Suc fuel)
  obtain l where l: "pages b p = Leaf_page l" "next_page l = (case ps of [] \<Rightarrow> 0 | q # _ \<Rightarrow> q)"
    "chain (pages b) p ps 0" using Suc.prems(1) by auto
  have rs: "page_recs (pages b) p = leaf_recs l" using l(1) by (simp add: page_recs_def)
  have pos: "pos < leaf_count l" using Suc.prems(4) by (simp add: rs)
  have "drop pos (leaf_recs l) = leaf_recs l ! pos # drop (Suc pos) (leaf_recs l)"
    using pos by (intro Cons_nth_drop_Suc [symmetric]) simp
  then have cur: "drop pos (leaf_recs l) = records l pos # drop (Suc pos) (leaf_recs l)" using pos by simp
  have pz: "p \<noteq> 0" using Suc.prems(2) by auto
  have step: "iterate (Suc fuel) b (p, pos) =
      do { it' \<leftarrow> it_next (Suc fuel) b (p, pos); rest \<leftarrow> iterate fuel b it'; Some (records l pos # rest) }"
    using pz l(1) by (simp add: get_leaf_def)
  show ?case
  proof (cases "Suc pos < leaf_count l")
    case True
    have "it_next (Suc fuel) b (p, pos) = Some (p, Suc pos)"
      using True l(1) by (simp add: it_next_def get_leaf_def)
    moreover have "iterate fuel b (p, Suc pos) =
        Some (drop (Suc pos) (page_recs (pages b) p) @ chain_recs (pages b) ps)"
      using Suc.prems True cur by (intro Suc.IH [OF Suc.prems(1)]) (simp_all add: rs)
    ultimately show ?thesis using step cur by (simp add: rs)
  next
    case False
    then have e: "drop (Suc pos) (leaf_recs l) = []" by simp
    show ?thesis
    proof (cases ps)
      case Nil
      have "it_next (Suc fuel) b (p, pos) = Some (0, 0)"
        using False l Nil by (simp add: it_next_def get_leaf_def)
      moreover have "fuel \<noteq> 0" using Suc.prems(5) cur Nil by (simp add: rs)
      then have "iterate fuel b (0, 0) = Some []" by (cases fuel) simp_all
      ultimately show ?thesis using step cur e Nil by (simp add: rs)
    next
      case (Cons q qs)
      have q: "q \<noteq> 0" "page_recs (pages b) q \<noteq> []" using Suc.prems(2,3) Cons by auto
      obtain lq where lq: "pages b q = Leaf_page lq" using l(3) Cons by auto
      have "it_next (Suc fuel) b (p, pos) = Some (q, 0)"
        using False l(1,2) Cons q(1) skip_to_nonempty_stays [OF q(1) lq q(2)]
        by (simp add: it_next_def get_leaf_def del: skip_to_nonempty.simps)
      moreover have "iterate fuel b (q, 0) = Some (drop 0 (page_recs (pages b) q) @ chain_recs (pages b) qs)"
        using Suc.prems l(3) Cons q cur e by (intro Suc.IH [of p]) (simp_all add: rs)
      ultimately show ?thesis using step cur e Cons by (simp add: rs)
    qed
  qed
qed simp

lemma iterate_ok:
  assumes "bt_holds disk_ok handed order b to" and "length (entries to) < fuel"
  shows "\<exists>it. bt_begin fuel b = Some it \<and> iterate fuel b it = Some (entries to)"
proof (cases to)
  case None
  then show ?thesis
    using assms unfolding None bt_holds_None by (cases fuel) (simp_all add: bt_begin_def)
next
  case (Some t)
  obtain h where h: "alloc_ok disk_ok handed b (set (page_nos t))" "elem_count (header b) = length (recs t)"
    "take 1 (leaf_nos t) = [first_leaf (header b)]" "rep (pages b) t"
    "chain (pages b) 0 (leaf_nos t) 0" "okt order h None None t"
    using assms(1) unfolding Some bt_holds_Some by blast
  obtain p ps where ps: "leaf_nos t = p # ps" "first_leaf (header b) = p"
    using h(3) by (cases "leaf_nos t") auto
  have z: "0 \<notin> set (p # ps)" using alloc_ok_zero [OF h(1)] leaf_nos_subset [of t] ps(1) by (metis subsetD)
  have ne: "\<forall>q \<in> set (p # ps). page_recs (pages b) q \<noteq> []"
    using leaves_nonempty [OF h(4,6)] ps(1) by simp
  have rs: "recs t = page_recs (pages b) p @ chain_recs (pages b) ps" using rep_recs [OF h(4)] ps(1) by simp
  obtain l where l: "pages b p = Leaf_page l" using h(5) ps(1) by auto
  obtain n where n: "fuel = Suc n" using assms(2) by (cases fuel) auto
  have pz: "p \<noteq> 0" and pne: "page_recs (pages b) p \<noteq> []" using z ne by auto
  have "bt_begin fuel b = Some (p, 0)"
    using skip_to_nonempty_stays [OF pz l pne, of n 0] h(2) ps(2) rs pne pz n
    by (simp add: bt_begin_def del: skip_to_nonempty.simps)
  moreover have "iterate fuel b (p, 0) = Some (drop 0 (page_recs (pages b) p) @ chain_recs (pages b) ps)"
    using h(5) ps(1) by (intro iterate_leaf [OF _ z ne]) (use assms(2) Some rs pne in auto)
  ultimately show ?thesis using rs Some by simp
qed

end
