(* ===== verification/Btree_Properties.thy ===== *)
theory Btree_Properties
  imports Keyed_Store Btree_Update Btree_Clear Btree_Iteration
begin

text \<open>
  The B-tree over a file as Windows grows it keeps the contract of a keyed store: the
  interpretation of \<open>keyed_store\<close> and the properties of the whole container.
\<close>

subsection \<open>The B-tree as a store\<close>

text \<open>A state that is \<open>None\<close> stands for an operation that took a page for one of another type.\<close>

definition bt_ins ::
  "nat \<Rightarrow> ('f \<Rightarrow> nat \<times> 'f) \<Rightarrow> 'k::linorder \<Rightarrow> 'v \<Rightarrow> ('k, 'v, 'f) btree option \<Rightarrow> bool \<times> ('k, 'v, 'f) btree option" where
  "bt_ins order grow key val s =
     (case Option.bind s (bt_insert order grow key val) of
        None \<Rightarrow> (False, None) | Some (r, b) \<Rightarrow> (r, Some b))"

definition bt_del :: "'k::linorder \<Rightarrow> ('k, 'v, 'f) btree option \<Rightarrow> bool \<times> ('k, 'v, 'f) btree option" where
  "bt_del key s =
     (case Option.bind s (bt_erase key) of None \<Rightarrow> (False, None) | Some (n, b) \<Rightarrow> (n \<noteq> 0, Some b))"

definition bt_mem :: "'k::linorder \<Rightarrow> ('k, 'v, 'f) btree option \<Rightarrow> bool" where
  "bt_mem key s = (Option.bind s (bt_contains key) = Some True)"

definition bt_lookup :: "('k::linorder, 'v, 'f) btree option \<Rightarrow> 'k \<Rightarrow> 'v option" where
  "bt_lookup s key = (case Option.bind s (find_value key) of None \<Rightarrow> None | Some r \<Rightarrow> r)"

text \<open>A client's calls on a new tree.\<close>

definition bt_calls ::
  "nat \<Rightarrow> ('f \<Rightarrow> nat \<times> 'f) \<Rightarrow> 'f \<Rightarrow> ('k::linorder, 'v) store_call list \<Rightarrow> bool list \<times> ('k, 'v, 'f) btree option" where
  "bt_calls order grow f cs = calls_store (bt_ins order grow) bt_del bt_mem cs (Some (new_btree f))"

definition store_ok ::
  "('f \<Rightarrow> bool) \<Rightarrow> ('f \<Rightarrow> nat set) \<Rightarrow> nat \<Rightarrow> ('k::linorder, 'v, 'f) btree option \<Rightarrow> bool" where
  "store_ok disk_ok handed order s \<longleftrightarrow> 2 \<le> order \<and> (\<exists>b. s = Some b \<and> bt_inv disk_ok handed order b)"

lemma store_okE:
  assumes "store_ok disk_ok handed order s"
  obtains b to where "s = Some b" and "bt_holds disk_ok handed order b to" and "2 \<le> order"
  using assms by (auto simp: store_ok_def bt_inv_def)

lemma store_okI: "2 \<le> order \<Longrightarrow> bt_holds disk_ok handed order b to \<Longrightarrow> store_ok disk_ok handed order (Some b)"
  by (auto simp: store_ok_def bt_inv_def)

lemma bt_lookup_holds:
  "bt_holds disk_ok handed order b to \<Longrightarrow> bt_lookup (Some b) = map_of (entries to)"
  using find_value_ok by (fastforce simp: bt_lookup_def)

context page_file
begin

lemma bt_ins_ok:
  assumes "store_ok disk_ok handed order s"
  shows "store_ok disk_ok handed order (snd (bt_ins order grow k v s)) \<and>
    fst (bt_ins order grow k v s) = (bt_lookup s k = None) \<and>
    bt_lookup (snd (bt_ins order grow k v s)) =
      (if bt_lookup s k = None then (bt_lookup s)(k \<mapsto> v) else bt_lookup s)"
proof -
  obtain b to where b: "s = Some b" "bt_holds disk_ok handed order b to" "2 \<le> order"
    by (rule store_okE [OF assms])
  obtain to' b' where r: "bt_insert order grow k v b = Some (map_of (entries to) k = None, b')"
    "bt_holds disk_ok handed order b' to'"
    "map_of (entries to') = (if map_of (entries to) k = None
      then (map_of (entries to))(k \<mapsto> v) else map_of (entries to))"
    using bt_insert_ok [OF b(2,3), of k v] by blast
  have ins: "bt_ins order grow k v (Some b) = (map_of (entries to) k = None, Some b')"
    using r(1) by (simp add: bt_ins_def)
  show ?thesis
    unfolding b(1) ins fst_conv snd_conv bt_lookup_holds [OF b(2)] bt_lookup_holds [OF r(2)] r(3)
    using store_okI [OF b(3) r(2)] by blast
qed

lemma bt_del_ok:
  assumes "store_ok disk_ok handed order s"
  shows "store_ok disk_ok handed order (snd (bt_del k s)) \<and>
    fst (bt_del k s) = (bt_lookup s k \<noteq> None) \<and> bt_lookup (snd (bt_del k s)) = (bt_lookup s)(k := None)"
proof -
  obtain b to where b: "s = Some b" "bt_holds disk_ok handed order b to" "2 \<le> order"
    by (rule store_okE [OF assms])
  obtain to' b' where r: "bt_erase k b = Some (if map_of (entries to) k = None then 0 else 1, b')"
    "bt_holds disk_ok handed order b' to'" "entries to' = without k (entries to)"
    using bt_erase_ok [OF b(2), of k] by blast
  have del: "bt_del k (Some b) = (map_of (entries to) k \<noteq> None, Some b')"
    using r(1) by (simp add: bt_del_def)
  show ?thesis
    unfolding b(1) del fst_conv snd_conv bt_lookup_holds [OF b(2)] bt_lookup_holds [OF r(2)] r(3) map_of_without
    using store_okI [OF b(3) r(2)] by blast
qed

lemma bt_mem_ok:
  assumes "store_ok disk_ok handed order s"
  shows "bt_mem k s = (bt_lookup s k \<noteq> None)"
proof -
  obtain b to where b: "s = Some b" "bt_holds disk_ok handed order b to" "2 \<le> order"
    by (rule store_okE [OF assms])
  show ?thesis
    using find_value_ok [OF b(2), of k]
    by (simp add: b(1) bt_mem_def bt_contains_find_value bt_lookup_holds [OF b(2)])
qed

lemma btree_keyed_store:
  "keyed_store (store_ok disk_ok handed order) bt_lookup (bt_ins order grow) bt_del bt_mem"
  by unfold_locales (simp_all add: bt_ins_ok bt_del_ok bt_mem_ok)

end

interpretation wbt: keyed_store "store_ok (windows_ok P) (windows_handed P) order" bt_lookup
  "bt_ins order (windows_append P)" bt_del bt_mem for P order
  by (rule windows.btree_keyed_store)

lemma new_btree_holds:
  assumes "disk_ok f" and "handed f = {}"
  shows "bt_holds disk_ok handed order (new_btree f) None"
  unfolding bt_holds_None using assms
  by (auto simp: new_btree_def new_header_def alloc_ok_def intro!: exI [of _ "[]"])

lemma windows_open_new: "0 < P \<Longrightarrow> windows_ok P (windows_open P 0) \<and> windows_handed P (windows_open P 0) = {}"
  by (auto simp: windows_ok_def windows_open_def windows_handed_def intro!: exI [of _ 0])

text \<open>What any sequence of calls on a new tree leaves.\<close>

lemma bt_calls_hold:
  assumes "0 < P" and "2 \<le> order"
  obtains bs b to where "bt_calls order (windows_append P) (windows_open P 0) cs = (bs, Some b)"
    and "bt_holds (windows_ok P) (windows_handed P) order b to"
    and "calls_map cs Map.empty = (bs, map_of (entries to))"
proof -
  obtain bs s where run: "bt_calls order (windows_append P) (windows_open P 0) cs = (bs, s)" by force
  have new: "bt_holds (windows_ok P) (windows_handed P) order (new_btree (windows_open P 0)) (None :: ('a, 'b) bt option)"
    using new_btree_holds windows_open_new [OF assms(1)] by metis
  from wbt.calls_refine [OF store_okI [OF assms(2) new] run [unfolded bt_calls_def]]
  have s: "store_ok (windows_ok P) (windows_handed P) order s"
    "calls_map cs (bt_lookup (Some (new_btree (windows_open P 0)))) = (bs, bt_lookup s)" by blast+
  obtain b to where b: "s = Some b" "bt_holds (windows_ok P) (windows_handed P) order b to"
    by (rule store_okE [OF s(1)])
  show thesis
    using that [OF run [unfolded b(1)] b(2)] s(2)
    by (simp add: b(1) bt_lookup_holds [OF new] bt_lookup_holds [OF b(2)])
qed

subsection \<open>Properties\<close>

text \<open>C10: A B-tree of order at least two, on a page file as Windows opens and grows it, with pages of
  positive size, answers as a map. (On Unix it does not: there the first insertion into a new tree
  throws, \<open>unix_append_throws\<close>.) Whatever sequence of insertions, erasures and
  membership tests a client makes on a new tree, no operation takes a page for one of another
  type or runs down too deep, the answers are those of a mathematical map that starts empty, and
  afterwards every lookup finds what that map holds. Splits, removed leaves, single-child roots and
  reused pages do not show.\<close>

theorem btree_answers_as_a_map:
  fixes cs :: "('k::linorder, 'v) store_call list"
  assumes "0 < page_size" and "2 \<le> order" and "calls_map cs Map.empty = (bs, m)"
  shows "\<exists>b. bt_calls order (windows_append page_size) (windows_open page_size 0) cs = (bs, Some b) \<and>
    (\<forall>key. find_value key b = Some (m key))"
proof -
  obtain bs' b to where b: "bt_calls order (windows_append page_size) (windows_open page_size 0) cs = (bs', Some b)"
    "bt_holds (windows_ok page_size) (windows_handed page_size) order b to"
    "calls_map cs Map.empty = (bs', map_of (entries to))"
    by (rule bt_calls_hold [OF assms(1,2)])
  then show ?thesis using assms(3) find_value_ok [OF b(2)] by auto
qed

theorem btree_answers_as_a_map_witness:
  "\<exists>b. bt_calls 2 (windows_append 4096) (windows_open 4096 0)
      [Insert (3::nat) ''c'', Insert 1 ''a'', Insert 3 ''x'', Insert 2 ''b'', Remove 3, Exists 3, Exists 1] =
      ([True, True, False, True, True, False, True], Some b) \<and> find_value 2 b = Some (Some ''b'')"
proof -
  have "calls_map [Insert (3::nat) ''c'', Insert 1 ''a'', Insert 3 ''x'', Insert 2 ''b'', Remove 3, Exists 3, Exists 1]
      Map.empty = ([True, True, False, True, True, False, True], [1 \<mapsto> ''a'', 2 \<mapsto> ''b''])"
    by (simp add: fun_eq_iff)
  from btree_answers_as_a_map [OF _ _ this, of 4096 2] show ?thesis by auto
qed

text \<open>C12: Iteration of a B-tree of order at least two, on a page file as Windows opens and grows it, with
  pages of positive size (on Unix the first insertion throws, so there is nothing to iterate). After any sequence of
  calls on a new tree the loop from \<open>begin()\<close> to \<open>end()\<close> ends and yields
  every entry of the map once, in ascending order of the keys, and \<open>size()\<close> is their number.\<close>

theorem btree_iterates_in_order:
  fixes cs :: "('k::linorder, 'v) store_call list"
  assumes "0 < page_size" and "2 \<le> order"
    and "bt_calls order (windows_append page_size) (windows_open page_size 0) cs = (bs, Some b)"
  shows "\<exists>it es. bt_begin (Suc (bt_size b)) b = Some it \<and> iterate (Suc (bt_size b)) b it = Some es \<and>
    sorted_wrt (<) (map fst es) \<and> map_of es = snd (calls_map cs Map.empty) \<and> length es = bt_size b"
proof -
  obtain bs' b' to where b: "bt_calls order (windows_append page_size) (windows_open page_size 0) cs = (bs', Some b')"
    "bt_holds (windows_ok page_size) (windows_handed page_size) order b' to"
    "calls_map cs Map.empty = (bs', map_of (entries to))"
    by (rule bt_calls_hold [OF assms(1,2)])
  have e: "b' = b" using b(1) assms(3) by simp
  have len: "length (entries to) = bt_size b" using b(2) e by (simp add: bt_holds_def bt_size_def)
  have "length (entries to) < Suc (bt_size b)" using len by simp
  from iterate_ok [OF b(2) this] obtain it where
    it: "bt_begin (Suc (bt_size b)) b = Some it" "iterate (Suc (bt_size b)) b it = Some (entries to)"
    unfolding e by blast
  have "map_of (entries to) = snd (calls_map cs Map.empty)" using b(3) by simp
  then show ?thesis using it len bt_holds_sorted [OF b(2)] by blast
qed

theorem btree_iterates_in_order_witness:
  "\<exists>b it es. iterate (Suc (bt_size b)) b it = Some es \<and> map fst es = [1, 2, 3, 4, 5 :: nat] \<and>
    snd (bt_calls 2 (windows_append 4096) (windows_open 4096 0)
      [Insert 3 (), Insert 1 (), Insert 5 (), Insert 2 (), Insert 4 ()]) = Some b"
proof -
  let ?cs = "[Insert (3::nat) (), Insert 1 (), Insert 5 (), Insert 2 (), Insert 4 ()]"
  have pos: "0 < (4096::nat)" "2 \<le> (2::nat)" by simp_all
  obtain bs b where b: "bt_calls 2 (windows_append 4096) (windows_open 4096 0) ?cs = (bs, Some b)"
    by (rule bt_calls_hold [OF pos, of ?cs])
  obtain it es where es: "iterate (Suc (bt_size b)) b it = Some es" "sorted_wrt (<) (map fst es)"
    "map_of es = snd (calls_map ?cs Map.empty)"
    using btree_iterates_in_order [OF pos b] by blast
  have "set (map fst es) = dom (map_of es)" by (simp add: dom_map_of_conv_image_fst)
  also have "\<dots> = set [1, 2, 3, 4, 5]" unfolding es(3) by auto
  finally have keys: "set (map fst es) = set [1, 2, 3, 4, 5]" .
  have "map fst es = [1, 2, 3, 4, 5]" by (rule strict_sorted_equal [OF _ es(2) keys]) simp
  then show ?thesis using es(1) b by (metis snd_conv)
qed

text \<open>C11: The state on disk stays sound, for a B-tree of order at least two on a page file as
  Windows opens and grows it, with pages of positive size (on Unix the first insertion throws before it writes a page). After
  any sequence of calls on a new tree the pages form a search tree
  whose leaves all have the depth of the header, with at most \<open>order\<close> keys in a node and no empty
  leaf; every page the file handed out is either in the tree or on the free list, never both and
  never twice, and the header counts the free ones: no page is lost and none is used twice.\<close>

theorem btree_stays_sound:
  fixes cs :: "('k::linorder, 'v) store_call list"
  assumes "0 < page_size" and "2 \<le> order"
    and "bt_calls order (windows_append page_size) (windows_open page_size 0) cs = (bs, Some b)"
  shows "\<exists>to F.
    (case to of
       None \<Rightarrow> root_page (header b) = 0
     | Some t \<Rightarrow> root_page (header b) = page_no t \<and> rep (pages b) t \<and> distinct (page_nos t) \<and>
         (\<exists>h. height (header b) = Suc h \<and> okt order h None None t)) \<and>
    free_list (pages b) (free_list_head (header b)) F \<and> distinct F \<and>
    free_list_count (header b) = length F \<and> tree_pages to \<inter> set F = {} \<and>
    tree_pages to \<union> set F = windows_handed page_size (disk b)"
proof -
  obtain bs' b' to where b: "bt_calls order (windows_append page_size) (windows_open page_size 0) cs = (bs', Some b')"
    "bt_holds (windows_ok page_size) (windows_handed page_size) order b' to"
    by (rule bt_calls_hold [OF assms(1,2)])
  have e: "b' = b" using b(1) assms(3) by simp
  obtain F where F: "free_list (pages b) (free_list_head (header b)) F" "distinct F" "set F \<inter> tree_pages to = {}"
    "free_list_count (header b) = length F" "tree_pages to \<union> set F = windows_handed page_size (disk b)"
    using b(2) unfolding e bt_holds_def alloc_ok_def by blast
  have "case to of None \<Rightarrow> root_page (header b) = 0
     | Some t \<Rightarrow> root_page (header b) = page_no t \<and> rep (pages b) t \<and> distinct (page_nos t) \<and>
         (\<exists>h. height (header b) = Suc h \<and> okt order h None None t)"
    using b(2) unfolding e bt_holds_def by (cases to) simp_all
  then show ?thesis using F by (intro exI [of _ to] exI [of _ F]) (simp add: Int_commute)
qed

theorem btree_stays_sound_witness:
  "\<exists>b to F. snd (bt_calls 2 (windows_append 4096) (windows_open 4096 0)
      [Insert (3::nat) (), Insert 1 (), Insert 5 (), Remove 1]) = Some b \<and>
    tree_pages (to :: (nat, unit) bt option) \<union> set F = windows_handed 4096 (disk b)"
proof -
  have pos: "0 < (4096::nat)" "2 \<le> (2::nat)" by simp_all
  obtain bs b where b: "bt_calls 2 (windows_append 4096) (windows_open 4096 0)
      [Insert (3::nat) (), Insert 1 (), Insert 5 (), Remove 1] = (bs, Some b)"
    by (rule bt_calls_hold [OF pos, of "[Insert (3::nat) (), Insert 1 (), Insert 5 (), Remove 1]"])
  show ?thesis using btree_stays_sound [OF pos b] b by (metis snd_conv)
qed

text \<open>Access to values. After any sequence of calls \<open>at\<close> returns the value of a key and throws
  \<open>std::out_of_range\<close> exactly when there is none; \<open>update\<close> changes a value only where there is one
  and says so; \<open>insert_or_assign\<close> sets it either way; reading through \<open>operator[]\<close> returns it, or
  inserts the default value and returns that. No other key is touched.\<close>

theorem btree_value_access:
  fixes cs :: "('k::linorder, 'v) store_call list"
  assumes "0 < page_size" and "2 \<le> order"
    and "bt_calls order (windows_append page_size) (windows_open page_size 0) cs = (bs, Some b)"
    and "m = snd (calls_map cs Map.empty)"
  shows "bt_at key b = Some (case m key of Some v \<Rightarrow> Value v | None \<Rightarrow> Out_of_range) \<and>
    (\<exists>b'. bt_update key val b = Some (m key \<noteq> None, b') \<and>
      (\<forall>k. find_value k b' = Some ((if m key = None then m else m(key \<mapsto> val)) k))) \<and>
    (\<exists>b'. insert_or_assign order (windows_append page_size) key val b = Some b' \<and>
      (\<forall>k. find_value k b' = Some ((m(key \<mapsto> val)) k))) \<and>
    (\<exists>b'. proxy_read order (windows_append page_size) dflt key b =
        Some (case m key of Some v \<Rightarrow> v | None \<Rightarrow> dflt, b') \<and>
      (\<forall>k. find_value k b' = Some ((if m key = None then m(key \<mapsto> dflt) else m) k)))"
proof -
  obtain bs' b' to where b: "bt_calls order (windows_append page_size) (windows_open page_size 0) cs = (bs', Some b')"
    "bt_holds (windows_ok page_size) (windows_handed page_size) order b' to"
    "calls_map cs Map.empty = (bs', map_of (entries to))"
    by (rule bt_calls_hold [OF assms(1,2)])
  have e: "b' = b" using b(1) assms(3) by simp
  have h: "bt_holds (windows_ok page_size) (windows_handed page_size) order b to" using b(2) e by simp
  have m: "m = map_of (entries to)" using b(3) assms(4) by simp
  have "bt_at key b = Some (case m key of Some v \<Rightarrow> Value v | None \<Rightarrow> Out_of_range)"
    by (simp add: bt_at_find_value find_value_ok [OF h] m)
  moreover have "\<exists>b'. bt_update key val b = Some (m key \<noteq> None, b') \<and>
      (\<forall>k. find_value k b' = Some ((if m key = None then m else m(key \<mapsto> val)) k))"
  proof -
    obtain to' c where c: "bt_update key val b = Some (map_of (entries to) key \<noteq> None, c)"
      "bt_holds (windows_ok page_size) (windows_handed page_size) order c to'"
      "map_of (entries to') = (if map_of (entries to) key = None then map_of (entries to)
        else (map_of (entries to))(key \<mapsto> val))"
      using bt_update_ok [OF h, of key val] by blast
    show ?thesis unfolding m by (rule exI [of _ c], simp only: c(1) find_value_ok [OF c(2)] c(3) simp_thms)
  qed
  moreover have "\<exists>b'. insert_or_assign order (windows_append page_size) key val b = Some b' \<and>
      (\<forall>k. find_value k b' = Some ((m(key \<mapsto> val)) k))"
  proof -
    obtain to' c where c: "insert_or_assign order (windows_append page_size) key val b = Some c"
      "bt_holds (windows_ok page_size) (windows_handed page_size) order c to'"
      "map_of (entries to') = (map_of (entries to))(key \<mapsto> val)"
      using windows.insert_or_assign_ok [OF h assms(2), of key val] by blast
    show ?thesis unfolding m by (rule exI [of _ c], simp only: c(1) find_value_ok [OF c(2)] c(3) simp_thms)
  qed
  moreover have "\<exists>b'. proxy_read order (windows_append page_size) dflt key b =
        Some (case m key of Some v \<Rightarrow> v | None \<Rightarrow> dflt, b') \<and>
      (\<forall>k. find_value k b' = Some ((if m key = None then m(key \<mapsto> dflt) else m) k))"
  proof -
    obtain to' c where c: "proxy_read order (windows_append page_size) dflt key b =
        Some (case map_of (entries to) key of Some v \<Rightarrow> v | None \<Rightarrow> dflt, c)"
      "bt_holds (windows_ok page_size) (windows_handed page_size) order c to'"
      "map_of (entries to') = (if map_of (entries to) key = None then (map_of (entries to))(key \<mapsto> dflt)
        else map_of (entries to))"
      using windows.proxy_read_ok [OF h assms(2), of dflt key] by blast
    show ?thesis unfolding m by (rule exI [of _ c], simp only: c(1) find_value_ok [OF c(2)] c(3) simp_thms)
  qed
  ultimately show ?thesis by blast
qed

theorem btree_value_access_witness:
  "\<exists>b. snd (bt_calls 2 (windows_append 4096) (windows_open 4096 0)
      [Insert (3::nat) ''c'', Insert 1 ''a'', Remove 3]) = Some b \<and>
    bt_at 3 b = Some Out_of_range \<and> bt_at 1 b = Some (Value ''a'')"
proof -
  have pos: "0 < (4096::nat)" "2 \<le> (2::nat)" by simp_all
  let ?cs = "[Insert (3::nat) ''c'', Insert 1 ''a'', Remove 3]"
  obtain bs b where b: "bt_calls 2 (windows_append 4096) (windows_open 4096 0) ?cs = (bs, Some b)"
    by (rule bt_calls_hold [OF pos, of ?cs])
  note at = conjunct1 [OF btree_value_access [OF pos b refl]]
  have "bt_at 3 b = Some Out_of_range" "bt_at 1 b = Some (Value ''a'')" by (simp_all add: at)
  then show ?thesis using b by simp
qed

text \<open>\<open>clear\<close> after any sequence of calls empties the tree, and every page the file ever handed
  out is on the free list afterwards, to be used again before the file grows.\<close>

theorem btree_clear_frees_all:
  fixes cs :: "('k::linorder, 'v) store_call list"
  assumes "0 < page_size" and "2 \<le> order"
    and "bt_calls order (windows_append page_size) (windows_open page_size 0) cs = (bs, Some b)"
  shows "\<exists>b' F. bt_clear b = Some b' \<and> bt_size b' = 0 \<and> (\<forall>key. find_value key b' = Some None) \<and>
    free_list (pages b') (free_list_head (header b')) F \<and> distinct F \<and>
    set F = windows_handed page_size (disk b')"
proof -
  obtain bs' b0 to where b: "bt_calls order (windows_append page_size) (windows_open page_size 0) cs = (bs', Some b0)"
    "bt_holds (windows_ok page_size) (windows_handed page_size) order b0 to"
    by (rule bt_calls_hold [OF assms(1,2)])
  have e: "b0 = b" using b(1) assms(3) by simp
  obtain b' where b': "bt_clear b = Some b'" "bt_holds (windows_ok page_size) (windows_handed page_size) order b' (None :: ('k, 'v) bt option)"
    using bt_clear_ok [OF b(2)] unfolding e by blast
  obtain F where "free_list (pages b') (free_list_head (header b')) F" "distinct F"
    "set F = windows_handed page_size (disk b')"
    using b'(2) unfolding bt_holds_None alloc_ok_def by auto
  then show ?thesis
    using b' find_value_ok [OF b'(2)] unfolding bt_holds_None
    by (intro exI [of _ b'] exI [of _ F]) (simp add: bt_size_def)
qed

theorem btree_clear_frees_all_witness:
  "\<exists>b b'. snd (bt_calls 2 (windows_append 4096) (windows_open 4096 0) [Insert (3::nat) (), Insert 1 ()]) = Some b \<and>
    bt_clear b = Some b' \<and> bt_size b' = 0"
proof -
  have pos: "0 < (4096::nat)" "2 \<le> (2::nat)" by simp_all
  obtain bs b where b: "bt_calls 2 (windows_append 4096) (windows_open 4096 0) [Insert (3::nat) (), Insert 1 ()] = (bs, Some b)"
    by (rule bt_calls_hold [OF pos, of "[Insert (3::nat) (), Insert 1 ()]"])
  show ?thesis using btree_clear_frees_all [OF pos b] b by (metis snd_conv)
qed

end
