(* ===== verification/Lru_Cache.thy ===== *)
theory Lru_Cache
  imports Prelude
begin

text \<open>
  The least-recently-used cache of \<open>lru_cache.hpp\<close>. The cache is a deque of key and value
  pairs, most recently used first; the size bound and the loader are template parameters, so
  they are arguments here. The loader is the client's code: a function of the key and of a
  state of its own, that returns a value or throws (\<open>None\<close>). An access is undefined when it
  calls \<open>pop_back\<close> on an empty deque.
\<close>

record ('k, 'v, 's) lru_cache =
  deque :: "('k \<times> 'v) list"
  loader_state :: 's

type_synonym ('k, 'v, 's) loader = "'k \<Rightarrow> 's \<Rightarrow> 'v option \<times> 's"

datatype ('v, 'c) access = Undefined | Thrown 'c | Reference 'v 'c

text \<open>The loop of \<open>operator[]\<close>: the value of the first item with the key, and the deque
  without that item.\<close>

fun take_item :: "'k \<Rightarrow> ('k \<times> 'v) list \<Rightarrow> ('v \<times> ('k \<times> 'v) list) option" where
  "take_item key [] = None"
| "take_item key (oItem # rest) =
     (if key = fst oItem then Some (snd oItem, rest)
      else (case take_item key rest of
              None \<Rightarrow> None
            | Some (oRet, d) \<Rightarrow> Some (oRet, oItem # d)))"

definition pop_back :: "'a list \<Rightarrow> 'a list option" where
  "pop_back d = (if d = [] then None else Some (butlast d))"

text \<open>The space made before a load, in \<open>operator[]\<close> and in \<open>page_cache::append\<close>.\<close>

definition evict :: "nat \<Rightarrow> 'a list \<Rightarrow> 'a list option" where
  "evict cache_size d = (if length d \<ge> cache_size then pop_back d else Some d)"

definition lru_index ::
  "nat \<Rightarrow> ('k, 'v, 's) loader \<Rightarrow> 'k \<Rightarrow> ('k, 'v, 's) lru_cache \<Rightarrow> ('v, ('k, 'v, 's) lru_cache) access" where
  "lru_index cache_size loader key c =
     (case take_item key (deque c) of
        Some (oRet, d) \<Rightarrow> Reference oRet (c\<lparr>deque := (key, oRet) # d\<rparr>)
      | None \<Rightarrow>
          (case evict cache_size (deque c) of
             None \<Rightarrow> Undefined
           | Some d \<Rightarrow>
               (case loader key (loader_state c) of
                  (None, s) \<Rightarrow> Thrown \<lparr>deque = d, loader_state = s\<rparr>
                | (Some v, s) \<Rightarrow> Reference v \<lparr>deque = (key, v) # d, loader_state = s\<rparr>)))"

text \<open>Writing through the reference the operator returns, which is to the front item.\<close>

definition assign_front :: "'v \<Rightarrow> ('k, 'v, 's) lru_cache \<Rightarrow> ('k, 'v, 's) lru_cache" where
  "assign_front v c =
     c\<lparr>deque := (case deque c of [] \<Rightarrow> [] | (key, _) # d \<Rightarrow> (key, v) # d)\<rparr>"

text \<open>A client reads an item or writes it, any number of times; an exception of the loader
  leaves the cache usable.\<close>

datatype ('k, 'v) cache_use = Read 'k | Write 'k 'v

fun used_key :: "('k, 'v) cache_use \<Rightarrow> 'k" where
  "used_key (Read key) = key"
| "used_key (Write key v) = key"

fun lru_use ::
  "nat \<Rightarrow> ('k, 'v, 's) loader \<Rightarrow> ('k, 'v) cache_use \<Rightarrow> ('k, 'v, 's) lru_cache \<Rightarrow> ('k, 'v, 's) lru_cache option" where
  "lru_use n loader u c =
     (case lru_index n loader (used_key u) c of
        Undefined \<Rightarrow> None
      | Thrown c' \<Rightarrow> Some c'
      | Reference v c' \<Rightarrow> Some (case u of Read _ \<Rightarrow> c' | Write _ w \<Rightarrow> assign_front w c'))"

fun lru_run ::
  "nat \<Rightarrow> ('k, 'v, 's) loader \<Rightarrow> ('k, 'v) cache_use list \<Rightarrow> ('k, 'v, 's) lru_cache \<Rightarrow> ('k, 'v, 's) lru_cache option" where
  "lru_run n loader [] c = Some c"
| "lru_run n loader (u # us) c =
     (case lru_use n loader u c of None \<Rightarrow> None | Some c' \<Rightarrow> lru_run n loader us c')"

definition new_cache :: "'s \<Rightarrow> ('k, 'v, 's) lru_cache" where
  "new_cache s = \<lparr>deque = [], loader_state = s\<rparr>"

subsection \<open>The loop and the eviction\<close>

definition cached_keys :: "('k, 'v, 's) lru_cache \<Rightarrow> 'k list" where
  "cached_keys c = map fst (deque c)"

lemma take_item_None: "take_item key d = None \<longleftrightarrow> key \<notin> set (map fst d)"
  by (induction d) (auto split: option.splits)

lemma take_item_Some:
  "take_item key d = Some (v, d') \<Longrightarrow> map_of d key = Some v \<and> map fst d' = remove1 key (map fst d)"
  by (induction d arbitrary: d') (auto split: option.splits if_splits)

lemma take_item_others:
  "take_item key d = Some (v, d') \<Longrightarrow> k \<noteq> key \<Longrightarrow> map_of d' k = map_of d k"
  by (induction d arbitrary: d') (auto split: option.splits if_splits)

lemma evict_positive: "0 < n \<Longrightarrow> evict n d = Some (if length d \<ge> n then butlast d else d)"
  by (auto simp: evict_def pop_back_def)

lemma evict_none [simp]: "evict 0 [] = None"
  by (simp add: evict_def pop_back_def)

lemma assign_front_keys [simp]: "cached_keys (assign_front v c) = cached_keys c"
  by (auto simp: assign_front_def cached_keys_def split: list.split)

lemma assign_front_state [simp]: "loader_state (assign_front v c) = loader_state c"
  by (simp add: assign_front_def)

text \<open>With a size of zero the first access calls \<open>pop_back\<close> on an empty deque.\<close>

lemma lru_size_zero: "lru_index 0 loader key (new_cache s) = Undefined"
  by (simp add: lru_index_def new_cache_def evict_none)

subsection \<open>Recency\<close>

text \<open>The distinct keys of a history, the most recently used first.\<close>

definition recent :: "'k list \<Rightarrow> 'k list" where
  "recent ks = rev (remdups ks)"

lemma recent_Nil [simp]: "recent [] = []"
  by (simp add: recent_def)

lemma remdups_snoc: "remdups (ks @ [k]) = removeAll k (remdups ks) @ [k]"
  by (induction ks) auto

lemma recent_snoc: "recent (ks @ [k]) = k # remove1 k (recent ks)"
  by (simp add: recent_def remdups_snoc distinct_remove1_removeAll removeAll_filter_not_eq
      flip: rev_filter)

lemma recent_distinct [simp]: "distinct (recent ks)"
  by (simp add: recent_def)

lemma remove1_take_Suc:
  "k \<in> set (take (Suc n) l) \<Longrightarrow> take n (remove1 k l) = remove1 k (take (Suc n) l)"
proof (induction l arbitrary: n)
  case (Cons a l)
  then show ?case by (cases n) auto
qed simp

lemma take_remove1_beyond: "k \<notin> set (take n l) \<Longrightarrow> take n (remove1 k l) = take n l"
proof (induction l arbitrary: n)
  case (Cons a l)
  then show ?case by (cases n) auto
qed simp

lemma recent_hit:
  assumes "0 < n" and "k \<in> set (take n l)"
  shows "take n (k # remove1 k l) = k # remove1 k (take n l)"
  using assms by (cases n) (simp_all add: remove1_take_Suc)

lemma recent_miss:
  assumes "0 < n" and "k \<notin> set (take n l)"
  shows "take n (k # remove1 k l) =
    k # (if length (take n l) \<ge> n then butlast (take n l) else take n l)"
proof -
  obtain m where m: "n = Suc m" using assms(1) by (cases n) auto
  have "k \<notin> set (take m l)"
    using assms(2) m set_take_subset_set_take [of m n l] by auto
  then have *: "take m (remove1 k l) = take m l" by (rule take_remove1_beyond)
  show ?thesis
    using * m butlast_conv_take [of l] by (cases "length l = n") (auto simp: butlast_take min_def)
qed

subsection \<open>One access\<close>

lemma lru_index_hit:
  assumes "key \<in> set (cached_keys c)"
  obtains v c' where "lru_index n loader key c = Reference v c'"
    and "cached_keys c' = key # remove1 key (cached_keys c)"
    and "loader_state c' = loader_state c"
    and "map_of (deque c) key = Some v" and "map_of (deque c') = map_of (deque c)"
proof -
  obtain v d where t: "take_item key (deque c) = Some (v, d)"
    using assms take_item_None [of key "deque c"] by (cases "take_item key (deque c)") (auto simp: cached_keys_def)
  show thesis
  proof (rule that)
    show "lru_index n loader key c = Reference v (c\<lparr>deque := (key, v) # d\<rparr>)"
      by (simp add: lru_index_def t)
    show "map_of (deque (c\<lparr>deque := (key, v) # d\<rparr>)) = map_of (deque c)"
      using take_item_Some [OF t] take_item_others [OF t] by auto
  qed (use take_item_Some [OF t] in \<open>simp_all add: cached_keys_def\<close>)
qed

lemma lru_index_miss:
  assumes "key \<notin> set (cached_keys c)" and "0 < n"
  shows "lru_index n loader key c =
    (let d = (if length (deque c) \<ge> n then butlast (deque c) else deque c) in
      case loader key (loader_state c) of
        (None, s) \<Rightarrow> Thrown \<lparr>deque = d, loader_state = s\<rparr>
      | (Some v, s) \<Rightarrow> Reference v \<lparr>deque = (key, v) # d, loader_state = s\<rparr>)"
  using assms take_item_None [of key "deque c"]
  by (simp add: lru_index_def cached_keys_def evict_positive Let_def)

definition never_throws :: "('k, 'v, 's) loader \<Rightarrow> bool" where
  "never_throws loader \<longleftrightarrow> (\<forall>k s. fst (loader k s) \<noteq> None)"

text \<open>The state of a loader that an access of a key leaves, given the keys in the cache.\<close>

definition load_effect :: "('k, 'v, 's) loader \<Rightarrow> 'k list \<Rightarrow> 'k \<Rightarrow> 's \<Rightarrow> 's" where
  "load_effect loader ks k s = (if k \<in> set ks then s else snd (loader k s))"

lemma lru_use_step:
  assumes "0 < n" and "never_throws loader"
    and keys: "cached_keys c = take n (recent ks)"
  obtains c' where "lru_use n loader u c = Some c'"
    and "cached_keys c' = take n (recent (ks @ [used_key u]))"
    and "loader_state c' = load_effect loader (cached_keys c) (used_key u) (loader_state c)"
proof (cases "used_key u \<in> set (cached_keys c)")
  case True
  then obtain v c' where c': "lru_index n loader (used_key u) c = Reference v c'"
    "cached_keys c' = used_key u # remove1 (used_key u) (cached_keys c)"
    "loader_state c' = loader_state c"
    by (rule lru_index_hit)
  have k: "cached_keys c' = take n (recent (ks @ [used_key u]))"
    using True recent_hit [OF assms(1), of "used_key u" "recent ks"] unfolding c'(2) recent_snoc keys
    by simp
  show thesis
    using c' k True by (cases u) (auto simp: load_effect_def intro: that)
next
  case False
  obtain v s where l: "loader (used_key u) (loader_state c) = (Some v, s)"
    using assms(2) unfolding never_throws_def
    by (metis option.collapse prod.collapse)
  define d where "d = (if length (deque c) \<ge> n then butlast (deque c) else deque c)"
  define c' where "c' = \<lparr>deque = (used_key u, v) # d, loader_state = s\<rparr>"
  have i: "lru_index n loader (used_key u) c = Reference v c'"
    using lru_index_miss [OF False assms(1), of loader] by (simp add: l d_def c'_def)
  have len: "length (deque c) = length (cached_keys c)" by (simp add: cached_keys_def)
  have "cached_keys c' = used_key u # (if length (cached_keys c) \<ge> n then butlast (cached_keys c) else cached_keys c)"
    by (simp add: c'_def d_def cached_keys_def map_butlast)
  then have k: "cached_keys c' = take n (recent (ks @ [used_key u]))"
    using recent_miss [OF assms(1), of "used_key u" "recent ks"] False unfolding recent_snoc keys by simp
  have s: "loader_state c' = load_effect loader (cached_keys c) (used_key u) (loader_state c)"
    using False by (simp add: c'_def load_effect_def l)
  show thesis using i k s by (cases u) (auto intro: that)
qed

text \<open>The values: the front item is the one used, every other key that is still cached keeps its
  value.\<close>

lemma map_of_butlast:
  "map_of (butlast d) k = (if k \<in> set (map fst (butlast d)) then map_of d k else None)"
  by (induction d) (auto simp: map_of_eq_None_iff)

definition gives :: "('k, 'v, 's) loader \<Rightarrow> ('k \<Rightarrow> 'v) \<Rightarrow> bool" where
  "gives loader f \<longleftrightarrow> (\<forall>k s. fst (loader k s) = Some (f k))"

lemma givesD: "gives loader f \<Longrightarrow> \<exists>s'. loader k s = (Some (f k), s')"
  unfolding gives_def by (metis prod.collapse)

lemma gives_never_throws: "gives loader f \<Longrightarrow> never_throws loader"
  by (simp add: gives_def never_throws_def)

definition value_after :: "('k, 'v) cache_use \<Rightarrow> 'v \<Rightarrow> 'v" where
  "value_after u v = (case u of Read _ \<Rightarrow> v | Write _ w \<Rightarrow> w)"

lemma lru_use_front:
  assumes "lru_index n loader (used_key u) c = Reference v c'"
    and "deque c' = (used_key u, v) # d"
  shows "lru_use n loader u c = Some (c'\<lparr>deque := (used_key u, value_after u v) # d\<rparr>)"
  using assms by (cases u) (auto simp: assign_front_def value_after_def)

lemma lru_use_values:
  assumes "0 < n" and "gives loader f"
    and "lru_use n loader u c = Some c'"
  shows "map_of (deque c') k =
    (if k = used_key u
     then Some (value_after u (case map_of (deque c) k of None \<Rightarrow> f k | Some v \<Rightarrow> v))
     else if k \<in> set (cached_keys c') then map_of (deque c) k else None)"
proof (cases "take_item (used_key u) (deque c)")
  case None
  define d where "d = (if length (deque c) \<ge> n then butlast (deque c) else deque c)"
  obtain s where l: "loader (used_key u) (loader_state c) = (Some (f (used_key u)), s)"
    using givesD [OF assms(2)] by blast
  have "lru_index n loader (used_key u) c =
      Reference (f (used_key u)) \<lparr>deque = (used_key u, f (used_key u)) # d, loader_state = s\<rparr>"
    using None assms(1) by (simp add: lru_index_def evict_positive l d_def)
  then have c': "deque c' = (used_key u, value_after u (f (used_key u))) # d"
    using lru_use_front [where n = n and loader = loader and u = u and c = c and d = d] assms(3)
    by fastforce
  have n: "map_of (deque c) (used_key u) = None"
    using None by (simp add: take_item_None map_of_eq_None_iff)
  have "map_of d k = (if k \<in> set (map fst d) then map_of (deque c) k else None)" for k
    unfolding d_def by (auto simp: map_of_butlast map_of_eq_None_iff)
  then show ?thesis using n by (auto simp: c' cached_keys_def)
next
  case (Some r)
  then obtain v d where t: "take_item (used_key u) (deque c) = Some (v, d)" by (cases r) auto
  have "lru_index n loader (used_key u) c = Reference v (c\<lparr>deque := (used_key u, v) # d\<rparr>)"
    by (simp add: lru_index_def t)
  then have c': "deque c' = (used_key u, value_after u v) # d"
    using lru_use_front [where n = n and loader = loader and u = u and c = c and d = d] assms(3)
    by fastforce
  have "map_of d k = (if k \<in> set (map fst d) then map_of (deque c) k else None)" if "k \<noteq> used_key u" for k
    using take_item_others [OF t that] map_of_eq_None_iff [of d k] by auto
  then show ?thesis using take_item_Some [OF t] by (auto simp: c' cached_keys_def)
qed

subsection \<open>Runs\<close>

lemma lru_run_append:
  "lru_run n loader (us @ vs) c =
     (case lru_run n loader us c of None \<Rightarrow> None | Some c' \<Rightarrow> lru_run n loader vs c')"
  by (induction us arbitrary: c) (auto split: option.split)

lemma new_cache_keys [simp]: "cached_keys (new_cache s) = []"
  and new_cache_state [simp]: "loader_state (new_cache s) = s"
  and new_cache_deque [simp]: "deque (new_cache s) = []"
  by (simp_all add: new_cache_def cached_keys_def)

text \<open>The keys an access history loads: those not among the \<open>n\<close> most recent distinct keys when
  they are used.\<close>

fun loads :: "nat \<Rightarrow> 'k list \<Rightarrow> 'k list \<Rightarrow> 'k list" where
  "loads n past [] = []"
| "loads n past (k # ks) =
     (if k \<in> set (take n (recent past)) then [] else [k]) @ loads n (past @ [k]) ks"

lemma loads_snoc:
  "loads n past (ks @ [k]) =
     loads n past ks @ (if k \<in> set (take n (recent (past @ ks))) then [] else [k])"
  by (induction ks arbitrary: past) auto

lemma loads_mono: "n \<le> m \<Longrightarrow> length (loads m past ks) \<le> length (loads n past ks)"
proof (induction ks arbitrary: past)
  case (Cons k ks)
  then have "length (loads m (past @ [k]) ks) \<le> length (loads n (past @ [k]) ks)" by simp
  moreover have "set (take n (recent past)) \<subseteq> set (take m (recent past))"
    using Cons.prems by (rule set_take_subset_set_take)
  ultimately show ?case by auto
qed simp

lemma lru_run_keys:
  assumes "0 < n" and "never_throws loader"
  shows "\<exists>c. lru_run n loader us (new_cache s) = Some c \<and>
    cached_keys c = take n (recent (map used_key us)) \<and>
    loader_state c = fold (\<lambda>k s. snd (loader k s)) (loads n [] (map used_key us)) s"
proof (induction us rule: rev_induct)
  case (snoc u us)
  then obtain c where c: "lru_run n loader us (new_cache s) = Some c"
    "cached_keys c = take n (recent (map used_key us))"
    "loader_state c = fold (\<lambda>k s. snd (loader k s)) (loads n [] (map used_key us)) s" by blast
  obtain c' where "lru_use n loader u c = Some c'"
    "cached_keys c' = take n (recent (map used_key us @ [used_key u]))"
    "loader_state c' = load_effect loader (cached_keys c) (used_key u) (loader_state c)"
    using lru_use_step [OF assms c(2)] by metis
  then show ?case by (simp add: lru_run_append c loads_snoc load_effect_def)
qed simp

text \<open>What a history of uses, latest first, leaves as the value of a key: what was last written
  to it, if the key has not been dropped since, and what the loader gives otherwise.\<close>

fun current :: "nat \<Rightarrow> ('k \<Rightarrow> 'v) \<Rightarrow> ('k, 'v) cache_use list \<Rightarrow> 'k \<Rightarrow> 'v" where
  "current n f [] k = f k"
| "current n f (u # past) k =
     (if used_key u \<noteq> k then current n f past k
      else value_after u
        (if k \<in> set (take n (recent (map used_key (rev past)))) then current n f past k else f k))"

lemma lru_run_values:
  assumes "0 < n" and "gives loader f"
  shows "\<exists>c. lru_run n loader us (new_cache s) = Some c \<and>
    cached_keys c = take n (recent (map used_key us)) \<and>
    (\<forall>k. map_of (deque c) k = (if k \<in> set (cached_keys c) then Some (current n f (rev us) k) else None))"
proof (induction us rule: rev_induct)
  case (snoc u us)
  have nt: "never_throws loader" using assms(2) by (rule gives_never_throws)
  obtain c where c: "lru_run n loader us (new_cache s) = Some c"
    "cached_keys c = take n (recent (map used_key us))"
    "\<And>k. map_of (deque c) k = (if k \<in> set (cached_keys c) then Some (current n f (rev us) k) else None)"
    using snoc.IH by blast
  obtain c' where c': "lru_use n loader u c = Some c'"
    "cached_keys c' = take n (recent (map used_key us @ [used_key u]))"
    using lru_use_step [OF assms(1) nt c(2)] by metis
  have u: "used_key u \<in> set (cached_keys c')"
    using assms(1) by (cases n) (auto simp: c'(2) recent_snoc)
  have sub: "k \<in> set (cached_keys c)" if k: "k \<in> set (cached_keys c')" "k \<noteq> used_key u" for k
  proof -
    have "map_of (deque c') k = map_of (deque c) k"
      using lru_use_values [OF assms c'(1), of k] k by simp
    moreover have "map_of (deque c') k \<noteq> None"
      using k(1) by (simp add: map_of_eq_None_iff cached_keys_def)
    ultimately show ?thesis using c(3) [of k] by (auto split: if_splits)
  qed
  have "map_of (deque c') k =
      (if k \<in> set (cached_keys c') then Some (current n f (rev (us @ [u])) k) else None)" for k
    using lru_use_values [OF assms c'(1), of k] c(3) [of k] u sub [of k] c(2) by auto
  then show ?case using c c' by (simp add: lru_run_append)
qed simp

subsection \<open>Properties\<close>

text \<open>C17: A cache of positive size whose loader never throws keeps the most recently used keys.
  Whatever sequence of reads and writes a client makes, no access is undefined, the keys held are the distinct keys last
  used, most recent first and at most the size of them, and the loader has been called exactly
  once for each use of a key that was not among them. (When the loader throws, the item dropped to
  make space is gone and nothing takes its place, so the claim is for loaders that do not.)\<close>

theorem lru_keeps_most_recent:
  assumes "0 < cache_size" and "never_throws loader"
  shows "\<exists>c. lru_run cache_size loader us (new_cache s) = Some c \<and>
    cached_keys c = take cache_size (recent (map used_key us)) \<and>
    loader_state c = fold (\<lambda>k s. snd (loader k s)) (loads cache_size [] (map used_key us)) s"
  using assms by (rule lru_run_keys)

definition logging_loader :: "(nat, nat, nat list) loader" where
  "logging_loader k s = (Some (k * k), s @ [k])"

theorem lru_keeps_most_recent_witness:
  "\<exists>c. lru_run 2 logging_loader [Read 1, Read 2, Read 1, Read 3, Read 2] (new_cache []) = Some c \<and>
    cached_keys c = [2, 3] \<and> loader_state c = [1, 2, 3, 2]"
proof -
  have "never_throws logging_loader" by (simp add: never_throws_def logging_loader_def)
  from lru_keeps_most_recent [OF _ this, of 2 "[Read 1, Read 2, Read 1, Read 3, Read 2]" "[]"]
  show ?thesis by (simp add: recent_def logging_loader_def)
qed

text \<open>C18: What the cache returns. When the loader gives every key a fixed value, an access after
  any history of reads and writes returns what was last written to the key if it has stayed
  among the most recently used keys since, and the loader's value if it has not: a write to an
  item is lost when the item is dropped.\<close>

theorem lru_returns_current:
  assumes "0 < cache_size" and "gives loader f"
  shows "\<exists>c c'. lru_run cache_size loader us (new_cache s) = Some c \<and>
    lru_index cache_size loader key c = Reference (current cache_size f (Read key # rev us) key) c'"
proof -
  obtain c where c: "lru_run cache_size loader us (new_cache s) = Some c"
    "cached_keys c = take cache_size (recent (map used_key us))"
    "\<And>k. map_of (deque c) k =
      (if k \<in> set (cached_keys c) then Some (current cache_size f (rev us) k) else None)"
    using lru_run_values [OF assms, of us s] by blast
  show ?thesis
  proof (cases "key \<in> set (cached_keys c)")
    case True
    then obtain v c' where "lru_index cache_size loader key c = Reference v c'"
      "map_of (deque c) key = Some v" by (rule lru_index_hit)
    then show ?thesis
      using c True by (auto simp: value_after_def)
  next
    case False
    obtain t where "loader key (loader_state c) = (Some (f key), t)"
      using givesD [OF assms(2)] by blast
    then show ?thesis
      using c False lru_index_miss [OF False assms(1), of loader] by (auto simp: value_after_def Let_def)
  qed
qed

theorem lru_returns_current_witness:
  "\<exists>c c'. lru_run 1 logging_loader [Write 3 7, Read 4] (new_cache []) = Some c \<and>
    lru_index 1 logging_loader 3 c = Reference 9 c'"
proof -
  have "gives logging_loader (\<lambda>k. k * k)" by (simp add: gives_def logging_loader_def)
  from lru_returns_current [OF _ this, of 1 "[Write 3 7, Read 4]" "[]" 3]
  show ?thesis by (simp add: value_after_def recent_def)
qed

end
