(* ===== verification/Page_Cache.thy ===== *)
theory Page_Cache
  imports Lru_Cache Mapped_File
begin

text \<open>
  The page cache of \<open>btree.hpp\<close>: an LRU cache whose loader maps pages of the file, and \<open>append\<close>,
  which adds a page to the file and to the cache. A view of a page is the number of the page it
  shows, since all views are shared mappings of the file. The lemmas say that the cache is
  transparent: whatever was read, appended and dropped before, an access to page \<open>i\<close> gives a view
  of page \<open>i\<close>. The model of the B-tree therefore reads and writes the pages of the file.
\<close>

type_synonym page_cache = "(nat, nat, nat) lru_cache"

definition page_loader :: "nat \<Rightarrow> (nat, nat, nat) loader" where
  "page_loader page_size pagenum bytes = (Some pagenum, windows_get page_size pagenum bytes)"

definition page_cache_append :: "nat \<Rightarrow> nat \<Rightarrow> page_cache \<Rightarrow> (nat \<times> page_cache) option" where
  "page_cache_append page_size cache_size c =
     (case evict cache_size (deque c) of
        None \<Rightarrow> None
      | Some d \<Rightarrow>
          (let (newpage, bytes) = windows_append page_size (loader_state c)
           in Some (newpage, \<lparr>deque = (newpage, newpage) # d, loader_state = bytes\<rparr>)))"

definition views_ok :: "page_cache \<Rightarrow> bool" where
  "views_ok c \<longleftrightarrow> (\<forall>(idx, view) \<in> set (deque c). view = idx)"

lemma take_item_set: "take_item key d = Some (v, d') \<Longrightarrow> set d' \<subseteq> set d \<and> (key, v) \<in> set d"
proof (induction d arbitrary: d')
  case (Cons x d)
  then show ?case by (cases x) (auto split: option.splits if_splits)
qed simp

lemma evict_set: "evict n d = Some d' \<Longrightarrow> set d' \<subseteq> set d"
  by (auto simp: evict_def pop_back_def split: if_splits dest: in_set_butlastD)

lemma new_cache_views: "views_ok (new_cache bytes)"
  by (simp add: views_ok_def)

lemma page_access:
  assumes "views_ok c" and "0 < cache_size"
  shows "\<exists>c'. lru_index cache_size (page_loader page_size) idx c = Reference idx c' \<and> views_ok c'"
proof (cases "take_item idx (deque c)")
  case None
  obtain d where d: "evict cache_size (deque c) = Some d" using evict_positive [OF assms(2)] by blast
  have "views_ok \<lparr>deque = (idx, idx) # d, loader_state = s\<rparr>" for s
    using assms(1) evict_set [OF d] by (auto simp: views_ok_def)
  then show ?thesis using None d by (simp add: lru_index_def page_loader_def)
next
  case (Some r)
  obtain v d where r: "r = (v, d)" by force
  have "v = idx" "\<forall>(i, view) \<in> set d. view = i"
    using take_item_set [OF Some [unfolded r]] assms(1) by (auto simp: views_ok_def)
  then show ?thesis using Some r by (simp add: lru_index_def views_ok_def)
qed

lemma page_append:
  assumes "views_ok c" and "0 < cache_size"
  shows "\<exists>c'. page_cache_append page_size cache_size c =
      Some (fst (windows_append page_size (loader_state c)), c') \<and>
    views_ok c' \<and> loader_state c' = snd (windows_append page_size (loader_state c))"
proof -
  obtain d where d: "evict cache_size (deque c) = Some d" using evict_positive [OF assms(2)] by blast
  obtain p s where a: "windows_append page_size (loader_state c) = (p, s)" by force
  have "views_ok \<lparr>deque = (p, p) # d, loader_state = s\<rparr>"
    using assms(1) evict_set [OF d] by (auto simp: views_ok_def)
  then show ?thesis using d a by (simp add: page_cache_append_def)
qed

text \<open>Reading a page that the file already has does not change its size.\<close>

lemma page_load_size: "idx * page_size + page_size \<le> bytes \<Longrightarrow> snd (page_loader page_size idx bytes) = bytes"
  by (simp add: page_loader_def windows_get_def Let_def)

end
