(* ===== verification/Interleaving.thy ===== *)
theory Interleaving
  imports Main
begin

text \<open>
  Threads that share a state, for the locks and the stack of \<open>concurrent\<close>. A thread is at a
  program point; \<open>moves i s p\<close> lists what thread \<open>i\<close> can do next in the shared state \<open>s\<close> at the
  point \<open>p\<close>, one atomic access at a time, where a choice of the caller (which operation to call
  next) gives several entries. Any thread may move next.
\<close>

subsection \<open>Interleaved steps\<close>

type_synonym ('s, 'p) moves = "nat \<Rightarrow> 's \<Rightarrow> 'p \<Rightarrow> ('s \<times> 'p) list"

inductive interleave :: "('s, 'p) moves \<Rightarrow> 's \<times> 'p list \<Rightarrow> 's \<times> 'p list \<Rightarrow> bool" for moves where
  interleave_step:
    "i < length ps \<Longrightarrow> (s', p') \<in> set (moves i s (ps ! i)) \<Longrightarrow>
       interleave moves (s, ps) (s', ps[i := p'])"

inductive_cases interleave_cases: "interleave moves (s, ps) (s', ps')"

definition reachable :: "('s, 'p) moves \<Rightarrow> 's \<Rightarrow> 'p list \<Rightarrow> 's \<Rightarrow> 'p list \<Rightarrow> bool" where
  "reachable moves s ps s' ps' \<longleftrightarrow> (interleave moves)\<^sup>*\<^sup>* (s, ps) (s', ps')"

text \<open>A schedule names, for each step, the thread that moves and which of its moves it takes.\<close>

fun run_schedule ::
  "('s, 'p) moves \<Rightarrow> 's \<times> 'p list \<Rightarrow> (nat \<times> nat) list \<Rightarrow> ('s \<times> 'p list) option" where
  "run_schedule moves c [] = Some c"
| "run_schedule moves (s, ps) ((i, j) # rest) =
     (if i < length ps \<and> j < length (moves i s (ps ! i))
      then (case moves i s (ps ! i) ! j of
              (s', p') \<Rightarrow> run_schedule moves (s', ps[i := p']) rest)
      else None)"

lemma reachable_refl: "reachable moves s ps s ps"
  by (simp add: reachable_def)

lemma reachable_trans:
  "reachable moves s ps s' ps' \<Longrightarrow> reachable moves s' ps' s'' ps'' \<Longrightarrow> reachable moves s ps s'' ps''"
  unfolding reachable_def by (rule rtranclp_trans)

lemma reachable_step:
  assumes "i < length ps" "(s', p') \<in> set (moves i s (ps ! i))"
    "reachable moves s' (ps[i := p']) s'' ps''"
  shows "reachable moves s ps s'' ps''"
  using assms interleave_step [of i ps s' p' moves s]
  unfolding reachable_def by (meson converse_rtranclp_into_rtranclp)

lemma run_schedule_reachable:
  "run_schedule moves (s, ps) sch = Some (s', ps') \<Longrightarrow> reachable moves s ps s' ps'"
proof (induction moves "(s, ps)" sch arbitrary: s ps rule: run_schedule.induct)
  case (1 moves)
  then show ?case by (simp add: reachable_refl)
next
  case (2 moves s ps i j rest)
  from "2.prems" have j: "i < length ps" "j < length (moves i s (ps ! i))"
    by (simp_all split: if_splits)
  obtain s1 p1 where m: "moves i s (ps ! i) ! j = (s1, p1)" by fastforce
  have "reachable moves s1 (ps[i := p1]) s' ps'"
    using "2.hyps" [OF _ m [symmetric]] "2.prems" j m by simp
  moreover have "(s1, p1) \<in> set (moves i s (ps ! i))"
    using j m by (metis nth_mem)
  ultimately show ?case using j(1) reachable_step by metis
qed

lemma run_schedule_append:
  "run_schedule moves c (xs @ ys) =
     (case run_schedule moves c xs of None \<Rightarrow> None | Some c' \<Rightarrow> run_schedule moves c' ys)"
  by (induction moves c xs rule: run_schedule.induct) (auto split: prod.splits)

subsection \<open>Atomic exchange\<close>

text \<open>\<open>atomic::compare_exchange_strong\<close>: whether it succeeded, the value of the atomic and the value
  of the argument \<open>expected\<close>, which a failure sets to the value that was found.\<close>

definition compare_exchange_strong :: "'a \<Rightarrow> 'a \<Rightarrow> 'a \<Rightarrow> bool \<times> 'a \<times> 'a" where
  "compare_exchange_strong lk expected desired =
     (if lk = expected then (True, desired, expected) else (False, lk, lk))"

subsection \<open>Counting threads\<close>

definition tally :: "('p \<Rightarrow> bool) \<Rightarrow> 'p list \<Rightarrow> nat" where
  "tally P ps = length (filter P ps)"

lemma tally_update:
  "i < length ps \<Longrightarrow>
     tally P (ps[i := p]) + (if P (ps ! i) then 1 else 0) = tally P ps + (if P p then 1 else 0)"
proof (induction ps arbitrary: i)
  case (Cons a ps)
  show ?case
  proof (cases i)
    case 0
    then show ?thesis by (simp add: tally_def)
  next
    case (Suc k)
    then show ?thesis using Cons.IH [of k] Cons.prems by (simp add: tally_def split: if_splits)
  qed
qed simp

lemma tally_replicate: "tally P (replicate n p) = (if P p then n else 0)"
  by (simp add: tally_def)

lemma tally_positive: "i < length ps \<Longrightarrow> P (ps ! i) \<Longrightarrow> 0 < tally P ps"
  unfolding tally_def by (metis filter_empty_conv length_greater_0_conv nth_mem)

lemma tally_length: "tally P ps \<le> length ps"
  by (simp add: tally_def)

lemma tally_unique:
  assumes "tally P ps \<le> 1" "i < length ps" "j < length ps" "P (ps ! i)" "P (ps ! j)"
  shows "i = j"
proof (rule ccontr)
  assume "i \<noteq> j"
  have "tally P ps = card {k. k < length ps \<and> P (ps ! k)}"
    unfolding tally_def by (rule length_filter_conv_card)
  moreover have "card {i, j} \<le> card {k. k < length ps \<and> P (ps ! k)}"
    using assms(2-5) by (intro card_mono) auto
  ultimately show False using \<open>i \<noteq> j\<close> assms(1) by simp
qed

lemma tally_zero: "tally P ps = 0 \<longleftrightarrow> (\<forall>p \<in> set ps. \<not> P p)"
  by (simp add: tally_def filter_empty_conv)

subsection \<open>Invariants\<close>

text \<open>A property of the shared state and of all threads that every move keeps.\<close>

locale invariant_system =
  fixes moves :: "('s, 'p) moves"
    and s0 :: 's
    and ps0 :: "'p list"
    and inv :: "'s \<Rightarrow> 'p list \<Rightarrow> bool"
  assumes inv_start: "inv s0 ps0"
    and inv_move:
      "inv s ps \<Longrightarrow> length ps = length ps0 \<Longrightarrow> i < length ps \<Longrightarrow> (s', p') \<in> set (moves i s (ps ! i)) \<Longrightarrow>
         inv s' (ps[i := p'])"
begin

lemma reach_inv:
  assumes "reachable moves s0 ps0 s ps"
  shows "inv s ps \<and> length ps = length ps0"
proof -
  have "(interleave moves)\<^sup>*\<^sup>* c d \<Longrightarrow> inv (fst c) (snd c) \<and> length (snd c) = length ps0 \<Longrightarrow>
          inv (fst d) (snd d) \<and> length (snd d) = length ps0" for c d
  proof (induction rule: rtranclp_induct)
    case (step d e)
    obtain s ps s' ps' where d: "d = (s, ps)" and e: "e = (s', ps')" by fastforce
    from step.hyps(2) obtain i p' where "i < length ps" "(s', p') \<in> set (moves i s (ps ! i))"
      "ps' = ps[i := p']"
      unfolding d e by (auto elim: interleave_cases)
    then show ?case using step.IH [OF step.prems] inv_move unfolding d e by auto
  qed simp
  from this [of "(s0, ps0)" "(s, ps)"] assms inv_start show ?thesis
    unfolding reachable_def by simp
qed

end

text \<open>The contract of a lock towards the code it guards: at most one thread at a time is at a point
  where it owns the lock.\<close>

locale exclusive_lock = invariant_system moves s0 ps0 inv
  for moves :: "('s, 'p) moves" and s0 :: 's and ps0 :: "'p list" and inv :: "'s \<Rightarrow> 'p list \<Rightarrow> bool" +
  fixes owns :: "'p \<Rightarrow> bool"
  assumes inv_owns: "inv s ps \<Longrightarrow> length ps = length ps0 \<Longrightarrow> tally owns ps \<le> 1"
begin

lemma one_owner: "reachable moves s0 ps0 s ps \<Longrightarrow> tally owns ps \<le> 1"
  using reach_inv inv_owns by blast

lemma owner_unique:
  "reachable moves s0 ps0 s ps \<Longrightarrow> i < length ps \<Longrightarrow> j < length ps \<Longrightarrow> owns (ps ! i) \<Longrightarrow> owns (ps ! j)
     \<Longrightarrow> i = j"
  using one_owner tally_unique by metis

end

end
