(* ===== verification/Spin_Lock.thy ===== *)
theory Spin_Lock
  imports Interleaving "HOL-Library.Word"
begin

text \<open>
  The spin lock of \<open>concurrent/spin_lock.hpp\<close>. The functions that are named like the members are one turn
  of them; the moves cut them at their atomic accesses. The wait policies of
  \<open>concurrent/concurrent.hpp\<close> have no effect on the state. The callers are threads that release
  only what they hold, as \<open>scope_locker\<close> does.
\<close>

subsection \<open>The operations\<close>

definition LockedValue :: "32 word" where
  "LockedValue = 0x80000000"

definition spin_new :: "32 word" where
  "spin_new = 0"

definition spin_try_lock :: "32 word \<Rightarrow> bool \<times> 32 word" where
  "spin_try_lock lk =
     (let compare = 0; (ok, lk, compare) = compare_exchange_strong lk compare LockedValue in (ok, lk))"

text \<open>One turn of the loop of \<open>lock\<close>: whether it leaves the loop. The variable \<open>compare\<close> is set to 0
  in every turn.\<close>

definition spin_lock_turn :: "32 word \<Rightarrow> bool \<times> 32 word" where
  "spin_lock_turn lk =
     (let compare = 0; (ok, lk, compare) = compare_exchange_strong lk compare LockedValue in (ok, lk))"

definition spin_unlock :: "32 word \<Rightarrow> 32 word" where
  "spin_unlock lk = 0"

datatype spin_pc = Spin_idle | Spin_lock | Spin_try_lock | Spin_held | Spin_unlock

fun spin_moves :: "(32 word, spin_pc) moves" where
  "spin_moves i lk Spin_idle = [(lk, Spin_lock), (lk, Spin_try_lock)]"
| "spin_moves i lk Spin_lock =
     (let (ok, lk) = spin_lock_turn lk in [(lk, if ok then Spin_held else Spin_lock)])"
| "spin_moves i lk Spin_try_lock =
     (let (ok, lk) = spin_try_lock lk in [(lk, if ok then Spin_held else Spin_idle)])"
| "spin_moves i lk Spin_held = [(lk, Spin_unlock)]"
| "spin_moves i lk Spin_unlock = [(spin_unlock lk, Spin_idle)]"

text \<open>A thread owns the lock from the exchange that took it to the store that frees it.\<close>

fun spin_owns :: "spin_pc \<Rightarrow> bool" where
  "spin_owns Spin_held = True"
| "spin_owns Spin_unlock = True"
| "spin_owns p = False"

definition spin_inv :: "32 word \<Rightarrow> spin_pc list \<Rightarrow> bool" where
  "spin_inv lk ps \<longleftrightarrow>
     (lk = 0 \<and> tally spin_owns ps = 0) \<or> (lk = LockedValue \<and> tally spin_owns ps = 1)"

lemmas spin_defs = spin_lock_turn_def spin_try_lock_def spin_unlock_def compare_exchange_strong_def

lemma LockedValue_neq [simp]: "LockedValue \<noteq> 0" "0 \<noteq> LockedValue"
  by (simp_all add: LockedValue_def)

lemma spin_inv_move:
  assumes "spin_inv lk ps" "i < length ps" "(lk', p') \<in> set (spin_moves i lk (ps ! i))"
  shows "spin_inv lk' (ps[i := p'])"
  using assms tally_update [OF assms(2), of spin_owns p'] tally_positive [OF assms(2), of spin_owns]
  by (cases "ps ! i") (auto simp: spin_inv_def spin_defs split: if_splits)

definition spin_start :: "nat \<Rightarrow> spin_pc list" where
  "spin_start n = replicate n Spin_idle"

interpretation spin: exclusive_lock spin_moves spin_new "spin_start n" spin_inv spin_owns
proof unfold_locales
  show "spin_inv spin_new (spin_start n)"
    by (simp add: spin_inv_def spin_new_def spin_start_def tally_replicate)
qed (simp_all add: spin_inv_move, auto simp: spin_inv_def)

text \<open>C22: the spin lock, in any interleaving of any number of threads that call \<open>lock\<close>,
  \<open>try_lock\<close> and \<open>unlock\<close>: at most one thread owns it, and an attempt to take it succeeds exactly
  when no thread owns it.\<close>

theorem spin_lock_excludes:
  assumes "reachable spin_moves spin_new (spin_start n) lk ps"
  shows "tally spin_owns ps \<le> 1 \<and>
    fst (spin_lock_turn lk) = (tally spin_owns ps = 0) \<and>
    fst (spin_try_lock lk) = (tally spin_owns ps = 0)"
proof -
  have "spin_inv lk ps" using spin.reach_inv [OF assms] by simp
  then have "fst (spin_lock_turn lk) = (tally spin_owns ps = 0)"
    "fst (spin_try_lock lk) = (tally spin_owns ps = 0)"
    by (auto simp: spin_inv_def spin_defs)
  then show ?thesis using spin.one_owner [OF assms] by simp
qed

theorem spin_lock_excludes_witness:
  "tally spin_owns [Spin_idle, Spin_held] \<le> 1 \<and>
   fst (spin_lock_turn LockedValue) = (tally spin_owns [Spin_idle, Spin_held] = 0) \<and>
   fst (spin_try_lock LockedValue) = (tally spin_owns [Spin_idle, Spin_held] = 0)"
proof (rule spin_lock_excludes [of "Suc (Suc 0)"])
  have "run_schedule spin_moves (spin_new, spin_start (Suc (Suc 0))) [(1, 0), (1, 0)] =
      Some (LockedValue, [Spin_idle, Spin_held])"
    by (simp add: spin_start_def spin_new_def spin_defs)
  then show "reachable spin_moves spin_new (spin_start (Suc (Suc 0))) LockedValue [Spin_idle, Spin_held]"
    by (rule run_schedule_reachable)
qed

end
