(* ===== verification/Recursive_Lock.thy ===== *)
theory Recursive_Lock
  imports Interleaving "HOL-Library.Word"
begin

text \<open>
  The recursive spin lock of \<open>concurrent/recursive_spin_lock.hpp\<close>. It stores the hash of the owner's
  thread id, so what \<open>std::hash\<close> makes of thread ids is a parameter: \<open>hash i\<close> for thread \<open>i\<close>. The
  callers release only what they hold, and \<open>N\<close> is how often a caller nests at most; the counter
  of 32 bits wraps where that is more than it can count.
\<close>

subsection \<open>The operations\<close>

record rec_lock =
  rec_owner :: "64 word"
  lock_count :: "32 word"

definition rec_new :: rec_lock where
  "rec_new = \<lparr>rec_owner = -1, lock_count = 0\<rparr>"

text \<open>The two exchanges of \<open>try_lock\<close>: from the value of a free lock, and, where that fails, of the
  thread's own hash with itself.\<close>

definition rec_take_free :: "64 word \<Rightarrow> rec_lock \<Rightarrow> bool \<times> rec_lock" where
  "rec_take_free ThisID l =
     (let bad_id = -1; (ok, lk, bad_id) = compare_exchange_strong (rec_owner l) bad_id ThisID
      in (ok, l\<lparr>rec_owner := lk\<rparr>))"

definition rec_take_own :: "64 word \<Rightarrow> rec_lock \<Rightarrow> bool \<times> rec_lock" where
  "rec_take_own ThisID l =
     (let (ok, lk, _) = compare_exchange_strong (rec_owner l) ThisID ThisID
      in (ok, l\<lparr>rec_owner := lk\<rparr>))"

definition rec_count_up :: "rec_lock \<Rightarrow> rec_lock" where
  "rec_count_up l = l\<lparr>lock_count := lock_count l + 1\<rparr>"

text \<open>\<open>unlock\<close> up to its test, and its store.\<close>

definition rec_count_down :: "rec_lock \<Rightarrow> bool \<times> rec_lock" where
  "rec_count_down l = (let c = lock_count l - 1 in (0 = c, l\<lparr>lock_count := c\<rparr>))"

definition rec_free :: "rec_lock \<Rightarrow> rec_lock" where
  "rec_free l = l\<lparr>rec_owner := -1\<rparr>"

text \<open>Where a thread is, with the number of times it holds the lock; the flag tells \<open>lock\<close>, which
  repeats \<open>try_lock\<close> until it succeeds, from \<open>try_lock\<close> itself.\<close>

datatype rec_pc =
    Rec_run nat
  | Rec_take_free bool nat
  | Rec_take_own bool nat
  | Rec_count_up nat
  | Rec_count_down nat
  | Rec_free nat

fun rec_moves :: "nat \<Rightarrow> (nat \<Rightarrow> 64 word) \<Rightarrow> (rec_lock, rec_pc) moves" where
  "rec_moves N hash i l (Rec_run d) =
     (if d < N then [(l, Rec_take_free True d), (l, Rec_take_free False d)] else []) @
     (if 0 < d then [(l, Rec_count_down d)] else [])"
| "rec_moves N hash i l (Rec_take_free spin d) =
     (let (ok, l) = rec_take_free (hash i) l
      in [(l, if ok then Rec_count_up d else Rec_take_own spin d)])"
| "rec_moves N hash i l (Rec_take_own spin d) =
     (let (ok, l) = rec_take_own (hash i) l
      in [(l, if ok then Rec_count_up d else if spin then Rec_take_free True d else Rec_run d)])"
| "rec_moves N hash i l (Rec_count_up d) = [(rec_count_up l, Rec_run (Suc d))]"
| "rec_moves N hash i l (Rec_count_down d) =
     (let (zero, l) = rec_count_down l in [(l, if zero then Rec_free (d - 1) else Rec_run (d - 1))])"
| "rec_moves N hash i l (Rec_free d) = [(rec_free l, Rec_run d)]"

definition rec_start :: "nat \<Rightarrow> rec_pc list" where
  "rec_start n = replicate n (Rec_run 0)"

lemmas rec_defs = rec_take_free_def rec_take_own_def rec_count_up_def rec_count_down_def rec_free_def
  compare_exchange_strong_def

subsection \<open>Ownership\<close>

fun rec_depth :: "rec_pc \<Rightarrow> nat" where
  "rec_depth (Rec_run d) = d"
| "rec_depth (Rec_take_free s d) = d"
| "rec_depth (Rec_take_own s d) = d"
| "rec_depth (Rec_count_up d) = d"
| "rec_depth (Rec_count_down d) = d"
| "rec_depth (Rec_free d) = d"

fun rec_owns :: "rec_pc \<Rightarrow> bool" where
  "rec_owns (Rec_run d) = (0 < d)"
| "rec_owns (Rec_take_free s d) = (0 < d)"
| "rec_owns (Rec_take_own s d) = (0 < d)"
| "rec_owns p = True"

fun rec_pc_ok :: "nat \<Rightarrow> rec_pc \<Rightarrow> bool" where
  "rec_pc_ok N (Rec_run d) = (d \<le> N)"
| "rec_pc_ok N (Rec_take_free s d) = (d < N)"
| "rec_pc_ok N (Rec_take_own s d) = (d < N)"
| "rec_pc_ok N (Rec_count_up d) = (d < N)"
| "rec_pc_ok N (Rec_count_down d) = (0 < d \<and> d \<le> N)"
| "rec_pc_ok N (Rec_free d) = (d = 0)"

definition rec_inv :: "nat \<Rightarrow> (nat \<Rightarrow> 64 word) \<Rightarrow> rec_lock \<Rightarrow> rec_pc list \<Rightarrow> bool" where
  "rec_inv N hash l ps \<longleftrightarrow>
     tally rec_owns ps \<le> 1 \<and> list_all (rec_pc_ok N) ps \<and>
     (\<forall>j < length ps. rec_owns (ps ! j) \<longrightarrow>
        rec_owner l = hash j \<and> lock_count l = of_nat (rec_depth (ps ! j))) \<and>
     (tally rec_owns ps = 0 \<longrightarrow> rec_owner l = -1 \<and> lock_count l = 0)"

text \<open>The hashes of the first \<open>n\<close> threads tell them apart, and from the value of a free lock.\<close>

definition good_hash :: "(nat \<Rightarrow> 64 word) \<Rightarrow> nat \<Rightarrow> bool" where
  "good_hash hash n \<longleftrightarrow> inj_on hash {..<n} \<and> (\<forall>i < n. hash i \<noteq> -1)"

lemma of_nat_depth_zero: "d \<le> 2 ^ 32 \<Longrightarrow> 0 < d \<Longrightarrow> of_nat d - (1 :: 32 word) = 0 \<longleftrightarrow> d = 1"
proof -
  assume d: "d \<le> 2 ^ 32" "0 < d"
  then have "of_nat d - (1 :: 32 word) = of_nat (d - 1)" by (cases d) simp_all
  moreover have "(of_nat (d - 1) :: 32 word) = 0 \<longleftrightarrow> 2 ^ 32 dvd d - 1"
    by (simp only: word_of_nat_eq_0_iff len_num1 len_bit0) simp
  moreover have "2 ^ 32 dvd d - 1 \<longleftrightarrow> d - 1 = 0"
    using d nat_dvd_not_less [of "d - 1" "2 ^ 32"] by (cases "d - 1") auto
  ultimately show ?thesis using d by (auto simp: le_Suc_eq)
qed

subsection \<open>The invariant\<close>

lemma rec_inv_owner:
  "rec_inv N hash l ps \<Longrightarrow> j < length ps \<Longrightarrow> rec_owns (ps ! j) \<Longrightarrow>
     rec_owner l = hash j \<and> lock_count l = of_nat (rec_depth (ps ! j))"
  by (simp add: rec_inv_def)

text \<open>A move of the thread that owns the lock, and of one that does not own it.\<close>

lemma rec_inv_own_move:
  assumes "rec_inv N hash l ps" "i < length ps" "rec_owns (ps ! i)" "rec_pc_ok N p'"
    "rec_owns p' \<longrightarrow> rec_owner l' = hash i \<and> lock_count l' = of_nat (rec_depth p')"
    "\<not> rec_owns p' \<longrightarrow> rec_owner l' = -1 \<and> lock_count l' = 0"
  shows "rec_inv N hash l' (ps[i := p'])"
proof -
  have one: "tally rec_owns ps = 1"
    using assms(1) tally_positive [OF assms(2), of rec_owns] assms(3) by (simp add: rec_inv_def)
  have alone: "j = i" if "j < length ps" "rec_owns (ps ! j)" for j
    using tally_unique [OF _ that(1) assms(2) that(2) assms(3)] one by simp
  have "list_all (rec_pc_ok N) (ps[i := p'])"
    using assms(1,2,4) by (auto simp: rec_inv_def list_all_iff dest!: set_update_subset_insert [THEN subsetD])
  moreover have "tally rec_owns (ps[i := p']) = (if rec_owns p' then 1 else 0)"
    using tally_update [OF assms(2), of rec_owns p'] one assms(3) by (simp split: if_splits)
  ultimately show ?thesis
    using assms(2,5,6) alone by (auto simp: rec_inv_def nth_list_update)
qed

lemma rec_inv_other_move:
  assumes "rec_inv N hash l ps" "i < length ps" "\<not> rec_owns (ps ! i)" "\<not> rec_owns p'" "rec_pc_ok N p'"
  shows "rec_inv N hash l (ps[i := p'])"
proof -
  have "list_all (rec_pc_ok N) (ps[i := p'])"
    using assms(1,2,5) by (auto simp: rec_inv_def list_all_iff dest!: set_update_subset_insert [THEN subsetD])
  moreover have "tally rec_owns (ps[i := p']) = tally rec_owns ps"
    using tally_update [OF assms(2), of rec_owns p'] assms(3,4) by simp
  ultimately show ?thesis
    using assms(1,2,4) by (auto simp: rec_inv_def nth_list_update)
qed

lemma rec_inv_take_move:
  assumes "rec_inv N hash l ps" "i < length ps" "tally rec_owns ps = 0" "d < N"
    "ps ! i = Rec_take_free s d"
  shows "rec_inv N hash (l\<lparr>rec_owner := hash i\<rparr>) (ps[i := Rec_count_up d])"
proof -
  have none: "\<not> rec_owns p" if "p \<in> set ps" for p using assms(3) that by (simp add: tally_zero)
  have "d = 0" using none [OF nth_mem [OF assms(2)]] assms(5) by simp
  moreover have "list_all (rec_pc_ok N) (ps[i := Rec_count_up d])"
    using assms(1,4) by (auto simp: rec_inv_def list_all_iff dest!: set_update_subset_insert [THEN subsetD])
  moreover have "tally rec_owns (ps[i := Rec_count_up d]) = 1"
    using tally_update [OF assms(2), of rec_owns "Rec_count_up d"] assms(3) none [OF nth_mem [OF assms(2)]]
    by simp
  ultimately show ?thesis
    using assms(1-3) none by (auto simp: rec_inv_def nth_list_update)
qed

lemma rec_inv_move:
  assumes N: "N \<le> 2 ^ 32" and hash: "good_hash hash (length ps)" and inv: "rec_inv N hash l ps" and i: "i < length ps"
    and m: "(l', p') \<in> set (rec_moves N hash i l (ps ! i))"
  shows "rec_inv N hash l' (ps[i := p'])"
proof -
  have ok: "rec_pc_ok N (ps ! i)" using inv i by (simp add: rec_inv_def list_all_length)
  have neq: "hash i \<noteq> -1" using hash i by (simp add: good_hash_def)
  have free: "rec_owner l = -1 \<longleftrightarrow> tally rec_owns ps = 0"
  proof
    show "tally rec_owns ps = 0" if "rec_owner l = -1"
    proof (rule ccontr)
      assume "tally rec_owns ps \<noteq> 0"
      then obtain j where "j < length ps" "rec_owns (ps ! j)" by (auto simp: tally_zero in_set_conv_nth)
      then show False using rec_inv_owner [OF inv] hash that by (auto simp: good_hash_def)
    qed
  qed (use inv in \<open>simp add: rec_inv_def\<close>)
  have mine: "rec_owner l = hash i \<longleftrightarrow> rec_owns (ps ! i)"
  proof
    assume h: "rec_owner l = hash i"
    then have "tally rec_owns ps \<noteq> 0" using free neq by auto
    then obtain j where j: "j < length ps" "rec_owns (ps ! j)" by (auto simp: tally_zero in_set_conv_nth)
    then have "hash j = hash i" using rec_inv_owner [OF inv] h by simp
    then have "j = i" using hash j i by (auto simp: good_hash_def inj_on_def)
    then show "rec_owns (ps ! i)" using j by simp
  qed (use rec_inv_owner [OF inv i] in simp)
  note own = rec_inv_own_move [OF inv i] and other = rec_inv_other_move [OF inv i]
  note hold = rec_inv_owner [OF inv i]
  show ?thesis
  proof (cases "ps ! i")
    case (Rec_run d)
    then have "l' = l" "rec_owns p' = rec_owns (ps ! i)" "rec_depth p' = d" "rec_pc_ok N p'"
      using m ok by (auto split: if_splits)
    then show ?thesis using own [of p' l] other [of p'] hold Rec_run by (cases "rec_owns (ps ! i)") auto
  next
    case (Rec_take_free s d)
    show ?thesis
    proof (cases "rec_owner l = -1")
      case True
      then have "l' = l\<lparr>rec_owner := hash i\<rparr>" "p' = Rec_count_up d"
        using m Rec_take_free by (auto simp: rec_defs)
      then show ?thesis
        using rec_inv_take_move [OF inv i _ _ Rec_take_free] free True ok Rec_take_free by simp
    next
      case False
      then have "l' = l" "p' = Rec_take_own s d" using m Rec_take_free by (auto simp: rec_defs)
      then show ?thesis using own [of p' l] other [of p'] hold ok Rec_take_free
        by (cases "rec_owns (ps ! i)") auto
    qed
  next
    case (Rec_take_own s d)
    show ?thesis
    proof (cases "rec_owner l = hash i")
      case True
      then have "l' = l" "p' = Rec_count_up d" using m Rec_take_own by (auto simp: rec_defs)
      then show ?thesis using own [of p' l] hold ok Rec_take_own True mine by auto
    next
      case False
      then have "l' = l" "p' = Rec_take_free True d \<or> p' = Rec_run d"
        using m Rec_take_own by (auto simp: rec_defs split: if_splits)
      then show ?thesis using other [of p'] ok Rec_take_own False mine by auto
    qed
  next
    case (Rec_count_up d)
    then have "l' = rec_count_up l" "p' = Rec_run (Suc d)" using m by auto
    then show ?thesis using own [of p' l'] hold ok Rec_count_up by (auto simp: rec_defs)
  next
    case (Rec_count_down d)
    then have d: "0 < d" "d \<le> 2 ^ 32" "d \<le> N" using ok N by auto
    have z: "lock_count l - 1 = 0 \<longleftrightarrow> d = 1" and c: "lock_count l - 1 = of_nat (d - 1)"
      using hold Rec_count_down of_nat_depth_zero [OF d(2,1)] d(1) by (auto simp: of_nat_diff)
    show ?thesis
    proof (cases "d = 1")
      case True
      then have "l' = l\<lparr>lock_count := 0\<rparr>" "p' = Rec_free 0"
        using m Rec_count_down z by (auto simp: rec_defs)
      then show ?thesis using own [of p' l'] hold Rec_count_down by simp
    next
      case False
      then have "l' = l\<lparr>lock_count := of_nat (d - 1)\<rparr>" "p' = Rec_run (d - 1)"
        using m Rec_count_down z c by (auto simp: rec_defs Let_def)
      then show ?thesis using own [of p' l'] hold Rec_count_down d False by simp
    qed
  next
    case (Rec_free d)
    then have "l' = rec_free l" "p' = Rec_run 0" using m ok by auto
    then show ?thesis using own [of p' l'] hold Rec_free ok by (auto simp: rec_defs)
  qed
qed

lemma rec_inv_start: "rec_inv N hash rec_new (rec_start n)"
  by (simp add: rec_inv_def rec_new_def rec_start_def tally_replicate list_all_iff)

lemma rec_exclusive_lock:
  "N \<le> 2 ^ 32 \<Longrightarrow> good_hash hash n \<Longrightarrow> exclusive_lock (rec_moves N hash) rec_new (rec_start n) (rec_inv N hash) rec_owns"
proof unfold_locales
  show "rec_inv N hash rec_new (rec_start n)" by (rule rec_inv_start)
qed (auto simp: rec_inv_move rec_start_def, auto simp: rec_inv_def)

lemma rec_reach_inv:
  assumes "N \<le> 2 ^ 32" "good_hash hash n" "reachable (rec_moves N hash) rec_new (rec_start n) l ps"
  shows "rec_inv N hash l ps \<and> length ps = n"
  using invariant_system.reach_inv [OF exclusive_lock.axioms(1) [OF rec_exclusive_lock [OF assms(1,2)]] assms(3)]
  by (simp add: rec_start_def)

text \<open>Two threads with the same hash, or a thread whose hash is the value of the free lock: the second
  thread takes the lock while the first one has it.\<close>

lemma rec_collision_run:
  assumes "0 < N" "hash t = hash u" "t < n" "u < n" "t \<noteq> u" "hash t \<noteq> -1"
  shows "run_schedule (rec_moves N hash) (rec_new, rec_start n)
           [(t, 0), (t, 0), (t, 0), (u, 0), (u, 0), (u, 0), (u, 0)] =
         Some (\<lparr>rec_owner = hash t, lock_count = 2\<rparr>, (rec_start n)[t := Rec_run 1, u := Rec_run 1])"
  using assms by (simp add: rec_new_def rec_start_def rec_defs)

lemma rec_no_owner_run:
  assumes "0 < N" "hash t = -1" "t < n" "u < n" "t \<noteq> u"
  shows "run_schedule (rec_moves N hash) (rec_new, rec_start n)
           [(t, 0), (t, 0), (t, 0), (u, 0), (u, 0), (u, 0)] =
         Some (\<lparr>rec_owner = hash u, lock_count = 2\<rparr>, (rec_start n)[t := Rec_run 1, u := Rec_run 1])"
  using assms by (simp add: rec_new_def rec_start_def rec_defs)

text \<open>The counter wraps: a thread that nests once more than it can count frees the lock with its first
  \<open>unlock\<close>.\<close>

definition nested :: "(nat \<Rightarrow> 64 word) \<Rightarrow> nat \<Rightarrow> nat \<Rightarrow> nat \<Rightarrow> rec_lock \<times> rec_pc list" where
  "nested hash n t d = (\<lparr>rec_owner = hash t, lock_count = of_nat d\<rparr>, (rec_start n)[t := Rec_run d])"

lemma nested_first:
  assumes "0 < N" "t < n"
  shows "run_schedule (rec_moves N hash) (rec_new, rec_start n) [(t, 0), (t, 0), (t, 0)] =
    Some (nested hash n t 1)"
  using assms by (simp add: rec_new_def rec_start_def rec_defs nested_def)

lemma nested_again:
  assumes "d < N" "t < n" "hash t \<noteq> -1"
  shows "run_schedule (rec_moves N hash) (nested hash n t d) [(t, 0), (t, 0), (t, 0), (t, 0)] =
    Some (nested hash n t (Suc d))"
  using assms by (simp add: rec_start_def rec_defs nested_def add.commute)

lemma nested_reachable:
  assumes "t < n" "hash t \<noteq> -1"
  shows "0 < d \<Longrightarrow> d \<le> N \<Longrightarrow> \<exists>sch. run_schedule (rec_moves N hash) (rec_new, rec_start n) sch = Some (nested hash n t d)"
proof (induction d)
  case (Suc d)
  show ?case
  proof (cases "d = 0")
    case True
    have "run_schedule (rec_moves N hash) (rec_new, rec_start n) [(t, 0), (t, 0), (t, 0)] =
        Some (nested hash n t (Suc d))"
      using nested_first [of N t n hash] Suc.prems assms(1) True by simp
    then show ?thesis by blast
  next
    case False
    then obtain sch where "run_schedule (rec_moves N hash) (rec_new, rec_start n) sch = Some (nested hash n t d)"
      using Suc by auto
    then have "run_schedule (rec_moves N hash) (rec_new, rec_start n) (sch @ [(t, 0), (t, 0), (t, 0), (t, 0)]) =
        Some (nested hash n t (Suc d))"
      using nested_again [of d N t n hash] Suc.prems assms by (simp add: run_schedule_append)
    then show ?thesis by blast
  qed
qed simp

lemma nested_wraps:
  assumes "d = Suc (2 ^ 32)" "d \<le> N" "t < n" "u < n" "t \<noteq> u"
  shows "run_schedule (rec_moves N hash) (nested hash n t d)
      [(t, if d < N then 2 else 0), (t, 0), (t, 0), (u, 0), (u, 0), (u, 0)] =
    Some (\<lparr>rec_owner = hash u, lock_count = 1\<rparr>, (rec_start n)[t := Rec_run (2 ^ 32), u := Rec_run 1])"
proof -
  have c: "(of_nat d :: 32 word) = 1" and d: "0 < d" "d - 1 = 2 ^ 32" "0 < N" using assms(1,2) by simp_all
  have down: "rec_moves N hash t \<lparr>rec_owner = hash t, lock_count = of_nat d\<rparr> (Rec_run d) !
      (if d < N then 2 else 0) = (\<lparr>rec_owner = hash t, lock_count = of_nat d\<rparr>, Rec_count_down d)"
    using d(1) by simp
  show ?thesis
    using assms(3-5) down d
    by (simp add: nested_def rec_start_def rec_defs c)
qed

lemma rec_two_holders:
  "0 < d \<Longrightarrow> t < n \<Longrightarrow> u < n \<Longrightarrow> t \<noteq> u \<Longrightarrow>
     \<not> tally rec_owns ((rec_start n)[t := Rec_run d, u := Rec_run 1]) \<le> 1"
  using tally_unique [of rec_owns "(rec_start n)[t := Rec_run d, u := Rec_run 1]" t u]
  by (auto simp: rec_start_def)

text \<open>The lock excludes: whatever the interleaving, it has at most one owner.\<close>

definition rec_excludes :: "nat \<Rightarrow> (nat \<Rightarrow> 64 word) \<Rightarrow> nat \<Rightarrow> bool" where
  "rec_excludes N hash n \<longleftrightarrow>
     (\<forall>l ps. reachable (rec_moves N hash) rec_new (rec_start n) l ps \<longrightarrow> tally rec_owns ps \<le> 1)"

lemma rec_excludes_bound:
  assumes "rec_excludes N hash n" "0 < n" "1 < n" "hash 0 \<noteq> -1"
  shows "N \<le> 2 ^ 32"
proof (rule ccontr)
  assume N: "\<not> N \<le> 2 ^ 32"
  define d :: nat where "d = Suc (2 ^ 32)"
  have d: "0 < d" "d \<le> N" using N by (simp_all add: d_def)
  obtain sch where sch: "run_schedule (rec_moves N hash) (rec_new, rec_start n) sch = Some (nested hash n 0 d)"
    using nested_reachable [where hash = hash and t = 0, OF assms(2,4) d] by blast
  define rest :: "(nat \<times> nat) list" where "rest = [(0, if d < N then 2 else 0), (0, 0), (0, 0), (1, 0), (1, 0), (1, 0)]"
  define ps where "ps = (rec_start n)[0 := Rec_run (2 ^ 32), 1 := Rec_run 1]"
  have "run_schedule (rec_moves N hash) (nested hash n 0 d) rest =
      Some (\<lparr>rec_owner = hash 1, lock_count = 1\<rparr>, ps)"
    unfolding rest_def ps_def by (rule nested_wraps [OF d_def d(2) assms(2,3) zero_neq_one])
  then have "run_schedule (rec_moves N hash) (rec_new, rec_start n) (sch @ rest) =
      Some (\<lparr>rec_owner = hash 1, lock_count = 1\<rparr>, ps)"
    by (simp only: run_schedule_append sch option.case)
  from run_schedule_reachable [OF this] have "tally rec_owns ps \<le> 1"
    using assms(1) unfolding rec_excludes_def by blast
  moreover have "\<not> tally rec_owns ps \<le> 1"
    unfolding ps_def by (rule rec_two_holders [OF _ assms(2,3) zero_neq_one]) simp
  ultimately show False by blast
qed

text \<open>C23: the recursive spin lock excludes the threads of a program with at least two threads, in
  every interleaving of \<open>lock\<close>, \<open>try_lock\<close> and \<open>unlock\<close> with nesting, where a thread unlocks only what it
  holds, if and only if no thread may
  hold it more than \<open>2 ^ 32\<close> times at once, which is where the 32-bit counter wraps, the hashes of the
  thread ids are distinct and none is the value -1 of the free lock. The standard promises neither of
  a hash.\<close>

theorem recursive_lock_excludes_iff:
  "rec_excludes (N + 1) hash (n + 2) \<longleftrightarrow>
     N + 1 \<le> 2 ^ 32 \<and> inj_on hash {..<n + 2} \<and> -1 \<notin> hash ` {..<n + 2}"
proof (intro iffI conjI)
  assume ex: "rec_excludes (N + 1) hash (n + 2)"
  have none: False
    if "t < n + 2" "u < n + 2" "t \<noteq> u"
      "run_schedule (rec_moves (N + 1) hash) (rec_new, rec_start (n + 2)) sch =
         Some (l, (rec_start (n + 2))[t := Rec_run 1, u := Rec_run 1])" for t u sch l
    using ex run_schedule_reachable [OF that(4)] rec_two_holders [OF _ that(1-3), of 1]
    unfolding rec_excludes_def by simp
  show no_owner: "-1 \<notin> hash ` {..<n + 2}"
  proof
    assume "-1 \<in> hash ` {..<n + 2}"
    then obtain t where t: "t < n + 2" "hash t = -1" by auto
    obtain u where u: "u < n + 2" "t \<noteq> u" using that [of 0] that [of 1] by (cases t) auto
    show False by (rule none [OF t(1) u rec_no_owner_run [of "N + 1" hash, OF _ t(2,1) u]]) simp
  qed
  show "N + 1 \<le> 2 ^ 32"
  proof (rule rec_excludes_bound [OF ex _ _])
    show "hash 0 \<noteq> -1" using no_owner by (metis imageI lessThan_iff zero_less_Suc add_2_eq_Suc')
  qed simp_all
  show "inj_on hash {..<n + 2}"
  proof (rule inj_onI, rule ccontr)
    fix t u assume tu: "t \<in> {..<n + 2}" "u \<in> {..<n + 2}" "hash t = hash u" "t \<noteq> u"
    have "hash t \<noteq> -1" using no_owner tu(1) by (metis image_eqI)
    with none [OF _ _ tu(4) rec_collision_run [of "N + 1" hash, OF _ tu(3) _ _ tu(4)]] tu show False by simp
  qed
next
  assume "N + 1 \<le> 2 ^ 32 \<and> inj_on hash {..<n + 2} \<and> -1 \<notin> hash ` {..<n + 2}"
  then have "N + 1 \<le> 2 ^ 32" "good_hash hash (n + 2)" unfolding good_hash_def by (auto, metis imageI lessThan_iff)
  then show "rec_excludes (N + 1) hash (n + 2)"
    using exclusive_lock.one_owner [OF rec_exclusive_lock] unfolding rec_excludes_def by blast
qed

text \<open>What the lock stores: free exactly when no thread owns it, and otherwise the owner's hash and,
  between its calls, the number of times the owner holds it. The \<open>unlock\<close> that matches the first
  \<open>lock\<close>, and no other, frees the lock.\<close>

lemma recursive_lock_accounts:
  assumes "N \<le> 2 ^ 32" "good_hash hash n" "reachable (rec_moves N hash) rec_new (rec_start n) l ps"
  shows "(rec_owner l = -1 \<longleftrightarrow> tally rec_owns ps = 0) \<and>
    (\<forall>i < n. ps ! i = Rec_count_down d \<longrightarrow> fst (rec_count_down l) = (d = 1))"
proof (intro conjI allI impI)
  have inv: "rec_inv N hash l ps" and len: "length ps = n" using rec_reach_inv [OF assms] by auto
  show "rec_owner l = -1 \<longleftrightarrow> tally rec_owns ps = 0"
  proof
    assume l: "rec_owner l = -1"
    have "\<not> rec_owns (ps ! j)" if "j < length ps" for j
      using rec_inv_owner [OF inv that] l assms(2) len that by (auto simp: good_hash_def)
    then show "tally rec_owns ps = 0" by (metis in_set_conv_nth tally_zero)
  qed (use inv in \<open>simp add: rec_inv_def\<close>)
  fix i assume i: "i < n" "ps ! i = Rec_count_down d"
  then have "0 < d" "d \<le> 2 ^ 32" using inv len assms(1) by (auto simp: rec_inv_def list_all_length)
  then show "fst (rec_count_down l) = (d = 1)"
    using rec_inv_owner [OF inv, of i] i len of_nat_depth_zero [of d]
    by (auto simp: rec_count_down_def Let_def)
qed

end
