(* ===== verification/Rw_Lock.thy ===== *)
theory Rw_Lock
  imports Interleaving "HOL-Library.Word"
begin

text \<open>
  The reader/writer lock of \<open>concurrent/rw_lock.hpp\<close>. The functions named like the members are the
  stretches of their bodies between two atomic accesses; the moves tie them together.
\<close>

subsection \<open>The operations\<close>

unbundle bit_operations_syntax

definition write_lock_bit :: "32 word" where
  "write_lock_bit = 0x80000000"

definition read_bits_mask :: "32 word" where
  "read_bits_mask = NOT write_lock_bit"

definition rw_new :: "32 word" where
  "rw_new = 0"

definition readers :: "32 word \<Rightarrow> 32 word" where
  "readers lk = lk AND read_bits_mask"

text \<open>\<open>unlock\<close>: what it does with the value it loaded, and its exchange.\<close>

definition unlock_is_write :: "32 word \<Rightarrow> bool" where
  "unlock_is_write iOriginal = (write_lock_bit = iOriginal)"

definition unlock_exchange :: "32 word \<Rightarrow> 32 word \<Rightarrow> bool \<times> 32 word" where
  "unlock_exchange iOriginal lk =
     (let (ok, lk, iOriginal) = compare_exchange_strong lk iOriginal (iOriginal - 1) in (ok, lk))"

text \<open>\<open>lock_read\<close> and \<open>try_lock_read\<close>: the value they load and their exchange.\<close>

definition read_load :: "32 word \<Rightarrow> 32 word" where
  "read_load lk = lk AND read_bits_mask"

definition read_exchange :: "32 word \<Rightarrow> 32 word \<Rightarrow> bool \<times> 32 word" where
  "read_exchange iOriginal lk =
     (let (ok, lk, iOriginal) = compare_exchange_strong lk iOriginal (1 + iOriginal) in (ok, lk))"

text \<open>A turn of the loop of \<open>lock_write\<close>: the exchange, and what it leaves in \<open>iOriginal\<close>, which is
  declared before the loop.\<close>

definition write_turn :: "32 word \<Rightarrow> 32 word \<Rightarrow> bool \<times> 32 word \<times> 32 word" where
  "write_turn iOriginal lk = compare_exchange_strong lk iOriginal write_lock_bit"

definition try_lock_write :: "32 word \<Rightarrow> bool \<times> 32 word" where
  "try_lock_write lk =
     (let iOriginal = 0; (ok, lk, iOriginal) = compare_exchange_strong lk iOriginal write_lock_bit
      in (ok, lk))"

text \<open>Where a thread is. In \<open>unlock\<close> it is remembered whether the lock is held to read or to write.\<close>

datatype rw_pc =
    Rw_idle
  | Reading
  | Writing
  | Read_load bool
  | Read_exchange bool "32 word"
  | Write_turn "32 word"
  | Try_write
  | Unlock_load bool
  | Unlock_store bool
  | Unlock_exchange bool "32 word"

text \<open>The calls a thread may make when it holds nothing; the flag says if they include \<open>lock_write\<close>.\<close>

definition rw_calls :: "bool \<Rightarrow> rw_pc list" where
  "rw_calls blocking_write =
     [Read_load True, Read_load False, Try_write] @ (if blocking_write then [Write_turn 0] else [])"

fun rw_moves :: "bool \<Rightarrow> (32 word, rw_pc) moves" where
  "rw_moves w i lk Rw_idle = map (Pair lk) (rw_calls w)"
| "rw_moves w i lk Reading = [(lk, Unlock_load False)]"
| "rw_moves w i lk Writing = [(lk, Unlock_load True)]"
| "rw_moves w i lk (Read_load spin) = [(lk, Read_exchange spin (read_load lk))]"
| "rw_moves w i lk (Read_exchange spin iOriginal) =
     (let (ok, lk) = read_exchange iOriginal lk
      in [(lk, if ok then Reading else if spin then Read_load True else Rw_idle)])"
| "rw_moves w i lk (Write_turn iOriginal) =
     (let (ok, lk, iOriginal) = write_turn iOriginal lk
      in [(lk, if ok then Writing else Write_turn iOriginal)])"
| "rw_moves w i lk Try_write =
     (let (ok, lk) = try_lock_write lk in [(lk, if ok then Writing else Rw_idle)])"
| "rw_moves w i lk (Unlock_load wr) =
     [(lk, if unlock_is_write lk then Unlock_store wr else Unlock_exchange wr lk)]"
| "rw_moves w i lk (Unlock_store wr) = [(0, Rw_idle)]"
| "rw_moves w i lk (Unlock_exchange wr iOriginal) =
     (let (ok, lk) = unlock_exchange iOriginal lk in [(lk, if ok then Rw_idle else Unlock_load wr)])"

definition rw_start :: "nat \<Rightarrow> rw_pc list" where
  "rw_start n = replicate n Rw_idle"

lemmas rw_defs = unlock_is_write_def unlock_exchange_def read_load_def read_exchange_def write_turn_def
  try_lock_write_def compare_exchange_strong_def

text \<open>A thread owns the lock until the store or the exchange of its \<open>unlock\<close>.\<close>

fun reads :: "rw_pc \<Rightarrow> bool" where
  "reads Reading = True"
| "reads (Unlock_load wr) = (\<not> wr)"
| "reads (Unlock_store wr) = (\<not> wr)"
| "reads (Unlock_exchange wr iOriginal) = (\<not> wr)"
| "reads p = False"

fun writes :: "rw_pc \<Rightarrow> bool" where
  "writes Writing = True"
| "writes (Unlock_load wr) = wr"
| "writes (Unlock_store wr) = wr"
| "writes (Unlock_exchange wr iOriginal) = wr"
| "writes p = False"

subsection \<open>Without the blocking write\<close>

text \<open>The lock with fewer than \<open>2 ^ 31\<close> threads, none of which calls \<open>lock_write\<close>.\<close>

fun rw_pc_ok :: "rw_pc \<Rightarrow> bool" where
  "rw_pc_ok (Read_exchange spin iOriginal) = (unat iOriginal < 2 ^ 31)"
| "rw_pc_ok (Write_turn iOriginal) = False"
| "rw_pc_ok (Unlock_store wr) = wr"
| "rw_pc_ok (Unlock_exchange wr iOriginal) = (\<not> wr \<and> iOriginal \<noteq> write_lock_bit)"
| "rw_pc_ok p = True"

definition rw_inv :: "32 word \<Rightarrow> rw_pc list \<Rightarrow> bool" where
  "rw_inv lk ps \<longleftrightarrow> list_all rw_pc_ok ps \<and>
     (if lk = write_lock_bit then tally writes ps = 1 \<and> tally reads ps = 0
      else tally writes ps = 0 \<and> tally reads ps = unat lk)"

lemma read_bits_mask_eq: "read_bits_mask = mask 31"
  by (simp add: read_bits_mask_def write_lock_bit_def mask_eq_exp_minus_1)

lemma read_load_bound: "unat (read_load lk) < 2 ^ 31"
  by (simp only: read_load_def read_bits_mask_eq flip: take_bit_eq_mask)
    (simp only: unsigned_take_bit_eq take_bit_nat_less_exp)

lemma unat_write_lock_bit: "unat write_lock_bit = 2 ^ 31"
  by (simp add: write_lock_bit_def)

lemma rw_pc_ok_update: "list_all rw_pc_ok ps \<Longrightarrow> rw_pc_ok p \<Longrightarrow> list_all rw_pc_ok (ps[i := p])"
  by (auto simp: list_all_iff dest!: set_update_subset_insert [THEN subsetD])

text \<open>A move that leaves the lock as it is, and the moves that take or release it.\<close>

lemma rw_inv_still:
  assumes "rw_inv lk ps" "i < length ps" "rw_pc_ok p" "reads p = reads (ps ! i)" "writes p = writes (ps ! i)"
  shows "rw_inv lk (ps[i := p])"
  using assms tally_update [OF assms(2), of reads p] tally_update [OF assms(2), of writes p]
  by (simp add: rw_inv_def rw_pc_ok_update split: if_splits)

lemma rw_inv_write:
  assumes "rw_inv 0 ps" "i < length ps" "\<not> writes (ps ! i)" "\<not> reads (ps ! i)"
  shows "rw_inv write_lock_bit (ps[i := Writing])"
proof -
  have "(0 :: 32 word) \<noteq> write_lock_bit" by (simp add: write_lock_bit_def)
  then show ?thesis
    using assms tally_update [OF assms(2), of reads Writing] tally_update [OF assms(2), of writes Writing]
    by (simp add: rw_inv_def rw_pc_ok_update)
qed

lemma rw_inv_read:
  assumes "rw_inv lk ps" "i < length ps" "\<not> writes (ps ! i)" "\<not> reads (ps ! i)" "unat lk < 2 ^ 31"
    "length ps < 2 ^ 31"
  shows "rw_inv (1 + lk) (ps[i := Reading])"
proof -
  have lk: "lk \<noteq> write_lock_bit" using assms(5) unat_write_lock_bit by auto
  have up: "tally reads (ps[i := Reading]) = Suc (tally reads ps)"
    using tally_update [OF assms(2), of reads Reading] assms(4) by simp
  have n: "unat (1 + lk) = Suc (unat lk)"
    using assms(5) by (simp add: unat_word_ariths)
  have "Suc (unat lk) < 2 ^ 31"
    using up tally_length [of reads "ps[i := Reading]"] assms(1,6) lk by (simp add: rw_inv_def)
  then have "1 + lk \<noteq> write_lock_bit" using n unat_write_lock_bit by auto
  then show ?thesis
    using assms(1-3) lk up n tally_update [OF assms(2), of writes Reading]
    by (simp add: rw_inv_def rw_pc_ok_update)
qed

lemma rw_inv_unread:
  assumes "rw_inv lk ps" "i < length ps" "reads (ps ! i)" "\<not> writes (ps ! i)" "lk \<noteq> write_lock_bit"
    "length ps < 2 ^ 31"
  shows "rw_inv (lk - 1) (ps[i := Rw_idle])"
proof -
  have down: "Suc (tally reads (ps[i := Rw_idle])) = tally reads ps"
    using tally_update [OF assms(2), of reads Rw_idle] assms(3) by simp
  have "tally reads ps = unat lk" using assms(1,5) by (simp add: rw_inv_def)
  moreover have "unat lk < 2 ^ 31"
    using tally_length [of reads ps] assms(6) calculation by simp
  moreover have "unat (lk - 1) = unat lk - 1"
    using down calculation by (intro unat_minus_one) auto
  ultimately have "unat (lk - 1) = tally reads (ps[i := Rw_idle])" "lk - 1 \<noteq> write_lock_bit"
    using down unat_write_lock_bit by auto
  then show ?thesis
    using assms(1,2,4,5) tally_update [OF assms(2), of writes Rw_idle]
    by (simp add: rw_inv_def rw_pc_ok_update)
qed

lemma rw_inv_unwrite:
  assumes "rw_inv lk ps" "i < length ps" "writes (ps ! i)" "\<not> reads (ps ! i)"
  shows "rw_inv 0 (ps[i := Rw_idle])"
proof -
  have "lk = write_lock_bit"
    using assms(1,3) tally_positive [OF assms(2), of writes] by (auto simp: rw_inv_def split: if_splits)
  moreover have "(0 :: 32 word) \<noteq> write_lock_bit" by (simp add: write_lock_bit_def)
  ultimately show ?thesis
    using assms tally_update [OF assms(2), of reads Rw_idle] tally_update [OF assms(2), of writes Rw_idle]
    by (simp add: rw_inv_def rw_pc_ok_update)
qed

lemma rw_inv_move:
  assumes inv: "rw_inv lk ps" and n: "length ps < 2 ^ 31" and i: "i < length ps"
    and m: "(lk', p') \<in> set (rw_moves False i lk (ps ! i))"
  shows "rw_inv lk' (ps[i := p'])"
proof -
  have ok: "rw_pc_ok (ps ! i)" using inv i by (simp add: rw_inv_def list_all_length)
  have w: "writes (ps ! i) \<Longrightarrow> lk = write_lock_bit" and r: "reads (ps ! i) \<Longrightarrow> lk \<noteq> write_lock_bit"
    using inv tally_positive [OF i, of writes] tally_positive [OF i, of reads]
    by (auto simp: rw_inv_def split: if_splits)
  note still = rw_inv_still [OF inv i, of p']
  show ?thesis
  proof (cases "ps ! i")
    case (Read_exchange spin iOriginal)
    then show ?thesis
      using still rw_inv_read [OF inv i _ _ _ n] ok m by (auto simp: rw_defs split: if_splits)
  next
    case Try_write
    then show ?thesis
      using still rw_inv_write [OF _ i, of] inv m by (auto simp: rw_defs split: if_splits)
  next
    case (Unlock_store wr)
    then show ?thesis using rw_inv_unwrite [OF inv i] ok m by simp
  next
    case (Unlock_exchange wr iOriginal)
    then show ?thesis
      using still rw_inv_unread [OF inv i _ _ _ n] ok m by (auto simp: rw_defs split: if_splits)
  next
    case (Unlock_load wr)
    then show ?thesis using still w r m by (cases wr) (auto simp: rw_defs split: if_splits)
  qed (use still ok m read_load_bound in \<open>auto simp: rw_calls_def\<close>)
qed

lemma rw_inv_start: "rw_inv rw_new (rw_start n)"
  by (auto simp: rw_inv_def rw_new_def rw_start_def tally_replicate list_all_iff write_lock_bit_def)

lemma rw_system:
  "n < 2 ^ 31 \<Longrightarrow> invariant_system (rw_moves False) rw_new (rw_start n) rw_inv"
proof unfold_locales
  show "rw_inv rw_new (rw_start n)" by (rule rw_inv_start)
qed (rule rw_inv_move, simp_all add: rw_start_def)

text \<open>While nobody writes, \<open>readers\<close> counts the threads that hold the lock to read.\<close>

lemma readers_counts:
  assumes "n < 2 ^ 31" "reachable (rw_moves False) rw_new (rw_start n) lk ps"
  shows "unat (readers lk) = tally reads ps"
proof -
  have inv: "rw_inv lk ps" and len: "length ps = n"
    using invariant_system.reach_inv [OF rw_system [OF assms(1)] assms(2)] by (auto simp: rw_start_def)
  show ?thesis
  proof (cases "lk = write_lock_bit")
    case True
    then show ?thesis using inv by (simp add: rw_inv_def readers_def read_bits_mask_def)
  next
    case False
    then have lk: "unat lk = tally reads ps" "unat lk < 2 ^ 31"
      using inv tally_length [of reads ps] assms(1) len by (auto simp: rw_inv_def)
    have "take_bit 31 lk = lk" using lk(2) by (metis take_bit_nat_eq_self unsigned_take_bit_eq word_unat_eq_iff)
    then show ?thesis using lk(1) by (simp add: readers_def read_bits_mask_eq flip: take_bit_eq_mask)
  qed
qed

text \<open>A writer excludes every other thread.\<close>

definition excluded :: "rw_pc list \<Rightarrow> bool" where
  "excluded ps \<longleftrightarrow> tally writes ps = 0 \<or> (tally writes ps = 1 \<and> tally reads ps = 0)"

definition rw_excludes :: "bool \<Rightarrow> nat \<Rightarrow> bool" where
  "rw_excludes w n \<longleftrightarrow>
     (\<forall>lk ps. reachable (rw_moves w) rw_new (rw_start n) lk ps \<longrightarrow> excluded ps)"

subsection \<open>Too many readers\<close>

text \<open>The number of readers and the writer's bit share the word: \<open>2 ^ 31\<close> readers look like a
  writer.\<close>

lemma rw_read_run:
  assumes "i < length ps" "ps ! i = Rw_idle" "read_load lk = lk"
  shows "reachable (rw_moves w) lk ps (1 + lk) (ps[i := Reading])"
  by (rule run_schedule_reachable [of _ _ _ "[(i, 1), (i, 0), (i, 0)]"])
    (use assms in \<open>simp add: rw_calls_def read_exchange_def compare_exchange_strong_def\<close>)

lemma read_load_small: "k < 2 ^ 31 \<Longrightarrow> read_load (of_nat k) = of_nat k"
proof -
  assume k: "k < 2 ^ 31"
  have "take_bit 31 (of_nat k :: 32 word) = of_nat (take_bit 31 k)" by (simp add: of_nat_take_bit)
  also have "take_bit 31 k = k" using k by (simp add: take_bit_nat_eq_self_iff)
  finally show ?thesis
    by (simp add: read_load_def read_bits_mask_eq flip: take_bit_eq_mask)
qed

lemma rw_readers_run:
  "k \<le> n \<Longrightarrow> k \<le> 2 ^ 31 \<Longrightarrow>
     reachable (rw_moves w) rw_new (rw_start n) (of_nat k) (replicate k Reading @ replicate (n - k) Rw_idle)"
proof (induction k)
  case 0
  show ?case by (simp add: rw_new_def rw_start_def reachable_refl)
next
  case (Suc k)
  let ?ps = "replicate k Reading @ replicate (n - k) Rw_idle"
  have "?ps[k := Reading] = replicate (Suc k) Reading @ replicate (n - Suc k) Rw_idle"
    using Suc.prems(1)
    by (simp add: list_update_append replicate_append_same Suc_diff_Suc [symmetric] flip: replicate_Suc)
      (simp add: replicate_append_same)
  moreover have "?ps ! k = Rw_idle" "k < length ?ps" using Suc.prems(1) by (simp_all add: nth_append)
  moreover have "reachable (rw_moves w) (of_nat k) ?ps (1 + of_nat k) (?ps[k := Reading])"
    using calculation read_load_small [of k] Suc.prems(2) by (intro rw_read_run) simp_all
  ultimately show ?case using Suc.IH Suc.prems reachable_trans by fastforce
qed

lemma rw_overflow_run:
  assumes "ps ! 0 = Reading" "0 < length ps"
  shows "reachable (rw_moves w) write_lock_bit ps write_lock_bit (ps[0 := Writing])"
  by (rule run_schedule_reachable [of _ _ _ "[(0, 0), (0, 0), (0, 0), (0, 2), (0, 0)]"])
    (use assms in \<open>simp add: rw_calls_def rw_defs write_lock_bit_def\<close>)

text \<open>C24: without \<open>lock_write\<close>, in every interleaving of \<open>lock_read\<close>, \<open>try_lock_read\<close>,
  \<open>try_lock_write\<close> and \<open>unlock\<close>, a writer excludes every other thread if and only if the program has
  fewer than \<open>2 ^ 31\<close> threads: the reader of that number sets the writer's bit, the next \<open>unlock\<close> of a
  reader frees the lock, and a writer enters beside the other readers.\<close>

theorem rw_lock_excludes_iff: "rw_excludes False n \<longleftrightarrow> n < 2 ^ 31"
proof
  assume n: "n < 2 ^ 31"
  show "rw_excludes False n"
    unfolding rw_excludes_def
  proof (intro allI impI)
    fix lk ps assume "reachable (rw_moves False) rw_new (rw_start n) lk ps"
    then have "rw_inv lk ps" using invariant_system.reach_inv [OF rw_system [OF n]] by blast
    then show "excluded ps" by (auto simp: rw_inv_def excluded_def split: if_splits)
  qed
next
  assume ex: "rw_excludes False n"
  show "n < 2 ^ 31"
  proof (rule ccontr)
    assume "\<not> n < 2 ^ 31"
    moreover have "of_nat (2 ^ 31) = write_lock_bit" by (simp add: write_lock_bit_def)
    ultimately obtain K where K: "K \<le> n" "2 \<le> K" "K \<le> 2 ^ 31" "of_nat K = write_lock_bit"
      using that [of "2 ^ 31"] by simp
    let ?ps = "replicate K Reading @ replicate (n - K) Rw_idle"
    have "reachable (rw_moves False) rw_new (rw_start n) write_lock_bit ?ps"
      using rw_readers_run [OF K(1,3)] K(4) by metis
    moreover have "reachable (rw_moves False) write_lock_bit ?ps write_lock_bit (?ps[0 := Writing])"
      using K by (intro rw_overflow_run) (simp_all add: nth_append)
    ultimately have "reachable (rw_moves False) rw_new (rw_start n) write_lock_bit (?ps[0 := Writing])"
      by (rule reachable_trans)
    then have "excluded (?ps[0 := Writing])" using ex unfolding rw_excludes_def by blast
    moreover have "0 < tally writes (?ps[0 := Writing])" "0 < tally reads (?ps[0 := Writing])"
      using K tally_positive [of 0 "?ps[0 := Writing]" writes] tally_positive [of 1 "?ps[0 := Writing]" reads]
      by (simp_all add: nth_append)
    ultimately show False by (simp add: excluded_def)
  qed
qed

subsection \<open>The blocking write\<close>

text \<open>\<open>lock_write\<close> takes the lock whoever holds it: its first exchange fails and leaves the value
  of the lock in \<open>iOriginal\<close>, so the second turn of the loop succeeds, in any state of the other
  threads in which they do not move between.\<close>

theorem rw_lock_write_seizes:
  assumes "lk \<noteq> 0" "i < length ps" "ps ! i = Rw_idle"
  shows "run_schedule (rw_moves True) (lk, ps) [(i, 3), (i, 0), (i, 0)] =
           Some (write_lock_bit, ps[i := Writing])"
  using assms by (simp add: rw_calls_def write_turn_def compare_exchange_strong_def)

text \<open>Two writers, and a writer beside a reader.\<close>

theorem rw_lock_write_seizes_witness:
  "run_schedule (rw_moves True) (rw_new, rw_start (Suc (Suc 0))) [(0, 3), (0, 0)] =
     Some (write_lock_bit, [Writing, Rw_idle]) \<and>
   run_schedule (rw_moves True) (write_lock_bit, [Writing, Rw_idle]) [(1, 3), (1, 0), (1, 0)] =
     Some (write_lock_bit, [Writing, Writing]) \<and>
   run_schedule (rw_moves True) (rw_new, rw_start (Suc (Suc 0))) [(0, 0), (0, 0), (0, 0)] =
     Some (1, [Reading, Rw_idle]) \<and>
   run_schedule (rw_moves True) (1, [Reading, Rw_idle]) [(1, 3), (1, 0), (1, 0)] =
     Some (write_lock_bit, [Reading, Writing])"
  using rw_lock_write_seizes [of write_lock_bit 1 "[Writing, Rw_idle]"]
    rw_lock_write_seizes [of 1 1 "[Reading, Rw_idle]"]
  by (simp add: rw_start_def rw_calls_def rw_defs rw_new_def write_lock_bit_def read_bits_mask_def)

end
