(* ===== verification/Stack.thy ===== *)
theory Stack
  imports Interleaving
begin

text \<open>
  The lock-free stack of \<open>concurrent/stack.hpp\<close>: threads that push and pop, cut at their accesses of
  the root and of the nodes. Nodes live on a heap; a deleted node has no cell, and a thread that
  reads one is \<open>Stack_dangling\<close>. The allocator is a parameter: \<open>alloc i h\<close> is the address that
  \<open>new\<close> gives thread \<open>i\<close> in the heap \<open>h\<close>, some address that is not in use.
\<close>

subsection \<open>The stack and its threads\<close>

record 'v node =
  node_next :: "nat option"
  node_value :: 'v

type_synonym 'v nodes = "nat \<Rightarrow> 'v node option"

record 'v stack =
  root :: "nat option"
  nodes :: "'v nodes"

definition new_stack :: "'v stack" where
  "new_stack = \<lparr>root = None, nodes = Map.empty\<rparr>"

datatype 'v job = Push 'v | Pop | Try_pop

text \<open>The points of a thread carry the calls it has still to make, the current one included, and the
  values it has popped: before a call; in \<open>push\<close>, with the node, at the load of the root and at the
  exchange; in \<open>try_pop\<close>, with the node \<open>oTmp\<close>, at the read of its link, at the exchange, at the read
  of its value and at its deletion.\<close>

datatype 'v stack_pc =
    Stack_run "'v job list" "'v list"
  | Push_load nat "'v job list" "'v list"
  | Push_exchange nat "'v job list" "'v list"
  | Pop_next nat "'v job list" "'v list"
  | Pop_exchange nat "nat option" "'v job list" "'v list"
  | Pop_value nat "'v job list" "'v list"
  | Pop_delete nat 'v "'v job list" "'v list"
  | Stack_dangling

text \<open>A failed \<open>try_pop\<close> returns; \<open>pop\<close> calls it again.\<close>

fun pop_failed :: "'v job list \<Rightarrow> 'v job list" where
  "pop_failed (Try_pop # js) = js"
| "pop_failed js = js"

definition push_new :: "nat \<Rightarrow> 'v \<Rightarrow> 'v stack \<Rightarrow> 'v stack" where
  "push_new pNode v s = s\<lparr>nodes := (nodes s)(pNode \<mapsto> \<lparr>node_next = None, node_value = v\<rparr>)\<rparr>"

definition push_load :: "nat \<Rightarrow> 'v node \<Rightarrow> 'v stack \<Rightarrow> 'v stack" where
  "push_load pNode n s = s\<lparr>nodes := (nodes s)(pNode \<mapsto> n\<lparr>node_next := root s\<rparr>)\<rparr>"

definition push_exchange :: "nat \<Rightarrow> 'v node \<Rightarrow> 'v stack \<Rightarrow> bool \<times> 'v stack" where
  "push_exchange pNode n s =
     (let (ok, r, nx) = compare_exchange_strong (root s) (node_next n) (Some pNode)
      in (ok, s\<lparr>root := r, nodes := (nodes s)(pNode \<mapsto> n\<lparr>node_next := nx\<rparr>)\<rparr>))"

definition pop_exchange :: "nat \<Rightarrow> nat option \<Rightarrow> 'v stack \<Rightarrow> bool \<times> 'v stack" where
  "pop_exchange oTmp nx s =
     (let (ok, r, _) = compare_exchange_strong (root s) (Some oTmp) nx in (ok, s\<lparr>root := r\<rparr>))"

definition delete_node :: "nat \<Rightarrow> 'v stack \<Rightarrow> 'v stack" where
  "delete_node oTmp s = s\<lparr>nodes := (nodes s)(oTmp := None)\<rparr>"

fun stack_moves :: "(nat \<Rightarrow> 'v nodes \<Rightarrow> nat) \<Rightarrow> ('v stack, 'v stack_pc) moves" where
  "stack_moves alloc i s (Stack_run [] got) = []"
| "stack_moves alloc i s (Stack_run (Push v # js) got) =
     (let pNode = alloc i (nodes s) in [(push_new pNode v s, Push_load pNode (Push v # js) got)])"
| "stack_moves alloc i s (Stack_run js got) =
     [(s, case root s of None \<Rightarrow> Stack_run (pop_failed js) got | Some oTmp \<Rightarrow> Pop_next oTmp js got)]"
| "stack_moves alloc i s (Push_load pNode js got) =
     (case nodes s pNode of
        None \<Rightarrow> [(s, Stack_dangling)]
      | Some n \<Rightarrow> [(push_load pNode n s, Push_exchange pNode js got)])"
| "stack_moves alloc i s (Push_exchange pNode js got) =
     (case nodes s pNode of
        None \<Rightarrow> [(s, Stack_dangling)]
      | Some n \<Rightarrow>
          (let (ok, s) = push_exchange pNode n s
           in [(s, if ok then Stack_run (tl js) got else Push_load pNode js got)]))"
| "stack_moves alloc i s (Pop_next oTmp js got) =
     (case nodes s oTmp of
        None \<Rightarrow> [(s, Stack_dangling)]
      | Some n \<Rightarrow> [(s, Pop_exchange oTmp (node_next n) js got)])"
| "stack_moves alloc i s (Pop_exchange oTmp nx js got) =
     (let (ok, s) = pop_exchange oTmp nx s
      in [(s, if ok then Pop_value oTmp js got else Stack_run (pop_failed js) got)])"
| "stack_moves alloc i s (Pop_value oTmp js got) =
     (case nodes s oTmp of
        None \<Rightarrow> [(s, Stack_dangling)]
      | Some n \<Rightarrow> [(s, Pop_delete oTmp (node_value n) js got)])"
| "stack_moves alloc i s (Pop_delete oTmp v js got) =
     [(delete_node oTmp s, Stack_run (tl js) (got @ [v]))]"
| "stack_moves alloc i s Stack_dangling = []"

lemmas stack_defs = push_new_def push_load_def push_exchange_def pop_exchange_def delete_node_def
  compare_exchange_strong_def

definition stack_start :: "'v job list list \<Rightarrow> 'v stack_pc list" where
  "stack_start jobs = map (\<lambda>js. Stack_run js []) jobs"

subsection \<open>The atomic stack\<close>

text \<open>The specification: a list, on which a push and a pop each take one step. A \<open>try_pop\<close> may fail
  even when there is something to pop, because another thread was faster.\<close>

fun atomic_moves :: "('v list, 'v job list \<times> 'v list) moves" where
  "atomic_moves i st ([], got) = []"
| "atomic_moves i st (Push v # js, got) = [(v # st, (js, got))]"
| "atomic_moves i st (Pop # js, got) =
     (case st of [] \<Rightarrow> [] | v # rest \<Rightarrow> [(rest, (js, got @ [v]))])"
| "atomic_moves i st (Try_pop # js, got) =
     (st, (js, got)) # (case st of [] \<Rightarrow> [] | v # rest \<Rightarrow> [(rest, (js, got @ [v]))])"

definition atomic_start :: "'v job list list \<Rightarrow> ('v job list \<times> 'v list) list" where
  "atomic_start jobs = map (\<lambda>js. (js, [])) jobs"

text \<open>The nodes from the root on, and the thread of the specification that a thread stands for: a push
  takes effect at its exchange, a pop too, although it reads the value later.\<close>

fun linked_list :: "'v nodes \<Rightarrow> nat option \<Rightarrow> nat list \<Rightarrow> bool" where
  "linked_list h r [] = (r = None)"
| "linked_list h r (a # as) =
     (r = Some a \<and> (case h a of None \<Rightarrow> False | Some n \<Rightarrow> linked_list h (node_next n) as))"

definition value_at :: "'v nodes \<Rightarrow> nat \<Rightarrow> 'v" where
  "value_at h a = node_value (the (h a))"

fun atomic_pc :: "'v nodes \<Rightarrow> 'v stack_pc \<Rightarrow> 'v job list \<times> 'v list" where
  "atomic_pc h (Stack_run js got) = (js, got)"
| "atomic_pc h (Push_load a js got) = (js, got)"
| "atomic_pc h (Push_exchange a js got) = (js, got)"
| "atomic_pc h (Pop_next a js got) = (js, got)"
| "atomic_pc h (Pop_exchange a nx js got) = (js, got)"
| "atomic_pc h (Pop_value a js got) = (tl js, got @ [value_at h a])"
| "atomic_pc h (Pop_delete a v js got) = (tl js, got @ [v])"
| "atomic_pc h Stack_dangling = ([], [])"

subsection \<open>The invariant\<close>

fun pops :: "'v job \<Rightarrow> bool" where
  "pops (Push v) = False"
| "pops Pop = True"
| "pops Try_pop = True"

fun popper :: "'v stack_pc \<Rightarrow> bool" where
  "popper (Stack_run js got) = list_ex pops js"
| "popper (Push_load a js got) = list_ex pops js"
| "popper (Push_exchange a js got) = list_ex pops js"
| "popper Stack_dangling = False"
| "popper p = True"

text \<open>The node that a thread has for itself.\<close>

fun own_node :: "'v stack_pc \<Rightarrow> nat option" where
  "own_node (Push_load a js got) = Some a"
| "own_node (Push_exchange a js got) = Some a"
| "own_node (Pop_value a js got) = Some a"
| "own_node (Pop_delete a v js got) = Some a"
| "own_node p = None"

definition pop_job :: "'v job list \<Rightarrow> bool" where
  "pop_job js \<longleftrightarrow> js \<noteq> [] \<and> pops (hd js)"

definition push_job :: "'v \<Rightarrow> 'v job list \<Rightarrow> bool" where
  "push_job v js \<longleftrightarrow> js \<noteq> [] \<and> hd js = Push v"

text \<open>What a thread relies on, with \<open>xs\<close> the nodes of the stack.\<close>

fun pc_needs :: "'v nodes \<Rightarrow> nat list \<Rightarrow> 'v stack_pc \<Rightarrow> bool" where
  "pc_needs h xs (Stack_run js got) = True"
| "pc_needs h xs (Push_load a js got) = push_job (value_at h a) js"
| "pc_needs h xs (Push_exchange a js got) = push_job (value_at h a) js"
| "pc_needs h xs (Pop_next a js got) = (pop_job js \<and> a \<in> set xs)"
| "pc_needs h xs (Pop_exchange a nx js got) = (pop_job js \<and> a \<in> set xs \<and> node_next (the (h a)) = nx)"
| "pc_needs h xs (Pop_value a js got) = pop_job js"
| "pc_needs h xs (Pop_delete a v js got) = (pop_job js \<and> value_at h a = v)"
| "pc_needs h xs Stack_dangling = False"

definition pc_safe :: "'v nodes \<Rightarrow> nat list \<Rightarrow> 'v stack_pc \<Rightarrow> bool" where
  "pc_safe h xs p \<longleftrightarrow> pc_needs h xs p \<and> (\<forall>a. own_node p = Some a \<longrightarrow> a \<in> dom h \<and> a \<notin> set xs)"

definition stack_inv :: "nat list \<Rightarrow> 'v stack \<Rightarrow> 'v stack_pc list \<Rightarrow> bool" where
  "stack_inv xs s ps \<longleftrightarrow>
     finite (dom (nodes s)) \<and> distinct xs \<and> linked_list (nodes s) (root s) xs \<and> tally popper ps \<le> 1 \<and>
     (\<forall>j < length ps. pc_safe (nodes s) xs (ps ! j)) \<and>
     (\<forall>a \<in> dom (nodes s). a \<in> set xs \<or> (\<exists>j < length ps. own_node (ps ! j) = Some a)) \<and>
     (\<forall>j < length ps. \<forall>k < length ps. j \<noteq> k \<longrightarrow> own_node (ps ! j) \<noteq> None \<longrightarrow>
        own_node (ps ! j) \<noteq> own_node (ps ! k))"

lemma linked_list_dom: "linked_list h r xs \<Longrightarrow> set xs \<subseteq> dom h"
  by (induction xs arbitrary: r) (auto split: option.splits)

lemma linked_list_same:
  "linked_list h r xs \<Longrightarrow> (\<And>a. a \<in> set xs \<Longrightarrow> h' a = h a) \<Longrightarrow> linked_list h' r xs"
  by (induction xs arbitrary: r) (auto split: option.splits)

lemma linked_list_root: "linked_list h r xs \<Longrightarrow> r = (case xs of [] \<Rightarrow> None | a # as \<Rightarrow> Some a)"
  by (cases xs) auto

lemma values_same:
  "(\<And>a. a \<in> set xs \<Longrightarrow> h' a = h a) \<Longrightarrow> map (value_at h') xs = map (value_at h) xs"
  by (simp add: value_at_def)

lemma pc_safe_frame:
  assumes "pc_safe h xs p"
    and own: "\<And>a. own_node p = Some a \<Longrightarrow> h' a = h a \<and> a \<notin> set xs'"
    and popper: "popper p \<Longrightarrow> set xs \<subseteq> set xs' \<and> (\<forall>a \<in> set xs. h' a = h a)"
  shows "pc_safe h' xs' p"
proof -
  have o: "a \<in> dom h' \<and> a \<notin> set xs' \<and> value_at h' a = value_at h a" if "own_node p = Some a" for a
    using own [OF that] assms(1) that by (auto simp: pc_safe_def value_at_def dom_def)
  have x: "a \<in> set xs' \<and> h' a = h a" if "popper p" "a \<in> set xs" for a
    using popper that by blast
  have "pc_needs h' xs' p"
    using assms(1) o x by (cases p) (simp_all add: pc_safe_def)
  then show ?thesis using o by (simp add: pc_safe_def)
qed

lemma atomic_pc_frame:
  "(\<And>a. own_node p = Some a \<Longrightarrow> h' a = h a) \<Longrightarrow> atomic_pc h' p = atomic_pc h p"
  by (cases p) (auto simp: value_at_def)

text \<open>A thread may change its own node, take a new one, and, if it is the popper, take one off the
  stack.\<close>

definition changes_own :: "nat option \<Rightarrow> nat list \<Rightarrow> 'v nodes \<Rightarrow> nat list \<Rightarrow> 'v nodes \<Rightarrow> bool" where
  "changes_own own xs h xs' h' \<longleftrightarrow>
     (\<forall>a. a \<in> dom h \<longrightarrow> own \<noteq> Some a \<longrightarrow> h' a = h a \<and> (a \<notin> set xs \<longrightarrow> a \<notin> set xs'))"

lemma stack_inv_update:
  assumes inv: "stack_inv xs s ps" and i: "i < length ps"
    and shape: "finite (dom (nodes s'))" "distinct xs'" "linked_list (nodes s') (root s') xs'"
    and p': "popper p' \<Longrightarrow> popper (ps ! i)" "pc_safe (nodes s') xs' p'"
    and own: "\<And>a. own_node p' = Some a \<Longrightarrow>
      own_node (ps ! i) = Some a \<or> a \<notin> dom (nodes s) \<or> a \<in> set xs"
    and frame: "changes_own (own_node (ps ! i)) xs (nodes s) xs' (nodes s')"
    and popping: "popper (ps ! i) \<or> set xs \<subseteq> set xs'"
    and account: "\<And>a. a \<in> dom (nodes s') \<Longrightarrow> a \<in> set xs' \<or> own_node p' = Some a \<or>
      (a \<in> dom (nodes s) \<and> own_node (ps ! i) \<noteq> Some a \<and> a \<notin> set xs)"
  shows "stack_inv xs' s' (ps[i := p']) \<and>
    (\<forall>j < length ps. j \<noteq> i \<longrightarrow> atomic_pc (nodes s') (ps ! j) = atomic_pc (nodes s) (ps ! j))"
proof -
  have safe: "pc_safe (nodes s) xs (ps ! j)" if "j < length ps" for j
    using inv that by (simp add: stack_inv_def)
  have apart: "own_node (ps ! j) \<noteq> own_node (ps ! k)"
    if "j < length ps" "k < length ps" "j \<noteq> k" "own_node (ps ! j) \<noteq> None" for j k
    using inv that unfolding stack_inv_def by blast
  have kept: "nodes s' a = nodes s a \<and> a \<notin> set xs' \<and> a \<in> dom (nodes s) \<and> a \<notin> set xs"
    if "j < length ps" "j \<noteq> i" "own_node (ps ! j) = Some a" for j a
  proof -
    have "a \<in> dom (nodes s)" "a \<notin> set xs" using safe [OF that(1)] that(3) by (auto simp: pc_safe_def)
    moreover have "own_node (ps ! i) \<noteq> Some a" using apart [OF that(1) i that(2)] that(3) by auto
    ultimately show ?thesis using frame unfolding changes_own_def by blast
  qed
  have xs: "nodes s' a = nodes s a" if "a \<in> set xs" for a
  proof -
    have "a \<in> dom (nodes s)" using inv that linked_list_dom unfolding stack_inv_def by blast
    moreover have "own_node (ps ! i) \<noteq> Some a" using safe [OF i] that by (auto simp: pc_safe_def)
    ultimately show ?thesis using frame unfolding changes_own_def by blast
  qed
  have others: "pc_safe (nodes s') xs' (ps ! j)" if "j < length ps" "j \<noteq> i" for j
  proof (rule pc_safe_frame [OF safe [OF that(1)]])
    assume "popper (ps ! j)"
    then have "\<not> popper (ps ! i)" using inv tally_unique [of popper ps i j] i that by (auto simp: stack_inv_def)
    then show "set xs \<subseteq> set xs' \<and> (\<forall>a \<in> set xs. nodes s' a = nodes s a)" using popping xs by blast
  qed (use kept [OF that] in blast)
  have apart': "own_node p' \<noteq> own_node (ps ! j)" if "j < length ps" "j \<noteq> i" and some: "own_node p' \<noteq> None" for j
  proof
    assume eq: "own_node p' = own_node (ps ! j)"
    obtain a where a: "own_node p' = Some a" using some by blast
    have "own_node (ps ! i) = Some a" using own [OF a] kept [OF that(1,2), of a] a eq by auto
    then show False using apart [OF i that(1)] that(2) a eq by auto
  qed
  have "tally popper (ps[i := p']) \<le> 1"
    using inv tally_update [OF i, of popper p'] p'(1) by (auto simp: stack_inv_def split: if_splits)
  moreover have "a \<in> set xs' \<or> (\<exists>j < length ps. own_node (ps[i := p'] ! j) = Some a)"
    if a: "a \<in> dom (nodes s')" for a
  proof -
    consider "a \<in> set xs'" | "own_node p' = Some a"
      | "a \<in> dom (nodes s)" "own_node (ps ! i) \<noteq> Some a" "a \<notin> set xs"
      using account [OF a] by blast
    then show ?thesis
    proof cases
      case 2
      then show ?thesis using i by (intro disjI2 exI [of _ i]) simp
    next
      case 3
      then obtain j where "j < length ps" "own_node (ps ! j) = Some a"
        using inv unfolding stack_inv_def by blast
      then show ?thesis using 3(2) by (intro disjI2 exI [of _ j]) (auto simp: nth_list_update i)
    qed blast
  qed
  moreover have "pc_safe (nodes s') xs' (ps[i := p'] ! j)" if "j < length ps" for j
    using p'(2) others [of j] that by (cases "j = i") simp_all
  moreover have "own_node (ps[i := p'] ! j) \<noteq> own_node (ps[i := p'] ! k)"
    if "j < length ps" "k < length ps" "j \<noteq> k" "own_node (ps[i := p'] ! j) \<noteq> None" for j k
  proof (cases "j = i")
    case True
    then show ?thesis using apart' [of k] that i by simp
  next
    case j: False
    show ?thesis
    proof (cases "k = i")
      case True
      then show ?thesis using apart' [of j] that i j by (cases "own_node p'") auto
    next
      case False
      then show ?thesis using apart [of j k] that j by simp
    qed
  qed
  ultimately have "stack_inv xs' s' (ps[i := p'])"
    unfolding stack_inv_def using shape by auto
  moreover have "atomic_pc (nodes s') (ps ! j) = atomic_pc (nodes s) (ps ! j)"
    if "j < length ps" "j \<noteq> i" for j
    by (rule atomic_pc_frame) (use kept [OF that] in blast)
  ultimately show ?thesis by blast
qed

subsection \<open>The simulation\<close>

definition simulates ::
  "nat list \<Rightarrow> 'v stack \<Rightarrow> 'v stack_pc \<Rightarrow> nat list \<Rightarrow> 'v stack \<Rightarrow> 'v stack_pc \<Rightarrow> bool" where
  "simulates xs s p xs' s' p' \<longleftrightarrow>
     (let old = (map (value_at (nodes s)) xs, atomic_pc (nodes s) p);
          new = (map (value_at (nodes s')) xs', atomic_pc (nodes s') p')
      in new = old \<or> new \<in> set (atomic_moves 0 (fst old) (snd old)))"

definition stack_step ::
  "nat \<Rightarrow> nat list \<Rightarrow> 'v stack \<Rightarrow> 'v stack_pc list \<Rightarrow> 'v stack \<Rightarrow> 'v stack_pc \<Rightarrow> bool" where
  "stack_step i xs s ps s' p' \<longleftrightarrow>
     (\<exists>xs'. stack_inv xs' s' (ps[i := p']) \<and>
        (\<forall>j < length ps. j \<noteq> i \<longrightarrow> atomic_pc (nodes s') (ps ! j) = atomic_pc (nodes s) (ps ! j)) \<and>
        simulates xs s (ps ! i) xs' s' p')"

lemma stack_stepI:
  "stack_inv xs' s' (ps[i := p']) \<and>
     (\<forall>j < length ps. j \<noteq> i \<longrightarrow> atomic_pc (nodes s') (ps ! j) = atomic_pc (nodes s) (ps ! j)) \<Longrightarrow>
   simulates xs s (ps ! i) xs' s' p' \<Longrightarrow> stack_step i xs s ps s' p'"
  unfolding stack_step_def by blast

lemma stack_invE:
  assumes "stack_inv xs s ps" "i < length ps"
  obtains "finite (dom (nodes s))" "distinct xs" "linked_list (nodes s) (root s) xs"
    "pc_safe (nodes s) xs (ps ! i)" "set xs \<subseteq> dom (nodes s)"
  using assms linked_list_dom unfolding stack_inv_def by blast

text \<open>A step that changes nothing shared.\<close>

lemma step_still:
  assumes inv: "stack_inv xs s ps" "i < length ps"
    and p': "popper p' \<Longrightarrow> popper (ps ! i)" "pc_needs (nodes s) xs p'"
      "own_node p' = own_node (ps ! i)"
    and sim: "atomic_pc (nodes s) p' = atomic_pc (nodes s) (ps ! i) \<or>
      (map (value_at (nodes s)) xs, atomic_pc (nodes s) p') \<in>
        set (atomic_moves 0 (map (value_at (nodes s)) xs) (atomic_pc (nodes s) (ps ! i)))"
  shows "stack_step i xs s ps s p'"
proof (rule stack_stepI)
  from stack_invE [OF inv] have st: "finite (dom (nodes s))" "distinct xs"
    "linked_list (nodes s) (root s) xs" "pc_safe (nodes s) xs (ps ! i)" by metis+
  show "stack_inv xs s (ps[i := p']) \<and>
    (\<forall>j < length ps. j \<noteq> i \<longrightarrow> atomic_pc (nodes s) (ps ! j) = atomic_pc (nodes s) (ps ! j))"
  proof (rule stack_inv_update [OF inv])
    show "pc_safe (nodes s) xs p'"
      using st(4) p'(2,3) by (auto simp: pc_safe_def)
  qed (use p' st in \<open>auto simp: changes_own_def\<close>)
  show "simulates xs s (ps ! i) xs s p'" using sim by (auto simp: simulates_def)
qed

text \<open>A step that writes a node of the thread's own, or a new one.\<close>

lemma step_write:
  assumes inv: "stack_inv xs s ps" "i < length ps"
    and a: "own_node (ps ! i) = Some a \<or> (own_node (ps ! i) = None \<and> a \<notin> dom (nodes s))"
    and s': "nodes s' = (nodes s)(a \<mapsto> n)" "root s' = root s"
    and p': "popper p' \<Longrightarrow> popper (ps ! i)" "own_node p' = Some a" "pc_needs (nodes s') xs p'"
    and sim: "atomic_pc (nodes s') p' = atomic_pc (nodes s) (ps ! i)"
  shows "stack_step i xs s ps s' p'"
proof -
  from stack_invE [OF inv] have st: "finite (dom (nodes s))" "distinct xs"
    "linked_list (nodes s) (root s) xs" "pc_safe (nodes s) xs (ps ! i)" "set xs \<subseteq> dom (nodes s)"
    by metis+
  have xs: "a \<notin> set xs" using a st(4,5) by (auto simp: pc_safe_def)
  then have same: "nodes s' b = nodes s b" if "b \<in> set xs" for b using that s' by auto
  show ?thesis
  proof (rule stack_stepI)
    show "stack_inv xs s' (ps[i := p']) \<and>
      (\<forall>j < length ps. j \<noteq> i \<longrightarrow> atomic_pc (nodes s') (ps ! j) = atomic_pc (nodes s) (ps ! j))"
    proof (rule stack_inv_update [OF inv])
      show "linked_list (nodes s') (root s') xs" using st(3) s'(2) linked_list_same same by metis
      show "pc_safe (nodes s') xs p'" using p' xs s' by (simp add: pc_safe_def)
      show "changes_own (own_node (ps ! i)) xs (nodes s) xs (nodes s')"
        using a s'(1) by (auto simp: changes_own_def)
    qed (use p' st s' a in auto)
    show "simulates xs s (ps ! i) xs s' p'"
      using sim values_same [of xs, OF same] by (simp add: simulates_def)
  qed
qed

text \<open>The exchange of a push.\<close>

lemma step_push:
  assumes inv: "stack_inv xs s ps" "i < length ps"
    and p: "ps ! i = Push_exchange a js got" "nodes s a = Some n" "node_next n = root s"
  shows "stack_step i xs s ps (s\<lparr>root := Some a, nodes := (nodes s)(a \<mapsto> n)\<rparr>) (Stack_run (tl js) got)"
proof -
  let ?s' = "s\<lparr>root := Some a, nodes := (nodes s)(a \<mapsto> n)\<rparr>"
  from stack_invE [OF inv] have st: "finite (dom (nodes s))" "distinct xs"
    "linked_list (nodes s) (root s) xs" "pc_safe (nodes s) xs (ps ! i)" by metis+
  have same: "nodes ?s' = nodes s" using p(2) by auto
  have xs: "a \<notin> set xs" "push_job (value_at (nodes s) a) js" using st(4) p(1) by (auto simp: pc_safe_def)
  then obtain v rest where v: "js = Push v # rest" "value_at (nodes s) a = v"
    unfolding push_job_def by (metis list.collapse)
  show ?thesis
  proof (rule stack_stepI)
    show "stack_inv (a # xs) ?s' (ps[i := Stack_run (tl js) got]) \<and>
      (\<forall>j < length ps. j \<noteq> i \<longrightarrow> atomic_pc (nodes ?s') (ps ! j) = atomic_pc (nodes s) (ps ! j))"
    proof (rule stack_inv_update [OF inv])
      show "linked_list (nodes ?s') (root ?s') (a # xs)" using st(3) p(2,3) same by simp
      show "popper (ps ! i)" if "popper (Stack_run (tl js) got)" using that v p(1) by simp
      show "changes_own (own_node (ps ! i)) xs (nodes s) (a # xs) (nodes ?s')"
        using same p(1) by (auto simp: changes_own_def)
    qed (use st xs same p(1) in \<open>auto simp: pc_safe_def\<close>)
    show "simulates xs s (ps ! i) (a # xs) ?s' (Stack_run (tl js) got)"
      unfolding simulates_def same p(1) using v by simp
  qed
qed

text \<open>The exchange of a pop.\<close>

lemma step_pop:
  assumes inv: "stack_inv xs s ps" "i < length ps"
    and p: "ps ! i = Pop_exchange a nx js got" "root s = Some a"
  shows "stack_step i xs s ps (s\<lparr>root := nx\<rparr>) (Pop_value a js got)"
proof -
  from stack_invE [OF inv] have st: "finite (dom (nodes s))" "distinct xs"
    "linked_list (nodes s) (root s) xs" "pc_safe (nodes s) xs (ps ! i)" "set xs \<subseteq> dom (nodes s)"
    by metis+
  have needs: "pop_job js" "node_next (the (nodes s a)) = nx" using st(4) p(1) by (auto simp: pc_safe_def)
  obtain ys where xs: "xs = a # ys" "linked_list (nodes s) nx ys"
    using st(3) p(2) needs(2) by (cases xs) (auto split: option.splits)
  obtain j rest where js: "js = j # rest" "pops j" using needs(1) unfolding pop_job_def by (cases js) auto
  show ?thesis
  proof (rule stack_stepI)
    show "stack_inv ys (s\<lparr>root := nx\<rparr>) (ps[i := Pop_value a js got]) \<and>
      (\<forall>k < length ps. k \<noteq> i \<longrightarrow>
         atomic_pc (nodes (s\<lparr>root := nx\<rparr>)) (ps ! k) = atomic_pc (nodes s) (ps ! k))"
      by (rule stack_inv_update [OF inv]) (use st xs needs p in \<open>auto simp: pc_safe_def changes_own_def\<close>)
    show "simulates xs s (ps ! i) ys (s\<lparr>root := nx\<rparr>) (Pop_value a js got)"
      using js p(1) xs by (cases j) (auto simp: simulates_def)
  qed
qed

text \<open>The deletion of a popped node.\<close>

lemma step_delete:
  assumes inv: "stack_inv xs s ps" "i < length ps" and p: "ps ! i = Pop_delete a v js got"
  shows "stack_step i xs s ps (delete_node a s) (Stack_run (tl js) (got @ [v]))"
proof -
  from stack_invE [OF inv] have st: "finite (dom (nodes s))" "distinct xs"
    "linked_list (nodes s) (root s) xs" "pc_safe (nodes s) xs (ps ! i)" by metis+
  have xs: "a \<notin> set xs" using st(4) p by (auto simp: pc_safe_def)
  then have same: "nodes (delete_node a s) b = nodes s b" if "b \<in> set xs" for b
    using that by (auto simp: delete_node_def)
  show ?thesis
  proof (rule stack_stepI)
    show "stack_inv xs (delete_node a s) (ps[i := Stack_run (tl js) (got @ [v])]) \<and>
      (\<forall>j < length ps. j \<noteq> i \<longrightarrow>
         atomic_pc (nodes (delete_node a s)) (ps ! j) = atomic_pc (nodes s) (ps ! j))"
    proof (rule stack_inv_update [OF inv])
      show "linked_list (nodes (delete_node a s)) (root (delete_node a s)) xs"
        using linked_list_same [OF st(3) same] by (simp add: delete_node_def fun_upd_def)
    qed (use st p in \<open>auto simp: pc_safe_def changes_own_def delete_node_def\<close>)
    show "simulates xs s (ps ! i) xs (delete_node a s) (Stack_run (tl js) (got @ [v]))"
      using values_same [of xs, OF same] p by (simp add: simulates_def)
  qed
qed

lemma pop_job_simps [simp]: "pop_job (j # js) = pops j" "push_job v (j # js) = (j = Push v)"
  by (simp_all add: pop_job_def push_job_def)

lemma pop_job_cases:
  assumes "pop_job js"
  obtains rest where "js = Pop # rest" | rest where "js = Try_pop # rest"
  using assms by (cases js rule: pop_failed.cases) (auto simp: pop_job_def elim: pops.elims)

lemma stack_move_step:
  assumes alloc: "\<And>h. finite (dom h) \<Longrightarrow> alloc i h \<notin> dom h"
    and inv: "stack_inv xs s ps" "i < length ps"
    and m: "(s', p') \<in> set (stack_moves alloc i s (ps ! i))"
  shows "stack_step i xs s ps s' p'"
proof -
  from stack_invE [OF inv] have st: "finite (dom (nodes s))" "linked_list (nodes s) (root s) xs"
    "pc_safe (nodes s) xs (ps ! i)" "set xs \<subseteq> dom (nodes s)" by metis+
  note still = step_still [OF inv]
  show ?thesis
  proof (cases "ps ! i")
    case (Stack_run js got)
    show ?thesis
    proof (cases "pop_job js")
      case True
      then obtain j where j: "js = j # tl js" "pops j" by (cases js) (auto simp: pop_job_def)
      show ?thesis
      proof (cases "root s")
        case None
        then have "s' = s" "p' = Stack_run (pop_failed js) got"
          using m Stack_run True by (auto elim!: pop_job_cases)
        then show ?thesis using still Stack_run True by (elim pop_job_cases) auto
      next
        case (Some a)
        then have "s' = s" "p' = Pop_next a js got"
          using m Stack_run True by (auto elim!: pop_job_cases)
        moreover have "a \<in> set xs" using st(2) Some by (cases xs) auto
        ultimately show ?thesis using still Stack_run True by (elim pop_job_cases) auto
      qed
    next
      case False
      then obtain v rest where js: "js = Push v # rest"
        using m Stack_run by (cases js; cases "hd js") (auto simp: pop_job_def)
      then have s': "s' = push_new (alloc i (nodes s)) v s" "p' = Push_load (alloc i (nodes s)) js got"
        using m Stack_run by (auto simp: Let_def)
      show ?thesis
        by (rule step_write [OF inv])
          (use s' js alloc [OF st(1)] Stack_run in \<open>auto simp: push_new_def push_job_def value_at_def\<close>)
    qed
  next
    case (Push_load a js got)
    then obtain n where n: "nodes s a = Some n" using st(3) by (auto simp: pc_safe_def)
    then have s': "s' = push_load a n s" "p' = Push_exchange a js got" using m Push_load by auto
    show ?thesis
      by (rule step_write [OF inv, of a _ "n\<lparr>node_next := root s\<rparr>"])
        (use s' n st(3) Push_load in \<open>auto simp: push_load_def pc_safe_def value_at_def push_job_def\<close>)
  next
    case (Push_exchange a js got)
    then obtain n where n: "nodes s a = Some n" using st(3) by (auto simp: pc_safe_def)
    show ?thesis
    proof (cases "root s = node_next n")
      case True
      then have "s' = s\<lparr>root := Some a, nodes := (nodes s)(a \<mapsto> n)\<rparr>" "p' = Stack_run (tl js) got"
        using m n Push_exchange by (auto simp: stack_defs)
      then show ?thesis using step_push [OF inv Push_exchange n] True by simp
    next
      case False
      then have s': "s' = s\<lparr>nodes := (nodes s)(a \<mapsto> n\<lparr>node_next := root s\<rparr>)\<rparr>" "p' = Push_load a js got"
        using m n Push_exchange by (auto simp: stack_defs)
      show ?thesis
        by (rule step_write [OF inv, of a _ "n\<lparr>node_next := root s\<rparr>"])
          (use s' n st(3) Push_exchange in \<open>auto simp: pc_safe_def value_at_def push_job_def\<close>)
    qed
  next
    case (Pop_next a js got)
    then have "pop_job js" "a \<in> set xs" using st(3) by (auto simp: pc_safe_def)
    moreover from this obtain n where n: "nodes s a = Some n" using st(4) by blast
    moreover have "s' = s" "p' = Pop_exchange a (node_next n) js got" using m n Pop_next by auto
    ultimately show ?thesis using still Pop_next by (elim pop_job_cases) auto
  next
    case (Pop_exchange a nx js got)
    then have js: "pop_job js" using st(3) by (auto simp: pc_safe_def)
    show ?thesis
    proof (cases "root s = Some a")
      case True
      then have "s' = s\<lparr>root := nx\<rparr>" "p' = Pop_value a js got"
        using m Pop_exchange by (auto simp: stack_defs)
      then show ?thesis using step_pop [OF inv Pop_exchange True] by simp
    next
      case False
      then have "s' = s" "p' = Stack_run (pop_failed js) got"
        using m Pop_exchange by (auto simp: stack_defs)
      then show ?thesis using still Pop_exchange js by (elim pop_job_cases) auto
    qed
  next
    case (Pop_value a js got)
    then obtain n where n: "nodes s a = Some n" using st(3) by (auto simp: pc_safe_def)
    then have "s' = s" "p' = Pop_delete a (node_value n) js got" using m Pop_value by auto
    then show ?thesis using still Pop_value n st(3) by (auto simp: pc_safe_def value_at_def)
  next
    case (Pop_delete a v js got)
    then show ?thesis using step_delete [OF inv Pop_delete] m by simp
  qed (use m in simp)
qed

subsection \<open>What the stack promises\<close>

text \<open>The state of the specification that a state of the stack stands for has been reached by it.\<close>

definition linearized :: "'v job list list \<Rightarrow> 'v stack \<Rightarrow> 'v stack_pc list \<Rightarrow> nat list \<Rightarrow> bool" where
  "linearized jobs s ps xs \<longleftrightarrow>
     reachable atomic_moves [] (atomic_start jobs)
       (map (value_at (nodes s)) xs) (map (atomic_pc (nodes s)) ps)"

lemma atomic_moves_thread: "atomic_moves i = atomic_moves 0"
proof (intro ext)
  fix st :: "'v list" and p :: "'v job list \<times> 'v list"
  show "atomic_moves i st p = atomic_moves 0 st p"
    by (cases "(i, st, p)" rule: atomic_moves.cases) auto
qed

lemma linearized_step:
  assumes "linearized jobs s ps xs" "i < length ps" "simulates xs s (ps ! i) xs' s' p'"
    "\<forall>j < length ps. j \<noteq> i \<longrightarrow> atomic_pc (nodes s') (ps ! j) = atomic_pc (nodes s) (ps ! j)"
  shows "linearized jobs s' (ps[i := p']) xs'"
proof -
  let ?ps = "map (atomic_pc (nodes s)) ps" and ?st = "map (value_at (nodes s)) xs"
  have upd: "map (atomic_pc (nodes s')) (ps[i := p']) = ?ps[i := atomic_pc (nodes s') p']"
    using assms(2,4) by (intro nth_equalityI) (auto simp: nth_list_update)
  from assms(3) consider
      (same) "map (value_at (nodes s')) xs' = ?st" "atomic_pc (nodes s') p' = atomic_pc (nodes s) (ps ! i)"
    | (move) "(map (value_at (nodes s')) xs', atomic_pc (nodes s') p') \<in> set (atomic_moves i ?st (?ps ! i))"
    unfolding atomic_moves_thread [of i] using assms(2) by (auto simp: simulates_def)
  then show ?thesis
  proof cases
    case same
    then have "?ps[i := atomic_pc (nodes s') p'] = ?ps" using assms(2) by (simp add: list_update_same_conv)
    then show ?thesis using assms(1) same(1) upd by (simp add: linearized_def)
  next
    case move
    have "reachable atomic_moves ?st ?ps (map (value_at (nodes s')) xs') (?ps[i := atomic_pc (nodes s') p'])"
      using reachable_step [where moves = atomic_moves and i = i and ps = ?ps and s = ?st, OF _ _ reachable_refl]
        move assms(2) by simp
    then show ?thesis using assms(1) reachable_trans upd unfolding linearized_def by metis
  qed
qed

definition good_alloc :: "(nat \<Rightarrow> 'v nodes \<Rightarrow> nat) \<Rightarrow> bool" where
  "good_alloc alloc \<longleftrightarrow> (\<forall>i h. finite (dom h) \<longrightarrow> alloc i h \<notin> dom h)"

lemma stack_system:
  assumes "good_alloc alloc" "tally (list_ex pops) jobs \<le> 1"
  shows "invariant_system (stack_moves alloc) new_stack (stack_start jobs)
    (\<lambda>s ps. \<exists>xs. stack_inv xs s ps \<and> linearized jobs s ps xs)"
proof
  have "tally popper (stack_start jobs) = tally (list_ex pops) jobs"
    unfolding tally_def stack_start_def by (simp add: filter_map o_def)
  then have "stack_inv [] new_stack (stack_start jobs)"
    using assms(2) by (simp add: stack_inv_def new_stack_def stack_start_def pc_safe_def)
  moreover have "linearized jobs new_stack (stack_start jobs) []"
    by (simp add: linearized_def stack_start_def atomic_start_def o_def reachable_refl)
  ultimately show "\<exists>xs. stack_inv xs new_stack (stack_start jobs) \<and> linearized jobs new_stack (stack_start jobs) xs"
    by blast
next
  fix s :: "'a stack" and ps i s' p'
  assume "\<exists>xs. stack_inv xs s ps \<and> linearized jobs s ps xs" and i: "i < length ps"
    and m: "(s', p') \<in> set (stack_moves alloc i s (ps ! i))"
  then obtain xs where xs: "stack_inv xs s ps" "linearized jobs s ps xs" by blast
  have "stack_step i xs s ps s' p'"
    by (rule stack_move_step [OF _ xs(1) i m]) (use assms(1) in \<open>simp add: good_alloc_def\<close>)
  then show "\<exists>xs. stack_inv xs s' (ps[i := p']) \<and> linearized jobs s' (ps[i := p']) xs"
    unfolding stack_step_def using linearized_step [OF xs(2) i] by blast
qed

text \<open>C21: any number of threads that push and at most one that pops, in any interleaving and with any
  allocator that may reuse deleted nodes: the stack is linearizable. Every reachable state holds the
  values, and has returned the values, of a state that the atomic stack reaches with the same calls;
  and no thread reads a deleted node.\<close>

theorem stack_single_popper_linearizes:
  assumes "good_alloc alloc" "tally (list_ex pops) jobs \<le> 1"
    "reachable (stack_moves alloc) new_stack (stack_start jobs) s ps"
  shows "(\<exists>xs. linked_list (nodes s) (root s) xs \<and>
      reachable atomic_moves [] (atomic_start jobs)
        (map (value_at (nodes s)) xs) (map (atomic_pc (nodes s)) ps)) \<and>
    Stack_dangling \<notin> set ps"
proof -
  obtain xs where xs: "stack_inv xs s ps" "linearized jobs s ps xs"
    using invariant_system.reach_inv [OF stack_system [OF assms(1,2)] assms(3)] by blast
  have "p \<noteq> Stack_dangling" if "p \<in> set ps" for p
    using xs(1) that unfolding stack_inv_def in_set_conv_nth pc_safe_def by fastforce
  moreover have "linked_list (nodes s) (root s) xs" using xs(1) by (simp add: stack_inv_def)
  ultimately show ?thesis using xs(2) unfolding linearized_def by blast
qed

definition least_free :: "nat \<Rightarrow> 'v nodes \<Rightarrow> nat" where
  "least_free i h = (LEAST a. a \<notin> dom h)"

lemma least_free_good: "good_alloc least_free"
  unfolding good_alloc_def least_free_def
proof (intro allI impI)
  fix h :: "'v nodes" assume "finite (dom h)"
  then obtain a where "a \<notin> dom h" using ex_new_if_finite [OF infinite_UNIV_nat] by blast
  then show "(LEAST a. a \<notin> dom h) \<notin> dom h" by (rule LeastI)
qed

text \<open>A thread pushes a value and another one pops it.\<close>

lemma stack_run_example:
  "run_schedule (stack_moves alloc) (new_stack, stack_start [[Push v], [Pop]])
     [(0, 0), (0, 0), (0, 0), (1, 0), (1, 0), (1, 0), (1, 0), (1, 0)] =
   Some (new_stack, [Stack_run [] [], Stack_run [] [v]])"
  by (simp add: new_stack_def stack_start_def stack_defs Let_def)

theorem stack_single_popper_linearizes_witness:
  "reachable atomic_moves [] (atomic_start [[Push (7 :: nat)], [Pop]]) [] [([], []), ([], [7])]"
proof -
  obtain xs where "linked_list (nodes (new_stack :: nat stack)) (root (new_stack :: nat stack)) xs"
    "reachable atomic_moves [] (atomic_start [[Push (7 :: nat)], [Pop]])
       (map (value_at (nodes (new_stack :: nat stack))) xs) [([], []), ([], [7])]"
    using stack_single_popper_linearizes
      [OF least_free_good _ run_schedule_reachable [OF stack_run_example [of least_free "7 :: nat"]]]
    by (auto simp: tally_def)
  then show ?thesis by (cases xs) (auto simp: new_stack_def)
qed

text \<open>Two threads that pop, with any allocator: one reads the root, the other one pops the node
  and deletes it, and the first one reads the link of the deleted node.\<close>

theorem stack_two_poppers_read_deleted:
  "run_schedule (stack_moves alloc) (new_stack, stack_start [[Push v], [Pop], [Pop]])
     [(0, 0), (0, 0), (0, 0), (1, 0), (2, 0), (2, 0), (2, 0), (2, 0), (2, 0), (1, 0)] =
   Some (new_stack, [Stack_run [] [], Stack_dangling, Stack_run [] [v]])"
  by (simp add: new_stack_def stack_start_def stack_defs Let_def)

subsection \<open>Destruction and moves\<close>

text \<open>The destructor, which runs while no thread uses the stack: the loop deletes the node that it has
  taken off. \<open>None\<close> is a deleted node that is read; the fuel bounds the turns.\<close>

fun stack_destroy :: "nat \<Rightarrow> 'v stack \<Rightarrow> 'v stack option" where
  "stack_destroy fuel s =
     (case root s of
        None \<Rightarrow> Some s
      | Some pNode \<Rightarrow>
          (case (fuel, nodes s pNode) of
             (Suc fuel, Some n) \<Rightarrow>
               (let (ok, s) = pop_exchange pNode (node_next n) s
                in stack_destroy fuel (if ok then delete_node pNode s else s))
           | _ \<Rightarrow> None))"

declare stack_destroy.simps [simp del]

lemma stack_destroy_ok:
  "linked_list (nodes s) (root s) xs \<Longrightarrow> distinct xs \<Longrightarrow> length xs \<le> fuel \<Longrightarrow>
     stack_destroy fuel s = Some \<lparr>root = None, nodes = (nodes s) |` (- set xs)\<rparr>"
proof (induction xs arbitrary: fuel s)
  case Nil
  then have "s = \<lparr>root = None, nodes = nodes s\<rparr>" by simp
  then show ?case using Nil by (subst stack_destroy.simps) (simp add: restrict_map_def)
next
  case (Cons a xs)
  then obtain n f where n: "root s = Some a" "nodes s a = Some n" "linked_list (nodes s) (node_next n) xs"
    "fuel = Suc f" "length xs \<le> f" by (cases fuel) (auto split: option.splits)
  let ?s = "delete_node a (s\<lparr>root := node_next n\<rparr>)"
  have "linked_list (nodes ?s) (root ?s) xs"
    by (rule linked_list_same [of "nodes s"]) (use n(3) Cons.prems(2) in \<open>auto simp: delete_node_def\<close>)
  moreover have "(nodes ?s) |` (- set xs) = (nodes s) |` (- set (a # xs))"
    by (auto simp: delete_node_def restrict_map_def fun_eq_iff)
  ultimately have "stack_destroy f ?s = Some \<lparr>root = None, nodes = (nodes s) |` (- set (a # xs))\<rparr>"
    using Cons.IH n(5) Cons.prems(2) by simp
  then show ?case
    by (subst stack_destroy.simps) (simp add: n pop_exchange_def compare_exchange_strong_def)
qed

text \<open>The move constructor: the new stack, and the source.\<close>

definition stack_move :: "'v stack \<Rightarrow> nat option \<times> 'v stack" where
  "stack_move src = (let r = root src in (r, src\<lparr>root := None\<rparr>))"

text \<open>After any such run, when every thread is done, destroying the stack returns and leaves no
  node allocated: nothing leaks and nothing is deleted twice.\<close>

theorem stack_destructor_frees_all:
  assumes "good_alloc alloc" "tally (list_ex pops) jobs \<le> 1"
    "reachable (stack_moves alloc) new_stack (stack_start jobs) s ps" "\<forall>p \<in> set ps. \<exists>got. p = Stack_run [] got"
  shows "\<exists>fuel. stack_destroy fuel s = Some new_stack"
proof -
  obtain xs where xs: "stack_inv xs s ps"
    using invariant_system.reach_inv [OF stack_system [OF assms(1,2)] assms(3)] by blast
  have "own_node p = None" if "p \<in> set ps" for p using assms(4) that by auto
  then have "dom (nodes s) \<subseteq> set xs" using xs unfolding stack_inv_def by (metis nth_mem option.distinct(1) subsetI)
  then have "(nodes s) |` (- set xs) = Map.empty" by (auto simp: restrict_map_def fun_eq_iff)
  then show ?thesis
    using stack_destroy_ok [of s xs "length xs"] xs by (auto simp: stack_inv_def new_stack_def)
qed

theorem stack_destructor_frees_all_witness:
  "\<exists>fuel. stack_destroy fuel \<lparr>root = Some 0, nodes = [0 \<mapsto> \<lparr>node_next = None, node_value = 7 :: nat\<rparr>]\<rparr> =
     Some new_stack"
proof -
  have "least_free 0 (\<lambda>a. None :: nat node option) = 0" by (simp add: least_free_def)
  then have "run_schedule (stack_moves least_free) (new_stack, stack_start [[Push (7 :: nat)]])
      [(0, 0), (0, 0), (0, 0)] =
    Some (\<lparr>root = Some 0, nodes = [0 \<mapsto> \<lparr>node_next = None, node_value = 7\<rparr>]\<rparr>, [Stack_run [] []])"
    by (simp add: new_stack_def stack_start_def stack_defs Let_def)
  from stack_destructor_frees_all [OF least_free_good _ run_schedule_reachable [OF this]]
  show ?thesis by (simp add: tally_def)
qed

end
