(* ===== verification/Bytes.thy ===== *)
theory Bytes
  imports "HOL-Library.Word"
begin

text \<open>
  The object representation of a number as the machines of the program have it: a fixed number of bytes,
  the lowest first.
\<close>

type_synonym bytes = "8 word list"

fun nat_bytes :: "nat \<Rightarrow> nat \<Rightarrow> bytes" where
  "nat_bytes 0 n = []"
| "nat_bytes (Suc k) n = of_nat n # nat_bytes k (n div 256)"

fun bytes_nat :: "bytes \<Rightarrow> nat" where
  "bytes_nat [] = 0"
| "bytes_nat (b # bs) = unat b + 256 * bytes_nat bs"

lemma length_nat_bytes [simp]: "length (nat_bytes k n) = k"
  by (induction k arbitrary: n) auto

lemma bytes_nat_bytes: "bytes_nat (nat_bytes k n) = n mod 256 ^ k"
proof (induction k arbitrary: n)
  case (Suc k)
  have "unat (of_nat n :: 8 word) = n mod 256" by (simp add: unat_of_nat)
  then show ?case using Suc by (simp add: mod_mult2_eq)
qed simp

lemma nat_bytes_nat: "length bs = k \<Longrightarrow> nat_bytes k (bytes_nat bs) = bs"
proof (induction bs arbitrary: k)
  case (Cons b bs)
  obtain j where k: "k = Suc j" "length bs = j" using Cons.prems by (cases k) auto
  have b: "unat b < 256" using unsigned_less [of b] by simp
  have z: "(256 :: 8 word) = 0" by simp
  have "(of_nat (unat b + 256 * bytes_nat bs) :: 8 word) = b + 256 * of_nat (bytes_nat bs)" by simp
  then have "(of_nat (unat b + 256 * bytes_nat bs) :: 8 word) = b" unfolding z by simp
  then show ?case using Cons.IH [OF k(2)] k b by simp
qed simp

lemma bytes_nat_less: "bytes_nat bs < 256 ^ length bs"
proof (induction bs)
  case (Cons b bs)
  have "unat b < 256" using unsigned_less [of b] by simp
  moreover have "256 * (bytes_nat bs + 1) \<le> 256 * 256 ^ length bs" using Cons by (intro mult_le_mono2) simp
  ultimately show ?case by simp
qed simp

text \<open>The representation of a \<open>size_t\<close>.\<close>

definition size_bytes :: "64 word \<Rightarrow> bytes" where
  "size_bytes w = nat_bytes 8 (unat w)"

definition bytes_size :: "bytes \<Rightarrow> 64 word" where
  "bytes_size bs = of_nat (bytes_nat bs)"

lemma length_size_bytes [simp]: "length (size_bytes w) = 8"
  by (simp add: size_bytes_def)

lemma bytes_size_bytes [simp]: "bytes_size (size_bytes w) = w"
proof -
  have "unat w < 256 ^ 8" using unsigned_less [of w] by simp
  then show ?thesis by (simp add: size_bytes_def bytes_size_def bytes_nat_bytes)
qed

lemma size_bytes_size: "length bs = 8 \<Longrightarrow> size_bytes (bytes_size bs) = bs"
proof -
  assume bs: "length bs = 8"
  have "unat (bytes_size bs) = bytes_nat bs"
    using bytes_nat_less [of bs] bs by (simp add: bytes_size_def unat_of_nat)
  then show ?thesis using nat_bytes_nat [OF bs] by (simp add: size_bytes_def)
qed

end
