(* ===== verification/Rpc_Marshal.thy ===== *)
theory Rpc_Marshal
  imports Bytes
begin

text \<open>
  The marshalling of \<open>rpc.hpp\<close>: how arguments and results are laid out in a payload and read back.
  A value of plain data is its object representation, the bytes that \<open>reinterpret_cast\<close> copies; a
  \<open>size_t\<close> has eight bytes, the lowest first. The types that select a specialisation of \<open>marshaler\<close>
  are values of \<open>rpc_type\<close>.
\<close>

subsection \<open>Outcomes\<close>

text \<open>What is thrown: an exception of a class derived from \<open>std::exception\<close>, with the text of its
  \<open>what()\<close>, or an object of any other type.\<close>

datatype exception_class = Out_of_range | Length_error | Xtd_exception | Other_class nat

datatype thrown = Std_exception exception_class bytes | Other_object nat

text \<open>A call returns, throws, or reads past the end of a buffer, which C++ leaves undefined.\<close>

datatype 'a outcome = Done 'a | Throws thrown | Undefined

fun and_then :: "'a outcome \<Rightarrow> ('a \<Rightarrow> 'b outcome) \<Rightarrow> 'b outcome" where
  "and_then (Done a) f = f a"
| "and_then (Throws w) f = Throws w"
| "and_then Undefined f = Undefined"

lemma and_then_Done: "and_then r f = Done b \<longleftrightarrow> (\<exists>a. r = Done a \<and> f a = Done b)"
  by (cases r) auto

text \<open>What the standard library leaves to the implementation: the texts of its exceptions and the
  greatest sizes of a string and of a vector.\<close>

record rpc_env =
  range_text :: bytes
  length_text :: bytes
  max_text :: nat
  max_items :: nat

subsection \<open>Items and arguments\<close>

datatype rpc_type = Pod_type nat | String_type | Vector_type rpc_type

datatype rpc_value = Pod bytes | Text bytes | Items "rpc_value list"

text \<open>The specialisations of \<open>marshaler<false, ...>::marshal\<close> for plain data, strings and vectors, and
  the loop over a vector.\<close>

primrec marshal :: "rpc_value \<Rightarrow> bytes" where
  "marshal (Pod bs) = bs"
| "marshal (Text s) = size_bytes (of_nat (length s)) @ s"
| "marshal (Items vs) = size_bytes (of_nat (length vs)) @ concat (map marshal vs)"

definition marshal_args :: "rpc_value list \<Rightarrow> bytes" where
  "marshal_args vs = concat (map marshal vs)"

text \<open>\<open>unmarshal\<close> of plain data: \<open>at(0)\<close> throws when the payload is empty, and the cast reads all the bytes of
  the object whatever is there.\<close>

definition unmarshal_pod :: "rpc_env \<Rightarrow> nat \<Rightarrow> bytes \<Rightarrow> (bytes \<times> bytes) outcome" where
  "unmarshal_pod E n p =
     (if p = [] then Throws (Std_exception Out_of_range (range_text E))
      else if length p < n then Undefined
      else Done (take n p, drop n p))"

definition unmarshal_size :: "rpc_env \<Rightarrow> bytes \<Rightarrow> (64 word \<times> bytes) outcome" where
  "unmarshal_size E p = and_then (unmarshal_pod E 8 p) (\<lambda>(bs, p). Done (bytes_size bs, p))"

definition reserve :: "rpc_env \<Rightarrow> nat \<Rightarrow> nat \<Rightarrow> unit outcome" where
  "reserve E limit len = (if limit < len then Throws (Std_exception Length_error (length_text E)) else Done ())"

definition unmarshal_text :: "rpc_env \<Rightarrow> bytes \<Rightarrow> (bytes \<times> bytes) outcome" where
  "unmarshal_text E p =
     and_then (unmarshal_size E p) (\<lambda>(len, p).
     and_then (reserve E (max_text E) (unat len)) (\<lambda>_.
       if length p < unat len then Undefined
       else Done (take (unat len) p, drop (unat len) p)))"

primrec unmarshal_items ::
  "(bytes \<Rightarrow> ('v \<times> bytes) outcome) \<Rightarrow> nat \<Rightarrow> bytes \<Rightarrow> ('v list \<times> bytes) outcome" where
  "unmarshal_items dec 0 p = Done ([], p)"
| "unmarshal_items dec (Suc len) p =
     and_then (dec p) (\<lambda>(v, p).
     and_then (unmarshal_items dec len p) (\<lambda>(vs, p). Done (v # vs, p)))"

primrec unmarshal :: "rpc_env \<Rightarrow> rpc_type \<Rightarrow> bytes \<Rightarrow> (rpc_value \<times> bytes) outcome" where
  "unmarshal E (Pod_type n) p = and_then (unmarshal_pod E n p) (\<lambda>(bs, p). Done (Pod bs, p))"
| "unmarshal E String_type p = and_then (unmarshal_text E p) (\<lambda>(s, p). Done (Text s, p))"
| "unmarshal E (Vector_type t) p =
     and_then (unmarshal_size E p) (\<lambda>(len, p).
     and_then (reserve E (max_items E) (unat len)) (\<lambda>_.
     and_then (unmarshal_items (unmarshal E t) (unat len) p) (\<lambda>(vs, p). Done (Items vs, p))))"

fun unmarshal_args :: "rpc_env \<Rightarrow> rpc_type list \<Rightarrow> bytes \<Rightarrow> (rpc_value list \<times> bytes) outcome" where
  "unmarshal_args E [] p = Done ([], p)"
| "unmarshal_args E (t # ts) p =
     and_then (unmarshal E t p) (\<lambda>(v, p).
     and_then (unmarshal_args E ts p) (\<lambda>(vs, p). Done (v # vs, p)))"

subsection \<open>Codecs\<close>

text \<open>The contract of a pair of an encoder and a decoder: the decoder takes off exactly what the encoder
  has written, and nothing else.\<close>

locale codec =
  fixes enc :: "'v \<Rightarrow> bytes"
    and dec :: "bytes \<Rightarrow> ('v \<times> bytes) outcome"
    and ok :: "'v \<Rightarrow> bool"
  assumes decodes: "dec p = Done (v, rest) \<longleftrightarrow> ok v \<and> p = enc v @ rest"
begin

lemma items_decode:
  "unmarshal_items dec n p = Done (vs, rest) \<longleftrightarrow>
     length vs = n \<and> list_all ok vs \<and> p = concat (map enc vs) @ rest"
proof (induction n arbitrary: p vs)
  case (Suc n)
  have "unmarshal_items dec (Suc n) p = Done (vs, rest) \<longleftrightarrow>
      (\<exists>v q ws. dec p = Done (v, q) \<and> unmarshal_items dec n q = Done (ws, rest) \<and> vs = v # ws)"
    by (auto simp: and_then_Done)
  also have "\<dots> \<longleftrightarrow> length vs = Suc n \<and> list_all ok vs \<and> p = concat (map enc vs) @ rest"
    by (cases vs) (auto simp: Suc decodes)
  finally show ?case .
qed auto

lemma prefix_free:
  assumes "ok v" "ok w" "enc v @ x = enc w @ y"
  shows "v = w \<and> x = y"
proof -
  have "dec (enc v @ x) = Done (v, x)" using assms(1) by (simp add: decodes)
  moreover have "dec (enc v @ x) = Done (w, y)" unfolding assms(3) using assms(2) by (simp add: decodes)
  ultimately show ?thesis by simp
qed

end

lemma unmarshal_pod_Done:
  "0 < n \<Longrightarrow> unmarshal_pod E n p = Done (bs, rest) \<longleftrightarrow> length bs = n \<and> p = bs @ rest"
  by (auto simp: unmarshal_pod_def)

interpretation size_codec: codec size_bytes "unmarshal_size E" "\<lambda>w. True"
proof
  fix p w rest
  show "unmarshal_size E p = Done (w, rest) \<longleftrightarrow> True \<and> p = size_bytes w @ rest"
    by (auto simp: unmarshal_size_def and_then_Done unmarshal_pod_Done size_bytes_size)
qed

text \<open>The values of a type, within the greatest sizes. A \<open>sizeof\<close> is never 0.\<close>

fun has_type :: "rpc_env \<Rightarrow> rpc_type \<Rightarrow> rpc_value \<Rightarrow> bool" where
  "has_type E (Pod_type n) (Pod bs) = (length bs = n)"
| "has_type E String_type (Text s) = (length s \<le> max_text E \<and> length s < 2 ^ 64)"
| "has_type E (Vector_type t) (Items vs) =
     (length vs \<le> max_items E \<and> length vs < 2 ^ 64 \<and> list_all (has_type E t) vs)"
| "has_type E t v = False"

fun sized :: "rpc_type \<Rightarrow> bool" where
  "sized (Pod_type n) = (0 < n)"
| "sized String_type = True"
| "sized (Vector_type t) = sized t"

lemma unat_of_length: "n < 2 ^ 64 \<Longrightarrow> unat (of_nat n :: 64 word) = n"
  by (simp add: unat_of_nat)

lemma counted_iff:
  "w = (of_nat n :: 64 word) \<and> unat w = n \<longleftrightarrow> w = of_nat n \<and> n < 2 ^ 64"
  using unsigned_less [of w] by (auto simp: unat_of_nat)

lemma reserve_Done: "reserve E limit len = Done u \<longleftrightarrow> len \<le> limit"
  by (auto simp: reserve_def)

interpretation text_codec:
  codec "\<lambda>s. size_bytes (of_nat (length s)) @ s" "unmarshal_text E"
    "\<lambda>s. length s \<le> max_text E \<and> length s < 2 ^ 64"
proof
  fix p s rest
  show "unmarshal_text E p = Done (s, rest) \<longleftrightarrow>
      (length s \<le> max_text E \<and> length s < 2 ^ 64) \<and> p = (size_bytes (of_nat (length s)) @ s) @ rest"
  proof
    assume "unmarshal_text E p = Done (s, rest)"
    then obtain len q where "unmarshal_size E p = Done (len, q)" "unat len \<le> max_text E"
      "\<not> length q < unat len" "s = take (unat len) q" "rest = drop (unat len) q"
      by (auto simp: unmarshal_text_def and_then_Done reserve_Done split: if_splits)
    then show "(length s \<le> max_text E \<and> length s < 2 ^ 64) \<and> p = (size_bytes (of_nat (length s)) @ s) @ rest"
      using unsigned_less [of len] by (auto simp: size_codec.decodes)
  next
    assume "(length s \<le> max_text E \<and> length s < 2 ^ 64) \<and> p = (size_bytes (of_nat (length s)) @ s) @ rest"
    moreover from this have "unmarshal_size E p = Done (of_nat (length s), s @ rest)"
      by (simp add: size_codec.decodes)
    ultimately show "unmarshal_text E p = Done (s, rest)"
      by (simp add: unmarshal_text_def reserve_def unat_of_length)
  qed
qed

lemma unmarshal_codec: "sized t \<Longrightarrow> codec marshal (unmarshal E t) (has_type E t)"
proof (induction t)
  case (Pod_type n)
  show ?case
  proof
    fix p v rest
    show "unmarshal E (Pod_type n) p = Done (v, rest) \<longleftrightarrow> has_type E (Pod_type n) v \<and> p = marshal v @ rest"
      using Pod_type by (cases v) (auto simp: and_then_Done unmarshal_pod_Done)
  qed
next
  case String_type
  show ?case
  proof
    fix p v rest
    show "unmarshal E String_type p = Done (v, rest) \<longleftrightarrow> has_type E String_type v \<and> p = marshal v @ rest"
      by (cases v) (auto simp: and_then_Done text_codec.decodes)
  qed
next
  case (Vector_type t)
  note items = codec.items_decode [OF Vector_type.IH]
  have t: "sized t" using Vector_type.prems by simp
  show ?case
  proof
    fix p v rest
    show "unmarshal E (Vector_type t) p = Done (v, rest) \<longleftrightarrow>
        has_type E (Vector_type t) v \<and> p = marshal v @ rest"
    proof
      assume "unmarshal E (Vector_type t) p = Done (v, rest)"
      then obtain len q vs where q: "unmarshal_size E p = Done (len, q)" "unat len \<le> max_items E"
        "unmarshal_items (unmarshal E t) (unat len) q = Done (vs, rest)" "v = Items vs"
        by (auto simp: and_then_Done reserve_Done)
      then show "has_type E (Vector_type t) v \<and> p = marshal v @ rest"
        using unsigned_less [of len] by (auto simp: size_codec.decodes items [OF t])
    next
      assume a: "has_type E (Vector_type t) v \<and> p = marshal v @ rest"
      then obtain vs where vs: "v = Items vs" by (cases v) auto
      have "unmarshal_size E p = Done (of_nat (length vs), concat (map marshal vs) @ rest)"
        using a vs by (simp add: size_codec.decodes)
      moreover have "unmarshal_items (unmarshal E t) (length vs) (concat (map marshal vs) @ rest) =
          Done (vs, rest)"
        using a vs by (simp add: items [OF t])
      ultimately show "unmarshal E (Vector_type t) p = Done (v, rest)"
        using a vs by (simp add: reserve_def unat_of_length)
    qed
  qed
qed

text \<open>C26: \<open>unmarshal\<close> is the inverse of \<open>marshal\<close>, in both directions: reading a value of a type from a
  payload yields a value and a rest exactly when the payload is the value marshalled, followed by
  the rest, and the value has the type.\<close>

theorem unmarshal_inverts_marshal:
  assumes "sized t"
  shows "unmarshal E t p = Done (v, rest) \<longleftrightarrow> has_type E t v \<and> p = marshal v @ rest"
  using codec.decodes [OF unmarshal_codec [OF assms]] .

definition example_env :: rpc_env where
  "example_env = \<lparr>range_text = [], length_text = [], max_text = 2 ^ 62, max_items = 2 ^ 60\<rparr>"

theorem unmarshal_inverts_marshal_witness:
  "unmarshal example_env (Vector_type String_type) (marshal (Items [Text [1, 2], Text []]) @ [9]) =
     Done (Items [Text [1, 2], Text []], [9])"
proof -
  have "has_type example_env (Vector_type String_type) (Items [Text [1, 2], Text []])"
    by (simp add: example_env_def)
  then show ?thesis by (subst unmarshal_inverts_marshal) simp_all
qed

text \<open>The arguments of a call, as the client writes them and the server reads them.\<close>

definition have_types :: "rpc_env \<Rightarrow> rpc_type list \<Rightarrow> rpc_value list \<Rightarrow> bool" where
  "have_types E ts vs \<longleftrightarrow> list_all2 (has_type E) ts vs"

lemma unmarshal_args_iff:
  "list_all sized ts \<Longrightarrow>
     unmarshal_args E ts p = Done (vs, rest) \<longleftrightarrow> have_types E ts vs \<and> p = marshal_args vs @ rest"
proof (induction ts arbitrary: p vs)
  case (Cons t ts)
  note item = codec.decodes [OF unmarshal_codec, of t E]
  have "unmarshal_args E (t # ts) p = Done (vs, rest) \<longleftrightarrow>
      (\<exists>v q ws. unmarshal E t p = Done (v, q) \<and> unmarshal_args E ts q = Done (ws, rest) \<and> vs = v # ws)"
    by (auto simp: and_then_Done)
  also have "\<dots> \<longleftrightarrow> have_types E (t # ts) vs \<and> p = marshal_args vs @ rest"
    using Cons by (cases vs) (auto simp: item have_types_def marshal_args_def)
  finally show ?case .
qed (auto simp: have_types_def marshal_args_def)

end
