(* ===== verification/Rpc.thy ===== *)
theory Rpc
  imports Rpc_Marshal
begin

text \<open>
  Calls of \<open>rpc.hpp\<close>: the client's \<open>_call\<close>, the server's dispatch over its list of calls, the
  \<open>invoker\<close> and the in-process \<open>null_transport\<close>. The locale \<open>rpc_transport\<close> is what the client needs of
  a transport, \<open>local_transport\<close> what it needs besides of one in the same process. A handler is a
  function of the server's state; a call that is not attached is a \<open>std::function\<close> that throws.
\<close>

subsection \<open>Payloads\<close>

definition exception_marker :: "64 word" where
  "exception_marker = - 1"

definition payload_new :: bytes where
  "payload_new = replicate 8 0"

definition peek :: "rpc_env \<Rightarrow> bytes \<Rightarrow> 64 word outcome" where
  "peek E p =
     (if p = [] then Throws (Std_exception Out_of_range (range_text E))
      else if length p < 8 then Undefined
      else Done (bytes_size (take 8 p)))"

definition embed_length :: "rpc_env \<Rightarrow> bytes \<Rightarrow> bytes outcome" where
  "embed_length E p =
     (if p = [] then Throws (Std_exception Out_of_range (range_text E))
      else if length p < 8 then Undefined
      else Done (size_bytes (of_nat (length p)) @ drop 8 p))"

definition text_bytes :: "string \<Rightarrow> bytes" where
  "text_bytes s = map (\<lambda>c. of_nat (of_char c)) s"

definition no_handler_text :: bytes where
  "no_handler_text = text_bytes ''xtd::rpc: no handler for call''"

definition not_running_text :: bytes where
  "not_running_text = text_bytes ''null_transport server not running''"

subsection \<open>The server\<close>

text \<open>The function of a call gets the server's state and its arguments, which are variables of the
  \<open>invoker\<close>. It leaves a state, values in these variables (parameters that are references may change
  them), and returns or throws.\<close>

record 's rpc_call =
  call_hash :: "64 word"
  arg_types :: "rpc_type list"
  call_function :: "'s \<Rightarrow> rpc_value list \<Rightarrow> 's \<times> rpc_value list \<times> (thrown + rpc_value)"

definition exception_response :: "bytes \<Rightarrow> bytes" where
  "exception_response sWhat = payload_new @ marshal_args [Pod (size_bytes exception_marker), Text sWhat]"

text \<open>\<open>invoker\<close>: the arguments one by one, the call, and the response, which has the result but not what the
  function left in its arguments.\<close>

definition invoker_invoke ::
  "rpc_env \<Rightarrow> 's rpc_call \<Rightarrow> bytes \<Rightarrow> 's \<Rightarrow> 's \<times> bytes outcome" where
  "invoker_invoke E c p st =
     (case unmarshal_args E (arg_types c) p of
        Done (vs, _) \<Rightarrow>
          (case call_function c st vs of
             (st, _, Inl ex) \<Rightarrow> (st, Throws ex)
           | (st, _, Inr oRet) \<Rightarrow> (st, Done (payload_new @ marshal_args [Pod (size_bytes (call_hash c)), oRet])))
      | Throws ex \<Rightarrow> (st, Throws ex)
      | Undefined \<Rightarrow> (st, Undefined))"

text \<open>The server catches what is derived from \<open>std::exception\<close>; anything else goes through.\<close>

fun server_invoke ::
  "rpc_env \<Rightarrow> 's rpc_call list \<Rightarrow> bytes \<Rightarrow> 's \<Rightarrow> 's \<times> bytes outcome" where
  "server_invoke E [] p st = (st, Done (exception_response no_handler_text))"
| "server_invoke E (c # cs) p st =
     (case peek E p of
        Done iId \<Rightarrow>
          (if call_hash c \<noteq> iId then server_invoke E cs p st
           else (case unmarshal_size E p of
                   Done (_, p) \<Rightarrow>
                     (case invoker_invoke E c p st of
                        (st, Throws (Std_exception _ sWhat)) \<Rightarrow> (st, Done (exception_response sWhat))
                      | r \<Rightarrow> r)
                 | Throws ex \<Rightarrow> (st, Throws ex)
                 | Undefined \<Rightarrow> (st, Undefined)))
      | Throws ex \<Rightarrow> (st, Throws ex)
      | Undefined \<Rightarrow> (st, Undefined))"

subsection \<open>The transport\<close>

type_synonym 's serve = "bytes \<Rightarrow> 's \<Rightarrow> 's \<times> bytes outcome"

text \<open>The handler that \<open>start_server\<close> leaves in the shared state: it strips the length header.\<close>

definition null_start :: "rpc_env \<Rightarrow> 's serve \<Rightarrow> 's serve option" where
  "null_start E serve =
     Some (\<lambda>p st. case unmarshal_size E p of
                    Done (_, p) \<Rightarrow> serve p st
                  | Throws ex \<Rightarrow> (st, Throws ex)
                  | Undefined \<Rightarrow> (st, Undefined))"

definition null_stop :: "'s serve option" where
  "null_stop = None"

definition null_transact :: "rpc_env \<Rightarrow> 's serve option \<Rightarrow> bytes \<Rightarrow> 's \<Rightarrow> 's \<times> bytes outcome" where
  "null_transact E shared p st =
     (case shared of
        None \<Rightarrow> (st, Throws (Std_exception Xtd_exception not_running_text))
      | Some serve \<Rightarrow>
          (case embed_length E p of
             Done p \<Rightarrow>
               (case serve p st of
                  (st, r) \<Rightarrow>
                    (st, and_then r (\<lambda>p. and_then (unmarshal_size E p) (\<lambda>(_, p). Done p))))
           | Throws ex \<Rightarrow> (st, Throws ex)
           | Undefined \<Rightarrow> (st, Undefined)))"

subsection \<open>The client\<close>

text \<open>What \<open>_call\<close> makes of the response. It finishes with \<open>marshaler<true, ...>::unmarshal\<close> over its own
  arguments, both specialisations of which skip: nothing is read and no argument changes.\<close>

definition client_result :: "rpc_env \<Rightarrow> rpc_type \<Rightarrow> bytes \<Rightarrow> rpc_value outcome" where
  "client_result E ret p =
     and_then (peek E p) (\<lambda>m.
       if exception_marker = m
       then and_then (unmarshal_size E p) (\<lambda>(_, p).
            and_then (unmarshal_text E p) (\<lambda>(sWhat, _). Throws (Std_exception Xtd_exception sWhat)))
       else and_then (unmarshal_size E p) (\<lambda>(_, p).
            and_then (unmarshal E ret p) (\<lambda>(oRet, _). Done oRet)))"

definition client_call ::
  "rpc_env \<Rightarrow> (bytes \<Rightarrow> 's \<Rightarrow> 's \<times> bytes outcome) \<Rightarrow> 64 word \<Rightarrow> rpc_type \<Rightarrow> rpc_value list \<Rightarrow> 's \<Rightarrow>
     's \<times> rpc_value list \<times> rpc_value outcome" where
  "client_call E transact h ret vs st =
     (case transact (payload_new @ marshal_args (Pod (size_bytes h) # vs)) st of
        (st, r) \<Rightarrow> (st, vs, and_then r (client_result E ret)))"

subsection \<open>What a call promises\<close>

text \<open>The specification: the function of the first call of the server with the hash is applied to the
  arguments, which the caller finds as they were. An exception with a text comes as an
  \<open>xtd::exception\<close> with the same text, whatever its class; anything else comes as it is.\<close>

fun rethrown :: "thrown \<Rightarrow> thrown" where
  "rethrown (Std_exception _ sWhat) = Std_exception Xtd_exception sWhat"
| "rethrown (Other_object x) = Other_object x"

definition direct_call ::
  "'s rpc_call list \<Rightarrow> 64 word \<Rightarrow> rpc_value list \<Rightarrow> 's \<Rightarrow>
     's \<times> rpc_value list \<times> rpc_value outcome" where
  "direct_call cs h vs st =
     (case find (\<lambda>c. call_hash c = h) cs of
        None \<Rightarrow> (st, vs, Throws (Std_exception Xtd_exception no_handler_text))
      | Some c \<Rightarrow>
          (case call_function c st vs of
             (st, _, Inl ex) \<Rightarrow> (st, vs, Throws (rethrown ex))
           | (st, _, Inr oRet) \<Rightarrow> (st, vs, Done oRet)))"

text \<open>A server whose calls take values of sized types, and whose functions return values of the type \<open>ret\<close>
  and throw anything, but no text that a string cannot hold, when they are given values of their types.\<close>

definition text_fits :: "rpc_env \<Rightarrow> bytes \<Rightarrow> bool" where
  "text_fits E s \<longleftrightarrow> length s \<le> max_text E \<and> length s < 2 ^ 64"

definition well_typed_call :: "rpc_env \<Rightarrow> rpc_type \<Rightarrow> 's rpc_call \<Rightarrow> bool" where
  "well_typed_call E ret c \<longleftrightarrow>
     list_all sized (arg_types c) \<and>
     (\<forall>st vs. have_types E (arg_types c) vs \<longrightarrow>
        (case snd (snd (call_function c st vs)) of
           Inl (Std_exception _ sWhat) \<Rightarrow> text_fits E sWhat
         | Inl (Other_object _) \<Rightarrow> True
         | Inr oRet \<Rightarrow> has_type E ret oRet))"

text \<open>What the client relies on: the server gets the payload without its header, and the response comes
  back without its own.\<close>

locale rpc_transport =
  fixes transact :: "'s serve \<Rightarrow> bytes \<Rightarrow> 's \<Rightarrow> 's \<times> bytes outcome"
  assumes delivers:
    "8 \<le> length p \<Longrightarrow> serve (drop 8 p) st = (st', Done r) \<Longrightarrow> 8 \<le> length r \<Longrightarrow>
       transact serve p st = (st', Done (drop 8 r))"

text \<open>In the same process, what the server throws reaches the client.\<close>

locale local_transport = rpc_transport transact
  for transact :: "'s serve \<Rightarrow> bytes \<Rightarrow> 's \<Rightarrow> 's \<times> bytes outcome" +
  assumes throws:
    "8 \<le> length p \<Longrightarrow> serve (drop 8 p) st = (st', Throws ex) \<Longrightarrow> transact serve p st = (st', Throws ex)"

lemma peek_size [simp]: "peek E (size_bytes w @ p) = Done w"
proof -
  have "size_bytes w \<noteq> []" by (metis length_size_bytes list.size(3) zero_neq_numeral)
  then show ?thesis by (simp add: peek_def)
qed

lemma unmarshal_size_size [simp]: "unmarshal_size E (size_bytes w @ p) = Done (w, p)"
  by (simp add: size_codec.decodes)

lemma length_payload_new [simp]: "length payload_new = 8"
  by (simp add: payload_new_def)

lemma marshal_args_simps [simp]:
  "marshal_args [] = []" "marshal_args (v # vs) = marshal v @ marshal_args vs"
  by (simp_all add: marshal_args_def)

lemma invoker_ok:
  "list_all sized (arg_types c) \<Longrightarrow> have_types E (arg_types c) vs \<Longrightarrow>
     invoker_invoke E c (marshal_args vs) st =
       (case call_function c st vs of
          (st, _, Inl ex) \<Rightarrow> (st, Throws ex)
        | (st, _, Inr oRet) \<Rightarrow> (st, Done (payload_new @ size_bytes (call_hash c) @ marshal oRet)))"
  using unmarshal_args_iff [of "arg_types c" E "marshal_args vs" vs "[]"]
  by (simp add: invoker_invoke_def split: prod.split sum.split)

lemma server_invoke_finds:
  "server_invoke E cs (size_bytes h @ q) st =
     (case find (\<lambda>c. call_hash c = h) cs of
        None \<Rightarrow> (st, Done (exception_response no_handler_text))
      | Some c \<Rightarrow>
          (case invoker_invoke E c q st of
             (st, Throws (Std_exception _ sWhat)) \<Rightarrow> (st, Done (exception_response sWhat))
           | r \<Rightarrow> r))"
  by (induction cs) auto

lemma client_result_exception:
  "text_fits E sWhat \<Longrightarrow> client_result E ret (drop 8 (exception_response sWhat)) = Throws (Std_exception Xtd_exception sWhat)"
proof -
  assume "text_fits E sWhat"
  then have "unmarshal_text E (size_bytes (of_nat (length sWhat)) @ sWhat) = Done (sWhat, [])"
    by (simp add: text_codec.decodes text_fits_def)
  then show ?thesis by (simp add: client_result_def exception_response_def)
qed

lemma client_result_value:
  "sized ret \<Longrightarrow> has_type E ret v \<Longrightarrow> h \<noteq> exception_marker \<Longrightarrow>
     client_result E ret (size_bytes h @ marshal v) = Done v"
  using codec.decodes [OF unmarshal_codec, of ret E "marshal v" v "[]"] by (simp add: client_result_def)

context local_transport
begin

lemma call_is_direct:
  fixes cs :: "'s rpc_call list"
  assumes hash: "h \<noteq> exception_marker" and ret: "sized ret" and fits: "text_fits E no_handler_text"
    and cs: "\<And>c. c \<in> set cs \<Longrightarrow> call_hash c = h \<Longrightarrow> well_typed_call E ret c \<and> have_types E (arg_types c) vs"
  shows "client_call E (transact (server_invoke E cs)) h ret vs st = direct_call cs h vs st"
proof -
  let ?p = "payload_new @ marshal_args (Pod (size_bytes h) # vs)"
  have req: "drop 8 ?p = size_bytes h @ marshal_args vs" by simp
  have len: "8 \<le> length ?p" "8 \<le> length (exception_response w)"
    "8 \<le> length (payload_new @ x)" for w x by (simp_all add: exception_response_def)
  note deliver = delivers [of ?p "server_invoke E cs" st, OF len(1)]
  show ?thesis
  proof (cases "find (\<lambda>c. call_hash c = h) cs")
    case None
    then have "server_invoke E cs (drop 8 ?p) st = (st, Done (exception_response no_handler_text))"
      unfolding req server_invoke_finds by simp
    from deliver [OF this] have "transact (server_invoke E cs) ?p st = (st, Done (drop 8 (exception_response no_handler_text)))"
      by (simp add: len)
    then show ?thesis
      using None client_result_exception [OF fits] by (simp add: client_call_def direct_call_def)
  next
    case (Some c)
    then have c: "c \<in> set cs" "call_hash c = h" by (auto simp: find_Some_iff)
    then have ok: "list_all sized (arg_types c)" "have_types E (arg_types c) vs"
      "case snd (snd (call_function c st vs)) of
         Inl (Std_exception _ w) \<Rightarrow> text_fits E w
       | Inl (Other_object _) \<Rightarrow> True
       | Inr v \<Rightarrow> has_type E ret v"
      using cs [OF c] unfolding well_typed_call_def by blast+
    obtain st' ws r where f: "call_function c st vs = (st', ws, r)" by (metis prod.collapse)
    note inv = server_invoke_finds [of E cs h "marshal_args vs" st, folded req] invoker_ok [OF ok(1,2), of st]
    show ?thesis
    proof (cases r)
      case (Inl ex)
      show ?thesis
      proof (cases ex)
        case (Std_exception cl w)
        then have "server_invoke E cs (drop 8 ?p) st = (st', Done (exception_response w))"
          using inv Some f Inl by simp
        from deliver [OF this]
        have "transact (server_invoke E cs) ?p st = (st', Done (drop 8 (exception_response w)))"
          by (simp add: len)
        then show ?thesis
          using Some f Inl Std_exception ok(3) client_result_exception [of E w]
          by (simp add: client_call_def direct_call_def)
      next
        case (Other_object x)
        then have "server_invoke E cs (drop 8 ?p) st = (st', Throws ex)"
          using inv Some f Inl by simp
        from throws [of ?p "server_invoke E cs" st st' ex, OF len(1) this] show ?thesis
          using Some f Inl Other_object by (simp add: client_call_def direct_call_def)
      qed
    next
      case (Inr v)
      then have "server_invoke E cs (drop 8 ?p) st = (st', Done (payload_new @ size_bytes h @ marshal v))"
        using inv Some f c(2) by simp
      from deliver [OF this] have "transact (server_invoke E cs) ?p st = (st', Done (size_bytes h @ marshal v))"
        by (simp add: len)
      then show ?thesis
        using Some f Inr ok(3) client_result_value [OF ret _ hash] by (simp add: client_call_def direct_call_def)
    qed
  qed
qed

end

interpretation null: local_transport "\<lambda>serve. null_transact E (null_start E serve)"
proof
  fix p r :: bytes and serve :: "'a serve" and st st' :: 'a
  assume p: "8 \<le> length p" and s: "serve (drop 8 p) st = (st', Done r)" and r: "8 \<le> length r"
  have "p \<noteq> []" using p by auto
  moreover have "unmarshal_size E r = Done (bytes_size (take 8 r), drop 8 r)"
    using r by (simp add: size_codec.decodes size_bytes_size)
  ultimately show "null_transact E (null_start E serve) p st = (st', Done (drop 8 r))"
    using p s by (simp add: null_transact_def null_start_def embed_length_def)
next
  fix p :: bytes and serve :: "'a serve" and st st' :: 'a and ex
  assume p: "8 \<le> length p" and s: "serve (drop 8 p) st = (st', Throws ex)"
  have "p \<noteq> []" using p by auto
  then show "null_transact E (null_start E serve) p st = (st', Throws ex)"
    using p s by (simp add: null_transact_def null_start_def embed_length_def)
qed

text \<open>C25: a call of \<open>rpc_client\<close> over the \<open>null_transport\<close> with arguments of the types of the
  signature is a call of the function attached to the server: it returns what the function returns
  and leaves the server in the state in which the function leaves it. When the function throws
  an exception derived from \<open>std::exception\<close>, the caller gets an \<open>xtd::exception\<close> with its text (the
  class is lost); anything else that it throws reaches the caller as it is. A call that the server does not
  have throws. The caller's arguments are as they were, even if the function has changed those it takes
  by reference. The hash of the call's type must not be the marker of an exception.\<close>

theorem rpc_call_is_direct:
  assumes "h \<noteq> exception_marker" "sized ret" "text_fits E no_handler_text"
    "\<forall>c \<in> set cs. call_hash c = h \<longrightarrow> well_typed_call E ret c \<and> have_types E (arg_types c) vs"
  shows "client_call E (null_transact E (null_start E (server_invoke E cs))) h ret vs st =
           direct_call cs h vs st"
  by (rule null.call_is_direct) (use assms in auto)

text \<open>A server with a counter: the call 5 adds its argument to it and returns the old value, and throws
  when the argument is a byte 0.\<close>

definition example_call :: "nat rpc_call" where
  "example_call =
     \<lparr>call_hash = 5, arg_types = [Pod_type 1],
      call_function = (\<lambda>st vs. case vs of
        [Pod [b]] \<Rightarrow>
          if b = 0 then (st, vs, Inl (Std_exception (Other_class 1) [7]))
          else (st + unat b, [Pod [0]], Inr (Text [of_nat st]))
      | _ \<Rightarrow> (st, vs, Inl (Other_object 0)))\<rparr>"

theorem rpc_call_is_direct_witness:
  "client_call example_env (null_transact example_env (null_start example_env
       (server_invoke example_env [example_call]))) 5 String_type [Pod [3]] 4 =
     (7, [Pod [3]], Done (Text [4]))"
proof -
  have "well_typed_call example_env String_type example_call"
    unfolding well_typed_call_def have_types_def
    by (auto simp: example_call_def example_env_def text_fits_def list_all2_Cons1
        split: list.split rpc_value.split)
  moreover have "have_types example_env (arg_types example_call) [Pod [3]]"
    by (simp add: have_types_def example_call_def)
  ultimately have "client_call example_env (null_transact example_env (null_start example_env
       (server_invoke example_env [example_call]))) 5 String_type [Pod [3]] 4 =
     direct_call [example_call] 5 [Pod [3]] 4"
    by (intro rpc_call_is_direct)
      (auto simp: exception_marker_def text_fits_def example_env_def no_handler_text_def text_bytes_def)
  then show ?thesis by (simp add: direct_call_def example_call_def)
qed

text \<open>The client marshals an argument with the type of the expression that the caller wrote, and
  the server reads it with the type of the signature. A plain argument that is smaller than the
  signature says (an \<open>int\<close> literal for a \<open>size_t\<close>) makes the server read past the end of the payload;
  from one that is larger the function gets the first bytes.\<close>

theorem rpc_argument_size_mismatch:
  assumes "bs \<noteq> []" "call_hash c = h" "arg_types c = [Pod_type n]"
  shows "server_invoke E (c # cs) (size_bytes h @ marshal_args [Pod bs]) st =
    (if length bs < n then (st, Undefined)
     else case call_function c st [Pod (take n bs)] of
       (st, _, Inl (Std_exception _ sWhat)) \<Rightarrow> (st, Done (exception_response sWhat))
     | (st, _, Inl ex) \<Rightarrow> (st, Throws ex)
     | (st, _, Inr oRet) \<Rightarrow> (st, Done (payload_new @ size_bytes h @ marshal oRet)))"
  using assms by (simp add: invoker_invoke_def unmarshal_pod_def split: prod.split sum.split thrown.split)

theorem rpc_argument_size_mismatch_witness:
  "server_invoke example_env [example_call\<lparr>arg_types := [Pod_type 8]\<rparr>]
     (size_bytes 5 @ marshal_args [Pod [3, 0, 0, 0]]) 4 = (4, Undefined)"
  using rpc_argument_size_mismatch [of "[3, 0, 0, 0]" "example_call\<lparr>arg_types := [Pod_type 8]\<rparr>" 5 8 example_env "[]" 4]
  by (simp add: example_call_def)

end
