(* ===== verification/Porter.thy ===== *)
theory Porter
  imports Main
begin

text \<open>
  The stemmer of \<open>nlp/porter_stemmer.hpp\<close>: the buffer \<open>b\<close> with the offsets \<open>k\<close> (the end of the word) and
  \<open>j\<close> (the end of a stem), and one function per member. \<open>k0\<close> is 0, as in the only call of \<open>stem\<close>. \<open>None\<close> is
  a read or a write outside the buffer.
\<close>

subsection \<open>The buffer\<close>

record porter =
  buf :: string
  word_end :: int
  stem_end :: int

definition char_at :: "string \<Rightarrow> int \<Rightarrow> char option" where
  "char_at b i = (if 0 \<le> i \<and> i < int (length b) then Some (b ! nat i) else None)"

definition vowel :: "char \<Rightarrow> bool" where
  "vowel c \<longleftrightarrow> c \<in> {CHR ''a'', CHR ''e'', CHR ''i'', CHR ''o'', CHR ''u''}"

function cons :: "string \<Rightarrow> int \<Rightarrow> bool option" where
  "cons b i =
     (case char_at b i of
        None \<Rightarrow> None
      | Some c \<Rightarrow>
          (if vowel c then Some False
           else if c = CHR ''y'' then (if i = 0 then Some True else map_option Not (cons b (i - 1)))
           else Some True))"
  by auto
termination
  by (relation "measure (\<lambda>(b, i). nat i)") (auto simp: char_at_def split: if_splits)

declare cons.simps [simp del]

text \<open>A loop of \<open>m\<close>: on from \<open>i\<close> to the first consonant, or the first vowel, up to \<open>j\<close>.\<close>

function seek :: "string \<Rightarrow> int \<Rightarrow> bool \<Rightarrow> int \<Rightarrow> int option option" where
  "seek b j consonant i =
     (if i > j then Some None
      else (case cons b i of
              None \<Rightarrow> None
            | Some c \<Rightarrow> if c = consonant then Some (Some i) else seek b j consonant (i + 1)))"
  by auto
termination by (relation "measure (\<lambda>(b, j, c, i). nat (j + 1 - i))") auto

declare seek.simps [simp del]

lemma seek_bounds: "seek b j c i = Some (Some i') \<Longrightarrow> i \<le> i' \<and> i' \<le> j"
proof (induction b j c i rule: seek.induct)
  case (1 b j consonant i)
  show ?case
  proof (cases "i > j")
    case False
    with "1.prems" show ?thesis
      using "1.IH" by (subst (asm) seek.simps) (fastforce split: option.splits if_splits)
  qed (use "1.prems" in \<open>simp add: seek.simps\<close>)
qed

text \<open>\<open>m\<close>: the outer loop, entered behind a vowel.\<close>

function m_loop :: "string \<Rightarrow> int \<Rightarrow> int \<Rightarrow> nat \<Rightarrow> nat option" where
  "m_loop b j i n =
     (case seek b j True i of
        None \<Rightarrow> None
      | Some None \<Rightarrow> Some n
      | Some (Some i') \<Rightarrow>
          (case seek b j False (i' + 1) of
             None \<Rightarrow> None
           | Some None \<Rightarrow> Some (n + 1)
           | Some (Some i'') \<Rightarrow> m_loop b j (i'' + 1) (n + 1)))"
  by auto
termination
  by (relation "measure (\<lambda>(b, j, i, n). nat (j + 1 - i))") (auto dest!: seek_bounds)

declare m_loop.simps [simp del]

definition m :: "porter \<Rightarrow> nat option" where
  "m p =
     (case seek (buf p) (stem_end p) False 0 of
        None \<Rightarrow> None
      | Some None \<Rightarrow> Some 0
      | Some (Some i) \<Rightarrow> m_loop (buf p) (stem_end p) (i + 1) 0)"

definition vowelinstem :: "porter \<Rightarrow> bool option" where
  "vowelinstem p = map_option (\<lambda>r. r \<noteq> None) (seek (buf p) (stem_end p) False 0)"

definition doublec :: "string \<Rightarrow> int \<Rightarrow> bool option" where
  "doublec b j =
     (if j < 1 then Some False
      else Option.bind (char_at b j) (\<lambda>c. Option.bind (char_at b (j - 1)) (\<lambda>d.
             if c \<noteq> d then Some False else cons b j)))"

definition cvc :: "string \<Rightarrow> int \<Rightarrow> bool option" where
  "cvc b i =
     (if i < 2 then Some False
      else Option.bind (cons b i) (\<lambda>c2. Option.bind (cons b (i - 1)) (\<lambda>c1. Option.bind (cons b (i - 2)) (\<lambda>c0.
             if \<not> c2 \<or> c1 \<or> \<not> c0 then Some False
             else map_option (\<lambda>ch. \<not> (ch = CHR ''w'' \<or> ch = CHR ''x'' \<or> ch = CHR ''y'')) (char_at b i)))))"

definition ends :: "string \<Rightarrow> porter \<Rightarrow> (bool \<times> porter) option" where
  "ends s p =
     (let length = int (size s); k = word_end p in
      Option.bind (char_at (buf p) k) (\<lambda>c.
        if last s \<noteq> c then Some (False, p)
        else if length > k + 1 then Some (False, p)
        else if take (size s) (drop (nat (k - length + 1)) (buf p)) \<noteq> s then Some (False, p)
        else Some (True, p\<lparr>stem_end := k - length\<rparr>)))"

definition setto :: "string \<Rightarrow> porter \<Rightarrow> porter option" where
  "setto s p =
     (let length = int (size s); from = nat (stem_end p + 1) in
      if stem_end p + 1 < 0 \<or> stem_end p + length \<ge> int (size (buf p)) then None
      else Some (p\<lparr>buf := take from (buf p) @ s @ drop (from + size s) (buf p),
                   word_end := stem_end p + length\<rparr>))"

definition r :: "string \<Rightarrow> porter \<Rightarrow> porter option" where
  "r s p = Option.bind (m p) (\<lambda>n. if n > 0 then setto s p else Some p)"

subsection \<open>The steps\<close>

text \<open>A chain of \<open>if (ends(s)) { ...; break; }\<close>: the first suffix of the list that the word ends with.\<close>

fun first_ending :: "(string \<times> 'a) list \<Rightarrow> porter \<Rightarrow> ('a option \<times> porter) option" where
  "first_ending [] p = Some (None, p)"
| "first_ending ((s, a) # rest) p =
     Option.bind (ends s p) (\<lambda>(found, p). if found then Some (Some a, p) else first_ending rest p)"

definition plural :: "porter \<Rightarrow> porter option" where
  "plural p =
     Option.bind (char_at (buf p) (word_end p)) (\<lambda>c.
       if c \<noteq> CHR ''s'' then Some p
       else Option.bind (ends ''sses'' p) (\<lambda>(found, p).
         if found then Some (p\<lparr>word_end := word_end p - 2\<rparr>)
         else Option.bind (ends ''ies'' p) (\<lambda>(found, p).
           if found then setto ''i'' p
           else map_option (\<lambda>d. if d \<noteq> CHR ''s'' then p\<lparr>word_end := word_end p - 1\<rparr> else p)
                  (char_at (buf p) (word_end p - 1)))))"

text \<open>What follows when \<open>-ed\<close> or \<open>-ing\<close> has been taken off.\<close>

definition repair :: "porter \<Rightarrow> porter option" where
  "repair p =
     Option.bind (first_ending [(''at'', ''ate''), (''bl'', ''ble''), (''iz'', ''ize'')] p) (\<lambda>(s, p).
       case s of
         Some s \<Rightarrow> setto s p
       | None \<Rightarrow>
           Option.bind (doublec (buf p) (word_end p)) (\<lambda>double.
             if double
             then (let p = p\<lparr>word_end := word_end p - 1\<rparr>
                   in map_option (\<lambda>ch. if ch = CHR ''l'' \<or> ch = CHR ''s'' \<or> ch = CHR ''z''
                                       then p\<lparr>word_end := word_end p + 1\<rparr> else p)
                        (char_at (buf p) (word_end p)))
             else Option.bind (m p) (\<lambda>n.
               if n \<noteq> 1 then Some p
               else Option.bind (cvc (buf p) (word_end p)) (\<lambda>c.
                 if c then setto ''e'' p else Some p))))"

definition past :: "porter \<Rightarrow> porter option" where
  "past p =
     Option.bind (ends ''eed'' p) (\<lambda>(found, p).
       if found
       then map_option (\<lambda>n. if n > 0 then p\<lparr>word_end := word_end p - 1\<rparr> else p) (m p)
       else Option.bind (ends ''ed'' p) (\<lambda>(found, p).
         Option.bind (if found then Some (True, p) else ends ''ing'' p) (\<lambda>(found, p).
           if \<not> found then Some p
           else Option.bind (vowelinstem p) (\<lambda>v.
             if v then repair (p\<lparr>word_end := stem_end p\<rparr>) else Some p))))"

definition step1ab :: "porter \<Rightarrow> porter option" where
  "step1ab p = Option.bind (plural p) past"

definition step1c :: "porter \<Rightarrow> porter option" where
  "step1c p =
     Option.bind (ends ''y'' p) (\<lambda>(found, p).
       if \<not> found then Some p
       else map_option (\<lambda>v. if v then p\<lparr>buf := (buf p)[nat (word_end p) := CHR ''i'']\<rparr> else p)
              (vowelinstem p))"

text \<open>The replacements of steps 2 and 3 by the character that the \<open>switch\<close> looks at.\<close>

definition step2_rules :: "char \<Rightarrow> (string \<times> string) list" where
  "step2_rules c =
     (if c = CHR ''a'' then [(''ational'', ''ate''), (''tional'', ''tion'')]
      else if c = CHR ''c'' then [(''enci'', ''ence''), (''anci'', ''ance'')]
      else if c = CHR ''e'' then [(''izer'', ''ize'')]
      else if c = CHR ''l'' then [(''bli'', ''ble''), (''alli'', ''al''), (''entli'', ''ent''), (''eli'', ''e''),
        (''ousli'', ''ous'')]
      else if c = CHR ''o'' then [(''ization'', ''ize''), (''ation'', ''ate''), (''ator'', ''ate'')]
      else if c = CHR ''s'' then [(''alism'', ''al''), (''iveness'', ''ive''), (''fulness'', ''ful''),
        (''ousness'', ''ous'')]
      else if c = CHR ''t'' then [(''aliti'', ''al''), (''iviti'', ''ive''), (''biliti'', ''ble'')]
      else if c = CHR ''g'' then [(''logi'', ''log'')]
      else [])"

definition step3_rules :: "char \<Rightarrow> (string \<times> string) list" where
  "step3_rules c =
     (if c = CHR ''e'' then [(''icate'', ''ic''), (''ative'', []), (''alize'', ''al'')]
      else if c = CHR ''i'' then [(''iciti'', ''ic'')]
      else if c = CHR ''l'' then [(''ical'', ''ic''), (''ful'', [])]
      else if c = CHR ''s'' then [(''ness'', [])]
      else [])"

definition replace_ending :: "(string \<times> string) list \<Rightarrow> porter \<Rightarrow> porter option" where
  "replace_ending rules p =
     Option.bind (first_ending rules p) (\<lambda>(s, p). case s of None \<Rightarrow> Some p | Some s \<Rightarrow> r s p)"

definition step2 :: "porter \<Rightarrow> porter option" where
  "step2 p = Option.bind (char_at (buf p) (word_end p - 1)) (\<lambda>c. replace_ending (step2_rules c) p)"

definition step3 :: "porter \<Rightarrow> porter option" where
  "step3 p = Option.bind (char_at (buf p) (word_end p)) (\<lambda>c. replace_ending (step3_rules c) p)"

text \<open>The suffixes of step 4. The flag marks \<open>-ion\<close>, which has a condition of its own.\<close>

definition step4_endings :: "char \<Rightarrow> (string \<times> bool) list" where
  "step4_endings c =
     (if c = CHR ''a'' then [(''al'', False)]
      else if c = CHR ''c'' then [(''ance'', False), (''ence'', False)]
      else if c = CHR ''e'' then [(''er'', False)]
      else if c = CHR ''i'' then [(''ic'', False)]
      else if c = CHR ''l'' then [(''able'', False), (''ible'', False)]
      else if c = CHR ''n'' then [(''ant'', False), (''ement'', False), (''ment'', False), (''ent'', False)]
      else if c = CHR ''o'' then [(''ion'', True), (''ou'', False)]
      else if c = CHR ''s'' then [(''ism'', False)]
      else if c = CHR ''t'' then [(''ate'', False), (''iti'', False)]
      else if c = CHR ''u'' then [(''ous'', False)]
      else if c = CHR ''v'' then [(''ive'', False)]
      else if c = CHR ''z'' then [(''ize'', False)]
      else [])"

text \<open>The conditions of step 4 in their order: a suffix that is found and whose own condition holds ends
  the search. \<open>False\<close> is the early return.\<close>

fun drop_ending :: "(string \<times> bool) list \<Rightarrow> porter \<Rightarrow> (bool \<times> porter) option" where
  "drop_ending [] p = Some (False, p)"
| "drop_ending ((s, ion) # rest) p =
     Option.bind (ends s p) (\<lambda>(found, p).
       if found \<and> ion
       then Option.bind (char_at (buf p) (stem_end p)) (\<lambda>c.
              if c = CHR ''s'' \<or> c = CHR ''t'' then Some (True, p) else drop_ending rest p)
       else if found then Some (True, p)
       else drop_ending rest p)"

definition step4 :: "porter \<Rightarrow> porter option" where
  "step4 p =
     Option.bind (char_at (buf p) (word_end p - 1)) (\<lambda>c.
     Option.bind (drop_ending (step4_endings c) p) (\<lambda>(go_on, p).
       if \<not> go_on then Some p
       else map_option (\<lambda>n. if n > 1 then p\<lparr>word_end := stem_end p\<rparr> else p) (m p)))"

definition step5_e :: "porter \<Rightarrow> porter option" where
  "step5_e p =
     Option.bind (char_at (buf p) (word_end p)) (\<lambda>c.
       if c \<noteq> CHR ''e'' then Some p
       else Option.bind (m p) (\<lambda>a.
         if a > 1 then Some (p\<lparr>word_end := word_end p - 1\<rparr>)
         else if a \<noteq> 1 then Some p
         else map_option (\<lambda>c. if c then p else p\<lparr>word_end := word_end p - 1\<rparr>)
                (cvc (buf p) (word_end p - 1))))"

definition step5_l :: "porter \<Rightarrow> porter option" where
  "step5_l p =
     Option.bind (char_at (buf p) (word_end p)) (\<lambda>c.
       if c \<noteq> CHR ''l'' then Some p
       else Option.bind (doublec (buf p) (word_end p)) (\<lambda>d.
         if \<not> d then Some p
         else map_option (\<lambda>n. if n > 1 then p\<lparr>word_end := word_end p - 1\<rparr> else p) (m p)))"

definition step5 :: "porter \<Rightarrow> porter option" where
  "step5 p = (let p = p\<lparr>stem_end := word_end p\<rparr> in Option.bind (step5_e p) step5_l)"

definition before_step4 :: "porter \<Rightarrow> porter option" where
  "before_step4 p = Option.bind (step1ab p) (\<lambda>p. Option.bind (step1c p) (\<lambda>p. Option.bind (step2 p) step3))"

definition stem :: "string \<Rightarrow> int \<Rightarrow> (string \<times> int) option" where
  "stem p j =
     (if j \<le> 1 then Some (p, j)
      else map_option (\<lambda>p. (buf p, word_end p))
             (Option.bind (before_step4 \<lparr>buf = p, word_end = j, stem_end = 0\<rparr>)
               (\<lambda>p. Option.bind (step4 p) step5)))"

definition porter_stem :: "string \<Rightarrow> string option" where
  "porter_stem src = map_option (\<lambda>(b, k). take (nat (1 + k)) b) (stem src (int (size src) - 1))"

end
