(* ===== verification/Porter_Word.thy ===== *)
theory Porter_Word
  imports Porter "HOL-Library.Sublist"
begin

text \<open>
  The stemmer as functions of words, without a buffer and offsets: the specification that \<open>Porter\<close> is
  shown to implement. The steps 2 to 4 are tables of suffixes.
\<close>

subsection \<open>Vowels and consonants\<close>

text \<open>The consonants of a word, given whether the character before it is one.\<close>

fun consonants_from :: "bool option \<Rightarrow> string \<Rightarrow> bool list" where
  "consonants_from prev [] = []"
| "consonants_from prev (c # cs) =
     (let f = (if vowel c then False
               else if c = CHR ''y'' then prev \<noteq> Some True
               else True)
      in f # consonants_from (Some f) cs)"

definition consonants :: "string \<Rightarrow> bool list" where
  "consonants w = consonants_from None w"

text \<open>The number of places where a vowel is followed by a consonant.\<close>

fun vc_count :: "bool list \<Rightarrow> nat" where
  "vc_count (False # True # fs) = Suc (vc_count (True # fs))"
| "vc_count (f # fs) = vc_count fs"
| "vc_count [] = 0"

definition word_measure :: "string \<Rightarrow> nat" where
  "word_measure w = vc_count (consonants w)"

definition has_vowel :: "string \<Rightarrow> bool" where
  "has_vowel w \<longleftrightarrow> False \<in> set (consonants w)"

definition ends_double :: "string \<Rightarrow> bool" where
  "ends_double w \<longleftrightarrow> 2 \<le> length w \<and> last w = w ! (length w - 2) \<and> last (consonants w)"

definition ends_cvc :: "string \<Rightarrow> bool" where
  "ends_cvc w \<longleftrightarrow>
     3 \<le> length w \<and> drop (length w - 3) (consonants w) = [True, False, True] \<and>
     last w \<notin> {CHR ''w'', CHR ''x'', CHR ''y''}"

subsection \<open>The steps\<close>

definition without :: "string \<Rightarrow> string \<Rightarrow> string" where
  "without s w = take (length w - length s) w"

definition word_plural :: "string \<Rightarrow> string" where
  "word_plural w =
     (if last w \<noteq> CHR ''s'' then w
      else if suffix ''sses'' w then without ''es'' w
      else if suffix ''ies'' w then without ''ies'' w @ ''i''
      else if w ! (length w - 2) \<noteq> CHR ''s'' then butlast w
      else w)"

definition word_repair :: "string \<Rightarrow> string" where
  "word_repair w =
     (if suffix ''at'' w \<or> suffix ''bl'' w \<or> suffix ''iz'' w then w @ ''e''
      else if ends_double w then (if last w \<in> {CHR ''l'', CHR ''s'', CHR ''z''} then w else butlast w)
      else if word_measure w = 1 \<and> ends_cvc w then w @ ''e''
      else w)"

definition word_past :: "string \<Rightarrow> string" where
  "word_past w =
     (if suffix ''eed'' w then (if 0 < word_measure (without ''eed'' w) then butlast w else w)
      else if suffix ''ed'' w
      then (if has_vowel (without ''ed'' w) then word_repair (without ''ed'' w) else w)
      else if suffix ''ing'' w
      then (if has_vowel (without ''ing'' w) then word_repair (without ''ing'' w) else w)
      else w)"

definition word_y :: "string \<Rightarrow> string" where
  "word_y w = (if suffix ''y'' w \<and> has_vowel (butlast w) then butlast w @ ''i'' else w)"

definition word_replace :: "(string \<times> string) list \<Rightarrow> string \<Rightarrow> string" where
  "word_replace rules w =
     (case find (\<lambda>(s, _). suffix s w) rules of
        None \<Rightarrow> w
      | Some (s, t) \<Rightarrow> if 0 < word_measure (without s w) then without s w @ t else w)"

definition step2_table :: "(string \<times> string) list" where
  "step2_table =
     [(''ational'', ''ate''), (''tional'', ''tion''), (''enci'', ''ence''), (''anci'', ''ance''),
      (''izer'', ''ize''), (''bli'', ''ble''), (''alli'', ''al''), (''entli'', ''ent''), (''eli'', ''e''),
      (''ousli'', ''ous''), (''ization'', ''ize''), (''ation'', ''ate''), (''ator'', ''ate''),
      (''alism'', ''al''), (''iveness'', ''ive''), (''fulness'', ''ful''), (''ousness'', ''ous''),
      (''aliti'', ''al''), (''iviti'', ''ive''), (''biliti'', ''ble''), (''logi'', ''log'')]"

definition step3_table :: "(string \<times> string) list" where
  "step3_table =
     [(''icate'', ''ic''), (''ative'', []), (''alize'', ''al''), (''iciti'', ''ic''), (''ical'', ''ic''),
      (''ful'', []), (''ness'', [])]"

definition step4_table :: "(string \<times> bool) list" where
  "step4_table =
     [(''al'', False), (''ance'', False), (''ence'', False), (''er'', False), (''ic'', False), (''able'', False),
      (''ible'', False), (''ant'', False), (''ement'', False), (''ment'', False), (''ent'', False),
      (''ion'', True), (''ou'', False), (''ism'', False), (''ate'', False), (''iti'', False),
      (''ous'', False), (''ive'', False), (''ize'', False)]"

definition may_drop :: "string \<Rightarrow> string \<times> bool \<Rightarrow> bool" where
  "may_drop w = (\<lambda>(s, ion). suffix s w \<and> (ion \<longrightarrow> last (without s w) \<in> {CHR ''s'', CHR ''t''}))"

definition word_step4 :: "string \<Rightarrow> string" where
  "word_step4 w =
     (case find (may_drop w) step4_table of
        None \<Rightarrow> w
      | Some (s, _) \<Rightarrow> if 1 < word_measure (without s w) then without s w else w)"

definition word_e :: "string \<Rightarrow> string" where
  "word_e w =
     (if last w = CHR ''e'' \<and> (1 < word_measure w \<or> word_measure w = 1 \<and> \<not> ends_cvc (butlast w))
      then butlast w else w)"

definition word_l :: "string \<Rightarrow> string" where
  "word_l w = (if last w = CHR ''l'' \<and> ends_double w \<and> 1 < word_measure w then butlast w else w)"

definition word_1ab :: "string \<Rightarrow> string" where
  "word_1ab w = word_past (word_plural w)"

definition word_123 :: "string \<Rightarrow> string" where
  "word_123 w = word_replace step3_table (word_replace step2_table (word_y (word_1ab w)))"

definition word_stem :: "string \<Rightarrow> string" where
  "word_stem w = (if length w \<le> 2 then w else word_l (word_e (word_step4 (word_123 w))))"

subsection \<open>Consonants of prefixes\<close>

lemma length_consonants_from [simp]: "length (consonants_from prev w) = length w"
  by (induction prev w rule: consonants_from.induct) (auto simp: Let_def)

lemma length_consonants [simp]: "length (consonants w) = length w"
  by (simp add: consonants_def)

lemma consonants_from_take: "consonants_from prev (take n w) = take n (consonants_from prev w)"
proof (induction prev w arbitrary: n rule: consonants_from.induct)
  case (2 prev c cs)
  then show ?case by (cases n) (simp_all add: Let_def)
qed simp

lemma consonants_take: "consonants (take n w) = take n (consonants w)"
  by (simp add: consonants_def consonants_from_take)

lemma consonants_nth:
  "i < length w \<Longrightarrow> consonants_from prev w ! i =
     (if vowel (w ! i) then False
      else if w ! i = CHR ''y'' then (if i = 0 then prev \<noteq> Some True else \<not> consonants_from prev w ! (i - 1))
      else True)"
proof (induction prev w arbitrary: i rule: consonants_from.induct)
  case (2 prev c cs)
  define f where "f = (if vowel c then False else if c = CHR ''y'' then prev \<noteq> Some True else True)"
  show ?case
  proof (cases i)
    case (Suc n)
    have "n < length cs" using "2.prems" Suc by simp
    note ih = "2.IH" [OF refl this, folded f_def]
    have h: "consonants_from prev (c # cs) = f # consonants_from (Some f) cs"
      by (simp add: Let_def f_def)
    show ?thesis
    proof (cases n)
      case 0
      then show ?thesis using ih Suc unfolding h by (simp only: nth_Cons_Suc nth_Cons_0 diff_Suc_1) auto
    next
      case (Suc k)
      then show ?thesis using ih \<open>i = Suc n\<close> unfolding h by (simp only: nth_Cons_Suc diff_Suc_1) auto
    qed
  qed (simp add: Let_def)
qed simp

lemma char_at_prefix: "prefix w b \<Longrightarrow> i < length w \<Longrightarrow> char_at b (int i) = Some (w ! i)"
  by (auto simp: prefix_def char_at_def nth_append)

lemma take_prefix: "prefix w b \<Longrightarrow> prefix (take n w) b"
  by (rule prefix_order.trans [OF take_is_prefix])

lemma cons_consonants:
  "prefix w b \<Longrightarrow> i < length w \<Longrightarrow> cons b (int i) = Some (consonants w ! i)"
proof (induction i)
  case 0
  then show ?case
    using char_at_prefix [of w b 0] consonants_nth [of 0 w None]
    by (subst cons.simps) (simp add: consonants_def)
next
  case (Suc i)
  then have "cons b (int i) = Some (consonants w ! i)" by simp
  then show ?case
    using Suc.prems char_at_prefix [of w b "Suc i"] consonants_nth [of "Suc i" w None]
    by (subst cons.simps) (simp add: consonants_def)
qed

end
