(* ===== verification/Porter_Refines.thy ===== *)
theory Porter_Refines
  imports Porter_Word
begin

text \<open>
  The buffer of \<open>Porter\<close> holds a word of \<open>Porter_Word\<close>; each step on the buffer does what the step on
  words does, as long as it stays inside the buffer.
\<close>

subsection \<open>Measuring\<close>

definition upto_next :: "bool \<Rightarrow> string \<Rightarrow> nat \<Rightarrow> nat" where
  "upto_next want x i = i + length (takeWhile (\<lambda>f. f \<noteq> want) (drop i (consonants x)))"

lemma upto_next_step:
  "i < length x \<Longrightarrow>
     upto_next want x i = (if consonants x ! i = want then i else upto_next want x (Suc i))"
  unfolding upto_next_def
  using Cons_nth_drop_Suc [of i "consonants x"] by (auto simp flip: Cons_nth_drop_Suc)

lemma upto_next_le: "i \<le> length x \<Longrightarrow> upto_next want x i \<le> length x"
  unfolding upto_next_def
  using length_takeWhile_le [of "\<lambda>f. f \<noteq> want" "drop i (consonants x)"] by simp

lemma upto_next_drop:
  "i \<le> length x \<Longrightarrow> dropWhile (\<lambda>f. f \<noteq> want) (drop i (consonants x)) = drop (upto_next want x i) (consonants x)"
  by (simp add: upto_next_def dropWhile_eq_drop add.commute)

lemma seek_next:
  "prefix x b \<Longrightarrow> i \<le> length x \<Longrightarrow>
     seek b (int (length x) - 1) want (int i) =
       Some (if upto_next want x i < length x then Some (int (upto_next want x i)) else None)"
proof (induction "length x - i" arbitrary: i)
  case 0
  then show ?case by (subst seek.simps) (simp add: upto_next_def)
next
  case (Suc n)
  have i: "i < length x" using Suc.hyps(2) by simp
  have ih: "seek b (int (length x) - 1) want (int i + 1) =
      Some (if upto_next want x (Suc i) < length x then Some (int (upto_next want x (Suc i))) else None)"
    using Suc.hyps(1) [of "Suc i"] Suc.hyps(2) Suc.prems by (simp add: add.commute)
  show ?case
    using i ih cons_consonants [OF Suc.prems(1) i] upto_next_step [OF i, of want]
    by (subst seek.simps) simp
qed

lemma upto_next_found:
  assumes "i \<le> length x" "upto_next want x i < length x"
  shows "drop (upto_next want x i) (consonants x) = want # drop (Suc (upto_next want x i)) (consonants x)"
proof -
  let ?n = "upto_next want x i"
  have d: "drop ?n (consonants x) = consonants x ! ?n # drop (Suc ?n) (consonants x)"
    using assms(2) by (simp add: Cons_nth_drop_Suc)
  have "dropWhile (\<lambda>f. f \<noteq> want) (drop i (consonants x)) = consonants x ! ?n # drop (Suc ?n) (consonants x)"
    using upto_next_drop [OF assms(1), of want] d by simp
  then have "consonants x ! ?n = want" unfolding dropWhile_eq_Cons_conv by simp
  then show ?thesis using d by simp
qed

lemma vc_skip_vowels: "vc_count (False # fs) = vc_count (False # dropWhile (\<lambda>f. f \<noteq> True) fs)"
  by (induction fs) auto

lemma vc_skip_consonants: "vc_count fs = vc_count (dropWhile (\<lambda>f. f \<noteq> False) fs)"
  by (induction fs rule: vc_count.induct) auto

lemma vc_True [simp]: "vc_count (True # fs) = vc_count fs"
  by (cases fs) auto

lemma m_loop_counts:
  "prefix x b \<Longrightarrow> i \<le> length x \<Longrightarrow>
     m_loop b (int (length x) - 1) (int i) n = Some (n + vc_count (False # drop i (consonants x)))"
proof (induction "length x - i" arbitrary: i n rule: less_induct)
  case less
  let ?fs = "consonants x" and ?j = "int (length x) - 1"
  define c where "c = upto_next True x i"
  have vc: "vc_count (False # drop i ?fs) = vc_count (False # drop c ?fs)"
    using vc_skip_vowels [of "drop i ?fs"] upto_next_drop [OF less.prems(2), of True] c_def by simp
  have s1: "seek b ?j True (int i) = Some (if c < length x then Some (int c) else None)"
    using seek_next [OF less.prems] c_def by simp
  show ?case
  proof (cases "c < length x")
    case False
    then show ?thesis using s1 vc by (subst m_loop.simps) simp
  next
    case c: True
    define v where "v = upto_next False x (Suc c)"
    have dc: "drop c ?fs = True # drop (Suc c) ?fs"
      using upto_next_found [OF less.prems(2), of True] c c_def by simp
    have "vc_count (drop (Suc c) ?fs) = vc_count (drop v ?fs)"
      using vc_skip_consonants [of "drop (Suc c) ?fs"] upto_next_drop [of "Suc c" x False] c v_def by simp
    then have vc': "vc_count (False # drop i ?fs) = Suc (vc_count (drop v ?fs))"
      using vc dc by simp
    have s2: "seek b ?j False (int c + 1) = Some (if v < length x then Some (int v) else None)"
      using seek_next [OF less.prems(1), of "Suc c"] c v_def by (simp add: add.commute)
    show ?thesis
    proof (cases "v < length x")
      case False
      then show ?thesis using s1 s2 c vc' by (subst m_loop.simps) simp
    next
      case v: True
      have iv: "i \<le> c" "Suc c \<le> v" by (simp_all add: c_def v_def upto_next_def)
      have dv: "drop v ?fs = False # drop (Suc v) ?fs"
        using upto_next_found [of "Suc c" x False] c v v_def by simp
      have "m_loop b ?j (int v + 1) (Suc n) = Some (Suc n + vc_count (False # drop (Suc v) ?fs))"
        using less.hyps [of "Suc v" "Suc n"] less.prems(1) v iv by (simp add: add.commute)
      then show ?thesis using s1 s2 c v vc' dv by (subst m_loop.simps) simp
    qed
  qed
qed

text \<open>The stem up to \<open>j\<close> is a prefix of the buffer.\<close>

definition stem_is :: "porter \<Rightarrow> string \<Rightarrow> bool" where
  "stem_is p x \<longleftrightarrow> prefix x (buf p) \<and> stem_end p = int (length x) - 1"

lemma upto_next_first: "upto_next want x 0 < length x \<longleftrightarrow> want \<in> set (consonants x)"
proof -
  have "upto_next want x 0 < length x \<longleftrightarrow> dropWhile (\<lambda>f. f \<noteq> want) (consonants x) \<noteq> []"
    using upto_next_drop [of 0 x want] by auto
  then show ?thesis by (auto simp: dropWhile_eq_Nil_conv)
qed

lemma vowelinstem_word: "stem_is p x \<Longrightarrow> vowelinstem p = Some (has_vowel x)"
  using seek_next [of x "buf p" 0 False] upto_next_first [of False x]
  by (simp add: vowelinstem_def stem_is_def has_vowel_def)

lemma m_word: "stem_is p x \<Longrightarrow> m p = Some (word_measure x)"
proof -
  assume p: "stem_is p x"
  let ?v = "upto_next False x 0"
  have s: "seek (buf p) (stem_end p) False 0 = Some (if ?v < length x then Some (int ?v) else None)"
    using seek_next [of x "buf p" 0 False] p by (simp add: stem_is_def)
  have vc: "word_measure x = vc_count (drop ?v (consonants x))"
    using vc_skip_consonants [of "consonants x"] upto_next_drop [of 0 x False] by (simp add: word_measure_def)
  show ?thesis
  proof (cases "?v < length x")
    case True
    then have "drop ?v (consonants x) = False # drop (Suc ?v) (consonants x)"
      using upto_next_found [of 0 x False] by simp
    moreover have "m_loop (buf p) (stem_end p) (int ?v + 1) 0 =
        Some (vc_count (False # drop (Suc ?v) (consonants x)))"
      using m_loop_counts [of x "buf p" "Suc ?v" 0] p True by (simp add: stem_is_def add.commute)
    ultimately show ?thesis using s vc True by (simp add: m_def)
  next
    case False
    then show ?thesis using s vc by (simp add: m_def)
  qed
qed

subsection \<open>The word in the buffer\<close>

definition word_is :: "porter \<Rightarrow> string \<Rightarrow> bool" where
  "word_is p w \<longleftrightarrow> w \<noteq> [] \<and> prefix w (buf p) \<and> word_end p = int (length w) - 1"

lemma word_is_stem: "word_is p w \<Longrightarrow> stem_end p = word_end p \<Longrightarrow> stem_is p w"
  by (simp add: word_is_def stem_is_def)

lemma last_char: "prefix w b \<Longrightarrow> w \<noteq> [] \<Longrightarrow> char_at b (int (length w) - 1) = Some (last w)"
  using char_at_prefix [of w b "length w - 1"] by (simp add: last_conv_nth of_nat_diff Suc_leI)

lemma char_before_last: "prefix w b \<Longrightarrow> 2 \<le> length w \<Longrightarrow> char_at b (int (length w) - 2) = Some (w ! (length w - 2))"
  using char_at_prefix [of w b "length w - 2"] by (simp add: of_nat_diff)

lemma last_consonant: "w \<noteq> [] \<Longrightarrow> last (consonants w) = consonants w ! (length w - 1)"
  by (metis last_conv_nth length_0_conv length_consonants)

lemma doublec_word:
  assumes "prefix w b" "w \<noteq> []"
  shows "doublec b (int (length w) - 1) = Some (ends_double w)"
proof (cases "2 \<le> length w")
  case True
  have "cons b (int (length w) - 1) = Some (consonants w ! (length w - 1))"
    using cons_consonants [OF assms(1), of "length w - 1"] True by (simp add: of_nat_diff)
  moreover have "int (length w) - 1 - 1 = int (length w) - 2" by simp
  ultimately show ?thesis
    using True last_char [OF assms] char_before_last [OF assms(1)] last_consonant [OF assms(2)]
    by (auto simp: doublec_def ends_double_def)
next
  case False
  then show ?thesis by (simp add: doublec_def ends_double_def)
qed

lemma drop_last_three:
  "3 \<le> length fs \<Longrightarrow> drop (length fs - 3) fs = [fs ! (length fs - 3), fs ! (length fs - 2), fs ! (length fs - 1)]"
proof -
  assume "3 \<le> length fs"
  then have n: "length fs = Suc (Suc (Suc (length fs - 3)))" by simp
  show ?thesis
  proof (rule nth_equalityI)
    fix i assume "i < length (drop (length fs - 3) fs)"
    then have "i = 0 \<or> i = 1 \<or> i = 2" using n by auto
    moreover have "length fs - 3 + 1 = length fs - 2" "length fs - 3 + 2 = length fs - 1" using n by arith+
    ultimately show "drop (length fs - 3) fs ! i = [fs ! (length fs - 3), fs ! (length fs - 2), fs ! (length fs - 1)] ! i"
      using n by auto
  qed (use n in simp)
qed

lemma cvc_word: "prefix w b \<Longrightarrow> cvc b (int (length w) - 1) = Some (ends_cvc w)"
proof -
  assume w: "prefix w b"
  show ?thesis
  proof (cases "3 \<le> length w")
    case True
    have c: "cons b (int (length w) - int (Suc n)) = Some (consonants w ! (length w - Suc n))" if "n < 3" for n
      using cons_consonants [OF w, of "length w - Suc n"] that True by (simp add: of_nat_diff)
    have "char_at b (int (length w) - 1) = Some (last w)" using last_char [OF w] True by fastforce
    then show ?thesis
      using True c [of 0] c [of 1] c [of 2] drop_last_three [of "consonants w"]
      by (auto simp: cvc_def ends_cvc_def numeral_2_eq_2 numeral_3_eq_3)
  next
    case False
    then show ?thesis by (simp add: cvc_def ends_cvc_def)
  qed
qed

lemma suffix_iff_drop: "suffix s w \<longleftrightarrow> length s \<le> length w \<and> drop (length w - length s) w = s"
proof
  assume "length s \<le> length w \<and> drop (length w - length s) w = s"
  then show "suffix s w" by (metis suffix_drop)
qed (auto simp: suffix_def)

lemma without_suffix: "suffix s w \<Longrightarrow> w = without s w @ s"
  by (auto simp: suffix_def without_def)

lemma length_without_ending: "length (without s w) = length w - length s"
  by (simp add: without_def)

lemma ends_word:
  assumes "word_is p w" "s \<noteq> []"
  shows "ends s p =
    Some (if suffix s w then (True, p\<lparr>stem_end := int (length (without s w)) - 1\<rparr>) else (False, p))"
proof -
  have w: "w \<noteq> []" "prefix w (buf p)" "word_end p = int (length w) - 1" using assms(1) by (auto simp: word_is_def)
  obtain z where z: "buf p = w @ z" using w(2) by (auto simp: prefix_def)
  have c: "char_at (buf p) (word_end p) = Some (last w)" using last_char [OF w(2,1)] w(3) by simp
  have l: "last s = last w" if "suffix s w" using that assms(2) by (auto simp: suffix_def)
  have fits: "int (length s) > word_end p + 1 \<longleftrightarrow> length w < length s" using w(3) by simp
  have part: "take (length s) (drop (nat (word_end p - int (length s) + 1)) (buf p)) = drop (length w - length s) w"
    if "length s \<le> length w"
  proof -
    have "nat (word_end p - int (length s) + 1) = length w - length s" using w(3) that by simp
    then show ?thesis using that z by simp
  qed
  have e: "word_end p - int (length s) = int (length (without s w)) - 1" if "length s \<le> length w"
    using w(3) that by (simp add: length_without_ending of_nat_diff)
  show ?thesis
    unfolding ends_def Let_def c fits
    using l part e suffix_iff_drop [of s w] by (cases "length s \<le> length w") auto
qed

lemma without_stem:
  "word_is p w \<Longrightarrow> stem_is (p\<lparr>stem_end := int (length (without s w)) - 1\<rparr>) (without s w)"
  unfolding word_is_def stem_is_def without_def by (simp add: take_prefix)

lemma setto_word:
  assumes "stem_is p x" "x @ t \<noteq> []" "length x + length t \<le> length (buf p)"
  obtains p' where "setto t p = Some p'" "word_is p' (x @ t)" "length (buf p') = length (buf p)"
    "stem_end p' = stem_end p"
proof -
  obtain z where z: "buf p = x @ z" using assms(1) by (auto simp: stem_is_def prefix_def)
  have from_x: "nat (stem_end p + 1) = length x" using assms(1) by (simp add: stem_is_def)
  define p' where "p' = p\<lparr>buf := x @ t @ drop (length x + length t) (buf p), word_end := stem_end p + int (length t)\<rparr>"
  have "setto t p = Some p'"
    using assms from_x z unfolding setto_def Let_def p'_def by (simp add: stem_is_def)
  moreover have "word_is p' (x @ t)"
    using assms by (simp add: p'_def word_is_def stem_is_def prefix_def)
  moreover have "length (buf p') = length (buf p)" using assms(3) by (simp add: p'_def)
  ultimately show thesis by (intro that [of p']) (simp_all add: p'_def)
qed

subsection \<open>Steps 1a to 1c\<close>

text \<open>A step does on the buffer what it should do to the word in it.\<close>

definition does :: "(porter \<Rightarrow> porter option) \<Rightarrow> porter \<Rightarrow> string \<Rightarrow> bool" where
  "does f p w \<longleftrightarrow> (\<exists>p'. f p = Some p' \<and> word_is p' w \<and> length (buf p') = length (buf p))"

lemma doesI: "f p = Some p' \<Longrightarrow> word_is p' w \<Longrightarrow> length (buf p') = length (buf p) \<Longrightarrow> does f p w"
  by (auto simp: does_def)

lemma doesE:
  assumes "does f p w"
  obtains p' where "f p = Some p'" "word_is p' w" "length (buf p') = length (buf p)"
  using assms by (auto simp: does_def)

lemma does_setto:
  "stem_is p x \<Longrightarrow> x @ t \<noteq> [] \<Longrightarrow> length x + length t \<le> length (buf p) \<Longrightarrow> does (setto t) p (x @ t)"
  by (erule setto_word) (auto simp: does_def)

lemma word_shorter:
  "word_is p w \<Longrightarrow> 0 < n \<Longrightarrow> n \<le> length w \<Longrightarrow> word_is (p\<lparr>word_end := int n - 1\<rparr>) (take n w)"
  by (auto simp: word_is_def take_prefix)

lemma word_butlast:
  "word_is p w \<Longrightarrow> 2 \<le> length w \<Longrightarrow> word_is (p\<lparr>word_end := word_end p - 1\<rparr>) (butlast w)"
  using word_shorter [of p w "length w - 1"] by (simp add: butlast_conv_take word_is_def of_nat_diff)

lemma word_is_keep: "word_is (p\<lparr>stem_end := j\<rparr>) w = word_is p w"
  by (simp add: word_is_def)

lemma word_is_length: "word_is p w \<Longrightarrow> length w \<le> length (buf p)"
  by (auto simp: word_is_def dest: prefix_length_le)

lemma suffix_length: "suffix s w \<Longrightarrow> length (without s w) + length s = length w"
  by (auto simp: suffix_def without_def)

lemma last_is: "word_is p w \<Longrightarrow> char_at (buf p) (word_end p) = Some (last w)"
  using last_char by (auto simp: word_is_def)

lemma plural_word:
  assumes w: "word_is p w" "2 \<le> length w"
  shows "does plural p (word_plural w)"
proof (cases "last w = CHR ''s''")
  case s: True
  note c = last_is [OF w(1)]
  note ends = ends_word [OF w(1)]
  show ?thesis
  proof (cases "suffix ''sses'' w")
    case True
    then have n: "length (without ''sses'' w) + 4 = length w" using suffix_length by fastforce
    have "without ''es'' w = take (length w - 2) w" by (simp add: without_def numeral_2_eq_2)
    moreover have "word_is (p\<lparr>word_end := int (length w - 2) - 1, stem_end := j\<rparr>) (take (length w - 2) w)" for j
      using word_shorter [OF w(1), of "length w - 2"] n by (simp add: word_is_keep)
    ultimately show ?thesis
      using c s True ends [of "''sses''"] n w(1)
      by (auto simp: plural_def word_plural_def does_def word_is_def of_nat_diff)
  next
    case no_sses: False
    show ?thesis
    proof (cases "suffix ''ies'' w")
      case True
      let ?x = "without ''ies'' w"
      let ?p = "p\<lparr>stem_end := int (length ?x) - 1\<rparr>"
      have "length ?x + 3 = length w" using suffix_length [OF True] by simp
      then have "does (setto ''i'') ?p (?x @ ''i'')"
        using does_setto [OF without_stem [OF w(1)], of "''ies''" "''i''"] word_is_length [OF w(1)] by simp
      then show ?thesis
        using c s True no_sses ends [of "''sses''"] ends [of "''ies''"]
        by (auto simp: plural_def word_plural_def does_def)
    next
      case False
      have "char_at (buf p) (word_end p - 1) = Some (w ! (length w - 2))"
        using char_before_last [of w "buf p"] w by (simp add: word_is_def)
      then show ?thesis
        using c s False no_sses ends [of "''sses''"] ends [of "''ies''"] w(1) word_butlast [OF w]
        by (auto simp: plural_def word_plural_def does_def)
    qed
  qed
next
  case False
  then show ?thesis
    using last_is [OF w(1)] w(1) by (auto simp: plural_def word_plural_def does_def)
qed

lemma find_Cons_Some: "find P (x # xs) = (if P x then Some x else find P xs)"
  by simp

lemma first_ending_word:
  "word_is p w \<Longrightarrow> list_all (\<lambda>(s, a). s \<noteq> []) rules \<Longrightarrow>
     first_ending rules p =
       Some (case find (\<lambda>(s, a). suffix s w) rules of
               None \<Rightarrow> (None, p)
             | Some (s, a) \<Rightarrow> (Some a, p\<lparr>stem_end := int (length (without s w)) - 1\<rparr>))"
  by (induction rules) (auto simp: ends_word)

lemma repair_word:
  assumes w: "word_is p w" "stem_end p = word_end p" "length w < length (buf p)"
  shows "does repair p (word_repair w)"
proof -
  have w': "prefix w (buf p)" "w \<noteq> []" "word_end p = int (length w) - 1" using w(1) by (auto simp: word_is_def)
  let ?rules = "[(''at'', ''ate''), (''bl'', ''ble''), (''iz'', ''ize'')]"
  have first: "first_ending ?rules p =
      Some (case find (\<lambda>(s, a). suffix s w) ?rules of
               None \<Rightarrow> (None, p)
             | Some (s, a) \<Rightarrow> (Some a, p\<lparr>stem_end := int (length (without s w)) - 1\<rparr>))"
    by (rule first_ending_word [OF w(1)]) simp
  show ?thesis
  proof (cases "find (\<lambda>(s, a). suffix s w) ?rules")
    case (Some sa)
    then obtain s where sa: "sa = (s, s @ ''e'')" "suffix s w" "s \<in> {''at'', ''bl'', ''iz''}"
      by (auto split: if_splits)
    let ?p = "p\<lparr>stem_end := int (length (without s w)) - 1\<rparr>"
    have len: "length (without s w) + length s = length w" using suffix_length [OF sa(2)] .
    have app: "without s w @ s @ ''e'' = w @ ''e''" using without_suffix [OF sa(2)] by (metis append.assoc)
    have "does (setto (s @ ''e'')) ?p (w @ ''e'')"
      using does_setto [OF without_stem [OF w(1)], of s "s @ ''e''"] len w(3) by (simp add: app)
    moreover have "word_repair w = w @ ''e''" using sa(2,3) by (auto simp: word_repair_def)
    ultimately show ?thesis using first Some sa(1) by (simp add: repair_def does_def)
  next
    case None
    then have no: "\<not> (suffix ''at'' w \<or> suffix ''bl'' w \<or> suffix ''iz'' w)" by (auto split: if_splits)
    have f: "first_ending ?rules p = Some (None, p)" using first None by simp
    have d: "doublec (buf p) (word_end p) = Some (ends_double w)" using doublec_word [OF w'(1,2)] w'(3) by simp
    show ?thesis
    proof (cases "ends_double w")
      case True
      then have two: "2 \<le> length w" "w ! (length w - 2) = last w" by (simp_all add: ends_double_def)
      let ?p = "p\<lparr>word_end := word_end p - 1\<rparr>"
      have "char_at (buf p) (word_end p - 1) = Some (last w)"
        using char_before_last [OF w'(1) two(1)] two(2) w'(3) by simp
      then have "repair p = Some (if last w \<in> {CHR ''l'', CHR ''s'', CHR ''z''} then p else ?p)"
        using f d True by (auto simp: repair_def Let_def)
      moreover have "word_is ?p (butlast w)" by (rule word_butlast [OF w(1) two(1)])
      ultimately show ?thesis using True w(1) no by (auto simp: does_def word_repair_def)
    next
      case False
      have stem: "stem_is p w" by (rule word_is_stem [OF w(1,2)])
      have "repair p = (if word_measure w = 1 \<and> ends_cvc w then setto ''e'' p else Some p)"
        using f d False m_word [OF stem] cvc_word [OF w'(1)] w'(3) by (simp add: repair_def)
      moreover have "does (setto ''e'') p (w @ ''e'')" using does_setto [OF stem, of "''e''"] w(3) by simp
      ultimately show ?thesis using False no w(1) by (auto simp: does_def word_repair_def)
    qed
  qed
qed

lemma vc_Nil [simp]: "word_measure [] = 0" "\<not> has_vowel []"
  by (simp_all add: word_measure_def has_vowel_def consonants_def)

lemma past_word:
  assumes w: "word_is p w"
  shows "does past p (word_past w)"
proof -
  note ends = ends_word [OF w]
  show ?thesis
  proof (cases "suffix ''eed'' w")
    case True
    let ?p = "p\<lparr>stem_end := int (length (without ''eed'' w)) - 1\<rparr>"
    have two: "2 \<le> length w" using suffix_length [OF True] by simp
    have "m ?p = Some (word_measure (without ''eed'' w))" by (rule m_word [OF without_stem [OF w]])
    moreover have "word_is (?p\<lparr>word_end := word_end p - 1\<rparr>) (butlast w)"
      using word_butlast [OF w two] by (simp add: word_is_def)
    ultimately show ?thesis
      using True ends [of "''eed''"] w by (auto simp: past_def word_past_def does_def word_is_keep)
  next
    case no_eed: False
    have past: "does (\<lambda>p. Option.bind (vowelinstem p) (\<lambda>v.
        if v then repair (p\<lparr>word_end := stem_end p\<rparr>) else Some p))
        (p\<lparr>stem_end := int (length (without s w)) - 1\<rparr>)
        (if has_vowel (without s w) then word_repair (without s w) else w)" (is "does ?f ?p ?w")
      if s: "suffix s w" "s \<noteq> []" for s
    proof (cases "has_vowel (without s w)")
      case True
      then have ne: "without s w \<noteq> []" by auto
      let ?q = "?p\<lparr>word_end := stem_end ?p\<rparr>"
      have "word_is ?q (without s w)"
        using without_stem [OF w, of s] ne by (simp add: word_is_def stem_is_def)
      moreover have "length (without s w) < length (buf p)"
        using suffix_length [OF s(1)] s(2) word_is_length [OF w] by (cases s) auto
      ultimately have "does repair ?q (word_repair (without s w))"
        by (intro repair_word) simp_all
      then show ?thesis using True vowelinstem_word [OF without_stem [OF w, of s]] by (simp add: does_def)
    next
      case False
      then show ?thesis
        using vowelinstem_word [OF without_stem [OF w, of s]] w by (simp add: does_def word_is_keep)
    qed
    show ?thesis
      using no_eed ends [of "''eed''"] ends [of "''ed''"] ends [of "''ing''"] past [of "''ed''"] past [of "''ing''"] w
      by (cases "suffix ''ed'' w"; cases "suffix ''ing'' w") (simp_all add: past_def word_past_def does_def)
  qed
qed

lemma y_word:
  assumes w: "word_is p w"
  shows "does step1c p (word_y w)"
proof (cases "suffix ''y'' w")
  case True
  let ?p = "p\<lparr>stem_end := int (length (without ''y'' w)) - 1\<rparr>"
  have x: "without ''y'' w = butlast w" by (simp add: without_def butlast_conv_take)
  have v: "vowelinstem ?p = Some (has_vowel (butlast w))"
    using vowelinstem_word [OF without_stem [OF w, of "''y''"]] x by simp
  obtain z where z: "buf p = w @ z" "w \<noteq> []" "word_end p = int (length w) - 1"
    using w by (auto simp: word_is_def prefix_def)
  have at: "nat (word_end p) = length w - 1" using z(2,3) by (cases w) auto
  have "(buf p)[length w - 1 := c] = (butlast w @ [c]) @ z" for c
    using z(1,2) by (cases w rule: rev_cases) (simp_all add: list_update_append)
  then have "word_is (?p\<lparr>buf := (buf p)[nat (word_end p) := CHR ''i'']\<rparr>) (butlast w @ ''i'')"
    using z at by (simp add: word_is_def of_nat_diff Suc_leI)
  then show ?thesis
    using True ends_word [OF w, of "''y''"] v w by (auto simp: step1c_def word_y_def does_def word_is_keep)
next
  case False
  then show ?thesis using ends_word [OF w, of "''y''"] w by (simp add: step1c_def word_y_def does_def)
qed

subsection \<open>Steps 2 to 5\<close>

text \<open>The \<open>switch\<close> of a step selects the rules of a table whose suffix has the character in question.\<close>

lemma find_filter: "(\<And>x. x \<in> set xs \<Longrightarrow> P x \<Longrightarrow> Q x) \<Longrightarrow> find P (filter Q xs) = find P xs"
  by (induction xs) auto

lemma step2_rules_table: "step2_rules c = filter (\<lambda>(s, t). c = s ! (length s - 2)) step2_table"
proof (cases "c \<in> set ''acelostg''")
  case True
  then show ?thesis by (auto simp: step2_rules_def step2_table_def)
next
  case False
  then show ?thesis by (simp add: step2_rules_def step2_table_def)
qed

lemma step3_rules_table: "step3_rules c = filter (\<lambda>(s, t). c = last s) step3_table"
proof (cases "c \<in> set ''eils''")
  case True
  then show ?thesis by (auto simp: step3_rules_def step3_table_def)
next
  case False
  then show ?thesis by (simp add: step3_rules_def step3_table_def)
qed

lemma step4_endings_table: "step4_endings c = filter (\<lambda>(s, ion). c = s ! (length s - 2)) step4_table"
proof (cases "c \<in> set ''aceilnostuvz''")
  case True
  then show ?thesis by (auto simp: step4_endings_def step4_table_def)
next
  case False
  then show ?thesis by (simp add: step4_endings_def step4_table_def)
qed

lemma suffix_before_last: "suffix s w \<Longrightarrow> 2 \<le> length s \<Longrightarrow> s ! (length s - 2) = w ! (length w - 2)"
  by (auto simp: suffix_def nth_append)

lemma suffix_last: "suffix s w \<Longrightarrow> s \<noteq> [] \<Longrightarrow> last s = last w"
  by (auto simp: suffix_def)

lemma step2_select: "word_replace (step2_rules (w ! (length w - 2))) w = word_replace step2_table w"
proof -
  have "\<forall>(s, t) \<in> set step2_table. 2 \<le> length s" by (simp add: step2_table_def)
  then have "find (\<lambda>(s, _). suffix s w) (step2_rules (w ! (length w - 2))) = find (\<lambda>(s, _). suffix s w) step2_table"
    unfolding step2_rules_table by (intro find_filter) (auto simp: suffix_before_last)
  then show ?thesis by (simp only: word_replace_def)
qed

lemma step3_select: "word_replace (step3_rules (last w)) w = word_replace step3_table w"
proof -
  have "\<forall>(s, t) \<in> set step3_table. s \<noteq> []" by (simp add: step3_table_def)
  then have "find (\<lambda>(s, _). suffix s w) (step3_rules (last w)) = find (\<lambda>(s, _). suffix s w) step3_table"
    unfolding step3_rules_table by (intro find_filter) (auto simp: suffix_last)
  then show ?thesis by (simp only: word_replace_def)
qed

definition shrinking :: "(string \<times> string) list \<Rightarrow> bool" where
  "shrinking rules \<longleftrightarrow> list_all (\<lambda>(s, t). s \<noteq> [] \<and> length t \<le> length s) rules"

lemma shrinking_tables: "shrinking step2_table" "shrinking step3_table"
  by (simp_all add: shrinking_def step2_table_def step3_table_def)

lemma shrinking_filter: "shrinking rules \<Longrightarrow> shrinking (filter P rules)"
  by (auto simp: shrinking_def list_all_iff)

lemma find_SomeD: "find P xs = Some x \<Longrightarrow> x \<in> set xs \<and> P x"
  by (auto simp: find_Some_iff)

lemma replace_ending_word:
  assumes w: "word_is p w" and rules: "shrinking rules"
  shows "does (replace_ending rules) p (word_replace rules w)"
proof -
  have first: "first_ending rules p =
      Some (case find (\<lambda>(s, a). suffix s w) rules of
               None \<Rightarrow> (None, p)
             | Some (s, a) \<Rightarrow> (Some a, p\<lparr>stem_end := int (length (without s w)) - 1\<rparr>))"
    by (rule first_ending_word [OF w]) (use rules in \<open>auto simp: shrinking_def list_all_iff\<close>)
  show ?thesis
  proof (cases "find (\<lambda>(s, a). suffix s w) rules")
    case None
    then show ?thesis using first w by (simp add: replace_ending_def word_replace_def does_def)
  next
    case (Some sa)
    obtain s t where sa: "sa = (s, t)" by fastforce
    then have s: "suffix s w" "length t \<le> length s"
      using find_SomeD [OF Some] rules by (auto simp: shrinking_def list_all_iff)
    let ?p = "p\<lparr>stem_end := int (length (without s w)) - 1\<rparr>"
    have len: "length (without s w) + length t \<le> length (buf p)"
      using suffix_length [OF s(1)] s(2) word_is_length [OF w] by simp
    have m: "m ?p = Some (word_measure (without s w))" by (rule m_word [OF without_stem [OF w]])
    have "does (r t) ?p (if 0 < word_measure (without s w) then without s w @ t else w)"
    proof (cases "0 < word_measure (without s w)")
      case True
      then have "without s w \<noteq> []" by auto
      then have "does (setto t) ?p (without s w @ t)"
        using does_setto [OF without_stem [OF w, of s], of t] len by simp
      then show ?thesis using True m by (simp add: r_def does_def)
    next
      case False
      then show ?thesis using m w by (simp add: r_def does_def word_is_keep)
    qed
    then show ?thesis using first Some sa by (simp add: replace_ending_def word_replace_def does_def)
  qed
qed

lemma step2_word: "word_is p w \<Longrightarrow> 2 \<le> length w \<Longrightarrow> does step2 p (word_replace step2_table w)"
proof -
  assume w: "word_is p w" "2 \<le> length w"
  have "char_at (buf p) (word_end p - 1) = Some (w ! (length w - 2))"
    using char_before_last [of w "buf p"] w by (simp add: word_is_def)
  moreover have "shrinking (step2_rules c)" for c
    unfolding step2_rules_table by (rule shrinking_filter [OF shrinking_tables(1)])
  ultimately show ?thesis
    using replace_ending_word [OF w(1), of "step2_rules (w ! (length w - 2))"]
    by (simp add: step2_def does_def step2_select)
qed

lemma step3_word: "word_is p w \<Longrightarrow> does step3 p (word_replace step3_table w)"
proof -
  assume w: "word_is p w"
  have "shrinking (step3_rules c)" for c
    unfolding step3_rules_table by (rule shrinking_filter [OF shrinking_tables(2)])
  then show ?thesis
    using replace_ending_word [OF w, of "step3_rules (last w)"] last_is [OF w]
    by (simp add: step3_def does_def step3_select)
qed

text \<open>A word of one character: step 2 reads in front of the buffer.\<close>

lemma step2_single: "word_is p [c] \<Longrightarrow> step2 p = None"
  by (simp add: word_is_def step2_def char_at_def)

lemma drop_ending_word:
  assumes w: "word_is p w" and ne: "list_all (\<lambda>(s, ion). s \<noteq> []) es"
    and stem: "\<And>s. (s, True) \<in> set es \<Longrightarrow> suffix s w \<Longrightarrow> without s w \<noteq> []"
  shows "(case find (may_drop w) es of
      None \<Rightarrow> \<exists>j. drop_ending es p = Some (False, p\<lparr>stem_end := j\<rparr>)
    | Some (s, _) \<Rightarrow> drop_ending es p = Some (True, p\<lparr>stem_end := int (length (without s w)) - 1\<rparr>))"
  using w ne stem
proof (induction es arbitrary: p)
  case Nil
  have "p = p\<lparr>stem_end := stem_end p\<rparr>" by simp
  then show ?case by (simp, metis)
next
  case (Cons e rest)
  obtain s ion where e: "e = (s, ion)" by fastforce
  let ?p = "p\<lparr>stem_end := int (length (without s w)) - 1\<rparr>"
  have s: "s \<noteq> []" using Cons.prems(2) e by simp
  have ends: "ends s p = Some (if suffix s w then (True, ?p) else (False, p))"
    by (rule ends_word [OF Cons.prems(1) s])
  have w: "word_is ?p w" using Cons.prems(1) by (simp add: word_is_keep)
  have ih: "case find (may_drop w) rest of
      None \<Rightarrow> \<exists>j. drop_ending rest q = Some (False, q\<lparr>stem_end := j\<rparr>)
    | Some (s, _) \<Rightarrow> drop_ending rest q = Some (True, q\<lparr>stem_end := int (length (without s w)) - 1\<rparr>)"
    if "word_is q w" for q
    by (rule Cons.IH) (use that Cons.prems in auto)
  show ?case
  proof (cases "suffix s w")
    case False
    then have f: "find (may_drop w) (e # rest) = find (may_drop w) rest"
      and d: "drop_ending (e # rest) p = drop_ending rest p"
      using ends e by (simp_all add: may_drop_def)
    show ?thesis unfolding f d by (rule ih [OF Cons.prems(1)])
  next
    case True
    show ?thesis
    proof (cases ion)
      case False
      then show ?thesis using True ends e by (simp add: may_drop_def)
    next
      case ion: True
      have ne: "without s w \<noteq> []" using Cons.prems(3) True ion e by simp
      have "char_at (buf ?p) (stem_end ?p) = Some (last (without s w))"
        using last_char [OF _ ne, of "buf p"] without_stem [OF Cons.prems(1), of s] by (simp add: stem_is_def)
      then have d: "drop_ending (e # rest) p =
          (if last (without s w) \<in> {CHR ''s'', CHR ''t''} then Some (True, ?p) else drop_ending rest ?p)"
        using True ion ends e by simp
      have f: "find (may_drop w) (e # rest) =
          (if last (without s w) \<in> {CHR ''s'', CHR ''t''} then Some e else find (may_drop w) rest)"
        using True ion e by (simp add: may_drop_def)
      show ?thesis
        using ih [OF w] e unfolding d f by (auto split: option.splits)
    qed
  qed
qed

lemma step4_single: "word_is p [c] \<Longrightarrow> step4 p = None"
  by (simp add: word_is_def step4_def char_at_def)

lemma step4_ion: "word_is p ''ion'' \<Longrightarrow> step4 p = None"
proof -
  assume w: "word_is p ''ion''"
  have "char_at (buf p) (word_end p - 1) = Some CHR ''o''"
    using char_before_last [of "''ion''" "buf p"] w by (simp add: word_is_def)
  moreover have "ends ''ion'' p = Some (True, p\<lparr>stem_end := - 1\<rparr>)"
    using ends_word [OF w, of "''ion''"] by (simp add: without_def)
  ultimately show ?thesis by (simp add: step4_def step4_endings_def char_at_def)
qed

lemma step4_word:
  assumes w: "word_is p w" "2 \<le> length w" "w \<noteq> ''ion''"
  shows "does step4 p (word_step4 w)"
proof -
  let ?es = "step4_endings (w ! (length w - 2))"
  have "\<forall>(s, ion) \<in> set step4_table. 2 \<le> length s" "\<forall>(s, ion) \<in> set step4_table. ion \<longrightarrow> s = ''ion''"
    by (simp_all add: step4_table_def)
  then have es: "list_all (\<lambda>(s, ion). s \<noteq> []) ?es" "\<And>s. (s, True) \<in> set ?es \<Longrightarrow> s = ''ion''"
    and select: "find (may_drop w) ?es = find (may_drop w) step4_table"
    unfolding step4_endings_table
    by (auto simp: list_all_iff may_drop_def suffix_before_last intro!: find_filter)
  have stem: "without s w \<noteq> []" if "(s, True) \<in> set ?es" "suffix s w" for s
    using es(2) [OF that(1)] without_suffix [OF that(2)] w(3) by auto
  have c: "char_at (buf p) (word_end p - 1) = Some (w ! (length w - 2))"
    using char_before_last [of w "buf p"] w by (simp add: word_is_def)
  note drop = drop_ending_word [OF w(1) es(1) stem]
  show ?thesis
  proof (cases "find (may_drop w) step4_table")
    case None
    then obtain j where "drop_ending ?es p = Some (False, p\<lparr>stem_end := j\<rparr>)" using drop select by auto
    then show ?thesis using c None w(1) by (simp add: step4_def does_def word_step4_def word_is_keep)
  next
    case (Some sa)
    obtain s ion where sa: "sa = (s, ion)" by fastforce
    let ?p = "p\<lparr>stem_end := int (length (without s w)) - 1\<rparr>"
    have d: "drop_ending ?es p = Some (True, ?p)" using drop select Some sa by simp
    have m: "m ?p = Some (word_measure (without s w))" by (rule m_word [OF without_stem [OF w(1)]])
    show ?thesis
    proof (cases "1 < word_measure (without s w)")
      case True
      then have "without s w \<noteq> []" by auto
      then have "word_is (?p\<lparr>word_end := stem_end ?p\<rparr>) (without s w)"
        using without_stem [OF w(1), of s] by (simp add: word_is_def stem_is_def)
      then show ?thesis using c d m True Some sa by (simp add: step4_def does_def word_step4_def)
    next
      case False
      then show ?thesis using c d m Some sa w(1) by (simp add: step4_def does_def word_step4_def word_is_keep)
    qed
  qed
qed

lemma consonants_snoc_vowel: "w \<noteq> [] \<Longrightarrow> vowel (last w) \<Longrightarrow> consonants w = consonants (butlast w) @ [False]"
proof -
  assume w: "w \<noteq> []" "vowel (last w)"
  have "consonants w = take (length w - 1) (consonants w) @ [last (consonants w)]"
    using w(1) by (metis append_butlast_last_id butlast_conv_take length_0_conv length_consonants)
  moreover have "last (consonants w) = False"
    using last_consonant [OF w(1)] consonants_nth [of "length w - 1" w None] w
    by (simp add: consonants_def last_conv_nth)
  ultimately show ?thesis by (simp add: consonants_take butlast_conv_take)
qed

lemma vc_snoc_vowel: "vc_count (fs @ [False]) = vc_count fs"
  by (induction fs rule: vc_count.induct) auto

lemma measure_snoc_vowel: "w \<noteq> [] \<Longrightarrow> last w = CHR ''e'' \<Longrightarrow> word_measure (butlast w) = word_measure w"
  using consonants_snoc_vowel [of w] by (simp add: word_measure_def vowel_def vc_snoc_vowel)

lemma step5_word:
  assumes w: "word_is p w" "2 \<le> length w"
  shows "does step5 p (word_l (word_e w))"
proof -
  let ?p = "p\<lparr>stem_end := word_end p\<rparr>"
  have pw: "word_is ?p w" "prefix w (buf p)" "w \<noteq> []" "word_end p = int (length w) - 1"
    using w(1) by (auto simp: word_is_def)
  have stem: "stem_is ?p w" by (rule word_is_stem [OF pw(1)]) simp
  have b: "word_is (?p\<lparr>word_end := word_end p - 1\<rparr>) (butlast w)" "prefix (butlast w) (buf p)"
    using word_butlast [OF pw(1) w(2)] by (auto simp: word_is_def)
  have cvc: "cvc (buf p) (word_end p - 1) = Some (ends_cvc (butlast w))"
    using cvc_word [OF b(2)] pw(4) w(2) by (simp add: of_nat_diff)
  have e: "\<exists>p'. step5_e ?p = Some p' \<and> word_is p' (word_e w) \<and> buf p' = buf p \<and> stem_end p' = word_end p"
    using m_word [OF stem] last_is [OF w(1)] cvc pw(1) b(1) by (auto simp: step5_e_def word_e_def)
  then obtain q where q: "step5_e ?p = Some q" "word_is q (word_e w)" "buf q = buf p" "stem_end q = word_end p"
    by blast
  have mq: "m q = Some (word_measure (word_e w))"
    using m_word [of q w] stem measure_snoc_vowel [OF pw(3)] q(3,4) by (auto simp: stem_is_def word_e_def)
  have wq: "prefix (word_e w) (buf q)" "word_e w \<noteq> []" "word_end q = int (length (word_e w)) - 1"
    using q(2) by (auto simp: word_is_def)
  have two: "2 \<le> length (word_e w)" if "ends_double (word_e w)" using that by (simp add: ends_double_def)
  have "step5 p = step5_l q" using q(1) by (simp add: step5_def Let_def)
  moreover have "step5_l q =
      Some (if last (word_e w) = CHR ''l'' \<and> ends_double (word_e w) \<and> 1 < word_measure (word_e w)
            then q\<lparr>word_end := word_end q - 1\<rparr> else q)"
    using last_is [OF q(2)] doublec_word [OF wq(1,2)] wq(3) mq by (auto simp: step5_l_def)
  moreover have "does step5_l q (word_l (word_e w))"
    using calculation q(2) word_butlast [OF q(2) two] by (auto simp: does_def word_l_def)
  ultimately show ?thesis using q(3) by (simp add: does_def)
qed

end
