(* ===== verification/Porter_Properties.thy ===== *)
theory Porter_Properties
  imports Porter_Refines
begin

text \<open>
  What the stemmer computes and when it leaves its buffer.
\<close>

subsection \<open>Lengths\<close>

lemma butlast_ne: "2 \<le> length w \<Longrightarrow> butlast w \<noteq> []"
  by (cases w rule: rev_cases) auto

lemma length_repair: "w \<noteq> [] \<Longrightarrow> word_repair w \<noteq> [] \<and> length (word_repair w) \<le> Suc (length w)"
  using butlast_ne [of w] by (auto simp: word_repair_def ends_double_def)

lemma length_plural: "2 \<le> length w \<Longrightarrow> word_plural w \<noteq> [] \<and> length (word_plural w) \<le> length w"
proof -
  assume w: "2 \<le> length w"
  have "without ''es'' w \<noteq> []" if "suffix ''sses'' w"
    using suffix_length [OF that] by (auto simp: without_def)
  moreover have "length (without ''ies'' w @ ''i'') \<le> length w" if "suffix ''ies'' w"
    using suffix_length [OF that] by simp
  ultimately show ?thesis using w butlast_ne [OF w] by (auto simp: word_plural_def without_def)
qed

lemma length_past: "w \<noteq> [] \<Longrightarrow> word_past w \<noteq> [] \<and> length (word_past w) \<le> length w"
proof -
  assume w: "w \<noteq> []"
  have eed: "butlast w \<noteq> []" if "suffix ''eed'' w" using butlast_ne [of w] suffix_length [OF that] by simp
  have rep: "word_repair (without s w) \<noteq> [] \<and> length (word_repair (without s w)) \<le> length w"
    if "suffix s w" "s \<noteq> []" "has_vowel (without s w)" for s
  proof -
    have "without s w \<noteq> []" using that(3) by auto
    moreover have "Suc (length (without s w)) \<le> length w"
      using suffix_length [OF that(1)] that(2) by (cases s) auto
    ultimately show ?thesis using length_repair by (meson order_trans)
  qed
  show ?thesis using w eed rep by (auto simp: word_past_def)
qed

lemma length_y: "w \<noteq> [] \<Longrightarrow> word_y w \<noteq> [] \<and> length (word_y w) = length w"
  by (auto simp: word_y_def)

lemma measured_length: "0 < word_measure x \<Longrightarrow> 2 \<le> length x"
proof (rule ccontr)
  assume x: "0 < word_measure x" "\<not> 2 \<le> length x"
  then have "x = [] \<or> (\<exists>c. x = [c])"
    by (metis One_nat_def Suc_leI length_0_conv length_Suc_conv not_less_eq_eq numeral_2_eq_2 le_antisym le0)
  then show False using x(1) by (auto simp: word_measure_def consonants_def Let_def split: if_splits)
qed

lemma length_replace:
  assumes "shrinking rules" "w \<noteq> []"
  shows "word_replace rules w \<noteq> [] \<and> length (word_replace rules w) \<le> length w \<and>
    (2 \<le> length w \<longrightarrow> 2 \<le> length (word_replace rules w))"
proof (cases "find (\<lambda>(s, _). suffix s w) rules")
  case (Some sa)
  obtain s t where sa: "sa = (s, t)" by fastforce
  then have s: "suffix s w" "length t \<le> length s"
    using find_SomeD [OF Some] assms(1) by (auto simp: shrinking_def list_all_iff)
  show ?thesis
    using suffix_length [OF s(1)] s(2) sa Some assms(2) measured_length [of "without s w"] by (auto simp: word_replace_def)
qed (use assms(2) in \<open>simp add: word_replace_def\<close>)

lemma length_step4:
  assumes "2 \<le> length w"
  shows "2 \<le> length (word_step4 w) \<and> length (word_step4 w) \<le> length w"
proof -
  have "2 \<le> length (without s w) \<and> length (without s w) \<le> length w"
    if "1 < word_measure (without s w)" for s
    using measured_length [of "without s w"] that by (simp add: length_without_ending)
  then show ?thesis using assms by (auto simp: word_step4_def split: option.split)
qed

lemma length_e: "2 \<le> length w \<Longrightarrow> word_e w \<noteq> [] \<and> length (word_e w) \<le> length w"
  using butlast_ne [of w] by (auto simp: word_e_def)

lemma length_l: "w \<noteq> [] \<Longrightarrow> word_l w \<noteq> [] \<and> length (word_l w) \<le> length w"
  using butlast_ne [of w] by (auto simp: word_l_def ends_double_def)

lemma length_1ab: "2 \<le> length w \<Longrightarrow> word_1ab w \<noteq> [] \<and> length (word_1ab w) \<le> length w"
  unfolding word_1ab_def using length_plural [of w] length_past [of "word_plural w"] by auto

lemma length_123:
  assumes "2 \<le> length w"
  shows "word_123 w \<noteq> [] \<and> length (word_123 w) \<le> length w \<and>
    (2 \<le> length (word_1ab w) \<longrightarrow> 2 \<le> length (word_123 w))"
proof -
  note y = length_y [of "word_1ab w"]
  note r2 = length_replace [OF shrinking_tables(1), of "word_y (word_1ab w)"]
  note r3 = length_replace [OF shrinking_tables(2), of "word_replace step2_table (word_y (word_1ab w))"]
  show ?thesis using length_1ab [OF assms] y r2 r3 unfolding word_123_def by (metis le_trans)
qed

subsection \<open>The whole run\<close>

definition start :: "string \<Rightarrow> porter" where
  "start w = \<lparr>buf = w, word_end = int (length w) - 1, stem_end = 0\<rparr>"

lemma start_word: "w \<noteq> [] \<Longrightarrow> word_is (start w) w"
  by (simp add: start_def word_is_def)

lemma step1_word:
  assumes "3 \<le> length w"
  shows "does step1ab (start w) (word_1ab w)"
proof -
  have "does plural (start w) (word_plural w)"
    using assms by (intro plural_word start_word) auto
  then obtain p where p: "plural (start w) = Some p" "word_is p (word_plural w)" "length (buf p) = length (buf (start w))"
    by (rule doesE)
  then show ?thesis using past_word [OF p(2)] by (simp add: step1ab_def does_def word_1ab_def)
qed

lemma before_step4_word:
  assumes "3 \<le> length w"
  shows "if length (word_1ab w) = 1 then before_step4 (start w) = None
    else does before_step4 (start w) (word_123 w)"
proof -
  obtain p where p: "step1ab (start w) = Some p" "word_is p (word_1ab w)" "length (buf p) = length (buf (start w))"
    using step1_word [OF assms] by (rule doesE)
  obtain q where q: "step1c p = Some q" "word_is q (word_y (word_1ab w))" "length (buf q) = length (buf p)"
    using y_word [OF p(2)] by (rule doesE)
  have len: "length (word_y (word_1ab w)) = length (word_1ab w)"
    using length_y length_1ab [of w] assms by simp
  show ?thesis
  proof (cases "length (word_1ab w) = 1")
    case True
    then obtain c where "word_y (word_1ab w) = [c]" using len by (metis One_nat_def length_0_conv length_Suc_conv)
    then have "step2 q = None" using q(2) step2_single by simp
    then show ?thesis using p(1) q(1) True by (simp add: before_step4_def)
  next
    case False
    then have "2 \<le> length (word_1ab w)"
      using length_1ab [of w] assms by (cases "word_1ab w") (auto simp: Suc_le_eq numeral_2_eq_2)
    then obtain u where u: "step2 q = Some u" "word_is u (word_replace step2_table (word_y (word_1ab w)))"
      "length (buf u) = length (buf q)"
      using step2_word [OF q(2)] len by (metis doesE)
    show ?thesis
      using step3_word [OF u(2)] False p q u by (simp add: before_step4_def does_def word_123_def)
  qed
qed

text \<open>The words that leave the buffer: those of which step 1 leaves a single character, for which step 2
  reads \<open>b[k - 1]\<close>, and those that are \<open>ion\<close> before step 4, which reads \<open>b[j]\<close>.\<close>

definition leaves_buffer :: "string \<Rightarrow> bool" where
  "leaves_buffer w \<longleftrightarrow> 3 \<le> length w \<and> (length (word_1ab w) = 1 \<or> word_123 w = ''ion'')"

text \<open>C27: the stemmer, which works with offsets in one buffer, computes the function \<open>word_stem\<close> of
  words, with the measure of a stem the number of its vowel-consonant changes and each step a table
  of suffixes. It reads outside the buffer exactly for the words of which step 1 leaves one character
  and those that are \<open>ion\<close> before step 4.\<close>

theorem porter_computes_word_stem:
  "porter_stem w = (if leaves_buffer w then None else Some (word_stem w))"
proof (cases "length w \<le> 2")
  case True
  then have "take (nat (int (length w))) w = w" by simp
  then show ?thesis using True by (simp add: porter_stem_def stem_def leaves_buffer_def word_stem_def)
next
  case False
  then have three: "3 \<le> length w" "2 \<le> length w" by simp_all
  have run: "porter_stem w = map_option (\<lambda>p. take (nat (1 + word_end p)) (buf p))
      (Option.bind (before_step4 (start w)) (\<lambda>p. Option.bind (step4 p) step5))"
    using False by (simp add: porter_stem_def stem_def start_def option.map_comp o_def)
  show ?thesis
  proof (cases "length (word_1ab w) = 1")
    case True
    then show ?thesis using before_step4_word [OF three(1)] run three by (simp add: leaves_buffer_def)
  next
    case one: False
    then have "does before_step4 (start w) (word_123 w)" using before_step4_word [OF three(1)] by simp
    then obtain p where p: "before_step4 (start w) = Some p" "word_is p (word_123 w)" by (rule doesE)
    have "2 \<le> length (word_1ab w)"
      using length_1ab [OF three(2)] one by (cases "word_1ab w") (auto simp: Suc_le_eq numeral_2_eq_2)
    then have two: "2 \<le> length (word_123 w)" using length_123 [OF three(2)] by simp
    show ?thesis
    proof (cases "word_123 w = ''ion''")
      case True
      then show ?thesis using p run step4_ion [of p] three by (simp add: leaves_buffer_def)
    next
      case False
      obtain q where q: "step4 p = Some q" "word_is q (word_step4 (word_123 w))"
        using step4_word [OF p(2) two False] by (rule doesE)
      obtain u where u: "step5 q = Some u" "word_is u (word_l (word_e (word_step4 (word_123 w))))"
        using step5_word [OF q(2)] length_step4 [OF two] by (metis doesE)
      have "take (nat (1 + word_end u)) (buf u) = word_l (word_e (word_step4 (word_123 w)))"
        using u(2) by (auto simp: word_is_def prefix_def)
      then show ?thesis using p q u run one False three by (simp add: leaves_buffer_def word_stem_def)
    qed
  qed
qed

text \<open>Stemming never makes a word longer, and never empties one.\<close>

theorem porter_never_lengthens:
  assumes "porter_stem w = Some w'"
  shows "length w' \<le> length w \<and> (w' = [] \<longleftrightarrow> w = [])"
proof (cases "length w \<le> 2")
  case True
  then show ?thesis using assms by (auto simp: porter_computes_word_stem word_stem_def split: if_splits)
next
  case False
  then have w: "3 \<le> length w" "2 \<le> length w" by simp_all
  have "length (word_1ab w) \<noteq> 1" and w': "w' = word_stem w"
    using assms w by (auto simp: porter_computes_word_stem leaves_buffer_def split: if_splits)
  then have "2 \<le> length (word_1ab w)"
    using length_1ab [OF w(2)] by (cases "word_1ab w") (auto simp: Suc_le_eq numeral_2_eq_2)
  then have a: "2 \<le> length (word_123 w)" "length (word_123 w) \<le> length w" using length_123 [OF w(2)] by auto
  note b = length_step4 [OF a(1)]
  note c = length_e [of "word_step4 (word_123 w)"]
  note d = length_l [of "word_e (word_step4 (word_123 w))"]
  show ?thesis using a b c d w w' by (auto simp: word_stem_def)
qed

theorem porter_never_lengthens_witness:
  "porter_stem ''relational'' = Some ''relat'' \<and> length ''relat'' \<le> length ''relational''"
proof -
  have s: "porter_stem ''relational'' = Some ''relat''" by code_simp
  then show ?thesis using porter_never_lengthens [OF s] by simp
qed

subsection \<open>The words that leave the buffer\<close>

definition single_words :: "string list" where
  "single_words =
     [''ies'', ''aed'', ''ied'', ''oed'', ''ued'', ''aeds'', ''ieds'', ''oeds'', ''ueds'',
      ''aing'', ''eing'', ''iing'', ''oing'', ''uing'', ''aings'', ''eings'', ''iings'', ''oings'', ''uings'']"

lemma single_word_ed:
  "vowel c \<Longrightarrow> c \<noteq> CHR ''e'' \<Longrightarrow> w = c # ''ed'' \<or> w = (c # ''ed'') @ ''s'' \<Longrightarrow> w \<in> set single_words"
  unfolding vowel_def insert_iff empty_iff by (elim disjE) (simp_all add: single_words_def)

lemma single_word_ing:
  "vowel c \<Longrightarrow> w = c # ''ing'' \<or> w = (c # ''ing'') @ ''s'' \<Longrightarrow> w \<in> set single_words"
  unfolding vowel_def insert_iff empty_iff by (elim disjE) (simp_all add: single_words_def)

lemma short_double_vowel: "length x = 2 \<Longrightarrow> has_vowel x \<Longrightarrow> \<not> ends_double x"
proof -
  assume "length x = 2" "has_vowel x"
  moreover from this obtain a b where "x = [a, b]" by (metis length_0_conv length_Suc_conv numeral_2_eq_2)
  ultimately show ?thesis
    by (auto simp: ends_double_def has_vowel_def consonants_def Let_def split: if_splits)
qed

lemma single_repair: "has_vowel x \<Longrightarrow> length (word_repair x) = 1 \<Longrightarrow> \<exists>c. x = [c] \<and> vowel c"
proof -
  assume x: "has_vowel x" "length (word_repair x) = 1"
  have ne: "x \<noteq> []" using x(1) by auto
  have "length x = 1"
  proof (rule ccontr)
    assume "length x \<noteq> 1"
    then have two: "2 \<le> length x" using ne by (cases x) (auto simp: Suc_le_eq numeral_2_eq_2)
    have "word_repair x = butlast x" "ends_double x"
      using x(2) two by (auto simp: word_repair_def split: if_splits)
    moreover from this have "length x = 2" using x(2) two by simp
    ultimately show False using x(1) short_double_vowel [of x] by simp
  qed
  then obtain c where "x = [c]" by (metis One_nat_def length_0_conv length_Suc_conv)
  then show ?thesis using x(1) by (auto simp: has_vowel_def consonants_def Let_def split: if_splits)
qed

lemma single_past:
  assumes "length (word_past u) = 1"
  obtains "length u = 1" | c where "vowel c" "c \<noteq> CHR ''e''" "u = c # ''ed''" | c where "vowel c" "u = c # ''ing''"
proof (cases "length u = 1")
  case False
  have eed: False if "suffix ''eed'' u"
    using assms that False suffix_length [OF that] by (auto simp: word_past_def split: if_splits)
  then have "(suffix ''ed'' u \<and> has_vowel (without ''ed'' u) \<and> length (word_repair (without ''ed'' u)) = 1) \<or>
      (suffix ''ing'' u \<and> has_vowel (without ''ing'' u) \<and> length (word_repair (without ''ing'' u)) = 1)"
    using assms False by (auto simp: word_past_def split: if_splits)
  then show thesis
  proof
    assume a: "suffix ''ed'' u \<and> has_vowel (without ''ed'' u) \<and> length (word_repair (without ''ed'' u)) = 1"
    then obtain c where c: "without ''ed'' u = [c]" "vowel c" using single_repair by blast
    then have u: "u = c # ''ed''" using without_suffix [of "''ed''" u] a by simp
    moreover have "c \<noteq> CHR ''e''" using eed u by auto
    ultimately show thesis using that(2) c(2) by blast
  next
    assume a: "suffix ''ing'' u \<and> has_vowel (without ''ing'' u) \<and> length (word_repair (without ''ing'' u)) = 1"
    then obtain c where c: "without ''ing'' u = [c]" "vowel c" using single_repair by blast
    then have "u = c # ''ing''" using without_suffix [of "''ing''" u] a by simp
    then show thesis using that(3) c(2) by blast
  qed
qed (rule that(1))

lemma plural_is:
  assumes "word_plural w = u" "2 \<le> length w" "last u \<noteq> CHR ''s''" "last u \<noteq> CHR ''i''"
  shows "w = u \<or> w = u @ ''s''"
proof (cases "last w = CHR ''s''")
  case True
  have "u \<noteq> without ''es'' w" if s: "suffix ''sses'' w"
  proof -
    have "w = without ''sses'' w @ ''sses''" by (rule without_suffix [OF s])
    then obtain y where "w = y @ ''sses''" by blast
    then show ?thesis using assms(3) by (auto simp: without_def)
  qed
  then have "u = butlast w \<or> u = w"
    using assms True by (auto simp: word_plural_def split: if_splits)
  then show ?thesis
    using True assms(2) by (metis append_butlast_last_id list.size(3) not_numeral_le_zero)
qed (use assms in \<open>simp add: word_plural_def\<close>)

lemma single_plural: "3 \<le> length w \<Longrightarrow> length (word_plural w) = 1 \<Longrightarrow> w = ''ies''"
proof -
  assume w: "3 \<le> length w" "length (word_plural w) = 1"
  have "4 \<le> length w" if "suffix ''sses'' w" using suffix_length [OF that] by simp
  then have s: "suffix ''ies'' w" "length (without ''ies'' w) = 0"
    using w by (auto simp: word_plural_def without_def split: if_splits)
  then show ?thesis using without_suffix [OF s(1)] by simp
qed

text \<open>C28: the words of which step 1 leaves one character, so that step 2 reads in front of the
  buffer, are \<open>ies\<close>, a vowel with \<open>-ed\<close> or \<open>-eds\<close> (not \<open>e\<close>), and a vowel with \<open>-ing\<close> or \<open>-ings\<close>.\<close>

theorem porter_leaves_buffer_iff:
  "porter_stem w = None \<longleftrightarrow> w \<in> set single_words \<or> (3 \<le> length w \<and> word_123 w = ''ion'')"
proof -
  have "w \<in> set single_words" if w: "3 \<le> length w" "length (word_1ab w) = 1"
  proof (rule single_past)
    show "length (word_past (word_plural w)) = 1" using w(2) by (simp add: word_1ab_def)
    have two: "2 \<le> length w" using w(1) by simp
    show ?thesis if "length (word_plural w) = 1"
      using single_plural [OF w(1) that] by (simp add: single_words_def)
    show ?thesis if c: "vowel c" "c \<noteq> CHR ''e''" "word_plural w = c # ''ed''" for c
      using single_word_ed [OF c(1,2)] plural_is [OF c(3) two] by simp
    show ?thesis if c: "vowel c" "word_plural w = c # ''ing''" for c
      using single_word_ing [OF c(1)] plural_is [OF c(2) two] by simp
  qed
  moreover have "\<forall>w \<in> set single_words. 3 \<le> length w \<and> length (word_1ab w) = 1"
    by (simp add: single_words_def word_1ab_def word_plural_def word_past_def word_repair_def without_def
        has_vowel_def consonants_def ends_double_def ends_cvc_def word_measure_def vowel_def suffix_def)
  ultimately show ?thesis by (auto simp: porter_computes_word_stem leaves_buffer_def)
qed

end
