(* ===== verification/Parse_Ast.thy ===== *)
theory Parse_Ast
  imports Parser
begin

text \<open>
  The second parser engine, \<open>parse_ast.hpp\<close>: rules are stateless, and a static \<open>parse\<close> returns whether
  the rule matched and, in an argument, a node of a tree of its own. A rule is a value of the same
  datatype \<open>rule\<close>, a node of the same \<open>ast\<close>; the functions are translated from their own source. They
  differ from those of \<open>parse.hpp\<close> in some texts of error reports only, which is shown in
  \<open>Parse_Ast_Agrees\<close>.
\<close>

subsection \<open>Helpers\<close>

definition ast_to_lower_ch :: "char \<Rightarrow> char" where
  "ast_to_lower_ch c =
     (if char_val (CHR ''A'') \<le> char_val c \<and> char_val c \<le> char_val (CHR ''Z'')
      then char_of (char_val c - char_val (CHR ''A'') + char_val (CHR ''a'')) else c)"

definition ast_swap_case_ch :: "char \<Rightarrow> char" where
  "ast_swap_case_ch c =
     (if char_val (CHR ''A'') \<le> char_val c \<and> char_val c \<le> char_val (CHR ''Z'')
      then char_of (char_val c - char_val (CHR ''A'') + char_val (CHR ''a''))
      else if char_val (CHR ''a'') \<le> char_val c \<and> char_val c \<le> char_val (CHR ''z'')
      then char_of (char_val c - char_val (CHR ''a'') + char_val (CHR ''A''))
      else c)"

definition ast_char_match :: "char \<Rightarrow> char \<Rightarrow> bool \<Rightarrow> bool" where
  "ast_char_match a b ic = (if ic then ast_to_lower_ch a = ast_to_lower_ch b else a = b)"

definition ast_is_whitespace :: "parse_context \<Rightarrow> char \<Rightarrow> bool" where
  "ast_is_whitespace ctx c \<longleftrightarrow> ignore_whitespace ctx \<and> c \<in> set (whitespace_chars ctx)"

fun ast_skip_ws :: "parse_context \<Rightarrow> iter \<Rightarrow> iter" where
  "ast_skip_ws ctx it =
     (case it of [] \<Rightarrow> [] | c # cs \<Rightarrow> if ast_is_whitespace ctx c then ast_skip_ws ctx cs else it)"

declare ast_skip_ws.simps [simp del]

text \<open>\<open>detail::adopt\<close>: the child is added at the end; a node's link to its parent is not kept.\<close>

definition adopt :: "ast \<Rightarrow> ast \<Rightarrow> ast" where
  "adopt parent child = Node (node_type parent) (get_text parent) (children parent @ [child])"

definition make_node :: "rule \<Rightarrow> ast" where
  "make_node r = Node r [] []"

definition with_text :: "ast \<Rightarrow> string \<Rightarrow> ast" where
  "with_text node t = Node (node_type node) t (children node)"

lemmas node_defs = adopt_def make_node_def with_text_def

subsection \<open>Rules and combinators\<close>

definition ast_rule_parse :: "rule \<Rightarrow> matcher \<Rightarrow> matcher" where
  "ast_rule_parse r impl ctx begin =
     (let backup = begin in
      case impl ctx begin of
        None \<Rightarrow> None
      | Some (None, ctx, _) \<Rightarrow> Some (None, ctx, backup)
      | Some (Some child, ctx, begin) \<Rightarrow>
          Some (Some (with_text (adopt (make_node r) child) (span_text backup begin)), ctx, begin))"

definition ast_rule_empty_parse :: "rule \<Rightarrow> matcher" where
  "ast_rule_empty_parse r ctx begin = Some (Some (make_node r), ctx, begin)"

fun ast_try_seq :: "matcher list \<Rightarrow> parse_context \<Rightarrow> iter \<Rightarrow> (bool \<times> parse_context) option" where
  "ast_try_seq [] ctx begin = Some (True, ctx)"
| "ast_try_seq (t0 # tn) ctx begin =
     (case t0 ctx begin of
        None \<Rightarrow> None
      | Some (None, ctx, _) \<Rightarrow> Some (False, ctx)
      | Some (Some child, ctx, begin) \<Rightarrow> if tn \<noteq> [] then ast_try_seq tn ctx begin else Some (True, ctx))"

text \<open>\<open>not_<>\<close> has no definition and does not compile.\<close>

definition ast_not_parse :: "rule \<Rightarrow> matcher list \<Rightarrow> matcher" where
  "ast_not_parse r ms ctx begin =
     (if ms = [] then None
      else let backup = begin; begin = ast_skip_ws ctx begin; temp = begin in
        (case ast_try_seq ms ctx temp of
           None \<Rightarrow> None
         | Some (matched, ctx) \<Rightarrow>
             (let begin = backup in
              if matched then Some (None, report r backup ''Negative assertion failed'' (found_at begin) ctx, begin)
              else Some (Some (make_node r), ctx, begin))))"

fun ast_try_all :: "rule \<Rightarrow> matcher list \<Rightarrow> parse_context \<Rightarrow> iter \<Rightarrow> ast \<Rightarrow>
    (bool \<times> ast \<times> parse_context \<times> iter) option" where
  "ast_try_all r [] ctx begin node = Some (True, node, ctx, begin)"
| "ast_try_all r (t0 # tn) ctx begin node =
     (case t0 ctx begin of
        None \<Rightarrow> None
      | Some (None, ctx, begin) \<Rightarrow>
          Some (False, node, report r begin ''Sequence element failed'' (found_at begin) ctx, begin)
      | Some (Some child, ctx, begin) \<Rightarrow>
          (let node = adopt node child in
           if tn \<noteq> [] then ast_try_all r tn ctx begin node else Some (True, node, ctx, begin)))"

definition ast_and_parse :: "rule \<Rightarrow> matcher list \<Rightarrow> matcher" where
  "ast_and_parse r ms ctx begin =
     (if ms = [] then Some (Some (make_node r), ctx, begin)
      else let backup = begin in
        (case ast_try_all r ms ctx begin (make_node r) of
           None \<Rightarrow> None
         | Some (matched, node, ctx, begin) \<Rightarrow>
             (if \<not> matched then Some (None, ctx, backup)
              else Some (Some (with_text node (span_text backup begin)), ctx, begin))))"

fun ast_try_any :: "rule \<Rightarrow> matcher list \<Rightarrow> parse_context \<Rightarrow> iter \<Rightarrow> iter \<Rightarrow>
    (ast option \<times> parse_context \<times> iter) option" where
  "ast_try_any r [] ctx begin backup = Some (None, ctx, begin)"
| "ast_try_any r (t0 # tn) ctx begin backup =
     (case t0 ctx begin of
        None \<Rightarrow> None
      | Some (Some child, ctx, begin) \<Rightarrow> Some (Some child, ctx, begin)
      | Some (None, ctx, _) \<Rightarrow>
          (let begin = backup in
           if tn \<noteq> [] then ast_try_any r tn ctx begin backup
           else Some (None, report r backup ''No alternative matched'' (found_at backup) ctx, begin)))"

definition ast_or_parse :: "rule \<Rightarrow> matcher list \<Rightarrow> matcher" where
  "ast_or_parse r ms ctx begin =
     (if ms = [] then Some (None, ctx, begin)
      else let backup = begin in
        (case ast_try_any r ms ctx begin backup of
           None \<Rightarrow> None
         | Some (None, ctx, _) \<Rightarrow> Some (None, ctx, backup)
         | Some (Some child, ctx, begin) \<Rightarrow>
             Some (Some (with_text (adopt (make_node r) child) (span_text backup begin)), ctx, begin)))"

text \<open>The loop of the repetitions; its first argument counts the turns, each of which but the last
  consumes a character.\<close>

fun ast_repeat :: "nat \<Rightarrow> matcher \<Rightarrow> parse_context \<Rightarrow> iter \<Rightarrow> ast \<Rightarrow> (ast \<times> parse_context \<times> iter) option" where
  "ast_repeat turns m ctx begin node =
     (if begin = [] then Some (node, ctx, begin)
      else (case turns of
              0 \<Rightarrow> None
            | Suc turns \<Rightarrow>
                (let loop_backup = begin in
                 case m ctx begin of
                   None \<Rightarrow> None
                 | Some (None, ctx, _) \<Rightarrow> Some (node, ctx, loop_backup)
                 | Some (Some child, ctx, begin) \<Rightarrow>
                     (if begin = loop_backup then Some (node, ctx, begin)
                      else ast_repeat turns m ctx begin (adopt node child)))))"

declare ast_repeat.simps [simp del]

definition ast_one_or_more_parse :: "rule \<Rightarrow> matcher \<Rightarrow> matcher" where
  "ast_one_or_more_parse r m ctx begin =
     (let backup = begin; node = make_node r in
      case m ctx begin of
        None \<Rightarrow> None
      | Some (None, ctx, begin) \<Rightarrow>
          Some (None, report r backup ''One_or_more requires at least one match'' (found_at begin) ctx, backup)
      | Some (Some child, ctx, begin) \<Rightarrow>
          map_option (\<lambda>(node, ctx, begin). (Some (with_text node (span_text backup begin)), ctx, begin))
            (ast_repeat (length begin) m ctx begin (adopt node child)))"

definition ast_zero_or_more_parse :: "rule \<Rightarrow> matcher \<Rightarrow> matcher" where
  "ast_zero_or_more_parse r m ctx begin =
     (let backup = begin; node = make_node r in
      map_option (\<lambda>(node, ctx, begin). (Some (with_text node (span_text backup begin)), ctx, begin))
        (ast_repeat (length begin) m ctx begin node))"

definition ast_zero_or_one_parse :: "rule \<Rightarrow> matcher \<Rightarrow> matcher" where
  "ast_zero_or_one_parse r m ctx begin =
     (let backup = begin; node = make_node r in
      case m ctx begin of
        None \<Rightarrow> None
      | Some (child, ctx, begin) \<Rightarrow>
          (case child of
             Some child \<Rightarrow> Some (Some (with_text (adopt node child) (span_text backup begin)), ctx, begin)
           | None \<Rightarrow>
               (let begin = backup in Some (Some (with_text node (span_text backup begin)), ctx, begin))))"

subsection \<open>Terminals\<close>

text \<open>The loop of \<open>string::parse\<close> over the literal: whether it ran to the end, and where it stopped.\<close>

fun ast_string_loop :: "bool \<Rightarrow> string \<Rightarrow> iter \<Rightarrow> bool \<times> iter" where
  "ast_string_loop ic [] begin = (True, begin)"
| "ast_string_loop ic (c # lit) begin =
     (if begin = [] \<or> \<not> ast_char_match (hd begin) c ic then (False, begin)
      else ast_string_loop ic lit (tl begin))"

definition ast_string_parse :: "rule \<Rightarrow> string \<Rightarrow> matcher" where
  "ast_string_parse r lit ctx begin =
     (let backup = begin; match_start = ast_skip_ws ctx begin in
      case ast_string_loop (ignore_case ctx) lit match_start of
        (False, begin) \<Rightarrow>
          Some (None, report r backup (''Expected string: '' @ c_str lit) (found_at begin) ctx, backup)
      | (True, begin) \<Rightarrow> Some (Some (with_text (make_node r) (span_text match_start begin)), ctx, begin))"

definition ast_character_parse :: "rule \<Rightarrow> char \<Rightarrow> matcher" where
  "ast_character_parse r v ctx begin =
     (let backup = begin; begin = ast_skip_ws ctx begin in
      if begin = [] \<or> \<not> ast_char_match (hd begin) v (ignore_case ctx)
      then Some (None, report r backup (''Expected character: '' @ [CHR 0x27, v, CHR 0x27])
                         (found_at begin) ctx, backup)
      else Some (Some (with_text (make_node r) [hd begin]), ctx, tl begin))"

definition ast_in_range :: "char \<Rightarrow> char \<Rightarrow> char \<Rightarrow> bool" where
  "ast_in_range first final x =
     (if char_val first \<le> char_val final
      then char_val x \<ge> char_val first \<and> char_val x \<le> char_val final
      else char_val x \<le> char_val first \<and> char_val x \<ge> char_val final)"

definition ast_characters_parse :: "rule \<Rightarrow> char \<Rightarrow> char \<Rightarrow> matcher" where
  "ast_characters_parse r first final ctx begin =
     (let backup = begin; begin = ast_skip_ws ctx begin in
      if begin = [] then Some (None, report r backup ''Expected character in range'' ''EOF'' ctx, backup)
      else let c = hd begin in
        if \<not> ast_in_range first final c \<and>
           \<not> (ignore_case ctx \<and> ast_in_range first final (ast_swap_case_ch c))
        then Some (None, report r backup ''Expected character in range'' [c] ctx, backup)
        else Some (Some (with_text (make_node r) [c]), ctx, tl begin))"

definition ast_regex_parse :: "rule \<Rightarrow> string \<Rightarrow> re_item list \<Rightarrow> matcher" where
  "ast_regex_parse r pat items ctx begin =
     (let backup = begin; begin = ast_skip_ws ctx begin in
      if begin = [] then Some (None, report r backup ''Expected regex match'' ''EOF'' ctx, backup)
      else (case re_match items begin of
              None \<Rightarrow>
                Some (None, report r backup (''Expected regex: '' @ c_str pat)
                  (if begin \<noteq> [] then take 10 begin else ''EOF'') ctx, backup)
            | Some rest \<Rightarrow>
                (let t = span_text begin rest
                 in Some (Some (with_text (make_node r) t), ctx, drop (length t) begin))))"

subsection \<open>Rules and the parser\<close>

fun ast_parse :: "grammar \<Rightarrow> nat \<Rightarrow> rule \<Rightarrow> matcher" where
  "ast_parse g n (NotR rs) = ast_not_parse (NotR rs) (map (ast_parse g n) rs)"
| "ast_parse g n (AndR rs) = ast_and_parse (AndR rs) (map (ast_parse g n) rs)"
| "ast_parse g n (OrR rs) = ast_or_parse (OrR rs) (map (ast_parse g n) rs)"
| "ast_parse g n (OneOrMore r) = ast_one_or_more_parse (OneOrMore r) (ast_parse g n r)"
| "ast_parse g n (ZeroOrMore r) = ast_zero_or_more_parse (ZeroOrMore r) (ast_parse g n r)"
| "ast_parse g n (ZeroOrOne r) = ast_zero_or_one_parse (ZeroOrOne r) (ast_parse g n r)"
| "ast_parse g n (StringR lit) = ast_string_parse (StringR lit) lit"
| "ast_parse g n (CharacterR c) = ast_character_parse (CharacterR c) c"
| "ast_parse g n (CharactersR a b) = ast_characters_parse (CharactersR a b) a b"
| "ast_parse g n (RegexR pat items) = ast_regex_parse (RegexR pat items) pat items"
| "ast_parse g n (RuleD d impl) = ast_rule_parse (RuleD d impl) (ast_parse g n impl)"
| "ast_parse g n (RuleE d) = ast_rule_empty_parse (RuleE d)"
| "ast_parse g 0 (RuleRef d) = (\<lambda>ctx it. None)"
| "ast_parse g (Suc n) (RuleRef d) =
     (case g d of None \<Rightarrow> (\<lambda>ctx it. None) | Some r \<Rightarrow> ast_parse g n r)"

definition ast_parser_parse :: "grammar \<Rightarrow> nat \<Rightarrow> rule \<Rightarrow> bool \<Rightarrow> string \<Rightarrow> iter \<Rightarrow>
    ast option \<Rightarrow> parse_error list \<Rightarrow> parse_output option" where
  "ast_parser_parse g n r ic ws begin ast0 errors =
     (let ctx = \<lparr>ignore_whitespace = True, ignore_case = ic, whitespace_chars = ws, parse_errors = []\<rparr> in
      case ast_parse g n r ctx begin of
        None \<Rightarrow> None
      | Some (None, ctx, _) \<Rightarrow>
          Some \<lparr>accepted = False, out_ast = ast0, out_errors = parse_errors ctx\<rparr>
      | Some (Some result, ctx, begin) \<Rightarrow>
          (if begin \<noteq> []
           then Some \<lparr>accepted = False, out_ast = ast0, out_errors = errors @
                  [\<lparr>failed_rule = r, position = begin, expected = ''Expected end of input'',
                    found = take 10 begin\<rparr>]\<rparr>
           else Some \<lparr>accepted = True, out_ast = Some result, out_errors = errors\<rparr>))"

definition ast_parser_parse_quiet :: "grammar \<Rightarrow> nat \<Rightarrow> rule \<Rightarrow> bool \<Rightarrow> string \<Rightarrow> iter \<Rightarrow>
    ast option \<Rightarrow> (bool \<times> ast option) option" where
  "ast_parser_parse_quiet g n r ic ws begin ast0 =
     map_option (\<lambda>out. (accepted out, out_ast out)) (ast_parser_parse g n r ic ws begin ast0 [])"

end
