(* ===== verification/Parse_Ast_Agrees.thy ===== *)
theory Parse_Ast_Agrees
  imports Parse_Ast
begin

text \<open>
  The two parser engines agree: on every rule and input they return the same tree and stop at the
  same place, and report the same failures, by other words. So what is proved of the first engine
  holds of the second.
\<close>

subsection \<open>Agreement of matchers\<close>

definition same_failure :: "parse_error \<Rightarrow> parse_error \<Rightarrow> bool" where
  "same_failure e f \<longleftrightarrow> failed_rule e = failed_rule f \<and> position e = position f"

definition same_context :: "parse_context \<Rightarrow> parse_context \<Rightarrow> bool" where
  "same_context c d \<longleftrightarrow>
     ignore_whitespace c = ignore_whitespace d \<and> ignore_case c = ignore_case d \<and>
     whitespace_chars c = whitespace_chars d \<and> list_all2 same_failure (parse_errors c) (parse_errors d)"

definition same_answer ::
  "('a \<times> parse_context \<times> iter) option \<Rightarrow> ('a \<times> parse_context \<times> iter) option \<Rightarrow> bool" where
  "same_answer x y \<longleftrightarrow>
     rel_option (\<lambda>(a, c, i) (b, d, j). a = b \<and> same_context c d \<and> i = j) x y"

definition agree :: "matcher \<Rightarrow> matcher \<Rightarrow> bool" where
  "agree f h \<longleftrightarrow> (\<forall>c d it. same_context c d \<longrightarrow> same_answer (f c it) (h d it))"

text \<open>The rules that the second engine compiles: no \<open>not_<>\<close>.\<close>

fun compiles :: "rule \<Rightarrow> bool" where
  "compiles (NotR rs) = (rs \<noteq> [] \<and> list_all compiles rs)"
| "compiles (AndR rs) = list_all compiles rs"
| "compiles (OrR rs) = list_all compiles rs"
| "compiles (OneOrMore r) = compiles r"
| "compiles (ZeroOrMore r) = compiles r"
| "compiles (ZeroOrOne r) = compiles r"
| "compiles (RuleD d impl) = compiles impl"
| "compiles r = True"

definition grammar_compiles :: "grammar \<Rightarrow> bool" where
  "grammar_compiles g \<longleftrightarrow> (\<forall>d r. g d = Some r \<longrightarrow> compiles r)"

named_theorems agreeing

lemma same_report [agreeing]:
  "same_context c d \<Longrightarrow> same_context (report r pos e f c) (report r pos e' f' d)"
  by (auto simp: same_context_def report_def same_failure_def list_all2_appendI)

lemma same_helpers [simp]:
  "ast_char_match a b ic = char_match a b ic" "ast_in_range x y = in_range x y"
  "ast_swap_case_ch = swap_case_ch"
  by (auto simp: ast_char_match_def char_match_def ast_to_lower_ch_def to_lower_ch_def fun_eq_iff
      ast_in_range_def in_range_def ast_swap_case_ch_def swap_case_ch_def)

lemma same_skip_ws: "same_context c d \<Longrightarrow> ast_skip_ws d it = skip_ws c it"
proof (induction it)
  case (Cons x xs)
  then show ?case
    by (subst ast_skip_ws.simps) (auto simp: ast_is_whitespace_def is_whitespace_def same_context_def)
qed (simp add: ast_skip_ws.simps)

lemma same_answer_simps [simp]:
  "same_answer None None" "\<not> same_answer None (Some y)" "\<not> same_answer (Some x) None"
  "same_answer (Some (a, c, i)) (Some (b, d, j)) \<longleftrightarrow> a = b \<and> same_context c d \<and> i = j"
  by (simp_all add: same_answer_def)

lemma agreeE:
  assumes "agree f h" "same_context c d"
  obtains "f c it = None" "h d it = None"
    | a c' d' it' where "f c it = Some (a, c', it')" "h d it = Some (a, d', it')" "same_context c' d'"
proof -
  have "same_answer (f c it) (h d it)" using assms by (simp add: agree_def)
  then show thesis
    using that by (cases "f c it"; cases "h d it") (auto simp: same_answer_def)
qed

lemma agreeI: "(\<And>c d it. same_context c d \<Longrightarrow> same_answer (f c it) (h d it)) \<Longrightarrow> agree f h"
  by (simp add: agree_def)

lemma same_ignore_case: "same_context c d \<Longrightarrow> ignore_case d = ignore_case c"
  by (simp add: same_context_def)

lemma same_string_loop: "ast_string_loop ic lit it = string_loop ic lit it"
  by (induction ic lit it rule: string_loop.induct) simp_all

subsection \<open>Terminals\<close>

lemma agree_string: "agree (string_parse r lit) (ast_string_parse r lit)"
  by (rule agreeI)
    (auto simp: string_parse_def ast_string_parse_def Let_def same_skip_ws same_ignore_case
      same_string_loop node_defs same_report split: prod.split bool.split)

lemma agree_character: "agree (character_parse r v) (ast_character_parse r v)"
  by (rule agreeI)
    (auto simp: character_parse_def ast_character_parse_def Let_def same_skip_ws same_ignore_case
      node_defs same_report)

lemma agree_characters: "agree (characters_parse r a b) (ast_characters_parse r a b)"
  by (rule agreeI)
    (auto simp: characters_parse_def ast_characters_parse_def Let_def same_skip_ws same_ignore_case
      node_defs same_report split: list.split)

lemma agree_regex: "agree (regex_parse r pat items) (ast_regex_parse r pat items)"
proof (rule agreeI)
  fix c d it assume c: "same_context c d"
  show "same_answer (regex_parse r pat items c it) (ast_regex_parse r pat items d it)"
  proof (cases "re_match items (skip_ws c it)")
    case (Some rest)
    then have "suffix rest (skip_ws c it)" by (rule re_match_suffix)
    then have "drop (length (span_text (skip_ws c it) rest)) (skip_ws c it) = rest"
      by (auto simp: suffix_def)
    then show ?thesis
      using Some c by (auto simp: regex_parse_def ast_regex_parse_def Let_def same_skip_ws node_defs same_report)
  qed (use c in \<open>auto simp: regex_parse_def ast_regex_parse_def Let_def same_skip_ws same_report\<close>)
qed

lemma agree_empty: "agree (rule_empty_parse r) (ast_rule_empty_parse r)"
  by (rule agreeI) (simp add: rule_empty_parse_def ast_rule_empty_parse_def make_node_def)

subsection \<open>Combinators\<close>

lemma same_try_seq:
  "list_all2 agree fs hs \<Longrightarrow> same_context c d \<Longrightarrow>
     rel_option (\<lambda>(a, c, i) (b, d). a = b \<and> same_context c d) (try_seq fs c it) (ast_try_seq hs d it)"
proof (induction fs hs arbitrary: c d it rule: list_all2_induct)
  case (Cons f fs h hs)
  show ?case
  proof (cases rule: agreeE [OF Cons.hyps(1) Cons.prems, of it, case_names none some])
    case (some a c' d' it')
    show ?thesis
    proof (cases a)
      case (Some t)
      have "fs \<noteq> [] \<longleftrightarrow> hs \<noteq> []" using Cons.hyps(2) by auto
      then show ?thesis using some Some Cons.IH [OF some(3), of it'] by (cases hs) auto
    qed (use some in simp)
  qed simp
qed simp

lemma agree_not:
  assumes "list_all2 agree fs hs" "fs \<noteq> []"
  shows "agree (not_parse r fs) (ast_not_parse r hs)"
proof (rule agreeI)
  fix c d it assume c: "same_context c d"
  have "hs \<noteq> []" using assms by auto
  then show "same_answer (not_parse r fs c it) (ast_not_parse r hs d it)"
    using same_try_seq [OF assms(1) c, of "skip_ws c it"] assms(2) same_skip_ws [OF c, of it]
    by (auto simp: not_parse_def ast_not_parse_def Let_def make_node_def same_report option_rel_Some1
        split: option.split bool.split prod.split) blast+
qed

lemma same_try_all:
  "list_all2 agree fs hs \<Longrightarrow> same_context c d \<Longrightarrow>
     rel_option (\<lambda>(ks, c, i) (ok, node, d, j). same_context c d \<and> i = j \<and>
         (case ks of None \<Rightarrow> \<not> ok | Some ks \<Rightarrow> ok \<and> node = Node r [] ks))
       (try_all r fs c it kids) (ast_try_all r hs d it (Node r [] kids))"
proof (induction fs hs arbitrary: c d it kids rule: list_all2_induct)
  case (Cons f fs h hs)
  show ?case
  proof (cases rule: agreeE [OF Cons.hyps(1) Cons.prems, of it, case_names none some])
    case (some a c' d' it')
    show ?thesis
    proof (cases a)
      case None
      then show ?thesis using some by (simp add: same_report)
    next
      case (Some t)
      have "fs \<noteq> [] \<longleftrightarrow> hs \<noteq> []" using Cons.hyps(2) by auto
      then show ?thesis
        using some Some Cons.IH [OF some(3), of it' "kids @ [t]"] by (cases hs) (auto simp: adopt_def Let_def)
    qed
  qed simp
qed simp

lemma agree_and:
  assumes "list_all2 agree fs hs"
  shows "agree (and_parse r fs) (ast_and_parse r hs)"
proof (rule agreeI)
  fix c d it assume c: "same_context c d"
  show "same_answer (and_parse r fs c it) (ast_and_parse r hs d it)"
  proof (cases "hs = []")
    case True
    then show ?thesis using assms c by (simp add: and_parse_def ast_and_parse_def make_node_def)
  next
    case False
    then show ?thesis
      using same_try_all [OF assms c, of r it "[]"]
      by (auto simp: and_parse_def ast_and_parse_def Let_def make_node_def with_text_def option_rel_Some1
          split: option.split prod.split) blast+
  qed
qed

lemma same_try_any:
  "list_all2 agree fs hs \<Longrightarrow> same_context c d \<Longrightarrow>
     rel_option (\<lambda>(t, c, i) (u, d, j). t = u \<and> same_context c d \<and> (t \<noteq> None \<longrightarrow> i = j))
       (try_any r fs c it b) (ast_try_any r hs d it b)"
proof (induction fs hs arbitrary: c d it rule: list_all2_induct)
  case (Cons f fs h hs)
  show ?case
  proof (cases rule: agreeE [OF Cons.hyps(1) Cons.prems, of it, case_names none some])
    case (some a c' d' it')
    show ?thesis
    proof (cases a)
      case None
      have "fs \<noteq> [] \<longleftrightarrow> hs \<noteq> []" using Cons.hyps(2) by auto
      then show ?thesis using some None Cons.IH [OF some(3), of b] by (auto simp: same_report)
    qed (use some in simp)
  qed simp
qed simp

lemma agree_or:
  assumes "list_all2 agree fs hs"
  shows "agree (or_parse r fs) (ast_or_parse r hs)"
proof (rule agreeI)
  fix c d it assume c: "same_context c d"
  show "same_answer (or_parse r fs c it) (ast_or_parse r hs d it)"
  proof (cases "hs = []")
    case True
    then show ?thesis using assms c by (simp add: or_parse_def ast_or_parse_def)
  next
    case False
    then show ?thesis
      using same_try_any [OF assms c, of r it it]
      by (auto simp: or_parse_def ast_or_parse_def Let_def node_defs option_rel_Some1 split: option.splits prod.splits)
  qed
qed

lemma same_repeat:
  assumes "agree f h"
  shows "same_context c d \<Longrightarrow>
    rel_option (\<lambda>(ks, c, i) (node, d, j). node = Node r [] ks \<and> same_context c d \<and> i = j)
      (repeat_loop k f c it kids) (ast_repeat k h d it (Node r [] kids))"
proof (induction k arbitrary: c d it kids)
  case 0
  then show ?case by (subst ast_repeat.simps) simp
next
  case (Suc k)
  show ?case
  proof (cases rule: agreeE [OF assms Suc.prems, of it, case_names none some])
    case none
    then show ?thesis using Suc.prems by (subst ast_repeat.simps) simp
  next
    case (some a c' d' it')
    then show ?thesis
      using Suc.IH [OF some(3), of it'] Suc.prems by (subst ast_repeat.simps) (cases a, auto simp: adopt_def)
  qed
qed

lemma same_wrap:
  assumes "rel_option (\<lambda>(ks, c, i) (node, d, j). node = Node r [] ks \<and> same_context c d \<and> i = j) x y"
  shows "same_answer
    (case x of None \<Rightarrow> None | Some (kids, ctx, it) \<Rightarrow> Some (Some (Node r (span_text b it) kids), ctx, it))
    (map_option (\<lambda>(node, ctx, begin). (Some (with_text node (span_text b begin)), ctx, begin)) y)"
  using assms by (cases x; cases y) (auto simp: with_text_def)

lemma agree_zero_or_more:
  assumes "agree f h"
  shows "agree (zero_or_more_parse r f) (ast_zero_or_more_parse r h)"
  by (rule agreeI)
    (unfold zero_or_more_parse_def ast_zero_or_more_parse_def Let_def make_node_def,
      rule same_wrap [OF same_repeat [OF assms]])

lemma agree_one_or_more:
  assumes "agree f h"
  shows "agree (one_or_more_parse r f) (ast_one_or_more_parse r h)"
proof (rule agreeI)
  fix c d it assume c: "same_context c d"
  show "same_answer (one_or_more_parse r f c it) (ast_one_or_more_parse r h d it)"
  proof (cases rule: agreeE [OF assms c, of it, case_names none some])
    case none
    then show ?thesis by (simp add: one_or_more_parse_def ast_one_or_more_parse_def)
  next
    case (some a c' d' it')
    show ?thesis
    proof (cases a)
      case None
      then show ?thesis using some
        by (simp add: one_or_more_parse_def ast_one_or_more_parse_def Let_def same_report)
    next
      case (Some t)
      then show ?thesis
        using some same_wrap [OF same_repeat [OF assms some(3), of r "length it'" it' "[t]"], of it]
        by (simp add: one_or_more_parse_def ast_one_or_more_parse_def Let_def make_node_def adopt_def)
    qed
  qed
qed

lemma agree_zero_or_one:
  assumes "agree f h"
  shows "agree (zero_or_one_parse r f) (ast_zero_or_one_parse r h)"
proof (rule agreeI)
  fix c d it assume c: "same_context c d"
  show "same_answer (zero_or_one_parse r f c it) (ast_zero_or_one_parse r h d it)"
    by (cases rule: agreeE [OF assms c, of it])
      (auto simp: zero_or_one_parse_def ast_zero_or_one_parse_def Let_def node_defs split: option.split)
qed

lemma agree_rule:
  assumes "agree f h"
  shows "agree (rule_parse r f) (ast_rule_parse r h)"
proof (rule agreeI)
  fix c d it assume c: "same_context c d"
  show "same_answer (rule_parse r f c it) (ast_rule_parse r h d it)"
    by (cases rule: agreeE [OF assms c, of it])
      (auto simp: rule_parse_def ast_rule_parse_def Let_def node_defs split: option.split)
qed

subsection \<open>Agreement of the engines\<close>

lemma agree_list:
  "(\<And>r. r \<in> set rs \<Longrightarrow> compiles r \<Longrightarrow> agree (p r) (q r)) \<Longrightarrow> list_all compiles rs \<Longrightarrow>
     list_all2 agree (map p rs) (map q rs)"
  by (induction rs) auto

lemma parse_agree: "grammar_compiles g \<Longrightarrow> compiles r \<Longrightarrow> agree (parse g n r) (ast_parse g n r)"
proof (induction g n r rule: parse.induct)
  case (1 g n rs)
  then show ?case by (simp add: agree_not agree_list)
next
  case (2 g n rs)
  then show ?case by (simp add: agree_and agree_list)
next
  case (3 g n rs)
  then show ?case by (simp add: agree_or agree_list)
next
  case (14 g n d)
  show ?case
  proof (cases "g d")
    case None
    then show ?thesis by (simp add: agree_def)
  next
    case (Some r)
    then have "compiles r" using "14.prems"(1) unfolding grammar_compiles_def by blast
    then show ?thesis using "14.IH" [OF Some "14.prems"(1)] Some by simp
  qed
qed (simp_all add: agree_one_or_more agree_zero_or_more agree_zero_or_one agree_string agree_character
    agree_characters agree_regex agree_rule agree_empty, simp add: agree_def)

definition same_output :: "parse_output \<Rightarrow> parse_output \<Rightarrow> bool" where
  "same_output x y \<longleftrightarrow>
     accepted x = accepted y \<and> out_ast x = out_ast y \<and> list_all2 same_failure (out_errors x) (out_errors y)"

lemma same_failure_refl: "list_all2 same_failure es es"
  by (rule list_all2_refl) (simp add: same_failure_def)

lemma parser_agree:
  assumes "grammar_compiles g" "compiles r"
  shows "rel_option same_output (parser_parse g n r ic ws it ast0 errs)
           (ast_parser_parse g n r ic ws it ast0 errs)"
proof -
  let ?c = "\<lparr>ignore_whitespace = True, ignore_case = ic, whitespace_chars = ws, parse_errors = []\<rparr>"
  have c: "same_context ?c ?c" by (simp add: same_context_def)
  show ?thesis
    by (cases rule: agreeE [OF parse_agree [OF assms, of n] c, of it])
      (auto simp: parser_parse_def ast_parser_parse_def new_context_def same_output_def same_context_def
        same_failure_refl same_failure_def list_all2_appendI split: option.split)
qed

text \<open>C9: the parser of \<open>parse_ast.hpp\<close> agrees with the parser of \<open>parse.hpp\<close> on every grammar without an
  empty \<open>not_\<close>, which it does not compile: on every text both return or neither does, they accept the
  same texts with the same tree, and report the same failed rules at the same positions.\<close>

theorem parse_ast_agrees:
  assumes "grammar_compiles g" "compiles r"
  shows "rel_option same_output (parser_parse g n r ic ws it ast0 errs)
           (ast_parser_parse g n r ic ws it ast0 errs)"
  by (rule parser_agree [OF assms])

theorem parse_ast_agrees_witness:
  "\<exists>out. ast_parser_parse Map.empty 0 (OneOrMore (CharactersR CHR ''a'' CHR ''z'')) True '' '' ''a B'' None [] =
     Some out \<and> accepted out"
proof -
  let ?r = "OneOrMore (CharactersR CHR ''a'' CHR ''z'')"
  let ?p = "parser_parse Map.empty 0 ?r True '' '' ''a B'' None []"
  have "(case ?p of Some out \<Rightarrow> accepted out | _ \<Rightarrow> False)" by code_simp
  then obtain out where p: "?p = Some out" "accepted out" by (auto split: option.splits)
  have "rel_option same_output ?p (ast_parser_parse Map.empty 0 ?r True '' '' ''a B'' None [])"
    by (rule parse_ast_agrees) (simp_all add: grammar_compiles_def)
  then show ?thesis using p by (auto simp: option_rel_Some1 same_output_def)
qed

text \<open>What is proved of the first engine holds of the second; for instance, it accepts the texts that
  the parsing expression grammar matches whole.\<close>

lemma ast_parser_accepts_iff:
  assumes "grammar_compiles g" "compiles r"
  shows "(\<exists>n out. ast_parser_parse g n r ic ws it ast0 errs = Some out \<and> accepted out) \<longleftrightarrow>
    peg g (new_context ws ic) r it (Some [])"
proof -
  have "(\<exists>out. ast_parser_parse g n r ic ws it ast0 errs = Some out \<and> accepted out) \<longleftrightarrow>
      (\<exists>out. parser_parse g n r ic ws it ast0 errs = Some out \<and> accepted out)" for n
    using parser_agree [OF assms, of n ic ws it ast0 errs]
    by (cases "parser_parse g n r ic ws it ast0 errs"; cases "ast_parser_parse g n r ic ws it ast0 errs")
      (auto simp: same_output_def)
  moreover have "(\<exists>out. parser_parse g n r ic ws it ast0 errs = Some out \<and> accepted out) \<longleftrightarrow>
      recog g n r (new_context ws ic) it = Some (Some [])" for n
    by (auto simp: parser_parse_def parse_recog outcome_def split: option.splits prod.splits)
  ultimately show ?thesis by (simp only: recog_iff_peg [symmetric])
qed

end
