(* ===== verification/Xstring.thy ===== *)
theory Xstring
  imports Prelude "HOL-Library.Word"
begin

text \<open>
  The string operations of \<open>string.hpp\<close> that are the library's own. The text of an \<open>xstring\<close> is a
  \<open>string\<close>, a position is its offset, \<open>npos\<close> is \<open>None\<close>. The classification \<open>ws\<close> is \<open>std::iswspace\<close> in the
  current locale. The members that change the string return it changed.
\<close>

subsection \<open>What is used of std::basic_string\<close>

definition find_text :: "string \<Rightarrow> string \<Rightarrow> nat \<Rightarrow> nat option" where
  "find_text s p pos =
     List.find (\<lambda>i. i + length p \<le> length s \<and> take (length p) (drop i s) = p) [pos..<Suc (length s)]"

definition find_ch :: "string \<Rightarrow> char \<Rightarrow> nat \<Rightarrow> nat option" where
  "find_ch s c pos = List.find (\<lambda>i. s ! i = c) [pos..<length s]"

definition rfind_ch :: "string \<Rightarrow> char \<Rightarrow> nat option \<Rightarrow> nat option" where
  "rfind_ch s c pos =
     List.find (\<lambda>i. s ! i = c)
       (rev [0..<(case pos of None \<Rightarrow> length s | Some p \<Rightarrow> min (length s) (Suc p))])"

definition erase :: "nat \<Rightarrow> nat \<Rightarrow> string \<Rightarrow> string" where
  "erase i n s = take i s @ drop (i + n) s"

subsection \<open>Ends, case and white space\<close>

fun ends_with_loop :: "string \<Rightarrow> string \<Rightarrow> bool" where
  "ends_with_loop (s # sSrc) (d # sDest) = (if s \<noteq> d then False else ends_with_loop sSrc sDest)"
| "ends_with_loop sSrc sDest = (sSrc = [])"

definition ends_with :: "string \<Rightarrow> string \<Rightarrow> bool" where
  "ends_with s suff = ends_with_loop (rev suff) (rev s)"

definition xreverse :: "string \<Rightarrow> string" where
  "xreverse s = rev s"

definition to_lower :: "(char \<Rightarrow> char) \<Rightarrow> string \<Rightarrow> string" where
  "to_lower tolower s = map tolower s"

definition to_upper :: "(char \<Rightarrow> char) \<Rightarrow> string \<Rightarrow> string" where
  "to_upper toupper s = map toupper s"

fun ltrim_end :: "(char \<Rightarrow> bool) \<Rightarrow> string \<Rightarrow> nat" where
  "ltrim_end ws [] = 0"
| "ltrim_end ws (c # cs) = (if \<not> ws c then 0 else Suc (ltrim_end ws cs))"

definition ltrim :: "(char \<Rightarrow> bool) \<Rightarrow> string \<Rightarrow> string" where
  "ltrim ws s = (if s = [] then s else erase 0 (ltrim_end ws s) s)"

text \<open>The loop of \<open>rtrim\<close>: \<open>oBegin\<close> stops at the first place at the latest.\<close>

fun rtrim_begin :: "(char \<Rightarrow> bool) \<Rightarrow> string \<Rightarrow> nat \<Rightarrow> nat" where
  "rtrim_begin ws s 0 = 0"
| "rtrim_begin ws s (Suc i) =
     (if \<not> ws (s ! Suc i) \<and> s ! Suc i \<noteq> NUL then Suc i else rtrim_begin ws s i)"

definition rtrim :: "(char \<Rightarrow> bool) \<Rightarrow> string \<Rightarrow> string" where
  "rtrim ws s = (if s = [] then s else take (Suc (rtrim_begin ws s (length s - 1))) s)"

definition trim :: "(char \<Rightarrow> bool) \<Rightarrow> string \<Rightarrow> string" where
  "trim ws s = rtrim ws (ltrim ws s)"

subsection \<open>Replacing and removing\<close>

fun in_items :: "char list \<Rightarrow> char \<Rightarrow> bool" where
  "in_items [] oCh = False"
| "in_items (oFind # oItems) oCh = (if oFind = oCh then True else in_items oItems oCh)"

definition replace_chars :: "char list \<Rightarrow> char \<Rightarrow> string \<Rightarrow> string" where
  "replace_chars oItems chReplace s = map (\<lambda>oCh. if in_items oItems oCh then chReplace else oCh) s"

text \<open>One turn of replacing a substring by a character. \<open>src.size() - 1\<close> wraps to \<open>npos\<close> for an empty
  \<open>src\<close>, which erases the rest of the string. The assignment writes behind the end when nothing is left at
  the place; only a NUL may be written there, and it changes nothing. \<open>None\<close> is the undefined case.\<close>

definition replace_turn :: "string \<Rightarrow> char \<Rightarrow> nat \<Rightarrow> string \<Rightarrow> string option" where
  "replace_turn src chReplace i s =
     (let s = erase i (if src = [] then length s else length src - 1) s
      in if i < length s then Some (s[i := chReplace])
         else if chReplace = NUL then Some s
         else None)"

text \<open>The loop need not end: the outer \<open>None\<close>.\<close>

partial_function (option) replace_text :: "string \<Rightarrow> char \<Rightarrow> string \<Rightarrow> string option option" where
  "replace_text src chReplace s =
     (case find_text s (c_str src) 0 of
        None \<Rightarrow> Some (Some s)
      | Some i \<Rightarrow>
          (case replace_turn src chReplace i s of
             None \<Rightarrow> Some None
           | Some s \<Rightarrow> replace_text src chReplace s))"

fun remove_turn :: "char list \<Rightarrow> bool \<Rightarrow> string \<Rightarrow> bool \<times> string" where
  "remove_turn [] found s = (found, s)"
| "remove_turn (ch # chars) found s =
     (case find_ch s ch 0 of
        None \<Rightarrow> remove_turn chars found s
      | Some i \<Rightarrow> remove_turn chars True (erase i 1 s))"

lemma find_hit: "List.find P xs = Some x \<Longrightarrow> P x \<and> x \<in> set xs"
  by (induction xs) (auto split: if_splits)

lemma find_NoneD: "List.find P xs = None \<longleftrightarrow> (\<forall>x \<in> set xs. \<not> P x)"
  by (auto simp: find_None_iff)

lemma find_ch_Some: "find_ch s c pos = Some i \<Longrightarrow> pos \<le> i \<and> i < length s \<and> s ! i = c"
  unfolding find_ch_def by (drule find_hit) auto

lemma remove_turn_length:
  "remove_turn chars found s = (found', s') \<Longrightarrow>
     length s' \<le> length s \<and> (\<not> found \<longrightarrow> found' \<longrightarrow> length s' < length s)"
proof (induction chars found s rule: remove_turn.induct)
  case (2 ch chars found s)
  show ?case
  proof (cases "find_ch s ch 0")
    case None
    then show ?thesis using 2 by simp
  next
    case (Some i)
    have "length (erase i 1 s) < length s"
      using find_ch_Some [OF Some] by (auto simp: erase_def)
    moreover have "length s' \<le> length (erase i 1 s)"
      using "2.IH"(2) [OF Some] "2.prems" Some by simp
    ultimately show ?thesis by simp
  qed
qed simp

function remove_chars :: "char list \<Rightarrow> string \<Rightarrow> string" where
  "remove_chars chars s =
     (let (found, s') = remove_turn chars False s in if \<not> found then s' else remove_chars chars s')"
  by pat_completeness auto
termination
  by (relation "measure (\<lambda>(_, s). length s)") (auto dest: remove_turn_length [OF sym])


subsection \<open>Finding\<close>

fun find_first_of :: "char list \<Rightarrow> nat \<Rightarrow> nat option \<Rightarrow> string \<Rightarrow> nat option" where
  "find_first_of [] pos iRet s = iRet"
| "find_first_of (ch # delimiters) pos iRet s =
     (case find_ch s ch pos of
        None \<Rightarrow> find_first_of delimiters pos iRet s
      | Some x \<Rightarrow>
          find_first_of delimiters pos
            (case iRet of None \<Rightarrow> Some x | Some r \<Rightarrow> if x < r then Some x else iRet) s)"

function find_first_visited :: "(char \<Rightarrow> bool) \<Rightarrow> nat \<Rightarrow> string \<Rightarrow> nat option" where
  "find_first_visited VisitorFN i s =
     (if i < length s
      then (if VisitorFN (s ! i) then Some i else find_first_visited VisitorFN (i + 1) s)
      else None)"
  by pat_completeness auto
termination by (relation "measure (\<lambda>(_, i, s). length s - i)") auto

declare find_first_visited.simps [simp del]

fun find_last_of :: "char list \<Rightarrow> nat option \<Rightarrow> nat option \<Rightarrow> string \<Rightarrow> nat option" where
  "find_last_of [] pos iRet s = iRet"
| "find_last_of (ch # delimiters) pos iRet s =
     (case rfind_ch s ch pos of
        None \<Rightarrow> find_last_of delimiters pos iRet s
      | Some x \<Rightarrow>
          find_last_of delimiters pos
            (case iRet of None \<Rightarrow> Some x | Some r \<Rightarrow> if r < x then Some x else iRet) s)"

subsection \<open>Splitting\<close>

text \<open>The piece that \<open>value_type(data() + lastPos, pos - lastPos)\<close> makes; a length that wraps is longer
  than a string may be, and the constructor throws.\<close>

definition piece :: "string \<Rightarrow> nat \<Rightarrow> nat \<Rightarrow> string option" where
  "piece s lastPos pos = (if lastPos \<le> pos then Some (take (pos - lastPos) (drop lastPos s)) else None)"

text \<open>The loop that the first two \<open>split\<close> have in common; \<open>fnd\<close> is the search they make. \<open>None\<close> is the
  exception of the constructor.\<close>

definition push_piece :: "bool \<Rightarrow> string \<Rightarrow> nat \<Rightarrow> nat \<Rightarrow> string list \<Rightarrow> string list option" where
  "push_piece trimEmpty s lastPos pos oRet =
     (if pos \<noteq> lastPos \<or> \<not> trimEmpty
      then (case piece s lastPos pos of None \<Rightarrow> None | Some p \<Rightarrow> Some (oRet @ [p]))
      else Some oRet)"

text \<open>\<open>turns\<close> counts the turns; each moves \<open>lastPos\<close> on, and the search fails behind the end.\<close>

fun split_loop ::
  "nat \<Rightarrow> (nat \<Rightarrow> nat option) \<Rightarrow> bool \<Rightarrow> string \<Rightarrow> nat \<Rightarrow> string list \<Rightarrow> string list option" where
  "split_loop turns fnd trimEmpty s lastPos oRet =
     (case fnd lastPos of
        None \<Rightarrow> push_piece trimEmpty s lastPos (length s) oRet
      | Some pos \<Rightarrow>
          (case turns of
             0 \<Rightarrow> None
           | Suc turns \<Rightarrow>
               (case push_piece trimEmpty s lastPos pos oRet of
                  None \<Rightarrow> None
                | Some oRet \<Rightarrow> split_loop turns fnd trimEmpty s (pos + 1) oRet)))"

declare split_loop.simps [simp del]

definition split_chars :: "char list \<Rightarrow> bool \<Rightarrow> string \<Rightarrow> string list option" where
  "split_chars delimiters trimEmpty s =
     split_loop (length s + 1) (\<lambda>lastPos. find_first_of delimiters lastPos None s) trimEmpty s 0 []"

definition split_text :: "string \<Rightarrow> bool \<Rightarrow> string \<Rightarrow> string list option" where
  "split_text delim trimEmpty s =
     split_loop (length s + 1) (\<lambda>lastPos. find_text s delim lastPos) trimEmpty s 0 []"

text \<open>Splitting by a visitor keeps the separators as pieces.\<close>

function split_visited_loop ::
  "(char \<Rightarrow> bool) \<Rightarrow> string \<Rightarrow> nat \<Rightarrow> nat \<Rightarrow> string list \<Rightarrow> nat \<times> string list" where
  "split_visited_loop VisitorFN s iLast iCurr oRet =
     (if iCurr < length s
      then (if \<not> VisitorFN (s ! iCurr) then split_visited_loop VisitorFN s iLast (iCurr + 1) oRet
            else let iLen = iCurr - iLast;
                     iLen = (if iLen = 0 then iLen + 1 else iLen);
                     oRet = oRet @ [take iLen (drop iLast s)];
                     oRet = (if iCurr \<noteq> iLast then oRet @ [take 1 (drop iCurr s)] else oRet)
                 in split_visited_loop VisitorFN s (iCurr + 1) (iCurr + 1) oRet)
      else (iLast, oRet))"
  by pat_completeness auto
termination by (relation "measure (\<lambda>(_, s, _, iCurr, _). length s - iCurr)") auto

declare split_visited_loop.simps [simp del]

definition split_visited :: "(char \<Rightarrow> bool) \<Rightarrow> string \<Rightarrow> string list" where
  "split_visited VisitorFN s =
     (let (iLast, oRet) = split_visited_loop VisitorFN s 0 0 []
      in if iLast < length s then oRet @ [take (length s - iLast) (drop iLast s)] else oRet)"

subsection \<open>Formatting\<close>

text \<open>What can be formatted without a conversion between character types: a C string, a string, which goes
  by its \<open>c_str\<close>, the integers and pointers.\<close>

datatype format_arg =
    Format_c_str string
  | Format_string string
  | Format_int32 "32 word"
  | Format_uint32 "32 word"
  | Format_int64 "64 word"
  | Format_uint64 "64 word"
  | Format_pointer "64 word"

text \<open>\<open>std::to_string\<close>.\<close>

fun digits :: "nat \<Rightarrow> string" where
  "digits n = (if n < 10 then [] else digits (n div 10)) @ [char_of (48 + n mod 10)]"

declare digits.simps [simp del]

definition to_string :: "int \<Rightarrow> string" where
  "to_string i = (if i < 0 then CHR ''-'' # digits (nat (- i)) else digits (nat i))"

fun xstring_format :: "format_arg \<Rightarrow> string" where
  "xstring_format (Format_c_str src) = c_str src"
| "xstring_format (Format_string src) = c_str (c_str src)"
| "xstring_format (Format_int32 v) = to_string (sint v)"
| "xstring_format (Format_uint32 v) = to_string (uint v)"
| "xstring_format (Format_int64 v) = to_string (sint v)"
| "xstring_format (Format_uint64 v) = to_string (uint v)"
| "xstring_format (Format_pointer v) = to_string (uint v)"

fun format :: "format_arg list \<Rightarrow> string" where
  "format [] = []"
| "format (val # oArgs) = xstring_format val @ format oArgs"

end
