(* ===== verification/Xstring_Properties.thy ===== *)
theory Xstring_Properties
  imports Xstring
begin

text \<open>
  What the string operations compute, against descriptions by the list library: trimming, replacing
  and removing, and the three ways of splitting.
\<close>

subsection \<open>Trimming\<close>

definition blank :: "(char \<Rightarrow> bool) \<Rightarrow> char \<Rightarrow> bool" where
  "blank ws c \<longleftrightarrow> ws c \<or> c = NUL"

lemma drop_ltrim_end: "drop (ltrim_end ws s) s = dropWhile ws s"
  by (induction s) auto

lemma ltrim_eq: "ltrim ws s = dropWhile ws s"
  by (simp add: ltrim_def erase_def drop_ltrim_end)

lemma take_rtrim_begin:
  "i \<le> length t \<Longrightarrow>
     take (rtrim_begin ws (c # t) i) t = rev (dropWhile (blank ws) (rev (take i t)))"
proof (induction i)
  case (Suc i)
  then show ?case by (simp add: take_Suc_conv_app_nth blank_def)
qed simp

lemma rtrim_eq: "rtrim ws (c # t) = c # rev (dropWhile (blank ws) (rev t))"
  using take_rtrim_begin [of "length t" t ws c] by (simp add: rtrim_def)

lemma rtrim_Nil [simp]: "rtrim ws [] = []"
  by (simp add: rtrim_def)

text \<open>\<open>trim\<close> drops the white space in front and the white space and NULs at the end, but never
  the first character that is not white space, which may be a NUL; \<open>rtrim\<close> alone never drops the first
  character of a string, white space or not.\<close>

theorem trim_eq:
  "trim ws s =
     (case dropWhile ws s of [] \<Rightarrow> [] | c # t \<Rightarrow> c # rev (dropWhile (blank ws) (rev t))) \<and>
   rtrim ws s =
     (case s of [] \<Rightarrow> [] | c # t \<Rightarrow> c # rev (dropWhile (blank ws) (rev t)))"
  unfolding trim_def ltrim_eq
  by (simp add: rtrim_eq split: list.split del: dropWhile_eq_Nil_conv)

lemma ends_with_loop_prefix: "ends_with_loop s d \<longleftrightarrow> prefix s d"
  by (induction s d rule: ends_with_loop.induct) auto

lemma ends_with_suffix: "ends_with s suff \<longleftrightarrow> suffix suff s"
  by (simp add: ends_with_def ends_with_loop_prefix suffix_to_prefix)

subsection \<open>Removing characters\<close>

lemma filter_erase: "\<not> P (s ! i) \<Longrightarrow> i < length s \<Longrightarrow> filter P (erase i 1 s) = filter P s"
  using id_take_nth_drop [of i s] unfolding erase_def
  by (metis Suc_eq_plus1 filter.simps(2) filter_append)

lemma find_ch_None: "find_ch s c 0 = None \<longleftrightarrow> c \<notin> set s"
  by (auto simp: find_ch_def find_NoneD in_set_conv_nth)

lemma remove_turn_filter:
  "set chars \<subseteq> A \<Longrightarrow> remove_turn chars found s = (found', s') \<Longrightarrow>
     filter (\<lambda>c. c \<notin> A) s' = filter (\<lambda>c. c \<notin> A) s \<and>
     (found \<longrightarrow> found') \<and> (\<not> found' \<longrightarrow> s' = s \<and> set s \<inter> set chars = {})"
proof (induction chars found s rule: remove_turn.induct)
  case (2 ch chars found s)
  show ?case
  proof (cases "find_ch s ch 0")
    case None
    have "remove_turn chars found s = (found', s')" using "2.prems"(2) None by simp
    moreover have "ch \<notin> set s" using None by (simp add: find_ch_None)
    ultimately show ?thesis using "2.IH"(1) [OF None] "2.prems"(1) by auto
  next
    case (Some i)
    have "remove_turn chars True (erase i 1 s) = (found', s')" using "2.prems"(2) Some by simp
    moreover have "filter (\<lambda>c. c \<notin> A) (erase i 1 s) = filter (\<lambda>c. c \<notin> A) s"
      using find_ch_Some [OF Some] "2.prems"(1) by (intro filter_erase) auto
    ultimately show ?thesis using "2.IH"(2) [OF Some] "2.prems"(1) by auto
  qed
qed auto

text \<open>Removing a list of characters, which erases one character at a time and starts again
  until a turn over the list finds none of them, removes every occurrence of them and nothing else.\<close>

theorem remove_chars_filter: "remove_chars chars s = filter (\<lambda>c. c \<notin> set chars) s"
proof (induction chars s rule: remove_chars.induct)
  case (1 chars s)
  obtain found s' where t: "remove_turn chars False s = (found, s')" by fastforce
  note f = remove_turn_filter [OF subset_refl t]
  show ?case
  proof (cases found)
    case True
    then show ?thesis using "1.IH" [OF t [symmetric]] f t by simp
  next
    case False
    then have "filter (\<lambda>c. c \<notin> set chars) s = s" using f by (auto intro!: filter_True)
    then show ?thesis using False f t by simp
  qed
qed

lemma in_items_iff: "in_items oItems c \<longleftrightarrow> c \<in> set oItems"
  by (induction oItems) auto

lemma replace_chars_eq:
  "replace_chars oItems r s = map (\<lambda>c. if c \<in> set oItems then r else c) s"
  by (simp add: replace_chars_def in_items_iff)


subsection \<open>Replacing a substring\<close>

lemma c_str_id: "NUL \<notin> set s \<Longrightarrow> c_str s = s"
  unfolding c_str_def by (rule takeWhile_eq_all_conv [THEN iffD2]) auto

lemma find_text_Some:
  "find_text s p pos = Some i \<Longrightarrow> pos \<le> i \<and> i + length p \<le> length s \<and> take (length p) (drop i s) = p"
  unfolding find_text_def by (drule find_hit) auto

lemma find_text_None: "find_text s p 0 = None \<longleftrightarrow> \<not> sublist p s"
proof -
  have "find_text s p 0 = None \<longleftrightarrow> (\<forall>i < Suc (length s). \<not> (i + length p \<le> length s \<and> take (length p) (drop i s) = p))"
    by (auto simp: find_text_def find_NoneD)
  also have "\<dots> \<longleftrightarrow> \<not> sublist p s"
  proof -
    have "sublist p s" if "take (length p) (drop i s) = p" for i
      using that append_take_drop_id [of i s] append_take_drop_id [of "length p" "drop i s"]
      unfolding sublist_def by metis
    moreover have "\<exists>i < Suc (length s). i + length p \<le> length s \<and> take (length p) (drop i s) = p"
      if "sublist p s"
    proof -
      from that obtain u v where "s = u @ p @ v" by (auto simp: sublist_def)
      then show ?thesis by (intro exI [of _ "length u"]) simp
    qed
    ultimately show ?thesis by blast
  qed
  finally show ?thesis .
qed

lemma replace_turn_length:
  assumes "i + length src \<le> length s" "src \<noteq> []"
  shows "replace_turn src ch i s = Some ((erase i (length src - 1) s)[i := ch]) \<and>
    length (erase i (length src - 1) s) = length s - (length src - 1)"
proof -
  have l: "length (erase i (length src - 1) s) = length s - (length src - 1)"
    using assms by (simp add: erase_def)
  moreover have "length src \<noteq> 0" using assms(2) by simp
  then have "i < length s - (length src - 1)" using assms(1) by linarith
  ultimately show ?thesis using assms(2) by (simp add: replace_turn_def)
qed

lemma replace_text_step:
  assumes "src \<noteq> []" "NUL \<notin> set src"
  shows "replace_text src ch s =
    (case find_text s src 0 of
       None \<Rightarrow> Some (Some s)
     | Some i \<Rightarrow> replace_text src ch ((erase i (length src - 1) s)[i := ch]))"
  using assms replace_turn_length [OF _ assms(1)]
  by (subst replace_text.simps) (auto simp: c_str_id dest: find_text_Some split: option.split)

lemma replace_text_shrinks:
  assumes "Suc (Suc 0) \<le> length src" "NUL \<notin> set src"
  shows "\<exists>t. replace_text src ch s = Some (Some t) \<and> \<not> sublist src t"
proof (induction s rule: length_induct)
  case (1 s)
  have ne: "src \<noteq> []" using assms(1) by auto
  show ?case
  proof (cases "find_text s src 0")
    case None
    moreover have "\<not> sublist src s" using None find_text_None by blast
    ultimately show ?thesis by (simp add: replace_text_step [OF ne assms(2)])
  next
    case (Some i)
    have "i + length src \<le> length s" using find_text_Some [OF Some] by simp
    then have "length ((erase i (length src - 1) s)[i := ch]) < length s"
      using replace_turn_length [of i src s] ne assms(1) by auto
    then show ?thesis using 1 Some by (simp add: replace_text_step [OF ne assms(2)])
  qed
qed

lemma sublist_single: "sublist [c] s \<longleftrightarrow> c \<in> set s"
  by (auto simp: sublist_def in_set_conv_decomp)

lemma replace_text_single:
  assumes "c \<noteq> ch" "c \<noteq> NUL"
  shows "replace_text [c] ch s = Some (Some (map (\<lambda>x. if x = c then ch else x) s))"
proof (induction "length (filter (\<lambda>x. x = c) s)" arbitrary: s rule: less_induct)
  case less
  have step: "replace_text [c] ch s = (case find_text s [c] 0 of None \<Rightarrow> Some (Some s)
      | Some i \<Rightarrow> replace_text [c] ch (s[i := ch]))" for s
    using assms(2) by (subst replace_text_step) (auto simp: erase_def split: option.split)
  show ?case
  proof (cases "find_text s [c] 0")
    case None
    then have "c \<notin> set s" by (simp add: find_text_None sublist_single)
    then have "map (\<lambda>x. if x = c then ch else x) s = s" by (intro map_idI) auto
    then show ?thesis using None by (simp add: step)
  next
    case (Some i)
    have i: "i < length s" "s ! i = c"
      using find_text_Some [OF Some] by (auto simp: take_Suc hd_drop_conv_nth split: if_splits)
    have u: "s[i := ch] = take i s @ ch # drop (Suc i) s" "s = take i s @ c # drop (Suc i) s"
      using i id_take_nth_drop [OF i(1)] by (simp_all add: upd_conv_take_nth_drop)
    have "length (filter (\<lambda>x. x = c) (s[i := ch])) < length (filter (\<lambda>x. x = c) s)"
      unfolding u(1) by (subst (3) u(2)) (use assms(1) in simp)
    moreover have "map (\<lambda>x. if x = c then ch else x) (s[i := ch]) = map (\<lambda>x. if x = c then ch else x) s"
      unfolding u(1) by (subst (3) u(2)) (use assms(1) in simp)
    ultimately show ?thesis using less Some by (simp add: step)
  qed
qed

text \<open>A character that is replaced by itself is found again, and the loop runs for ever.\<close>

lemma replace_text_loops:
  "replace_text src ch s = Some r \<Longrightarrow> src = [ch] \<and> ch \<noteq> NUL \<longrightarrow> ch \<notin> set s"
proof (induction rule: replace_text.raw_induct [rotated, consumes 1])
  case (1 f src ch s r)
  show ?case
  proof (intro impI, elim conjE)
    assume src: "src = [ch]" and ch: "ch \<noteq> NUL"
    show "ch \<notin> set s"
    proof (cases "find_text s [ch] 0")
      case None
      then show ?thesis by (simp add: find_text_None sublist_single)
    next
      case (Some i)
      have i: "i < length s" "s ! i = ch"
        using find_text_Some [OF Some] by (auto simp: take_Suc hd_drop_conv_nth split: if_splits)
      have "replace_turn [ch] ch i s = Some s" using i by (auto simp: replace_turn_def erase_def)
      then have "f [ch] ch s = Some r" using "1"(2) Some src ch by (simp add: c_str_def)
      then show ?thesis using "1"(1) src ch by blast
    qed
  qed
qed

text \<open>What a turn means: the first occurrence of the substring becomes the character.\<close>

definition replaces_first :: "string \<Rightarrow> char \<Rightarrow> string \<Rightarrow> string \<Rightarrow> bool" where
  "replaces_first src ch s t \<longleftrightarrow>
     (\<exists>u v. s = u @ src @ v \<and> t = u @ ch # v \<and> (\<forall>u' v'. s = u' @ src @ v' \<longrightarrow> length u \<le> length u'))"

lemma find_text_first:
  assumes "find_text s p 0 = Some i" "s = u @ p @ v"
  shows "i \<le> length u"
proof (rule ccontr)
  assume "\<not> i \<le> length u"
  moreover have "length u + length p \<le> length s" "take (length p) (drop (length u) s) = p"
    using assms(2) by simp_all
  ultimately show False
    using assms(1) unfolding find_text_def by (auto simp: find_Some_iff simp del: upt_Suc)
qed

lemma find_text_replaces_first:
  assumes "find_text s src 0 = Some i" "src \<noteq> []"
  shows "replaces_first src ch s ((erase i (length src - 1) s)[i := ch])"
proof -
  have i: "i + length src \<le> length s" "take (length src) (drop i s) = src"
    using find_text_Some [OF assms(1)] by simp_all
  have s: "s = take i s @ src @ drop (i + length src) s"
    using append_take_drop_id [of "length src" "drop i s"] append_take_drop_id [of i s] i(2)
    by (simp add: add.commute)
  have "i + (length src - 1) < length s" "Suc (i + (length src - 1)) = i + length src"
    using i(1) assms(2) by (cases src; simp)+
  then obtain w where w: "drop (i + (length src - 1)) s = w # drop (i + length src) s"
    using Cons_nth_drop_Suc [of "i + (length src - 1)" s] by metis
  have "(erase i (length src - 1) s)[i := ch] = take i s @ ch # drop (i + length src) s"
    using i(1) w by (simp add: erase_def list_update_append)
  moreover have "length (take i s) \<le> length u" if "s = u @ src @ v" for u v
    using find_text_first [OF assms(1) that] i(1) by simp
  ultimately show ?thesis using s unfolding replaces_first_def by blast
qed

lemma replace_text_rewrites:
  "replace_text src ch s = Some r \<Longrightarrow> src \<noteq> [] \<and> NUL \<notin> set src \<longrightarrow>
     (\<forall>t. r = Some t \<longrightarrow> (replaces_first src ch)\<^sup>*\<^sup>* s t \<and> \<not> sublist src t)"
proof (induction rule: replace_text.raw_induct [rotated, consumes 1])
  case (1 f src ch s r)
  show ?case
  proof (intro impI allI, elim conjE)
    fix t assume src: "src \<noteq> []" "NUL \<notin> set src" and r: "r = Some t"
    show "(replaces_first src ch)\<^sup>*\<^sup>* s t \<and> \<not> sublist src t"
    proof (cases "find_text s src 0")
      case None
      then show ?thesis using "1"(2) src r find_text_None [of s src] by (simp add: c_str_id)
    next
      case (Some i)
      let ?s = "(erase i (length src - 1) s)[i := ch]"
      have "replace_turn src ch i s = Some ?s"
        using replace_turn_length [of i src s ch] find_text_Some [OF Some] src(1) by simp
      then have "f src ch ?s = Some r" using "1"(2) Some src by (simp add: c_str_id)
      then have "(replaces_first src ch)\<^sup>*\<^sup>* ?s t \<and> \<not> sublist src t" using "1"(1) src r by blast
      then show ?thesis
        using find_text_replaces_first [OF Some src(1)] converse_rtranclp_into_rtranclp by metis
    qed
  qed
qed

text \<open>C33: Replacing a substring by a character, for a substring that is not empty and has no NUL in it.
  The code returns, unless the substring is the character itself and occurs, when it runs for ever.
  The result is what comes of replacing the first occurrence of the substring by the character, again and
  again, those that arise from a replacement included, until none is left; for a substring of one
  character that is the string with the character at each of its places.\<close>

theorem replace_text_returns_iff:
  assumes "src \<noteq> []" "NUL \<notin> set src"
  shows "case replace_text src ch s of
      None \<Rightarrow> src = [ch] \<and> ch \<in> set s
    | Some None \<Rightarrow> False
    | Some (Some t) \<Rightarrow> \<not> (src = [ch] \<and> ch \<in> set s) \<and>
        (replaces_first src ch)\<^sup>*\<^sup>* s t \<and> \<not> sublist src t \<and>
        (\<forall>c. src = [c] \<longrightarrow> t = map (\<lambda>x. if x = c then ch else x) s)"
proof (cases "Suc (Suc 0) \<le> length src")
  case True
  then show ?thesis
    using replace_text_shrinks [OF True assms(2), of ch s] replace_text_rewrites [of src ch s] assms by auto
next
  case False
  then obtain c where c: "src = [c]" using assms(1)
    by (cases src; cases "tl src") auto
  have nul: "c \<noteq> NUL" using c assms(2) by simp
  show ?thesis
  proof (cases "c = ch")
    case no: False
    show ?thesis
      using replace_text_single [OF no nul, of s] replace_text_rewrites [of src ch s] c assms no by simp
  next
    case ch: True
    show ?thesis
    proof (cases "ch \<in> set s")
      case True
      then have "replace_text src ch s = None"
        using replace_text_loops [of src ch s] c ch nul by (cases "replace_text src ch s") auto
      then show ?thesis using True c ch by simp
    next
      case False
      then have "\<not> sublist src s" using c ch by (simp add: sublist_single)
      then have "find_text s src 0 = None" using find_text_None by blast
      then have "replace_text src ch s = Some (Some s)"
        using replace_text_step [OF assms, of ch s] by simp
      moreover have "map (\<lambda>x. if x = ch then ch else x) s = s" by (simp add: map_idI)
      ultimately show ?thesis using False c ch \<open>\<not> sublist src s\<close> by simp
    qed
  qed
qed

theorem replace_text_returns_iff_witness:
  "\<exists>t. replace_text ''aa'' (CHR ''a'') ''aaab'' = Some (Some t) \<and>
     (replaces_first ''aa'' (CHR ''a''))\<^sup>*\<^sup>* ''aaab'' t \<and> \<not> sublist ''aa'' t"
  using replace_text_returns_iff [of "''aa''" "CHR ''a''" "''aaab''"] by (auto split: option.splits)

text \<open>An empty substring, or one that begins with a NUL: the string is erased and a character is written
  behind its end.\<close>

lemma replace_text_empty: "ch \<noteq> NUL \<Longrightarrow> replace_text [] ch s = Some None"
proof -
  assume "ch \<noteq> NUL"
  moreover have "find_text s [] 0 = Some 0"
    by (simp add: find_text_def upt_rec [of 0])
  ultimately show ?thesis
    by (subst replace_text.simps) (simp add: c_str_def replace_turn_def erase_def)
qed

end
