(* ===== verification/Xstring_Split.thy ===== *)
theory Xstring_Split
  imports Xstring_Properties
begin

text \<open>
  The three ways of splitting a string, against recursive descriptions of the pieces, and what joining
  the pieces gives back.
\<close>

subsection \<open>The first position in a class\<close>

definition is_first :: "(nat \<Rightarrow> bool) \<Rightarrow> nat \<Rightarrow> nat \<Rightarrow> nat option \<Rightarrow> bool" where
  "is_first P pos n r \<longleftrightarrow>
     (case r of
        None \<Rightarrow> \<forall>i. pos \<le> i \<and> i < n \<longrightarrow> \<not> P i
      | Some x \<Rightarrow> pos \<le> x \<and> x < n \<and> P x \<and> (\<forall>i. pos \<le> i \<and> i < x \<longrightarrow> \<not> P i))"

lemma is_first_unique:
  assumes "is_first P pos n r" "is_first P pos n r'"
  shows "r = r'"
proof (cases r)
  case None
  then show ?thesis using assms by (cases r') (auto simp: is_first_def)
next
  case (Some x)
  then obtain y where y: "r' = Some y" using assms by (cases r') (auto simp: is_first_def)
  have "\<not> x < y" "\<not> y < x" using assms Some y by (auto simp: is_first_def)
  then show ?thesis using Some y by simp
qed

lemma is_first_Suc:
  "is_first P (Suc pos) n r \<Longrightarrow> \<not> P pos \<Longrightarrow> is_first P pos n r"
  by (cases r) (auto simp: is_first_def intro: Suc_leI dest: le_imp_less_or_eq)

lemma is_first_find: "is_first P pos n (List.find P [pos..<n])"
proof (induction "n - pos" arbitrary: pos)
  case 0
  then show ?case by (auto simp: is_first_def)
next
  case (Suc k)
  then have "pos < n" "is_first P (Suc pos) n (List.find P [Suc pos..<n])" by simp_all
  then show ?case
    by (cases "P pos") (auto simp: upt_conv_Cons is_first_Suc is_first_def [of P pos n "Some pos"])
qed

lemma find_upt_eq: "is_first P pos n r \<Longrightarrow> List.find P [pos..<n] = r"
  by (metis is_first_unique is_first_find)

lemma is_first_min:
  assumes "is_first P pos n r" "is_first Q pos n (Some x)"
  shows "is_first (\<lambda>i. P i \<or> Q i) pos n
    (case r of None \<Rightarrow> Some x | Some y \<Rightarrow> if x < y then Some x else r)"
  using assms by (cases r) (auto simp: is_first_def)

lemma is_first_or_None:
  "is_first P pos n r \<Longrightarrow> is_first Q pos n None \<Longrightarrow> is_first (\<lambda>i. P i \<or> Q i) pos n r"
  by (cases r) (auto simp: is_first_def)

lemma find_first_of_is_first:
  "is_first (\<lambda>i. s ! i \<in> A) pos (length s) r \<Longrightarrow>
     is_first (\<lambda>i. s ! i \<in> A \<union> set ds) pos (length s) (find_first_of ds pos r s)"
proof (induction ds arbitrary: A r)
  case (Cons ch ds)
  have ch: "is_first (\<lambda>i. s ! i = ch) pos (length s) (find_ch s ch pos)"
    unfolding find_ch_def by (rule is_first_find)
  have e: "(\<lambda>i. s ! i \<in> A \<or> s ! i = ch) = (\<lambda>i. s ! i \<in> insert ch A)"
    "insert ch A \<union> set ds = A \<union> set (ch # ds)" by auto
  show ?case
  proof (cases "find_ch s ch pos")
    case None
    have "is_first (\<lambda>i. s ! i \<in> insert ch A) pos (length s) r"
      using is_first_or_None [OF Cons.prems ch [unfolded None]] unfolding e(1) .
    from Cons.IH [OF this, unfolded e(2)] show ?thesis using None by (simp only: find_first_of.simps option.simps)
  next
    case (Some x)
    note m = is_first_min [OF Cons.prems ch [unfolded Some], unfolded e(1)]
    from Cons.IH [OF m, unfolded e(2)] show ?thesis
      using Some by (simp only: find_first_of.simps option.simps)
  qed
qed simp

lemma find_first_of_eq:
  "find_first_of ds pos None s = List.find (\<lambda>i. s ! i \<in> set ds) [pos..<length s]"
  using find_first_of_is_first [of s "{}" pos None ds]
  by (intro find_upt_eq [symmetric]) (simp add: is_first_def)

lemma find_first_visited_eq:
  "find_first_visited V i s = List.find (\<lambda>i. V (s ! i)) [i..<length s]"
proof (induction V i s rule: find_first_visited.induct)
  case (1 V i s)
  then show ?case by (subst find_first_visited.simps) (simp add: upt_rec [of i])
qed

subsection \<open>Splitting at characters\<close>

fun pieces_at :: "('a \<Rightarrow> bool) \<Rightarrow> 'a list \<Rightarrow> 'a list list" where
  "pieces_at P [] = [[]]"
| "pieces_at P (c # cs) =
     (if P c then [] # pieces_at P cs
      else (case pieces_at P cs of [] \<Rightarrow> [[c]] | w # ws \<Rightarrow> (c # w) # ws))"

lemma pieces_at_append:
  "list_all (\<lambda>c. \<not> P c) w \<Longrightarrow> pieces_at P w = [w]"
  "list_all (\<lambda>c. \<not> P c) w \<Longrightarrow> P c \<Longrightarrow> pieces_at P (w @ c # r) = w # pieces_at P r"
  by (induction w) auto

definition keep_pieces :: "bool \<Rightarrow> 'a list list \<Rightarrow> 'a list list" where
  "keep_pieces trimEmpty ps = (if trimEmpty then filter (\<lambda>p. p \<noteq> []) ps else ps)"

lemma push_piece_eq:
  "lastPos \<le> pos \<Longrightarrow> pos \<le> length s \<Longrightarrow>
     push_piece te s lastPos pos oRet =
       Some (oRet @ keep_pieces te [take (pos - lastPos) (drop lastPos s)])"
  by (auto simp: push_piece_def piece_def keep_pieces_def)

lemma keep_pieces_Cons: "keep_pieces te (p # ps) = keep_pieces te [p] @ keep_pieces te ps"
  by (simp add: keep_pieces_def)

lemma split_loop_pieces:
  assumes fnd: "\<And>l. is_first (\<lambda>i. P (s ! i)) l (length s) (fnd l)"
  shows "l \<le> length s \<Longrightarrow> length s - l < turns \<Longrightarrow>
    split_loop turns fnd te s l oRet = Some (oRet @ keep_pieces te (pieces_at P (drop l s)))"
proof (induction turns arbitrary: l oRet)
  case (Suc turns)
  show ?case
  proof (cases "fnd l")
    case None
    then have "list_all (\<lambda>c. \<not> P c) (drop l s)"
      using fnd [of l] by (auto simp: is_first_def list_all_length)
    then show ?thesis
      using None Suc.prems by (subst split_loop.simps) (simp add: push_piece_eq pieces_at_append)
  next
    case (Some pos)
    then have p: "l \<le> pos" "pos < length s" "P (s ! pos)" "\<forall>i. l \<le> i \<and> i < pos \<longrightarrow> \<not> P (s ! i)"
      using fnd [of l] by (auto simp: is_first_def)
    have w: "list_all (\<lambda>c. \<not> P c) (take (pos - l) (drop l s))"
      using p by (auto simp: list_all_length)
    have "drop l s = take (pos - l) (drop l s) @ s ! pos # drop (Suc pos) s"
      using p(1,2) id_take_nth_drop [of "pos - l" "drop l s"] by simp
    then have "pieces_at P (drop l s) = take (pos - l) (drop l s) # pieces_at P (drop (Suc pos) s)"
      using pieces_at_append(2) [OF w p(3)] by metis
    then show ?thesis
      using Some p Suc.prems Suc.IH [of "Suc pos"]
      by (subst split_loop.simps)
        (simp add: push_piece_eq keep_pieces_Cons [of te _ "pieces_at P (drop (Suc pos) s)"])
  qed
qed simp

lemma split_chars_pieces:
  "split_chars ds te s = Some (keep_pieces te (pieces_at (\<lambda>c. c \<in> set ds) s))"
  unfolding split_chars_def
  by (subst split_loop_pieces [where P = "\<lambda>c. c \<in> set ds"])
    (simp_all add: find_first_of_eq is_first_find)

fun join :: "'a \<Rightarrow> 'a list list \<Rightarrow> 'a list" where
  "join d [] = []"
| "join d [p] = p"
| "join d (p # q # ps) = p @ d # join d (q # ps)"

lemma join_Cons: "ps \<noteq> [] \<Longrightarrow> join d (p # ps) = p @ d # join d ps"
  by (cases ps) auto

lemma pieces_at_not_Nil [simp]: "pieces_at P s \<noteq> []"
  by (cases s) (auto split: list.split)

lemma join_pieces_at: "join d (pieces_at (\<lambda>c. c = d) s) = s"
proof (induction s)
  case (Cons c s)
  show ?case
  proof (cases "c = d")
    case True
    then show ?thesis using Cons by (simp add: join_Cons)
  next
    case False
    obtain w ws where p: "pieces_at (\<lambda>c. c = d) s = w # ws" by (metis neq_Nil_conv pieces_at_not_Nil)
    then show ?thesis using Cons False by (cases ws) auto
  qed
qed simp

lemma pieces_at_join:
  "ps \<noteq> [] \<Longrightarrow> list_all (\<lambda>p. d \<notin> set p) ps \<Longrightarrow> pieces_at (\<lambda>c. c = d) (join d ps) = ps"
proof (induction d ps rule: join.induct)
  case (2 d p)
  then have "list_all (\<lambda>c. \<not> c = d) p" by (auto simp: list_all_iff)
  then show ?case by (simp add: pieces_at_append)
next
  case (3 d p q ps)
  then have "list_all (\<lambda>c. \<not> c = d) p" by (auto simp: list_all_iff)
  from pieces_at_append(2) [OF this refl] show ?case using 3 by simp
qed simp

text \<open>C32: Splitting at a list of characters. The result is the pieces between the separators, without
  the empty ones where that is asked for. With one separator, joining the pieces gives the string back
  and splitting a join gives its pieces back.\<close>

theorem split_chars_inverse:
  assumes "ps \<noteq> []" "list_all (\<lambda>p. d \<notin> set p) ps"
  shows "split_chars ds te s = Some (keep_pieces te (pieces_at (\<lambda>c. c \<in> set ds) s)) \<and>
    map_option (join d) (split_chars [d] False s) = Some s \<and>
    split_chars [d] False (join d ps) = Some ps"
  using pieces_at_join [OF assms] by (simp add: split_chars_pieces keep_pieces_def join_pieces_at)

theorem split_chars_inverse_witness:
  "split_chars '' ,'' True ''a, b'' =
     Some (keep_pieces True (pieces_at (\<lambda>c. c \<in> set '' ,'') ''a, b'')) \<and>
   map_option (join (CHR '';'')) (split_chars '';'' False ''a, b'') = Some ''a, b'' \<and>
   split_chars '';'' False (join (CHR '';'') [''x'', [], ''yz'']) = Some [''x'', [], ''yz'']"
  by (rule split_chars_inverse) simp_all


subsection \<open>Splitting at a string\<close>

lemma split_loop_join:
  assumes fnd: "\<And>l p. fnd l = Some p \<Longrightarrow> l \<le> p \<and> p < length s \<and> s ! p = d"
  shows "l \<le> length s \<Longrightarrow> length s - l < turns \<Longrightarrow>
    \<exists>ps. split_loop turns fnd False s l oRet = Some (oRet @ ps) \<and> ps \<noteq> [] \<and> join d ps = drop l s"
proof (induction turns arbitrary: l oRet)
  case (Suc turns)
  show ?case
  proof (cases "fnd l")
    case None
    then show ?thesis using Suc.prems
      by (subst split_loop.simps) (simp add: push_piece_eq keep_pieces_def)
  next
    case (Some pos)
    note p = fnd [OF this]
    have less: "length s - Suc pos < turns" using p Suc.prems by linarith
    obtain ps where ps: "split_loop turns fnd False s (Suc pos) (oRet @ [take (pos - l) (drop l s)]) =
        Some ((oRet @ [take (pos - l) (drop l s)]) @ ps)"
      "ps \<noteq> []" "join d ps = drop (Suc pos) s"
      using Suc.IH [of "Suc pos" "oRet @ [take (pos - l) (drop l s)]"] Suc.prems p less by auto
    have "pos - l < length (drop l s)" using p by auto
    from id_take_nth_drop [OF this]
    have "drop l s = take (pos - l) (drop l s) @ s ! pos # drop (Suc pos) s" using p by simp
    then have "join d (take (pos - l) (drop l s) # ps) = drop l s"
      using ps(2,3) p by (simp add: join_Cons)
    then show ?thesis using Some Suc.prems p ps
      by (intro exI [of _ "take (pos - l) (drop l s) # ps"], subst split_loop.simps)
        (simp add: push_piece_eq keep_pieces_def)
  qed
qed simp

lemma find_text_Nil: "find_text s [] l = (if l \<le> length s then Some l else None)"
  by (simp add: find_text_def upt_rec [of l])

lemma split_text_throws:
  "Suc (length s) - l \<le> turns \<Longrightarrow> l \<le> Suc (length s) \<Longrightarrow>
     split_loop turns (find_text s []) te s l oRet = None"
proof (induction turns arbitrary: l oRet)
  case 0
  then have "l = Suc (length s)" by simp
  then show ?case by (subst split_loop.simps) (simp add: find_text_Nil push_piece_def piece_def)
next
  case (Suc turns)
  show ?case
  proof (cases "l \<le> length s")
    case True
    then have "split_loop turns (find_text s []) te s (Suc l) out = None" for out
      using Suc by simp
    then show ?thesis using True
      by (subst split_loop.simps) (cases te; simp add: find_text_Nil push_piece_def piece_def)
  next
    case False
    then show ?thesis using Suc
      by (subst split_loop.simps) (simp add: find_text_Nil push_piece_def piece_def)
  qed
qed

text \<open>Splitting at a string moves on by one character only, whatever its length: the pieces
  joined with the first character of the delimiter give the string back, so the rest of every delimiter is
  left at the beginning of the piece that follows it. With the empty delimiter the constructor of a piece
  always throws.\<close>

theorem split_text_keeps_rest:
  "case split_text delim False s of
     None \<Rightarrow> delim = []
   | Some ps \<Rightarrow> delim \<noteq> [] \<and> join (hd delim) ps = s"
proof (cases delim)
  case Nil
  then show ?thesis using split_text_throws [of s 0 "length s + 1" False "[]"] by (simp add: split_text_def)
next
  case (Cons d ds)
  have "l \<le> p \<and> p < length s \<and> s ! p = d" if "find_text s delim l = Some p" for l p
    using find_text_Some [OF that] Cons by (auto simp: take_Suc hd_drop_conv_nth split: if_splits)
  from split_loop_join [of "\<lambda>l. find_text s delim l" s d, OF this, of 0 "length s + 1" "[]"]
  show ?thesis using Cons by (auto simp: split_text_def)
qed

subsection \<open>Splitting by a visitor\<close>

function tokens :: "('a \<Rightarrow> bool) \<Rightarrow> 'a list \<Rightarrow> 'a list list" where
  "tokens P [] = []"
| "tokens P (c # cs) =
     (if P c then [c] # tokens P cs
      else (c # takeWhile (\<lambda>x. \<not> P x) cs) # tokens P (dropWhile (\<lambda>x. \<not> P x) cs))"
  by pat_completeness auto
termination
  by (relation "measure (\<lambda>(_, s). length s)") (auto simp: le_imp_less_Suc length_dropWhile_le)

lemma tokens_word:
  assumes "list_all (\<lambda>x. \<not> P x) w"
  shows "tokens P w = (if w = [] then [] else [w])"
    "P c \<Longrightarrow> tokens P (w @ c # r) = (if w = [] then [] else [w]) @ [c] # tokens P r"
  using assms
  by (cases w; auto simp: list_all_iff takeWhile_append takeWhile_eq_all_conv [THEN iffD2] dropWhile_append
      dropWhile_eq_Nil_conv [THEN iffD2])+

lemma split_visited_loop_tokens:
  "l \<le> i \<Longrightarrow> i \<le> length s \<Longrightarrow> list_all (\<lambda>x. \<not> V x) (take (i - l) (drop l s)) \<Longrightarrow>
     (case split_visited_loop V s l i oRet of
        (iLast, out) \<Rightarrow> (if iLast < length s then out @ [drop iLast s] else out)) =
     oRet @ tokens V (drop l s)"
proof (induction V s l i oRet rule: split_visited_loop.induct)
  case (1 V s l i oRet)
  let ?w = "take (i - l) (drop l s)"
  show ?case
  proof (cases "i < length s")
    case False
    then have "i = length s" using "1.prems" by simp
    then show ?thesis
      using "1.prems" tokens_word(1) [OF "1.prems"(3)] by (subst split_visited_loop.simps) simp
  next
    case True
    have d: "drop l s = ?w @ s ! i # drop (Suc i) s"
      using "1.prems" True id_take_nth_drop [of "i - l" "drop l s"] by simp
    show ?thesis
    proof (cases "V (s ! i)")
      case False
      have "take (Suc i - l) (drop l s) = ?w @ [s ! i]"
        using "1.prems" True by (simp add: Suc_diff_le take_Suc_conv_app_nth)
      then show ?thesis using "1.IH"(1) [OF True False] "1.prems" True False
        by (subst split_visited_loop.simps) simp
    next
      case V: True
      have "tokens V (drop l s) = (if ?w = [] then [] else [?w]) @ [s ! i] # tokens V (drop (Suc i) s)"
        by (subst d) (rule tokens_word(2) [OF "1.prems"(3) V])
      moreover have "?w = [] \<longleftrightarrow> i = l" "take 1 (drop l s) = [s ! i]" if "i = l"
        using True that by (simp_all add: take_Suc hd_drop_conv_nth)
      ultimately show ?thesis using "1.IH"(2) [OF True _ refl refl refl refl] "1.prems" True V
        by (subst split_visited_loop.simps) (auto simp: Let_def take_Suc hd_drop_conv_nth)
    qed
  qed
qed

lemma concat_tokens: "concat (tokens P s) = s"
  by (induction P s rule: tokens.induct) auto

text \<open>Splitting by a visitor. The pieces are the separators, each alone, and the longest runs
  between them; put together they are the string.\<close>

theorem split_visited_tokens:
  "split_visited V s = tokens V s \<and> concat (split_visited V s) = s"
proof -
  have "split_visited V s = tokens V s"
    using split_visited_loop_tokens [of 0 0 s V "[]"]
    by (cases "split_visited_loop V s 0 0 []") (simp add: split_visited_def split: if_splits)
  then show ?thesis by (simp add: concat_tokens)
qed

end
