(* ===== verification/Unique_Id.thy ===== *)
theory Unique_Id
  imports Bytes
begin

text \<open>
  The identifiers of \<open>unique_id.hpp\<close>: the order and the text of the Windows class, and the class for Unix
  without \<open>libuuid\<close>, which reads its value from the text the kernel generates. Identifiers of the latter are
  16 bytes of memory, read on a little-endian machine.
\<close>

subsection \<open>Hexadecimal text\<close>

definition hex_digit :: "nat \<Rightarrow> char" where
  "hex_digit n = ''0123456789ABCDEF'' ! n"

definition hex_value :: "char \<Rightarrow> nat option" where
  "hex_value c =
     (let n = of_char c in
      if 48 \<le> n \<and> n \<le> 57 then Some (n - 48)
      else if 65 \<le> n \<and> n \<le> 70 then Some (n - 55)
      else if 97 \<le> n \<and> n \<le> 102 then Some (n - 87)
      else None)"

definition is_hex :: "char \<Rightarrow> bool" where
  "is_hex c \<longleftrightarrow> hex_value c \<noteq> None"

text \<open>\<open>%0kX\<close> of a number that has at most \<open>k\<close> digits.\<close>

fun print_hex :: "nat \<Rightarrow> nat \<Rightarrow> string" where
  "print_hex 0 n = []"
| "print_hex (Suc k) n = print_hex k (n div 16) @ [hex_digit (n mod 16)]"

subsection \<open>The Windows class\<close>

record uuid_t =
  Data1 :: "32 word"
  Data2 :: "16 word"
  Data3 :: "16 word"
  Data4 :: "8 word list"

fun any_less :: "8 word list \<Rightarrow> 8 word list \<Rightarrow> bool" where
  "any_less (a # as) (b # bs) = (a < b \<or> any_less as bs)"
| "any_less as bs = False"

definition win_less :: "uuid_t \<Rightarrow> uuid_t \<Rightarrow> bool" where
  "win_less a b \<longleftrightarrow>
     Data1 a < Data1 b \<or> Data2 a < Data2 b \<or> Data3 a < Data3 b \<or> any_less (Data4 a) (Data4 b)"

definition win_nullid :: uuid_t where
  "win_nullid = \<lparr>Data1 = 0, Data2 = 0, Data3 = 0, Data4 = replicate 8 0\<rparr>"

definition win_format :: "uuid_t \<Rightarrow> string" where
  "win_format u =
     print_hex 8 (unat (Data1 u)) @ ''-'' @ print_hex 4 (unat (Data2 u)) @ ''-'' @
     print_hex 4 (unat (Data3 u)) @ ''-'' @ concat (map (\<lambda>b. print_hex 2 (unat b)) (take 2 (Data4 u))) @
     ''-'' @ concat (map (\<lambda>b. print_hex 2 (unat b)) (drop 2 (Data4 u)))"

subsection \<open>The class that reads the kernel's text\<close>

text \<open>One directive of \<open>sscanf\<close>: the width, where the value goes, how many bytes it has there, and whether a
  hyphen follows.\<close>

definition uuid_directives :: "(nat \<times> nat \<times> nat \<times> bool) list" where
  "uuid_directives =
     [(8, 0, 2, True), (4, 4, 2, True), (4, 6, 2, True), (2, 8, 1, False), (2, 9, 1, True),
      (2, 10, 1, False), (2, 11, 1, False), (2, 12, 1, False), (2, 13, 1, False), (2, 14, 1, False),
      (2, 15, 1, False)]"

definition read_hex :: "string \<Rightarrow> nat" where
  "read_hex h = foldl (\<lambda>v c. 16 * v + the (hex_value c)) 0 h"

definition put_bytes :: "nat \<Rightarrow> bytes \<Rightarrow> bytes \<Rightarrow> bytes" where
  "put_bytes off bs u = take off u @ bs @ drop (off + length bs) u"

text \<open>\<open>sscanf\<close> over hexadecimal digits stops at the first directive that does not match; a number that does
  not fit its object is stored as the implementation \<open>over\<close> likes.\<close>

fun sscanf :: "(nat \<Rightarrow> nat \<Rightarrow> nat) \<Rightarrow> (nat \<times> nat \<times> nat \<times> bool) list \<Rightarrow> string \<Rightarrow> bytes \<Rightarrow> bytes" where
  "sscanf over [] s u = u"
| "sscanf over ((w, off, k, dash) # ds) s u =
     (let h = takeWhile is_hex (take w s); s = drop (length h) s in
      if h = [] then u
      else let v = read_hex h;
               v = (if v < 256 ^ k then v else over k v);
               u = put_bytes off (nat_bytes k v) u
           in if \<not> dash then sscanf over ds s u
              else if s \<noteq> [] \<and> hd s = CHR ''-'' then sscanf over ds (tl s) u
              else u)"

text \<open>The constructor: \<open>bad()\<close> is not set when a file does not open, so the text is empty then, and the
  object keeps the bytes that were in its memory.\<close>

definition uuid_new :: "(nat \<Rightarrow> nat \<Rightarrow> nat) \<Rightarrow> string option \<Rightarrow> bytes \<Rightarrow> bytes" where
  "uuid_new over oFile memory =
     (let sTemp = (case oFile of None \<Rightarrow> [] | Some t \<Rightarrow> takeWhile (\<lambda>c. c \<noteq> CHR 0x0A) t)
      in sscanf over uuid_directives sTemp memory)"

definition uuid_copy :: "bytes \<Rightarrow> bytes" where
  "uuid_copy src = src"

definition uuid_nullid :: bytes where
  "uuid_nullid = replicate 16 0"

text \<open>\<open>operator<\<close> over the \<open>memcmp\<close> of the C library.\<close>

definition uuid_less :: "(bytes \<Rightarrow> bytes \<Rightarrow> int) \<Rightarrow> bytes \<Rightarrow> bytes \<Rightarrow> bool" where
  "uuid_less memcmp a b \<longleftrightarrow> - 1 = memcmp a b"

text \<open>\<open>%hX\<close> and \<open>%hhX\<close> print the lowest 16 and 8 bits of their arguments, the \<open>uint32_t\<close> included.\<close>

definition uint_at :: "nat \<Rightarrow> nat \<Rightarrow> bytes \<Rightarrow> nat" where
  "uint_at n off u = bytes_nat (take n (drop off u))"

definition uuid_format :: "bytes \<Rightarrow> string" where
  "uuid_format u =
     print_hex 8 (uint_at 4 0 u mod 2 ^ 16) @ ''-'' @ print_hex 4 (uint_at 2 4 u mod 2 ^ 16) @ ''-'' @
     print_hex 4 (uint_at 2 6 u mod 2 ^ 16) @ ''-'' @
     concat (map (\<lambda>i. print_hex 2 (unat (u ! i))) [8, 9]) @ ''-'' @
     concat (map (\<lambda>i. print_hex 2 (unat (u ! i))) [10, 11, 12, 13, 14, 15])"

subsection \<open>The Windows order\<close>

lemma any_less_iff:
  "length as = length bs \<Longrightarrow> any_less as bs \<longleftrightarrow> \<not> list_all2 (\<lambda>x y. y \<le> x) as bs"
  by (induction as bs rule: list_induct2) auto

text \<open>The order that would be one: every field of \<open>a\<close> is at most that of \<open>b\<close>.\<close>

definition fields_le :: "uuid_t \<Rightarrow> uuid_t \<Rightarrow> bool" where
  "fields_le a b \<longleftrightarrow>
     Data1 a \<le> Data1 b \<and> Data2 a \<le> Data2 b \<and> Data3 a \<le> Data3 b \<and> list_all2 (\<le>) (Data4 a) (Data4 b)"

lemma list_all2_swap: "list_all2 (\<lambda>x y. y \<le> x) as bs = list_all2 (\<le>) bs as"
  by (auto simp: list_all2_conv_all_nth)

lemma win_less_iff:
  "length (Data4 a) = 8 \<Longrightarrow> length (Data4 b) = 8 \<Longrightarrow> win_less a b \<longleftrightarrow> \<not> fields_le b a"
  by (auto simp: win_less_def fields_le_def any_less_iff list_all2_swap)

text \<open>The order of the Windows class is not asymmetric, as the ordered containers require: two
  identifiers are each less than the other unless every field of one is at most that of the other.\<close>

theorem win_less_both_ways:
  assumes "length (Data4 a) = 8" "length (Data4 b) = 8"
  shows "(win_less a b \<and> win_less b a) = (\<not> fields_le a b \<and> \<not> fields_le b a) \<and>
    (win_less a b \<or> win_less b a) = (a \<noteq> b)"
proof -
  have "a = b" if "fields_le a b" "fields_le b a"
  proof -
    have "Data4 a = Data4 b"
      using that by (auto simp: fields_le_def list_all2_conv_all_nth intro!: nth_equalityI order.antisym)
    then show ?thesis using that by (auto simp: fields_le_def intro!: uuid_t.equality)
  qed
  moreover have "fields_le a a" by (simp add: fields_le_def list_all2_conv_all_nth)
  ultimately show ?thesis using assms by (auto simp: win_less_iff)
qed

theorem win_less_both_ways_witness:
  "let a = win_nullid\<lparr>Data1 := 1\<rparr>; b = win_nullid\<lparr>Data2 := 1\<rparr> in
   (win_less a b \<and> win_less b a) = (\<not> fields_le a b \<and> \<not> fields_le b a) \<and>
   (win_less a b \<or> win_less b a) = (a \<noteq> b)"
  unfolding Let_def by (rule win_less_both_ways) (simp_all add: win_nullid_def)

subsection \<open>Printing and reading\<close>

lemma hex_value_digit: "n < 16 \<Longrightarrow> hex_value (hex_digit n) = Some n"
proof -
  assume "n < 16"
  then have "n \<in> set [0..<16]" by simp
  moreover have "list_all (\<lambda>n. hex_value (hex_digit n) = Some n) [0..<16]" by code_simp
  ultimately show ?thesis by (simp add: list_all_iff)
qed

lemma length_print_hex [simp]: "length (print_hex k n) = k"
  by (induction k arbitrary: n) auto

lemma print_hex_digits: "c \<in> set (print_hex k n) \<Longrightarrow> is_hex c"
  by (induction k arbitrary: n) (auto simp: hex_value_digit is_hex_def)

lemma read_print_hex: "read_hex (print_hex k n) = n mod 16 ^ k"
proof (induction k arbitrary: n)
  case (Suc k)
  have "read_hex (print_hex (Suc k) n) = 16 * read_hex (print_hex k (n div 16)) + n mod 16"
    by (simp add: read_hex_def hex_value_digit)
  then show ?case using Suc [of "n div 16"] by (simp add: mod_mult2_eq)
qed (simp add: read_hex_def)

lemma takeWhile_print_hex: "takeWhile is_hex (print_hex k n) = print_hex k n"
  by (rule takeWhile_eq_all_conv [THEN iffD2]) (auto dest: print_hex_digits)

lemma sscanf_step:
  assumes "0 < w" "n < 16 ^ w" "n < 256 ^ k"
  shows "sscanf over ((w, off, k, False) # ds) (print_hex w n @ r) u =
      sscanf over ds r (put_bytes off (nat_bytes k n) u)"
    "sscanf over ((w, off, k, True) # ds) (print_hex w n @ CHR ''-'' # r) u =
      sscanf over ds r (put_bytes off (nat_bytes k n) u)"
proof -
  have "print_hex w n \<noteq> []" using assms(1) by (metis length_print_hex list.size(3) not_gr0)
  then show "sscanf over ((w, off, k, False) # ds) (print_hex w n @ r) u =
      sscanf over ds r (put_bytes off (nat_bytes k n) u)"
    "sscanf over ((w, off, k, True) # ds) (print_hex w n @ CHR ''-'' # r) u =
      sscanf over ds r (put_bytes off (nat_bytes k n) u)"
    using assms by (simp_all add: Let_def read_print_hex takeWhile_print_hex)
qed

lemma nat_bytes_unat [simp]: "nat_bytes (Suc 0) (unat (b :: 8 word)) = [b]"
  by simp

lemma unat_byte: "unat (b :: 8 word) < 256"
  using unsigned_less [of b] by simp

lemma nat_bytes_pair: "nat_bytes 2 (unat (b :: 8 word) + 256 * unat (c :: 8 word)) = [b, c]"
  using nat_bytes_nat [of "[b, c]" 2] by simp

lemma sscanf_byte:
  "sscanf over ((2, off, Suc 0, False) # ds) (print_hex 2 (unat b) @ r) u = sscanf over ds r (put_bytes off [b] u)"
  "sscanf over ((2, off, Suc 0, True) # ds) (print_hex 2 (unat b) @ CHR ''-'' # r) u =
     sscanf over ds r (put_bytes off [b] u)"
  using unat_byte [of b] by (simp_all add: sscanf_step del: sscanf.simps)

lemma sscanf_pair:
  assumes "w = 4 \<or> w = 8"
  shows "sscanf over ((w, off, 2, True) # ds)
      (print_hex w (unat (b :: 8 word) + 256 * unat (c :: 8 word)) @ CHR ''-'' # r) u =
      sscanf over ds r (put_bytes off [b, c] u)"
proof -
  have n: "unat b + 256 * unat c < 256 ^ 2" using unat_byte [of b] unat_byte [of c] by simp
  then have "unat b + 256 * unat c < 16 ^ w" using assms by auto
  from sscanf_step(2) [OF _ this n] show ?thesis using assms by (auto simp: nat_bytes_pair simp del: sscanf.simps)
qed

lemma length_16:
  assumes "length (u :: 'a list) = 16"
  obtains a0 a1 a2 a3 a4 a5 a6 a7 a8 a9 b0 b1 b2 b3 b4 b5 where
    "u = [a0, a1, a2, a3, a4, a5, a6, a7, a8, a9, b0, b1, b2, b3, b4, b5]"
  using assms by (auto simp: length_Suc_conv numeral_eq_Suc)

lemma mod_low16: "a < 65536 \<Longrightarrow> (a + 65536 * x) mod 2 ^ 16 = (a :: nat)"
  by simp

lemma uint_low16: "(unat (b :: 8 word) + 256 * (unat (c :: 8 word) + 256 * x)) mod 2 ^ 16 = unat b + 256 * unat c"
proof -
  have "unat b + 256 * unat c < 65536" using unat_byte [of b] unat_byte [of c] by simp
  moreover have "unat b + 256 * (unat c + 256 * x) = (unat b + 256 * unat c) + 65536 * x" by simp
  ultimately show ?thesis using mod_low16 by presburger
qed

lemma uint_pair: "(unat (b :: 8 word) + 256 * unat (c :: 8 word)) mod 2 ^ 16 = unat b + 256 * unat c"
  using uint_low16 [of b c 0] by simp

text \<open>Printing and reading back. The object that is constructed from the text of an identifier
  has every byte of it except the third and the fourth, which are what was in its memory: the first number
  of the text, of 32 bits, is printed and read as one of 16 bits. Two identifiers with the same text
  may differ in these bytes.\<close>

theorem uuid_read_print:
  assumes "length u = 16" "length memory = 16"
  shows "uuid_new over (Some (uuid_format u)) memory = u[2 := memory ! 2, 3 := memory ! 3]"
proof -
  obtain a0 a1 a2 a3 a4 a5 a6 a7 a8 a9 b0 b1 b2 b3 b4 b5 where
    u: "u = [a0, a1, a2, a3, a4, a5, a6, a7, a8, a9, b0, b1, b2, b3, b4, b5]"
    using length_16 [OF assms(1)] .
  obtain c0 c1 c2 c3 c4 c5 c6 c7 c8 c9 d0 d1 d2 d3 d4 d5 where
    m: "memory = [c0, c1, c2, c3, c4, c5, c6, c7, c8, c9, d0, d1, d2, d3, d4, d5]"
    using length_16 [OF assms(2)] .
  let ?p = "\<lambda>b. print_hex 2 (unat (b :: 8 word))"
  have b: "uint_at 4 0 u = unat a0 + 256 * (unat a1 + 256 * (unat a2 + 256 * unat a3))"
    "uint_at 2 4 u = unat a4 + 256 * unat a5" "uint_at 2 6 u = unat a6 + 256 * unat a7"
    unfolding u uint_at_def by simp_all
  have low: "uint_at 4 0 u mod 2 ^ 16 = unat a0 + 256 * unat a1"
    "uint_at 2 4 u mod 2 ^ 16 = unat a4 + 256 * unat a5" "uint_at 2 6 u mod 2 ^ 16 = unat a6 + 256 * unat a7"
    unfolding b by (rule uint_low16 uint_pair)+
  have f: "uuid_format u =
      print_hex 8 (unat a0 + 256 * unat a1) @ CHR ''-'' # print_hex 4 (unat a4 + 256 * unat a5) @ CHR ''-'' #
      print_hex 4 (unat a6 + 256 * unat a7) @ CHR ''-'' # ?p a8 @ ?p a9 @ CHR ''-'' #
      ?p b0 @ ?p b1 @ ?p b2 @ ?p b3 @ ?p b4 @ ?p b5 @ []"
    unfolding uuid_format_def low by (simp add: u)
  have "takeWhile (\<lambda>c. c \<noteq> CHR 0x0A) (uuid_format u) = uuid_format u"
  proof (rule takeWhile_eq_all_conv [THEN iffD2], rule ballI)
    fix c assume "c \<in> set (uuid_format u)"
    then have "is_hex c \<or> c = CHR ''-''"
      unfolding f set_append list.set Un_iff insert_iff by (blast dest: print_hex_digits)
    moreover have "\<not> is_hex (CHR 0x0A)" by (simp add: hex_value_def is_hex_def)
    ultimately show "c \<noteq> CHR 0x0A" by auto
  qed
  then have "uuid_new over (Some (uuid_format u)) memory = sscanf over uuid_directives (uuid_format u) memory"
    unfolding uuid_new_def Let_def option.case by (rule arg_cong)
  also have "\<dots> = foldl (\<lambda>u (off, bs). put_bytes off bs u) memory
      [(0, [a0, a1]), (4, [a4, a5]), (6, [a6, a7]), (8, [a8]), (9, [a9]), (10, [b0]), (11, [b1]),
       (12, [b2]), (13, [b3]), (14, [b4]), (15, [b5])]"
    unfolding f uuid_directives_def One_nat_def
    by (simp only: sscanf_pair sscanf_byte sscanf.simps(1) foldl.simps case_prod_conv simp_thms)
  also have "\<dots> = u[2 := memory ! 2, 3 := memory ! 3]"
    unfolding u m by (simp add: put_bytes_def numeral_eq_Suc)
  finally show ?thesis .
qed

theorem uuid_read_print_witness:
  "uuid_new (\<lambda>k v. v) (Some (uuid_format (replicate 16 7))) (replicate 16 9) =
     (replicate 16 7)[2 := replicate 16 9 ! 2, 3 := replicate 16 9 ! 3]"
  by (rule uuid_read_print) simp_all

text \<open>When the file does not open, the identifier is what was in its memory.\<close>

lemma uuid_new_no_file: "uuid_new over None memory = memory"
  by (simp add: uuid_new_def uuid_directives_def)

end
