(* ===== verification/Mapped_Vector.thy ===== *)
theory Mapped_Vector
  imports Page_Cache "HOL-Library.Word"
begin

text \<open>
  The vector of \<open>mapped_vector.hpp\<close>: a header page with the number of items, and data pages behind it, all
  reached through an LRU cache of three views. As in \<open>Page_Cache\<close> a view is the number of the page it
  shows. The loader, the page size and the size of an item are arguments. What goes wrong is a value of
  \<open>mv_error\<close>: a page that cannot be loaded, the assertion that an iterator is not \<open>npos\<close> (as a debug
  build has it), an access outside a page, and, for a client's loop, that its turns are spent. The locale \<open>page_loading\<close> is what the vector needs of a file; reading by page has it
  on Windows and on Unix.
\<close>

subsection \<open>Loading pages\<close>

locale page_loading =
  fixes loader :: "(nat, nat, nat) loader"
  assumes loads: "fst (loader i bytes) = Some i"
begin

lemma view_access:
  assumes "views_ok c" "0 < n"
  shows "\<exists>c'. lru_index n loader i c = Reference i c' \<and> views_ok c'"
proof (cases "take_item i (deque c)")
  case None
  obtain d where d: "evict n (deque c) = Some d" using evict_positive [OF assms(2)] by blast
  obtain s where l: "loader i (loader_state c) = (Some i, s)" using loads by (metis prod.collapse)
  have "views_ok \<lparr>deque = (i, i) # d, loader_state = s\<rparr>"
    using assms(1) evict_set [OF d] by (auto simp: views_ok_def)
  then show ?thesis using None d l by (simp add: lru_index_def)
next
  case (Some r)
  obtain v d where r: "r = (v, d)" by force
  have "v = i" "\<forall>(i, view) \<in> set d. view = i"
    using take_item_set [OF Some [unfolded r]] assms(1) by (auto simp: views_ok_def)
  then show ?thesis using Some r by (simp add: lru_index_def views_ok_def)
qed

end

definition unix_loader :: "nat \<Rightarrow> (nat \<Rightarrow> bool) \<Rightarrow> (nat, nat, nat) loader" where
  "unix_loader iPageSize mmap pageNum bytes =
     (let (offset, bytes) = unix_get iPageSize mmap pageNum bytes
      in (map_option (\<lambda>offset. offset div iPageSize) offset, bytes))"

interpretation windows_pages: page_loading "page_loader P" for P
  by unfold_locales (simp add: page_loader_def)

interpretation unix_pages: page_loading "unix_loader (Suc P) (\<lambda>offset. Suc P dvd offset)" for P
  by unfold_locales (simp add: unix_loader_def unix_get_def Let_def del: mult_Suc_right)

subsection \<open>The vector\<close>

datatype mv_error = Load_failed | Npos_dereferenced | Beyond_page | Turns_spent

fun mv_bind :: "mv_error + 'a \<Rightarrow> ('a \<Rightarrow> mv_error + 'b) \<Rightarrow> mv_error + 'b" where
  "mv_bind (Inl e) f = Inl e"
| "mv_bind (Inr x) f = f x"

record 'v mapped_vector =
  mv_cache :: page_cache
  counts :: "nat \<Rightarrow> 64 word"
  item_slots :: "nat \<Rightarrow> nat \<Rightarrow> 'v"

definition mv_new :: "'v \<Rightarrow> 'v mapped_vector" where
  "mv_new zero = \<lparr>mv_cache = new_cache 0, counts = (\<lambda>_. 0), item_slots = (\<lambda>_ _. zero)\<rparr>"

definition items_per_page :: nat where
  "items_per_page = 5"

definition mv_npos :: "64 word" where
  "mv_npos = - 1"

definition mv_page ::
  "(nat, nat, nat) loader \<Rightarrow> nat \<Rightarrow> 'v mapped_vector \<Rightarrow> mv_error + (nat \<times> 'v mapped_vector)" where
  "mv_page loader i m =
     (case lru_index 3 loader i (mv_cache m) of
        Reference view c \<Rightarrow> Inr (view, m\<lparr>mv_cache := c\<rparr>)
      | _ \<Rightarrow> Inl Load_failed)"

definition mv_push_back ::
  "(nat, nat, nat) loader \<Rightarrow> nat \<Rightarrow> nat \<Rightarrow> 'v \<Rightarrow> 'v mapped_vector \<Rightarrow> mv_error + 'v mapped_vector" where
  "mv_push_back loader page_size value_size value m =
     mv_bind (mv_page loader 0 m) (\<lambda>(oRoot, m).
       let iPage = 1 + unat (counts m oRoot) div items_per_page in
       mv_bind (mv_page loader iPage m) (\<lambda>(oPage, m).
         let slot = unat (counts m oRoot) mod items_per_page in
         if page_size < (slot + 1) * value_size then Inl Beyond_page
         else Inr (m\<lparr>item_slots := (item_slots m)(oPage := (item_slots m oPage)(slot := value)),
                      counts := (counts m)(oRoot := counts m oRoot + 1)\<rparr>)))"

definition mv_size :: "(nat, nat, nat) loader \<Rightarrow> 'v mapped_vector \<Rightarrow> mv_error + (64 word \<times> 'v mapped_vector)" where
  "mv_size loader m = mv_bind (mv_page loader 0 m) (\<lambda>(oRoot, m). Inr (counts m oRoot, m))"

text \<open>An iterator is its index. Dereferencing asserts that it is not \<open>npos\<close>.\<close>

definition mv_end :: "(nat, nat, nat) loader \<Rightarrow> 'v mapped_vector \<Rightarrow> mv_error + (64 word \<times> 'v mapped_vector)" where
  "mv_end loader m = mv_bind (mv_page loader 0 m) (\<lambda>(oRoot, m). Inr (counts m oRoot, m))"

definition mv_begin :: "(nat, nat, nat) loader \<Rightarrow> 'v mapped_vector \<Rightarrow> mv_error + (64 word \<times> 'v mapped_vector)" where
  "mv_begin loader m =
     mv_bind (mv_page loader 0 m) (\<lambda>(oRoot, m). Inr (if counts m oRoot \<noteq> 0 then 0 else - 1, m))"

definition mv_get ::
  "(nat, nat, nat) loader \<Rightarrow> nat \<Rightarrow> nat \<Rightarrow> 64 word \<Rightarrow> 'v mapped_vector \<Rightarrow> mv_error + ('v \<times> 'v mapped_vector)" where
  "mv_get loader page_size value_size index m =
     (if mv_npos = index then Inl Npos_dereferenced
      else let iPage = 1 + unat index div items_per_page in
        mv_bind (mv_page loader iPage m) (\<lambda>(oPage, m).
          let slot = unat index mod items_per_page in
          if page_size < (slot + 1) * value_size then Inl Beyond_page else Inr (item_slots m oPage slot, m)))"

definition mv_increment :: "64 word \<Rightarrow> 64 word" where
  "mv_increment index = index + 1"

text \<open>The postfix operator calls itself.\<close>

partial_function (option) mv_postfix :: "64 word \<Rightarrow> 64 word option" where
  "mv_postfix index = Option.bind (mv_postfix index) (\<lambda>_. Some index)"

fun mv_pushes ::
  "(nat, nat, nat) loader \<Rightarrow> nat \<Rightarrow> nat \<Rightarrow> 'v list \<Rightarrow> 'v mapped_vector \<Rightarrow> mv_error + 'v mapped_vector" where
  "mv_pushes loader P vs [] m = Inr m"
| "mv_pushes loader P vs (v # values) m =
     mv_bind (mv_push_back loader P vs v m) (mv_pushes loader P vs values)"

text \<open>The client's loop from \<open>begin()\<close> to \<open>end()\<close>; \<open>turns\<close> bounds the turns.\<close>

fun mv_loop ::
  "nat \<Rightarrow> (nat, nat, nat) loader \<Rightarrow> nat \<Rightarrow> nat \<Rightarrow> 64 word \<Rightarrow> 'v mapped_vector \<Rightarrow> 'v list \<Rightarrow> mv_error + 'v list" where
  "mv_loop 0 loader P vs it m out = Inl Turns_spent"
| "mv_loop (Suc turns) loader P vs it m out =
     mv_bind (mv_end loader m) (\<lambda>(e, m).
       if it = e then Inr out
       else mv_bind (mv_get loader P vs it m) (\<lambda>(v, m).
         mv_loop turns loader P vs (mv_increment it) m (out @ [v])))"

definition mv_items ::
  "nat \<Rightarrow> (nat, nat, nat) loader \<Rightarrow> nat \<Rightarrow> nat \<Rightarrow> 'v mapped_vector \<Rightarrow> mv_error + 'v list" where
  "mv_items turns loader P vs m =
     mv_bind (mv_begin loader m) (\<lambda>(it, m). mv_loop turns loader P vs it m [])"

subsection \<open>What the pages hold\<close>

definition mv_holds :: "'v list \<Rightarrow> 'v mapped_vector \<Rightarrow> bool" where
  "mv_holds xs m \<longleftrightarrow>
     views_ok (mv_cache m) \<and> counts m 0 = of_nat (length xs) \<and>
     (\<forall>i < length xs. item_slots m (1 + i div items_per_page) (i mod items_per_page) = xs ! i)"

definition slots_fit :: "nat \<Rightarrow> nat \<Rightarrow> nat \<Rightarrow> bool" where
  "slots_fit P vs n \<longleftrightarrow> min n items_per_page * vs \<le> P"

lemma slots_fit_Suc:
  "slots_fit P vs n \<Longrightarrow> slots_fit P vs (Suc n) \<longleftrightarrow> (n mod items_per_page + 1) * vs \<le> P"
proof -
  assume fit: "slots_fit P vs n"
  show ?thesis
  proof (cases "n < items_per_page")
    case True
    then show ?thesis by (simp add: slots_fit_def)
  next
    case False
    have "n mod items_per_page + 1 \<le> items_per_page" by (simp add: items_per_page_def Suc_leI)
    then have "(n mod items_per_page + 1) * vs \<le> items_per_page * vs" by (rule mult_le_mono1)
    moreover have "items_per_page * vs \<le> P" using fit False by (simp add: slots_fit_def min_def split: if_splits)
    ultimately have "(n mod items_per_page + 1) * vs \<le> P" by (rule le_trans)
    then show ?thesis using \<open>items_per_page * vs \<le> P\<close> False by (simp add: slots_fit_def)
  qed
qed

lemma slots_fit_mono: "slots_fit P vs n \<Longrightarrow> k \<le> n \<Longrightarrow> slots_fit P vs k"
  unfolding slots_fit_def by (meson le_trans min.mono mult_le_mono1 order_refl)

lemma unat_length: "n < 2 ^ 64 \<Longrightarrow> unat (of_nat n :: 64 word) = n"
  by (simp add: unat_of_nat)

context page_loading
begin

lemma page_view:
  assumes "mv_holds xs m"
  shows "\<exists>m'. mv_page loader i m = Inr (i, m') \<and> mv_holds xs m' \<and>
    counts m' = counts m \<and> item_slots m' = item_slots m"
  using view_access [of "mv_cache m" 3 i] assms by (auto simp: mv_page_def mv_holds_def)

lemma push_holds:
  assumes "mv_holds xs m" "Suc (length xs) < 2 ^ 64"
  shows "mv_push_back loader P vs v m =
      (if (length xs mod items_per_page + 1) * vs \<le> P
       then Inr (projr (mv_push_back loader P vs v m)) else Inl Beyond_page) \<and>
    ((length xs mod items_per_page + 1) * vs \<le> P \<longrightarrow>
       mv_holds (xs @ [v]) (projr (mv_push_back loader P vs v m)))"
proof -
  let ?n = "length xs"
  obtain m1 where m1: "mv_page loader 0 m = Inr (0, m1)" "mv_holds xs m1"
    using page_view [OF assms(1)] by blast
  have n: "unat (counts m1 0) = ?n" using m1(2) assms(2) by (simp add: mv_holds_def unat_length)
  obtain m2 where m2: "mv_page loader (1 + ?n div items_per_page) m1 = Inr (1 + ?n div items_per_page, m2)"
      "mv_holds xs m2" "counts m2 = counts m1"
    using page_view [OF m1(2)] by blast
  have c: "unat (counts m2 0) = ?n" using n m2(3) by simp
  let ?m3 = "m2\<lparr>item_slots := (item_slots m2)(1 + ?n div items_per_page :=
      (item_slots m2 (1 + ?n div items_per_page))(?n mod items_per_page := v)),
    counts := (counts m2)(0 := counts m2 0 + 1)\<rparr>"
  have push: "mv_push_back loader P vs v m =
      (if P < (?n mod items_per_page + 1) * vs then Inl Beyond_page else Inr ?m3)"
    unfolding mv_push_back_def m1 by (simp add: n m2(1) [simplified] c)
  have other: "\<not> (1 + i div items_per_page = 1 + ?n div items_per_page \<and> i mod items_per_page = ?n mod items_per_page)"
    if "i < ?n" for i
    using that by (metis add_left_cancel div_mod_decomp less_irrefl)
  have "mv_holds (xs @ [v]) ?m3"
    using m2(2) other unfolding mv_holds_def by (auto simp: nth_append less_Suc_eq)
  then show ?thesis unfolding push by auto
qed

lemma pushes_hold:
  assumes "mv_holds xs m" "length xs + length ys < 2 ^ 64" "slots_fit P vs (length xs)"
  shows "case mv_pushes loader P vs ys m of
      Inl e \<Rightarrow> e = Beyond_page \<and> \<not> slots_fit P vs (length xs + length ys)
    | Inr m' \<Rightarrow> slots_fit P vs (length xs + length ys) \<and> mv_holds (xs @ ys) m'"
  using assms
proof (induction ys arbitrary: xs m)
  case (Cons y ys)
  let ?fit = "(length xs mod items_per_page + 1) * vs \<le> P"
  have l: "Suc (length xs) < 2 ^ 64" using Cons.prems(2) by simp
  note push = push_holds [OF Cons.prems(1) l, of P vs y]
  show ?case
  proof (cases ?fit)
    case True
    have "slots_fit P vs (length (xs @ [y]))" using True slots_fit_Suc [OF Cons.prems(3)] by simp
    obtain m' where m': "mv_push_back loader P vs y m = Inr m'" "mv_holds (xs @ [y]) m'"
      using push True by metis
    show ?thesis
      using Cons.IH [OF m'(2)] Cons.prems(2) m'(1) \<open>slots_fit P vs (length (xs @ [y]))\<close>
      by (simp split: sum.splits)
  next
    case False
    then have "\<not> slots_fit P vs (Suc (length xs))" using slots_fit_Suc [OF Cons.prems(3)] by simp
    then have "\<not> slots_fit P vs (length xs + length (y # ys))"
      using slots_fit_mono [of P vs "length xs + length (y # ys)" "Suc (length xs)"] by auto
    moreover have "mv_push_back loader P vs y m = Inl Beyond_page" using push False by argo
    ultimately show ?thesis by simp
  qed
qed simp

lemma loop_items:
  assumes "mv_holds xs m" "length xs + 1 < 2 ^ 64" "slots_fit P vs (length xs)"
    "i \<le> length xs" "length xs - i < turns"
  shows "mv_loop turns loader P vs (of_nat i) m out = Inr (out @ drop i xs)"
  using assms(1,4,5)
proof (induction turns arbitrary: i m out)
  case (Suc turns)
  obtain m1 where m1: "mv_page loader 0 m = Inr (0, m1)" "mv_holds xs m1" "counts m1 = counts m"
    using page_view [OF Suc.prems(1)] by blast
  have e: "mv_end loader m = Inr (of_nat (length xs), m1)"
    using m1(1,2) by (simp add: mv_end_def mv_holds_def)
  have inj: "(of_nat i :: 64 word) = of_nat (length xs) \<longleftrightarrow> i = length xs"
    using Suc.prems(2) assms(2) unat_length by (metis add.commute le_less_trans less_imp_le_nat plus_1_eq_Suc less_Suc_eq)
  show ?case
  proof (cases "i = length xs")
    case True
    then show ?thesis using e by simp
  next
    case False
    then have i: "i < length xs" using Suc.prems(2) by simp
    then have u: "unat (of_nat i :: 64 word) = i" using assms(2) by (intro unat_length) linarith
    have npos: "mv_npos \<noteq> of_nat i"
    proof
      assume "mv_npos = of_nat i"
      then have "unat (- 1 :: 64 word) = i" using u by (simp add: mv_npos_def)
      then show False using i assms(2) by (simp add: unsigned_minus_1_eq_mask mask_eq_exp_minus_1)
    qed
    obtain m2 where m2: "mv_page loader (1 + i div items_per_page) m1 = Inr (1 + i div items_per_page, m2)"
        "mv_holds xs m2"
      using page_view [OF m1(2)] by blast
    have "slots_fit P vs i" "slots_fit P vs (Suc i)"
      using slots_fit_mono [OF assms(3)] i by simp_all
    then have "(i mod items_per_page + 1) * vs \<le> P" using slots_fit_Suc by blast
    then have g: "mv_get loader P vs (of_nat i) m1 = Inr (xs ! i, m2)"
      using m2 i npos by (simp add: mv_get_def u mv_holds_def)
    have "mv_loop turns loader P vs (of_nat (Suc i)) m2 (out @ [xs ! i]) = Inr ((out @ [xs ! i]) @ drop (Suc i) xs)"
      using i Suc.prems(3) by (intro Suc.IH m2(2)) auto
    then show ?thesis using e inj False g i
      by (simp add: mv_increment_def add.commute Cons_nth_drop_Suc)
  qed
qed simp

end

subsection \<open>Properties\<close>

lemma new_holds: "mv_holds [] (mv_new zero)"
  by (simp add: mv_holds_def mv_new_def new_cache_views)

text \<open>C34: The vector is a list as long as its items fit, when the pages can be loaded, each as the view
  of its number, and there are fewer than \<open>2 ^ 64 - 1\<close> items. \<open>items_per_page\<close> is 5 for every item and
  page: with items of more than a fifth of a page, some push writes behind its page; otherwise, after
  any pushes on a new file, \<open>size\<close> is their number and the loop from \<open>begin()\<close> to \<open>end()\<close> yields
  them in order, in any number of turns that is greater than theirs. On an empty vector the first turn
  of the loop dereferences \<open>npos\<close>, because \<open>begin()\<close> is not \<open>end()\<close>; the assertion of a debug build
  stops it.\<close>

theorem mapped_vector_is_a_list:
  assumes "\<And>i bytes. fst (loader i bytes) = Some i" "length xs + 1 < 2 ^ 64"
  shows "case mv_pushes loader P vs xs (mv_new zero) of
      Inl e \<Rightarrow> e = Beyond_page \<and> P < min (length xs) 5 * vs
    | Inr m \<Rightarrow> min (length xs) 5 * vs \<le> P \<and>
        map_sum id fst (mv_size loader m) = Inr (of_nat (length xs)) \<and>
        (\<forall>turns > length xs.
           mv_items turns loader P vs m = (if xs = [] then Inl Npos_dereferenced else Inr xs))"
proof -
  have pl: "page_loading loader" by (rule page_loading.intro) (rule assms(1))
  show ?thesis
  proof (cases "mv_pushes loader P vs xs (mv_new zero)")
    case (Inl e)
    then show ?thesis
      using page_loading.pushes_hold [OF pl new_holds [of zero], of xs P vs] assms(2)
      by (simp add: slots_fit_def items_per_page_def not_le)
  next
    case (Inr m)
    then have m: "mv_holds xs m" and fit: "slots_fit P vs (length xs)"
      using page_loading.pushes_hold [OF pl new_holds [of zero], of xs P vs] assms(2)
      by (simp_all add: slots_fit_def)
    obtain m1 where m1: "mv_page loader 0 m = Inr (0, m1)" "mv_holds xs m1" "counts m1 = counts m"
      using page_loading.page_view [OF pl m] by blast
    have size: "map_sum id fst (mv_size loader m) = Inr (of_nat (length xs))"
      using m m1 by (simp add: mv_size_def mv_holds_def)
    have "mv_items turns loader P vs m = (if xs = [] then Inl Npos_dereferenced else Inr xs)"
      if "length xs < turns" for turns
    proof (cases "xs = []")
      case True
      obtain m2 where "mv_page loader 0 m1 = Inr (0, m2)" "counts m2 = counts m1"
        using page_loading.page_view [OF pl m1(2)] by blast
      then show ?thesis using m1 True m that
        by (cases turns) (simp_all add: mv_items_def mv_begin_def mv_end_def mv_get_def mv_npos_def mv_holds_def)
    next
      case False
      have "counts m 0 \<noteq> 0"
        using m False assms(2) unat_length [of "length xs"] by (auto simp: mv_holds_def)
      then show ?thesis
        using page_loading.loop_items [OF pl m1(2) assms(2) fit, of 0 turns "[]"] m1 False that
        by (simp add: mv_items_def mv_begin_def)
    qed
    then show ?thesis using Inr size fit by (simp add: slots_fit_def items_per_page_def)
  qed
qed

definition some_numbers :: "nat list" where
  "some_numbers = [3, 1, 4, 1, 5, 9]"

theorem mapped_vector_is_a_list_witness:
  "(case mv_pushes (unix_loader 4096 (\<lambda>offset. 4096 dvd offset)) 4096 8 some_numbers (mv_new 0) of
      Inl e \<Rightarrow> False
    | Inr m \<Rightarrow> mv_items 7 (unix_loader 4096 (\<lambda>offset. 4096 dvd offset)) 4096 8 m = Inr some_numbers) \<and>
   mv_items 1 (unix_loader 4096 (\<lambda>offset. 4096 dvd offset)) 4096 8 (mv_new (0 :: nat)) = Inl Npos_dereferenced"
proof -
  define l where "l = unix_loader 4096 (\<lambda>offset. 4096 dvd offset)"
  have l: "fst (l i bytes) = Some i" for i bytes using unix_pages.loads [of 4095] by (simp add: l_def)
  have len: "length some_numbers = 6" "some_numbers \<noteq> []" by (simp_all add: some_numbers_def)
  have w: "case mv_pushes l 4096 8 xs (mv_new 0) of
      Inl e \<Rightarrow> e = Beyond_page \<and> 4096 < min (length xs) 5 * 8
    | Inr m \<Rightarrow> (\<forall>turns > length xs. mv_items turns l 4096 8 m = (if xs = [] then Inl Npos_dereferenced else Inr xs))"
    if "length xs + 1 < 2 ^ 64" for xs :: "nat list"
    using mapped_vector_is_a_list [where loader = l and xs = xs and P = 4096 and vs = 8 and zero = 0, OF l that]
    by (auto split: sum.splits)
  show ?thesis
    using w [of some_numbers] w [of "[]"] unfolding l_def [symmetric] by (simp add: len split: sum.splits)
qed

text \<open>The postfix increment never returns.\<close>

lemma mv_postfix_never: "mv_postfix index = None"
proof -
  have "mv_postfix index = Some r \<Longrightarrow> False" for r
    by (induction rule: mv_postfix.raw_induct [rotated, consumes 1]) (auto simp: bind_eq_Some_conv)
  then show ?thesis by (cases "mv_postfix index") auto
qed

end
