(* ===== verification/Callback.thy ===== *)
theory Callback
  imports Main
begin

text \<open>
  The callbacks of \<open>callback.hpp\<close>. A receiver, whether a method, a lambda or a member of an object, is a
  function of the arguments and of the state of the program, which it changes, and returns or throws. The
  arguments are copied for each receiver; \<open>copyable\<close> is the compile-time test that they can be.
\<close>

type_synonym ('s, 'a, 'r, 'e) receiver = "'s \<Rightarrow> 'a \<Rightarrow> 's \<times> ('e + 'r)"

datatype callback_error = No_receivers | Move_only_arguments

datatype result_policy = return_first | return_last

text \<open>Errors of the callback itself are among those of its receivers.\<close>

type_synonym ('s, 'a, 'r, 'e) callback = "('s, 'a, 'r, callback_error + 'e) receiver list"

definition callback_new :: "('s, 'a, 'r, 'e) callback" where
  "callback_new = []"

text \<open>The three \<open>connect\<close> and \<open>operator+=\<close>.\<close>

definition callback_connect ::
  "('s, 'a, 'r, callback_error + 'e) receiver \<Rightarrow> ('s, 'a, 'r, 'e) callback \<Rightarrow> ('s, 'a, 'r, 'e) callback" where
  "callback_connect oMethod invokers = invokers @ [oMethod]"

text \<open>The new callback and what is left of the source.\<close>

definition callback_move :: "('s, 'a, 'r, 'e) callback \<Rightarrow> ('s, 'a, 'r, 'e) callback \<times> ('s, 'a, 'r, 'e) callback" where
  "callback_move src = (src, [])"

fun policy_loop ::
  "result_policy \<Rightarrow> nat \<Rightarrow> 'a \<Rightarrow> nat \<Rightarrow> 'r \<Rightarrow> ('s, 'a, 'r, 'e) receiver list \<Rightarrow> 's \<Rightarrow> 's \<times> ('e + 'r)" where
  "policy_loop result n oArgs i oRet [] st = (st, Inr oRet)"
| "policy_loop result n oArgs i oRet (oInvoker # rest) st =
     (case oInvoker st oArgs of
        (st, Inl e) \<Rightarrow> (st, Inl e)
      | (st, Inr r) \<Rightarrow>
          policy_loop result n oArgs (i + 1)
            (if (return_first = result \<and> 0 = i) \<or> (return_last = result \<and> n - 1 = i) then r else oRet)
            rest st)"

definition callback_call_policy ::
  "bool \<Rightarrow> 'r \<Rightarrow> ('s, 'a, 'r, 'e) callback \<Rightarrow> result_policy \<Rightarrow> 'a \<Rightarrow> 's \<Rightarrow> 's \<times> ((callback_error + 'e) + 'r)" where
  "callback_call_policy copyable r0 invokers result oArgs st =
     (if invokers = [] then (st, Inl (Inl No_receivers))
      else if copyable then policy_loop result (length invokers) oArgs 0 r0 invokers st
      else if length invokers > 1 then (st, Inl (Inl Move_only_arguments))
      else hd invokers st oArgs)"

fun last_loop ::
  "'a \<Rightarrow> 'r \<Rightarrow> ('s, 'a, 'r, 'e) receiver list \<Rightarrow> 's \<Rightarrow> 's \<times> ('e + 'r)" where
  "last_loop oArgs oRet [] st = (st, Inr oRet)"
| "last_loop oArgs oRet (oInvoker # rest) st =
     (case oInvoker st oArgs of
        (st, Inl e) \<Rightarrow> (st, Inl e)
      | (st, Inr r) \<Rightarrow> last_loop oArgs r rest st)"

definition callback_call ::
  "bool \<Rightarrow> 'r \<Rightarrow> ('s, 'a, 'r, 'e) callback \<Rightarrow> 'a \<Rightarrow> 's \<Rightarrow> 's \<times> ((callback_error + 'e) + 'r)" where
  "callback_call copyable r0 invokers oArgs st =
     (if invokers = [] then (st, Inl (Inl No_receivers))
      else if copyable then last_loop oArgs r0 invokers st
      else if length invokers > 1 then (st, Inl (Inl Move_only_arguments))
      else hd invokers st oArgs)"

text \<open>The specialisation for \<open>void\<close> is silent when nothing is attached.\<close>

fun void_loop :: "'a \<Rightarrow> ('s, 'a, unit, 'e) receiver list \<Rightarrow> 's \<Rightarrow> 's \<times> ('e + unit)" where
  "void_loop oArgs [] st = (st, Inr ())"
| "void_loop oArgs (oInvoker # rest) st =
     (case oInvoker st oArgs of
        (st, Inl e) \<Rightarrow> (st, Inl e)
      | (st, Inr r) \<Rightarrow> void_loop oArgs rest st)"

definition void_callback_call ::
  "bool \<Rightarrow> ('s, 'a, unit, 'e) callback \<Rightarrow> 'a \<Rightarrow> 's \<Rightarrow> 's \<times> ((callback_error + 'e) + unit)" where
  "void_callback_call copyable invokers oArgs st =
     (if copyable then void_loop oArgs invokers st
      else if length invokers > 1 then (st, Inl (Inl Move_only_arguments))
      else if invokers \<noteq> [] then hd invokers st oArgs
      else (st, Inr ()))"

subsection \<open>One after the other\<close>

text \<open>The specification: the receivers in the order of their connection up to the first that throws, and
  their results.\<close>

fun notify :: "'a \<Rightarrow> ('s, 'a, 'r, 'e) receiver list \<Rightarrow> 's \<Rightarrow> 's \<times> ('e + 'r list)" where
  "notify a [] st = (st, Inr [])"
| "notify a (f # fs) st =
     (case f st a of
        (st, Inl e) \<Rightarrow> (st, Inl e)
      | (st, Inr r) \<Rightarrow>
          (case notify a fs st of
             (st, Inl e) \<Rightarrow> (st, Inl e)
           | (st, Inr rs) \<Rightarrow> (st, Inr (r # rs))))"

definition pick :: "('q \<Rightarrow> 'r) \<Rightarrow> 's \<times> ('e + 'q) \<Rightarrow> 's \<times> ('e + 'r)" where
  "pick f x = (case x of (st, Inl e) \<Rightarrow> (st, Inl e) | (st, Inr rs) \<Rightarrow> (st, Inr (f rs)))"

lemma pick_simps [simp]:
  "pick f (st, Inl e) = (st, Inl e)" "pick f (st, Inr q) = (st, Inr (f q))"
  by (simp_all add: pick_def)

lemma last_loop_notify:
  "last_loop a r0 fs st = pick (\<lambda>rs. if rs = [] then r0 else last rs) (notify a fs st)"
  by (induction a r0 fs st rule: last_loop.induct) (auto simp: pick_def split: prod.splits sum.splits)

lemma policy_loop_first:
  "0 < i \<Longrightarrow> policy_loop return_first n a i r0 fs st = pick (\<lambda>rs. r0) (notify a fs st)"
  by (induction fs arbitrary: i st) (auto simp: pick_def split: prod.splits sum.splits)

lemma policy_loop_last:
  "fs \<noteq> [] \<Longrightarrow> n = i + length fs \<Longrightarrow> policy_loop return_last n a i r0 fs st = pick last (notify a fs st)"
proof (induction fs arbitrary: i r0 st)
  case (Cons f fs)
  show ?case
  proof (cases "fs = []")
    case True
    then show ?thesis using Cons.prems by (auto simp: pick_def split: prod.splits sum.splits)
  next
    case False
    have ne: "rs \<noteq> []" if "notify a fs st = (st', Inr rs)" for st st' rs
      using that False by (cases fs) (auto split: prod.splits sum.splits)
    show ?thesis using Cons.IH [OF False] Cons.prems
      by (auto simp: pick_def dest: ne split: prod.splits sum.splits)
  qed
qed simp

lemma notify_not_Nil: "notify a fs st = (st', Inr rs) \<Longrightarrow> fs \<noteq> [] \<Longrightarrow> rs \<noteq> []"
  by (cases fs) (auto split: prod.splits sum.splits)

lemma pick_cong:
  "(\<And>st' rs. x = (st', Inr rs) \<Longrightarrow> f rs = g rs) \<Longrightarrow> pick f x = pick g x"
  by (auto simp: pick_def split: prod.split sum.split)

lemma last_loop_last: "fs \<noteq> [] \<Longrightarrow> last_loop a r0 fs st = pick last (notify a fs st)"
  unfolding last_loop_notify by (rule pick_cong) (auto dest: notify_not_Nil)

lemma policy_loop_hd: "policy_loop return_first n a 0 r0 (f # fs) st = pick hd (notify a (f # fs) st)"
  by (simp add: policy_loop_first pick_def split: prod.split sum.split)

lemma notify_single: "notify a [f] st = pick (\<lambda>r. [r]) (f st a)"
  by (simp add: pick_def split: prod.split sum.split)

lemma pick_pick: "pick f (pick g x) = pick (\<lambda>q. f (g q)) x"
  by (simp add: pick_def split: prod.split sum.split)

lemma pick_id: "pick (\<lambda>q. q) x = x"
  by (cases x; cases "snd x") auto

lemma void_loop_notify: "void_loop a fs st = pick (\<lambda>_. ()) (notify a fs st)"
  by (induction a fs st rule: void_loop.induct) (auto simp: pick_def split: prod.splits sum.splits)

lemma pick_unit: "pick (\<lambda>q :: unit. ()) x = x"
  by (cases x; cases "snd x") auto

lemma void_callback_notifies:
  "void_callback_call copyable gs a st =
     (if \<not> copyable \<and> 1 < length gs then (st, Inl (Inl Move_only_arguments))
      else pick (\<lambda>_. ()) (notify a gs st))"
proof (cases gs rule: list.exhaust)
  case (Cons g hs)
  then show ?thesis
    by (cases hs) (auto simp: void_callback_call_def void_loop_notify notify_single pick_pick pick_unit
        simp del: notify.simps)
qed (simp add: void_callback_call_def void_loop_notify)

text \<open>C36: A callback calls its receivers one after the other in the order in which they were connected, up
  to the first that throws, whose exception it passes on. When none throws, it returns the result of the
  first or the last as the policy says, and of the last without a policy. With arguments that
  cannot be copied there must be exactly one receiver. A callback without a result does the same, but
  is silent when it has no receiver.\<close>

theorem callback_notifies:
  "callback_call_policy copyable r0 fs p a st =
     (if fs = [] then (st, Inl (Inl No_receivers))
      else if \<not> copyable \<and> length fs \<noteq> 1 then (st, Inl (Inl Move_only_arguments))
      else pick (if p = return_first then hd else last) (notify a fs st)) \<and>
   callback_call copyable r0 fs a st = callback_call_policy copyable r0 fs return_last a st \<and>
   void_callback_call copyable gs a st' =
     (if \<not> copyable \<and> 1 < length gs then (st', Inl (Inl Move_only_arguments))
      else pick (\<lambda>_. ()) (notify a gs st'))"
proof -
  have p: "policy_loop p (length fs) a 0 r0 fs st = pick (if p = return_first then hd else last) (notify a fs st)"
    if ne: "fs \<noteq> []" for p
  proof (cases p)
    case return_first
    obtain f gs where "fs = f # gs" using ne by (cases fs) auto
    then show ?thesis using return_first policy_loop_hd by simp
  next
    case return_last
    then show ?thesis using policy_loop_last [OF ne, of "length fs" 0] by simp
  qed
  have "callback_call_policy copyable r0 fs p a st =
     (if fs = [] then (st, Inl (Inl No_receivers))
      else if \<not> copyable \<and> length fs \<noteq> 1 then (st, Inl (Inl Move_only_arguments))
      else pick (if p = return_first then hd else last) (notify a fs st)) \<and>
    callback_call copyable r0 fs a st = callback_call_policy copyable r0 fs return_last a st"
  proof (cases "fs = [] \<or> copyable")
    case True
    then show ?thesis by (auto simp: callback_call_policy_def callback_call_def p last_loop_last)
  next
    case False
    show ?thesis
    proof (cases "length fs = 1")
      case True
      then obtain f where "fs = [f]" by (cases fs) auto
      then show ?thesis using False
        by (simp add: callback_call_policy_def callback_call_def notify_single pick_pick pick_id
            del: notify.simps)
    next
      case more: False
      then have "1 < length fs" using False by (cases fs) auto
      then show ?thesis using False more by (simp add: callback_call_policy_def callback_call_def)
    qed
  qed
  then show ?thesis using void_callback_notifies [of copyable gs a st'] by blast
qed

end
