(* ===== verification/Socket.thy ===== *)
theory Socket
  imports Callback Bytes "HOL-Library.Signed_Division"
begin

text \<open>
  The parts of \<open>socket.hpp\<close> that are not a single system call: who owns a descriptor, the time that \<open>select\<close>
  waits and the events it fires, and the serialisers. What the operating system does is a parameter: the
  descriptors it hands out, the readiness it reports, the pieces in which bytes arrive.
\<close>

subsection \<open>Ownership of descriptors\<close>

text \<open>The sockets of a program by the names of the objects, the descriptors that are open, and whether
  \<open>closesocket\<close> was ever called with a descriptor that was not open (other than the failure value -1).\<close>

record sockets =
  objects :: "nat \<Rightarrow> int option"
  descriptors :: "int set"
  bad_close :: bool

definition no_sockets :: sockets where
  "no_sockets = \<lparr>objects = Map.empty, descriptors = {}, bad_close = False\<rparr>"

definition closesocket :: "int \<Rightarrow> sockets \<Rightarrow> sockets" where
  "closesocket fd S =
     S\<lparr>descriptors := descriptors S - {fd},
       bad_close := bad_close S \<or> (fd \<noteq> - 1 \<and> fd \<notin> descriptors S)\<rparr>"

definition socket_close :: "nat \<Rightarrow> sockets \<Rightarrow> sockets" where
  "socket_close i S =
     (case objects S i of
        None \<Rightarrow> S
      | Some s \<Rightarrow>
          (if s = 0 then S
           else let S = closesocket s S in S\<lparr>objects := (objects S)(i \<mapsto> - 1)\<rparr>))"

definition is_valid :: "int \<Rightarrow> bool" where
  "is_valid s \<longleftrightarrow> - 1 \<noteq> s"

text \<open>The constructors, which get a new descriptor from the operating system, take it from another
  socket or are given any number as a descriptor, the move assignment, \<open>close\<close> and the destructor;
  and a descriptor that the program gets without a socket object. \<open>None\<close> is a use of an object
  outside its life, or a descriptor of the operating system that is not new.\<close>

datatype socket_op =
    Construct nat int
  | Move_construct nat nat
  | Adopt nat int
  | Move_assign nat nat
  | Close nat
  | Destroy nat
  | Os_open int

fun socket_step :: "socket_op \<Rightarrow> sockets \<Rightarrow> sockets option" where
  "socket_step (Construct i fd) S =
     (if objects S i = None \<and> 0 \<le> fd \<and> fd \<notin> descriptors S
      then Some (S\<lparr>objects := (objects S)(i \<mapsto> fd), descriptors := insert fd (descriptors S)\<rparr>)
      else None)"
| "socket_step (Move_construct i src) S =
     (case objects S src of
        Some s \<Rightarrow>
          (if objects S i = None then Some (S\<lparr>objects := (objects S)(i \<mapsto> s, src \<mapsto> 0)\<rparr>) else None)
      | None \<Rightarrow> None)"
| "socket_step (Adopt i newval) S =
     (if objects S i = None then Some (S\<lparr>objects := (objects S)(i \<mapsto> newval)\<rparr>) else None)"
| "socket_step (Move_assign i src) S =
     (case (objects S i, objects S src) of
        (Some s, Some t) \<Rightarrow> Some (S\<lparr>objects := (objects S)(i \<mapsto> t, src \<mapsto> s)\<rparr>)
      | _ \<Rightarrow> None)"
| "socket_step (Close i) S = (if objects S i = None then None else Some (socket_close i S))"
| "socket_step (Destroy i) S =
     (if objects S i = None then None
      else let S = socket_close i S in Some (S\<lparr>objects := (objects S)(i := None)\<rparr>))"
| "socket_step (Os_open fd) S =
     (if 0 \<le> fd \<and> fd \<notin> descriptors S then Some (S\<lparr>descriptors := insert fd (descriptors S)\<rparr>) else None)"

fun socket_run :: "socket_op list \<Rightarrow> sockets \<Rightarrow> sockets option" where
  "socket_run [] S = Some S"
| "socket_run (u # us) S = Option.bind (socket_step u S) (socket_run us)"

definition owned :: "sockets \<Rightarrow> int set" where
  "owned S = {fd. 0 < fd \<and> (\<exists>i. objects S i = Some fd)}"

text \<open>The descriptors that a program has opened itself and not yet given to a socket, and the programs
  that give a socket only one of these, or the values 0 and -1 that stand for no descriptor.\<close>

fun loose :: "socket_op list \<Rightarrow> int set \<Rightarrow> int set" where
  "loose [] L = L"
| "loose (Os_open fd # us) L = loose us (insert fd L)"
| "loose (Adopt i fd # us) L = loose us (L - {fd})"
| "loose (u # us) L = loose us L"

fun adopts_loose :: "socket_op list \<Rightarrow> int set \<Rightarrow> bool" where
  "adopts_loose [] L \<longleftrightarrow> True"
| "adopts_loose (Os_open fd # us) L \<longleftrightarrow> adopts_loose us (insert fd L)"
| "adopts_loose (Adopt i fd # us) L \<longleftrightarrow> (fd \<in> L \<or> fd = 0 \<or> fd = - 1) \<and> adopts_loose us (L - {fd})"
| "adopts_loose (u # us) L \<longleftrightarrow> adopts_loose us L"

definition sockets_ok :: "int set \<Rightarrow> sockets \<Rightarrow> bool" where
  "sockets_ok L S \<longleftrightarrow>
     \<not> bad_close S \<and>
     (\<forall>fd > 0. fd \<in> descriptors S \<longleftrightarrow> (\<exists>i. objects S i = Some fd) \<or> fd \<in> L) \<and>
     (\<forall>fd \<in> descriptors S \<union> L. 0 \<le> fd) \<and>
     (\<forall>i j fd. 0 < fd \<and> objects S i = Some fd \<and> objects S j = Some fd \<longrightarrow> i = j) \<and>
     (\<forall>i fd. objects S i = Some fd \<longrightarrow> - 1 \<le> fd \<and> (0 < fd \<longrightarrow> fd \<notin> L))"

lemma sockets_okD:
  assumes "sockets_ok L S"
  shows "\<not> bad_close S" "0 < fd \<Longrightarrow> fd \<in> descriptors S \<longleftrightarrow> (\<exists>i. objects S i = Some fd) \<or> fd \<in> L"
    "fd \<in> descriptors S \<union> L \<Longrightarrow> 0 \<le> fd"
    "0 < fd \<Longrightarrow> objects S i = Some fd \<Longrightarrow> objects S j = Some fd \<Longrightarrow> i = j"
    "objects S i = Some fd \<Longrightarrow> - 1 \<le> fd"
    "objects S i = Some fd \<Longrightarrow> 0 < fd \<Longrightarrow> fd \<notin> L"
  using assms unfolding sockets_ok_def by blast+

lemma sockets_okI:
  assumes "\<not> bad_close S"
    "\<And>fd. 0 < fd \<Longrightarrow> fd \<in> descriptors S \<longleftrightarrow> (\<exists>i. objects S i = Some fd) \<or> fd \<in> L"
    "\<And>fd. fd \<in> descriptors S \<union> L \<Longrightarrow> 0 \<le> fd"
    "\<And>i j fd. 0 < fd \<Longrightarrow> objects S i = Some fd \<Longrightarrow> objects S j = Some fd \<Longrightarrow> i = j"
    "\<And>i fd. objects S i = Some fd \<Longrightarrow> - 1 \<le> fd \<and> (0 < fd \<longrightarrow> fd \<notin> L)"
  shows "sockets_ok L S"
  using assms unfolding sockets_ok_def by blast

lemma closed_ok:
  assumes ok: "sockets_ok L S" and s: "objects S i = Some s" "s \<noteq> 0" and k: "k = None \<or> k = Some (- 1)"
  shows "sockets_ok L ((closesocket s S)\<lparr>objects := (objects S)(i := k)\<rparr>)"
proof (rule sockets_okI)
  let ?S = "(closesocket s S)\<lparr>objects := (objects S)(i := k)\<rparr>"
  show "\<not> bad_close ?S"
  proof (cases "s = - 1")
    case True
    then show ?thesis using sockets_okD(1) [OF ok] by (simp add: closesocket_def)
  next
    case False
    then have "0 < s" using sockets_okD(5) [OF ok s(1)] s(2) by linarith
    then have "s \<in> descriptors S" using sockets_okD(2) [OF ok, of s] s(1) by blast
    then show ?thesis using sockets_okD(1) [OF ok] by (simp add: closesocket_def)
  qed
  show "fd \<in> descriptors ?S \<longleftrightarrow> (\<exists>j. objects ?S j = Some fd) \<or> fd \<in> L" if "0 < fd" for fd
  proof (cases "fd = s")
    case True
    have "j = i" if "objects S j = Some s" for j
      using sockets_okD(4) [OF ok _ that s(1)] \<open>0 < fd\<close> True by simp
    moreover have "s \<notin> L" using sockets_okD(6) [OF ok s(1)] \<open>0 < fd\<close> True by simp
    ultimately show ?thesis using True \<open>0 < fd\<close> k by (auto simp: closesocket_def)
  next
    case False
    have "objects ?S j = Some fd \<longleftrightarrow> objects S j = Some fd" for j
      using False \<open>0 < fd\<close> k s(1) by auto
    then show ?thesis using sockets_okD(2) [OF ok \<open>0 < fd\<close>] False by (simp add: closesocket_def)
  qed
  show "0 \<le> fd" if "fd \<in> descriptors ?S \<union> L" for fd
    using sockets_okD(3) [OF ok, of fd] that by (auto simp: closesocket_def)
  show "a = b" if "0 < fd" "objects ?S a = Some fd" "objects ?S b = Some fd" for a b fd
    using sockets_okD(4) [OF ok that(1)] that k by (auto split: if_splits)
  show "- 1 \<le> fd \<and> (0 < fd \<longrightarrow> fd \<notin> L)" if "objects ?S a = Some fd" for a fd
    using sockets_okD(5,6) [OF ok] that k by (auto split: if_splits)
qed


lemma socket_close_ok: "sockets_ok L S \<Longrightarrow> sockets_ok L (socket_close i S)"
  using closed_ok [of L S i _ "Some (- 1)"] by (auto simp: socket_close_def Let_def closesocket_def split: option.split)

text \<open>A change of the owners alone: every positive descriptor has the owners it had, renamed.\<close>

lemma renamed_ok:
  assumes ok: "sockets_ok L S" and r: "\<And>j. objs j = objects S (f j) \<or> objs j = Some 0"
    and inj: "\<And>a b fd. 0 < fd \<Longrightarrow> objs a = Some fd \<Longrightarrow> objs b = Some fd \<Longrightarrow> f a = f b \<Longrightarrow> a = b"
    and onto: "\<And>i fd. objects S i = Some fd \<Longrightarrow> 0 < fd \<Longrightarrow> \<exists>j. objs j = Some fd"
  shows "sockets_ok L (S\<lparr>objects := objs\<rparr>)"
proof (rule sockets_okI)
  have from_S: "objs a = objects S (f a)" if "0 < fd" "objs a = Some fd" for a fd
    using r [of a] that by auto
  show "fd \<in> descriptors (S\<lparr>objects := objs\<rparr>) \<longleftrightarrow>
      (\<exists>i. objects (S\<lparr>objects := objs\<rparr>) i = Some fd) \<or> fd \<in> L"
    if "0 < fd" for fd
    using sockets_okD(2) [OF ok that] onto [OF _ that] from_S [OF that] by (simp, metis)
  show "a = b" if "0 < fd" "objects (S\<lparr>objects := objs\<rparr>) a = Some fd" "objects (S\<lparr>objects := objs\<rparr>) b = Some fd"
    for a b fd
    using that from_S [OF that(1)] sockets_okD(4) [OF ok that(1)] inj [OF that(1)] by simp
  show "- 1 \<le> fd \<and> (0 < fd \<longrightarrow> fd \<notin> L)" if "objects (S\<lparr>objects := objs\<rparr>) a = Some fd" for a fd
    using r [of a] that sockets_okD(5,6) [OF ok, of "f a" fd] by auto
qed (use sockets_okD(1,3) [OF ok] in simp_all)

lemma opened_ok:
  assumes ok: "sockets_ok L S" and fd: "0 \<le> fd" "fd \<notin> descriptors S"
  shows "sockets_ok (insert fd L) (S\<lparr>descriptors := insert fd (descriptors S)\<rparr>)"
proof (rule sockets_okI)
  have n: "objects S i \<noteq> Some fd" if "0 < fd" for i
    using sockets_okD(2) [OF ok that] fd(2) by blast
  show "- 1 \<le> x \<and> (0 < x \<longrightarrow> x \<notin> insert fd L)"
    if "objects (S\<lparr>descriptors := insert fd (descriptors S)\<rparr>) i = Some x" for i x
    using that sockets_okD(5,6) [OF ok, of i x] n [of i] by auto
qed (use sockets_okD(1-4) [OF ok] fd in auto)

lemma adopted_ok:
  assumes ok: "sockets_ok L S" and i: "objects S i = None" and fd: "fd \<in> L \<or> fd = 0 \<or> fd = - 1"
  shows "sockets_ok (L - {fd}) (S\<lparr>objects := (objects S)(i \<mapsto> fd)\<rparr>)"
proof (rule sockets_okI)
  let ?S = "S\<lparr>objects := (objects S)(i \<mapsto> fd)\<rparr>"
  have o: "objects ?S j = Some x \<longleftrightarrow> objects S j = Some x \<or> (j = i \<and> x = fd)" for j x
    using i by auto
  have f: "- 1 \<le> fd" using fd sockets_okD(3) [OF ok, of fd] by auto
  have n: "objects S j \<noteq> Some fd" if "0 < fd" for j
    using sockets_okD(6) [OF ok, of j fd] fd that by auto
  show "x \<in> descriptors ?S \<longleftrightarrow> (\<exists>j. objects ?S j = Some x) \<or> x \<in> L - {fd}" if "0 < x" for x
    using sockets_okD(2) [OF ok that] fd that unfolding o by auto
  show "a = b" if "0 < x" "objects ?S a = Some x" "objects ?S b = Some x" for a b x
    using that(2,3) sockets_okD(4) [OF ok that(1)] n that(1) unfolding o by auto
  show "- 1 \<le> x \<and> (0 < x \<longrightarrow> x \<notin> L - {fd})" if "objects ?S a = Some x" for a x
    using that sockets_okD(5,6) [OF ok, of a x] f unfolding o by auto
qed (use sockets_okD(1,3) [OF ok] in auto)

lemma zero_loose: "sockets_ok L S \<Longrightarrow> sockets_ok (insert 0 L) S"
  by (auto simp: sockets_ok_def)

lemma socket_step_ok:
  assumes "socket_step u S = Some S'" "sockets_ok L S" "adopts_loose [u] L"
  shows "sockets_ok (loose [u] L) S'"
proof (cases u)
  case (Construct i fd)
  let ?T = "S\<lparr>descriptors := insert fd (descriptors S)\<rparr>"
  have fd: "objects S i = None" "0 \<le> fd" "fd \<notin> descriptors S"
    and S': "S' = ?T\<lparr>objects := (objects ?T)(i \<mapsto> fd)\<rparr>"
    using assms(1) Construct by (auto split: if_splits)
  have "sockets_ok (insert fd L - {fd}) S'"
    unfolding S' by (rule adopted_ok [OF opened_ok [OF assms(2) fd(2,3)]]) (use fd in simp_all)
  moreover have "0 < fd \<Longrightarrow> fd \<notin> L" using sockets_okD(2) [OF assms(2), of fd] fd(3) by blast
  then have "L = insert fd L - {fd} \<or> L = insert 0 (insert fd L - {fd})" using fd(2) by fastforce
  ultimately have "sockets_ok L S'" using zero_loose by metis
  then show ?thesis using Construct by simp
next
  case (Adopt i fd)
  then show ?thesis using assms adopted_ok [OF assms(2)] by (auto split: if_splits)
next
  case (Os_open fd)
  then show ?thesis using assms opened_ok [OF assms(2)] by (auto split: if_splits)
next
  case (Move_construct i src)
  then obtain s where s: "objects S src = Some s" "objects S i = None"
    and S': "S' = S\<lparr>objects := (objects S)(i \<mapsto> s, src \<mapsto> 0)\<rparr>"
    using assms(1) by (auto split: option.splits if_splits)
  have "sockets_ok L S'" unfolding S'
  proof (rule renamed_ok [OF assms(2), where f = "\<lambda>j. if j = i then src else j"])
    show "\<exists>j. ((objects S)(i \<mapsto> s, src \<mapsto> 0)) j = Some fd" if "objects S k = Some fd" "0 < fd" for k fd
      using that s by (cases "k = src") (auto intro: exI [of _ i] exI [of _ k])
  qed (use s in \<open>auto split: if_splits\<close>)
  then show ?thesis using Move_construct by simp
next
  case (Move_assign i src)
  then obtain s t where s: "objects S i = Some s" "objects S src = Some t"
    and S': "S' = S\<lparr>objects := (objects S)(i \<mapsto> t, src \<mapsto> s)\<rparr>"
    using assms(1) by (auto split: option.splits if_splits)
  have "sockets_ok L S'" unfolding S'
  proof (rule renamed_ok [OF assms(2), where f = "\<lambda>j. if j = src then i else if j = i then src else j"])
    show "\<exists>j. ((objects S)(i \<mapsto> t, src \<mapsto> s)) j = Some fd" if "objects S k = Some fd" "0 < fd" for k fd
      using that s by (cases "k = src"; cases "k = i") (auto intro: exI [of _ i] exI [of _ src] exI [of _ k])
  qed (use s in \<open>auto split: if_splits\<close>)
  then show ?thesis using Move_assign by simp
next
  case (Close i)
  then show ?thesis using assms socket_close_ok by (auto split: if_splits)
next
  case (Destroy i)
  then obtain s where s: "objects S i = Some s" using assms(1) by (auto split: if_splits)
  show ?thesis
  proof (cases "s = 0")
    case True
    have "sockets_ok L (S\<lparr>objects := (objects S)(i := None)\<rparr>)"
    proof (rule sockets_okI)
      show "fd \<in> descriptors (S\<lparr>objects := (objects S)(i := None)\<rparr>) \<longleftrightarrow>
          (\<exists>j. objects (S\<lparr>objects := (objects S)(i := None)\<rparr>) j = Some fd) \<or> fd \<in> L" if "0 < fd" for fd
      proof -
        have "((objects S)(i := None)) j = Some fd \<longleftrightarrow> objects S j = Some fd" for j
          using s True that by auto
        then show ?thesis using sockets_okD(2) [OF assms(2) that] by simp
      qed
      show "a = b" if "0 < fd" "objects (S\<lparr>objects := (objects S)(i := None)\<rparr>) a = Some fd"
          "objects (S\<lparr>objects := (objects S)(i := None)\<rparr>) b = Some fd" for a b fd
        using that sockets_okD(4) [OF assms(2) that(1)] by (auto split: if_splits)
      show "- 1 \<le> fd \<and> (0 < fd \<longrightarrow> fd \<notin> L)"
        if "objects (S\<lparr>objects := (objects S)(i := None)\<rparr>) a = Some fd" for a fd
        using that sockets_okD(5,6) [OF assms(2)] by (auto split: if_splits)
    qed (use sockets_okD(1,3) [OF assms(2)] in simp_all)
    then show ?thesis using assms(1) Destroy s True by (simp add: socket_close_def)
  next
    case False
    then show ?thesis using closed_ok [OF assms(2) s False, of None] assms(1) Destroy s
      by (simp add: socket_close_def Let_def closesocket_def)
  qed
qed

lemma loose_Cons: "loose (u # us) L = loose us (loose [u] L)"
  and adopts_loose_Cons: "adopts_loose (u # us) L \<longleftrightarrow> adopts_loose [u] L \<and> adopts_loose us (loose [u] L)"
  by (cases u; simp)+

lemma socket_run_ok:
  "socket_run us S = Some S' \<Longrightarrow> adopts_loose us L \<Longrightarrow> sockets_ok L S \<Longrightarrow> sockets_ok (loose us L) S'"
proof (induction us arbitrary: S L)
  case (Cons u us)
  then obtain T where T: "socket_step u S = Some T" "socket_run us T = Some S'"
    by (auto simp: bind_eq_Some_conv)
  have a: "adopts_loose [u] L" "adopts_loose us (loose [u] L)"
    using Cons.prems(2) by (simp_all add: adopts_loose_Cons [of u us])
  have "sockets_ok (loose us (loose [u] L)) S'"
    by (rule Cons.IH [OF T(2) a(2) socket_step_ok [OF T(1) Cons.prems(3) a(1)]])
  then show ?case by (simp only: loose_Cons [of u us])
qed simp

lemma socket_step_zero: "socket_step u S = Some S' \<Longrightarrow> 0 \<in> descriptors S \<Longrightarrow> 0 \<in> descriptors S'"
  by (cases u) (auto simp: socket_close_def closesocket_def Let_def split: option.splits if_splits)

lemma socket_run_zero: "socket_run us S = Some S' \<Longrightarrow> 0 \<in> descriptors S \<Longrightarrow> 0 \<in> descriptors S'"
  by (induction us arbitrary: S) (auto simp: bind_eq_Some_conv dest: socket_step_zero)

text \<open>C30: Ownership of descriptors. A program constructs sockets with descriptors of the operating
  system or with descriptors it has opened itself, each given to one socket only (\<open>adopts_loose\<close>);
  it moves, assigns, closes and destroys them in any order. Then no descriptor is closed that is not
  open; a positive descriptor is open exactly when it belongs to a socket or has been opened by the
  program and not been given to a socket, never both, and it belongs to one socket at most; so none of
  the sockets' is left when no socket is left. The descriptor 0 is taken for a moved-from socket: no
  operation, in any program, ever closes it. (A descriptor given to two sockets is closed twice:
  \<open>socket_adopted_twice\<close>.)\<close>

theorem sockets_close_what_they_own:
  assumes "socket_run us no_sockets = Some S" and "adopts_loose us {}"
  shows "\<not> bad_close S \<and>
    {fd \<in> descriptors S. 0 < fd} = owned S \<union> {fd \<in> loose us {}. 0 < fd} \<and>
    owned S \<inter> loose us {} = {} \<and>
    (\<forall>fd > 0. \<forall>i j. objects S i = Some fd \<and> objects S j = Some fd \<longrightarrow> i = j) \<and>
    (\<forall>T T' vs. 0 \<in> descriptors T \<and> socket_run vs T = Some T' \<longrightarrow> 0 \<in> descriptors T')"
proof -
  have "sockets_ok {} no_sockets" by (simp add: sockets_ok_def no_sockets_def)
  note ok = socket_run_ok [OF assms this]
  show ?thesis
  proof (intro conjI)
    show "{fd \<in> descriptors S. 0 < fd} = owned S \<union> {fd \<in> loose us {}. 0 < fd}"
      using sockets_okD(2) [OF ok] by (auto simp: owned_def)
    show "owned S \<inter> loose us {} = {}" using sockets_okD(6) [OF ok] by (auto simp: owned_def)
  qed (use sockets_okD(1,4) [OF ok] socket_run_zero in blast)+
qed

definition adopting_program :: "socket_op list" where
  "adopting_program =
     [Construct 0 3, Move_construct 1 0, Os_open 4, Os_open 5, Adopt 2 4, Move_assign 2 1, Close 1, Destroy 1]"

theorem sockets_close_what_they_own_witness:
  "\<exists>S. socket_run adopting_program no_sockets = Some S \<and>
    \<not> bad_close S \<and> {fd \<in> descriptors S. 0 < fd} = owned S \<union> {5}"
proof -
  obtain S where S: "socket_run adopting_program no_sockets = Some S"
    by (simp add: adopting_program_def no_sockets_def socket_close_def closesocket_def)
  have "adopts_loose adopting_program {}" by (simp add: adopting_program_def)
  note w = sockets_close_what_they_own [OF S this]
  have "loose adopting_program {} = {5}" by (auto simp: adopting_program_def)
  then have "{fd \<in> loose adopting_program {}. 0 < fd} = {5}" by auto
  with w S show ?thesis by auto
qed

text \<open>\<open>socket_base(SOCKET)\<close> takes any descriptor: the two sockets that were given the same one both
  close it.\<close>

theorem socket_adopted_twice:
  assumes "0 < fd"
  shows "\<exists>S. socket_run [Os_open fd, Adopt 0 fd, Adopt 1 fd, Destroy 0, Destroy 1] no_sockets = Some S \<and>
    bad_close S"
  using assms by (simp add: no_sockets_def socket_close_def closesocket_def)

theorem socket_adopted_twice_witness:
  "\<exists>S. socket_run [Os_open 3, Adopt 0 3, Adopt 1 3, Destroy 0, Destroy 1] no_sockets = Some S \<and> bad_close S"
  by (rule socket_adopted_twice) simp

subsection \<open>Waiting and events\<close>

text \<open>The \<open>timeval\<close> that \<open>select\<close> makes of its argument: seconds and microseconds.\<close>

definition select_timeout :: "int \<Rightarrow> int \<times> int" where
  "select_timeout WaitMS =
     (let tv_sec = WaitMS sdiv 1000;
          WaitMS = WaitMS smod 1000;
          tv_usec = WaitMS sdiv 1000
      in (tv_sec, tv_usec))"

text \<open>Callbacks without arguments, each called when its flag is set, one after the other.\<close>

fun fire :: "(bool \<times> ('s, unit, unit, 'e) callback) list \<Rightarrow> 's \<Rightarrow> 's \<times> ((callback_error + 'e) + unit)" where
  "fire [] st = (st, Inr ())"
| "fire ((ready, event) # rest) st =
     (if ready
      then (case void_callback_call True event () st of
              (st, Inl e) \<Rightarrow> (st, Inl e)
            | (st, Inr _) \<Rightarrow> fire rest st)
      else fire rest st)"

record ('s, 'e) select_events =
  onRead :: "('s, unit, unit, 'e) callback"
  onWrite :: "('s, unit, unit, 'e) callback"
  onError :: "('s, unit, unit, 'e) callback"

text \<open>\<open>select\<close> and \<open>poll\<close> after the system call, which returned \<open>iRet\<close> and the readiness of the socket;
  \<open>crt\<close> is the exception that a failed call throws. \<open>select\<close> returns whether anything was ready.\<close>

definition socket_select ::
  "'e \<Rightarrow> ('s, 'e) select_events \<Rightarrow> int \<Rightarrow> bool \<times> bool \<times> bool \<Rightarrow> 's \<Rightarrow> 's \<times> ((callback_error + 'e) + bool)" where
  "socket_select crt ev iRet ready st =
     (case ready of (rd, wr, er) \<Rightarrow>
       if iRet < 0 then (st, Inl (Inr crt))
       else if 0 = iRet then (st, Inr False)
       else (case fire [(er, onError ev), (rd, onRead ev), (wr, onWrite ev)] st of
               (st, Inl e) \<Rightarrow> (st, Inl e)
             | (st, Inr _) \<Rightarrow> (st, Inr True)))"

record ('s, 'e) poll_events =
  read_event :: "('s, unit, unit, 'e) callback"
  write_event :: "('s, unit, unit, 'e) callback"
  disconnect_event :: "('s, unit, unit, 'e) callback"
  error_event :: "('s, unit, unit, 'e) callback"

record revents =
  POLLERR :: bool
  POLLHUP :: bool
  POLLIN :: bool
  POLLOUT :: bool

definition socket_poll ::
  "'e \<Rightarrow> ('s, 'e) poll_events \<Rightarrow> int \<Rightarrow> revents \<Rightarrow> 's \<Rightarrow> 's \<times> ((callback_error + 'e) + unit)" where
  "socket_poll crt ev iRet re st =
     (if iRet < 0 then (st, Inl (Inr crt))
      else if 0 = iRet then (st, Inr ())
      else fire [(POLLERR re, error_event ev), (POLLHUP re, disconnect_event ev),
                 (POLLIN re, read_event ev), (POLLOUT re, write_event ev)] st)"

text \<open>Firing several callbacks is one callback of all the receivers whose flag is set.\<close>

lemma notify_append:
  "notify a (fs @ gs) st =
     (case notify a fs st of
        (st, Inl e) \<Rightarrow> (st, Inl e)
      | (st, Inr rs) \<Rightarrow>
          (case notify a gs st of (st, Inl e) \<Rightarrow> (st, Inl e) | (st, Inr rs') \<Rightarrow> (st, Inr (rs @ rs'))))"
  by (induction a fs st rule: notify.induct) (auto split: prod.splits sum.splits)

lemma fire_notify:
  "fire evs st = pick (\<lambda>_. ()) (notify () (concat (map snd (filter fst evs))) st)"
proof (induction evs st rule: fire.induct)
  case (2 ready event rest st)
  then show ?case
    by (auto simp: void_callback_call_def void_loop_notify notify_append pick_def split: prod.splits sum.splits)
qed (simp add: pick_def)

text \<open>\<open>select\<close>. The microseconds it passes are always 0, so it waits for whole seconds only, and not at
  all for less than one. When something is ready it calls the receivers of \<open>onError\<close>, then \<open>onRead\<close>,
  then \<open>onWrite\<close>, up to the first that throws.\<close>

theorem select_waits_and_fires:
  "snd (select_timeout WaitMS) = 0 \<and> (select_timeout WaitMS = (0, 0)) = (\<bar>WaitMS\<bar> < 1000) \<and>
   socket_select crt ev 1 (rd, wr, er) st =
     pick (\<lambda>_. True)
       (notify () ((if er then onError ev else []) @ (if rd then onRead ev else []) @
          (if wr then onWrite ev else [])) st)"
proof -
  have "snd (select_timeout WaitMS) = 0"
    by (simp add: select_timeout_def signed_divide_int_def signed_modulo_int_def Let_def sgn_if abs_if)
  moreover have "(select_timeout WaitMS = (0, 0)) = (\<bar>WaitMS\<bar> < 1000)"
    by (simp add: select_timeout_def signed_divide_int_def signed_modulo_int_def Let_def sgn_if abs_if zdiv_eq_0_iff)
  moreover have "socket_select crt ev 1 (rd, wr, er) st =
     pick (\<lambda>_. True)
       (notify () ((if er then onError ev else []) @ (if rd then onRead ev else []) @
          (if wr then onWrite ev else [])) st)"
  proof -
    have "socket_select crt ev 1 (rd, wr, er) st =
        pick (\<lambda>_. True) (fire [(er, onError ev), (rd, onRead ev), (wr, onWrite ev)] st)"
      by (simp add: socket_select_def pick_def)
    then show ?thesis
      unfolding fire_notify pick_pick by (cases er; cases rd; cases wr) simp_all
  qed
  ultimately show ?thesis by blast
qed


subsection \<open>Serialisers\<close>

text \<open>Bytes arrive in pieces; \<open>recv\<close> returns bytes of the first piece only, and fails at the end of the
  connection. Asking for no bytes returns none.\<close>

definition recv :: "nat \<Rightarrow> bytes list \<Rightarrow> (bytes \<times> bytes list) option" where
  "recv n segs =
     (if n = 0 then Some ([], segs)
      else (case segs of
              [] \<Rightarrow> None
            | seg # rest \<Rightarrow>
                Some (take n seg, if length seg \<le> n then rest else drop n seg # rest)))"

text \<open>The pieces that the calls of \<open>send\<close> send.\<close>

definition send :: "bytes \<Rightarrow> bytes list" where
  "send bs = (if bs = [] then [] else [bs])"

datatype sock_type = Sock_pod nat | Sock_pods nat | Sock_vector sock_type

text \<open>A value of plain data, a vector of plain data (its size and its bytes), or a vector of other values.\<close>

datatype sock_value = Pod_value bytes | Pods_value "64 word" bytes | Vector_value "sock_value list"

text \<open>The size that \<open>send\<close> and \<open>recv\<close> are given for the items of a vector of plain data went through
  \<open>int\<close>, and then to the 64-bit \<open>size_t\<close> of a Unix system. \<open>None\<close> is a \<open>send\<close> that reads beyond the
  vector. A \<open>send\<close> that is within it takes all its bytes.\<close>

definition int_size :: "nat \<Rightarrow> nat" where
  "int_size n = unat (scast (of_nat n :: 32 word) :: 64 word)"

definition send_int :: "bytes \<Rightarrow> bytes list option" where
  "send_int bs =
     (let n = int_size (length bs) in if n \<le> length bs then Some (send (take n bs)) else None)"

primrec sock_write :: "sock_value \<Rightarrow> bytes list option" where
  "sock_write (Pod_value bs) = Some (send bs)"
| "sock_write (Pods_value count bs) = map_option ((@) (send (size_bytes count))) (send_int bs)"
| "sock_write (Vector_value vs) =
     map_option (\<lambda>ps. send (size_bytes (of_nat (length vs))) @ concat ps) (those (map sock_write vs))"

text \<open>Reading plain data into memory that holds \<open>old\<close>: the result of \<open>recv\<close> is tested for failure only.\<close>

definition read_pod :: "bytes \<Rightarrow> bytes list \<Rightarrow> (bytes \<times> bytes list) option" where
  "read_pod old segs =
     (case recv (length old) segs of
        None \<Rightarrow> None
      | Some (bs, segs) \<Rightarrow> if bs = [] then None else Some (bs @ drop (length bs) old, segs))"

primrec read_times :: "(bytes list \<Rightarrow> ('v \<times> bytes list) option) \<Rightarrow> nat \<Rightarrow> bytes list \<Rightarrow> ('v list \<times> bytes list) option" where
  "read_times rd 0 segs = Some ([], segs)"
| "read_times rd (Suc k) segs =
     Option.bind (rd segs) (\<lambda>(v, segs).
       Option.bind (read_times rd k segs) (\<lambda>(vs, segs). Some (v # vs, segs)))"

text \<open>\<open>resize\<close> of a vector of plain data by its bytes: what it held stays, new items are zero; it throws
  for more bytes than an address difference can count.\<close>

definition resize_bytes :: "nat \<Rightarrow> bytes \<Rightarrow> bytes option" where
  "resize_bytes n old = (if n < 2 ^ 63 then Some (take n old @ replicate (n - length old) 0) else None)"

text \<open>A new object, as \<open>_ty newval\<close> makes it. \<open>junk\<close> is what uninitialised memory holds.\<close>

fun fresh :: "(nat \<Rightarrow> bytes) \<Rightarrow> sock_type \<Rightarrow> sock_value" where
  "fresh junk (Sock_pod n) = Pod_value (junk n)"
| "fresh junk (Sock_pods n) = Pods_value 0 []"
| "fresh junk (Sock_vector t) = Vector_value []"

text \<open>Reading into a target. Plain data overwrites it. A vector of plain data is resized and the bytes
  of one \<open>recv\<close>, whose result nobody looks at, overwrite the first of its bytes. A vector of other
  values is appended to: every item is read into a new object and pushed back. \<open>None\<close> is an
  exception, a \<open>recv\<close> that writes beyond the vector, or a target of another type, which does not
  compile.\<close>

primrec sock_read :: "(nat \<Rightarrow> bytes) \<Rightarrow> sock_type \<Rightarrow> sock_value \<Rightarrow> bytes list \<Rightarrow> (sock_value \<times> bytes list) option" where
  "sock_read junk (Sock_pod n) target segs =
     (case target of
        Pod_value old \<Rightarrow> Option.bind (read_pod old segs) (\<lambda>(bs, segs). Some (Pod_value bs, segs))
      | _ \<Rightarrow> None)"
| "sock_read junk (Sock_pods n) target segs =
     (case target of
        Pods_value _ old \<Rightarrow>
          Option.bind (read_pod (junk 8) segs) (\<lambda>(c, segs).
            let count = bytes_size c in
            Option.bind (resize_bytes (n * unat count) old) (\<lambda>src.
              case recv (int_size (n * unat count)) segs of
                None \<Rightarrow> Some (Pods_value count src, segs)
              | Some (bs, segs) \<Rightarrow>
                  (if length bs \<le> length src then Some (Pods_value count (bs @ drop (length bs) src), segs)
                   else None)))
      | _ \<Rightarrow> None)"
| "sock_read junk (Sock_vector t) target segs =
     (case target of
        Vector_value src \<Rightarrow>
          Option.bind (read_pod (junk 8) segs) (\<lambda>(c, segs).
            Option.bind (read_times (sock_read junk t (fresh junk t)) (unat (bytes_size c)) segs)
              (\<lambda>(vs, segs). Some (Vector_value (src @ vs), segs)))
      | _ \<Rightarrow> None)"

text \<open>The \<open>read\<close> without an argument.\<close>

definition sock_read_new :: "(nat \<Rightarrow> bytes) \<Rightarrow> sock_type \<Rightarrow> bytes list \<Rightarrow> (sock_value \<times> bytes list) option" where
  "sock_read_new junk t segs = sock_read junk t (fresh junk t) segs"

fun sock_has_type :: "sock_type \<Rightarrow> sock_value \<Rightarrow> bool" where
  "sock_has_type (Sock_pod n) (Pod_value bs) \<longleftrightarrow> 0 < n \<and> length bs = n"
| "sock_has_type (Sock_pods n) (Pods_value count bs) \<longleftrightarrow>
     0 < n \<and> length bs = n * unat count \<and> length bs < 2 ^ 31"
| "sock_has_type (Sock_vector t) (Vector_value vs) \<longleftrightarrow>
     length vs < 2 ^ 64 \<and> list_all (sock_has_type t) vs"
| "sock_has_type t v \<longleftrightarrow> False"

lemma int_size_id: "n < 2 ^ 31 \<Longrightarrow> int_size n = n"
proof -
  assume n: "n < 2 ^ 31"
  have "sint (of_nat n :: 32 word) = int n"
    using n by (simp add: signed_of_nat signed_take_bit_int_eq_self)
  then have "(scast (of_nat n :: 32 word) :: 64 word) = of_nat n"
    by (metis of_int_of_nat_eq of_int_sint)
  then show ?thesis using n by (simp add: int_size_def unat_of_nat)
qed

lemma read_pod_whole:
  "0 < length old \<Longrightarrow> length bs = length old \<Longrightarrow> read_pod old (send bs @ segs) = Some (bs, segs)"
  by (auto simp: read_pod_def recv_def send_def)

lemma recv_whole: "recv (length bs) (send bs @ segs) = Some (bs, segs)"
  by (simp add: recv_def send_def)

lemma int_size_negative:
  assumes "2 ^ 31 \<le> n" "n < 2 ^ 32"
  shows "n < int_size n"
proof -
  have "(int n + 2 ^ 31) mod 2 ^ 32 = int n - 2 ^ 31"
    using assms by (intro int_mod_pos_eq [of _ _ 1]) simp_all
  then have s: "sint (of_nat n :: 32 word) = int n - 2 ^ 32"
    by (simp add: signed_of_nat signed_take_bit_eq_take_bit_shift take_bit_eq_mod)
  have "(scast (of_nat n :: 32 word) :: 64 word) = of_int (int n - 2 ^ 32)"
    by (metis of_int_sint s)
  then have "int (int_size n) = (int n - 2 ^ 32) mod 2 ^ 64"
    unfolding int_size_def by (simp only: uint_nat [symmetric] uint_word_of_int) simp
  also have "\<dots> = int n - 2 ^ 32 + 2 ^ 64"
    using assms by (intro int_mod_pos_eq [of _ _ "- 1"]) simp_all
  finally show ?thesis by simp
qed

lemma read_times_all:
  "those (map wr vs) = Some ps \<Longrightarrow>
   (\<And>v p segs. v \<in> set vs \<Longrightarrow> wr v = Some p \<Longrightarrow> rd (p @ segs) = Some (v, segs)) \<Longrightarrow>
     read_times rd (length vs) (concat ps @ segs) = Some (vs, segs)"
proof (induction vs arbitrary: ps)
  case (Cons v vs)
  then obtain p qs where "wr v = Some p" "those (map wr vs) = Some qs" "ps = p # qs"
    by (auto split: option.splits)
  moreover from this have "rd (p @ concat qs @ segs) = Some (v, concat qs @ segs)" by (intro Cons.prems(2)) simp_all
  moreover have "read_times rd (length vs) (concat qs @ segs) = Some (vs, segs)"
    using calculation(2) Cons.prems(2) by (intro Cons.IH) auto
  ultimately show ?case by simp
qed simp

lemma fresh_typed: "(\<And>n. length (junk n) = n) \<Longrightarrow> sock_has_type t v \<Longrightarrow> sock_has_type t (fresh junk t)"
  by (cases t; cases v) auto

text \<open>What a target holds after a value was read into it.\<close>

fun received :: "sock_value \<Rightarrow> sock_value \<Rightarrow> sock_value" where
  "received (Vector_value old) (Vector_value vs) = Vector_value (old @ vs)"
| "received _ v = v"

lemma received_fresh: "sock_has_type t v \<Longrightarrow> received (fresh junk t) v = v"
  by (cases t; cases v) auto

lemma send_int_small: "length bs < 2 ^ 31 \<Longrightarrow> send_int bs = Some (send bs)"
  by (simp add: send_int_def int_size_id)

lemma sock_write_typed: "sock_has_type t v \<Longrightarrow> \<exists>ps. sock_write v = Some ps"
proof (induction t arbitrary: v)
  case (Sock_pod n)
  then show ?case by (cases v) auto
next
  case (Sock_pods n)
  then show ?case by (cases v) (auto simp: send_int_small)
next
  case (Sock_vector t)
  then obtain vs where v: "v = Vector_value vs" "list_all (sock_has_type t) vs" by (cases v) auto
  have "\<exists>qs. those (map sock_write ws) = Some qs" if "list_all (sock_has_type t) ws" for ws
    using that Sock_vector.IH by (induction ws) fastforce+
  with v show ?case by fastforce
qed

lemma sock_read_into:
  assumes junk: "\<And>n. length (junk n) = n"
  shows "sock_has_type t v \<Longrightarrow> sock_has_type t target \<Longrightarrow> sock_write v = Some ps \<Longrightarrow>
    sock_read junk t target (ps @ segs) = Some (received target v, segs)"
proof (induction t arbitrary: v target ps segs)
  case (Sock_pod n)
  then show ?case by (cases v; cases target) (auto simp: read_pod_whole)
next
  case (Sock_pods n)
  then obtain count bs c old where v: "v = Pods_value count bs" "target = Pods_value c old"
    and bs: "length bs = n * unat count" "length bs < 2 ^ 31" by (cases v; cases target) auto
  have ps: "ps = send (size_bytes count) @ send bs"
    using Sock_pods.prems(3) bs by (simp add: v send_int_small)
  have "int_size (n * unat count) = length bs" using bs int_size_id by simp
  moreover have "recv (length bs) (send bs @ segs) = Some (bs, segs)" by (rule recv_whole)
  moreover obtain src where "resize_bytes (n * unat count) old = Some src" "length src = length bs"
    using bs by (auto simp: resize_bytes_def)
  ultimately show ?case using junk bs by (simp add: v ps read_pod_whole Let_def)
next
  case (Sock_vector t)
  then obtain vs old where v: "v = Vector_value vs" "target = Vector_value old"
    and vs: "length vs < 2 ^ 64" "list_all (sock_has_type t) vs" by (cases v; cases target) auto
  from Sock_vector.prems(3) obtain qs where qs: "those (map sock_write vs) = Some qs"
    and ps: "ps = send (size_bytes (of_nat (length vs))) @ concat qs" by (auto simp: v)
  have "unat (of_nat (length vs) :: 64 word) = length vs" using vs(1) by (simp add: unat_of_nat)
  moreover have "read_times (sock_read junk t (fresh junk t)) (length vs) (concat qs @ segs) = Some (vs, segs)"
    using qs
  proof (rule read_times_all)
    fix w p segs assume w: "w \<in> set vs" "sock_write w = Some p"
    then have "sock_has_type t w" using vs(2) by (simp add: list_all_iff)
    from Sock_vector.IH [OF this fresh_typed [OF junk this] w(2)] received_fresh [OF this]
    show "sock_read junk t (fresh junk t) (p @ segs) = Some (w, segs)" by simp
  qed
  ultimately show ?case using junk by (simp add: v ps read_pod_whole)
qed

text \<open>C31: The serialisers, for vectors of plain data of less than \<open>2 ^ 31\<close> bytes. Every value is written
  (each \<open>send\<close> taking all the bytes it is given), and when the pieces arrive as they were sent, reading them leaves the rest of the stream and gives
  back the value: \<open>read\<close> without an argument returns it; \<open>read\<close> into an object replaces plain
  data and vectors of plain data, and appends the items of a vector of other values to those it
  holds. Plain data of which only a part has arrived is taken for complete: its last bytes are those the
  object had before. A vector of plain data of \<open>2 ^ 31\<close> to \<open>2 ^ 32\<close> bytes is not written: its size
  goes through \<open>int\<close>, and \<open>send\<close> is told to read beyond it.\<close>

theorem sock_read_write:
  assumes "\<And>n. length (junk n) = n"
  shows "(sock_has_type t v \<longrightarrow> (\<exists>ps. sock_write v = Some ps \<and>
       sock_read_new junk t (ps @ segs) = Some (v, segs) \<and>
       (\<forall>target. sock_has_type t target \<longrightarrow>
          sock_read junk t target (ps @ segs) = Some (received target v, segs)))) \<and>
    (seg \<noteq> [] \<and> length seg < length old \<longrightarrow>
       sock_read junk (Sock_pod (length old)) (Pod_value old) (seg # segs) =
         Some (Pod_value (seg @ drop (length seg) old), segs)) \<and>
    (2 ^ 31 \<le> length bs \<and> length bs < 2 ^ 32 \<longrightarrow> sock_write (Pods_value count bs) = None)"
proof (intro conjI impI)
  assume t: "sock_has_type t v"
  obtain ps where ps: "sock_write v = Some ps" using sock_write_typed [OF t] by blast
  have "sock_read_new junk t (ps @ segs) = Some (v, segs)"
    using sock_read_into [OF assms t fresh_typed [OF assms t] ps] received_fresh [OF t]
    by (simp add: sock_read_new_def)
  then show "\<exists>ps. sock_write v = Some ps \<and> sock_read_new junk t (ps @ segs) = Some (v, segs) \<and>
      (\<forall>target. sock_has_type t target \<longrightarrow>
         sock_read junk t target (ps @ segs) = Some (received target v, segs))"
    using ps sock_read_into [OF assms t] by blast
next
  assume "seg \<noteq> [] \<and> length seg < length old"
  then show "sock_read junk (Sock_pod (length old)) (Pod_value old) (seg # segs) =
      Some (Pod_value (seg @ drop (length seg) old), segs)"
    by (auto simp: read_pod_def recv_def)
next
  assume "2 ^ 31 \<le> length bs \<and> length bs < 2 ^ 32"
  then have "length bs < int_size (length bs)" using int_size_negative by blast
  then show "sock_write (Pods_value count bs) = None" by (simp add: send_int_def)
qed

definition no_memory :: "nat \<Rightarrow> bytes" where
  "no_memory n = replicate n 0xCD"

definition two_vectors :: sock_value where
  "two_vectors = Vector_value [Pods_value 2 [1, 2, 3, 4], Pods_value 0 []]"

theorem sock_read_write_witness:
  "(\<exists>ps. sock_write two_vectors = Some ps \<and>
     sock_read no_memory (Sock_vector (Sock_pods 2)) (Vector_value [Pods_value 1 [7, 7]]) (ps @ [[9]]) =
       Some (Vector_value [Pods_value 1 [7, 7], Pods_value 2 [1, 2, 3, 4], Pods_value 0 []], [[9]])) \<and>
   sock_read no_memory (Sock_pod 4) (Pod_value [5, 6, 7, 8]) ([1, 2] # [[9]]) =
     Some (Pod_value [1, 2, 7, 8], [[9]])"
proof -
  have "length (no_memory n) = n" for n by (simp add: no_memory_def)
  note w = sock_read_write [OF this, of "Sock_vector (Sock_pods 2)" two_vectors "[[9]]" "[1, 2]" "[5, 6, 7, 8]"]
  have "sock_has_type (Sock_vector (Sock_pods 2)) two_vectors"
    "sock_has_type (Sock_vector (Sock_pods 2)) (Vector_value [Pods_value 1 [7, 7]])"
    by (simp_all add: two_vectors_def)
  note typed = this
  from w typed(1) obtain ps where ps: "sock_write two_vectors = Some ps"
    "\<And>target. sock_has_type (Sock_vector (Sock_pods 2)) target \<Longrightarrow>
       sock_read no_memory (Sock_vector (Sock_pods 2)) target (ps @ [[9]]) = Some (received target two_vectors, [[9]])"
    by blast
  have "received (Vector_value [Pods_value 1 [7, 7]]) two_vectors =
      Vector_value [Pods_value 1 [7, 7], Pods_value 2 [1, 2, 3, 4], Pods_value 0 []]"
    by (simp add: two_vectors_def)
  with ps(1) ps(2) [OF typed(2)] have "\<exists>ps. sock_write two_vectors = Some ps \<and>
     sock_read no_memory (Sock_vector (Sock_pods 2)) (Vector_value [Pods_value 1 [7, 7]]) (ps @ [[9]]) =
       Some (Vector_value [Pods_value 1 [7, 7], Pods_value 2 [1, 2, 3, 4], Pods_value 0 []], [[9]])" by auto
  moreover have "sock_read no_memory (Sock_pod 4) (Pod_value [5, 6, 7, 8]) ([1, 2] # [[9]]) =
     Some (Pod_value [1, 2, 7, 8], [[9]])"
    using w [THEN conjunct2, THEN conjunct1]
    by (simp add: eval_nat_numeral del: sock_read.simps)
  ultimately show ?thesis by blast
qed

end
