(* ===== verification/Wordnet_File.thy ===== *)
theory Wordnet_File
  imports Xstring_Split
begin

text \<open>
  The sorted text files of \<open>nlp/wordnet.hpp\<close>: finding the line around a position, comparing a key with a line
  and the binary search over positions. A file is the string of its bytes. \<open>None\<close> is a read outside the
  buffer or a stream that has failed.
\<close>

subsection \<open>The operations\<close>

abbreviation nl :: char where
  "nl \<equiv> CHR 0x0A"

definition partition_size :: nat where
  "partition_size = 256"

text \<open>The characters before \<open>pos\<close>, from the last one on, up to the end of a line. The loop's index has no
  sign, so it does not stop at the beginning of the buffer but reads outside it.\<close>

fun scan_back :: "string \<Rightarrow> nat \<Rightarrow> nat \<Rightarrow> nat option" where
  "scan_back f 0 pos = None"
| "scan_back f (Suc i) pos = (if nl = f ! (pos - 1) then Some pos else scan_back f i (pos - 1))"

text \<open>Seeking in front of the file fails and leaves the buffer without a line end. Reading from the end of
  the file fails.\<close>

definition line_at :: "string \<Rightarrow> nat \<Rightarrow> (string \<times> nat) option" where
  "line_at f pos =
     (if pos < partition_size \<or> length f < pos then None
      else (case scan_back f partition_size pos of
              None \<Rightarrow> None
            | Some pos \<Rightarrow>
                if pos = length f then None else Some (takeWhile (\<lambda>c. c \<noteq> nl) (drop pos f), pos)))"

text \<open>\<open>line[line.size()]\<close> is NUL.\<close>

fun key_compare :: "string \<Rightarrow> string \<Rightarrow> int" where
  "key_compare [] line = 0"
| "key_compare (k # key) [] =
     (if char_val k \<noteq> 0 then char_val k else if key = [] then 0 else 1)"
| "key_compare (k # key) (l # line) =
     (let iCmp = char_val k - char_val l in if 0 \<noteq> iCmp then iCmp else key_compare key line)"

lemma scan_back_bounds:
  "scan_back f n pos = Some p \<Longrightarrow> n \<le> pos \<Longrightarrow>
     0 < p \<and> p \<le> pos \<and> f ! (p - 1) = nl \<and> (\<forall>i. p \<le> i \<and> i < pos \<longrightarrow> f ! i \<noteq> nl)"
proof (induction f n pos rule: scan_back.induct)
  case (2 f i pos)
  then obtain q where q: "pos = Suc q" "i \<le> q" by (cases pos) auto
  show ?case
  proof (cases "f ! q = nl")
    case True
    then show ?thesis using 2(2) q by auto
  next
    case False
    then have "0 < p \<and> p \<le> q \<and> f ! (p - 1) = nl \<and> (\<forall>i. p \<le> i \<and> i < q \<longrightarrow> f ! i \<noteq> nl)"
      using 2 q by simp
    then show ?thesis using False q by (auto simp: less_Suc_eq)
  qed
qed simp

lemma line_at_bounds:
  assumes "line_at f pos = Some (l, p)"
  shows "0 < p \<and> p \<le> pos \<and> pos \<le> p + length l"
proof -
  from assms have sb: "scan_back f partition_size pos = Some p" "partition_size \<le> pos" "pos \<le> length f"
    and l: "l = takeWhile (\<lambda>c. c \<noteq> nl) (drop p f)"
    by (auto simp: line_at_def not_less split: if_splits option.splits)
  note b = scan_back_bounds [OF sb(1,2)]
  have "pos - p \<le> length l"
  proof (rule ccontr)
    assume "\<not> pos - p \<le> length l"
    then have less: "length l < pos - p" by simp
    then have "length l < length (drop p f)" using sb(3) by simp
    then have "drop p f ! length l = nl"
      unfolding l using nth_length_takeWhile by blast
    moreover have "f ! (p + length l) \<noteq> nl" using b less by auto
    ultimately show False using sb(3) less by simp
  qed
  then show ?thesis using b by simp
qed

text \<open>The binary search; its positions move on, so it ends.\<close>

function wordnet_find :: "string \<Rightarrow> string \<Rightarrow> nat \<Rightarrow> nat \<Rightarrow> string option" where
  "wordnet_find f key iStart iEnd =
     (if iStart \<le> iEnd
      then (let iMid = (iStart + iEnd) div 2 in
            case line_at f iMid of
              None \<Rightarrow> None
            | Some (sTemp, iMid) \<Rightarrow>
                let iCmp = key_compare key sTemp in
                if 0 = iCmp then Some sTemp
                else if iCmp < 0 then wordnet_find f key iStart (iMid - 1)
                else wordnet_find f key (iMid + 2 + length sTemp) iEnd)
      else Some [])"
  by pat_completeness auto
termination
proof (relation "measure (\<lambda>(f, key, iStart, iEnd). iEnd + 1 - iStart)", goal_cases)
  case (2 f key s e mid x sTemp mid' c)
  then have "0 < mid' \<and> mid' \<le> (s + e) div 2" using line_at_bounds by blast
  then show ?case using 2 by auto
next
  case (3 f key s e mid x sTemp mid' c)
  then have "(s + e) div 2 \<le> mid' + length sTemp" using line_at_bounds by blast
  then show ?case using 3 by auto
qed simp

declare wordnet_find.simps [simp del]

end
