(* ===== verification/Wordnet_Find.thy ===== *)
theory Wordnet_Find
  imports Wordnet_File
begin

text \<open>
  The search finds what it is asked for: in a file of sorted lines behind a header, the result is a line
  that begins with the key, when there is one.
\<close>

subsection \<open>The lines of a file\<close>

definition line_text :: "string list \<Rightarrow> string" where
  "line_text L = concat (map (\<lambda>l. l @ [nl]) L)"

definition file_text :: "string \<Rightarrow> string list \<Rightarrow> string" where
  "file_text h L = h @ line_text L"

definition line_start :: "string \<Rightarrow> string list \<Rightarrow> nat \<Rightarrow> nat" where
  "line_start h L k = length h + length (line_text (take k L))"

fun line_le :: "string \<Rightarrow> string \<Rightarrow> bool" where
  "line_le [] t = True"
| "line_le (a # s) [] = False"
| "line_le (a # s) (b # t) = (char_val a < char_val b \<or> (a = b \<and> line_le s t))"

definition searchable :: "string \<Rightarrow> string list \<Rightarrow> bool" where
  "searchable h L \<longleftrightarrow>
     partition_size \<le> length h \<and> last h = nl \<and>
     list_all (\<lambda>l. l \<noteq> [] \<and> length l < partition_size \<and> nl \<notin> set l) L \<and>
     sorted_wrt line_le L"

lemma line_start_simps [simp]:
  "line_start h L 0 = length h"
  "k < length L \<Longrightarrow> line_start h L (Suc k) = Suc (line_start h L k + length (L ! k))"
  by (simp_all add: line_start_def line_text_def take_Suc_conv_app_nth)

lemma line_start_length: "line_start h L (length L) = length (file_text h L)"
  by (simp add: line_start_def file_text_def)

lemma line_start_mono: "j \<le> k \<Longrightarrow> k \<le> length L \<Longrightarrow> line_start h L j \<le> line_start h L k"
proof (induction k)
  case (Suc k)
  then show ?case by (cases "j = Suc k") auto
qed simp

lemma file_text_at:
  assumes "k < length L"
  shows "file_text h L = (h @ line_text (take k L)) @ L ! k @ nl # line_text (drop (Suc k) L)"
proof -
  have "line_text L = line_text (take k L @ L ! k # drop (Suc k) L)"
    using id_take_nth_drop [OF assms] by simp
  then show ?thesis by (simp add: file_text_def line_text_def)
qed

lemma line_text_last: "L \<noteq> [] \<Longrightarrow> line_text L \<noteq> [] \<and> last (line_text L) = nl"
proof (induction L)
  case (Cons l L)
  then show ?case by (cases L) (auto simp: line_text_def)
qed simp

lemma before_line:
  assumes "searchable h L"
  shows "h @ line_text (take k L) \<noteq> [] \<and> last (h @ line_text (take k L)) = nl"
proof (cases "take k L = []")
  case True
  have "h \<noteq> []" using assms by (auto simp: searchable_def partition_size_def)
  then show ?thesis using assms True by (simp add: line_text_def searchable_def)
next
  case False
  then show ?thesis using line_text_last [OF False] by simp
qed

lemma scan_back_line:
  "u \<noteq> [] \<Longrightarrow> last u = nl \<Longrightarrow> nl \<notin> set w \<Longrightarrow> length w < n \<Longrightarrow>
     scan_back (u @ w @ v) n (length u + length w) = Some (length u)"
proof (induction n arbitrary: w v)
  case (Suc n)
  show ?case
  proof (cases w rule: rev_cases)
    case Nil
    then show ?thesis using Suc.prems by (simp add: nth_append last_conv_nth)
  next
    case (snoc w' c)
    have "scan_back (u @ w' @ c # v) n (length u + length w') = Some (length u)"
      using Suc.IH [of w' "c # v"] Suc.prems snoc by simp
    then show ?thesis using Suc.prems snoc by (auto simp: nth_append)
  qed
qed simp

lemma line_at_line:
  assumes ok: "searchable h L" and k: "k < length L"
    and pos: "line_start h L k \<le> pos" "pos \<le> line_start h L k + length (L ! k)"
  shows "line_at (file_text h L) pos = Some (L ! k, line_start h L k)"
proof -
  define u where "u = h @ line_text (take k L)"
  define v where "v = nl # line_text (drop (Suc k) L)"
  define w where "w = take (pos - length u) (L ! k)"
  define x where "x = drop (pos - length u) (L ! k)"
  have f: "file_text h L = u @ (w @ x) @ v"
    using file_text_at [OF k, of h] by (simp add: u_def v_def w_def x_def)
  have st: "line_start h L k = length u" by (simp add: u_def line_start_def)
  have l: "L ! k \<noteq> []" "length (L ! k) < partition_size" "nl \<notin> set (L ! k)"
    using ok k by (auto simp: searchable_def list_all_length)
  have u: "u \<noteq> []" "last u = nl" using before_line [OF ok, of k] by (simp_all add: u_def)
  have w: "nl \<notin> set w" "length w < partition_size" "length u + length w = pos"
    using l pos st by (auto simp: w_def dest: in_set_takeD)
  have "scan_back (u @ w @ (x @ v)) partition_size (length u + length w) = Some (length u)"
    by (rule scan_back_line [OF u w(1,2)])
  then have sb: "scan_back (file_text h L) partition_size pos = Some (length u)"
    unfolding f w(3) by simp
  have "partition_size \<le> length u" using ok by (simp add: u_def searchable_def)
  moreover have "pos \<le> length (file_text h L)" "length u < length (file_text h L)"
    unfolding f w(3) [symmetric] by (simp_all add: v_def)
  moreover have "takeWhile (\<lambda>c. c \<noteq> nl) (drop (length u) (file_text h L)) = L ! k"
    using l(3) by (simp add: f w_def x_def v_def takeWhile_tail) (auto simp: takeWhile_eq_all_conv)
  ultimately show ?thesis using sb pos st by (simp add: line_at_def)
qed

lemma line_of_position:
  assumes "line_start h L lo \<le> pos" "pos < line_start h L hi" "lo \<le> hi" "hi \<le> length L"
  shows "\<exists>k. lo \<le> k \<and> k < hi \<and> line_start h L k \<le> pos \<and> pos \<le> line_start h L k + length (L ! k)"
  using assms(2-4)
proof (induction hi)
  case (Suc hi)
  show ?case
  proof (cases "line_start h L hi \<le> pos")
    case True
    then show ?thesis using Suc.prems assms(1)
      by (cases "lo = Suc hi") (auto intro!: exI [of _ hi])
  next
    case False
    then have "lo \<le> hi" using Suc.prems assms(1) by (cases "lo = Suc hi") auto
    then show ?thesis using Suc.IH False Suc.prems by (auto intro: less_SucI)
  qed
qed (use assms(1) in simp)

subsection \<open>Keys and the order of lines\<close>

lemma char_val_inj: "char_val a = char_val b \<Longrightarrow> a = b"
  using of_char_int_bounds [of a] of_char_int_bounds [of b]
  by (auto simp: char_val_def Let_def split: if_splits)

lemma key_compare_up:
  "key_compare key t < 0 \<Longrightarrow> line_le t t' \<Longrightarrow> list_all (\<lambda>c. 0 < char_val c) key \<Longrightarrow> key_compare key t' < 0"
proof (induction key t arbitrary: t' rule: key_compare.induct)
  case (3 k key l line)
  then show ?case by (cases t') (auto simp: Let_def split: if_splits dest: char_val_inj)
qed (auto split: if_splits)

lemma key_compare_down:
  "0 < key_compare key t' \<Longrightarrow> line_le t t' \<Longrightarrow> list_all (\<lambda>c. 0 < char_val c) key \<Longrightarrow> 0 < key_compare key t"
proof (induction key t arbitrary: t' rule: key_compare.induct)
  case (3 k key l line)
  then show ?case by (cases t') (auto simp: Let_def split: if_splits dest: char_val_inj)
qed auto

lemma key_compare_prefix:
  "list_all (\<lambda>c. 0 < char_val c) key \<Longrightarrow> key_compare key t = 0 \<longleftrightarrow> prefix key t"
  by (induction key t rule: key_compare.induct) (auto simp: Let_def dest: char_val_inj)


subsection \<open>The search\<close>

lemma search_step:
  assumes ok: "searchable h L" and key: "list_all (\<lambda>c. 0 < char_val c) key" and k: "k < length L"
  shows "key_compare key (L ! k) < 0 \<Longrightarrow> k \<le> j \<Longrightarrow> j < length L \<Longrightarrow> key_compare key (L ! j) \<noteq> 0"
    "0 < key_compare key (L ! k) \<Longrightarrow> j \<le> k \<Longrightarrow> key_compare key (L ! j) \<noteq> 0"
proof -
  have le: "line_le (L ! i) (L ! j)" if "i < j" "j < length L" for i j
    using ok that by (simp add: searchable_def sorted_wrt_nth_less)
  show "key_compare key (L ! k) < 0 \<Longrightarrow> k \<le> j \<Longrightarrow> j < length L \<Longrightarrow> key_compare key (L ! j) \<noteq> 0"
    using key_compare_up [OF _ le key, of k j] by (cases "k = j") force+
  show "0 < key_compare key (L ! k) \<Longrightarrow> j \<le> k \<Longrightarrow> key_compare key (L ! j) \<noteq> 0"
    using key_compare_down [OF _ le key, of k j] k by (cases "k = j") force+
qed

lemma search_range:
  assumes ok: "searchable h L" and key: "list_all (\<lambda>c. 0 < char_val c) key"
  shows "lo \<le> hi \<Longrightarrow> hi \<le> length L \<Longrightarrow> line_start h L lo \<le> s \<Longrightarrow> s \<le> line_start h L lo + 1 \<Longrightarrow>
    e < line_start h L hi \<Longrightarrow> lo = hi \<or> line_start h L (hi - 1) + 1 \<le> e \<Longrightarrow>
    (\<And>j. j < length L \<Longrightarrow> key_compare key (L ! j) = 0 \<Longrightarrow> lo \<le> j \<and> j < hi) \<Longrightarrow>
    \<exists>t. wordnet_find (file_text h L) key s e = Some t \<and>
      (if t = [] then \<forall>l \<in> set L. key_compare key l \<noteq> 0 else t \<in> set L \<and> key_compare key t = 0)"
proof (induction "hi - lo" arbitrary: lo hi s e rule: less_induct)
  case less
  show ?case
  proof (cases "lo = hi")
    case True
    then have "\<not> s \<le> e" using less.prems(3,5) by simp
    moreover have "\<forall>l \<in> set L. key_compare key l \<noteq> 0"
      using less.prems(7) True by (auto simp: in_set_conv_nth) (metis linorder_not_less)
    ultimately show ?thesis by (subst wordnet_find.simps) simp
  next
    case False
    then have lohi: "lo < hi" using less.prems(1) by simp
    have "line_start h L lo \<le> line_start h L (hi - 1)"
      using lohi less.prems(2) by (intro line_start_mono) auto
    then have se: "s \<le> e" using less.prems(4,6) False by linarith
    define mid where "mid = (s + e) div 2"
    have mid: "s \<le> mid" "mid \<le> e" using se by (auto simp: mid_def)
    obtain k where k: "lo \<le> k" "k < hi" "line_start h L k \<le> mid" "mid \<le> line_start h L k + length (L ! k)"
      using line_of_position [of h L lo mid hi] mid less.prems(2,3,5) lohi by auto
    have kL: "k < length L" using k(2) less.prems(2) by simp
    have at: "line_at (file_text h L) mid = Some (L ! k, line_start h L k)"
      by (rule line_at_line [OF ok kL k(3,4)])
    have ne: "l \<noteq> []" if "l \<in> set L" for l
      using ok that by (auto simp: searchable_def list_all_iff)
    have find: "wordnet_find (file_text h L) key s e =
        (if key_compare key (L ! k) = 0 then Some (L ! k)
         else if key_compare key (L ! k) < 0 then wordnet_find (file_text h L) key s (line_start h L k - 1)
         else wordnet_find (file_text h L) key (line_start h L k + 2 + length (L ! k)) e)"
      using se at by (subst wordnet_find.simps) (simp add: mid_def [symmetric] Let_def)
    consider "key_compare key (L ! k) = 0" | "key_compare key (L ! k) < 0" | "0 < key_compare key (L ! k)"
      by linarith
    then show ?thesis
    proof cases
      case 1
      then show ?thesis using find ne kL by (auto intro!: exI [of _ "L ! k"])
    next
      case 2
      have pos: "0 < line_start h L k" using ok by (auto simp: line_start_def searchable_def partition_size_def)
      have "\<exists>t. wordnet_find (file_text h L) key s (line_start h L k - 1) = Some t \<and>
          (if t = [] then \<forall>l \<in> set L. key_compare key l \<noteq> 0 else t \<in> set L \<and> key_compare key t = 0)"
      proof (rule less.hyps [of k lo])
        show "lo = k \<or> line_start h L (k - 1) + 1 \<le> line_start h L k - 1"
        proof (cases "lo = k")
          case False
          then obtain m where m: "k = Suc m" using k(1) by (cases k) auto
          then have "L ! m \<noteq> []" using kL by (intro ne) simp
          then show ?thesis using m kL by (cases "L ! m") auto
        qed simp
        show "lo \<le> j \<and> j < k" if "j < length L" "key_compare key (L ! j) = 0" for j
          using less.prems(7) [OF that] search_step(1) [OF ok key kL 2, of j] that by force
      qed (use k less.prems(3,4) kL lohi pos in simp_all)
      then show ?thesis using find 2 by simp
    next
      case 3
      have "\<exists>t. wordnet_find (file_text h L) key (line_start h L k + 2 + length (L ! k)) e = Some t \<and>
          (if t = [] then \<forall>l \<in> set L. key_compare key l \<noteq> 0 else t \<in> set L \<and> key_compare key t = 0)"
      proof (rule less.hyps [of hi "Suc k"])
        show "Suc k \<le> j \<and> j < hi" if "j < length L" "key_compare key (L ! j) = 0" for j
          using less.prems(7) [OF that] search_step(2) [OF ok key kL 3, of j] that by force
      qed (use k less.prems(2,5,6) kL lohi in auto)
      then show ?thesis using find 3 by simp
    qed
  qed
qed

text \<open>The search in a file of sorted, short lines behind a header of at least 256 characters, over the positions
  from the first line to the second character of the last. It never reads outside its buffer, and it returns a
  line that has the key as a prefix (not as a word), or the empty text when there is none.\<close>

lemma wordnet_find_finds:
  assumes "searchable h L" "L \<noteq> []" "list_all (\<lambda>c. 0 < char_val c) key"
  shows "case wordnet_find (file_text h L) key (length h) (line_start h L (length L - 1) + 1) of
      None \<Rightarrow> False
    | Some t \<Rightarrow> (if t = [] then list_all (\<lambda>l. \<not> prefix key l) L else t \<in> set L \<and> prefix key t)"
proof -
  obtain m where m: "length L = Suc m" using assms(2) by (cases L) auto
  have "L ! m \<noteq> []" using assms(1) m by (auto simp: searchable_def list_all_length)
  then have "line_start h L m + 1 < line_start h L (Suc m)" using m by (cases "L ! m") auto
  then have "\<exists>t. wordnet_find (file_text h L) key (length h) (line_start h L m + 1) = Some t \<and>
      (if t = [] then \<forall>l \<in> set L. key_compare key l \<noteq> 0 else t \<in> set L \<and> key_compare key t = 0)"
    using m by (intro search_range [OF assms(1,3), of 0 "Suc m"]) auto
  then show ?thesis
    using m by (auto simp: key_compare_prefix [OF assms(3)] list_all_iff split: if_splits)
qed

end
