(* ===== verification/Wordnet.thy ===== *)
theory Wordnet
  imports Wordnet_Find "HOL-Library.Monad_Syntax"
begin

text \<open>
  The database of \<open>nlp/wordnet.hpp\<close>: opening its files, the records of a line, and the queries. \<open>None\<close> is an index
  outside the items of a line, a number outside \<open>int\<close>, a dereferenced null pointer or a failed stream.
\<close>

subsection \<open>Opening a file\<close>

text \<open>The header lines are numbered; \<open>pos\<close> is where \<open>rest\<close> begins. A stream at its end has no position.\<close>

function skip_header :: "nat \<Rightarrow> nat \<Rightarrow> string \<Rightarrow> nat option" where
  "skip_header iLine pos rest =
     (let sLine = takeWhile (\<lambda>c. c \<noteq> nl) rest in
      case dropWhile (\<lambda>c. c \<noteq> nl) rest of
        [] \<Rightarrow> None
      | _ # rest \<Rightarrow>
          if take 3 sLine \<noteq> ''  '' @ to_string (int iLine) then Some pos
          else skip_header (iLine + 1) (pos + length sLine + 1) rest)"
  by pat_completeness auto
termination
proof (relation "measure (\<lambda>(_, _, rest). length rest)", goal_cases)
  case (2 iLine pos rest sLine c rest')
  then have "length rest = length (takeWhile (\<lambda>c. c \<noteq> nl) rest) + length (c # rest')"
    by (metis length_append takeWhile_dropWhile_id)
  then show ?case by simp
qed simp

declare skip_header.simps [simp del]

fun tail_newline :: "string \<Rightarrow> nat \<Rightarrow> nat" where
  "tail_newline sTemp 0 = 0"
| "tail_newline sTemp (Suc i) = (if nl \<noteq> sTemp ! Suc i then tail_newline sTemp i else Suc i)"

text \<open>\<open>_Begin\<close> and \<open>_End\<close>.\<close>

definition text_file_open :: "string \<Rightarrow> (nat \<times> nat) option" where
  "text_file_open f = do {
     b \<leftarrow> skip_header 1 0 f;
     if length f < 200 then None
     else let sTemp = drop (length f - 200) f
          in Some (b, length f - (198 - tail_newline sTemp 198)) }"

definition text_file_find :: "string \<Rightarrow> string \<Rightarrow> string option" where
  "text_file_find f key = do {
     (iStart, iEnd) \<leftarrow> text_file_open f;
     wordnet_find f key iStart iEnd }"

subsection \<open>Records\<close>

definition is_space :: "char \<Rightarrow> bool" where
  "is_space c \<longleftrightarrow> c \<in> {CHR '' '', CHR 0x09, CHR 0x0A, CHR 0x0B, CHR 0x0C, CHR 0x0D}"

definition atoi :: "string \<Rightarrow> int option" where
  "atoi s =
     (let s = dropWhile is_space s;
          neg = (s \<noteq> [] \<and> hd s = CHR ''-'');
          s = (if s \<noteq> [] \<and> (hd s = CHR ''-'' \<or> hd s = CHR ''+'') then tl s else s);
          v = foldl (\<lambda>v c. 10 * v + (char_val c - 48)) 0 (takeWhile is_digit s);
          v = (if neg then - v else v)
      in if - (2 ^ 31) \<le> v \<and> v < 2 ^ 31 then Some v else None)"

text \<open>A loop that counts a negative number down to 0 runs over the end of the items.\<close>

definition loop_count :: "int \<Rightarrow> nat option" where
  "loop_count t = (if t < 0 then None else Some (nat t))"

definition next_item :: "string list \<Rightarrow> (string \<times> string list) option" where
  "next_item oItems = (case oItems of [] \<Rightarrow> None | s # rest \<Rightarrow> Some (s, rest))"

primrec items_times ::
  "(string list \<Rightarrow> ('r \<times> string list) option) \<Rightarrow> nat \<Rightarrow> string list \<Rightarrow> ('r list \<times> string list) option" where
  "items_times rd 0 oItems = Some ([], oItems)"
| "items_times rd (Suc t) oItems = do {
     (r, oItems) \<leftarrow> rd oItems;
     (rs, oItems) \<leftarrow> items_times rd t oItems;
     Some (r # rs, oItems) }"

definition next_int :: "string list \<Rightarrow> (int \<times> string list) option" where
  "next_int oItems = do {
     (s, oItems) \<leftarrow> next_item oItems;
     t \<leftarrow> atoi s;
     Some (t, oItems) }"

definition counted ::
  "(string list \<Rightarrow> ('r \<times> string list) option) \<Rightarrow> string list \<Rightarrow> ('r list \<times> string list) option" where
  "counted rd oItems = do {
     (t, oItems) \<leftarrow> next_int oItems;
     n \<leftarrow> loop_count t;
     items_times rd n oItems }"

definition spaced :: "string \<Rightarrow> string" where
  "spaced p = replace_chars ''_'' (CHR '' '') p"

record word_index =
  word :: string
  lex_id :: string

record synset_ptr =
  ptr_symbol :: string
  ptr_offset :: "32 word"
  ptr_pos :: char
  source_target :: string

record data_record =
  synset_offset :: "32 word"
  lex_filenum :: "32 word"
  ss_type :: char
  gloss :: string
  words :: "word_index list"
  pointers :: "synset_ptr list"

text \<open>The two records construct the entries of their words differently.\<close>

definition next_word :: "(string \<Rightarrow> string \<Rightarrow> word_index) \<Rightarrow> string list \<Rightarrow> (word_index \<times> string list) option" where
  "next_word entry oItems = do {
     (p1, oItems) \<leftarrow> next_item oItems;
     (p2, oItems) \<leftarrow> next_item oItems;
     Some (entry (spaced p1) (spaced p2), oItems) }"

definition next_ptr :: "string list \<Rightarrow> (synset_ptr \<times> string list) option" where
  "next_ptr oItems = do {
     (p1, oItems) \<leftarrow> next_item oItems;
     (p2, oItems) \<leftarrow> next_item oItems;
     (p3, oItems) \<leftarrow> next_item oItems;
     (p4, oItems) \<leftarrow> next_item oItems;
     off \<leftarrow> atoi p2;
     Some (\<lparr>ptr_symbol = p1, ptr_offset = word_of_int off, ptr_pos = hd p3, source_target = p4\<rparr>, oItems) }"

definition load_fields ::
  "(string \<Rightarrow> string \<Rightarrow> word_index) \<Rightarrow> string list \<Rightarrow> string \<Rightarrow> (data_record \<times> string list) option" where
  "load_fields entry oItems gl = do {
     (off, oItems) \<leftarrow> next_int oItems;
     (num, oItems) \<leftarrow> next_int oItems;
     (ty, oItems) \<leftarrow> next_item oItems;
     (ws, oItems) \<leftarrow> counted (next_word entry) oItems;
     (ptrs, oItems) \<leftarrow> counted next_ptr oItems;
     Some (\<lparr>synset_offset = word_of_int off, lex_filenum = word_of_int num, ss_type = hd ty, gloss = gl, words = ws, pointers = ptrs\<rparr>,
           oItems) }"

definition data_load :: "string \<Rightarrow> data_record option" where
  "data_load sz = do {
     oItems \<leftarrow> split_chars '' '' True sz;
     (r, _) \<leftarrow> load_fields (\<lambda>p1 p2. \<lparr>word = p1, lex_id = p1\<rparr>) oItems
       (case find_ch sz (CHR ''|'') 0 of None \<Rightarrow> [] | Some i \<Rightarrow> drop i sz);
     Some r }"

record generic_frame =
  frame_plus :: string
  f_num :: string
  w_num :: string

definition next_frame :: "string list \<Rightarrow> (generic_frame \<times> string list) option" where
  "next_frame oItems = do {
     (p1, oItems) \<leftarrow> next_item oItems;
     (p2, oItems) \<leftarrow> next_item oItems;
     (p3, oItems) \<leftarrow> next_item oItems;
     Some (\<lparr>frame_plus = p1, f_num = p2, w_num = p3\<rparr>, oItems) }"

text \<open>A verb record is read from a position in a file; the position behind its line is returned too.\<close>

definition verb_load :: "string \<Rightarrow> nat \<Rightarrow> (data_record \<times> generic_frame list \<times> nat) option" where
  "verb_load sFile i =
     (let sz = takeWhile (\<lambda>c. nl \<noteq> c) (drop i sFile); iEnd = i + length sz in do {
      oItems \<leftarrow> split_chars '' '' True sz;
      (r, oItems) \<leftarrow> load_fields (\<lambda>p1 p2. \<lparr>word = p1, lex_id = p2\<rparr>) oItems
        (dropWhile (\<lambda>c. CHR ''|'' \<noteq> c) sz);
      (frames, _) \<leftarrow> counted next_frame oItems;
      Some (r, frames, iEnd + 1) })"

record index_record =
  lemma_text :: string
  index_pos :: char
  index_symbols :: "string list"
  synset_cnt :: "32 word"
  sense_cnt :: "32 word"
  tagsense_cnt :: "32 word"
  index_offset :: "32 word"

text \<open>A string stream gives the words between white space; behind the last it leaves a string empty.\<close>

definition next_token :: "string list \<Rightarrow> string \<times> string list" where
  "next_token ts = (case ts of [] \<Rightarrow> ([], []) | t # ts \<Rightarrow> (t, ts))"

primrec tokens_times :: "nat \<Rightarrow> string list \<Rightarrow> string list \<times> string list" where
  "tokens_times 0 ts = ([], ts)"
| "tokens_times (Suc n) ts =
     (let (t, ts) = next_token ts; (us, ts) = tokens_times n ts in (t # us, ts))"

definition index_load :: "string \<Rightarrow> index_record option" where
  "index_load sz =
     (let ts = keep_pieces True (pieces_at is_space sz);
          (lem, ts) = next_token ts; (spos, ts) = next_token ts;
          (ssynset_cnt, ts) = next_token ts; (p_cnt, ts) = next_token ts in do {
      t \<leftarrow> atoi p_cnt;
      n \<leftarrow> loop_count t;
      let (syms, ts) = tokens_times n ts;
          (ssense_cnt, ts) = next_token ts; (stagsense_cnt, ts) = next_token ts;
          (soff, ts) = next_token ts in do {
      a \<leftarrow> atoi ssynset_cnt; b \<leftarrow> atoi ssense_cnt; c \<leftarrow> atoi stagsense_cnt; d \<leftarrow> atoi soff;
      Some \<lparr>lemma_text = spaced lem, index_pos = (case spos of [] \<Rightarrow> NUL | ch # _ \<Rightarrow> ch), index_symbols = syms,
            synset_cnt = word_of_int a, sense_cnt = word_of_int b, tagsense_cnt = word_of_int c, index_offset = word_of_int d\<rparr> } })"

subsection \<open>Queries\<close>

text \<open>The inner \<open>None\<close> is a null pointer.\<close>

definition index_get_record :: "string \<Rightarrow> string \<Rightarrow> index_record option option" where
  "index_get_record f key = do {
     sRecord \<leftarrow> text_file_find f key;
     if 0 = length sRecord then Some None else map_option Some (index_load sRecord) }"

definition data_get_record :: "string \<Rightarrow> nat \<Rightarrow> data_record option option" where
  "data_get_record f off = do {
     (sLine, _) \<leftarrow> line_at f off;
     if 0 = length sLine then Some None else map_option Some (data_load sLine) }"

record wordnet =
  data_adj :: string
  index_adj :: string
  index_adv :: string
  index_noun :: string
  index_verb :: string

definition get_word_pos :: "wordnet \<Rightarrow> string \<Rightarrow> 16 word option" where
  "get_word_pos wn src = do {
     sAdj \<leftarrow> text_file_find (index_adj wn) src;
     sAdv \<leftarrow> text_file_find (index_adv wn) src;
     sNoun \<leftarrow> text_file_find (index_noun wn) src;
     sVerb \<leftarrow> text_file_find (index_verb wn) src;
     Some (or (or (or (if [] \<noteq> sAdj then 64 else 0) (if [] \<noteq> sAdv then 128 else 0))
       (if [] \<noteq> sNoun then 1 else 0)) (if [] \<noteq> sVerb then 48 else 0)) }"

text \<open>Only adjectives are looked up; \<open>64\<close> is \<open>adjective\<close>. The record of the word is used without a test.\<close>

definition get_word_category :: "wordnet \<Rightarrow> string \<Rightarrow> 16 word \<Rightarrow> 64 word option" where
  "get_word_category wn src pos =
     (if 64 = pos \<or> 0 = pos
      then do {
        oIndex \<leftarrow> index_get_record (index_adj wn) src;
        r \<leftarrow> oIndex;
        oData \<leftarrow> data_get_record (data_adj wn) (unat (index_offset r));
        Some (case oData of None \<Rightarrow> 0 | Some d \<Rightarrow> ucast (lex_filenum d)) }
      else Some 0)"

subsection \<open>Finding a line in an opened file\<close>


lemma takeWhile_line [simp]:
  "nl \<notin> set l \<Longrightarrow> takeWhile (\<lambda>c. c \<noteq> nl) l = l"
  "nl \<notin> set l \<Longrightarrow> dropWhile (\<lambda>c. c \<noteq> nl) l = []"
  by (auto simp: takeWhile_eq_all_conv)






lemma items_times_all:
  "items_times rd n oItems = Some (rs, rest) \<Longrightarrow> (\<And>is r is'. rd is = Some (r, is') \<Longrightarrow> P r) \<Longrightarrow> list_all P rs"
  by (induction n arbitrary: oItems rs) (auto split: Option.bind_splits prod.splits)

text \<open>The records of the two kinds of line differ in their words: a word of a data file has its own text in place of
  its lexical id.\<close>

theorem data_load_loses_lex_id:
  assumes "data_load sz = Some r"
  shows "list_all (\<lambda>w. lex_id w = word w) (words r)"
proof -
  have "list_all (\<lambda>w. lex_id w = word w) ws"
    if "counted (next_word (\<lambda>p1 p2. \<lparr>word = p1, lex_id = p1\<rparr>)) oItems = Some (ws, rest)" for oItems ws rest
    using that by (auto simp: counted_def next_word_def split: Option.bind_splits prod.splits elim!: items_times_all)
  then show ?thesis using assms
    by (auto simp: data_load_def load_fields_def split: Option.bind_splits prod.splits)
qed

theorem data_load_loses_lex_id_witness:
  "list_all (\<lambda>w. lex_id w = word w) (words (the (data_load ''00001740 00 a 01 able 0 000 | (usually)'')))"
proof -
  have "data_load ''00001740 00 a 01 able 0 000 | (usually)'' \<noteq> None"
    by code_simp
  then obtain r where "data_load ''00001740 00 a 01 able 0 000 | (usually)'' = Some r" by blast
  then show ?thesis using data_load_loses_lex_id [of _ r] by simp
qed

end
