(* ===== verification/Wordnet_Old.thy ===== *)
theory Wordnet_Old
  imports Wordnet
begin

text \<open>
  The earlier database of \<open>nlp/wordnet_old.hpp\<close>, which reads whole files into maps from offsets to records.
  Its records are those of \<open>nlp/wordnet.hpp\<close>, read from a position of a file. \<open>None\<close> is a pointer
  outside the file, an index outside the items of a line, a number outside \<open>int\<close>, or a loop without end.
\<close>

subsection \<open>Records\<close>

text \<open>Each returns the record and the position the reader leaves.\<close>

definition old_index_load :: "string \<Rightarrow> nat \<Rightarrow> (index_record \<times> nat) option" where
  "old_index_load sFile i = do {
     x \<leftarrow> find_ch sFile nl i;
     r \<leftarrow> index_load (take (x - i) (drop i sFile));
     Some (r, x) }"

definition data_line :: "string \<Rightarrow> data_record option" where
  "data_line sz = do {
     oItems \<leftarrow> split_chars '' '' True sz;
     (r, _) \<leftarrow> load_fields (\<lambda>p1 p2. \<lparr>word = p1, lex_id = p1\<rparr>) oItems (dropWhile (\<lambda>c. CHR ''|'' \<noteq> c) sz);
     Some r }"

definition old_data_load :: "string \<Rightarrow> nat \<Rightarrow> (data_record \<times> nat) option" where
  "old_data_load sFile i =
     (let sz = takeWhile (\<lambda>c. nl \<noteq> c) (drop i sFile); iEnd = i + length sz in do {
      r \<leftarrow> data_line sz;
      Some (r, iEnd + 1) })"

definition old_verb_load :: "string \<Rightarrow> nat \<Rightarrow> ((data_record \<times> generic_frame list) \<times> nat) option" where
  "old_verb_load sFile i =
     (let sz = takeWhile (\<lambda>c. nl \<noteq> c) (drop i sFile); iEnd = i + length sz in do {
      oItems \<leftarrow> split_chars '' '' True sz;
      (r, oItems) \<leftarrow> load_fields (\<lambda>p1 p2. \<lparr>word = p1, lex_id = p2\<rparr>) oItems (dropWhile (\<lambda>c. CHR ''|'' \<noteq> c) sz);
      (frames, _) \<leftarrow> counted next_frame oItems;
      Some ((r, frames), iEnd + 1) })"

subsection \<open>Files\<close>

text \<open>The lines that begin with two spaces are skipped. Behind the last character there is a NUL.\<close>

function old_header :: "string \<Rightarrow> nat \<Rightarrow> nat" where
  "old_header sFile i =
     (if i < length sFile \<and> CHR '' '' = sFile ! i \<and> 1 + i < length sFile \<and> CHR '' '' = sFile ! (1 + i)
      then old_header sFile (i + length (takeWhile (\<lambda>c. nl \<noteq> c) (drop i sFile)) + 1)
      else i)"
  by pat_completeness auto
termination by (relation "measure (\<lambda>(sFile, i). length sFile - i)") auto

declare old_header.simps [simp del]

text \<open>\<open>std::map::insert\<close> keeps the record that is there.\<close>

definition map_insert :: "('k \<rightharpoonup> 'r) \<Rightarrow> 'k \<Rightarrow> 'r \<Rightarrow> ('k \<rightharpoonup> 'r)" where
  "map_insert m k r = (if m k = None then m(k \<mapsto> r) else m)"

text \<open>Every turn reads a record and then adds one to the position the reader left.\<close>

partial_function (option) old_records ::
  "(string \<Rightarrow> nat \<Rightarrow> ('r \<times> nat) option) \<Rightarrow> ('r \<Rightarrow> 32 word) \<Rightarrow> string \<Rightarrow> nat \<Rightarrow> (32 word \<rightharpoonup> 'r) \<Rightarrow> (32 word \<rightharpoonup> 'r) option" where
  "old_records rd off sFile i oRecords =
     (if i < length sFile
      then (case rd sFile i of
              None \<Rightarrow> None
            | Some (oRecord, i) \<Rightarrow> old_records rd off sFile (i + 1) (map_insert oRecords (off oRecord) oRecord))
      else Some oRecords)"

definition old_file_load ::
  "(string \<Rightarrow> nat \<Rightarrow> ('r \<times> nat) option) \<Rightarrow> ('r \<Rightarrow> 32 word) \<Rightarrow> string \<Rightarrow> (32 word \<rightharpoonup> 'r) option" where
  "old_file_load rd off sFile = old_records rd off sFile (old_header sFile 0) Map.empty"

record old_database =
  old_data_adj :: "32 word \<rightharpoonup> data_record"
  old_data_adv :: "32 word \<rightharpoonup> data_record"
  old_data_noun :: "32 word \<rightharpoonup> data_record"
  old_data_verb :: "32 word \<rightharpoonup> data_record \<times> generic_frame list"
  old_index_adj :: "32 word \<rightharpoonup> index_record"
  old_index_adv :: "32 word \<rightharpoonup> index_record"
  old_index_noun :: "32 word \<rightharpoonup> index_record"
  old_index_verb :: "32 word \<rightharpoonup> index_record"

text \<open>The eight files are read by threads of their own, which share nothing.\<close>

definition old_database_new :: "(string \<Rightarrow> string) \<Rightarrow> old_database option" where
  "old_database_new dict = do {
     da \<leftarrow> old_file_load old_data_load synset_offset (dict ''data.adj'');
     dr \<leftarrow> old_file_load old_data_load synset_offset (dict ''data.adv'');
     dn \<leftarrow> old_file_load old_data_load synset_offset (dict ''data.noun'');
     dv \<leftarrow> old_file_load old_verb_load (synset_offset \<circ> fst) (dict ''data.verb'');
     ia \<leftarrow> old_file_load old_index_load index_offset (dict ''index.adj'');
     ir \<leftarrow> old_file_load old_index_load index_offset (dict ''index.adv'');
     ni \<leftarrow> old_file_load old_index_load index_offset (dict ''index.noun'');
     iv \<leftarrow> old_file_load old_index_load index_offset (dict ''index.verb'');
     Some \<lparr>old_data_adj = da, old_data_adv = dr, old_data_noun = dn, old_data_verb = dv,
       old_index_adj = ia, old_index_adv = ir, old_index_noun = ni, old_index_verb = iv\<rparr> }"

definition old_lemma :: "old_database \<Rightarrow> string \<Rightarrow> string" where
  "old_lemma db src = src"

subsection \<open>What a file is read into\<close>

lemma old_header_lines:
  "list_all (\<lambda>l. nl \<notin> set l \<and> take 2 l = ''  '') H \<Longrightarrow> \<not> prefix ''  '' v \<Longrightarrow>
     old_header (u @ line_text H @ v) (length u) = length u + length (line_text H)"
proof (induction H arbitrary: u)
  case Nil
  then show ?case
    by (subst old_header.simps) (cases v; cases "tl v"; auto simp: line_text_def nth_append)
next
  case (Cons l H)
  then obtain w where l: "l = CHR '' '' # CHR '' '' # w" "nl \<notin> set w"
    by (cases l; cases "tl l") auto
  have eq: "u @ line_text (l # H) @ v = (u @ l @ [nl]) @ line_text H @ v"
    by (simp add: line_text_def)
  have "old_header ((u @ l @ [nl]) @ line_text H @ v) (length (u @ l @ [nl])) =
      length (u @ l @ [nl]) + length (line_text H)"
    using Cons by (intro Cons.IH) simp_all
  moreover have "takeWhile (\<lambda>c. nl \<noteq> c) (l @ nl # line_text H @ v) = l"
    using l by (subst takeWhile_tail) (auto simp: takeWhile_eq_all_conv)
  ultimately show ?case unfolding eq
    by (subst old_header.simps) (simp add: l(1) nth_append line_text_def)
qed

definition map_inserts :: "('r \<Rightarrow> 'k) \<Rightarrow> ('k \<rightharpoonup> 'r) \<Rightarrow> 'r list \<Rightarrow> ('k \<rightharpoonup> 'r)" where
  "map_inserts off = foldl (\<lambda>m r. map_insert m (off r) r)"

lemma old_data_load_line:
  assumes "nl \<notin> set l" "data_line l = Some r"
  shows "old_data_load (u @ l @ nl # v) (length u) = Some (r, length u + length l + 1)"
proof -
  have "takeWhile (\<lambda>c. nl \<noteq> c) (l @ nl # v) = l" "takeWhile (\<lambda>c. nl \<noteq> c) l = l"
    using assms(1) by (auto simp: takeWhile_tail takeWhile_eq_all_conv)
  then show ?thesis using assms(2) by (simp add: old_data_load_def)
qed

lemma old_records_lines:
  "list_all (\<lambda>l. nl \<notin> set l \<and> l \<noteq> []) L \<Longrightarrow> map (data_line \<circ> tl) L = map Some rs \<Longrightarrow>
     old_records old_data_load synset_offset (u @ line_text L) (Suc (length u)) m =
       Some (map_inserts synset_offset m rs)"
proof (induction L arbitrary: u m rs)
  case Nil
  then show ?case by (subst old_records.simps) (simp add: line_text_def map_inserts_def)
next
  case (Cons l L)
  obtain c w where w: "l = c # w" "nl \<notin> set w" using Cons.prems(1) by (cases l) simp_all
  obtain r rs' where rs: "rs = r # rs'" using Cons.prems(2) by (cases rs) simp_all
  have d: "data_line w = Some r" "map (data_line \<circ> tl) L = map Some rs'"
    using Cons.prems(2) unfolding w(1) rs by (simp_all add: comp_def)
  note l = w d(1) rs d(2)
  have "old_data_load ((u @ [c]) @ w @ nl # line_text L) (length (u @ [c])) = Some (r, length (u @ [c]) + length w + 1)"
    by (rule old_data_load_line [OF l(2,3)])
  moreover have "old_records old_data_load synset_offset ((u @ l @ [nl]) @ line_text L) (Suc (length (u @ l @ [nl])))
      (map_insert m (synset_offset r) r) = Some (map_inserts synset_offset (map_insert m (synset_offset r) r) rs')"
    using Cons.prems by (intro Cons.IH l(5)) simp
  ultimately show ?case
    by (subst old_records.simps) (simp add: l(1,4) line_text_def map_inserts_def)
qed

text \<open>A data file of header lines and data lines, read into a map. The first data line is read whole; of every
  later line the first character is lost, since the reader already stands on it when the loop adds one. A record
  that has the offset of an earlier one is dropped.\<close>

theorem old_data_file_loses_digit:
  assumes "list_all (\<lambda>l. nl \<notin> set l \<and> take 2 l = ''  '') H" "list_all (\<lambda>l. nl \<notin> set l \<and> l \<noteq> []) (l # L)"
    "\<not> prefix ''  '' l" "data_line l = Some r" "map (data_line \<circ> tl) L = map Some rs"
  shows "old_file_load old_data_load synset_offset (line_text H @ line_text (l # L)) =
    Some (map_inserts synset_offset Map.empty (r # rs))"
proof -
  have l: "nl \<notin> set l" "l \<noteq> []" using assms(2) by auto
  have "\<not> prefix ''  '' (line_text (l # L))"
    using assms(3) l by (cases l; cases "tl l") (auto simp: line_text_def)
  then have "old_header (line_text H @ line_text (l # L)) 0 = length (line_text H)"
    using old_header_lines [OF assms(1), of "line_text (l # L)" "[]"] by simp
  moreover have "old_data_load (line_text H @ l @ nl # line_text L) (length (line_text H)) =
      Some (r, length (line_text H) + length l + 1)"
    by (rule old_data_load_line [OF l(1) assms(4)])
  moreover have "old_records old_data_load synset_offset ((line_text H @ l @ [nl]) @ line_text L)
      (Suc (length (line_text H @ l @ [nl]))) (map_insert Map.empty (synset_offset r) r) =
      Some (map_inserts synset_offset (map_insert Map.empty (synset_offset r) r) rs)"
    using assms(2,5) by (intro old_records_lines) simp_all
  ultimately show ?thesis
    by (subst old_file_load_def, subst old_records.simps) (simp add: line_text_def map_inserts_def)
qed

theorem old_data_file_loses_digit_witness:
  "\<exists>r r'. old_file_load old_data_load synset_offset (line_text [''  1''] @ line_text [''10 0 a 0 0 |'', ''23 0 a 0 0 |'']) =
     Some (map_inserts synset_offset Map.empty [r, r']) \<and> synset_offset r = 10 \<and> synset_offset r' = 3"
proof -
  have "data_line ''10 0 a 0 0 |'' \<noteq> None" "map_option synset_offset (data_line ''10 0 a 0 0 |'') = Some 10"
    "data_line ''3 0 a 0 0 |'' \<noteq> None" "map_option synset_offset (data_line ''3 0 a 0 0 |'') = Some 3"
    by code_simp+
  then obtain r r' where r: "data_line ''10 0 a 0 0 |'' = Some r" "data_line ''3 0 a 0 0 |'' = Some r'"
    "synset_offset r = 10" "synset_offset r' = 3" by auto
  have "old_file_load old_data_load synset_offset (line_text [''  1''] @ line_text [''10 0 a 0 0 |'', ''23 0 a 0 0 |'']) =
     Some (map_inserts synset_offset Map.empty [r, r'])"
    by (rule old_data_file_loses_digit) (simp_all add: r(1,2))
  then show ?thesis using r(3,4) by blast
qed

end
