(* ===== verification/File_Path.thy ===== *)
theory File_Path
  imports Xstring_Split "HOL-Library.Sublist"
begin

text \<open>
  The path class of \<open>filesystem.hpp\<close>, compiled where the C++ library has none. A path is its string; \<open>ws\<close>
  is \<open>std::isspace\<close>. \<open>None\<close> is the first or last character of an empty string.
\<close>

subsection \<open>The path class\<close>

datatype os = Unix | Windows

fun preferred_separator :: "os \<Rightarrow> char" where
  "preferred_separator Unix = CHR ''/''"
| "preferred_separator Windows = CHR 0x5C"

fun not_preferred_separator :: "os \<Rightarrow> char" where
  "not_preferred_separator Unix = CHR 0x5C"
| "not_preferred_separator Windows = CHR ''/''"

definition is_separator :: "os \<Rightarrow> char \<Rightarrow> bool" where
  "is_separator os c \<longleftrightarrow> preferred_separator os = c \<or> not_preferred_separator os = c"

definition path_append :: "(char \<Rightarrow> bool) \<Rightarrow> os \<Rightarrow> string \<Rightarrow> string \<Rightarrow> string option" where
  "path_append ws os s src =
     (if s = [] then None
      else if is_separator os (last s) then Some (trim ws (s @ src))
      else if src = [] then None
      else if is_separator os (hd src) then Some (trim ws (s @ src))
      else Some (trim ws ((s @ [preferred_separator os]) @ src)))"

definition path_plus :: "string \<Rightarrow> string \<Rightarrow> string" where
  "path_plus s src = s @ src"

definition make_preferred :: "os \<Rightarrow> string \<Rightarrow> string" where
  "make_preferred os s =
     (if length s = 0 then s else replace_chars [not_preferred_separator os] (preferred_separator os) s)"

definition remove_filename :: "os \<Rightarrow> string \<Rightarrow> string" where
  "remove_filename os s =
     (if length s = 0 then s
      else if is_separator os (last s) then s
      else (case find_last_of [preferred_separator os, not_preferred_separator os] None None s of
              None \<Rightarrow> s
            | Some isep \<Rightarrow> erase isep (length s) s))"

definition replace_filename :: "(char \<Rightarrow> bool) \<Rightarrow> os \<Rightarrow> string \<Rightarrow> string \<Rightarrow> string option" where
  "replace_filename ws os s replacement = path_append ws os (remove_filename os s) replacement"

text \<open>The copy with preferred separators is made and not used.\<close>

definition filename :: "os \<Rightarrow> string \<Rightarrow> string" where
  "filename os s =
     (case rfind_ch s (preferred_separator os) (Some (length s)) of
        Some i \<Rightarrow> take (length s - i) (drop (1 + i) s)
      | None \<Rightarrow> [])"

subsection \<open>Directories\<close>

text \<open>The paths \<open>mkdir\<close> is called with; its results are not looked at.\<close>

fun make_dirs :: "string \<Rightarrow> string list \<Rightarrow> string list" where
  "make_dirs sDir [] = []"
| "make_dirs sDir (dir # dirs) =
     (let sDir = (sDir @ [preferred_separator Unix]) @ dir in sDir # make_dirs sDir dirs)"

definition create_directories :: "string \<Rightarrow> string list option" where
  "create_directories oPath =
     (case split_chars [preferred_separator Unix] False (make_preferred Unix oPath) of
        None \<Rightarrow> None
      | Some dirs \<Rightarrow> Some (make_dirs [] dirs))"

text \<open>The environment and the two macros, where they are defined.\<close>

definition env_path :: "string option \<Rightarrow> string option" where
  "env_path sTemp = (case sTemp of None \<Rightarrow> None | Some s \<Rightarrow> if s \<noteq> [] then Some s else None)"

definition temp_directory_path :: "(string \<Rightarrow> string option) \<Rightarrow> string option \<Rightarrow> string option \<Rightarrow> string + string" where
  "temp_directory_path getenv P_tmpdir PATH_TMP =
     (case env_path (getenv ''TMPDIR'') of
        Some p \<Rightarrow> Inr p
      | None \<Rightarrow>
     (case env_path (getenv ''TEMP'') of
        Some p \<Rightarrow> Inr p
      | None \<Rightarrow>
     (case P_tmpdir of
        Some p \<Rightarrow> Inr p
      | None \<Rightarrow>
     (case PATH_TMP of
        Some p \<Rightarrow> Inr p
      | None \<Rightarrow> Inl ''Unable to determine temp path''))))"

subsection \<open>Replacing a file name\<close>

lemma find_append_none: "(\<forall>x \<in> set xs. \<not> P x) \<Longrightarrow> List.find P (xs @ ys) = List.find P ys"
  by (induction xs) auto

lemma rfind_ch_none: "c \<notin> set s \<Longrightarrow> rfind_ch s c None = None"
  by (auto simp: rfind_ch_def find_None_iff dest: nth_mem)

lemma rfind_ch_last: "c \<notin> set w \<Longrightarrow> rfind_ch (u @ c # w) c None = Some (length u)"
proof -
  assume c: "c \<notin> set w"
  have "[0..<length (u @ c # w)] = [0..<length u] @ length u # [Suc (length u)..<length (u @ c # w)]"
    by (metis add_Suc_right le_add1 length_Cons length_append less_add_Suc1 upt_add_eq_append upt_conv_Cons zero_le add_0)
  then have r: "rev [0..<length (u @ c # w)] = rev [Suc (length u)..<length (u @ c # w)] @ length u # rev [0..<length u]"
    by simp
  have "\<forall>i \<in> set (rev [Suc (length u)..<length (u @ c # w)]). (u @ c # w) ! i \<noteq> c"
  proof
    fix i assume "i \<in> set (rev [Suc (length u)..<length (u @ c # w)])"
    then obtain j where "i = Suc (length u + j)" "j < length w"
      by (auto simp: le_iff_add)
    then show "(u @ c # w) ! i \<noteq> c" using c by (auto simp: nth_append)
  qed
  then show ?thesis unfolding rfind_ch_def option.case r
    by (subst find_append_none) simp_all
qed

lemma rfind_ch_bound: "rfind_ch s d None = Some x \<Longrightarrow> x < length s \<and> s ! x = d"
  by (auto simp: rfind_ch_def find_Some_iff rev_nth)

lemma rfind_ch_before:
  assumes "rfind_ch (u @ c # w) d None = Some x" "d \<noteq> c" "d \<notin> set w"
  shows "x < length u"
proof (rule ccontr)
  assume "\<not> x < length u"
  then obtain j where "x = length u + j" by (auto simp: le_iff_add not_less)
  then show False using rfind_ch_bound [OF assms(1)] assms(2,3)
    by (cases j) (auto simp: nth_append)
qed

lemma remove_filename_dir:
  assumes "is_separator os c" "name \<noteq> []" "list_all (\<lambda>c. \<not> is_separator os c) name"
  shows "remove_filename os (d @ c # name) = d"
proof -
  have w: "preferred_separator os \<notin> set name" "not_preferred_separator os \<notin> set name"
    using assms(3) by (auto simp: list_all_iff is_separator_def)
  have "\<not> is_separator os (last (d @ c # name))"
    using assms(2,3) by (simp add: list_all_iff)
  moreover have "find_last_of [preferred_separator os, not_preferred_separator os] None None (d @ c # name) = Some (length d)"
  proof -
    consider "preferred_separator os = c" | "preferred_separator os \<noteq> c" "not_preferred_separator os = c"
      using assms(1) by (auto simp: is_separator_def)
    then show ?thesis
    proof cases
      case 1
      moreover have "not_preferred_separator os \<noteq> c" using 1 by (cases os) auto
      ultimately show ?thesis
        using w rfind_ch_last [of c name d] rfind_ch_before [of d c name "not_preferred_separator os"]
        by (auto split: option.splits)
    next
      case 2
      then show ?thesis
        using w rfind_ch_last [of c name d] rfind_ch_before [of d c name "preferred_separator os"]
        by (auto split: option.splits)
    qed
  qed
  ultimately show ?thesis by (simp add: remove_filename_def erase_def)
qed

lemma remove_filename_name:
  assumes "list_all (\<lambda>c. \<not> is_separator os c) name"
  shows "remove_filename os name = name"
proof -
  have "preferred_separator os \<notin> set name" "not_preferred_separator os \<notin> set name"
    using assms by (auto simp: list_all_iff is_separator_def)
  then show ?thesis by (simp add: remove_filename_def rfind_ch_none)
qed

text \<open>The file name of a path with a directory is replaced behind the directory, with one separator. In the root
  directory nothing is left before the name, and the last character of an empty string is read; without a
  directory the name is not replaced but becomes the directory.\<close>

theorem replace_filename_cases:
  assumes "is_separator os c" "name \<noteq> []" "list_all (\<lambda>c. \<not> is_separator os c) name"
    "r \<noteq> []" "\<not> is_separator os (hd r)"
  shows "replace_filename ws os (d @ c # name) r =
      (if d = [] then None
       else if is_separator os (last d) then Some (trim ws (d @ r))
       else Some (trim ws (d @ preferred_separator os # r)))"
    and "replace_filename ws os name r = Some (trim ws (name @ preferred_separator os # r))"
proof -
  show "replace_filename ws os (d @ c # name) r =
      (if d = [] then None
       else if is_separator os (last d) then Some (trim ws (d @ r))
       else Some (trim ws (d @ preferred_separator os # r)))"
    using assms(4,5) by (simp add: replace_filename_def remove_filename_dir [OF assms(1-3)] path_append_def)
  have "\<not> is_separator os (last name)" using assms(2,3) by (simp add: list_all_iff)
  then show "replace_filename ws os name r = Some (trim ws (name @ preferred_separator os # r))"
    using assms(2,4,5) by (simp add: replace_filename_def remove_filename_name [OF assms(3)] path_append_def)
qed

theorem replace_filename_cases_witness:
  "replace_filename (\<lambda>c. c = CHR '' '') Unix ''/a/b/c/fnord'' ''snafoo'' = Some ''/a/b/c/snafoo'' \<and>
   replace_filename (\<lambda>c. c = CHR '' '') Unix ''/fnord'' ''snafoo'' = None \<and>
   replace_filename (\<lambda>c. c = CHR '' '') Unix ''fnord'' ''snafoo'' = Some ''fnord/snafoo''"
  using replace_filename_cases(1) [of Unix "CHR ''/''" "''fnord''" "''snafoo''" "\<lambda>c. c = CHR '' ''" "''/a/b/c''"]
    replace_filename_cases(1) [of Unix "CHR ''/''" "''fnord''" "''snafoo''" "\<lambda>c. c = CHR '' ''" "[]"]
    replace_filename_cases(2) [of Unix "CHR ''/''" "''fnord''" "''snafoo''" "\<lambda>c. c = CHR '' ''"]
  by (simp add: is_separator_def trim_def ltrim_def rtrim_def erase_def)

subsection \<open>The directories that are made\<close>

fun sep_prefixes :: "string \<Rightarrow> string \<Rightarrow> string list" where
  "sep_prefixes cur [] = [cur]"
| "sep_prefixes cur (c # cs) = (if c = CHR ''/'' then [cur] else []) @ sep_prefixes (cur @ [c]) cs"

lemma make_dirs_pieces:
  "make_dirs sDir (case pieces_at (\<lambda>c. c = CHR ''/'') cs of p # ps \<Rightarrow> (u @ p) # ps | [] \<Rightarrow> []) =
     sep_prefixes (sDir @ CHR ''/'' # u) cs"
proof (induction cs arbitrary: u sDir)
  case (Cons c cs)
  obtain p ps where p: "pieces_at (\<lambda>c. c = CHR ''/'') cs = p # ps"
    by (cases "pieces_at (\<lambda>c. c = CHR ''/'') cs") simp_all
  show ?case
  proof (cases "c = CHR ''/''")
    case True
    then show ?thesis using Cons.IH [of "sDir @ CHR ''/'' # u" "[]"] p by simp
  next
    case False
    then show ?thesis using Cons.IH [of sDir "u @ [c]"] p by simp
  qed
qed simp

lemma sep_prefixes_eq:
  "sep_prefixes cur cs =
     map ((@) cur) (filter (\<lambda>s. length s = length cs \<or> cs ! length s = CHR ''/'') (prefixes cs))"
proof (induction cs arbitrary: cur)
  case (Cons c cs)
  have "filter (\<lambda>s. length s = length (c # cs) \<or> (c # cs) ! length s = CHR ''/'') (prefixes (c # cs)) =
      (if c = CHR ''/'' then [[]] else []) @
      map ((#) c) (filter (\<lambda>s. length s = length cs \<or> cs ! length s = CHR ''/'') (prefixes cs))"
    by (simp add: filter_map comp_def)
  then show ?case using Cons.IH [of "cur @ [c]"] by (simp add: comp_def)
qed simp

text \<open>The directories made are the prefixes of the path in front of its separators and the path itself,
  in their order, each with a separator in front: the directories of a relative path are made in the root
  directory.\<close>

theorem create_directories_prefixes:
  "create_directories oPath =
     (let p = map (\<lambda>c. if c = CHR 0x5C then CHR ''/'' else c) oPath
      in Some (map ((#) (CHR ''/'')) (filter (\<lambda>s. s = p \<or> p ! length s = CHR ''/'') (prefixes p))))"
proof -
  define p where "p = map (\<lambda>c. if c = CHR 0x5C then CHR ''/'' else c) oPath"
  have pr: "make_preferred Unix oPath = p"
    by (auto simp: make_preferred_def replace_chars_def p_def)
  obtain q ps where q: "pieces_at (\<lambda>c. c = CHR ''/'') p = q # ps"
    by (cases "pieces_at (\<lambda>c. c = CHR ''/'') p") simp_all
  then have "make_dirs [] (pieces_at (\<lambda>c. c = CHR ''/'') p) = sep_prefixes ''/'' p"
    using make_dirs_pieces [of "[]" "[]" p] by (simp add: Let_def)
  moreover have "filter (\<lambda>s. length s = length p \<or> p ! length s = CHR ''/'') (prefixes p) =
      filter (\<lambda>s. s = p \<or> p ! length s = CHR ''/'') (prefixes p)"
  proof (rule filter_cong)
    fix s assume "s \<in> set (prefixes p)"
    then obtain z where "p = s @ z" by (auto simp: prefix_def)
    then show "(length s = length p \<or> p ! length s = CHR ''/'') = (s = p \<or> p ! length s = CHR ''/'')"
      by simp
  qed simp
  ultimately show ?thesis
    by (simp add: create_directories_def pr split_chars_pieces keep_pieces_def sep_prefixes_eq Let_def
      p_def [symmetric])
qed

end
