(* ===== verification/Dynamic_Object.thy ===== *)
theory Dynamic_Object
  imports Prelude "HOL-Library.Word"
begin

text \<open>
  Values of any type (\<open>var.hpp\<close>) and objects whose properties are made at run time (\<open>dynamic_object.hpp\<close>).
  What the compiler knows of the types is a parameter: \<open>typeid(T).hash_code()\<close>, \<open>sizeof\<close>, \<open>std::is_pod\<close>,
  and the type and default value of a property.
\<close>

subsection \<open>Values\<close>

datatype ('ty, 'v) var = Empty | Inner 'ty 'v | Inner_string string

datatype 'ty type_info = Type_empty | Type 'ty | Type_string

datatype var_error = Uninitialized | Bad_cast | Const_object

definition var_new :: "'ty \<Rightarrow> 'v \<Rightarrow> ('ty, 'v) var" where
  "var_new ty src = Inner ty src"

fun var_clone :: "('ty, 'v) var \<Rightarrow> ('ty, 'v) var" where
  "var_clone Empty = Empty"
| "var_clone (Inner ty v) = Inner ty v"
| "var_clone (Inner_string v) = Inner_string v"

fun get_type :: "('ty, 'v) var \<Rightarrow> 'ty type_info" where
  "get_type Empty = Type_empty"
| "get_type (Inner ty v) = Type ty"
| "get_type (Inner_string v) = Type_string"

fun var_is_pod :: "('ty \<Rightarrow> bool) \<Rightarrow> ('ty, 'v) var \<Rightarrow> var_error + bool" where
  "var_is_pod pod Empty = Inl Uninitialized"
| "var_is_pod pod (Inner ty v) = Inr (pod ty)"
| "var_is_pod pod (Inner_string v) = Inr False"

fun var_size :: "('ty \<Rightarrow> nat) \<Rightarrow> ('ty, 'v) var \<Rightarrow> var_error + nat" where
  "var_size sizeof Empty = Inl Uninitialized"
| "var_size sizeof (Inner ty v) = Inr (sizeof ty)"
| "var_size sizeof (Inner_string v) = Inr (length v)"

fun var_as :: "'ty \<Rightarrow> ('ty, 'v) var \<Rightarrow> var_error + 'v" where
  "var_as ty (Inner ty' v) = (if ty = ty' then Inr v else Inl Bad_cast)"
| "var_as ty v = Inl Bad_cast"

fun var_as_string :: "('ty, 'v) var \<Rightarrow> var_error + string" where
  "var_as_string (Inner_string v) = Inr v"
| "var_as_string v = Inl Bad_cast"

subsection \<open>Objects\<close>

text \<open>A property \<open>'p\<close> is a type of its own, with the type of its values.\<close>

record ('p, 'ty, 'v) property_types =
  hash_code :: "'p \<Rightarrow> 64 word"
  value_hash :: "'ty \<Rightarrow> 64 word"
  value_type :: "'p \<Rightarrow> 'ty"
  value_new :: "'p \<Rightarrow> 'v"

type_synonym ('ty, 'v) dynamic_object = "64 word \<rightharpoonup> ('ty, 'v) var"

definition has_property :: "('p, 'ty, 'v) property_types \<Rightarrow> 'p \<Rightarrow> ('ty, 'v) dynamic_object \<Rightarrow> bool" where
  "has_property T p oItems \<longleftrightarrow> oItems (hash_code T p) \<noteq> None"

definition remove_property ::
  "('p, 'ty, 'v) property_types \<Rightarrow> 'p \<Rightarrow> ('ty, 'v) dynamic_object \<Rightarrow> ('ty, 'v) dynamic_object" where
  "remove_property T p oItems = oItems(hash_code T p := None)"

text \<open>The reference \<open>value\<close> returns: what it reads, and the object with the property made if it was missing.\<close>

definition property_value ::
  "('p, 'ty, 'v) property_types \<Rightarrow> 'p \<Rightarrow> ('ty, 'v) dynamic_object \<Rightarrow> var_error + 'v \<times> ('ty, 'v) dynamic_object" where
  "property_value T p oItems =
     (case oItems (hash_code T p) of
        Some v \<Rightarrow> (case var_as (value_type T p) v of Inl e \<Rightarrow> Inl e | Inr x \<Rightarrow> Inr (x, oItems))
      | None \<Rightarrow>
          let oRet = var_new (value_type T p) (value_new T p); oTmp = oItems(hash_code T p \<mapsto> var_clone oRet)
          in (case var_as (value_type T p) oRet of Inl e \<Rightarrow> Inl e | Inr x \<Rightarrow> Inr (x, oTmp)))"

definition property_assign ::
  "('p, 'ty, 'v) property_types \<Rightarrow> 'p \<Rightarrow> 'v \<Rightarrow> ('ty, 'v) dynamic_object \<Rightarrow> var_error + ('ty, 'v) dynamic_object" where
  "property_assign T p x oItems =
     (case property_value T p oItems of
        Inl e \<Rightarrow> Inl e
      | Inr (_, oItems) \<Rightarrow> Inr (oItems(hash_code T p \<mapsto> Inner (value_type T p) x)))"

definition property_value_const ::
  "('p, 'ty, 'v) property_types \<Rightarrow> 'p \<Rightarrow> ('ty, 'v) dynamic_object \<Rightarrow> var_error + 'v" where
  "property_value_const T p oItems =
     (case oItems (hash_code T p) of Some v \<Rightarrow> var_as (value_type T p) v | None \<Rightarrow> Inl Const_object)"

text \<open>\<open>make\<close> files every value under the type of the value.\<close>

fun add_items ::
  "('p, 'ty, 'v) property_types \<Rightarrow> ('ty \<times> 'v) list \<Rightarrow> ('ty, 'v) dynamic_object \<Rightarrow> ('ty, 'v) dynamic_object" where
  "add_items T [] oItems = oItems"
| "add_items T ((ty, x) # oTail) oItems =
     add_items T oTail
       (if oItems (value_hash T ty) = None then oItems(value_hash T ty \<mapsto> var_new ty x) else oItems)"

definition dynamic_make :: "('p, 'ty, 'v) property_types \<Rightarrow> ('ty \<times> 'v) list \<Rightarrow> ('ty, 'v) dynamic_object" where
  "dynamic_make T oArgs = add_items T oArgs Map.empty"

subsection \<open>An object is a map from properties to values\<close>

datatype ('p, 'v) property_op = Has 'p | Remove 'p | Value 'p | Assign 'p 'v | Value_const 'p

datatype 'v property_answer = Answer_bool bool | Answer_value 'v | Answer_done | Answer_error var_error

fun property_step ::
  "('p, 'ty, 'v) property_types \<Rightarrow> ('p, 'v) property_op \<Rightarrow> ('ty, 'v) dynamic_object
     \<Rightarrow> 'v property_answer \<times> ('ty, 'v) dynamic_object" where
  "property_step T (Has p) oItems = (Answer_bool (has_property T p oItems), oItems)"
| "property_step T (Remove p) oItems = (Answer_done, remove_property T p oItems)"
| "property_step T (Value p) oItems =
     (case property_value T p oItems of Inl e \<Rightarrow> (Answer_error e, oItems) | Inr (x, oItems) \<Rightarrow> (Answer_value x, oItems))"
| "property_step T (Assign p x) oItems =
     (case property_assign T p x oItems of Inl e \<Rightarrow> (Answer_error e, oItems) | Inr oItems \<Rightarrow> (Answer_done, oItems))"
| "property_step T (Value_const p) oItems =
     ((case property_value_const T p oItems of Inl e \<Rightarrow> Answer_error e | Inr x \<Rightarrow> Answer_value x), oItems)"

fun property_run ::
  "('p, 'ty, 'v) property_types \<Rightarrow> ('p, 'v) property_op list \<Rightarrow> ('ty, 'v) dynamic_object \<Rightarrow> 'v property_answer list" where
  "property_run T [] oItems = []"
| "property_run T (op # ops) oItems = (let (a, oItems) = property_step T op oItems in a # property_run T ops oItems)"

fun spec_step :: "('p \<Rightarrow> 'v) \<Rightarrow> ('p, 'v) property_op \<Rightarrow> ('p \<rightharpoonup> 'v) \<Rightarrow> 'v property_answer \<times> ('p \<rightharpoonup> 'v)" where
  "spec_step new (Has p) m = (Answer_bool (p \<in> dom m), m)"
| "spec_step new (Remove p) m = (Answer_done, m(p := None))"
| "spec_step new (Value p) m = (case m p of Some x \<Rightarrow> (Answer_value x, m) | None \<Rightarrow> (Answer_value (new p), m(p \<mapsto> new p)))"
| "spec_step new (Assign p x) m = (Answer_done, m(p \<mapsto> x))"
| "spec_step new (Value_const p) m = (case m p of Some x \<Rightarrow> Answer_value x | None \<Rightarrow> Answer_error Const_object, m)"

fun spec_run :: "('p \<Rightarrow> 'v) \<Rightarrow> ('p, 'v) property_op list \<Rightarrow> ('p \<rightharpoonup> 'v) \<Rightarrow> 'v property_answer list" where
  "spec_run new [] m = []"
| "spec_run new (op # ops) m = (let (a, m) = spec_step new op m in a # spec_run new ops m)"

definition holds_map :: "('p, 'ty, 'v) property_types \<Rightarrow> ('ty, 'v) dynamic_object \<Rightarrow> ('p \<rightharpoonup> 'v) \<Rightarrow> bool" where
  "holds_map T oItems m \<longleftrightarrow> (\<forall>p. oItems (hash_code T p) = map_option (Inner (value_type T p)) (m p))"

lemma property_step_refines:
  assumes "inj (hash_code T)" "holds_map T oItems m"
  shows "fst (property_step T op oItems) = fst (spec_step (value_new T) op m) \<and>
    holds_map T (snd (property_step T op oItems)) (snd (spec_step (value_new T) op m))"
proof -
  have h: "oItems (hash_code T p) = map_option (Inner (value_type T p)) (m p)" for p
    using assms(2) by (simp add: holds_map_def)
  have i: "(hash_code T p = hash_code T q) = (p = q)" for p q
    using assms(1) by (simp add: inj_eq)
  show ?thesis
    by (cases op)
      (auto simp: h i holds_map_def has_property_def remove_property_def property_value_def property_assign_def
        property_value_const_def var_new_def split: option.splits)
qed

lemma property_run_refines:
  "inj (hash_code T) \<Longrightarrow> holds_map T oItems m \<Longrightarrow> property_run T ops oItems = spec_run (value_new T) ops m"
proof (induction ops arbitrary: oItems m)
  case (Cons op ops)
  then show ?case using property_step_refines [OF Cons.prems, of op]
    by (simp add: Let_def case_prod_beta)
qed simp

text \<open>C35: any sequence of operations on an object answers as a map from properties to values does, in which reading a
  missing property makes its default value; no operation fails with a bad cast. What is needed is that no
  two properties have the same hash code.\<close>

theorem dynamic_object_is_a_map:
  assumes "inj (hash_code T)"
  shows "property_run T ops Map.empty = spec_run (value_new T) ops Map.empty"
  by (rule property_run_refines [OF assms]) (simp add: holds_map_def)

theorem dynamic_object_is_a_map_witness:
  "property_run \<lparr>hash_code = (\<lambda>b::bool. if b then 1 else 2), value_hash = (\<lambda>ty::nat. 3), value_type = (\<lambda>b. 0), value_new = (\<lambda>b. 7::int)\<rparr>
     [Has True, Value True, Assign False 4, Value False, Value_const True] Map.empty =
   [Answer_bool False, Answer_value 7, Answer_done, Answer_value 4, Answer_value 7]"
  using dynamic_object_is_a_map [of "\<lparr>hash_code = (\<lambda>b::bool. if b then 1 else 2), value_hash = (\<lambda>ty::nat. 3), value_type = (\<lambda>b. 0), value_new = (\<lambda>b. 7::int)\<rparr>"
    "[Has True, Value True, Assign False 4, Value False, Value_const True]"]
  by (simp add: inj_def Let_def)

text \<open>A value given to \<open>make\<close> is not the value of any property, since a property is a type of its own.\<close>

lemma make_has_no_property:
  "(\<And>ty. hash_code T p \<noteq> value_hash T ty) \<Longrightarrow> \<not> has_property T p (dynamic_make T oArgs)"
proof -
  assume h: "\<And>ty. hash_code T p \<noteq> value_hash T ty"
  have "oItems (hash_code T p) = None \<Longrightarrow> add_items T oArgs oItems (hash_code T p) = None" for oItems
    using h by (induction T oArgs oItems rule: add_items.induct) auto
  then show ?thesis by (simp add: has_property_def dynamic_make_def)
qed

end
