(* ===== verification/Text_Processing.thy ===== *)
theory Text_Processing
  imports Xstring_Split
begin

text \<open>
  The text processing of \<open>nlp\<close>: tokenising, changing the case, chains of processes (\<open>nlp.hpp\<close>), the sentence
  boundary detector and the text of a part of speech (\<open>document.hpp\<close>). The locale is its classification of
  characters.
\<close>

subsection \<open>Documents\<close>

record document_locale =
  loc_isalnum :: "char \<Rightarrow> bool"
  loc_islower :: "char \<Rightarrow> bool"
  loc_tolower :: "char \<Rightarrow> char"

record document =
  doc_text :: string
  doc_tokens :: "string list"

datatype nlp_error = Locale_not_set

definition raw_document :: "string \<Rightarrow> document" where
  "raw_document src = \<lparr>doc_text = src, doc_tokens = []\<rparr>"

definition simple_tokenizer :: "document_locale option \<Rightarrow> document \<Rightarrow> nlp_error + document" where
  "simple_tokenizer loc src =
     (case loc of
        None \<Rightarrow> Inl Locale_not_set
      | Some oLocale \<Rightarrow>
          Inr (src\<lparr>doc_tokens := split_visited (\<lambda>ch. \<not> loc_isalnum oLocale ch) (doc_text src)\<rparr>))"

definition character_visitor ::
  "document_locale option \<Rightarrow> (document_locale \<Rightarrow> char \<Rightarrow> char) \<Rightarrow> document \<Rightarrow> nlp_error + document" where
  "character_visitor loc oVisitor oParam =
     (case loc of
        None \<Rightarrow> Inl Locale_not_set
      | Some oLocale \<Rightarrow> Inr (oParam\<lparr>doc_text := map (oVisitor oLocale) (doc_text oParam)\<rparr>))"

definition lcase_visitor :: "document_locale \<Rightarrow> char \<Rightarrow> char" where
  "lcase_visitor oLocale ch = (if \<not> loc_islower oLocale ch then loc_tolower oLocale ch else ch)"

definition lcase_converter :: "document_locale option \<Rightarrow> document \<Rightarrow> nlp_error + document" where
  "lcase_converter loc = character_visitor loc lcase_visitor"

text \<open>The head of the list is applied last. An error passes through, as an exception does.\<close>

fun document_process :: "('d \<Rightarrow> 'e + 'd) list \<Rightarrow> 'd \<Rightarrow> 'e + 'd" where
  "document_process [] src = Inr src"
| "document_process (oHead # oTail) src =
     (case document_process oTail src of Inl e \<Rightarrow> Inl e | Inr d \<Rightarrow> oHead d)"

lemma tokens_map: "tokens P (map f s) = map (map f) (tokens (P \<circ> f) s)"
  by (induction "P \<circ> f" s rule: tokens.induct)
    (simp_all add: takeWhile_map dropWhile_map comp_def)

text \<open>The chain of the tokenizer over the lower case converter. It answers with an error when the locale is not
  set; otherwise the text is the converted text and its tokens are the converted tokens of the original text,
  when lower case does not make or unmake letters and digits. Put together the tokens are the text.\<close>

theorem tokenizer_after_lcase:
  assumes "case loc of None \<Rightarrow> True | Some oLocale \<Rightarrow> loc_isalnum oLocale \<circ> loc_tolower oLocale = loc_isalnum oLocale"
  shows "document_process [simple_tokenizer loc, lcase_converter loc] d =
     (case loc of
        None \<Rightarrow> Inl Locale_not_set
      | Some oLocale \<Rightarrow>
          Inr (d\<lparr>doc_text := map (lcase_visitor oLocale) (doc_text d),
             doc_tokens := map (map (lcase_visitor oLocale)) (tokens (\<lambda>c. \<not> loc_isalnum oLocale c) (doc_text d))\<rparr>))"
proof (cases loc)
  case None
  then show ?thesis by (simp add: lcase_converter_def character_visitor_def)
next
  case (Some oLocale)
  have "loc_isalnum oLocale (lcase_visitor oLocale c) = loc_isalnum oLocale c" for c
    using assms Some by (simp add: lcase_visitor_def fun_eq_iff)
  then show ?thesis
    by (simp add: Some lcase_converter_def character_visitor_def simple_tokenizer_def split_visited_tokens
      tokens_map comp_def)
qed

theorem tokenizer_after_lcase_witness:
  "document_process [simple_tokenizer (Some \<lparr>loc_isalnum = (\<lambda>c. c \<noteq> CHR '' ''), loc_islower = (\<lambda>c. True), loc_tolower = id\<rparr>),
      lcase_converter (Some \<lparr>loc_isalnum = (\<lambda>c. c \<noteq> CHR '' ''), loc_islower = (\<lambda>c. True), loc_tolower = id\<rparr>)] (raw_document ''a dog'') =
    Inr \<lparr>doc_text = ''a dog'', doc_tokens = [''a'', '' '', ''dog'']\<rparr>"
  using tokenizer_after_lcase [of "Some \<lparr>loc_isalnum = (\<lambda>c. c \<noteq> CHR '' ''), loc_islower = (\<lambda>c. True), loc_tolower = id\<rparr>" "raw_document ''a dog''"]
  by (simp add: raw_document_def lcase_visitor_def comp_def del: document_process.simps)

subsection \<open>Sentence boundaries\<close>

text \<open>A scan goes on from the position it found, so it finds it again.\<close>

partial_function (option) sbd_scan :: "string \<Rightarrow> char \<Rightarrow> nat option \<Rightarrow> nat list \<Rightarrow> nat list option" where
  "sbd_scan sOriginalText ch iCurrPos PositionScore =
     (case iCurrPos of
        None \<Rightarrow> Some PositionScore
      | Some i \<Rightarrow> sbd_scan sOriginalText ch (find_ch sOriginalText ch i)
          (if i = 0 then PositionScore else PositionScore[i := PositionScore ! i + 10]))"

definition simple_SBD :: "string \<Rightarrow> nat list option" where
  "simple_SBD sOriginalText =
     (case sbd_scan sOriginalText (CHR ''?'') (Some 0) (replicate (length sOriginalText) 0) of
        None \<Rightarrow> None
      | Some PositionScore \<Rightarrow> sbd_scan sOriginalText (CHR ''!'') (Some 0) PositionScore)"

lemma find_ch_from_None: "find_ch s c i = None \<longleftrightarrow> c \<notin> set (drop i s)"
proof -
  have "drop i s = map ((!) s) [i..<length s]" by (rule nth_equalityI) simp_all
  then have "set (drop i s) = (!) s ` {i..<length s}" by simp
  then show ?thesis by (auto simp: find_ch_def find_None_iff)
qed

lemma sbd_scan_loops:
  "sbd_scan s ch i sc = Some r \<Longrightarrow> \<forall>j. i = Some j \<longrightarrow> ch \<notin> set (drop j s)"
proof (induction rule: sbd_scan.raw_induct [rotated, consumes 1])
  case (1 f s ch i sc r)
  show ?case
  proof (intro allI impI)
    fix j assume j: "i = Some j"
    show "ch \<notin> set (drop j s)"
    proof (cases "find_ch s ch j")
      case None
      then show ?thesis by (simp add: find_ch_from_None)
    next
      case (Some k)
      then have "ch \<notin> set (drop k s)" using 1 j by fastforce
      moreover have "k < length s" "s ! k = ch" using find_ch_Some [OF Some] by auto
      ultimately show ?thesis by (metis Cons_nth_drop_Suc list.set_intros(1))
    qed
  qed
qed

lemma sbd_scan_none: "ch \<notin> set s \<Longrightarrow> sbd_scan s ch (Some 0) sc = Some sc"
proof -
  assume "ch \<notin> set s"
  then have "find_ch s ch 0 = None" by (simp add: find_ch_from_None)
  then show ?thesis by (subst sbd_scan.simps, simp) (simp add: sbd_scan.simps)
qed

text \<open>The sentence boundary detector returns only on texts without a question mark and an exclamation mark, and
  then it has found nothing: on every other text it loops for ever.\<close>

theorem simple_SBD_returns_iff:
  "simple_SBD s =
     (if CHR ''?'' \<in> set s \<or> CHR ''!'' \<in> set s then None else Some (replicate (length s) 0))"
proof -
  have "sbd_scan s ch (Some 0) sc = (if ch \<in> set s then None else Some sc)" for ch sc
    using sbd_scan_none [of ch s sc] sbd_scan_loops [of s ch "Some 0" sc]
    by (cases "sbd_scan s ch (Some 0) sc") auto
  then show ?thesis by (simp add: simple_SBD_def)
qed

subsection \<open>Parts of speech\<close>

definition part_of_speech_names :: "string list" where
  "part_of_speech_names = [''noun'', ''plural'', ''noun_phrase'', ''verb_participle'', ''verb_transitive'',
     ''verb_intransitive'', ''adjective'', ''adverb'', ''conjunction'', ''preposition'', ''interjection'',
     ''pronoun'', ''definite_article'', ''indefinite_article'', ''nominative'']"

fun format_names :: "16 word \<Rightarrow> nat \<Rightarrow> string list \<Rightarrow> string" where
  "format_names iPOS n [] = []"
| "format_names iPOS n (nm # nms) =
     (if and (push_bit n 1) iPOS \<noteq> 0 then nm @ '' | '' else []) @ format_names iPOS (Suc n) nms"

text \<open>Shortening an empty list of names wraps the size around; \<open>None\<close> is \<open>std::length_error\<close>.\<close>

definition pos_format :: "16 word \<Rightarrow> string option" where
  "pos_format iPOS =
     (let sRet = ''('' @ (if iPOS = 0 then ''unknown   '' else []) @ format_names iPOS 0 part_of_speech_names
      in if length sRet < 3 then None else Some (take (length sRet - 3) sRet @ '')''))"

fun pos_names :: "16 word \<Rightarrow> nat \<Rightarrow> string list \<Rightarrow> string list" where
  "pos_names iPOS n [] = []"
| "pos_names iPOS n (nm # nms) = (if bit iPOS n then [nm] else []) @ pos_names iPOS (Suc n) nms"

fun bar_join :: "string list \<Rightarrow> string" where
  "bar_join [] = []"
| "bar_join [p] = p"
| "bar_join (p # q # ps) = p @ '' | '' @ bar_join (q # ps)"

lemma push_bit_and_bit: "n < 16 \<Longrightarrow> (and (push_bit n 1) (w :: 16 word) \<noteq> 0) = bit w n"
  by (simp add: and.commute [of _ w] and_exp_eq_0_iff_not_bit)

lemma format_names_eq:
  "n + length nms \<le> 16 \<Longrightarrow>
     format_names w n nms = concat (map (\<lambda>p. p @ '' | '') (pos_names w n nms))"
  by (induction w n nms rule: format_names.induct) (simp_all add: push_bit_and_bit del: push_bit_of_1)

lemma bar_join_take:
  "ps \<noteq> [] \<Longrightarrow> concat (map (\<lambda>p. p @ '' | '') ps) = bar_join ps @ '' | ''"
  by (induction ps rule: bar_join.induct) simp_all

text \<open>The text of a part of speech is the names of its bits, joined, or \<open>unknown\<close>. The one value that is neither
  zero nor has a named bit makes the formatting fail.\<close>

theorem pos_format_eq:
  "pos_format iPOS =
     (let nms = pos_names iPOS 0 part_of_speech_names in
      if iPOS = 0 then Some ''(unknown)''
      else if nms = [] then None
      else Some (''('' @ bar_join nms @ '')''))"
proof -
  have fn: "format_names iPOS 0 part_of_speech_names =
      concat (map (\<lambda>p. p @ '' | '') (pos_names iPOS 0 part_of_speech_names))"
    by (rule format_names_eq) (simp add: part_of_speech_names_def)
  consider "iPOS = 0" | "iPOS \<noteq> 0" "pos_names iPOS 0 part_of_speech_names = []"
    | "iPOS \<noteq> 0" "pos_names iPOS 0 part_of_speech_names \<noteq> []" by blast
  then show ?thesis
  proof cases
    case 1
    then show ?thesis by (simp add: pos_format_def fn part_of_speech_names_def)
  next
    case 2
    then show ?thesis by (simp add: pos_format_def fn)
  next
    case 3
    then show ?thesis by (simp add: pos_format_def fn bar_join_take Let_def)
  qed
qed

end
