(* ===== verification/Exceptions.thy ===== *)
theory Exceptions
  imports Prelude Xstring
begin

text \<open>
  Places in the source (\<open>source_location.hpp\<close>) and the exceptions that carry them (\<open>exception.hpp\<close>). A C string
  is its text up to the NUL; \<open>errno\<close> and \<open>strerror\<close> are parameters.
\<close>

record source_location =
  loc_file :: string
  loc_line :: int

definition source_equal :: "source_location \<Rightarrow> source_location \<Rightarrow> bool" where
  "source_equal a src = (if loc_line a \<noteq> loc_line src then False else c_str (loc_file a) = c_str (loc_file src))"

text \<open>\<open>strcmp\<close> compares unsigned characters.\<close>

fun strcmp_less :: "string \<Rightarrow> string \<Rightarrow> bool" where
  "strcmp_less s [] = False"
| "strcmp_less [] (b # t) = True"
| "strcmp_less (a # s) (b # t) = ((of_char a :: nat) < of_char b \<or> (a = b \<and> strcmp_less s t))"

definition source_less :: "source_location \<Rightarrow> source_location \<Rightarrow> bool" where
  "source_less a src =
     (if strcmp_less (c_str (loc_file a)) (c_str (loc_file src)) then True else loc_line a < loc_line src)"

record exception =
  errnum :: "32 word"
  exn_source :: source_location
  what :: string

definition exception_new :: "32 word \<Rightarrow> source_location \<Rightarrow> string \<Rightarrow> exception" where
  "exception_new errno Source What = \<lparr>errnum = errno, exn_source = Source, what = What\<rparr>"

definition exception_what :: "exception \<Rightarrow> string" where
  "exception_what e = c_str (what e)"

definition exception_throw_if ::
  "32 word \<Rightarrow> source_location \<Rightarrow> 'r \<Rightarrow> ('r \<Rightarrow> bool) \<Rightarrow> string \<Rightarrow> exception + 'r" where
  "exception_throw_if errno source ret test expstr =
     (if test ret then Inl (exception_new errno source expstr) else Inr ret)"

definition crt_exception_new :: "(32 word \<Rightarrow> string) \<Rightarrow> 32 word \<Rightarrow> source_location \<Rightarrow> string \<Rightarrow> exception" where
  "crt_exception_new strerror errno Source What =
     (let e = exception_new errno Source What
      in if errnum e = 0 then e else e\<lparr>what := (what e @ '' : '') @ c_str (strerror (errnum e))\<rparr>)"

definition crt_throw_if ::
  "(32 word \<Rightarrow> string) \<Rightarrow> 32 word \<Rightarrow> source_location \<Rightarrow> 'r \<Rightarrow> ('r \<Rightarrow> bool) \<Rightarrow> string \<Rightarrow> exception + 'r" where
  "crt_throw_if strerror errno source ret test expstr =
     (if test ret then Inl (crt_exception_new strerror errno source expstr) else Inr ret)"

lemma strcmp_less_irrefl: "\<not> strcmp_less s s"
  by (induction s) auto

lemma strcmp_less_asym: "strcmp_less s t \<Longrightarrow> \<not> strcmp_less t s"
  by (induction s t rule: strcmp_less.induct) auto

lemma strcmp_less_linear: "strcmp_less s t \<or> s = t \<or> strcmp_less t s"
proof (induction s t rule: strcmp_less.induct)
  case (3 a s b t)
  then show ?case using of_char_eq_iff [of a b, where 'a = nat] by (auto simp: less_le)
next
  case (1 s)
  then show ?case by (cases s) simp_all
qed simp

text \<open>Any two places are ordered or equal. Two places in different files are each before the other, exactly when
  the one in the earlier file has the later line; in one file the order is that of the lines.\<close>

theorem source_less_both_ways:
  "(source_less a b \<or> source_equal a b \<or> source_less b a) \<and>
   (source_less a b \<and> source_less b a \<longleftrightarrow>
     (strcmp_less (c_str (loc_file a)) (c_str (loc_file b)) \<and> loc_line b < loc_line a) \<or>
     (strcmp_less (c_str (loc_file b)) (c_str (loc_file a)) \<and> loc_line a < loc_line b))"
  using strcmp_less_linear [of "c_str (loc_file a)" "c_str (loc_file b)"]
  by (auto simp: source_less_def source_equal_def dest: strcmp_less_asym)

end
