(* ===== verification/Logging.thy ===== *)
theory Logging
  imports Exceptions "HOL-Library.Sublist"
begin

text \<open>
  The log of \<open>log.hpp\<close>: any thread queues callbacks under a lock, and one thread takes them from the queue and runs
  them. A callback gives a message to every target, or ends the thread. Targets are numbers, \<open>delivered\<close> is
  what they have been given.
\<close>

subsection \<open>The state\<close>

datatype log_type = Log_fatal | Log_error | Log_warning | Log_info | Log_debug | Log_enter | Log_leave

fun type_string :: "log_type \<Rightarrow> string" where
  "type_string Log_fatal = ''fatal''"
| "type_string Log_error = ''error''"
| "type_string Log_warning = ''warning''"
| "type_string Log_debug = ''debug''"
| "type_string Log_enter = ''enter''"
| "type_string Log_leave = ''leave''"
| "type_string Log_info = ''info''"

record log_message =
  msg_tid :: "64 word"
  msg_type :: log_type
  msg_location :: source_location
  msg_text :: string
  msg_time :: "64 word"

datatype log_callback = Deliver log_message | Exit_callback

text \<open>Where the callback thread is. \<open>Delivering m i n\<close> is the loop over the targets, whose end was taken when it began.\<close>

datatype log_pc = Loop_test | Waiting | Running log_callback | Delivering log_message nat nat | Finished

text \<open>\<open>pushed\<close> is every callback that was queued, in order; \<open>raced\<close> tells that the targets were changed under the loop
  over them.\<close>

record log_state =
  callbacks :: "log_callback list"
  log_targets :: "nat list"
  thread_exit :: bool
  log_pc :: log_pc
  delivered :: "(nat \<times> log_message) list"
  pushed :: "log_callback list"
  raced :: bool

definition log_new :: "nat list \<Rightarrow> log_state" where
  "log_new T = \<lparr>callbacks = [], log_targets = T, thread_exit = False, log_pc = Loop_test, delivered = [],
     pushed = [], raced = False\<rparr>"

subsection \<open>The operations\<close>

definition queue_callback :: "log_callback \<Rightarrow> log_state \<Rightarrow> log_state" where
  "queue_callback cb L = L\<lparr>callbacks := callbacks L @ [cb], pushed := pushed L @ [cb]\<rparr>"

definition log_write ::
  "64 word \<Rightarrow> 64 word \<Rightarrow> log_type \<Rightarrow> source_location \<Rightarrow> format_arg list \<Rightarrow> log_state \<Rightarrow> log_state" where
  "log_write tid now ty loc oArgs =
     (let oMessage = \<lparr>msg_tid = tid, msg_type = ty, msg_location = loc, msg_text = format oArgs, msg_time = now\<rparr>
      in queue_callback (Deliver oMessage))"

text \<open>\<open>Exit\<close> queues this and returns when the thread has finished.\<close>

definition log_exit :: "log_state \<Rightarrow> log_state" where
  "log_exit = queue_callback Exit_callback"

text \<open>The lock that \<open>AddTarget\<close> takes is not held by the loop over the targets.\<close>

fun is_delivering :: "log_pc \<Rightarrow> bool" where
  "is_delivering (Delivering m i n) = True"
| "is_delivering pc = False"

definition add_target :: "nat \<Rightarrow> log_state \<Rightarrow> log_state" where
  "add_target t L = L\<lparr>log_targets := log_targets L @ [t], raced := raced L \<or> is_delivering (log_pc L)\<rparr>"

text \<open>One step of the callback thread; \<open>None\<close> waits, or has finished.\<close>

definition callback_thread :: "log_state \<Rightarrow> log_state option" where
  "callback_thread L =
     (case log_pc L of
        Loop_test \<Rightarrow> Some (L\<lparr>log_pc := if \<not> thread_exit L then Waiting else Finished\<rparr>)
      | Waiting \<Rightarrow>
          (case callbacks L of
             [] \<Rightarrow> None
           | oCallback # rest \<Rightarrow> Some (L\<lparr>callbacks := rest, log_pc := Running oCallback\<rparr>))
      | Running (Deliver m) \<Rightarrow> Some (L\<lparr>log_pc := Delivering m 0 (length (log_targets L))\<rparr>)
      | Running Exit_callback \<Rightarrow> Some (L\<lparr>thread_exit := True, log_pc := Loop_test\<rparr>)
      | Delivering m i n \<Rightarrow>
          (if i < n
           then Some (L\<lparr>delivered := delivered L @ [(log_targets L ! i, m)], log_pc := Delivering m (i + 1) n\<rparr>)
           else Some (L\<lparr>log_pc := Loop_test\<rparr>))
      | Finished \<Rightarrow> None)"

inductive log_step :: "log_state \<Rightarrow> log_state \<Rightarrow> bool" where
  step_write: "log_step L (log_write tid now ty loc oArgs L)"
| step_exit: "log_step L (log_exit L)"
| step_add: "log_step L (add_target t L)"
| step_thread: "callback_thread L = Some L' \<Longrightarrow> log_step L L'"

inductive_cases log_step_cases: "log_step L L'"

definition log_reachable :: "nat list \<Rightarrow> log_state \<Rightarrow> bool" where
  "log_reachable T L \<longleftrightarrow> log_step\<^sup>*\<^sup>* (log_new T) L"

fun callback_run :: "nat \<Rightarrow> log_state \<Rightarrow> log_state" where
  "callback_run 0 L = L"
| "callback_run (Suc n) L = (case callback_thread L of None \<Rightarrow> L | Some L \<Rightarrow> callback_run n L)"

subsection \<open>What the targets are given\<close>

fun before_exit :: "log_callback list \<Rightarrow> log_message list" where
  "before_exit [] = []"
| "before_exit (Exit_callback # cs) = []"
| "before_exit (Deliver m # cs) = m # before_exit cs"

definition deliveries :: "nat list \<Rightarrow> log_message list \<Rightarrow> (nat \<times> log_message) list" where
  "deliveries T ms = concat (map (\<lambda>m. map (\<lambda>t. (t, m)) T) ms)"

lemma before_exit_append:
  "before_exit (cs @ ds) = before_exit cs @ (if Exit_callback \<in> set cs then [] else before_exit ds)"
  by (induction cs rule: before_exit.induct) auto

lemma deliveries_append [simp]: "deliveries T (ms @ ns) = deliveries T ms @ deliveries T ns"
  by (simp add: deliveries_def)

lemma deliveries_one [simp]: "deliveries T [m] = map (\<lambda>t. (t, m)) T" "deliveries T [] = []"
  by (simp_all add: deliveries_def)

text \<open>\<open>did\<close> is what the thread has run.\<close>

fun log_pc_ok :: "nat list \<Rightarrow> log_callback list \<Rightarrow> log_state \<Rightarrow> log_pc \<Rightarrow> bool" where
  "log_pc_ok T did L Loop_test =
     (pushed L = did @ callbacks L \<and> delivered L = deliveries T (before_exit did) \<and>
      thread_exit L = (Exit_callback \<in> set did))"
| "log_pc_ok T did L Waiting =
     (pushed L = did @ callbacks L \<and> delivered L = deliveries T (before_exit did) \<and>
      \<not> thread_exit L \<and> Exit_callback \<notin> set did)"
| "log_pc_ok T did L (Running cb) =
     (pushed L = did @ cb # callbacks L \<and> delivered L = deliveries T (before_exit did) \<and>
      \<not> thread_exit L \<and> Exit_callback \<notin> set did)"
| "log_pc_ok T did L (Delivering m i n) =
     (pushed L = did @ Deliver m # callbacks L \<and> n = length T \<and> i \<le> n \<and>
      delivered L = deliveries T (before_exit did) @ map (\<lambda>t. (t, m)) (take i T) \<and>
      \<not> thread_exit L \<and> Exit_callback \<notin> set did)"
| "log_pc_ok T did L Finished =
     (pushed L = did @ callbacks L \<and> delivered L = deliveries T (before_exit did) \<and>
      Exit_callback \<in> set did)"

definition log_ok :: "nat list \<Rightarrow> log_state \<Rightarrow> bool" where
  "log_ok T L \<longleftrightarrow> prefix T (log_targets L) \<and>
     (log_targets L = T \<longrightarrow> \<not> raced L \<and> (\<exists>did. log_pc_ok T did L (log_pc L)))"

lemma log_ok_queue:
  assumes "log_ok T L"
  shows "log_ok T (queue_callback cb L)"
proof -
  have "log_pc_ok T did (queue_callback cb L) pc" if "log_pc_ok T did L pc" for did pc
    using that by (cases pc) (auto simp: queue_callback_def)
  then show ?thesis using assms by (auto simp: log_ok_def queue_callback_def)
qed

lemma log_ok_add:
  assumes "log_ok T L"
  shows "log_ok T (add_target t L)"
  using assms by (auto simp: log_ok_def add_target_def prefix_def)

lemma log_ok_thread:
  assumes "log_ok T L" "callback_thread L = Some L'"
  shows "log_ok T L'"
proof (cases "log_targets L = T")
  case False
  have "log_targets L' = log_targets L"
    using assms(2) by (auto simp: callback_thread_def split: log_pc.splits list.splits log_callback.splits if_splits)
  then show ?thesis using assms(1) False by (simp add: log_ok_def)
next
  case True
  then obtain did where did: "log_pc_ok T did L (log_pc L)" and r: "\<not> raced L"
    using assms(1) by (auto simp: log_ok_def)
  have "\<exists>did. log_pc_ok T did L' (log_pc L') \<and> log_targets L' = T \<and> \<not> raced L'"
  proof (cases "log_pc L")
    case Loop_test
    then show ?thesis using did assms(2) r True by (auto simp: callback_thread_def intro!: exI [of _ did])
  next
    case Waiting
    then show ?thesis using did assms(2) r True
      by (auto simp: callback_thread_def intro!: exI [of _ did] split: list.splits)
  next
    case (Running cb)
    then show ?thesis using did assms(2) r True
      by (cases cb) (auto simp: callback_thread_def before_exit_append intro: exI [of _ did] exI [of _ "did @ [Exit_callback]"])
  next
    case (Delivering m i n)
    then show ?thesis
    proof (cases "i < n")
      case True
      then show ?thesis using did assms(2) r \<open>log_targets L = T\<close> Delivering
        by (auto simp: callback_thread_def take_Suc_conv_app_nth intro!: exI [of _ did])
    next
      case False
      then show ?thesis using did assms(2) r \<open>log_targets L = T\<close> Delivering
        by (auto simp: callback_thread_def before_exit_append intro!: exI [of _ "did @ [Deliver m]"])
    qed
  next
    case Finished
    then show ?thesis using assms(2) by (simp add: callback_thread_def)
  qed
  then show ?thesis by (auto simp: log_ok_def)
qed

lemma log_reachable_ok:
  assumes "log_reachable T L"
  shows "log_ok T L"
  using assms unfolding log_reachable_def
proof (induction rule: rtranclp_induct)
  case base
  show ?case by (auto simp: log_ok_def log_new_def intro!: exI [of _ "[]"])
next
  case (step L L')
  from step(2,3) show ?case
    by (elim log_step_cases) (auto simp: log_write_def log_exit_def Let_def log_ok_queue log_ok_add log_ok_thread)
qed

text \<open>C19: whatever the interleaving of writers, calls of \<open>Exit\<close> and the callback thread, the targets are given
  messages in the order in which they were written, each message to every target once and in their order, and
  no message written after a call of \<open>Exit\<close>; when the thread has finished, so that \<open>Exit\<close> returns, they have been
  given all the messages written before. Targets that are added at run time are excluded.\<close>

theorem log_delivers_in_order:
  assumes "log_reachable T L" "log_targets L = T"
  shows "prefix (delivered L) (deliveries T (before_exit (pushed L))) \<and>
    (log_pc L = Finished \<longrightarrow> delivered L = deliveries T (before_exit (pushed L)) \<and> Exit_callback \<in> set (pushed L))"
proof -
  obtain did where did: "log_pc_ok T did L (log_pc L)"
    using log_reachable_ok [OF assms(1)] assms(2) by (auto simp: log_ok_def)
  have pre: "prefix (map (\<lambda>t. (t, m)) (take i T)) (map (\<lambda>t. (t, m)) T)" for m i
    by (metis append_take_drop_id map_append prefix_def)
  show ?thesis
    using did by (cases "log_pc L") (auto simp: before_exit_append deliveries_def intro: prefix_prefix [OF pre])
qed

theorem log_delivers_in_order_witness:
  "\<exists>m. delivered (callback_run 9 (log_exit (log_write 1 2 Log_info \<lparr>loc_file = ''f'', loc_line = 3\<rparr> [Format_c_str ''hi''] (log_new [7, 8])))) = [(7, m), (8, m)] \<and>
     prefix (delivered (log_write 1 2 Log_info \<lparr>loc_file = ''f'', loc_line = 3\<rparr> [Format_c_str ''hi''] (log_new [7, 8])))
       (deliveries [7, 8] (before_exit (pushed (log_write 1 2 Log_info \<lparr>loc_file = ''f'', loc_line = 3\<rparr> [Format_c_str ''hi''] (log_new [7, 8])))))"
proof -
  let ?L = "log_write 1 2 Log_info \<lparr>loc_file = ''f'', loc_line = 3\<rparr> [Format_c_str ''hi''] (log_new [7, 8])"
  have "log_reachable [7, 8] ?L"
    unfolding log_reachable_def by (rule r_into_rtranclp) (rule step_write)
  then have "prefix (delivered ?L) (deliveries [7, 8] (before_exit (pushed ?L)))"
    by (intro log_delivers_in_order [THEN conjunct1]) (simp_all add: log_write_def queue_callback_def log_new_def)
  moreover have "\<exists>m. delivered (callback_run 9 (log_exit ?L)) = [(7, m), (8, m)]"
    by (simp add: eval_nat_numeral callback_thread_def log_exit_def log_write_def queue_callback_def log_new_def)
  ultimately show ?thesis by blast
qed

subsection \<open>Exit returns\<close>

text \<open>What is left to do before the thread has run the first call of \<open>Exit\<close>, in steps, for \<open>n\<close> targets.\<close>

fun until_exit :: "nat \<Rightarrow> log_callback list \<Rightarrow> nat" where
  "until_exit n [] = 0"
| "until_exit n (Exit_callback # cs) = 4"
| "until_exit n (Deliver m # cs) = n + 4 + until_exit n cs"

fun steps_left :: "nat \<Rightarrow> log_state \<Rightarrow> log_pc \<Rightarrow> nat" where
  "steps_left n L Loop_test = (if thread_exit L then 1 else until_exit n (callbacks L) + 1)"
| "steps_left n L Waiting = until_exit n (callbacks L)"
| "steps_left n L (Running Exit_callback) = 2"
| "steps_left n L (Running (Deliver m)) = n + 3 + until_exit n (callbacks L)"
| "steps_left n L (Delivering m i k) = k - i + 2 + until_exit n (callbacks L)"
| "steps_left n L Finished = 0"

lemma callback_thread_progress:
  assumes "log_pc_ok T did L (log_pc L)" "Exit_callback \<in> set (pushed L)" "log_targets L = T" "log_pc L \<noteq> Finished"
  obtains L' where "callback_thread L = Some L'"
    "steps_left (length T) L' (log_pc L') < steps_left (length T) L (log_pc L)"
    "pushed L' = pushed L" "log_targets L' = T"
proof -
  have ue: "0 < until_exit n cs" if "Exit_callback \<in> set cs" for n cs
    using that by (induction n cs rule: until_exit.induct) auto
  have "\<exists>L'. callback_thread L = Some L' \<and>
      steps_left (length T) L' (log_pc L') < steps_left (length T) L (log_pc L) \<and>
      pushed L' = pushed L \<and> log_targets L' = T"
  proof (cases "log_pc L")
    case (Running cb)
    then show ?thesis using assms by (cases cb) (auto simp: callback_thread_def)
  next
    case Waiting
    then show ?thesis using assms
      by (cases "callbacks L"; cases "hd (callbacks L)") (auto simp: callback_thread_def)
  qed (use assms ue in \<open>auto simp: callback_thread_def\<close>)
  then show thesis using that by blast
qed

text \<open>C20: once a call of \<open>Exit\<close> has queued its callback, the callback thread, left alone, finishes, having given
  everything that was written before: \<open>Exit\<close> returns.\<close>

theorem log_exit_returns:
  assumes "log_reachable T L" "log_targets L = T" "Exit_callback \<in> set (pushed L)"
  shows "\<exists>n. log_pc (callback_run n L) = Finished \<and>
    delivered (callback_run n L) = deliveries T (before_exit (pushed L))"
proof -
  have "log_ok T L \<Longrightarrow> log_targets L = T \<Longrightarrow> Exit_callback \<in> set (pushed L) \<Longrightarrow>
      \<exists>n. log_pc (callback_run n L) = Finished \<and> log_ok T (callback_run n L) \<and>
        pushed (callback_run n L) = pushed L \<and> log_targets (callback_run n L) = T" for L
  proof (induction "steps_left (length T) L (log_pc L)" arbitrary: L rule: less_induct)
    case less
    show ?case
    proof (cases "log_pc L = Finished")
      case True
      then show ?thesis using less.prems by (intro exI [of _ 0]) simp
    next
      case False
      obtain did where "log_pc_ok T did L (log_pc L)" using less.prems by (auto simp: log_ok_def)
      then obtain L' where L': "callback_thread L = Some L'"
        "steps_left (length T) L' (log_pc L') < steps_left (length T) L (log_pc L)"
        "pushed L' = pushed L" "log_targets L' = T"
        using less.prems False by (auto elim: callback_thread_progress)
      then obtain n where "log_pc (callback_run n L') = Finished \<and> log_ok T (callback_run n L') \<and>
          pushed (callback_run n L') = pushed L' \<and> log_targets (callback_run n L') = T"
        using less.hyps [of L'] less.prems log_ok_thread by metis
      then show ?thesis using L' by (intro exI [of _ "Suc n"]) simp
    qed
  qed
  then obtain n where n: "log_pc (callback_run n L) = Finished" "log_ok T (callback_run n L)"
    "pushed (callback_run n L) = pushed L" "log_targets (callback_run n L) = T"
    using log_reachable_ok [OF assms(1)] assms(2,3) by metis
  then obtain did where "log_pc_ok T did (callback_run n L) Finished" by (auto simp: log_ok_def)
  then show ?thesis using n by (auto simp: before_exit_append intro!: exI [of _ n])
qed

theorem log_exit_returns_witness:
  "\<exists>n. log_pc (callback_run n (log_exit (log_new [7]))) = Finished \<and>
    delivered (callback_run n (log_exit (log_new [7]))) = deliveries [7] (before_exit (pushed (log_exit (log_new [7]))))"
proof (rule log_exit_returns)
  show "log_reachable [7] (log_exit (log_new [7]))"
    unfolding log_reachable_def by (rule r_into_rtranclp) (rule step_exit)
qed (simp_all add: log_exit_def queue_callback_def log_new_def)

subsection \<open>Targets\<close>

text \<open>The level \<open>syslog\<close> is given.\<close>

fun syslog_target :: "log_type \<Rightarrow> string" where
  "syslog_target Log_fatal = ''LOG_CRIT''"
| "syslog_target Log_error = ''LOG_ERR''"
| "syslog_target Log_warning = ''LOG_WARNING''"
| "syslog_target Log_info = ''LOG_INFO''"
| "syslog_target Log_debug = ''LOG_DEBUG''"
| "syslog_target Log_enter = ''LOG_DEBUG''"
| "syslog_target Log_leave = ''LOG_DEBUG''"

text \<open>The file target: its line and the new depth, which is one for all threads, since the callback thread makes every
  line. \<open>None\<close> is a string longer than any can be.\<close>

definition max_length :: nat where
  "max_length = 2 ^ 63 - 1"

definition csv_target :: "(64 word \<Rightarrow> 64 word) \<Rightarrow> 64 word \<Rightarrow> log_message \<Rightarrow> (string \<times> 64 word) option" where
  "csv_target oHash depth oMsg =
     (let depth = (if Log_leave = msg_type oMsg then depth - 1 else depth) in
      if max_length < unat depth then None
      else let sMsgPrefix = replicate (unat depth) (CHR '','');
               sMsg = format [Format_uint64 (oHash (msg_tid oMsg)), Format_c_str '','', Format_int64 (msg_time oMsg),
                 Format_c_str '','', Format_c_str (type_string (msg_type oMsg)), Format_c_str '','',
                 Format_c_str (loc_file (msg_location oMsg)), Format_c_str '','',
                 Format_int32 (word_of_int (loc_line (msg_location oMsg))), Format_string sMsgPrefix,
                 Format_string (msg_text oMsg)];
               depth = (if Log_enter = msg_type oMsg then depth + 1 else depth)
           in Some (sMsg @ [CHR 0x0A], depth))"

fun csv_lines :: "(64 word \<Rightarrow> 64 word) \<Rightarrow> 64 word \<Rightarrow> log_message list \<Rightarrow> string list option" where
  "csv_lines oHash depth [] = Some []"
| "csv_lines oHash depth (m # ms) =
     (case csv_target oHash depth m of
        None \<Rightarrow> None
      | Some (l, depth) \<Rightarrow> map_option ((#) l) (csv_lines oHash depth ms))"

text \<open>The second leaving message without an entering one ends the program.\<close>

lemma csv_target_underflow:
  "msg_type m = Log_leave \<Longrightarrow> csv_target oHash 0 m = None"
  by (simp add: csv_target_def max_length_def unsigned_minus_1_eq_mask mask_eq_exp_minus_1)

end
