(* ===== verification/Sqlite.thy ===== *)
theory Sqlite
  imports Exceptions "HOL-Library.Sublist"
begin

text \<open>
  Commands, result sets and transactions of \<open>sqlite.hpp\<close>. The library is a parameter: what its functions
  return and how they change the state \<open>'s\<close> of a connection and its statements.
\<close>

subsection \<open>The library\<close>

record ('s, 'v) sqlite_api =
  bind_value :: "nat \<Rightarrow> 'v \<Rightarrow> 's \<Rightarrow> int \<times> 's"
  sqlite3_step :: "'s \<Rightarrow> int \<times> 's"
  sqlite3_reset :: "'s \<Rightarrow> int \<times> 's"
  sqlite3_changes :: "'s \<Rightarrow> int"
  sqlite3_prepare :: "string \<Rightarrow> 's \<Rightarrow> int \<times> 's"
  sqlite3_finalize :: "'s \<Rightarrow> 's"
  sqlite3_errcode :: "'s \<Rightarrow> 32 word"
  sqlite3_errstr :: "'s \<Rightarrow> string"

definition SQLITE_OK :: int where
  "SQLITE_OK = 0"

definition SQLITE_ROW :: int where
  "SQLITE_ROW = 100"

definition SQLITE_DONE :: int where
  "SQLITE_DONE = 101"

subsection \<open>Errors\<close>

definition sqlite_exception_new ::
  "('s, 'v) sqlite_api \<Rightarrow> 's \<Rightarrow> source_location \<Rightarrow> 32 word \<Rightarrow> string \<Rightarrow> exception" where
  "sqlite_exception_new A db Source ErrCode What =
     (let e = exception_new 0 Source What
      in e\<lparr>errnum := ErrCode, what := (what e @ '' : '') @ c_str (sqlite3_errstr A db)\<rparr>)"

definition sqlite_throw_if ::
  "('s, 'v) sqlite_api \<Rightarrow> source_location \<Rightarrow> int \<times> 's \<Rightarrow> (int \<Rightarrow> bool) \<Rightarrow> string \<Rightarrow> (exception + int) \<times> 's" where
  "sqlite_throw_if A source r test expstr =
     (case r of (ret, db) \<Rightarrow>
        (if test ret then Inl (sqlite_exception_new A db source (sqlite3_errcode A db) expstr) else Inr ret, db))"

definition not_ok :: "int \<Rightarrow> bool" where
  "not_ok i \<longleftrightarrow> SQLITE_OK \<noteq> i"

definition not_stepped :: "int \<Rightarrow> bool" where
  "not_stepped i \<longleftrightarrow> \<not> (i = SQLITE_OK \<or> i = SQLITE_DONE \<or> i = SQLITE_ROW)"

subsection \<open>Commands\<close>

text \<open>\<open>here\<close> is the place of each call, with the text of its arguments.\<close>

fun command_params ::
  "('s, 'v) sqlite_api \<Rightarrow> source_location \<Rightarrow> nat \<Rightarrow> 'v list \<Rightarrow> 's \<Rightarrow> (exception + unit) \<times> 's" where
  "command_params A here idx [] st = (Inr (), st)"
| "command_params A here idx (oHead # oTail) st =
     (case sqlite_throw_if A here (bind_value A idx oHead st) not_ok ''bind'' of
        (Inl e, st) \<Rightarrow> (Inl e, st)
      | (Inr _, st) \<Rightarrow> command_params A here (1 + idx) oTail st)"

definition command_call ::
  "('s, 'v) sqlite_api \<Rightarrow> source_location \<Rightarrow> 'v list \<Rightarrow> 's \<Rightarrow> (exception + int) \<times> 's" where
  "command_call A here oArgs st =
     (case command_params A here 1 oArgs st of
        (Inl e, st) \<Rightarrow> (Inl e, st)
      | (Inr _, st) \<Rightarrow>
     (case sqlite_throw_if A here (sqlite3_step A st) not_stepped ''step'' of
        (Inl e, st) \<Rightarrow> (Inl e, st)
      | (Inr _, st) \<Rightarrow>
     (case sqlite_throw_if A here (sqlite3_reset A st) not_ok ''reset'' of
        (Inl e, st) \<Rightarrow> (Inl e, st)
      | (Inr _, st) \<Rightarrow> (Inr (sqlite3_changes A st), st))))"

definition result_next :: "('s, 'v) sqlite_api \<Rightarrow> source_location \<Rightarrow> 's \<Rightarrow> (exception + bool) \<times> 's" where
  "result_next A here st =
     (case sqlite_throw_if A here (sqlite3_step A st) not_stepped ''step'' of
        (Inl e, st) \<Rightarrow> (Inl e, st)
      | (Inr i, st) \<Rightarrow> (Inr (SQLITE_DONE \<noteq> i), st))"

text \<open>A command is prepared, called without arguments and destroyed, which finalizes its statement.\<close>

definition db_execute :: "('s, 'v) sqlite_api \<Rightarrow> source_location \<Rightarrow> string \<Rightarrow> 's \<Rightarrow> (exception + int) \<times> 's" where
  "db_execute A here sSQL st =
     (case sqlite_throw_if A here (sqlite3_prepare A sSQL st) not_ok ''prepare'' of
        (Inl e, st) \<Rightarrow> (Inl e, st)
      | (Inr _, st) \<Rightarrow> (case command_call A here [] st of (r, st) \<Rightarrow> (r, sqlite3_finalize A st)))"

subsection \<open>Transactions\<close>

text \<open>A transaction over any \<open>execute\<close>. \<open>None\<close> is the constructor that throws; then there is no transaction.\<close>

type_synonym 's execute = "string \<Rightarrow> 's \<Rightarrow> (exception + int) \<times> 's"

record transaction =
  has_database :: bool
  finished :: bool

definition transaction_new :: "'s execute \<Rightarrow> bool \<Rightarrow> 's \<Rightarrow> (exception + transaction) \<times> 's" where
  "transaction_new execute oDB db =
     (let t = \<lparr>has_database = oDB, finished = False\<rparr> in
      if has_database t
      then (case execute ''begin transaction;'' db of (Inl e, db) \<Rightarrow> (Inl e, db) | (Inr _, db) \<Rightarrow> (Inr t, db))
      else (Inr t, db))"

definition transaction_end ::
  "string \<Rightarrow> 's execute \<Rightarrow> transaction \<Rightarrow> 's \<Rightarrow> (exception + unit) \<times> transaction \<times> 's" where
  "transaction_end sSQL execute t db =
     (if \<not> finished t \<and> has_database t
      then (case execute sSQL db of
              (Inl e, db) \<Rightarrow> (Inl e, t, db)
            | (Inr _, db) \<Rightarrow> (Inr (), t\<lparr>finished := True\<rparr>, db))
      else (Inr (), t\<lparr>finished := True\<rparr>, db))"

definition transaction_commit :: "'s execute \<Rightarrow> transaction \<Rightarrow> 's \<Rightarrow> (exception + unit) \<times> transaction \<times> 's" where
  "transaction_commit = transaction_end ''commit transaction;''"

definition transaction_rollback :: "'s execute \<Rightarrow> transaction \<Rightarrow> 's \<Rightarrow> (exception + unit) \<times> transaction \<times> 's" where
  "transaction_rollback = transaction_end ''rollback transaction;''"

text \<open>The destructor; it swallows an exception.\<close>

definition transaction_destroy :: "'s execute \<Rightarrow> transaction \<Rightarrow> 's \<Rightarrow> 's" where
  "transaction_destroy execute t db =
     (if \<not> finished t then (case transaction_rollback execute t db of (_, _, db) \<Rightarrow> db) else db)"

text \<open>A scope: what the program calls on the transaction, each call with its exception caught, and the end of the scope.\<close>

datatype transaction_call = Commit | Rollback

fun transaction_calls :: "'s execute \<Rightarrow> transaction_call list \<Rightarrow> transaction \<Rightarrow> 's \<Rightarrow> transaction \<times> 's" where
  "transaction_calls execute [] t db = (t, db)"
| "transaction_calls execute (c # cs) t db =
     (case (case c of Commit \<Rightarrow> transaction_commit execute t db | Rollback \<Rightarrow> transaction_rollback execute t db) of
        (_, t, db) \<Rightarrow> transaction_calls execute cs t db)"

definition transaction_scope :: "'s execute \<Rightarrow> transaction_call list \<Rightarrow> 's \<Rightarrow> 's" where
  "transaction_scope execute cs db =
     (case transaction_new execute True db of
        (Inl e, db) \<Rightarrow> db
      | (Inr t, db) \<Rightarrow> (case transaction_calls execute cs t db of (t, db) \<Rightarrow> transaction_destroy execute t db))"

text \<open>A database that writes down the statements it is given; \<open>ok\<close> tells which succeed.\<close>

definition journal_execute :: "(string list \<Rightarrow> string \<Rightarrow> bool) \<Rightarrow> string list execute" where
  "journal_execute ok sSQL db =
     (if ok db sSQL then (Inr 0, db @ [sSQL]) else (Inl (exception_new 0 \<lparr>loc_file = [], loc_line = 0\<rparr> sSQL), db @ [sSQL]))"

fun call_text :: "transaction_call \<Rightarrow> string" where
  "call_text Commit = ''commit transaction;''"
| "call_text Rollback = ''rollback transaction;''"

text \<open>The statements up to the first that succeeds, and whether one does.\<close>

fun until_success :: "(string list \<Rightarrow> string \<Rightarrow> bool) \<Rightarrow> string list \<Rightarrow> string list \<Rightarrow> string list \<times> bool" where
  "until_success ok db [] = (db, False)"
| "until_success ok db (s # ss) =
     (if ok db s then (db @ [s], True) else until_success ok (db @ [s]) ss)"

lemma until_success_append:
  "until_success ok db (ss @ rs) =
     (case until_success ok db ss of (db, fin) \<Rightarrow> if fin then (db, True) else until_success ok db rs)"
  by (induction ok db ss rule: until_success.induct) auto

lemma calls_finished:
  "finished t \<Longrightarrow> transaction_calls execute cs t db = (t, db)"
proof (induction cs)
  case (Cons c cs)
  have t: "t\<lparr>finished := True\<rparr> = t" using Cons.prems by (cases t) simp
  show ?case using Cons
    by (cases c) (simp_all add: transaction_commit_def transaction_rollback_def transaction_end_def t)
qed simp

lemma calls_until_success:
  assumes "\<not> finished t" "has_database t"
  shows "transaction_calls (journal_execute ok) cs t db =
     (case until_success ok db (map call_text cs) of (db, fin) \<Rightarrow> (t\<lparr>finished := fin\<rparr>, db))"
  using assms
proof (induction cs arbitrary: db)
  case Nil
  then show ?case by (cases t) simp
next
  case (Cons c cs)
  show ?case
    using Cons.IH [of "db @ [call_text c]"] Cons.prems
    by (cases c; cases "ok db (call_text c)")
      (simp_all add: transaction_commit_def transaction_rollback_def transaction_end_def journal_execute_def calls_finished)
qed

text \<open>C37: in a scope with a transaction the statements given to the database are \<open>begin\<close> and, if that succeeds, the
  endings the program called and the rollback of the destructor, up to the first ending that succeeds: a
  transaction ends once, a failed commit can be tried again, and without any success the destructor tries to roll
  back.\<close>

theorem transaction_ends_once:
  "transaction_scope (journal_execute ok) cs db =
     (let db' = db @ [''begin transaction;''] in
      if ok db ''begin transaction;''
      then fst (until_success ok db' (map call_text cs @ [''rollback transaction;'']))
      else db')"
proof (cases "ok db ''begin transaction;''")
  case True
  obtain db2 fin where u: "until_success ok (db @ [''begin transaction;'']) (map call_text cs) = (db2, fin)"
    by fastforce
  have "transaction_calls (journal_execute ok) cs \<lparr>has_database = True, finished = False\<rparr> (db @ [''begin transaction;'']) =
      (\<lparr>has_database = True, finished = fin\<rparr>, db2)"
    by (simp add: calls_until_success u)
  then show ?thesis using True u
    by (simp add: transaction_scope_def transaction_new_def journal_execute_def until_success_append Let_def
      transaction_destroy_def transaction_rollback_def transaction_end_def)
next
  case False
  then show ?thesis by (simp add: transaction_scope_def transaction_new_def journal_execute_def Let_def)
qed

end
