(* ===== verification/Spec2Isabelle.thy ===== *)
theory Spec2Isabelle
  imports Parser_Properties RFC1035 RFC2229 RFC4647 RFC5536 RFC7233 ISO32000
    Hash_Map_Iteration Hash_Map_Race Btree_Properties Page_Cache
    Spin_Lock Recursive_Lock Rw_Lock Stack Rpc Porter_Properties Parse_Ast_Agrees Xstring_Split Unique_Id Mapped_Vector Socket
    Wordnet_Old File_Path Dynamic_Object Text_Processing Logging Sqlite
begin

text \<open>
  A verification of XTD, a header library for C++
  (\<^verbatim>\<open>include/xtd\<close>).

  \<^bold>\<open>The program.\<close> \<^verbatim>\<open>parse.hpp\<close> is a parser generator by templates: a grammar rule is a type built
  from the combinators \<open>not_\<close>, \<open>and_\<close>, \<open>or_\<close>, \<open>one_or_more_\<close>, \<open>zero_or_more_\<close>, \<open>zero_or_one_\<close>, the
  terminals \<open>string\<close>, \<open>character\<close>, \<open>characters\<close>, \<open>regex\<close> and the named \<open>rule\<close>. Every node type has
  a \<open>parse\<close> member that either returns a node of the syntax tree and moves the position, or
  returns null, restores the position and reports errors in the shared \<open>context\<close>. The entry
  point \<open>parser::parse\<close> runs a start rule and requires the input to be used up. The headers of
  \<^verbatim>\<open>grammars\<close> define the grammars of internet standards with these templates; they import one
  another's rules. Beside the parsers the library has containers: \<^verbatim>\<open>lru_cache.hpp\<close>, a cache that
  loads what it does not hold and drops the least recently used item, and
  \<^verbatim>\<open>concurrent/hash_map.hpp\<close>, a lock-free trie over the nibbles of the key; and \<^verbatim>\<open>btree.hpp\<close>, a map on
  disk: a B+ tree over the pages of a \<^verbatim>\<open>mapped_file\<close>, which it reads through an LRU cache.
  \<^verbatim>\<open>concurrent\<close> also has locks and a lock-free stack, \<^verbatim>\<open>rpc.hpp\<close> calls functions of another process and
  \<^verbatim>\<open>nlp/porter_stemmer.hpp\<close> reduces English words to their stems. The rest is general-purpose: strings, callbacks, sockets, a log with a thread of
  its own, values and objects of any shape, identifiers, paths, exceptions, transactions over SQLite, and readers of the
  WordNet files. \<^verbatim>\<open>btree.hpp\<close> and \<^verbatim>\<open>mapped_vector.hpp\<close> work on \<^verbatim>\<open>mapped_file.hpp\<close> through \<^verbatim>\<open>lru_cache.hpp\<close>,
  \<^verbatim>\<open>rpc.hpp\<close> over any transport, \<^verbatim>\<open>socket.hpp\<close> tells events through \<^verbatim>\<open>callback.hpp\<close>, and \<^verbatim>\<open>nlp\<close> uses the splitting and
  replacing of \<^verbatim>\<open>string.hpp\<close>.

  \<^bold>\<open>The theories.\<close>
  \<^item> \<open>Prelude\<close>: positions as the remaining characters, the signed reading of \<open>char\<close>, splitting
    a text at a separator, character classes.
  \<^item> \<open>Parse\<close>: the model of \<^verbatim>\<open>parse.hpp\<close>. The datatype \<open>rule\<close> has one constructor per template;
    \<open>not_parse\<close>, \<open>and_parse\<close>, \<open>or_parse\<close>, \<open>one_or_more_parse\<close>, \<open>zero_or_more_parse\<close>,
    \<open>zero_or_one_parse\<close>, \<open>rule_parse\<close>, \<open>string_parse\<close>, \<open>character_parse\<close>, \<open>characters_parse\<close> and
    \<open>regex_parse\<close> are the member functions, \<open>parse\<close> is the virtual call that ties them together,
    \<open>parser_parse\<close> the entry point. The record \<open>parse_context\<close> is the context; its error list is
    threaded through every call.
  \<^item> \<open>Parse_Laws\<close>: the locale \<open>lawful\<close>, the contract of a \<open>parse\<close> member (a null result consumes
    nothing, errors are only added, the text of the node is what was consumed), and its
    interpretation on \<open>parse\<close>.
  \<^item> \<open>Recognizer\<close> and \<open>Peg\<close>: the abstract specification. \<open>recog\<close> computes what is consumed,
    without trees and errors; \<open>peg\<close> is the same as a big-step relation without fuel. \<open>parse\<close>
    refines \<open>recog\<close>, and \<open>recog\<close> computes exactly \<open>peg\<close>.
  \<^item> \<open>Parse_Termination\<close>: the check \<open>guarded\<close> for left recursion, termination of guarded grammars,
    divergence of left-recursive ones.
  \<^item> \<open>Parse_Tree\<close>: the shape of syntax trees (\<open>conforms\<close>) and the text they cover (\<open>fringe\<close>), as the
    locale \<open>tree_builder\<close> that extends \<open>lawful\<close>.
  \<^item> \<open>Parser\<close>, \<open>Ignore_Case\<close>, \<open>Plain_Match\<close>: whole results and fuel, error reports, letter case, and
    the reading of reference-free rules in the context without whitespace as a total function
    \<open>plain\<close>, with the lemmas on character classes, bounded repetitions and separated lists that
    the language theorems use.
  \<^item> \<open>Parser_Properties\<close>: the properties C1 to C8 of the engine, and what left recursion does.
  \<^item> \<open>Parse_Ast\<close>, \<open>Parse_Ast_Agrees\<close>: the second engine, \<^verbatim>\<open>parse_ast.hpp\<close>, over the same datatype of rules,
    and that it accepts what the first engine accepts, with the same tree (C9).
  \<^item> \<open>RFC5234\<close>, \<open>RFC3986\<close>, \<open>RFC1035\<close>, \<open>RFC4647\<close>, \<open>RFC5646\<close>, \<open>RFC7230\<close>, \<open>RFC5322\<close>, \<open>RFC7231\<close>,
    \<open>RFC7232\<close>, \<open>RFC7233\<close>, \<open>RFC5536\<close>, \<open>RFC2229\<close>, \<open>ISO32000\<close>: the grammars, one constant per terminal,
    alias and struct of the header of that name, in its order, with theorems on the languages of
    some rules (C38 to C40 and others). The name of a constant is the C++ name with the grammar in front.

  \<^item> \<open>Lru_Cache\<close>: \<^verbatim>\<open>lru_cache::operator[]\<close> over a deque and a loader with a state of its own; what a
    sequence of reads and writes leaves in the cache (C17) and returns (C18).
  \<^item> \<open>Keyed_Store\<close>: the locale \<open>keyed_store\<close>, the contract of a container with unique keys; any
    sequence of calls on a container that keeps it answers as a mathematical map.
  \<^item> \<open>Hash_Map\<close>: insert, exists, remove and indexing of \<^verbatim>\<open>concurrent/hash_map.hpp\<close> as one thread sees
    them, one function per member function with the template parameter as an argument; the
    interpretation of \<open>keyed_store\<close> and C13.
  \<^item> \<open>Hash_Map_Iteration\<close>: the scans of \<^verbatim>\<open>_begin\<close>, \<^verbatim>\<open>_next\<close>, \<^verbatim>\<open>_back\<close>, \<^verbatim>\<open>_prev\<close> and the iterator. The locale
    \<open>direction\<close> states what the two directions share; a loop over the map ends exactly when no key
    has the extreme nibble at the end of its path (C16 forwards).
  \<^item> \<open>Hash_Map_Race\<close>: concurrent insertions as a step relation over the atomic loads and
    exchanges of \<open>insert\<close>, with any interleaving. The loser of a race for an inner bucket goes on with a node
    that it has deleted (\<open>insert_race_loser_uses_deleted\<close>), which is undefined behaviour and ends the
    execution of the model; C14 and C15 speak of the executions without such a read.

  \<^item> \<open>Mapped_File\<close>: how \<^verbatim>\<open>mapped_file.hpp\<close> sizes a file and numbers its pages on Unix and on Windows.
    The locale \<open>page_file\<close> is what the B-tree needs of it, that \<open>append\<close> hands out a new page; the
    Windows version is interpreted, the Unix version throws instead (\<open>unix_append_throws\<close>).
  \<^item> \<open>Page_Cache\<close>: the cache of \<^verbatim>\<open>btree.hpp\<close> over \<open>Lru_Cache\<close>; an access to page \<open>i\<close> gives a view of
    page \<open>i\<close> whatever was read and dropped before.
  \<^item> \<open>Btree\<close>: the model of \<^verbatim>\<open>btree.hpp\<close>, one function per member function, over the record \<open>btree\<close> of
    the file header, the pages and the state of the file. A page is a \<open>Free_page\<close>, a \<open>Leaf_page\<close> or
    a \<open>Branch_page\<close>; its arrays are functions off indices. \<open>None\<close> is an operation that takes a page
    for one of another type, which the properties exclude.
  \<^item> \<open>Btree_Arrays\<close>, \<open>Btree_Search\<close>: the array loops as list operations and the binary searches.
  \<^item> \<open>Btree_Shape\<close>: the abstract tree \<open>bt\<close>; \<open>rep\<close> relates pages to it, \<open>okt\<close> is the search-tree
    order with uniform height, \<open>chain\<close> the links of the leaves.
  \<^item> \<open>Btree_Alloc\<close>, \<open>Btree_State\<close>: the account \<open>alloc_ok\<close> of pages in use and free, and \<open>bt_holds\<close>,
    when a B-tree holds a tree.
  \<^item> \<open>Btree_Insert\<close>, \<open>Btree_Insert_Branch\<close>, \<open>Btree_Update\<close>: insertion with leaf and branch splits up to
    the root, \<open>update\<close>, \<open>insert_or_assign\<close> and the proxy of \<open>operator[]\<close>.
  \<^item> \<open>Btree_Erase\<close>, \<open>Btree_Clear\<close>: erasure with the unlinking and freeing of emptied nodes, the
    lowering of the root, \<open>clear\<close>.
  \<^item> \<open>Btree_Iteration\<close>: the loop from \<open>begin()\<close> to \<open>end()\<close> along the leaf links.
  \<^item> \<open>Btree_Properties\<close>: the interpretation of \<open>keyed_store\<close> on the B-tree over a Windows file, and
    C10 to C12, which are about Windows files only: on Unix the first insertion throws.

  \<^item> \<open>Interleaving\<close>: threads that share a state, as program points with the moves they can make, one
    atomic access each. The locale \<open>invariant_system\<close> carries an invariant over any interleaving,
    \<open>exclusive_lock\<close> extends it by the contract of a lock.
  \<^item> \<open>Spin_Lock\<close>, \<open>Recursive_Lock\<close>, \<open>Rw_Lock\<close>: the locks of \<^verbatim>\<open>concurrent\<close>. The spin lock excludes (C22),
    the recursive lock exactly when the hashes of the thread ids differ from one another and from
    the free value and no thread nests more than \<open>2 ^ 32\<close> times (C23), the reader/writer lock without \<open>lock_write\<close> for fewer than \<open>2 ^ 31\<close> threads
    (C24), and with \<open>lock_write\<close> never (\<open>rw_lock_write_seizes\<close>).
  \<^item> \<open>Stack\<close>: the lock-free stack over a heap of nodes. With one thread that pops it is a stack in every
    interleaving (C21); with two a deleted node is read.

  \<^item> \<open>Rpc_Marshal\<close>, \<open>Rpc\<close>: marshalling of \<^verbatim>\<open>rpc.hpp\<close> as the locale \<open>codec\<close> and its interpretations (C26), the
    dispatch of the server, the client and the in-process transport, the interpretation of the
    locales \<open>rpc_transport\<close> and \<open>local_transport\<close>: a remote call is the call (C25) unless client and server disagree
    about the size of an argument (\<open>rpc_argument_size_mismatch\<close>).
  \<^item> \<open>Porter\<close>, \<open>Porter_Word\<close>, \<open>Porter_Refines\<close>, \<open>Porter_Properties\<close>: the stemmer over its buffer and
    offsets, the stemming function on words that it computes (C27), and the words for which it reads
    in front of its buffer (C28).

  \<^item> \<open>Xstring\<close>, \<open>Xstring_Properties\<close>, \<open>Xstring_Split\<close>: \<^verbatim>\<open>string.hpp\<close>. Trimming, replacing and removing characters, the three
    \<open>split\<close>s, formatting of numbers and texts; splitting is the inverse of joining (C32), replacing a substring rewrites
    its first occurrence until there is none, and ends but in one case (C33).
  \<^item> \<open>Bytes\<close>, \<open>Unique_Id\<close>: numbers as bytes, and the identifiers of \<^verbatim>\<open>unique_id.hpp\<close> read from and printed as text.
  \<^item> \<open>Mapped_Vector\<close>: \<^verbatim>\<open>mapped_vector.hpp\<close> over pages reached through the cache. The locale \<open>page_loading\<close> is what it
    needs of a file, interpreted by the Windows and the Unix version; it is a list while its items fit (C34).
  \<^item> \<open>Callback\<close>, \<open>Socket\<close>: the receivers of \<^verbatim>\<open>callback.hpp\<close> (C36); the ownership of descriptors, those that a socket
    is given included (C30), the serialisers, which read into an object that is there (C31) and the waiting of \<^verbatim>\<open>socket.hpp\<close>.
  \<^item> \<open>Wordnet_File\<close>, \<open>Wordnet_Find\<close>, \<open>Wordnet\<close>, \<open>Wordnet_Old\<close>: the two readers of the WordNet files, by binary search
    over positions (\<^verbatim>\<open>nlp/wordnet.hpp\<close>, C29) and into maps (\<^verbatim>\<open>nlp/wordnet_old.hpp\<close>).
  \<^item> \<open>Text_Processing\<close>: tokenizer, case converter, chains of processes, sentence boundaries, parts of speech.
  \<^item> \<open>File_Path\<close>: the path class of \<^verbatim>\<open>filesystem.hpp\<close> and the directories \<open>create_directories\<close> makes.
  \<^item> \<open>Dynamic_Object\<close>: \<^verbatim>\<open>var.hpp\<close> and \<^verbatim>\<open>dynamic_object.hpp\<close>; an object is a map from properties to values (C35).
  \<^item> \<open>Exceptions\<close>, \<open>Logging\<close>, \<open>Sqlite\<close>: \<^verbatim>\<open>source_location.hpp\<close> and \<^verbatim>\<open>exception.hpp\<close>; the queue and the thread of
    \<^verbatim>\<open>log.hpp\<close> as a step relation (C19, C20); commands and transactions of \<^verbatim>\<open>sqlite.hpp\<close> (C37).

  \<^bold>\<open>Correspondence.\<close> A C++ rule type is the value of type \<open>rule\<close> that is built from it, so the
  type of a node and the \<open>failed_rule\<close> of an error are rules. A struct that is used before it is
  defined is a \<open>RuleRef\<close>, which a grammar (a map from struct names to rules) resolves; two grammars
  have such a cycle, the nested comments of RFC 5322 and RFC 7230. All other references are the
  constants themselves. An iterator is the text from it to the end of the input.

  \<^bold>\<open>Fuel.\<close> The second argument of \<open>parse\<close> bounds the nesting of \<open>RuleRef\<close>s, the only recursion
  of the program that is not bounded by the size of a type; \<open>None\<close> stands for a stack that
  overflows. The length of the input plus one is enough for every guarded grammar (C3), results
  do not depend on it (\<open>parse_result_unique\<close>), and a left-recursive struct has no result for any fuel
  (\<open>left_recursion_never_returns\<close>). The
  loops of the repetitions count their iterations by the length of the input, which is enough
  because an iteration that does not move ends the loop.

  The recursions of the B-tree down the tree carry the height of the header plus one, which is
  enough because the header's height is that of the tree (\<open>bt_holds\<close>); its iteration is run for the
  size plus one steps, which is enough because no leaf is empty. The loops of \<open>ast_repeat\<close> count their
  turns like those of the first engine, and the destructor of the stack needs as many turns as there
  are nodes (\<open>stack_destructor_frees_all\<close>). The loop of the first two \<open>split\<close>s has one turn per character and one more,
  since each turn moves on, and the loop over a mapped vector one per item and one more. Loops that may not end
  (\<open>replace_text\<close>, \<open>sbd_scan\<close>, \<open>old_records\<close>) are partial functions, and it is proved when they return.

  \<^bold>\<open>Not modelled.\<close> The links from a node to its parent, which no parser code reads, and regular
  expressions beyond sequences of character classes with a quantifier, the only ones in the
  library. The destructors, and races of removals in the hash map. The encoding of
  B-tree pages in bytes and the order derived from the page size: the order is any number from
  two on. System calls are assumed to succeed except for the rule that an offset given to \<^verbatim>\<open>mmap\<close>
  is a multiple of the page size. The atomic accesses of the locks and the stack are sequentially
  consistent, as the code writes them without a weaker order. The transports of \<^verbatim>\<open>rpc.hpp\<close> over sockets
  and pipes, which move a payload by system calls. \<^verbatim>\<open>concurrent/queue.hpp\<close> is inside \<^verbatim>\<open>#if 0\<close>. The
  conversions between character types and locales of \<^verbatim>\<open>string.hpp\<close>, which call the C and C++ libraries. Of
  sockets, files, processes, SQLite and Windows only what is more than one call of the system or the library; the
  calls themselves are parameters or left out. \<^verbatim>\<open>tuple.hpp\<close>, \<^verbatim>\<open>meta.hpp\<close> and their like compute types. The manifest
  lists the headers that are left out.
\<close>

end
